(* ===== verification/Prelude.thy ===== *)
theory Prelude
  imports Main "HOL-Library.Signed_Division"
begin

text \<open>
  What every component shares: Go's 64-bit integers with their wrap-around written out,
  Go's truncating division, instants and durations of package \<open>time\<close>, Go maps as partial
  functions, and the collections of rewrite rules the component proofs use.
\<close>

named_theorems op_defs
  \<comment> \<open>definitions of the operations of the cache, unfolded together\<close>

named_theorems keep_simps
  \<comment> \<open>which field of the state an operation leaves alone\<close>

subsection \<open>Go integers\<close>

text \<open>
  \<open>int\<close> and \<open>int64\<close> are both 64 bits wide on the platforms the server is built for. Values
  are kept as mathematical integers and every multiplication or addition that can leave the
  range goes through \<open>wrap64\<close>.
\<close>

definition wrap64 :: "int \<Rightarrow> int" where
  "wrap64 x = (x + 2 ^ 63) mod 2 ^ 64 - 2 ^ 63"

definition in_i64 :: "int \<Rightarrow> bool" where
  "in_i64 x \<longleftrightarrow> - (2 ^ 63) \<le> x \<and> x < 2 ^ 63"

lemma wrap64_id: "in_i64 x \<Longrightarrow> wrap64 x = x"
  by (simp add: wrap64_def in_i64_def)

lemma in_i64_wrap64 [simp]: "in_i64 (wrap64 x)"
proof -
  have "0 \<le> (x + 2 ^ 63) mod 2 ^ 64" and "(x + 2 ^ 63) mod 2 ^ 64 < 2 ^ 64"
    by simp_all
  then show ?thesis by (simp add: wrap64_def in_i64_def)
qed

lemma wrap64_nonneg_small: "0 \<le> x \<Longrightarrow> x < 2 ^ 63 \<Longrightarrow> wrap64 x = x"
  by (rule wrap64_id) (simp add: in_i64_def)

lemma wrap64_add: "wrap64 (wrap64 x + y) = wrap64 (x + y)"
proof -
  have "(wrap64 x + y + 2 ^ 63) mod 2 ^ 64 = (x + y + 2 ^ 63) mod 2 ^ 64"
    unfolding wrap64_def by (simp add: mod_simps algebra_simps)
  then show ?thesis by (simp add: wrap64_def)
qed

text \<open>Go's \<open>/\<close> and \<open>%\<close> on signed integers truncate towards zero.\<close>

definition go_div :: "int \<Rightarrow> int \<Rightarrow> int" where
  "go_div a b = a sdiv b"

definition go_mod :: "int \<Rightarrow> int \<Rightarrow> int" where
  "go_mod a b = a smod b"

lemma go_div_nonneg: "0 \<le> a \<Longrightarrow> 0 \<le> b \<Longrightarrow> go_div a b = a div b"
  by (simp add: go_div_def signed_divide_int_def sgn_if)

lemma go_mod_nonneg: "0 \<le> a \<Longrightarrow> 0 \<le> b \<Longrightarrow> go_mod a b = a mod b"
  by (simp add: go_mod_def signed_modulo_int_def signed_divide_int_def sgn_if minus_div_mult_eq_mod)

text \<open>\<open>(a + b/2) / b\<close> for \<open>a \<ge> 0\<close>, \<open>b > 0\<close>: rounding to the nearest, halves up.\<close>

definition round_half_up :: "int \<Rightarrow> int \<Rightarrow> int" where
  "round_half_up a b = (a + b div 2) div b"

lemma round_half_up_nonneg: "0 \<le> a \<Longrightarrow> 0 < b \<Longrightarrow> 0 \<le> round_half_up a b"
  by (simp add: round_half_up_def pos_imp_zdiv_nonneg_iff)

lemma round_half_up_mono: "a \<le> a' \<Longrightarrow> 0 < b \<Longrightarrow> round_half_up a b \<le> round_half_up a' b"
  by (simp add: round_half_up_def zdiv_mono1)

lemma round_half_up_error:
  assumes "0 < b"
  shows "2 * \<bar>round_half_up a b * b - a\<bar> \<le> b"
proof -
  define q r where "q = (a + b div 2) div b" and "r = (a + b div 2) mod b"
  have qr: "a + b div 2 = q * b + r" by (simp add: q_def r_def)
  have r: "0 \<le> r" "r < b" using assms by (simp_all add: r_def)
  have h: "2 * (b div 2) \<le> b" "b \<le> 2 * (b div 2) + 1" by presburger+
  have "round_half_up a b * b - a = b div 2 - r" using qr by (simp add: round_half_up_def q_def)
  moreover have "2 * \<bar>k - r\<bar> \<le> b" if "2 * k \<le> b" "b \<le> 2 * k + 1" for k
    using r that by arith
  ultimately show ?thesis using h by simp
qed

lemma round_half_up_exact: "0 < b \<Longrightarrow> round_half_up (k * b) b = k"
  by (simp add: round_half_up_def)

subsection \<open>Instants and durations\<close>

text \<open>
  \<open>time.Time\<close> is the number of nanoseconds since the zero time, so \<open>IsZero\<close> is equality
  with \<open>0\<close>; \<open>time.Duration\<close> is an \<open>int64\<close> of nanoseconds. \<open>Sub\<close> saturates.
\<close>

type_synonym gotime = int
type_synonym duration = int

definition second :: duration where "second = 1000000000"
definition minute :: duration where "minute = 60 * second"
definition hour :: duration where "hour = 60 * minute"

lemmas duration_defs = second_def minute_def hour_def

definition is_zero :: "gotime \<Rightarrow> bool" where
  "is_zero t \<longleftrightarrow> t = 0"

definition after :: "gotime \<Rightarrow> gotime \<Rightarrow> bool" where
  "after t u \<longleftrightarrow> u < t"

definition before :: "gotime \<Rightarrow> gotime \<Rightarrow> bool" where
  "before t u \<longleftrightarrow> t < u"

definition time_sub :: "gotime \<Rightarrow> gotime \<Rightarrow> duration" where
  "time_sub t u = max (- (2 ^ 63)) (min (2 ^ 63 - 1) (t - u))"

lemmas time_simps [simp] = is_zero_def after_def before_def

definition secs :: "int \<Rightarrow> duration" where
  \<comment> \<open>\<open>time.Duration(n) * time.Second\<close>\<close>
  "secs n = wrap64 (n * second)"

lemma secs_id: "0 \<le> n \<Longrightarrow> n \<le> 9223372036 \<Longrightarrow> secs n = n * second"
  by (simp add: secs_def second_def wrap64_id in_i64_def)

subsection \<open>Maps\<close>

text \<open>Deleting, in one pass over a Go map, the entries a test condemns.\<close>

definition sweep_map :: "('v \<Rightarrow> bool) \<Rightarrow> ('k \<rightharpoonup> 'v) \<Rightarrow> ('k \<rightharpoonup> 'v)" where
  "sweep_map dead m = (\<lambda>k. case m k of None \<Rightarrow> None | Some v \<Rightarrow> if dead v then None else Some v)"

lemma sweep_map_None [simp]: "m k = None \<Longrightarrow> sweep_map dead m k = None"
  by (simp add: sweep_map_def)

lemma sweep_map_Some [simp]:
  "m k = Some v \<Longrightarrow> sweep_map dead m k = (if dead v then None else Some v)"
  by (simp add: sweep_map_def)

lemma sweep_map_eq_Some:
  "sweep_map dead m k = Some v \<longleftrightarrow> m k = Some v \<and> \<not> dead v"
  by (auto simp: sweep_map_def split: option.splits if_splits)

lemma dom_sweep_map: "dom (sweep_map dead m) \<subseteq> dom m"
  by (auto simp: dom_def sweep_map_eq_Some)

text \<open>Reading a Go map at a missing key gives the zero value of the element type.\<close>

definition get_or :: "'v \<Rightarrow> ('k \<rightharpoonup> 'v) \<Rightarrow> 'k \<Rightarrow> 'v" where
  "get_or z m k = (case m k of None \<Rightarrow> z | Some v \<Rightarrow> v)"

lemma get_or_simps [simp]:
  "m k = None \<Longrightarrow> get_or z m k = z"
  "m k = Some v \<Longrightarrow> get_or z m k = v"
  "get_or z (m(k \<mapsto> v)) k = v"
  "k' \<noteq> k \<Longrightarrow> get_or z (m(k \<mapsto> v)) k' = get_or z m k'"
  by (simp_all add: get_or_def)

text \<open>A loop over a Go slice that keeps the elements a test accepts, in order.\<close>

lemma filter_filter_imp:
  "(\<And>x. x \<in> set xs \<Longrightarrow> P x \<Longrightarrow> Q x) \<Longrightarrow> filter P (filter Q xs) = filter P xs"
  by (induction xs) auto

text \<open>Cutting a Go slice to its last \<open>n\<close> elements when it has more.\<close>

definition keep_last :: "nat \<Rightarrow> 'a list \<Rightarrow> 'a list" where
  "keep_last n xs = (if n < length xs then drop (length xs - n) xs else xs)"

lemma keep_last_drop: "keep_last n xs = drop (length xs - n) xs"
  by (simp add: keep_last_def)

lemma keep_last_length [simp]: "length (keep_last n xs) = min n (length xs)"
  by (simp add: keep_last_drop)

lemma keep_last_snoc: "keep_last n (keep_last n xs @ [x]) = keep_last n (xs @ [x])"
  by (cases "n \<le> length xs") (auto simp: keep_last_drop Suc_diff_le)

subsection \<open>Results\<close>

text \<open>An early return on an error, then the rest.\<close>

fun and_then :: "'e + 'a \<Rightarrow> ('a \<Rightarrow> 'e + 'b) \<Rightarrow> 'e + 'b" where
  "and_then (Inl e) f = Inl e"
| "and_then (Inr x) f = f x"

lemma and_then_Inr [simp]: "and_then x f = Inr y \<longleftrightarrow> (\<exists>a. x = Inr a \<and> f a = Inr y)"
  by (cases x) simp_all

end
