(* ===== verification/GoText.thy ===== *)
theory GoText
  imports Prelude
begin

text \<open>
  The functions of Go's \<open>strings\<close> and \<open>strconv\<close> packages the program uses, on byte strings.
  \<open>trim_space\<close> is exact on every byte string: it strips the UTF-8 encodings of the runes
  \<open>unicode.IsSpace\<close> accepts. \<open>to_lower\<close> and \<open>equal_fold\<close> are exact on ASCII and on every rune
  whose lower case or fold is ASCII; other letters are left alone, which no comparison
  with an ASCII literal, the only use the program makes of them, can tell apart.
\<close>

subsection \<open>Trimming\<close>

fun strip_prefix :: "string \<Rightarrow> string \<Rightarrow> string option" where
  "strip_prefix [] s = Some s"
| "strip_prefix (p # ps) [] = None"
| "strip_prefix (p # ps) (c # cs) = (if p = c then strip_prefix ps cs else None)"

fun strip_any :: "string list \<Rightarrow> string \<Rightarrow> string option" where
  "strip_any [] s = None"
| "strip_any (p # ps) s = (case strip_prefix p s of Some t \<Rightarrow> Some t | None \<Rightarrow> strip_any ps s)"

definition space_codes :: "string list" where
  "space_codes =
     [[CHR 0x20], [CHR 0x09], [CHR 0x0A], [CHR 0x0B], [CHR 0x0C], [CHR 0x0D],
      [CHR 0xC2, CHR 0x85], [CHR 0xC2, CHR 0xA0], [CHR 0xE1, CHR 0x9A, CHR 0x80],
      [CHR 0xE2, CHR 0x80, CHR 0x80], [CHR 0xE2, CHR 0x80, CHR 0x81],
      [CHR 0xE2, CHR 0x80, CHR 0x82], [CHR 0xE2, CHR 0x80, CHR 0x83],
      [CHR 0xE2, CHR 0x80, CHR 0x84], [CHR 0xE2, CHR 0x80, CHR 0x85],
      [CHR 0xE2, CHR 0x80, CHR 0x86], [CHR 0xE2, CHR 0x80, CHR 0x87],
      [CHR 0xE2, CHR 0x80, CHR 0x88], [CHR 0xE2, CHR 0x80, CHR 0x89],
      [CHR 0xE2, CHR 0x80, CHR 0x8A], [CHR 0xE2, CHR 0x80, CHR 0xA8],
      [CHR 0xE2, CHR 0x80, CHR 0xA9], [CHR 0xE2, CHR 0x80, CHR 0xAF],
      [CHR 0xE2, CHR 0x81, CHR 0x9F], [CHR 0xE3, CHR 0x80, CHR 0x80]]"

function trim_by :: "string list \<Rightarrow> string \<Rightarrow> string" where
  "trim_by codes s =
     (case strip_any codes s of
        None \<Rightarrow> s
      | Some t \<Rightarrow> if length t < length s then trim_by codes t else s)"
  by pat_completeness auto
termination
  by (relation "measure (\<lambda>(codes, s). length s)") auto

declare trim_by.simps [simp del]

definition trim_left :: "string \<Rightarrow> string" where
  "trim_left s = trim_by space_codes s"

definition trim_right :: "string \<Rightarrow> string" where
  "trim_right s = rev (trim_by (map rev space_codes) (rev s))"

definition trim_space :: "string \<Rightarrow> string" where
  "trim_space s = trim_right (trim_left s)"

text \<open>The sequences stripped are never empty, so trimming stops exactly when none is left.\<close>

lemma strip_prefix_length: "strip_prefix p s = Some t \<Longrightarrow> length s = length p + length t"
  by (induction p s rule: strip_prefix.induct) (auto split: if_splits)

lemma strip_prefix_append: "strip_prefix p s = Some t \<Longrightarrow> strip_prefix p (s @ u) = Some (t @ u)"
  by (induction p s rule: strip_prefix.induct) (auto split: if_splits)

lemma strip_prefix_self [simp]: "strip_prefix p (p @ s) = Some s"
  by (induction p) auto

lemma strip_prefix_Some: "strip_prefix p s = Some t \<Longrightarrow> s = p @ t"
  by (induction p s rule: strip_prefix.induct) (auto split: if_splits)

lemma strip_any_Some:
  "strip_any ps s = Some t \<Longrightarrow> \<exists>p \<in> set ps. s = p @ t"
  by (induction ps) (auto split: option.splits dest: strip_prefix_Some)

lemma strip_any_None:
  "strip_any ps s = None \<longleftrightarrow> (\<forall>p \<in> set ps. strip_prefix p s = None)"
  by (induction ps) (auto split: option.splits)

lemma strip_any_None_append:
  "strip_any ps (s @ u) = None \<Longrightarrow> strip_any ps s = None"
  by (auto simp: strip_any_None dest: strip_prefix_append) (metis not_None_eq strip_prefix_append)

lemma trim_by_suffix: "\<exists>u. s = u @ trim_by codes s"
proof (induction codes s rule: trim_by.induct)
  case (1 codes s)
  show ?case
  proof (cases "strip_any codes s")
    case None
    then show ?thesis by (subst trim_by.simps) simp
  next
    case (Some t)
    then obtain p where p: "s = p @ t" using strip_any_Some by blast
    show ?thesis
    proof (cases "length t < length s")
      case True
      from "1.IH" [OF Some True] obtain u where "t = u @ trim_by codes t" ..
      then have "s = (p @ u) @ trim_by codes t" using p by simp
      moreover have "trim_by codes s = trim_by codes t"
        using Some True by (subst trim_by.simps) simp
      ultimately show ?thesis by metis
    next
      case False
      then show ?thesis using Some by (subst trim_by.simps) simp
    qed
  qed
qed

lemma trim_by_stop: "strip_any codes s = None \<Longrightarrow> trim_by codes s = s"
  by (subst trim_by.simps) simp

lemma strip_any_trim_by:
  assumes "[] \<notin> set codes"
  shows "strip_any codes (trim_by codes s) = None"
  using assms
proof (induction codes s rule: trim_by.induct)
  case (1 codes s)
  show ?case
  proof (cases "strip_any codes s")
    case None
    then show ?thesis by (simp add: trim_by_stop)
  next
    case (Some t)
    obtain p where p: "p \<in> set codes" "s = p @ t" using strip_any_Some [OF Some] by blast
    then have "p \<noteq> []" using "1.prems" by auto
    then have lt: "length t < length s" using p by simp
    then have "trim_by codes s = trim_by codes t"
      using Some by (subst trim_by.simps) simp
    then show ?thesis using "1.IH" [OF Some lt "1.prems"] by simp
  qed
qed

lemma space_codes_nonempty [simp]: "[] \<notin> set space_codes" "[] \<notin> set (map rev space_codes)"
  by (auto simp: space_codes_def)

definition trimmed :: "string \<Rightarrow> bool" where
  "trimmed s \<longleftrightarrow> strip_any space_codes s = None \<and> strip_any (map rev space_codes) (rev s) = None"

lemma trim_space_trimmed: "trimmed s \<Longrightarrow> trim_space s = s"
  by (simp add: trimmed_def trim_space_def trim_left_def trim_right_def trim_by_stop)

lemma trimmed_trim_space: "trimmed (trim_space s)"
proof -
  have l: "strip_any space_codes (trim_left s) = None"
    by (simp add: trim_left_def strip_any_trim_by)
  obtain u where "rev (trim_left s) = u @ trim_by (map rev space_codes) (rev (trim_left s))"
    using trim_by_suffix by blast
  then have "trim_left s = trim_space s @ rev u"
    by (metis rev_append rev_rev_ident trim_right_def trim_space_def)
  with l have "strip_any space_codes (trim_space s) = None"
    by (metis strip_any_None_append)
  moreover have "strip_any (map rev space_codes) (rev (trim_space s)) = None"
    unfolding trim_space_def trim_right_def rev_rev_ident
    by (rule strip_any_trim_by) (rule space_codes_nonempty)
  ultimately show ?thesis by (simp add: trimmed_def)
qed

lemma trim_space_idem [simp]: "trim_space (trim_space s) = trim_space s"
  by (simp add: trim_space_trimmed trimmed_trim_space)

lemma trim_space_Nil [simp]: "trim_space [] = []"
  by (rule trim_space_trimmed) (simp add: trimmed_def space_codes_def)

text \<open>A string whose first and last bytes are printable ASCII is already trimmed.\<close>

definition plain_byte :: "char \<Rightarrow> bool" where
  "plain_byte c \<longleftrightarrow> 32 < (of_char c :: nat) \<and> (of_char c :: nat) < 128"

lemma strip_prefix_Cons_None: "p \<noteq> [] \<Longrightarrow> hd p \<noteq> c \<Longrightarrow> strip_prefix p (c # cs) = None"
  by (cases p) auto

lemma space_codes_heads:
  "p \<in> set space_codes \<Longrightarrow> \<not> plain_byte (hd p) \<and> \<not> plain_byte (last p)"
  unfolding space_codes_def by (auto simp: plain_byte_def)

lemma trimmed_plain:
  assumes "s \<noteq> []" and "plain_byte (hd s)" and "plain_byte (last s)"
  shows "trimmed s"
proof -
  have "strip_prefix p s = None" if "p \<in> set space_codes" for p
    using that assms space_codes_heads [OF that] space_codes_nonempty(1)
    by (cases s) (auto intro!: strip_prefix_Cons_None)
  moreover have "strip_prefix (rev p) (rev s) = None" if "p \<in> set space_codes" for p
    using that assms space_codes_heads [OF that] space_codes_nonempty(1)
    by (cases s rule: rev_cases) (auto intro!: strip_prefix_Cons_None simp: hd_rev)
  ultimately show ?thesis by (auto simp: trimmed_def strip_any_None)
qed

lemma trim_space_plain [simp]:
  "s \<noteq> [] \<Longrightarrow> plain_byte (hd s) \<Longrightarrow> plain_byte (last s) \<Longrightarrow> trim_space s = s"
  by (simp add: trim_space_trimmed trimmed_plain)

lemma trim_by_keeps:
  assumes "\<forall>p \<in> set codes. c \<notin> set p" "c \<in> set s"
  shows "c \<in> set (trim_by codes s)"
  using assms
proof (induction codes s rule: trim_by.induct)
  case (1 codes s)
  show ?case
  proof (cases "strip_any codes s")
    case (Some t)
    then obtain p where "p \<in> set codes" "s = p @ t" using strip_any_Some by blast
    then have "c \<in> set t" using "1.prems" by auto
    then show ?thesis using Some "1.IH" "1.prems" by (subst trim_by.simps) simp
  qed (use "1.prems" in \<open>simp add: trim_by_stop\<close>)
qed

lemma trim_space_not_blank: "c \<in> set s \<Longrightarrow> plain_byte c \<Longrightarrow> trim_space s \<noteq> []"
proof -
  assume c: "c \<in> set s" "plain_byte c"
  have "\<forall>p \<in> set space_codes. \<forall>x \<in> set p. \<not> plain_byte x" unfolding space_codes_def by (auto simp: plain_byte_def)
  then have free: "\<forall>p \<in> set space_codes. c \<notin> set p" "\<forall>p \<in> set (map rev space_codes). c \<notin> set p" using c(2) by auto
  have "c \<in> set (trim_left s)" unfolding trim_left_def by (rule trim_by_keeps [OF free(1) c(1)])
  then have "c \<in> set (trim_space s)"
    unfolding trim_space_def trim_right_def using trim_by_keeps [OF free(2), of "rev (trim_left s)"] by simp
  then show ?thesis by auto
qed

lemma plain_byte_code [simp]: "plain_byte c = (32 < (of_char c :: nat) \<and> (of_char c :: nat) < 128)"
  by (simp add: plain_byte_def)

subsection \<open>Case\<close>

definition lower_byte :: "char \<Rightarrow> char" where
  "lower_byte c =
     (let n = (of_char c :: nat) in if 65 \<le> n \<and> n \<le> 90 then char_of (n + 32) else c)"

definition upper_byte :: "char \<Rightarrow> char" where
  "upper_byte c =
     (let n = (of_char c :: nat) in if 97 \<le> n \<and> n \<le> 122 then char_of (n - 32) else c)"

text \<open>\<open>unicode.ToLower\<close> sends U+0130 to \<open>i\<close> and the Kelvin sign U+212A to \<open>k\<close>.\<close>

fun to_lower :: "string \<Rightarrow> string" where
  "to_lower [] = []"
| "to_lower (c # cs) =
     (if c = CHR 0xC4 \<and> take 1 cs = [CHR 0xB0] then CHR ''i'' # to_lower (drop 1 cs)
      else if c = CHR 0xE2 \<and> take 2 cs = [CHR 0x84, CHR 0xAA] then CHR ''k'' # to_lower (drop 2 cs)
      else lower_byte c # to_lower cs)"

text \<open>Printable ASCII without capitals: such a text is its own trimmed lower case.\<close>

definition name_byte :: "char \<Rightarrow> bool" where
  "name_byte c \<longleftrightarrow>
     (let n = (of_char c :: nat) in 32 < n \<and> n < 128 \<and> \<not> (65 \<le> n \<and> n \<le> 90))"

lemma to_lower_names: "list_all name_byte s \<Longrightarrow> to_lower s = s"
  by (induction s rule: to_lower.induct) (auto simp: name_byte_def lower_byte_def Let_def)

lemma trim_lower_name:
  assumes "list_all name_byte s" and "s \<noteq> []"
  shows "trim_space (to_lower s) = s"
proof -
  have "name_byte (hd s)" "name_byte (last s)" using assms by (auto simp: list_all_iff)
  then have "plain_byte (hd s)" "plain_byte (last s)" by (simp_all add: name_byte_def Let_def)
  then show ?thesis using assms to_lower_names trim_space_plain by metis
qed

text \<open>\<open>unicode.ToUpper\<close> sends U+017F to \<open>S\<close> and the dotless U+0131 to \<open>I\<close>.\<close>

fun to_upper :: "string \<Rightarrow> string" where
  "to_upper [] = []"
| "to_upper (c # cs) =
     (if c = CHR 0xC5 \<and> take 1 cs = [CHR 0xBF] then CHR ''S'' # to_upper (drop 1 cs)
      else if c = CHR 0xC4 \<and> take 1 cs = [CHR 0xB1] then CHR ''I'' # to_upper (drop 1 cs)
      else upper_byte c # to_upper cs)"

text \<open>Simple folding joins U+017F with \<open>s\<close> and U+212A with \<open>k\<close>.\<close>

fun fold_key :: "string \<Rightarrow> string" where
  "fold_key [] = []"
| "fold_key (c # cs) =
     (if c = CHR 0xC5 \<and> take 1 cs = [CHR 0xBF] then CHR ''s'' # fold_key (drop 1 cs)
      else if c = CHR 0xE2 \<and> take 2 cs = [CHR 0x84, CHR 0xAA] then CHR ''k'' # fold_key (drop 2 cs)
      else lower_byte c # fold_key cs)"

definition equal_fold :: "string \<Rightarrow> string \<Rightarrow> bool" where
  "equal_fold s t \<longleftrightarrow> fold_key s = fold_key t"

lemma equal_fold_refl [simp]: "equal_fold s s"
  by (simp add: equal_fold_def)

subsection \<open>Searching and replacing\<close>

definition has_prefix :: "string \<Rightarrow> string \<Rightarrow> bool" where
  "has_prefix s p \<longleftrightarrow> strip_prefix p s \<noteq> None"

fun contains :: "string \<Rightarrow> string \<Rightarrow> bool" where
  "contains [] p \<longleftrightarrow> p = []"
| "contains (c # cs) p \<longleftrightarrow> has_prefix (c # cs) p \<or> contains cs p"

text \<open>\<open>strings.ReplaceAll\<close> of a one-byte string by a one-byte string.\<close>

definition replace_byte :: "char \<Rightarrow> char \<Rightarrow> string \<Rightarrow> string" where
  "replace_byte a b s = map (\<lambda>c. if c = a then b else c) s"

fun until_byte :: "char \<Rightarrow> string \<Rightarrow> string" where
  "until_byte a [] = []"
| "until_byte a (c # cs) = (if c = a then [] else c # until_byte a cs)"

subsection \<open>Runes\<close>

text \<open>
  Ranging over a string, or \<open>[]rune(s)\<close>: UTF-8 is decoded, and a byte that starts no well-formed
  sequence gives the replacement rune. A rune is kept as its encoding.
\<close>

definition byte_in :: "nat \<Rightarrow> nat \<Rightarrow> char \<Rightarrow> bool" where
  "byte_in lo hi c \<longleftrightarrow> lo \<le> (of_char c :: nat) \<and> (of_char c :: nat) \<le> hi"

definition second_range :: "char \<Rightarrow> nat \<times> nat" where
  "second_range c =
     (let n = (of_char c :: nat)
      in if n = 0xE0 then (0xA0, 0xBF) else if n = 0xED then (0x80, 0x9F)
         else if n = 0xF0 then (0x90, 0xBF) else if n = 0xF4 then (0x80, 0x8F) else (0x80, 0xBF))"

definition rune_length :: "char \<Rightarrow> nat" where
  \<comment> \<open>the length a lead byte announces, \<open>0\<close> for a byte that leads nothing\<close>
  "rune_length c =
     (if byte_in 0 0x7F c then 1 else if byte_in 0xC2 0xDF c then 2
      else if byte_in 0xE0 0xEF c then 3 else if byte_in 0xF0 0xF4 c then 4 else 0)"

definition rune_ok :: "string \<Rightarrow> bool" where
  \<comment> \<open>a non-empty string starts with a well-formed sequence\<close>
  "rune_ok s =
     (let n = rune_length (hd s); rest = take (n - 1) (tl s)
      in n = 1 \<or> (1 < n \<and> length rest = n - 1
           \<and> byte_in (fst (second_range (hd s))) (snd (second_range (hd s))) (hd rest)
           \<and> list_all (byte_in 0x80 0xBF) (tl rest)))"

definition replacement_rune :: string where
  "replacement_rune = [CHR 0xEF, CHR 0xBF, CHR 0xBD]"

function runes_of :: "string \<Rightarrow> string list" where
  "runes_of [] = []"
| "runes_of (c # cs) =
     (if rune_ok (c # cs)
      then (c # take (rune_length c - 1) cs) # runes_of (drop (rune_length c - 1) cs)
      else replacement_rune # runes_of cs)"
  by pat_completeness auto
termination
  by (relation "measure length") auto

definition string_of_runes :: "string list \<Rightarrow> string" where
  "string_of_runes rs = concat rs"

lemma plain_ascii_runes: "list_all (byte_in 0 0x7F) s \<Longrightarrow> runes_of s = map (\<lambda>c. [c]) s"
  by (induction s) (auto simp: rune_ok_def rune_length_def Let_def)

subsection \<open>Decimal numbers\<close>

definition digit_char :: "nat \<Rightarrow> char" where
  "digit_char d = char_of (48 + d)"

fun nat_digits :: "nat \<Rightarrow> string" where
  "nat_digits n = (if n < 10 then [digit_char n] else nat_digits (n div 10) @ [digit_char (n mod 10)])"

declare nat_digits.simps [simp del]

definition itoa :: "int \<Rightarrow> string" where
  "itoa n = (if n < 0 then CHR ''-'' # nat_digits (nat (- n)) else nat_digits (nat n))"

definition is_digit :: "char \<Rightarrow> bool" where
  "is_digit c \<longleftrightarrow> 48 \<le> (of_char c :: nat) \<and> (of_char c :: nat) \<le> 57"

definition digit_val :: "char \<Rightarrow> int" where
  "digit_val c = int (of_char c) - 48"

fun digits_val :: "int \<Rightarrow> string \<Rightarrow> int" where
  "digits_val acc [] = acc"
| "digits_val acc (c # cs) = digits_val (acc * 10 + digit_val c) cs"

text \<open>
  \<open>n, _ := strconv.ParseInt(s, 10, 64)\<close>: \<open>0\<close> on a syntax error, the nearest bound on overflow.
\<close>

definition parse_int64_or :: "string \<Rightarrow> int" where
  "parse_int64_or s =
     (let neg = (s \<noteq> [] \<and> hd s = CHR ''-'');
          ds = (if s \<noteq> [] \<and> (hd s = CHR ''-'' \<or> hd s = CHR ''+'') then tl s else s)
      in if ds = [] \<or> \<not> list_all is_digit ds then 0
         else if neg then max (- (2 ^ 63)) (- digits_val 0 ds)
         else min (2 ^ 63 - 1) (digits_val 0 ds))"

text \<open>\<open>strconv.Atoi\<close> with its error.\<close>

definition atoi :: "string \<Rightarrow> int option" where
  "atoi s =
     (let neg = (s \<noteq> [] \<and> hd s = CHR ''-'');
          ds = (if s \<noteq> [] \<and> (hd s = CHR ''-'' \<or> hd s = CHR ''+'') then tl s else s);
          v = (if neg then - digits_val 0 ds else digits_val 0 ds)
      in if ds = [] \<or> \<not> list_all is_digit ds \<or> \<not> in_i64 v then None else Some v)"

lemma of_char_digit: "d < 10 \<Longrightarrow> (of_char (digit_char d) :: nat) = 48 + d"
  by (simp add: digit_char_def)

lemma is_digit_digit_char [simp]: "d < 10 \<Longrightarrow> is_digit (digit_char d)"
  by (simp add: is_digit_def of_char_digit)

lemma digit_val_digit_char [simp]: "d < 10 \<Longrightarrow> digit_val (digit_char d) = int d"
  by (simp add: digit_val_def of_char_digit)

lemma nat_digits_all: "list_all is_digit (nat_digits n)"
  by (induction n rule: nat_digits.induct) (subst nat_digits.simps, simp)

lemma nat_digits_nonempty [simp]: "nat_digits n \<noteq> []"
  by (subst nat_digits.simps) simp

lemma digits_val_append: "digits_val acc (s @ t) = digits_val (digits_val acc s) t"
  by (induction s arbitrary: acc) auto

lemma digits_val_nat_digits: "digits_val 0 (nat_digits n) = int n"
proof (induction n rule: nat_digits.induct)
  case (1 n)
  show ?case
  proof (cases "n < 10")
    case True
    then show ?thesis by (subst nat_digits.simps) simp
  next
    case False
    then have "digits_val 0 (nat_digits n) = int (n div 10) * 10 + int (n mod 10)"
      using "1.IH" by (subst nat_digits.simps) (simp add: digits_val_append)
    also have "\<dots> = int (n div 10 * 10 + n mod 10)" by (simp only: of_nat_add of_nat_mult of_nat_numeral)
    finally show ?thesis by simp
  qed
qed

lemma nat_digits_inject: "nat_digits m = nat_digits n \<longleftrightarrow> m = n"
  using digits_val_nat_digits by (metis of_nat_eq_iff)

lemma digit_not_sign: "is_digit c \<Longrightarrow> c \<noteq> CHR ''-'' \<and> c \<noteq> CHR ''+'' \<and> c \<noteq> CHR '':''"
  by (auto simp: is_digit_def)

lemma hd_nat_digits: "is_digit (hd (nat_digits n))"
  using nat_digits_all [of n] by (cases "nat_digits n") auto

lemma last_nat_digits: "is_digit (last (nat_digits n))"
  using nat_digits_all [of n] by (auto simp: list_all_iff)

lemma parse_nat_digits: "int n < 2 ^ 63 \<Longrightarrow> parse_int64_or (nat_digits n) = int n"
  using hd_nat_digits [of n] digit_not_sign [of "hd (nat_digits n)"]
  by (simp add: parse_int64_or_def Let_def nat_digits_all digits_val_nat_digits)

lemma trim_nat_digits [simp]: "trim_space (nat_digits n) = nat_digits n"
proof -
  have "plain_byte (hd (nat_digits n))" "plain_byte (last (nat_digits n))"
    using hd_nat_digits [of n] last_nat_digits [of n] by (simp_all add: is_digit_def)
  then show ?thesis by (simp del: plain_byte_code)
qed

lemma until_byte_id: "a \<notin> set s \<Longrightarrow> until_byte a s = s"
  by (induction s) auto

lemma until_byte_append: "a \<notin> set s \<Longrightarrow> until_byte a (s @ a # t) = s"
  by (induction s) auto

lemma not_in_nat_digits: "\<not> is_digit c \<Longrightarrow> c \<notin> set (nat_digits n)"
  using nat_digits_all [of n] by (auto simp: list_all_iff)

text \<open>A key made of a number, a colon and a text can be read back.\<close>

lemma colon_key_inject:
  "nat_digits m @ '':'' @ s = nat_digits n @ '':'' @ t \<longleftrightarrow> m = n \<and> s = t"
proof
  assume eq: "nat_digits m @ '':'' @ s = nat_digits n @ '':'' @ t"
  have nc: "CHR '':'' \<notin> set (nat_digits k)" for k
    by (rule not_in_nat_digits) (simp add: is_digit_def)
  from eq have "until_byte (CHR '':'') (nat_digits m @ CHR '':'' # s)
      = until_byte (CHR '':'') (nat_digits n @ CHR '':'' # t)" by simp
  then have "nat_digits m = nat_digits n" by (simp only: until_byte_append [OF nc])
  with eq show "m = n \<and> s = t" by (simp add: nat_digits_inject)
qed simp

end
