(* ===== verification/CacheState.thy ===== *)
theory CacheState
  imports GoText
begin

text \<open>
  The state of the single-process cache (\<open>infra/cache/memory/cache.go\<close>) and its maintenance
  (\<open>maintenance.go\<close>). One record holds what the Go struct \<open>Cache\<close> holds under its mutex; every
  operation is a function from the state inside the critical section to the state at its end.
  \<open>time.Now()\<close> is the argument \<open>now\<close>: the reads a critical section makes are taken to give the
  same instant. Go channels used for wake-ups are identities in a small store: \<open>make\<close>
  allocates one, \<open>close\<close> marks it.
\<close>

subsection \<open>Errors\<close>

datatype repo_err =
    ErrNotFound | ErrDuplicate | ErrConflict | ErrInvalidInput | ErrInsufficientBalance
  | ErrWeeklyQuotaExceeded | ErrUsageReservationLimitExceeded | ErrFileProcessingQueueFull

text \<open>What \<open>ctx.Err()\<close> can give, and the errors an operation of the cache returns.\<close>

datatype ctx_err = CtxCanceled | CtxDeadlineExceeded

datatype cache_err = Repo repo_err | Ctx ctx_err

subsection \<open>Entries\<close>

record expiring_string =
  es_value :: string
  es_expiresAt :: gotime

record rag_chunk =
  rc_Content :: string
  rc_FileName :: string
  rc_FileID :: string
  rc_ChunkIndex :: int
  rc_ScoreBits :: int  \<comment> \<open>the IEEE bits of the \<open>float32\<close> score, never computed with here\<close>

record expiring_rag =
  er_chunks :: "rag_chunk list"
  er_expiresAt :: gotime

record file_message =
  fm_ID :: string
  fm_UserID :: nat
  fm_FileID :: string
  fm_Retry :: int
  fm_LastError :: string
  fm_Reclaimed :: bool

record file_lease =
  fl_consumerName :: string
  fl_leasedAt :: gotime
  fl_message :: file_message

record stream_message =
  sm_ID :: string
  sm_Seq :: int
  sm_PayloadJSON :: string

record generation_stream =
  gs_ownerID :: nat
  gs_conversationID :: string
  gs_ownerExpiresAt :: gotime
  gs_activeExpiresAt :: gotime
  gs_cancelExpiresAt :: gotime
  gs_eventsExpiresAt :: gotime
  gs_seq :: int
  gs_events :: "stream_message list"
  gs_textContent :: string
  gs_textSeq :: int
  gs_notify :: nat

record circuit_state =
  cs_openUntil :: gotime
  cs_probeUntil :: gotime
  cs_failures :: "gotime list"
  cs_manualOpen :: bool
  cs_lastFailure :: gotime

record upstream_metadata =
  um_lastError :: string
  um_lastFailure :: gotime
  um_lastSuccess :: gotime

record rate_limit_state =
  rl_backoffUntil :: gotime
  rl_backoffCount :: int
  rl_countExpires :: gotime

record api_key_counter =
  ak_next :: int
  ak_lastUsed :: gotime

type_synonym route_rate_limit_key = "nat \<times> nat"

record fixed_window_counter =
  fw_count :: int
  fw_expiresAt :: gotime

record provider_auth_transaction =
  pt_ProviderSlug :: string
  pt_ClientID :: string
  pt_ClientRedirectURI :: string
  pt_ClientState :: string
  pt_ClientCodeChallenge :: string
  pt_ProviderCodeVerifier :: string
  pt_Intent :: string
  pt_Next :: string
  pt_ExpiresAt :: gotime

record provider_auth_grant =
  pg_ProviderSlug :: string
  pg_ClientID :: string
  pg_UserID :: nat
  pg_Subject :: string
  pg_ErrorCode :: string
  pg_ErrorMessage :: string
  pg_ErrorDetails :: string
  pg_ExpiresAt :: gotime

record 'a expiring_auth =
  ea_value :: 'a
  ea_expiresAt :: gotime

subsection \<open>The cache\<close>

record cache =
  ops :: int
  settings :: "string \<rightharpoonup> expiring_string"
  userSettings :: "string \<rightharpoonup> expiring_string"
  userSettingVersions :: "string \<rightharpoonup> expiring_string"
  fileSeq :: int
  fileQueue :: "file_message list"
  fileInflight :: "string \<rightharpoonup> file_lease"
  fileDLQ :: "file_message list"
  fileNotify :: nat
  rag :: "string \<rightharpoonup> expiring_rag"
  streams :: "string \<rightharpoonup> generation_stream"
  streamNotify :: nat
  upstreamCB :: "nat \<rightharpoonup> circuit_state"
  modelCB :: "string \<rightharpoonup> circuit_state"
  upstreamMeta :: "nat \<rightharpoonup> upstream_metadata"
  rateLimits :: "route_rate_limit_key \<rightharpoonup> rate_limit_state"
  keyCounters :: "nat \<rightharpoonup> api_key_counter"
  slidingHTTP :: "string \<rightharpoonup> gotime list"
  fixedHTTP :: "string \<rightharpoonup> fixed_window_counter"
  providerAuthTransactions :: "string \<rightharpoonup> provider_auth_transaction expiring_auth"
  providerAuthGrants :: "string \<rightharpoonup> provider_auth_grant expiring_auth"
  chanNext :: nat              \<comment> \<open>the next channel identity \<open>make\<close> gives\<close>
  chanClosed :: "nat \<Rightarrow> bool"  \<comment> \<open>the channels \<open>close\<close> was called on\<close>

definition new_cache :: cache where
  "new_cache =
     \<lparr>ops = 0, settings = Map.empty, userSettings = Map.empty, userSettingVersions = Map.empty,
      fileSeq = 0, fileQueue = [], fileInflight = Map.empty, fileDLQ = [], fileNotify = 0,
      rag = Map.empty, streams = Map.empty, streamNotify = 1,
      upstreamCB = Map.empty, modelCB = Map.empty, upstreamMeta = Map.empty,
      rateLimits = Map.empty, keyCounters = Map.empty,
      slidingHTTP = Map.empty, fixedHTTP = Map.empty,
      providerAuthTransactions = Map.empty, providerAuthGrants = Map.empty,
      chanNext = 2, chanClosed = (\<lambda>_. False)\<rparr>"

definition ttl_from_now :: "gotime \<Rightarrow> duration \<Rightarrow> gotime" where
  "ttl_from_now now ttl = (if ttl \<le> 0 then now + minute else now + ttl)"

definition expired :: "gotime \<Rightarrow> gotime \<Rightarrow> bool" where
  "expired now t \<longleftrightarrow> \<not> is_zero t \<and> after now t"

lemma ttl_from_now_after: "now < ttl_from_now now ttl"
  by (simp add: ttl_from_now_def duration_defs)

subsection \<open>Channels\<close>

text \<open>
  Closing a closed channel panics in Go, so an operation that closes one has an outcome. The
  caller that follows every close with a new channel is \<open>renew_chan\<close>: it gives the new identity.
\<close>

datatype 'a outcome = Panic | Done 'a

fun bind_outcome :: "'a outcome \<Rightarrow> ('a \<Rightarrow> 'b outcome) \<Rightarrow> 'b outcome" where
  "bind_outcome Panic f = Panic"
| "bind_outcome (Done x) f = f x"

lemma bind_outcome_Done:
  "bind_outcome m f = Done y \<longleftrightarrow> (\<exists>x. m = Done x \<and> f x = Done y)"
  by (cases m) auto

definition make_chan :: "cache \<Rightarrow> nat \<times> cache" where
  "make_chan c = (chanNext c, c\<lparr>chanNext := Suc (chanNext c)\<rparr>)"

definition close_chan :: "nat \<Rightarrow> cache \<Rightarrow> cache outcome" where
  "close_chan n c = (if chanClosed c n then Panic else Done (c\<lparr>chanClosed := (chanClosed c)(n := True)\<rparr>))"

text \<open>Who refers to a channel: the file queue, the stream table as a whole, each stream.\<close>

datatype chan_owner = FileChan | StreamsChan | RunChan string

fun chan_of :: "cache \<Rightarrow> chan_owner \<Rightarrow> nat option" where
  "chan_of c FileChan = Some (fileNotify c)"
| "chan_of c StreamsChan = Some (streamNotify c)"
| "chan_of c (RunChan runID) = map_option gs_notify (streams c runID)"

definition chan_inv :: "cache \<Rightarrow> bool" where
  "chan_inv c \<longleftrightarrow> (\<forall>n. chanClosed c n \<longrightarrow> n < chanNext c)
     \<and> (\<forall>w n. chan_of c w = Some n \<longrightarrow> n < chanNext c \<and> \<not> chanClosed c n)
     \<and> (\<forall>w w' n. chan_of c w = Some n \<longrightarrow> chan_of c w' = Some n \<longrightarrow> w = w')"

lemma chan_inv_new_cache: "chan_inv new_cache"
proof -
  have c: "chan_of new_cache w = Some n \<longleftrightarrow> (w = FileChan \<and> n = 0) \<or> (w = StreamsChan \<and> n = 1)" for w n
    by (cases w) (auto simp: new_cache_def)
  have "chanClosed new_cache = (\<lambda>_. False)" and "chanNext new_cache = 2"
    by (simp_all add: new_cache_def)
  then show ?thesis unfolding chan_inv_def c by auto
qed

lemma chan_inv_sub:
  assumes "chan_inv c" and "chanClosed c' = chanClosed c" and "chanNext c' = chanNext c"
    and "\<And>w n. chan_of c' w = Some n \<Longrightarrow> chan_of c w = Some n"
  shows "chan_inv c'"
  using assms unfolding chan_inv_def by metis

lemma chan_inv_open: "chan_inv c \<Longrightarrow> chan_of c w = Some n \<Longrightarrow> \<not> chanClosed c n"
  by (simp add: chan_inv_def)

lemma chan_inv_renew:
  assumes "chan_inv c" and "chan_of c w = Some n"
    and "chan_of c' = (chan_of c)(w \<mapsto> chanNext c)" and "chanNext c' = Suc (chanNext c)"
    and "chanClosed c' = (chanClosed c)(n := True)"
  shows "chan_inv c'"
proof -
  have n: "n < chanNext c" using assms(1,2) by (simp add: chan_inv_def)
  have lt: "chan_of c v = Some m \<Longrightarrow> m < chanNext c" for v m using assms(1) by (simp add: chan_inv_def)
  have "chanClosed c' m \<Longrightarrow> m < chanNext c'" for m
    using assms(1,4,5) n by (fastforce simp: chan_inv_def less_Suc_eq split: if_splits)
  moreover have "m < chanNext c' \<and> \<not> chanClosed c' m" if "chan_of c' v = Some m" for v m
  proof (cases "v = w")
    case True
    then have m: "m = chanNext c" using that assms(3) by simp
    have "\<not> chanClosed c (chanNext c)" using assms(1) by (auto simp: chan_inv_def)
    then show ?thesis using m n assms(4,5) by simp
  next
    case False
    then have cv: "chan_of c v = Some m" using that assms(3) by simp
    then have "m \<noteq> n" using assms(1,2) False by (auto simp: chan_inv_def)
    then show ?thesis using cv assms(1,4,5) by (auto simp: chan_inv_def less_Suc_eq)
  qed
  moreover have "v = v'" if "chan_of c' v = Some m" "chan_of c' v' = Some m" for v v' m
    using that assms(1,3) lt by (auto simp: chan_inv_def split: if_splits)
  ultimately show ?thesis unfolding chan_inv_def by blast
qed

lemma chan_inv_make:
  assumes "chan_inv c" and "chan_of c w = None"
    and "chan_of c' = (chan_of c)(w \<mapsto> chanNext c)" and "chanNext c' = Suc (chanNext c)"
    and "chanClosed c' = chanClosed c"
  shows "chan_inv c'"
proof -
  have lt: "chan_of c v = Some m \<Longrightarrow> m < chanNext c" for v m using assms(1) by (simp add: chan_inv_def)
  have fresh: "\<not> chanClosed c (chanNext c)" using assms(1) by (auto simp: chan_inv_def)
  have "chanClosed c' m \<Longrightarrow> m < chanNext c'" for m
    using assms(1,4,5) by (simp add: chan_inv_def less_Suc_eq)
  moreover have "m < chanNext c' \<and> \<not> chanClosed c' m" if "chan_of c' v = Some m" for v m
    using that assms(1,3-5) fresh by (cases "v = w") (simp_all add: chan_inv_def less_Suc_eq)
  moreover have "v = v'" if "chan_of c' v = Some m" "chan_of c' v' = Some m" for v v' m
  proof (cases "m = chanNext c")
    case True
    then show ?thesis using that assms(3) lt [of v m] lt [of v' m] by (auto split: if_splits)
  next
    case False
    then show ?thesis using that assms(1,3) by (simp add: chan_inv_def split: if_splits)
  qed
  ultimately show ?thesis unfolding chan_inv_def by blast
qed

subsection \<open>Maintenance\<close>

definition maintenance_interval :: int where "maintenance_interval = 256"
definition sliding_window_retention :: duration where "sliding_window_retention = 10 * minute"
definition circuit_metadata_retention :: duration where "circuit_metadata_retention = 30 * minute"
definition circuit_state_retention :: duration where "circuit_state_retention = 2 * hour"
definition key_counter_retention :: duration where "key_counter_retention = 24 * hour"
definition circuit_probe_ttl :: duration where "circuit_probe_ttl = 30 * second"

lemmas retention_defs = sliding_window_retention_def circuit_metadata_retention_def
  circuit_state_retention_def key_counter_retention_def circuit_probe_ttl_def duration_defs

definition owner_expired :: "gotime \<Rightarrow> generation_stream \<Rightarrow> bool" where
  "owner_expired now s \<longleftrightarrow> is_zero (gs_ownerExpiresAt s) \<or> after now (gs_ownerExpiresAt s)"

definition active_expired :: "gotime \<Rightarrow> generation_stream \<Rightarrow> bool" where
  "active_expired now s \<longleftrightarrow> is_zero (gs_activeExpiresAt s) \<or> after now (gs_activeExpiresAt s)"

definition cancel_expired :: "gotime \<Rightarrow> generation_stream \<Rightarrow> bool" where
  "cancel_expired now s \<longleftrightarrow> is_zero (gs_cancelExpiresAt s) \<or> after now (gs_cancelExpiresAt s)"

definition events_expired :: "gotime \<Rightarrow> generation_stream \<Rightarrow> bool" where
  "events_expired now s \<longleftrightarrow> is_zero (gs_eventsExpiresAt s) \<or> after now (gs_eventsExpiresAt s)"

lemmas stream_expiry_defs = owner_expired_def active_expired_def cancel_expired_def
  events_expired_def

definition circuit_state_expired :: "gotime \<Rightarrow> circuit_state \<Rightarrow> bool" where
  "circuit_state_expired now st \<longleftrightarrow>
     (if \<not> is_zero (cs_openUntil st) \<and> before now (cs_openUntil st + circuit_probe_ttl) then False
      else if before now (cs_probeUntil st) then False
      else if \<not> is_zero (cs_lastFailure st)
              \<and> before now (cs_lastFailure st + circuit_state_retention) then False
      else True)"

definition latest :: "gotime \<Rightarrow> gotime \<Rightarrow> gotime" where
  "latest a b = (if after a b then a else b)"

definition meta_expired :: "gotime \<Rightarrow> upstream_metadata \<Rightarrow> bool" where
  "meta_expired now item \<longleftrightarrow>
     (if is_zero (um_lastFailure item) \<and> is_zero (um_lastSuccess item) then False
      else before (latest (um_lastFailure item) (um_lastSuccess item))
             (now - circuit_metadata_retention))"

definition sweep_sliding :: "gotime \<Rightarrow> (string \<rightharpoonup> gotime list) \<Rightarrow> (string \<rightharpoonup> gotime list)" where
  "sweep_sliding now m =
     (\<lambda>k. case m k of
            None \<Rightarrow> None
          | Some events \<Rightarrow>
              (let kept = filter (\<lambda>t. after t (now - sliding_window_retention)) events
               in if kept = [] then None else Some kept))"

definition sweep_expired :: "gotime \<Rightarrow> cache \<Rightarrow> cache" where
  "sweep_expired now c =
     c\<lparr>settings := sweep_map (\<lambda>i. after now (es_expiresAt i)) (settings c),
       userSettings := sweep_map (\<lambda>i. after now (es_expiresAt i)) (userSettings c),
       userSettingVersions := sweep_map (\<lambda>i. after now (es_expiresAt i)) (userSettingVersions c),
       rag := sweep_map (\<lambda>i. after now (er_expiresAt i)) (rag c),
       streams := sweep_map (\<lambda>s. owner_expired now s \<and> active_expired now s
                                 \<and> cancel_expired now s \<and> events_expired now s) (streams c),
       fixedHTTP := sweep_map (\<lambda>i. after now (fw_expiresAt i)) (fixedHTTP c),
       providerAuthTransactions :=
         sweep_map (\<lambda>i. after now (ea_expiresAt i)) (providerAuthTransactions c),
       providerAuthGrants := sweep_map (\<lambda>i. after now (ea_expiresAt i)) (providerAuthGrants c),
       slidingHTTP := sweep_sliding now (slidingHTTP c),
       rateLimits := sweep_map (\<lambda>i. after now (rl_backoffUntil i) \<and> after now (rl_countExpires i))
                       (rateLimits c),
       upstreamMeta := sweep_map (meta_expired now) (upstreamMeta c),
       upstreamCB := sweep_map (circuit_state_expired now) (upstreamCB c),
       modelCB := sweep_map (circuit_state_expired now) (modelCB c),
       keyCounters := sweep_map (\<lambda>k. before (ak_lastUsed k) (now - key_counter_retention))
                        (keyCounters c)\<rparr>"

definition maybe_sweep :: "gotime \<Rightarrow> cache \<Rightarrow> cache" where
  "maybe_sweep now c =
     (let c' = c\<lparr>ops := (ops c + 1) mod 2 ^ 64\<rparr>
      in if ops c' mod maintenance_interval \<noteq> 0 then c' else sweep_expired now c')"

text \<open>The queue of files, the channels and their store are never swept.\<close>

lemma sweep_keeps [simp, keep_simps]:
  "ops (sweep_expired now c) = ops c"
  "fileSeq (sweep_expired now c) = fileSeq c"
  "fileQueue (sweep_expired now c) = fileQueue c"
  "fileInflight (sweep_expired now c) = fileInflight c"
  "fileDLQ (sweep_expired now c) = fileDLQ c"
  "fileNotify (sweep_expired now c) = fileNotify c"
  "streamNotify (sweep_expired now c) = streamNotify c"
  "chanNext (sweep_expired now c) = chanNext c"
  "chanClosed (sweep_expired now c) = chanClosed c"
  by (simp_all add: sweep_expired_def)

lemma maybe_sweep_keeps [simp, keep_simps]:
  "fileSeq (maybe_sweep now c) = fileSeq c"
  "fileQueue (maybe_sweep now c) = fileQueue c"
  "fileInflight (maybe_sweep now c) = fileInflight c"
  "fileDLQ (maybe_sweep now c) = fileDLQ c"
  "fileNotify (maybe_sweep now c) = fileNotify c"
  "streamNotify (maybe_sweep now c) = streamNotify c"
  "chanNext (maybe_sweep now c) = chanNext c"
  "chanClosed (maybe_sweep now c) = chanClosed c"
  by (simp_all add: maybe_sweep_def Let_def)

lemma sweep_fields [simp]:
  "settings (sweep_expired now c) = sweep_map (\<lambda>i. after now (es_expiresAt i)) (settings c)"
  "userSettings (sweep_expired now c) = sweep_map (\<lambda>i. after now (es_expiresAt i)) (userSettings c)"
  "userSettingVersions (sweep_expired now c)
     = sweep_map (\<lambda>i. after now (es_expiresAt i)) (userSettingVersions c)"
  "rag (sweep_expired now c) = sweep_map (\<lambda>i. after now (er_expiresAt i)) (rag c)"
  "streams (sweep_expired now c)
     = sweep_map (\<lambda>s. owner_expired now s \<and> active_expired now s
                      \<and> cancel_expired now s \<and> events_expired now s) (streams c)"
  "fixedHTTP (sweep_expired now c) = sweep_map (\<lambda>i. after now (fw_expiresAt i)) (fixedHTTP c)"
  "providerAuthTransactions (sweep_expired now c)
     = sweep_map (\<lambda>i. after now (ea_expiresAt i)) (providerAuthTransactions c)"
  "providerAuthGrants (sweep_expired now c)
     = sweep_map (\<lambda>i. after now (ea_expiresAt i)) (providerAuthGrants c)"
  "slidingHTTP (sweep_expired now c) = sweep_sliding now (slidingHTTP c)"
  "rateLimits (sweep_expired now c)
     = sweep_map (\<lambda>i. after now (rl_backoffUntil i) \<and> after now (rl_countExpires i)) (rateLimits c)"
  "upstreamMeta (sweep_expired now c) = sweep_map (meta_expired now) (upstreamMeta c)"
  "upstreamCB (sweep_expired now c) = sweep_map (circuit_state_expired now) (upstreamCB c)"
  "modelCB (sweep_expired now c) = sweep_map (circuit_state_expired now) (modelCB c)"
  "keyCounters (sweep_expired now c)
     = sweep_map (\<lambda>k. before (ak_lastUsed k) (now - key_counter_retention)) (keyCounters c)"
  by (simp_all add: sweep_expired_def)

lemma chan_inv_maybe_sweep: "chan_inv c \<Longrightarrow> chan_inv (maybe_sweep now c)"
proof (rule chan_inv_sub)
  show "chan_of (maybe_sweep now c) w = Some n \<Longrightarrow> chan_of c w = Some n" for w n
    by (cases w) (auto simp: maybe_sweep_def sweep_expired_def Let_def sweep_map_eq_Some split: if_splits)
qed simp_all

text \<open>
  Everything a reader sees after \<open>maybe_sweep\<close> it would see either after the counter tick alone
  or after a full sweep.
\<close>

lemma maybe_sweep_rule:
  assumes "P (c\<lparr>ops := (ops c + 1) mod 2 ^ 64\<rparr>)"
    and "P (sweep_expired now (c\<lparr>ops := (ops c + 1) mod 2 ^ 64\<rparr>))"
  shows "P (maybe_sweep now c)"
  using assms by (simp add: maybe_sweep_def Let_def)

text \<open>
  Entry by entry: \<open>maybe_sweep\<close> keeps what is live, and what it shows was there before.
\<close>

lemma maybe_sweep_live:
  "settings c k0 = Some i0 \<Longrightarrow> \<not> (es_expiresAt i0 < now) \<Longrightarrow> settings (maybe_sweep now c) k0 = Some i0"
  "userSettings c k1 = Some i1 \<Longrightarrow> \<not> (es_expiresAt i1 < now) \<Longrightarrow> userSettings (maybe_sweep now c) k1 = Some i1"
  "userSettingVersions c k2 = Some i2 \<Longrightarrow> \<not> (es_expiresAt i2 < now) \<Longrightarrow> userSettingVersions (maybe_sweep now c) k2 = Some i2"
  "rag c k3 = Some i3 \<Longrightarrow> \<not> (er_expiresAt i3 < now) \<Longrightarrow> rag (maybe_sweep now c) k3 = Some i3"
  "fixedHTTP c k4 = Some i4 \<Longrightarrow> \<not> (fw_expiresAt i4 < now) \<Longrightarrow> fixedHTTP (maybe_sweep now c) k4 = Some i4"
  "providerAuthTransactions c k5 = Some i5 \<Longrightarrow> \<not> (ea_expiresAt i5 < now) \<Longrightarrow> providerAuthTransactions (maybe_sweep now c) k5 = Some i5"
  "providerAuthGrants c k6 = Some i6 \<Longrightarrow> \<not> (ea_expiresAt i6 < now) \<Longrightarrow> providerAuthGrants (maybe_sweep now c) k6 = Some i6"
  "streams c k7 = Some i7 \<Longrightarrow> \<not> (owner_expired now i7 \<and> active_expired now i7 \<and> cancel_expired now i7 \<and> events_expired now i7) \<Longrightarrow> streams (maybe_sweep now c) k7 = Some i7"
  "rateLimits c k8 = Some i8 \<Longrightarrow> \<not> (rl_backoffUntil i8 < now \<and> rl_countExpires i8 < now) \<Longrightarrow> rateLimits (maybe_sweep now c) k8 = Some i8"
  "upstreamMeta c k9 = Some i9 \<Longrightarrow> \<not> (meta_expired now i9) \<Longrightarrow> upstreamMeta (maybe_sweep now c) k9 = Some i9"
  "upstreamCB c k10 = Some i10 \<Longrightarrow> \<not> (circuit_state_expired now i10) \<Longrightarrow> upstreamCB (maybe_sweep now c) k10 = Some i10"
  "modelCB c k11 = Some i11 \<Longrightarrow> \<not> (circuit_state_expired now i11) \<Longrightarrow> modelCB (maybe_sweep now c) k11 = Some i11"
  "keyCounters c k12 = Some i12 \<Longrightarrow> \<not> (ak_lastUsed i12 < now - key_counter_retention) \<Longrightarrow> keyCounters (maybe_sweep now c) k12 = Some i12"
  by (auto simp: maybe_sweep_def Let_def)

lemma maybe_sweep_sub:
  "settings (maybe_sweep now c) k0 = Some i0 \<Longrightarrow> settings c k0 = Some i0"
  "userSettings (maybe_sweep now c) k1 = Some i1 \<Longrightarrow> userSettings c k1 = Some i1"
  "userSettingVersions (maybe_sweep now c) k2 = Some i2 \<Longrightarrow> userSettingVersions c k2 = Some i2"
  "rag (maybe_sweep now c) k3 = Some i3 \<Longrightarrow> rag c k3 = Some i3"
  "fixedHTTP (maybe_sweep now c) k4 = Some i4 \<Longrightarrow> fixedHTTP c k4 = Some i4"
  "providerAuthTransactions (maybe_sweep now c) k5 = Some i5 \<Longrightarrow> providerAuthTransactions c k5 = Some i5"
  "providerAuthGrants (maybe_sweep now c) k6 = Some i6 \<Longrightarrow> providerAuthGrants c k6 = Some i6"
  "streams (maybe_sweep now c) k7 = Some i7 \<Longrightarrow> streams c k7 = Some i7"
  "rateLimits (maybe_sweep now c) k8 = Some i8 \<Longrightarrow> rateLimits c k8 = Some i8"
  "upstreamMeta (maybe_sweep now c) k9 = Some i9 \<Longrightarrow> upstreamMeta c k9 = Some i9"
  "upstreamCB (maybe_sweep now c) k10 = Some i10 \<Longrightarrow> upstreamCB c k10 = Some i10"
  "modelCB (maybe_sweep now c) k11 = Some i11 \<Longrightarrow> modelCB c k11 = Some i11"
  "keyCounters (maybe_sweep now c) k12 = Some i12 \<Longrightarrow> keyCounters c k12 = Some i12"
  by (simp_all add: maybe_sweep_def Let_def sweep_map_eq_Some split: if_splits)

subsection \<open>The contract of a swept store\<close>

text \<open>
  A read operation of the cache is transparent to maintenance when no sweep made at an earlier
  instant can change its result. Each component interprets this locale for its reads; the
  lemmas below then hold for all of them.
\<close>

locale swept_read =
  fixes read :: "gotime \<Rightarrow> cache \<Rightarrow> 'r"
    and good :: "cache \<Rightarrow> bool"
  assumes read_sweep: "good c \<Longrightarrow> 0 \<le> now \<Longrightarrow> now < now' \<Longrightarrow>
      read now' (sweep_expired now c) = read now' c"
    and read_ops: "read now' (c\<lparr>ops := n\<rparr>) = read now' c"
    and good_sweep: "good c \<Longrightarrow> good (sweep_expired now c)"
    and good_ops: "good (c\<lparr>ops := n\<rparr>) = good c"
begin

lemma read_maybe_sweep:
  "good c \<Longrightarrow> 0 \<le> now \<Longrightarrow> now < now' \<Longrightarrow> read now' (maybe_sweep now c) = read now' c"
  by (rule maybe_sweep_rule) (simp_all add: read_sweep read_ops good_ops)

lemma good_maybe_sweep: "good c \<Longrightarrow> good (maybe_sweep now c)"
  by (rule maybe_sweep_rule) (simp_all add: good_sweep good_ops)

lemma read_sweeps:
  "good c \<Longrightarrow> (\<forall>t \<in> set ts. 0 \<le> t \<and> t < now') \<Longrightarrow> read now' (fold maybe_sweep ts c) = read now' c"
  by (induction ts arbitrary: c) (simp_all add: read_maybe_sweep good_maybe_sweep)

end

end
