(* ===== verification/CacheStores.thy ===== *)
theory CacheStores
  imports CacheState
begin

text \<open>
  The expiring key-value parts of the cache: site settings (\<open>settings.go\<close>), user settings with
  their version tokens (\<open>user_settings.go\<close>), retrieval results (\<open>rag.go\<close>) and the one-time
  records of the provider-auth bridge (\<open>provider_auth_bridge.go\<close>). Two contracts are stated as
  locales, \<open>ttl_store\<close> and \<open>one_time_store\<close>, and each store is an interpretation of one.
\<close>

subsection \<open>Operations\<close>

definition settings_key :: "string \<Rightarrow> string \<Rightarrow> string" where
  "settings_key namespace key = namespace @ '':'' @ key"

definition settings_set :: "gotime \<Rightarrow> string \<Rightarrow> string \<Rightarrow> string \<Rightarrow> cache \<Rightarrow> cache" where
  "settings_set now namespace key value c =
     maybe_sweep now
       (c\<lparr>settings := (settings c)(settings_key namespace key \<mapsto>
            \<lparr>es_value = value, es_expiresAt = now + minute\<rparr>)\<rparr>)"

definition settings_del :: "gotime \<Rightarrow> string \<Rightarrow> string \<Rightarrow> cache \<Rightarrow> cache" where
  "settings_del now namespace key c =
     maybe_sweep now (c\<lparr>settings := (settings c)(settings_key namespace key := None)\<rparr>)"

definition user_setting_version_key :: "nat \<Rightarrow> string \<Rightarrow> string" where
  "user_setting_version_key userID key = nat_digits userID @ '':'' @ key"

definition user_setting_value_key :: "nat \<Rightarrow> string \<Rightarrow> string \<Rightarrow> string" where
  "user_setting_value_key userID key version = nat_digits userID @ '':'' @ key @ '':'' @ version"

text \<open>\<open>uuid.NewString()\<close> of a third-party package is the argument \<open>uuid\<close>.\<close>

definition get_user_setting_cache_version ::
  "gotime \<Rightarrow> string \<Rightarrow> nat \<Rightarrow> string \<Rightarrow> duration \<Rightarrow> cache \<Rightarrow> string \<times> cache" where
  "get_user_setting_cache_version now uuid userID key ttl c =
     (let cacheKey = user_setting_version_key userID key;
          fresh = (uuid, maybe_sweep now
            (c\<lparr>userSettingVersions := (userSettingVersions c)(cacheKey \<mapsto>
                 \<lparr>es_value = uuid, es_expiresAt = ttl_from_now now ttl\<rparr>)\<rparr>))
      in case userSettingVersions c cacheKey of
           Some item \<Rightarrow>
             if before now (es_expiresAt item)
             then (es_value item,
                   c\<lparr>userSettingVersions := (userSettingVersions c)(cacheKey \<mapsto>
                        item\<lparr>es_expiresAt := ttl_from_now now ttl\<rparr>)\<rparr>)
             else fresh
         | None \<Rightarrow> fresh)"

definition advance_user_setting_cache_version ::
  "gotime \<Rightarrow> string \<Rightarrow> nat \<Rightarrow> string \<Rightarrow> duration \<Rightarrow> cache \<Rightarrow> string \<times> cache" where
  "advance_user_setting_cache_version now uuid userID key ttl c =
     (uuid, maybe_sweep now
        (c\<lparr>userSettingVersions := (userSettingVersions c)(user_setting_version_key userID key \<mapsto>
             \<lparr>es_value = uuid, es_expiresAt = ttl_from_now now ttl\<rparr>)\<rparr>))"

definition get_user_setting_cache ::
  "gotime \<Rightarrow> nat \<Rightarrow> string \<Rightarrow> string \<Rightarrow> cache \<Rightarrow> string option \<times> cache" where
  "get_user_setting_cache now userID key version c =
     (let cacheKey = user_setting_value_key userID key version
      in case userSettings c cacheKey of
           None \<Rightarrow> (None, c)
         | Some item \<Rightarrow>
             if \<not> before now (es_expiresAt item)
             then (None, c\<lparr>userSettings := (userSettings c)(cacheKey := None)\<rparr>)
             else (Some (es_value item), c))"

definition set_user_setting_cache ::
  "gotime \<Rightarrow> nat \<Rightarrow> string \<Rightarrow> string \<Rightarrow> string \<Rightarrow> duration \<Rightarrow> cache \<Rightarrow> cache" where
  "set_user_setting_cache now userID key version value ttl c =
     maybe_sweep now
       (c\<lparr>userSettings := (userSettings c)(user_setting_value_key userID key version \<mapsto>
            \<lparr>es_value = value, es_expiresAt = ttl_from_now now ttl\<rparr>)\<rparr>)"

definition get_rag_cache :: "gotime \<Rightarrow> string \<Rightarrow> cache \<Rightarrow> rag_chunk list option \<times> cache" where
  "get_rag_cache now key c =
     (case rag c key of
        None \<Rightarrow> (None, c\<lparr>rag := (rag c)(key := None)\<rparr>)
      | Some item \<Rightarrow>
          if expired now (er_expiresAt item) then (None, c\<lparr>rag := (rag c)(key := None)\<rparr>)
          else (Some (er_chunks item), c))"

definition set_rag_cache ::
  "gotime \<Rightarrow> string \<Rightarrow> rag_chunk list \<Rightarrow> duration \<Rightarrow> cache \<Rightarrow> cache" where
  "set_rag_cache now key chunks ttl c =
     maybe_sweep now
       (c\<lparr>rag := (rag c)(key \<mapsto> \<lparr>er_chunks = chunks, er_expiresAt = ttl_from_now now ttl\<rparr>)\<rparr>)"

definition put_provider_auth_transaction ::
  "gotime \<Rightarrow> string \<Rightarrow> provider_auth_transaction \<Rightarrow> duration \<Rightarrow> cache \<Rightarrow> cache_err option \<times> cache" where
  "put_provider_auth_transaction now id' item ttl c =
     (if id' = [] \<or> ttl \<le> 0 then (Some (Repo ErrInvalidInput), c)
      else let c' = maybe_sweep now c
           in (None, c'\<lparr>providerAuthTransactions := (providerAuthTransactions c')(id' \<mapsto>
                 \<lparr>ea_value = item, ea_expiresAt = now + ttl\<rparr>)\<rparr>))"

definition consume_provider_auth_transaction ::
  "gotime \<Rightarrow> string \<Rightarrow> cache \<Rightarrow> (cache_err + provider_auth_transaction) \<times> cache" where
  "consume_provider_auth_transaction now id' c =
     (if id' = [] then (Inl (Repo ErrNotFound), c)
      else case providerAuthTransactions c id' of
             None \<Rightarrow> (Inl (Repo ErrNotFound), c)
           | Some item \<Rightarrow>
               let c' = c\<lparr>providerAuthTransactions := (providerAuthTransactions c)(id' := None)\<rparr>
               in if after now (ea_expiresAt item) then (Inl (Repo ErrNotFound), c')
                  else (Inr (ea_value item), c'))"

definition put_provider_auth_grant ::
  "gotime \<Rightarrow> string \<Rightarrow> provider_auth_grant \<Rightarrow> duration \<Rightarrow> cache \<Rightarrow> cache_err option \<times> cache" where
  "put_provider_auth_grant now key item ttl c =
     (if key = [] \<or> ttl \<le> 0 then (Some (Repo ErrInvalidInput), c)
      else let c' = maybe_sweep now c
           in (None, c'\<lparr>providerAuthGrants := (providerAuthGrants c')(key \<mapsto>
                 \<lparr>ea_value = item, ea_expiresAt = now + ttl\<rparr>)\<rparr>))"

definition consume_provider_auth_grant ::
  "gotime \<Rightarrow> string \<Rightarrow> cache \<Rightarrow> (cache_err + provider_auth_grant) \<times> cache" where
  "consume_provider_auth_grant now key c =
     (if key = [] then (Inl (Repo ErrNotFound), c)
      else case providerAuthGrants c key of
             None \<Rightarrow> (Inl (Repo ErrNotFound), c)
           | Some item \<Rightarrow>
               let c' = c\<lparr>providerAuthGrants := (providerAuthGrants c)(key := None)\<rparr>
               in if after now (ea_expiresAt item) then (Inl (Repo ErrNotFound), c')
                  else (Inr (ea_value item), c'))"

subsection \<open>Keys\<close>

lemma user_setting_version_key_inject:
  "user_setting_version_key u k = user_setting_version_key u' k' \<longleftrightarrow> u = u' \<and> k = k'"
  unfolding user_setting_version_key_def by (rule colon_key_inject)

lemma last_colon_split:
  assumes "k @ CHR '':'' # v = k' @ CHR '':'' # v'" "CHR '':'' \<notin> set v" "CHR '':'' \<notin> set v'"
  shows "k = k' \<and> v = v'"
proof -
  from assms(1) have "rev (k @ CHR '':'' # v) = rev (k' @ CHR '':'' # v')" by (rule arg_cong)
  then have eq: "rev v @ CHR '':'' # rev k = rev v' @ CHR '':'' # rev k'" by simp
  then have "until_byte (CHR '':'') (rev v @ CHR '':'' # rev k)
      = until_byte (CHR '':'') (rev v' @ CHR '':'' # rev k')" by (rule arg_cong)
  then have "v = v'" using assms(2,3) by (simp add: until_byte_append)
  with eq show ?thesis by simp
qed

text \<open>A version is a UUID, which has no colon; with such versions the value keys are distinct.\<close>

definition colon_free :: "string \<Rightarrow> bool" where
  "colon_free s \<longleftrightarrow> CHR '':'' \<notin> set s"

lemma user_setting_value_key_inject:
  assumes "colon_free v" and "colon_free v'"
  shows "user_setting_value_key u k v = user_setting_value_key u' k' v'
           \<longleftrightarrow> u = u' \<and> k = k' \<and> v = v'"
  using assms colon_key_inject [of u "k @ CHR '':'' # v" u' "k' @ CHR '':'' # v'"]
    last_colon_split [of k v k' v']
  by (auto simp: user_setting_value_key_def colon_free_def)

lemma user_setting_value_key_version:
  "user_setting_value_key u k v = user_setting_value_key u k v' \<longleftrightarrow> v = v'"
  by (simp add: user_setting_value_key_def)

subsection \<open>The contract of an expiring store\<close>

text \<open>
  What a client of such a store relies on: within its lifetime a value is found, after it is
  not, and writing under another key changes nothing. \<open>observe\<close> is what a read returns and
  \<open>get_step\<close> the state it leaves, since reads drop what they find expired.
\<close>

datatype ('k, 'v) store_op = Put gotime 'k 'v duration | Get gotime 'k

fun op_time :: "('k, 'v) store_op \<Rightarrow> gotime" where
  "op_time (Put now k v ttl) = now"
| "op_time (Get now k) = now"

fun writes_key :: "'k \<Rightarrow> ('k, 'v) store_op \<Rightarrow> bool" where
  "writes_key k (Put now k' v ttl) = (k' = k)"
| "writes_key k (Get now k') = False"

fun op_key :: "('k, 'v) store_op \<Rightarrow> 'k" where
  "op_key (Put now k v ttl) = k"
| "op_key (Get now k) = k"

fun run_store ::
  "(gotime \<Rightarrow> 'k \<Rightarrow> 'v \<Rightarrow> duration \<Rightarrow> cache \<Rightarrow> cache) \<Rightarrow> (gotime \<Rightarrow> 'k \<Rightarrow> cache \<Rightarrow> cache)
     \<Rightarrow> cache \<Rightarrow> ('k, 'v) store_op list \<Rightarrow> cache" where
  "run_store put step c [] = c"
| "run_store put step c (Put now k v ttl # os) = run_store put step (put now k v ttl c) os"
| "run_store put step c (Get now k # os) = run_store put step (step now k c) os"

text \<open>Operations made before \<open>now'\<close> that do not write \<open>k\<close>.\<close>

definition quiet_ops :: "('k \<Rightarrow> bool) \<Rightarrow> gotime \<Rightarrow> 'k \<Rightarrow> ('k, 'v) store_op list \<Rightarrow> bool" where
  "quiet_ops valid now' k os \<longleftrightarrow>
     list_all (\<lambda>oper. 0 \<le> op_time oper \<and> op_time oper < now' \<and> valid (op_key oper)
        \<and> \<not> writes_key k oper) os"

locale ttl_store =
  fixes put :: "gotime \<Rightarrow> 'k \<Rightarrow> 'v \<Rightarrow> duration \<Rightarrow> cache \<Rightarrow> cache"
    and observe :: "gotime \<Rightarrow> 'k \<Rightarrow> cache \<Rightarrow> 'v option"
    and get_step :: "gotime \<Rightarrow> 'k \<Rightarrow> cache \<Rightarrow> cache"
    and valid_key :: "'k \<Rightarrow> bool"
    and inv :: "cache \<Rightarrow> bool"
  assumes put_hit: "0 \<le> now \<Longrightarrow> now \<le> now' \<Longrightarrow> now' < ttl_from_now now ttl \<Longrightarrow>
      observe now' k (put now k v ttl c) = Some v"
    and put_expired: "0 \<le> now \<Longrightarrow> ttl_from_now now ttl < now' \<Longrightarrow>
      observe now' k (put now k v ttl c) = None"
    and put_other: "inv c \<Longrightarrow> 0 \<le> now \<Longrightarrow> valid_key k \<Longrightarrow> valid_key k' \<Longrightarrow> k \<noteq> k' \<Longrightarrow> now < now' \<Longrightarrow>
      observe now' k' (put now k v ttl c) = observe now' k' c"
    and get_keeps: "inv c \<Longrightarrow> now < now' \<Longrightarrow> valid_key k \<Longrightarrow> valid_key k' \<Longrightarrow>
      observe now' k' (get_step now k c) = observe now' k' c"
    and inv_put: "inv c \<Longrightarrow> 0 \<le> now \<Longrightarrow> inv (put now k v ttl c)"
    and inv_get: "inv c \<Longrightarrow> inv (get_step now k c)"
begin

abbreviation "run \<equiv> run_store put get_step"
abbreviation "quiet \<equiv> quiet_ops valid_key"

lemma observe_run:
  "inv c \<Longrightarrow> valid_key k \<Longrightarrow> quiet now' k os \<Longrightarrow> observe now' k (run c os) = observe now' k c"
proof (induction os arbitrary: c)
  case Nil
  then show ?case by simp
next
  case (Cons oper os)
  then show ?case
    by (cases oper) (auto simp: quiet_ops_def put_other get_keeps inv_put inv_get)
qed

lemma read_your_write:
  assumes "inv c" and "valid_key k" and "0 \<le> now" and "now \<le> now'"
    and "now' < ttl_from_now now ttl" and "quiet now' k os"
  shows "observe now' k (run (put now k v ttl c) os) = Some v"
  using observe_run [OF inv_put [OF assms(1,3)] assms(2,6)] put_hit [OF assms(3-5)] by simp

lemma no_read_after_expiry:
  assumes "inv c" and "valid_key k" and "0 \<le> now"
    and "ttl_from_now now ttl < now'" and "quiet now' k os"
  shows "observe now' k (run (put now k v ttl c) os) = None"
  using observe_run [OF inv_put [OF assms(1,3)] assms(2,5)] put_expired [OF assms(3,4)] by simp

end

subsection \<open>Retrieval results\<close>

definition rag_observe :: "gotime \<Rightarrow> string \<Rightarrow> cache \<Rightarrow> rag_chunk list option" where
  "rag_observe now key c = fst (get_rag_cache now key c)"

definition rag_step :: "gotime \<Rightarrow> string \<Rightarrow> cache \<Rightarrow> cache" where
  "rag_step now key c = snd (get_rag_cache now key c)"

definition rag_ok :: "cache \<Rightarrow> bool" where
  \<comment> \<open>no entry carries the zero instant, which a reader takes for ``never expires''\<close>
  "rag_ok c \<longleftrightarrow> (\<forall>k item. rag c k = Some item \<longrightarrow> er_expiresAt item \<noteq> 0)"

lemma rag_observe_eq:
  "rag_observe now key c =
     (case rag c key of None \<Rightarrow> None
      | Some item \<Rightarrow> if expired now (er_expiresAt item) then None else Some (er_chunks item))"
  by (simp add: rag_observe_def get_rag_cache_def split: option.split)

lemma rag_step_eq:
  "rag (rag_step now key c) k =
     (if k = key then (case rag c key of None \<Rightarrow> None
        | Some item \<Rightarrow> if expired now (er_expiresAt item) then None else Some item)
      else rag c k)"
  by (simp add: rag_step_def get_rag_cache_def split: option.split)

interpretation rag_read: swept_read "\<lambda>now c. rag_observe now key c" rag_ok for key
  by unfold_locales
    (auto simp: rag_observe_eq rag_ok_def expired_def sweep_map_def split: option.split if_splits)

lemma set_rag_unswept:
  "rag_observe now' k (c\<lparr>rag := (rag c)(key \<mapsto> item)\<rparr>) =
     (if k = key then (if expired now' (er_expiresAt item) then None else Some (er_chunks item))
      else rag_observe now' k c)"
  by (simp add: rag_observe_eq)

lemma rag_ok_update:
  "rag_ok c \<Longrightarrow> er_expiresAt item \<noteq> 0 \<Longrightarrow> rag_ok (c\<lparr>rag := (rag c)(key \<mapsto> item)\<rparr>)"
  by (simp add: rag_ok_def)

interpretation rag_store: ttl_store "\<lambda>now k v ttl. set_rag_cache now k v ttl"
  rag_observe rag_step "\<lambda>_. True" rag_ok
proof (unfold_locales, goal_cases)
  case (1 now now' ttl k v c)
  have "rag (set_rag_cache now k v ttl c) k
      = Some \<lparr>er_chunks = v, er_expiresAt = ttl_from_now now ttl\<rparr>"
    using ttl_from_now_after [of now ttl] unfolding set_rag_cache_def
    by (intro maybe_sweep_live) simp_all
  then show ?case using 1 by (simp add: rag_observe_eq expired_def)
next
  case (2 now ttl now' k v c)
  show ?case
  proof (cases "rag (set_rag_cache now k v ttl c) k")
    case (Some item)
    then have "item = \<lparr>er_chunks = v, er_expiresAt = ttl_from_now now ttl\<rparr>"
      unfolding set_rag_cache_def by (auto dest: maybe_sweep_sub)
    then show ?thesis using Some 2 ttl_from_now_after [of now ttl]
      by (simp add: rag_observe_eq expired_def)
  qed (simp add: rag_observe_eq)
next
  case (3 c now k k' now' v ttl)
  then show ?case
    using ttl_from_now_after [of now ttl]
    by (simp add: set_rag_cache_def rag_read.read_maybe_sweep rag_ok_update set_rag_unswept)
next
  case (4 c now now' k k')
  then show ?case by (auto simp: rag_observe_eq rag_step_eq expired_def rag_ok_def split: option.split)
next
  case (5 c now k v ttl)
  then show ?case
    using ttl_from_now_after [of now ttl]
    by (simp add: set_rag_cache_def rag_read.good_maybe_sweep rag_ok_update)
next
  case (6 c now k)
  then show ?case by (auto simp: rag_ok_def rag_step_eq split: if_splits option.splits)
qed

subsection \<open>User settings\<close>

type_synonym user_setting_key = "nat \<times> string \<times> string"

definition user_setting_put ::
  "gotime \<Rightarrow> user_setting_key \<Rightarrow> string \<Rightarrow> duration \<Rightarrow> cache \<Rightarrow> cache" where
  "user_setting_put now k value ttl c =
     (case k of (u, key, ver) \<Rightarrow> set_user_setting_cache now u key ver value ttl c)"

definition user_setting_observe :: "gotime \<Rightarrow> user_setting_key \<Rightarrow> cache \<Rightarrow> string option" where
  "user_setting_observe now k c =
     (case k of (u, key, ver) \<Rightarrow> fst (get_user_setting_cache now u key ver c))"

definition user_setting_step :: "gotime \<Rightarrow> user_setting_key \<Rightarrow> cache \<Rightarrow> cache" where
  "user_setting_step now k c =
     (case k of (u, key, ver) \<Rightarrow> snd (get_user_setting_cache now u key ver c))"

definition version_ok :: "user_setting_key \<Rightarrow> bool" where
  "version_ok k \<longleftrightarrow> colon_free (snd (snd k))"

abbreviation "value_key k \<equiv> user_setting_value_key (fst k) (fst (snd k)) (snd (snd k))"

lemma value_key_inject: "version_ok k \<Longrightarrow> version_ok k' \<Longrightarrow> value_key k = value_key k' \<longleftrightarrow> k = k'"
  by (cases k; cases k') (simp add: version_ok_def user_setting_value_key_inject)

lemma user_setting_observe_eq:
  "user_setting_observe now k c =
     (case userSettings c (value_key k) of None \<Rightarrow> None
      | Some item \<Rightarrow> if now < es_expiresAt item then Some (es_value item) else None)"
  by (cases k) (simp add: user_setting_observe_def get_user_setting_cache_def Let_def split: option.split)

lemma user_setting_step_eq:
  "userSettings (user_setting_step now k c) x =
     (if x = value_key k then (case userSettings c x of None \<Rightarrow> None
        | Some item \<Rightarrow> if now < es_expiresAt item then Some item else None)
      else userSettings c x)"
  by (cases k) (simp add: user_setting_step_def get_user_setting_cache_def Let_def split: option.split)

lemma user_setting_put_eq:
  "user_setting_put now k v ttl c =
     maybe_sweep now (c\<lparr>userSettings := (userSettings c)(value_key k \<mapsto>
       \<lparr>es_value = v, es_expiresAt = ttl_from_now now ttl\<rparr>)\<rparr>)"
  by (cases k) (simp add: user_setting_put_def set_user_setting_cache_def)

interpretation user_setting_read: swept_read "\<lambda>now c. user_setting_observe now k c" "\<lambda>_. True" for k
  by unfold_locales (auto simp: user_setting_observe_eq sweep_map_def split: option.split)

interpretation user_setting_store: ttl_store user_setting_put user_setting_observe
  user_setting_step version_ok "\<lambda>_. True"
proof (unfold_locales, goal_cases)
  case (1 now now' ttl k v c)
  have "userSettings (user_setting_put now k v ttl c) (value_key k)
      = Some \<lparr>es_value = v, es_expiresAt = ttl_from_now now ttl\<rparr>"
    using ttl_from_now_after [of now ttl] unfolding user_setting_put_eq
    by (intro maybe_sweep_live) simp_all
  then show ?case using 1 by (simp add: user_setting_observe_eq)
next
  case (2 now ttl now' k v c)
  show ?case
  proof (cases "userSettings (user_setting_put now k v ttl c) (value_key k)")
    case (Some item)
    then have "item = \<lparr>es_value = v, es_expiresAt = ttl_from_now now ttl\<rparr>"
      unfolding user_setting_put_eq by (auto dest: maybe_sweep_sub)
    then show ?thesis using Some 2 by (simp add: user_setting_observe_eq)
  qed (simp add: user_setting_observe_eq)
next
  case (3 c now k k' now' v ttl)
  then have "user_setting_observe now' k' (user_setting_put now k v ttl c)
      = user_setting_observe now' k' (c\<lparr>userSettings := (userSettings c)(value_key k \<mapsto>
          \<lparr>es_value = v, es_expiresAt = ttl_from_now now ttl\<rparr>)\<rparr>)"
    by (simp add: user_setting_put_eq user_setting_read.read_maybe_sweep)
  then show ?case using 3 by (simp add: user_setting_observe_eq value_key_inject)
next
  case (4 c now now' k k')
  then show ?case by (auto simp: user_setting_observe_eq user_setting_step_eq split: option.split)
qed simp_all

subsection \<open>One-time records\<close>

text \<open>
  The contract of the provider-auth bridge: a record is handed out at most once, only within its
  lifetime, and reading one record leaves the others alone.
\<close>

datatype ('k, 'v) once_op = OPut gotime 'k 'v duration | OConsume gotime 'k

fun once_time :: "('k, 'v) once_op \<Rightarrow> gotime" where
  "once_time (OPut now k v ttl) = now"
| "once_time (OConsume now k) = now"

fun puts_key :: "'k \<Rightarrow> ('k, 'v) once_op \<Rightarrow> bool" where
  "puts_key k (OPut now k' v ttl) = (k' = k)"
| "puts_key k (OConsume now k') = False"

fun run_once ::
  "(gotime \<Rightarrow> 'k \<Rightarrow> 'v \<Rightarrow> duration \<Rightarrow> cache \<Rightarrow> cache_err option \<times> cache)
     \<Rightarrow> (gotime \<Rightarrow> 'k \<Rightarrow> cache \<Rightarrow> (cache_err + 'v) \<times> cache)
     \<Rightarrow> cache \<Rightarrow> ('k, 'v) once_op list \<Rightarrow> cache" where
  "run_once put consume c [] = c"
| "run_once put consume c (OPut now k v ttl # os) =
     run_once put consume (snd (put now k v ttl c)) os"
| "run_once put consume c (OConsume now k # os) =
     run_once put consume (snd (consume now k c)) os"

locale one_time_store =
  fixes put :: "gotime \<Rightarrow> 'k \<Rightarrow> 'v \<Rightarrow> duration \<Rightarrow> cache \<Rightarrow> cache_err option \<times> cache"
    and consume :: "gotime \<Rightarrow> 'k \<Rightarrow> cache \<Rightarrow> (cache_err + 'v) \<times> cache"
    and nokey :: 'k
  assumes put_accepts: "fst (put now k v ttl c) = None \<longleftrightarrow> k \<noteq> nokey \<and> 0 < ttl"
    and consume_put: "k \<noteq> nokey \<Longrightarrow> 0 < ttl \<Longrightarrow> now' \<le> now + ttl \<Longrightarrow>
      fst (consume now' k (snd (put now k v ttl c))) = Inr v"
    and consume_late: "k \<noteq> nokey \<Longrightarrow> 0 < ttl \<Longrightarrow> now + ttl < now' \<Longrightarrow>
      fst (consume now' k (snd (put now k v ttl c))) = Inl (Repo ErrNotFound)"
    and consume_gone: "fst (consume t k (snd (consume t' k c))) = Inl (Repo ErrNotFound)"
    and consume_other: "k \<noteq> k' \<Longrightarrow>
      fst (consume t k' (snd (consume t' k c))) = fst (consume t k' c)"
    and put_other: "k \<noteq> k' \<Longrightarrow> now < t \<Longrightarrow>
      fst (consume t k' (snd (put now k v ttl c))) = fst (consume t k' c)"
begin

lemma consume_run_other:
  "(\<forall>oper \<in> set os. once_time oper < t \<and> \<not> puts_key k oper \<and> (\<forall>u. oper \<noteq> OConsume u k)) \<Longrightarrow>
   fst (consume t k (run_once put consume c os)) = fst (consume t k c)"
proof (induction os arbitrary: c)
  case Nil
  then show ?case by simp
next
  case (Cons oper os)
  then show ?case
    by (cases oper) (auto simp: put_other consume_other)
qed

lemma no_replay:
  assumes "fst (consume t k c) = Inl (Repo ErrNotFound)"
    and "\<forall>oper \<in> set os. once_time oper < t \<and> \<not> puts_key k oper"
  shows "fst (consume t k (run_once put consume c os)) = Inl (Repo ErrNotFound)"
  using assms
proof (induction os arbitrary: c)
  case Nil
  then show ?case by simp
next
  case (Cons oper os)
  have "fst (consume t k (snd (consume now k' c))) = Inl (Repo ErrNotFound)" for now k'
    using Cons.prems(1) by (cases "k' = k") (simp_all add: consume_gone consume_other)
  moreover have "k' \<noteq> k \<Longrightarrow> now < t \<Longrightarrow>
      fst (consume t k (snd (put now k' v ttl c))) = Inl (Repo ErrNotFound)" for now k' v ttl
    using Cons.prems(1) by (simp add: put_other)
  ultimately show ?case
    using Cons by (cases oper) auto
qed

lemma consumed_once:
  assumes "\<forall>oper \<in> set os. once_time oper < t \<and> \<not> puts_key k oper"
  shows "fst (consume t k (run_once put consume (snd (consume t' k c)) os)) = Inl (Repo ErrNotFound)"
  by (rule no_replay [OF consume_gone assms])

end

interpretation auth_transactions: one_time_store
  put_provider_auth_transaction consume_provider_auth_transaction "[]"
proof (unfold_locales, goal_cases)
  case (6 k k' now t v ttl c)
  then show ?case
    by (auto simp: put_provider_auth_transaction_def consume_provider_auth_transaction_def Let_def
          maybe_sweep_def sweep_map_def split: option.split)
qed (auto simp: put_provider_auth_transaction_def consume_provider_auth_transaction_def Let_def
      split: option.split)

interpretation auth_grants: one_time_store
  put_provider_auth_grant consume_provider_auth_grant "[]"
proof (unfold_locales, goal_cases)
  case (6 k k' now t v ttl c)
  then show ?case
    by (auto simp: put_provider_auth_grant_def consume_provider_auth_grant_def Let_def
          maybe_sweep_def sweep_map_def split: option.split)
qed (auto simp: put_provider_auth_grant_def consume_provider_auth_grant_def Let_def
      split: option.split)

subsection \<open>What the stores promise\<close>

text \<open>
  A retrieval result is found for its whole lifetime and never after it, whatever is stored
  and read under other keys meanwhile and whenever the sweep runs.
\<close>

theorem rag_cache_lifetime:
  assumes "rag_ok c" and "0 \<le> now" and "now \<le> now'" and "now' \<noteq> ttl_from_now now ttl"
    and "quiet_ops (\<lambda>_. True) now' key es"
  shows "fst (get_rag_cache now' key
      (run_store (\<lambda>now k v ttl. set_rag_cache now k v ttl) rag_step (set_rag_cache now key chunks ttl c) es))
    = (if now' < ttl_from_now now ttl then Some chunks else None)"
  using rag_store.read_your_write [OF assms(1) _ assms(2,3) _ assms(5)]
    rag_store.no_read_after_expiry [OF assms(1) _ assms(2) _ assms(5)] assms(4)
  by (auto simp: rag_observe_def [symmetric])

theorem rag_cache_lifetime_witness:
  "fst (get_rag_cache 9 ''q'' (run_store (\<lambda>now k v ttl. set_rag_cache now k v ttl) rag_step
      (set_rag_cache 1 ''q'' [] 100 new_cache) [Put 2 ''r'' [] 5, Get 3 ''q''])) = Some []"
  using rag_cache_lifetime [of new_cache 1 9 100 "''q''" "[Put 2 ''r'' [] 5, Get 3 ''q'']" "[]"]
  by (simp add: rag_ok_def new_cache_def ttl_from_now_def quiet_ops_def del: run_store.simps)

text \<open>
  A cached user setting is found for its whole lifetime under its user, name and version and
  never after it; other users, names and versions never collide with it as long as versions have
  no colon, which UUIDs do not.
\<close>

theorem user_setting_lifetime:
  assumes "version_ok k" and "0 \<le> now" and "now \<le> now'" and "now' \<noteq> ttl_from_now now ttl"
    and "quiet_ops version_ok now' k es"
  shows "user_setting_observe now' k
      (run_store user_setting_put user_setting_step (user_setting_put now k v ttl c) es)
    = (if now' < ttl_from_now now ttl then Some v else None)"
  using user_setting_store.read_your_write [OF _ assms(1-3) _ assms(5)]
    user_setting_store.no_read_after_expiry [OF _ assms(1,2) _ assms(5)] assms(4)
  by auto

theorem user_setting_lifetime_witness:
  "user_setting_observe 9 (1, ''a:b'', ''v1'')
     (run_store user_setting_put user_setting_step
       (user_setting_put 1 (1, ''a:b'', ''v1'') ''x'' 100 new_cache)
       [Put 2 (1, ''a'', ''v2'') ''y'' 100, Get 3 (1, ''a:b'', ''v1'')]) = Some ''x''"
  using user_setting_lifetime [of "(1, ''a:b'', ''v1'')" 1 9 100
      "[Put 2 (1, ''a'', ''v2'') ''y'' 100, Get 3 (1, ''a:b'', ''v1'')]" "''x''" new_cache]
  by (simp add: version_ok_def colon_free_def ttl_from_now_def quiet_ops_def del: run_store.simps)

lemma advance_version_entry:
  assumes "advance_user_setting_cache_version now uuid u k ttl c = (v, c')"
  shows "v = uuid \<and> userSettingVersions c' (user_setting_version_key u k)
       = Some \<lparr>es_value = uuid, es_expiresAt = ttl_from_now now ttl\<rparr>"
  using assms ttl_from_now_after [of now ttl]
  by (auto simp: advance_user_setting_cache_version_def intro!: maybe_sweep_live)

lemma get_version_live:
  assumes "userSettingVersions c (user_setting_version_key u k)
       = Some \<lparr>es_value = v, es_expiresAt = e\<rparr>" and "now < e"
  shows "fst (get_user_setting_cache_version now uuid u k ttl c) = v
    \<and> userSettings (snd (get_user_setting_cache_version now uuid u k ttl c)) = userSettings c"
  using assms by (simp add: get_user_setting_cache_version_def Let_def)

text \<open>
  Writing a setting invalidates every cached copy of it: after the version was advanced, a
  reader that follows the protocol (fetch the version, then the value under it) gets the new
  version and no stale value, whatever was cached under earlier versions, until somebody stores a
  value under the new version.
\<close>

theorem user_setting_invalidation:
  assumes "advance_user_setting_cache_version now uuid u k ttl c = (v, c1)"
    and "userSettings c (user_setting_value_key u k uuid) = None"
    and "now \<le> now'" and "now' < ttl_from_now now ttl"
    and "get_user_setting_cache_version now' uuid' u k ttl' c1 = (v', c2)"
  shows "v' = uuid \<and> fst (get_user_setting_cache now' u k v' c2) = None"
proof -
  note adv = advance_version_entry [OF assms(1)]
  have "v' = uuid" and same: "userSettings c2 = userSettings c1"
    using get_version_live [OF conjunct2 [OF adv] assms(4), of uuid' ttl'] assms(5) by simp_all
  moreover have "userSettings c1 (user_setting_value_key u k uuid) = None"
  proof (rule ccontr)
    assume "userSettings c1 (user_setting_value_key u k uuid) \<noteq> None"
    then obtain i where "userSettings c1 (user_setting_value_key u k uuid) = Some i" by blast
    then show False
      using assms(1,2) by (auto simp: advance_user_setting_cache_version_def dest: maybe_sweep_sub)
  qed
  ultimately show ?thesis by (simp add: get_user_setting_cache_def)
qed

theorem user_setting_invalidation_witness:
  "fst (get_user_setting_cache 5 1 ''k'' ''v2''
     (snd (get_user_setting_cache_version 5 ''v3'' 1 ''k'' 100
       (snd (advance_user_setting_cache_version 2 ''v2'' 1 ''k'' 100
         (user_setting_put 1 (1, ''k'', ''v1'') ''old'' 100 new_cache)))))) = None"
proof -
  let ?c = "user_setting_put 1 (1, ''k'', ''v1'') ''old'' 100 new_cache"
  obtain v c1 where a: "advance_user_setting_cache_version 2 ''v2'' 1 ''k'' 100 ?c = (v, c1)"
    by (cases "advance_user_setting_cache_version 2 ''v2'' 1 ''k'' 100 ?c")
  obtain v' c2 where g: "get_user_setting_cache_version 5 ''v3'' 1 ''k'' 100 c1 = (v', c2)"
    by (cases "get_user_setting_cache_version 5 ''v3'' 1 ''k'' 100 c1")
  have none: "userSettings ?c (user_setting_value_key 1 ''k'' ''v2'') = None"
    by (simp add: user_setting_put_eq user_setting_value_key_version maybe_sweep_def new_cache_def
        maintenance_interval_def)
  have "v' = ''v2'' \<and> fst (get_user_setting_cache 5 1 ''k'' v' c2) = None"
    by (rule user_setting_invalidation [OF a none _ _ g]) (simp_all add: ttl_from_now_def)
  then show ?thesis by (auto simp only: a g snd_conv)
qed

text \<open>
  A provider-auth transaction is handed out at most once: after it was consumed, no later
  request obtains it, whatever else is stored, consumed and swept in between, unless the same
  identifier is stored anew.
\<close>

theorem auth_transaction_no_replay:
  assumes "\<forall>oper \<in> set es. once_time oper < t \<and> \<not> puts_key key oper"
  shows "fst (consume_provider_auth_transaction t key
      (run_once put_provider_auth_transaction consume_provider_auth_transaction
        (snd (consume_provider_auth_transaction t' key c)) es)) = Inl (Repo ErrNotFound)"
  by (rule auth_transactions.consumed_once [OF assms])

definition sample_transaction :: provider_auth_transaction where
  "sample_transaction =
     \<lparr>pt_ProviderSlug = ''p'', pt_ClientID = ''c'', pt_ClientRedirectURI = [], pt_ClientState = [],
      pt_ClientCodeChallenge = [], pt_ProviderCodeVerifier = [], pt_Intent = [], pt_Next = [],
      pt_ExpiresAt = 0\<rparr>"

definition sample_grant :: provider_auth_grant where
  "sample_grant =
     \<lparr>pg_ProviderSlug = ''p'', pg_ClientID = ''c'', pg_UserID = 7, pg_Subject = [], pg_ErrorCode = [],
      pg_ErrorMessage = [], pg_ErrorDetails = [], pg_ExpiresAt = 0\<rparr>"

theorem auth_transaction_no_replay_witness:
  "fst (consume_provider_auth_transaction 5 ''a''
      (run_once put_provider_auth_transaction consume_provider_auth_transaction
        (snd (consume_provider_auth_transaction 2 ''a''
           (snd (put_provider_auth_transaction 1 ''a'' sample_transaction 10 new_cache))))
        [OPut 3 ''b'' sample_transaction 10, OConsume 4 ''a''])) = Inl (Repo ErrNotFound)"
  by (rule auth_transaction_no_replay) simp

text \<open>
  C28: A provider-auth grant can be exchanged once, within its lifetime and only then: a consumer
  that comes in time and first gets exactly the stored grant, one that comes late or second gets
  ``not found'', whatever happens to other grants before.
\<close>

theorem auth_grant_single_use:
  assumes "key \<noteq> []" and "0 < ttl"
    and "\<forall>oper \<in> set es. once_time oper < t \<and> \<not> puts_key key oper"
  shows "fst (consume_provider_auth_grant t key
      (run_once put_provider_auth_grant consume_provider_auth_grant
        (snd (put_provider_auth_grant now key g ttl c)) es))
    = (if t \<le> now + ttl \<and> (\<forall>u. OConsume u key \<notin> set es) then Inr g else Inl (Repo ErrNotFound))"
proof (cases "\<exists>u. OConsume u key \<in> set es")
  case False
  then have "fst (consume_provider_auth_grant t key
      (run_once put_provider_auth_grant consume_provider_auth_grant
        (snd (put_provider_auth_grant now key g ttl c)) es))
      = fst (consume_provider_auth_grant t key (snd (put_provider_auth_grant now key g ttl c)))"
    using assms(3) by (intro auth_grants.consume_run_other) auto
  then show ?thesis
    using False auth_grants.consume_put [OF assms(1,2), of t now g c]
      auth_grants.consume_late [OF assms(1,2), of now t g c] by auto
next
  case True
  then obtain u xs ys where es: "es = xs @ OConsume u key # ys" by (meson split_list)
  have "run_once put_provider_auth_grant consume_provider_auth_grant d (xs @ zs)
     = run_once put_provider_auth_grant consume_provider_auth_grant
         (run_once put_provider_auth_grant consume_provider_auth_grant d xs) zs" for d zs
    by (induction put_provider_auth_grant consume_provider_auth_grant d xs rule: run_once.induct) simp_all
  then show ?thesis
    using True assms(3) auth_grants.consumed_once [of ys t key] unfolding es by auto
qed

theorem auth_grant_single_use_witness:
  "fst (consume_provider_auth_grant 5 ''a''
      (run_once put_provider_auth_grant consume_provider_auth_grant
        (snd (put_provider_auth_grant 1 ''a'' sample_grant 10 new_cache))
        [OPut 2 ''b'' sample_grant 10, OConsume 3 ''b''])) = Inr sample_grant"
  using auth_grant_single_use [of "''a''" 10 "[OPut 2 ''b'' sample_grant 10, OConsume 3 ''b'']" 5 1
      sample_grant new_cache]
  by (simp del: run_once.simps)

end
