(* ===== verification/CacheLimits.thy ===== *)
theory CacheLimits
  imports CacheState
begin

text \<open>
  The HTTP rate limiter of the cache (\<open>rate_limiter.go\<close>): sliding-window and fixed-window
  counters. Each is shown to be the limiter one would write with a log of every accepted
  request, although the code forgets what it thinks it no longer needs.
\<close>

subsection \<open>Operations\<close>

definition allow_sliding_window ::
  "gotime \<Rightarrow> string \<Rightarrow> int \<Rightarrow> duration \<Rightarrow> duration \<Rightarrow> cache \<Rightarrow> bool \<times> cache" where
  "allow_sliding_window now key limit window ttl c =
     (if trim_space key = [] \<or> limit \<le> 0 then (True, c)
      else
        let window' = (if window \<le> 0 then minute else window);
            cutoff = now - window';
            events = filter (\<lambda>t. after t cutoff) (get_or [] (slidingHTTP c) key);
            allowed = (int (length events) < limit);
            events' = (if allowed then events @ [now] else events)
        in (allowed, maybe_sweep now (c\<lparr>slidingHTTP := (slidingHTTP c)(key \<mapsto> events')\<rparr>)))"

definition fixed_window_zero :: fixed_window_counter where
  "fixed_window_zero = \<lparr>fw_count = 0, fw_expiresAt = 0\<rparr>"

definition fixed_window_hit ::
  "gotime \<Rightarrow> duration \<Rightarrow> fixed_window_counter \<Rightarrow> fixed_window_counter" where
  "fixed_window_hit now ttl item =
     (let item' = (if after now (fw_expiresAt item)
                   then \<lparr>fw_count = 0, fw_expiresAt = now + ttl\<rparr> else item)
      in item'\<lparr>fw_count := wrap64 (fw_count item' + 1)\<rparr>)"

fun fixed_window_loop ::
  "gotime \<Rightarrow> duration \<Rightarrow> int \<Rightarrow> string list \<Rightarrow> bool \<Rightarrow> (string \<rightharpoonup> fixed_window_counter)
     \<Rightarrow> bool \<times> (string \<rightharpoonup> fixed_window_counter)" where
  "fixed_window_loop now ttl limit [] allowed m = (allowed, m)"
| "fixed_window_loop now ttl limit (k # ks) allowed m =
     (let key = trim_space k
      in if key = [] then fixed_window_loop now ttl limit ks allowed m
         else let item = fixed_window_hit now ttl (get_or fixed_window_zero m key)
              in fixed_window_loop now ttl limit ks
                   (if limit < fw_count item then False else allowed) (m(key \<mapsto> item)))"

definition allow_fixed_window ::
  "gotime \<Rightarrow> string list \<Rightarrow> int \<Rightarrow> duration \<Rightarrow> cache \<Rightarrow> bool \<times> cache" where
  "allow_fixed_window now keys limit ttl c =
     (if keys = [] \<or> limit \<le> 0 then (True, c)
      else
        let ttl' = (if ttl \<le> 0 then minute else ttl);
            (allowed, m) = fixed_window_loop now ttl' limit keys True (fixedHTTP c)
        in (allowed, maybe_sweep now (c\<lparr>fixedHTTP := m\<rparr>)))"

subsection \<open>Sliding windows against a limiter that never forgets\<close>

text \<open>
  The specification keeps, per key, the instants of all accepted requests and accepts a
  request when fewer than \<open>limit\<close> of them lie in the window that ends now.
\<close>

definition ideal_allow :: "int \<Rightarrow> duration \<Rightarrow> gotime list \<Rightarrow> gotime \<Rightarrow> bool" where
  "ideal_allow limit window log now \<longleftrightarrow>
     int (length (filter (\<lambda>t. now - window < t) log)) < limit"

fun ideal_run :: "int \<Rightarrow> duration \<Rightarrow> (string \<Rightarrow> gotime list) \<Rightarrow> (gotime \<times> string) list \<Rightarrow> bool list" where
  "ideal_run limit window logs [] = []"
| "ideal_run limit window logs ((now, key) # rs) =
     (let ok = ideal_allow limit window (logs key) now
      in ok # ideal_run limit window
                (if ok then logs(key := logs key @ [now]) else logs) rs)"

fun sliding_run :: "int \<Rightarrow> duration \<Rightarrow> duration \<Rightarrow> cache \<Rightarrow> (gotime \<times> string) list \<Rightarrow> bool list" where
  "sliding_run limit window ttl c [] = []"
| "sliding_run limit window ttl c ((now, key) # rs) =
     (let (ok, c') = allow_sliding_window now key limit window ttl c
      in ok # sliding_run limit window ttl c' rs)"

text \<open>The cache may forget what has left every window that can still be asked about.\<close>

definition log_agrees :: "duration \<Rightarrow> gotime \<Rightarrow> cache \<Rightarrow> (string \<Rightarrow> gotime list) \<Rightarrow> bool" where
  "log_agrees window now c logs \<longleftrightarrow>
     (\<forall>key. filter (\<lambda>t. now - window < t) (get_or [] (slidingHTTP c) key)
          = filter (\<lambda>t. now - window < t) (logs key))"

lemma log_agrees_later:
  assumes "log_agrees window now c logs" and "now \<le> now'"
  shows "log_agrees window now' c logs"
  unfolding log_agrees_def
proof
  fix key
  let ?P = "\<lambda>t. now' - window < t" and ?Q = "\<lambda>t. now - window < t"
  have "filter ?P (filter ?Q xs) = filter ?P xs" for xs
    using assms(2) by (intro filter_filter_imp) simp
  moreover have "filter ?Q (get_or [] (slidingHTTP c) key) = filter ?Q (logs key)"
    using assms(1) by (simp add: log_agrees_def)
  ultimately show "filter ?P (get_or [] (slidingHTTP c) key) = filter ?P (logs key)"
    by metis
qed

lemma sweep_sliding_agrees:
  assumes "window \<le> sliding_window_retention"
  shows "filter (\<lambda>t. now - window < t) (get_or [] (sweep_sliding now m) key)
       = filter (\<lambda>t. now - window < t) (get_or [] m key)"
proof (cases "m key")
  case None
  then show ?thesis by (simp add: sweep_sliding_def get_or_def)
next
  case (Some events)
  let ?kept = "filter (\<lambda>t. after t (now - sliding_window_retention)) events"
  have "filter (\<lambda>t. now - window < t) ?kept = filter (\<lambda>t. now - window < t) events"
    using assms by (intro filter_filter_imp) simp
  moreover have "get_or [] (sweep_sliding now m) key = ?kept"
    using Some by (simp add: sweep_sliding_def get_or_def Let_def)
  ultimately show ?thesis using Some by simp
qed

lemma log_agrees_maybe_sweep:
  assumes "window \<le> sliding_window_retention" and "log_agrees window now c logs"
  shows "log_agrees window now (maybe_sweep now c) logs"
  by (rule maybe_sweep_rule)
    (use assms in \<open>simp_all add: log_agrees_def sweep_sliding_agrees\<close>)

lemma allow_sliding_window_step:
  assumes "trim_space key \<noteq> []" and "0 < limit" and "0 < window"
    and "window \<le> sliding_window_retention" and "log_agrees window now c logs"
    and "allow_sliding_window now key limit window ttl c = (ok, c')"
  shows "ok = ideal_allow limit window (logs key) now"
    and "log_agrees window now c' (if ok then logs(key := logs key @ [now]) else logs)"
proof -
  let ?f = "filter (\<lambda>t. now - window < t)"
  have eq: "?f (get_or [] (slidingHTTP c) k) = ?f (logs k)" for k
    using assms(5) by (simp add: log_agrees_def)
  show ok: "ok = ideal_allow limit window (logs key) now"
    using assms(1-3,6) eq [of key]
    by (auto simp: allow_sliding_window_def ideal_allow_def Let_def)
  let ?ev = "if ok then ?f (logs key) @ [now] else ?f (logs key)"
  have c': "c' = maybe_sweep now (c\<lparr>slidingHTTP := (slidingHTTP c)(key \<mapsto> ?ev)\<rparr>)"
    using assms(1-3,6) eq [of key] by (auto simp: allow_sliding_window_def Let_def)
  have "log_agrees window now (c\<lparr>slidingHTTP := (slidingHTTP c)(key \<mapsto> ?ev)\<rparr>)
          (if ok then logs(key := logs key @ [now]) else logs)"
    using eq assms(3) by (auto simp: log_agrees_def get_or_def)
  then show "log_agrees window now c' (if ok then logs(key := logs key @ [now]) else logs)"
    unfolding c' by (rule log_agrees_maybe_sweep [OF assms(4)])
qed

lemma sliding_run_refines:
  assumes "0 < limit" and "0 < window" and "window \<le> sliding_window_retention"
    and "log_agrees window t0 c logs"
    and "sorted (t0 # map fst rs)" and "\<forall>r \<in> set rs. trim_space (snd r) \<noteq> []"
  shows "sliding_run limit window ttl c rs = ideal_run limit window logs rs"
  using assms(4-6)
proof (induction rs arbitrary: c logs t0)
  case Nil
  then show ?case by simp
next
  case (Cons r rs)
  obtain now key where r: "r = (now, key)" by (cases r)
  obtain ok c' where step: "allow_sliding_window now key limit window ttl c = (ok, c')"
    by (cases "allow_sliding_window now key limit window ttl c")
  have agree: "log_agrees window now c logs"
    using log_agrees_later [OF Cons.prems(1)] Cons.prems(2) r by simp
  have key: "trim_space key \<noteq> []" using Cons.prems(3) r by simp
  note s = allow_sliding_window_step [OF key assms(1-3) agree step]
  have "sorted (now # map fst rs)" using Cons.prems(2) r by simp
  then have "sliding_run limit window ttl c' rs
      = ideal_run limit window (if ok then logs(key := logs key @ [now]) else logs) rs"
    using Cons.IH [OF s(2)] Cons.prems(3) by simp
  then show ?case using r step s(1) by (simp add: Let_def)
qed

text \<open>The ideal limiter never accepts more than \<open>limit\<close> requests of a key in one window.\<close>

fun accepted :: "string \<Rightarrow> (gotime \<times> string) list \<Rightarrow> bool list \<Rightarrow> gotime list" where
  "accepted key ((now, k) # rs) (ok # oks) =
     (if ok \<and> k = key then now # accepted key rs oks else accepted key rs oks)"
| "accepted key _ _ = []"

definition in_window :: "duration \<Rightarrow> gotime \<Rightarrow> gotime list \<Rightarrow> gotime list" where
  "in_window window t xs = filter (\<lambda>s. t - window < s \<and> s \<le> t) xs"

lemma ideal_run_window:
  assumes "0 \<le> limit" and "\<forall>t. int (length (in_window window t (logs key))) \<le> limit"
    and "\<forall>s \<in> set (logs key). s \<le> t0" and "sorted (t0 # map fst rs)"
  shows "int (length (in_window window t
           (logs key @ accepted key rs (ideal_run limit window logs rs)))) \<le> limit"
  using assms(2-)
proof (induction rs arbitrary: logs t0)
  case Nil
  then show ?case by simp
next
  case (Cons r rs)
  obtain now k where r: "r = (now, k)" by (cases r)
  define ok where "ok = ideal_allow limit window (logs k) now"
  define logs' where "logs' = (if ok then logs(k := logs k @ [now]) else logs)"
  have now: "t0 \<le> now" and sorted: "sorted (now # map fst rs)" using Cons.prems(3) r by auto
  have old: "\<forall>s \<in> set (logs key). s \<le> now" using Cons.prems(2) now by auto
  have new: "\<forall>s \<in> set (logs' key). s \<le> now" using old by (simp add: logs'_def)
  have bound: "int (length (in_window window u (logs' key))) \<le> limit" for u
  proof (cases "ok \<and> k = key \<and> now \<le> u")
    case False
    then have "in_window window u (logs' key) = in_window window u (logs key)"
      by (auto simp: logs'_def in_window_def)
    then show ?thesis using Cons.prems(1) by simp
  next
    case True
    have "length (in_window window u (logs key))
        \<le> length (filter (\<lambda>s. now - window < s) (logs key))"
    proof -
      have "in_window window u (logs key)
          = filter (\<lambda>s. u - window < s \<and> s \<le> u) (filter (\<lambda>s. now - window < s) (logs key))"
        using True unfolding in_window_def by (intro filter_filter_imp [symmetric]) simp
      then show ?thesis using length_filter_le by metis
    qed
    moreover have "int (length (filter (\<lambda>s. now - window < s) (logs key))) < limit"
      using True unfolding ok_def ideal_allow_def by blast
    ultimately show ?thesis using True by (auto simp: logs'_def in_window_def)
  qed
  have "logs key @ accepted key (r # rs) (ideal_run limit window logs (r # rs))
      = logs' key @ accepted key rs (ideal_run limit window logs' rs)"
    by (simp add: r ok_def [symmetric] logs'_def Let_def)
  then show ?case using Cons.IH [of logs' now] bound new sorted by simp
qed

theorem sliding_window_bound_aux:
  assumes "0 < limit" and "0 < window" and "window \<le> sliding_window_retention"
    and "\<forall>key. slidingHTTP c key = None"
    and "sorted (map fst rs)" and "\<forall>r \<in> set rs. trim_space (snd r) \<noteq> []"
  shows "int (length (in_window window t
           (accepted key rs (sliding_run limit window ttl c rs)))) \<le> limit"
proof (cases rs)
  case Nil
  then show ?thesis using assms(1) by (simp add: in_window_def)
next
  case (Cons r rs')
  have sorted: "sorted (fst r # map fst rs)" using assms(5) Cons by simp
  have agree: "log_agrees window (fst r) c (\<lambda>_. [])"
    using assms(4) by (simp add: log_agrees_def)
  have "sliding_run limit window ttl c rs = ideal_run limit window (\<lambda>_. []) rs"
    by (rule sliding_run_refines [OF assms(1-3) agree sorted assms(6)])
  moreover have "int (length (in_window window t
      ((\<lambda>_. []) key @ accepted key rs (ideal_run limit window (\<lambda>_. []) rs)))) \<le> limit"
    using assms(1) sorted by (intro ideal_run_window [where ?t0.0 = "fst r"]) (simp_all add: in_window_def)
  ultimately show ?thesis by simp
qed

subsection \<open>Fixed windows\<close>

fun fixed_run :: "int \<Rightarrow> duration \<Rightarrow> string \<Rightarrow> cache \<Rightarrow> gotime list \<Rightarrow> bool list" where
  "fixed_run limit ttl key c [] = []"
| "fixed_run limit ttl key c (now # ts) =
     (let (ok, c') = allow_fixed_window now [key] limit ttl c
      in ok # fixed_run limit ttl key c' ts)"

lemma allow_fixed_window_single:
  assumes "trim_space key \<noteq> []" and "0 < limit" and "0 < ttl"
  shows "allow_fixed_window now [key] limit ttl c =
     (let item = fixed_window_hit now ttl (get_or fixed_window_zero (fixedHTTP c) (trim_space key))
      in (\<not> limit < fw_count item,
          maybe_sweep now (c\<lparr>fixedHTTP := (fixedHTTP c)(trim_space key \<mapsto> item)\<rparr>)))"
  using assms by (simp add: allow_fixed_window_def Let_def)

text \<open>Inside the window the counter is exact, whatever is swept on the way.\<close>

lemma fixed_run_open:
  assumes "trim_space key \<noteq> []" and "0 < limit" and "0 < ttl"
    and "fixedHTTP c (trim_space key) = Some \<lparr>fw_count = n, fw_expiresAt = e\<rparr>"
    and "\<forall>t \<in> set ts. t \<le> e" and "0 \<le> n" and "n + int (length ts) < 2 ^ 63"
  shows "fixed_run limit ttl key c ts = map (\<lambda>i. n + int i \<le> limit) [1..<Suc (length ts)]"
  using assms(4-)
proof (induction ts arbitrary: c n)
  case Nil
  then show ?case by simp
next
  case (Cons now ts)
  let ?c = "maybe_sweep now (c\<lparr>fixedHTTP := (fixedHTTP c)(trim_space key \<mapsto>
              \<lparr>fw_count = n + 1, fw_expiresAt = e\<rparr>)\<rparr>)"
  have hit: "fixed_window_hit now ttl \<lparr>fw_count = n, fw_expiresAt = e\<rparr>
      = \<lparr>fw_count = n + 1, fw_expiresAt = e\<rparr>"
    using Cons.prems by (simp add: fixed_window_hit_def wrap64_nonneg_small)
  have step: "allow_fixed_window now [key] limit ttl c = (n + 1 \<le> limit, ?c)"
    using Cons.prems(1) hit by (auto simp: allow_fixed_window_single [OF assms(1-3)] Let_def)
  have "fixedHTTP ?c (trim_space key) = Some \<lparr>fw_count = n + 1, fw_expiresAt = e\<rparr>"
    using Cons.prems(2) by (intro maybe_sweep_live) simp_all
  then have "fixed_run limit ttl key ?c ts
      = map (\<lambda>i. n + 1 + int i \<le> limit) [1..<Suc (length ts)]"
    using Cons.prems by (intro Cons.IH) simp_all
  also have "\<dots> = map (\<lambda>i. n + int i \<le> limit) [2..<Suc (Suc (length ts))]"
    by (rule nth_equalityI) (simp_all del: upt_Suc add: algebra_simps)
  finally have rest: "fixed_run limit ttl key ?c ts
      = map (\<lambda>i. n + int i \<le> limit) [2..<Suc (Suc (length ts))]" .
  have "[1..<Suc (length (now # ts))] = 1 # [2..<Suc (Suc (length ts))]"
    by (simp add: upt_conv_Cons numeral_2_eq_2 del: upt_Suc)
  then show ?case using rest step by (simp del: upt_Suc)
qed

lemma fixed_run_window_aux:
  assumes "trim_space key \<noteq> []" and "0 < limit" and "0 < ttl"
    and "fixedHTTP c (trim_space key) = None" and "0 < now"
    and "\<forall>t \<in> set ts. t \<le> now + ttl" and "int (length ts) < 2 ^ 62"
  shows "fixed_run limit ttl key c (now # ts)
       = map (\<lambda>i. int i \<le> limit) [1..<Suc (length (now # ts))]"
proof -
  let ?item = "\<lparr>fw_count = 1, fw_expiresAt = now + ttl\<rparr>"
  let ?c = "maybe_sweep now (c\<lparr>fixedHTTP := (fixedHTTP c)(trim_space key \<mapsto> ?item)\<rparr>)"
  have hit: "fixed_window_hit now ttl fixed_window_zero = ?item"
    using assms(5) by (simp add: fixed_window_hit_def fixed_window_zero_def wrap64_nonneg_small)
  have step: "allow_fixed_window now [key] limit ttl c = (1 \<le> limit, ?c)"
    using assms(4) hit by (auto simp: allow_fixed_window_single [OF assms(1-3)] Let_def)
  have "fixedHTTP ?c (trim_space key) = Some ?item"
    using assms(3) by (intro maybe_sweep_live) simp_all
  then have "fixed_run limit ttl key ?c ts = map (\<lambda>i. 1 + int i \<le> limit) [1..<Suc (length ts)]"
    using assms by (intro fixed_run_open) simp_all
  also have "\<dots> = map (\<lambda>i. int i \<le> limit) [2..<Suc (Suc (length ts))]"
    by (rule nth_equalityI) (simp_all del: upt_Suc add: algebra_simps)
  finally have rest: "fixed_run limit ttl key ?c ts
      = map (\<lambda>i. int i \<le> limit) [2..<Suc (Suc (length ts))]" .
  have "[1..<Suc (length (now # ts))] = 1 # [2..<Suc (Suc (length ts))]"
    by (simp add: upt_conv_Cons numeral_2_eq_2 del: upt_Suc)
  then show ?thesis using rest step by (simp del: upt_Suc)
qed

subsection \<open>What the limiter promises\<close>

text \<open>
  C24: The sliding-window limiter decides as a limiter with a perfect memory does: for every
  sequence of requests on any keys, with windows up to the ten minutes the sweep keeps, it accepts
  a request exactly when fewer than the limit of the key's accepted requests lie in the window
  that ends at it.
\<close>

theorem sliding_window_refines_log:
  assumes "0 < limit" and "0 < window" and "window \<le> sliding_window_retention"
    and "slidingHTTP c = Map.empty"
    and "sorted (t0 # map fst rs)" and "\<forall>r \<in> set rs. trim_space (snd r) \<noteq> []"
  shows "sliding_run limit window ttl c rs = ideal_run limit window (\<lambda>_. []) rs"
  using sliding_run_refines [OF assms(1-3) _ assms(5,6), of c "\<lambda>_. []"] assms(4)
  by (simp add: log_agrees_def)

theorem sliding_window_refines_log_witness:
  "sliding_run 1 5 0 new_cache [(1, ''a''), (3, ''b''), (4, ''a''), (7, ''a'')]
     = [True, True, False, True]"
proof -
  have trim: "trim_space ''a'' = ''a''" "trim_space ''b'' = ''b''" by code_simp+
  show ?thesis
    using sliding_window_refines_log [of 1 5 new_cache 0
        "[(1, ''a''), (3, ''b''), (4, ''a''), (7, ''a'')]" 0]
    by (simp add: new_cache_def retention_defs trim ideal_allow_def del: sliding_run.simps)
qed

text \<open>
  C29: The sliding-window limiter never lets more than the limit through: in every window of the
  configured length, wherever it ends, at most \<open>limit\<close> requests of a key were accepted.
\<close>

theorem sliding_window_bound:
  assumes "0 < limit" and "0 < window" and "window \<le> sliding_window_retention"
    and "\<forall>key. slidingHTTP c key = None"
    and "sorted (map fst rs)" and "\<forall>r \<in> set rs. trim_space (snd r) \<noteq> []"
  shows "int (length (in_window window t
           (accepted key rs (sliding_run limit window ttl c rs)))) \<le> limit"
  by (rule sliding_window_bound_aux [OF assms])

theorem sliding_window_bound_witness:
  "int (length (in_window 5 4 (accepted ''a'' [(1, ''a''), (3, ''b''), (4, ''a'')]
     (sliding_run 1 5 0 new_cache [(1, ''a''), (3, ''b''), (4, ''a'')])))) \<le> 1"
proof -
  have trim: "trim_space ''a'' = ''a''" "trim_space ''b'' = ''b''" by code_simp+
  show ?thesis
    by (rule sliding_window_bound) (simp_all add: new_cache_def retention_defs trim)
qed

text \<open>
  The fixed-window limiter counts exactly: from the first request of a window on, the i-th
  request of the key is accepted if and only if i is at most the limit, for as long as the window
  lasts, although the sweep runs in between.
\<close>

theorem fixed_window_exact:
  assumes "trim_space key \<noteq> []" and "0 < limit" and "0 < ttl"
    and "fixedHTTP c (trim_space key) = None" and "0 < now"
    and "\<forall>t \<in> set ts. t \<le> now + ttl" and "int (length ts) < 2 ^ 62"
  shows "fixed_run limit ttl key c (now # ts)
       = map (\<lambda>i. int i \<le> limit) [1..<Suc (length (now # ts))]"
  by (rule fixed_run_window_aux [OF assms])

theorem fixed_window_exact_witness:
  "fixed_run 2 10 ''a'' new_cache [1, 5, 11] = [True, True, False]"
proof -
  have trim: "trim_space ''a'' = ''a''" by code_simp
  show ?thesis
    using fixed_window_exact [of "''a''" 2 10 new_cache 1 "[5, 11]"]
    by (simp add: new_cache_def trim upt_conv_Cons del: fixed_run.simps upt_Suc)
qed

end
