(* ===== verification/FileQueue.thy ===== *)
theory FileQueue
  imports CacheState "HOL-Library.Multiset"
begin

text \<open>
  The queue of files to process (\<open>file_queue.go\<close>): messages wait in a FIFO, a worker that reads
  one holds a lease on it, a lease that was not renewed for 45 seconds can be claimed by another
  worker, and only the holder can settle, requeue or dead-letter a message. \<open>ctx.Err()\<close> at the
  entry of an operation is its argument \<open>ctx\<close>; the order in which Go iterates over the map of
  leases is the argument \<open>order\<close> of the claim.
\<close>

subsection \<open>Operations\<close>

definition file_processing_min_idle :: duration where
  "file_processing_min_idle = 45 * second"

definition max_file_queue_length :: int where
  "max_file_queue_length = 10000"

definition init_file_processing_stream :: "ctx_err option \<Rightarrow> cache_err option" where
  "init_file_processing_stream ctx = map_option Ctx ctx"

definition notify_file_queue :: "cache \<Rightarrow> cache outcome" where
  "notify_file_queue c =
     bind_outcome (close_chan (fileNotify c) c)
       (\<lambda>c. let (n, c) = make_chan c in Done (c\<lparr>fileNotify := n\<rparr>))"

definition enqueue_file_processing ::
  "gotime \<Rightarrow> ctx_err option \<Rightarrow> nat \<Rightarrow> string \<Rightarrow> int \<Rightarrow> string \<Rightarrow> cache
     \<Rightarrow> (cache_err option \<times> cache) outcome" where
  "enqueue_file_processing now ctx userID fileID retry lastError c =
     (if trim_space fileID = [] then Done (None, c)
      else case ctx of
        Some e \<Rightarrow> Done (Some (Ctx e), c)
      | None \<Rightarrow>
          if max_file_queue_length \<le> int (length (fileQueue c))
          then Done (Some (Repo ErrFileProcessingQueueFull), maybe_sweep now c)
          else
            let seq = wrap64 (fileSeq c + 1);
                msg = \<lparr>fm_ID = itoa seq, fm_UserID = userID, fm_FileID = trim_space fileID,
                       fm_Retry = retry, fm_LastError = trim_space lastError, fm_Reclaimed = False\<rparr>
            in bind_outcome (notify_file_queue (c\<lparr>fileSeq := seq, fileQueue := fileQueue c @ [msg]\<rparr>))
                 (\<lambda>c. Done (None, maybe_sweep now c)))"

definition zero_file_message :: file_message where
  "zero_file_message = \<lparr>fm_ID = [], fm_UserID = 0, fm_FileID = [], fm_Retry = 0, fm_LastError = [],
                        fm_Reclaimed = False\<rparr>"

definition zero_file_lease :: file_lease where
  "zero_file_lease = \<lparr>fl_consumerName = [], fl_leasedAt = 0, fl_message = zero_file_message\<rparr>"

fun claim_loop ::
  "gotime \<Rightarrow> (string \<rightharpoonup> file_lease) \<Rightarrow> string list \<Rightarrow> string \<Rightarrow> file_lease \<Rightarrow> string \<times> file_lease" where
  "claim_loop now m [] candidateID candidate = (candidateID, candidate)"
| "claim_loop now m (messageID # order) candidateID candidate =
     (case m messageID of
        None \<Rightarrow> claim_loop now m order candidateID candidate
      | Some lease \<Rightarrow>
          if time_sub now (fl_leasedAt lease) < file_processing_min_idle
          then claim_loop now m order candidateID candidate
          else if candidateID = [] \<or> before (fl_leasedAt lease) (fl_leasedAt candidate)
          then claim_loop now m order messageID lease
          else claim_loop now m order candidateID candidate)"

definition claim_timed_out_file_processing_messages ::
  "gotime \<Rightarrow> ctx_err option \<Rightarrow> string \<Rightarrow> string list \<Rightarrow> cache
     \<Rightarrow> (cache_err + file_message list) \<times> cache" where
  "claim_timed_out_file_processing_messages now ctx consumerName order c =
     (if trim_space consumerName = [] then (Inr [], c)
      else case ctx of
        Some e \<Rightarrow> (Inl (Ctx e), c)
      | None \<Rightarrow>
          let (candidateID, candidate) = claim_loop now (fileInflight c) order [] zero_file_lease
          in if candidateID = [] then (Inr [], c)
             else
               let lease = \<lparr>fl_consumerName = trim_space consumerName, fl_leasedAt = now,
                            fl_message = (fl_message candidate)\<lparr>fm_Reclaimed := True\<rparr>\<rparr>
               in (Inr [fl_message lease],
                   c\<lparr>fileInflight := (fileInflight c)(candidateID \<mapsto> lease)\<rparr>))"

text \<open>
  The critical section of \<open>ReadFileProcessingMessages\<close>: it takes the head of the queue and leases
  it, or finds the queue empty and gives the channel to wait on.
\<close>

definition read_file_processing_section ::
  "gotime \<Rightarrow> string \<Rightarrow> cache \<Rightarrow> (nat + file_message) \<times> cache" where
  "read_file_processing_section now consumerName c =
     (case fileQueue c of
        msg # rest \<Rightarrow>
          (Inr msg, c\<lparr>fileQueue := rest, fileInflight := (fileInflight c)(fm_ID msg \<mapsto>
             \<lparr>fl_consumerName = trim_space consumerName, fl_leasedAt = now, fl_message = msg\<rparr>)\<rparr>)
      | [] \<Rightarrow> (Inl (fileNotify c), c))"

text \<open>The check every operation of a lease holder starts with.\<close>

definition holds_lease :: "string \<Rightarrow> string \<Rightarrow> cache \<Rightarrow> bool" where
  "holds_lease consumerName messageID c \<longleftrightarrow>
     (case fileInflight c messageID of
        None \<Rightarrow> False
      | Some lease \<Rightarrow> fl_consumerName lease = trim_space consumerName)"

definition renew_file_processing_message_lease ::
  "gotime \<Rightarrow> ctx_err option \<Rightarrow> string \<Rightarrow> string \<Rightarrow> cache \<Rightarrow> (cache_err + bool) \<times> cache" where
  "renew_file_processing_message_lease now ctx consumerName messageID c =
     (case ctx of
        Some e \<Rightarrow> (Inl (Ctx e), c)
      | None \<Rightarrow>
          let messageID' = trim_space messageID
          in if \<not> holds_lease consumerName messageID' c then (Inr False, c)
             else (Inr True, c\<lparr>fileInflight := (fileInflight c)(messageID' :=
                     map_option (fl_leasedAt_update (\<lambda>_. now)) (fileInflight c messageID'))\<rparr>))"

definition settle_file_processing_message ::
  "gotime \<Rightarrow> ctx_err option \<Rightarrow> string \<Rightarrow> string \<Rightarrow> cache \<Rightarrow> (cache_err + bool) \<times> cache" where
  "settle_file_processing_message now ctx consumerName messageID c =
     (case ctx of
        Some e \<Rightarrow> (Inl (Ctx e), c)
      | None \<Rightarrow>
          let messageID' = trim_space messageID
          in if \<not> holds_lease consumerName messageID' c then (Inr False, c)
             else (Inr True, maybe_sweep now (c\<lparr>fileInflight := (fileInflight c)(messageID' := None)\<rparr>)))"

definition requeue_file_processing_message ::
  "gotime \<Rightarrow> ctx_err option \<Rightarrow> string \<Rightarrow> file_message \<Rightarrow> int \<Rightarrow> string \<Rightarrow> cache
     \<Rightarrow> ((cache_err + bool) \<times> cache) outcome" where
  "requeue_file_processing_message now ctx consumerName message retry lastError c =
     (case ctx of
        Some e \<Rightarrow> Done (Inl (Ctx e), c)
      | None \<Rightarrow>
          let messageID = trim_space (fm_ID message)
          in if \<not> holds_lease consumerName messageID c then Done (Inr False, c)
             else
               let seq = wrap64 (fileSeq c + 1);
                   msg = \<lparr>fm_ID = itoa seq, fm_UserID = fm_UserID message,
                          fm_FileID = trim_space (fm_FileID message), fm_Retry = retry,
                          fm_LastError = trim_space lastError, fm_Reclaimed = False\<rparr>
               in bind_outcome (notify_file_queue
                    (c\<lparr>fileSeq := seq, fileQueue := fileQueue c @ [msg],
                       fileInflight := (fileInflight c)(messageID := None)\<rparr>))
                    (\<lambda>c. Done (Inr True, maybe_sweep now c)))"

definition dead_letter_file_processing_message ::
  "gotime \<Rightarrow> ctx_err option \<Rightarrow> string \<Rightarrow> file_message \<Rightarrow> string \<Rightarrow> cache
     \<Rightarrow> (cache_err + bool) \<times> cache" where
  "dead_letter_file_processing_message now ctx consumerName message lastError c =
     (case ctx of
        Some e \<Rightarrow> (Inl (Ctx e), c)
      | None \<Rightarrow>
          let messageID = trim_space (fm_ID message)
          in if \<not> holds_lease consumerName messageID c then (Inr False, c)
             else
               let seq = wrap64 (fileSeq c + 1);
                   msg = \<lparr>fm_ID = ''dlq-'' @ itoa seq, fm_UserID = fm_UserID message,
                          fm_FileID = trim_space (fm_FileID message), fm_Retry = fm_Retry message,
                          fm_LastError = trim_space lastError, fm_Reclaimed = False\<rparr>
               in (Inr True, maybe_sweep now
                    (c\<lparr>fileSeq := seq, fileDLQ := keep_last 10000 (fileDLQ c @ [msg]),
                       fileInflight := (fileInflight c)(messageID := None)\<rparr>)))"

subsection \<open>The invariant\<close>

text \<open>
  Identifiers are the decimal forms of sequence numbers. Those in the queue increase from its
  head, those of leases are not in the queue, none exceeds the counter, and the channels are
  sound. \<open>waiting\<close> and \<open>leased\<close> read the two containers by number.
\<close>

definition queue_ok :: "int \<Rightarrow> file_message list \<Rightarrow> bool" where
  "queue_ok seq q \<longleftrightarrow> (\<exists>ns. map fm_ID q = map nat_digits ns \<and> sorted_wrt (<) ns
     \<and> (\<forall>n \<in> set ns. 0 < n \<and> int n \<le> seq))"

definition leases_ok :: "int \<Rightarrow> file_message list \<Rightarrow> (string \<rightharpoonup> file_lease) \<Rightarrow> bool" where
  "leases_ok seq q m \<longleftrightarrow> (\<forall>k l. m k = Some l \<longrightarrow>
     fm_ID (fl_message l) = k \<and> k \<notin> fm_ID ` set q \<and> (\<exists>n. k = nat_digits n \<and> 0 < n \<and> int n \<le> seq))"

definition file_inv :: "cache \<Rightarrow> bool" where
  "file_inv c \<longleftrightarrow> 0 \<le> fileSeq c \<and> chan_inv c \<and> queue_ok (fileSeq c) (fileQueue c)
     \<and> leases_ok (fileSeq c) (fileQueue c) (fileInflight c) \<and> length (fileDLQ c) \<le> 10000"

lemma chan_of_file_fields [simp]:
  "chan_of (c\<lparr>fileSeq := a\<rparr>) w = chan_of c w"
  "chan_of (c\<lparr>fileQueue := q\<rparr>) w = chan_of c w"
  "chan_of (c\<lparr>fileInflight := i\<rparr>) w = chan_of c w"
  "chan_of (c\<lparr>fileDLQ := d\<rparr>) w = chan_of c w"
  by (cases w; simp)+

lemma chan_inv_file_fields [simp]:
  "chan_inv (c\<lparr>fileSeq := a\<rparr>) = chan_inv c"
  "chan_inv (c\<lparr>fileQueue := q\<rparr>) = chan_inv c"
  "chan_inv (c\<lparr>fileInflight := i\<rparr>) = chan_inv c"
  "chan_inv (c\<lparr>fileDLQ := d\<rparr>) = chan_inv c"
  by (simp_all add: chan_inv_def)

lemma file_inv_new_cache: "file_inv new_cache"
  using chan_inv_new_cache by (simp add: file_inv_def queue_ok_def leases_ok_def new_cache_def)

lemma file_inv_maybe_sweep: "file_inv c \<Longrightarrow> file_inv (maybe_sweep now c)"
  by (simp add: file_inv_def chan_inv_maybe_sweep)

lemma notify_file_queue_Done:
  assumes "chan_inv c"
  shows "\<exists>c'. notify_file_queue c = Done c' \<and> chan_inv c' \<and> fileSeq c' = fileSeq c
    \<and> fileQueue c' = fileQueue c \<and> fileInflight c' = fileInflight c \<and> fileDLQ c' = fileDLQ c
    \<and> chanClosed c' = (chanClosed c)(fileNotify c := True) \<and> fileNotify c' = chanNext c
    \<and> streams c' = streams c \<and> streamNotify c' = streamNotify c \<and> ops c' = ops c"
proof -
  let ?c = "c\<lparr>chanClosed := (chanClosed c)(fileNotify c := True), chanNext := Suc (chanNext c),
              fileNotify := chanNext c\<rparr>"
  have "notify_file_queue c = Done ?c"
    using chan_inv_open [OF assms, of FileChan]
    by (simp add: notify_file_queue_def close_chan_def make_chan_def Let_def)
  moreover have "chan_of ?c = (chan_of c)(FileChan \<mapsto> chanNext c)"
  proof
    fix w show "chan_of ?c w = ((chan_of c)(FileChan \<mapsto> chanNext c)) w" by (cases w) simp_all
  qed
  then have "chan_inv ?c"
    using chan_inv_renew [OF assms, of FileChan "fileNotify c" ?c] by simp
  ultimately show ?thesis by simp
qed

lemma queue_ok_snoc:
  assumes "queue_ok seq q" and "0 \<le> seq" and "fm_ID m = nat_digits (nat (seq + 1))"
  shows "queue_ok (seq + 1) (q @ [m])"
proof -
  obtain ns where ns: "map fm_ID q = map nat_digits ns" "sorted_wrt (<) ns"
      "\<forall>n \<in> set ns. 0 < n \<and> int n \<le> seq"
    using assms(1) by (auto simp: queue_ok_def)
  have "map fm_ID (q @ [m]) = map nat_digits (ns @ [nat (seq + 1)])" using ns assms(3) by simp
  moreover have "sorted_wrt (<) (ns @ [nat (seq + 1)])"
    using ns(2,3) assms(2) by (force simp: sorted_wrt_append)
  moreover have "\<forall>n \<in> set (ns @ [nat (seq + 1)]). 0 < n \<and> int n \<le> seq + 1"
    using ns(3) assms(2) by auto
  ultimately show ?thesis unfolding queue_ok_def by blast
qed

lemma queue_ok_tl: "queue_ok seq (m # q) \<Longrightarrow> queue_ok seq q"
  unfolding queue_ok_def by (auto simp: Cons_eq_map_conv)

lemma queue_ok_hd:
  assumes "queue_ok seq (m # q)"
  shows "fm_ID m \<notin> fm_ID ` set q" "\<exists>n. fm_ID m = nat_digits n \<and> 0 < n \<and> int n \<le> seq"
proof -
  obtain n ns where ns: "fm_ID m = nat_digits n" "map fm_ID q = map nat_digits ns"
      "sorted_wrt (<) (n # ns)" "0 < n" "int n \<le> seq"
    using assms by (auto simp: queue_ok_def Cons_eq_map_conv)
  have "nat_digits n \<notin> set (map nat_digits ns)" using ns(3) by (auto simp: nat_digits_inject)
  then show "fm_ID m \<notin> fm_ID ` set q" using ns(1,2) by (metis list.set_map)
  show "\<exists>n. fm_ID m = nat_digits n \<and> 0 < n \<and> int n \<le> seq" using ns by blast
qed

lemma queue_ok_ids: "queue_ok seq q \<Longrightarrow> m \<in> set q \<Longrightarrow> \<exists>n. fm_ID m = nat_digits n \<and> 0 < n \<and> int n \<le> seq"
  by (induction q) (auto dest: queue_ok_tl queue_ok_hd)

lemma itoa_next: "0 \<le> seq \<Longrightarrow> seq < 2 ^ 63 - 1 \<Longrightarrow> itoa (wrap64 (seq + 1)) = nat_digits (nat (seq + 1))
    \<and> wrap64 (seq + 1) = seq + 1"
  by (simp add: itoa_def wrap64_nonneg_small)

lemma fresh_id:
  assumes "queue_ok seq q" and "leases_ok seq q m" and "0 \<le> seq"
  shows "nat_digits (nat (seq + 1)) \<notin> fm_ID ` set q" "m (nat_digits (nat (seq + 1))) = None"
proof -
  show "nat_digits (nat (seq + 1)) \<notin> fm_ID ` set q"
    using queue_ok_ids [OF assms(1)] assms(3) by (force simp: nat_digits_inject)
  show "m (nat_digits (nat (seq + 1))) = None"
    using assms(2,3) by (cases "m (nat_digits (nat (seq + 1)))") (force simp: leases_ok_def nat_digits_inject)+
qed

lemma leases_ok_snoc:
  assumes "leases_ok seq q m" and "queue_ok seq q" and "0 \<le> seq"
    and "fm_ID msg = nat_digits (nat (seq + 1))" and "m' \<subseteq>\<^sub>m m"
  shows "leases_ok (seq + 1) (q @ [msg]) m'"
  unfolding leases_ok_def
proof (intro allI impI)
  fix k l
  assume "m' k = Some l"
  then have k: "m k = Some l" using assms(5) by (metis map_le_def domI)
  then have "k \<noteq> nat_digits (nat (seq + 1))" using fresh_id(2) [OF assms(2,1,3)] by auto
  then show "fm_ID (fl_message l) = k \<and> k \<notin> fm_ID ` set (q @ [msg])
      \<and> (\<exists>n. k = nat_digits n \<and> 0 < n \<and> int n \<le> seq + 1)"
    using assms(1,4) k by (force simp: leases_ok_def)
qed

subsection \<open>One operation after another\<close>

datatype file_op =
    Enqueue gotime "ctx_err option" nat string int string
  | Claim gotime "ctx_err option" string "string list"
  | Dequeue gotime string
  | Renew gotime "ctx_err option" string string
  | Settle gotime "ctx_err option" string string
  | Requeue gotime "ctx_err option" string file_message int string
  | DeadLetter gotime "ctx_err option" string file_message string

datatype file_result = RErr cache_err | ROk | RBool bool | RMsgs "file_message list" | RWait nat

fun bool_result :: "cache_err + bool \<Rightarrow> file_result" where
  "bool_result (Inl e) = RErr e"
| "bool_result (Inr b) = RBool b"

fun exec_file :: "file_op \<Rightarrow> cache \<Rightarrow> (file_result \<times> cache) outcome" where
  "exec_file (Enqueue now ctx u f r e) c =
     bind_outcome (enqueue_file_processing now ctx u f r e c)
       (\<lambda>(res, c'). Done (case res of None \<Rightarrow> ROk | Some err \<Rightarrow> RErr err, c'))"
| "exec_file (Claim now ctx consumer order) c =
     (let (res, c') = claim_timed_out_file_processing_messages now ctx consumer order c
      in Done (case res of Inl err \<Rightarrow> RErr err | Inr ms \<Rightarrow> RMsgs ms, c'))"
| "exec_file (Dequeue now consumer) c =
     (let (res, c') = read_file_processing_section now consumer c
      in Done (case res of Inl n \<Rightarrow> RWait n | Inr m \<Rightarrow> RMsgs [m], c'))"
| "exec_file (Renew now ctx consumer i) c =
     (let (res, c') = renew_file_processing_message_lease now ctx consumer i c
      in Done (bool_result res, c'))"
| "exec_file (Settle now ctx consumer i) c =
     (let (res, c') = settle_file_processing_message now ctx consumer i c
      in Done (bool_result res, c'))"
| "exec_file (Requeue now ctx consumer msg r e) c =
     bind_outcome (requeue_file_processing_message now ctx consumer msg r e c)
       (\<lambda>(res, c'). Done (bool_result res, c'))"
| "exec_file (DeadLetter now ctx consumer msg e) c =
     (let (res, c') = dead_letter_file_processing_message now ctx consumer msg e c
      in Done (bool_result res, c'))"

text \<open>Go visits every key of a map once, in an order of its own choosing.\<close>

fun op_fits :: "file_op \<Rightarrow> cache \<Rightarrow> bool" where
  "op_fits (Claim now ctx consumer order) c \<longleftrightarrow> set order = dom (fileInflight c)"
| "op_fits _ c \<longleftrightarrow> True"

subsection \<open>The specification: a table of leases\<close>

text \<open>
  The abstract queue is one table: a job has its message and, when a worker has it, the worker
  and the instant its lease was last renewed. Jobs are numbered in the order they were accepted.
\<close>

type_synonym job = "file_message \<times> (string \<times> gotime) option"

definition table_of :: "file_message list \<Rightarrow> (string \<rightharpoonup> file_lease) \<Rightarrow> nat \<rightharpoonup> job" where
  "table_of q m n =
     (case m (nat_digits n) of
        Some l \<Rightarrow> Some (fl_message l, Some (fl_consumerName l, fl_leasedAt l))
      | None \<Rightarrow> map_option (\<lambda>x. (x, None)) (find (\<lambda>x. fm_ID x = nat_digits n) q))"

definition table :: "cache \<Rightarrow> nat \<rightharpoonup> job" where
  "table c = table_of (fileQueue c) (fileInflight c)"

definition new_job :: "int \<Rightarrow> nat \<Rightarrow> string \<Rightarrow> int \<Rightarrow> string \<Rightarrow> job" where
  "new_job seq u f r e =
     (\<lparr>fm_ID = nat_digits (nat seq), fm_UserID = u, fm_FileID = trim_space f, fm_Retry = r,
       fm_LastError = trim_space e, fm_Reclaimed = False\<rparr>, None)"

definition held_by :: "string \<Rightarrow> string \<Rightarrow> (nat \<rightharpoonup> job) \<Rightarrow> nat \<Rightarrow> bool" where
  "held_by consumer i T n \<longleftrightarrow>
     trim_space i = nat_digits n \<and> (\<exists>m t. T n = Some (m, Some (trim_space consumer, t)))"

definition overdue :: "gotime \<Rightarrow> (nat \<rightharpoonup> job) \<Rightarrow> nat \<Rightarrow> gotime \<Rightarrow> bool" where
  "overdue now T n t \<longleftrightarrow> (\<exists>m h. T n = Some (m, Some (h, t))) \<and> 45 * second \<le> now - t"

definition refused :: "ctx_err option \<Rightarrow> file_result \<Rightarrow> bool" where
  "refused ctx r \<longleftrightarrow> (\<exists>e. ctx = Some e \<and> r = RErr (Ctx e))"

fun lease_spec ::
  "file_op \<Rightarrow> file_result \<Rightarrow> (nat \<rightharpoonup> job) \<Rightarrow> int \<Rightarrow> (nat \<rightharpoonup> job) \<Rightarrow> int \<Rightarrow> bool" where
  "lease_spec (Enqueue now ctx u f r e) res T s T' s' \<longleftrightarrow>
     (if trim_space f = [] then res = ROk \<and> T' = T \<and> s' = s
      else if ctx \<noteq> None \<or> res = RErr (Repo ErrFileProcessingQueueFull)
      then (ctx = None \<or> refused ctx res) \<and> T' = T \<and> s' = s
      else res = ROk \<and> s' = s + 1 \<and> T (nat s') = None \<and> T' = T(nat s' \<mapsto> new_job s' u f r e))"
| "lease_spec (Claim now ctx consumer order) res T s T' s' \<longleftrightarrow> s' = s \<and>
     (if trim_space consumer = [] then res = RMsgs [] \<and> T' = T
      else if ctx \<noteq> None then refused ctx res \<and> T' = T
      else (res = RMsgs [] \<and> T' = T \<and> (\<forall>n t. \<not> overdue now T n t))
        \<or> (\<exists>n t m h. overdue now T n t \<and> (\<forall>n' t'. overdue now T n' t' \<longrightarrow> t \<le> t')
             \<and> T n = Some (m, Some (h, t)) \<and> res = RMsgs [m\<lparr>fm_Reclaimed := True\<rparr>]
             \<and> T' = T(n \<mapsto> (m\<lparr>fm_Reclaimed := True\<rparr>, Some (trim_space consumer, now)))))"
| "lease_spec (Dequeue now consumer) res T s T' s' \<longleftrightarrow> s' = s \<and>
     ((\<exists>ch. res = RWait ch \<and> T' = T \<and> (\<forall>n m. T n \<noteq> Some (m, None)))
      \<or> (\<exists>n m. T n = Some (m, None) \<and> (\<forall>n' m'. T n' = Some (m', None) \<longrightarrow> n \<le> n')
           \<and> res = RMsgs [m] \<and> T' = T(n \<mapsto> (m, Some (trim_space consumer, now)))))"
| "lease_spec (Renew now ctx consumer i) res T s T' s' \<longleftrightarrow> s' = s \<and>
     (if ctx \<noteq> None then refused ctx res \<and> T' = T
      else (res = RBool False \<and> T' = T \<and> (\<forall>n. \<not> held_by consumer i T n))
        \<or> (\<exists>n m t. held_by consumer i T n \<and> T n = Some (m, Some (trim_space consumer, t))
             \<and> res = RBool True \<and> T' = T(n \<mapsto> (m, Some (trim_space consumer, now)))))"
| "lease_spec (Settle now ctx consumer i) res T s T' s' \<longleftrightarrow> s' = s \<and>
     (if ctx \<noteq> None then refused ctx res \<and> T' = T
      else (res = RBool False \<and> T' = T \<and> (\<forall>n. \<not> held_by consumer i T n))
        \<or> (\<exists>n. held_by consumer i T n \<and> res = RBool True \<and> T' = T(n := None)))"
| "lease_spec (Requeue now ctx consumer msg r e) res T s T' s' \<longleftrightarrow>
     (if ctx \<noteq> None then refused ctx res \<and> T' = T \<and> s' = s
      else (res = RBool False \<and> T' = T \<and> s' = s \<and> (\<forall>n. \<not> held_by consumer (fm_ID msg) T n))
        \<or> (\<exists>n. held_by consumer (fm_ID msg) T n \<and> res = RBool True \<and> s' = s + 1
             \<and> T (nat s') = None
             \<and> T' = (T(n := None))(nat s' \<mapsto> new_job s' (fm_UserID msg) (fm_FileID msg) r e)))"
| "lease_spec (DeadLetter now ctx consumer msg e) res T s T' s' \<longleftrightarrow>
     (if ctx \<noteq> None then refused ctx res \<and> T' = T \<and> s' = s
      else (res = RBool False \<and> T' = T \<and> s' = s \<and> (\<forall>n. \<not> held_by consumer (fm_ID msg) T n))
        \<or> (\<exists>n. held_by consumer (fm_ID msg) T n \<and> res = RBool True \<and> s' = s + 1
             \<and> T' = T(n := None)))"

subsection \<open>How the table moves\<close>

lemma find_snoc: "find P (xs @ [x]) = (case find P xs of None \<Rightarrow> if P x then Some x else None | Some y \<Rightarrow> Some y)"
  by (induction xs) auto

lemma find_in: "find P xs = Some x \<Longrightarrow> x \<in> set xs \<and> P x"
  by (induction xs) (auto split: if_splits)

lemma find_id_None: "i \<notin> fm_ID ` set q \<Longrightarrow> find (\<lambda>x. fm_ID x = i) q = None"
  by (induction q) auto

lemma find_id_Some:
  "queue_ok seq q \<Longrightarrow> x \<in> set q \<Longrightarrow> find (\<lambda>y. fm_ID y = fm_ID x) q = Some x"
proof (induction q)
  case (Cons y q)
  then show ?case using queue_ok_tl queue_ok_hd(1) [OF Cons.prems(1)] by fastforce
qed simp

lemma table_snoc:
  assumes "queue_ok seq q" and "leases_ok seq q m" and "0 \<le> seq"
    and "fm_ID msg = nat_digits (nat (seq + 1))"
  shows "table_of (q @ [msg]) m = (table_of q m)(nat (seq + 1) \<mapsto> (msg, None))"
    and "table_of q m (nat (seq + 1)) = None"
proof -
  note fresh = fresh_id [OF assms(1-3)]
  show new: "table_of q m (nat (seq + 1)) = None"
    using fresh by (simp add: table_of_def find_id_None)
  show "table_of (q @ [msg]) m = (table_of q m)(nat (seq + 1) \<mapsto> (msg, None))"
  proof
    fix n show "table_of (q @ [msg]) m n = ((table_of q m)(nat (seq + 1) \<mapsto> (msg, None))) n"
      using fresh assms(4) by (auto simp: table_of_def find_snoc find_id_None nat_digits_inject
          split: option.splits)
  qed
qed

lemma table_dequeue:
  assumes "queue_ok seq (msg # q)" and "fm_ID msg = nat_digits n" and "fl_message l = msg"
  shows "table_of q (m(fm_ID msg \<mapsto> l))
    = (table_of (msg # q) m)(n \<mapsto> (msg, Some (fl_consumerName l, fl_leasedAt l)))"
proof
  fix k show "table_of q (m(fm_ID msg \<mapsto> l)) k
      = ((table_of (msg # q) m)(n \<mapsto> (msg, Some (fl_consumerName l, fl_leasedAt l)))) k"
    using assms by (auto simp: table_of_def nat_digits_inject split: option.split)
qed

lemma leases_okD:
  "leases_ok seq q m \<Longrightarrow> m k = Some l \<Longrightarrow>
   fm_ID (fl_message l) = k \<and> k \<notin> fm_ID ` set q \<and> (\<exists>n. k = nat_digits n \<and> 0 < n \<and> int n \<le> seq)"
  unfolding leases_ok_def by blast

lemma table_unlease:
  assumes "leases_ok seq q m" and "m (nat_digits n) = Some l"
  shows "table_of q (m(nat_digits n := None)) = (table_of q m)(n := None)"
proof
  fix k show "table_of q (m(nat_digits n := None)) k = ((table_of q m)(n := None)) k"
    using assms by (auto simp: table_of_def nat_digits_inject leases_ok_def find_id_None)
qed

lemma table_unlease_inv:
  "file_inv c \<Longrightarrow> fileInflight c (nat_digits n) = Some l \<Longrightarrow>
   table_of (fileQueue c) ((fileInflight c)(nat_digits n := None)) = (table c)(n := None)"
  unfolding table_def file_inv_def by (intro table_unlease) auto

lemma table_lease:
  "table_of q (m(nat_digits n \<mapsto> l))
     = (table_of q m)(n \<mapsto> (fl_message l, Some (fl_consumerName l, fl_leasedAt l)))"
  by (rule ext) (simp add: table_of_def nat_digits_inject)

lemma leases_ok_shrink: "leases_ok seq q m \<Longrightarrow> m' \<subseteq>\<^sub>m m \<Longrightarrow> leases_ok seq q m'"
  unfolding leases_ok_def by (metis map_le_def domI)

lemma map_le_delete: "m(k := None) \<subseteq>\<^sub>m m"
  by (simp add: map_le_def)

lemma holds_lease_iff:
  assumes "leases_ok seq q (fileInflight c)" and "q = fileQueue c"
  shows "holds_lease consumer (trim_space i) c \<longleftrightarrow> (\<exists>n. held_by consumer i (table c) n)"
proof
  assume "holds_lease consumer (trim_space i) c"
  then obtain l where l: "fileInflight c (trim_space i) = Some l" "fl_consumerName l = trim_space consumer"
    by (auto simp: holds_lease_def split: option.splits)
  then obtain n where "trim_space i = nat_digits n" using leases_okD [OF assms(1)] by blast
  then show "\<exists>n. held_by consumer i (table c) n"
    using l by (auto simp: held_by_def table_def table_of_def)
next
  assume "\<exists>n. held_by consumer i (table c) n"
  then show "holds_lease consumer (trim_space i) c"
    by (auto simp: held_by_def table_def table_of_def holds_lease_def split: option.splits)
qed

lemma held_lease:
  assumes "file_inv c" and "holds_lease consumer (trim_space i) c"
  obtains n l where "trim_space i = nat_digits n" and "fileInflight c (nat_digits n) = Some l"
    and "fl_consumerName l = trim_space consumer" and "held_by consumer i (table c) n"
    and "table c n = Some (fl_message l, Some (trim_space consumer, fl_leasedAt l))"
proof -
  obtain l where l: "fileInflight c (trim_space i) = Some l" "fl_consumerName l = trim_space consumer"
    using assms(2) by (auto simp: holds_lease_def split: option.splits)
  have "leases_ok (fileSeq c) (fileQueue c) (fileInflight c)" using assms(1) by (simp add: file_inv_def)
  then obtain n where "trim_space i = nat_digits n"
    using leases_okD [where m = "fileInflight c", OF _ l(1)] by blast
  then show thesis using that l by (simp add: held_by_def table_def table_of_def)
qed

lemma not_held: "file_inv c \<Longrightarrow> \<not> holds_lease consumer (trim_space i) c \<Longrightarrow> \<not> held_by consumer i (table c) n"
  using holds_lease_iff by (auto simp: file_inv_def)

lemma table_maybe_sweep [simp]: "table (maybe_sweep now c) = table c"
  by (simp add: table_def)

subsection \<open>Each operation against the specification\<close>

definition file_ok :: "file_op \<Rightarrow> cache \<Rightarrow> bool" where
  "file_ok oper c \<longleftrightarrow> (\<exists>r c'. exec_file oper c = Done (r, c') \<and> file_inv c'
     \<and> fileSeq c \<le> fileSeq c' \<and> fileSeq c' \<le> fileSeq c + 1
     \<and> lease_spec oper r (table c) (fileSeq c) (table c') (fileSeq c'))"

lemma file_okI:
  "exec_file oper c = Done (r, c') \<Longrightarrow> file_inv c' \<Longrightarrow> fileSeq c \<le> fileSeq c' \<Longrightarrow>
   fileSeq c' \<le> fileSeq c + 1 \<Longrightarrow> lease_spec oper r (table c) (fileSeq c) (table c') (fileSeq c') \<Longrightarrow>
   file_ok oper c"
  unfolding file_ok_def by blast

lemma enqueue_ok:
  assumes inv: "file_inv c" and seq: "fileSeq c < 2 ^ 63 - 1"
  shows "file_ok (Enqueue now ctx u f r e) c"
proof (cases "trim_space f = [] \<or> ctx \<noteq> None \<or> max_file_queue_length \<le> int (length (fileQueue c))")
  case True
  then have "exec_file (Enqueue now ctx u f r e) c = Done (if trim_space f = [] then (ROk, c)
      else case ctx of Some e \<Rightarrow> (RErr (Ctx e), c)
           | None \<Rightarrow> (RErr (Repo ErrFileProcessingQueueFull), maybe_sweep now c))"
    by (cases ctx) (auto simp: enqueue_file_processing_def)
  then show ?thesis using inv True
    by (cases ctx) (simp_all add: file_ok_def refused_def file_inv_maybe_sweep split: if_splits)
next
  case False
  let ?s = "fileSeq c + 1"
  have s: "0 \<le> fileSeq c" "wrap64 ?s = ?s" "itoa ?s = nat_digits (nat ?s)"
    using inv seq itoa_next [of "fileSeq c"] by (auto simp: file_inv_def)
  let ?m = "fst (new_job ?s u f r e)"
  let ?c = "c\<lparr>fileSeq := ?s, fileQueue := fileQueue c @ [?m]\<rparr>"
  have m: "fm_ID ?m = nat_digits (nat ?s)" by (simp add: new_job_def)
  note parts = inv [unfolded file_inv_def]
  have chan: "chan_inv ?c" using parts by simp
  obtain c' where c': "notify_file_queue ?c = Done c'" "chan_inv c'" "fileSeq c' = ?s"
      "fileQueue c' = fileQueue c @ [?m]" "fileInflight c' = fileInflight c" "fileDLQ c' = fileDLQ c"
    using notify_file_queue_Done [OF chan] by auto
  have ex: "exec_file (Enqueue now ctx u f r e) c = Done (ROk, maybe_sweep now c')"
    using False s c'(1) by (simp add: enqueue_file_processing_def Let_def new_job_def)
  have "file_inv c'"
    using parts c'(2-6) queue_ok_snoc [OF _ s(1) m] leases_ok_snoc [OF _ _ s(1) m map_le_refl] s(1)
    by (simp add: file_inv_def)
  moreover have "table c' = (table c)(nat ?s \<mapsto> new_job ?s u f r e)" "table c (nat ?s) = None"
    using table_snoc [OF _ _ s(1) m] parts c'(4,5) by (simp_all add: table_def) (simp add: new_job_def)
  ultimately show ?thesis
    using False c'(3) s(1) by (intro file_okI [OF ex]) (auto simp: file_inv_maybe_sweep)
qed

lemma leases_ok_dequeue:
  assumes "queue_ok seq (msg # q)" and "leases_ok seq (msg # q) m" and "fl_message l = msg"
  shows "leases_ok seq q (m(fm_ID msg \<mapsto> l))"
  using assms queue_ok_hd [OF assms(1)] by (auto simp: leases_ok_def)

lemma dequeue_ok:
  assumes inv: "file_inv c"
  shows "file_ok (Dequeue now consumer) c"
proof (cases "fileQueue c")
  case Nil
  have "table c n \<noteq> Some (m, None)" for n m
    using Nil by (auto simp: table_def table_of_def split: option.splits)
  moreover have "exec_file (Dequeue now consumer) c = Done (RWait (fileNotify c), c)"
    using Nil by (simp add: read_file_processing_section_def)
  ultimately show ?thesis using inv by (simp add: file_ok_def)
next
  case (Cons msg q)
  note parts = inv [unfolded file_inv_def Cons]
  obtain n where n: "fm_ID msg = nat_digits n" using queue_ok_hd(2) parts by blast
  let ?l = "\<lparr>fl_consumerName = trim_space consumer, fl_leasedAt = now, fl_message = msg\<rparr>"
  let ?c = "c\<lparr>fileQueue := q, fileInflight := (fileInflight c)(fm_ID msg \<mapsto> ?l)\<rparr>"
  have ex: "exec_file (Dequeue now consumer) c = Done (RMsgs [msg], ?c)"
    using Cons by (simp add: read_file_processing_section_def)
  have "file_inv ?c"
    using parts queue_ok_tl leases_ok_dequeue [where l = ?l and q = q and msg = msg]
    by (auto simp: file_inv_def simp del: fun_upd_apply)
  moreover have "table ?c = (table c)(n \<mapsto> (msg, Some (trim_space consumer, now)))"
    using table_dequeue [of "fileSeq c" msg q n ?l "fileInflight c"] parts n Cons
    by (simp add: table_def del: fun_upd_apply)
  moreover have "table c n = Some (msg, None)"
    using parts n Cons
    by (cases "fileInflight c (nat_digits n)") (force simp: table_def table_of_def leases_ok_def)+
  moreover have "n \<le> n'" if "table c n' = Some (m', None)" for n' m'
  proof -
    have "queue_ok (fileSeq c) (msg # q)" using parts by blast
    then obtain ns where ns: "map fm_ID (msg # q) = map nat_digits ns" "sorted_wrt (<) ns"
      unfolding queue_ok_def by blast
    have "m' \<in> set (msg # q) \<and> fm_ID m' = nat_digits n'"
      using that find_in [of "\<lambda>x. fm_ID x = nat_digits n'" "msg # q" m'] Cons
      by (auto simp: table_def table_of_def split: option.splits)
    then have "nat_digits n' \<in> set (map nat_digits ns)" using ns(1) by (metis image_eqI list.set_map)
    moreover have "n = hd ns" "ns \<noteq> []" using ns(1) n by (auto simp: Cons_eq_map_conv nat_digits_inject)
    ultimately show ?thesis using ns(2) by (cases ns) (auto simp: nat_digits_inject)
  qed
  ultimately show ?thesis by (intro file_okI [OF ex]) auto
qed

lemma renew_ok:
  assumes inv: "file_inv c"
  shows "file_ok (Renew now ctx consumer i) c"
proof (cases "ctx = None \<and> holds_lease consumer (trim_space i) c")
  case False
  then show ?thesis using inv not_held [OF inv, of consumer i]
    by (cases ctx) (simp_all add: file_ok_def renew_file_processing_message_lease_def refused_def)
next
  case True
  then obtain n l where nl: "trim_space i = nat_digits n" "fileInflight c (nat_digits n) = Some l"
      "fl_consumerName l = trim_space consumer" "held_by consumer i (table c) n"
      "table c n = Some (fl_message l, Some (trim_space consumer, fl_leasedAt l))"
    using held_lease [OF inv, of consumer i] by metis
  let ?c = "c\<lparr>fileInflight := (fileInflight c)(nat_digits n \<mapsto> l\<lparr>fl_leasedAt := now\<rparr>)\<rparr>"
  have ex: "exec_file (Renew now ctx consumer i) c = Done (RBool True, ?c)"
    using True nl by (simp add: renew_file_processing_message_lease_def Let_def)
  have "file_inv ?c" using inv nl(2) by (auto simp: file_inv_def leases_ok_def)
  moreover have "table ?c = (table c)(n \<mapsto> (fl_message l, Some (trim_space consumer, now)))"
    using nl(3) by (simp add: table_def table_lease del: fun_upd_apply)
  ultimately show ?thesis using True nl(4,5) by (intro file_okI [OF ex]) auto
qed

lemma settle_ok:
  assumes inv: "file_inv c"
  shows "file_ok (Settle now ctx consumer i) c"
proof (cases "ctx = None \<and> holds_lease consumer (trim_space i) c")
  case False
  then show ?thesis using inv not_held [OF inv, of consumer i]
    by (cases ctx) (simp_all add: file_ok_def settle_file_processing_message_def refused_def)
next
  case True
  then obtain n l where nl: "trim_space i = nat_digits n" "fileInflight c (nat_digits n) = Some l"
      "held_by consumer i (table c) n"
    using held_lease [OF inv, of consumer i] by metis
  let ?c = "c\<lparr>fileInflight := (fileInflight c)(nat_digits n := None)\<rparr>"
  have ex: "exec_file (Settle now ctx consumer i) c = Done (RBool True, maybe_sweep now ?c)"
    using True nl(1) by (simp add: settle_file_processing_message_def Let_def)
  have "file_inv ?c" using inv leases_ok_shrink [OF _ map_le_delete] by (simp add: file_inv_def)
  moreover have "table ?c = (table c)(n := None)"
    using table_unlease_inv [OF inv nl(2)] by (simp add: table_def)
  ultimately show ?thesis
    using True nl(3) by (intro file_okI [OF ex]) (auto simp: file_inv_maybe_sweep)
qed

lemma queue_ok_later: "queue_ok seq q \<Longrightarrow> queue_ok (seq + 1) q"
  by (fastforce simp: queue_ok_def)

lemma leases_ok_later: "leases_ok seq q m \<Longrightarrow> leases_ok (seq + 1) q m"
  unfolding leases_ok_def by (metis add.commute zle_add1_eq_le zless_add1_eq order_le_less)

lemma dead_letter_ok:
  assumes inv: "file_inv c" and seq: "fileSeq c < 2 ^ 63 - 1"
  shows "file_ok (DeadLetter now ctx consumer msg e) c"
proof (cases "ctx = None \<and> holds_lease consumer (trim_space (fm_ID msg)) c")
  case False
  then show ?thesis using inv not_held [OF inv, of consumer "fm_ID msg"]
    by (cases ctx) (simp_all add: file_ok_def dead_letter_file_processing_message_def refused_def)
next
  case True
  then obtain n l where nl: "trim_space (fm_ID msg) = nat_digits n" "fileInflight c (nat_digits n) = Some l"
      "held_by consumer (fm_ID msg) (table c) n"
    using held_lease [OF inv, of consumer "fm_ID msg"] by metis
  have s: "wrap64 (fileSeq c + 1) = fileSeq c + 1"
    using inv seq itoa_next by (simp add: file_inv_def)
  define d where "d = keep_last 10000 (fileDLQ c @ [\<lparr>fm_ID = ''dlq-'' @ itoa (fileSeq c + 1),
     fm_UserID = fm_UserID msg, fm_FileID = trim_space (fm_FileID msg), fm_Retry = fm_Retry msg,
     fm_LastError = trim_space e, fm_Reclaimed = False\<rparr>])"
  let ?c = "c\<lparr>fileSeq := fileSeq c + 1, fileDLQ := d, fileInflight := (fileInflight c)(nat_digits n := None)\<rparr>"
  have ex: "exec_file (DeadLetter now ctx consumer msg e) c = Done (RBool True, maybe_sweep now ?c)"
    using True nl(1) s by (simp add: dead_letter_file_processing_message_def Let_def d_def)
  have "length d \<le> 10000" by (simp add: d_def)
  then have "file_inv ?c"
    using inv leases_ok_shrink [OF leases_ok_later map_le_delete] queue_ok_later
    by (simp add: file_inv_def)
  moreover have "table ?c = (table c)(n := None)"
    using table_unlease_inv [OF inv nl(2)] by (simp add: table_def)
  ultimately show ?thesis
    using True nl(3) by (intro file_okI [OF ex]) (auto simp: file_inv_maybe_sweep)
qed

lemma requeue_ok:
  assumes inv: "file_inv c" and seq: "fileSeq c < 2 ^ 63 - 1"
  shows "file_ok (Requeue now ctx consumer msg r e) c"
proof (cases "ctx = None \<and> holds_lease consumer (trim_space (fm_ID msg)) c")
  case False
  then show ?thesis using inv not_held [OF inv, of consumer "fm_ID msg"]
    by (cases ctx) (simp_all add: file_ok_def requeue_file_processing_message_def refused_def)
next
  case True
  then obtain n l where nl: "trim_space (fm_ID msg) = nat_digits n" "fileInflight c (nat_digits n) = Some l"
      "held_by consumer (fm_ID msg) (table c) n"
    using held_lease [OF inv, of consumer "fm_ID msg"] by metis
  let ?s = "fileSeq c + 1" and ?i = "(fileInflight c)(nat_digits n := None)"
  have s: "0 \<le> fileSeq c" "wrap64 ?s = ?s" "itoa ?s = nat_digits (nat ?s)"
    using inv seq itoa_next [of "fileSeq c"] by (auto simp: file_inv_def)
  let ?m = "fst (new_job ?s (fm_UserID msg) (fm_FileID msg) r e)"
  let ?c = "c\<lparr>fileSeq := ?s, fileQueue := fileQueue c @ [?m], fileInflight := ?i\<rparr>"
  have m: "fm_ID ?m = nat_digits (nat ?s)" by (simp add: new_job_def)
  note parts = inv [unfolded file_inv_def]
  have chan: "chan_inv ?c" using parts by simp
  obtain c' where c': "notify_file_queue ?c = Done c'" "chan_inv c'" "fileSeq c' = ?s"
      "fileQueue c' = fileQueue c @ [?m]" "fileInflight c' = ?i" "fileDLQ c' = fileDLQ c"
    using notify_file_queue_Done [OF chan] by auto
  have ex: "exec_file (Requeue now ctx consumer msg r e) c = Done (RBool True, maybe_sweep now c')"
    using True nl(1) s c'(1) by (simp add: requeue_file_processing_message_def Let_def new_job_def)
  have leases: "leases_ok (fileSeq c) (fileQueue c) ?i"
    using parts leases_ok_shrink [OF _ map_le_delete] by blast
  have "file_inv c'"
    using parts c'(2-6) queue_ok_snoc [OF _ s(1) m] leases_ok_snoc [OF leases _ s(1) m map_le_refl] s(1)
    by (simp add: file_inv_def)
  moreover have "table c' = ((table c)(n := None))(nat ?s \<mapsto> new_job ?s (fm_UserID msg) (fm_FileID msg) r e)"
    using table_snoc(1) [OF _ leases s(1) m] table_unlease_inv [OF inv nl(2)] parts
    by (simp add: table_def [of c'] c'(4,5) del: fun_upd_apply) (simp add: new_job_def)
  moreover have "table c (nat ?s) = None"
    using table_snoc(2) [OF _ _ s(1) m] parts by (simp add: table_def)
  ultimately show ?thesis
    using True c'(3) nl(3) by (intro file_okI [OF ex]) (auto simp: file_inv_maybe_sweep)
qed

definition timed_out :: "gotime \<Rightarrow> file_lease \<Rightarrow> bool" where
  "timed_out now l \<longleftrightarrow> \<not> time_sub now (fl_leasedAt l) < file_processing_min_idle"

lemma timed_out_iff: "timed_out now l \<longleftrightarrow> 45 * second \<le> now - fl_leasedAt l"
  by (auto simp: timed_out_def time_sub_def file_processing_min_idle_def second_def)

lemma overdue_iff:
  "overdue now (table c) n t
     \<longleftrightarrow> (\<exists>x. fileInflight c (nat_digits n) = Some x \<and> fl_leasedAt x = t \<and> timed_out now x)"
  by (auto simp: overdue_def table_def table_of_def timed_out_iff split: option.splits)

lemma claim_loop_spec:
  assumes "m [] = None" and "i \<noteq> [] \<Longrightarrow> m i = Some l \<and> timed_out now l"
    and "claim_loop now m order i l = (i', l')"
  shows "(i' = [] \<longrightarrow> i = [] \<and> (\<forall>k \<in> set order. \<forall>x. m k = Some x \<longrightarrow> \<not> timed_out now x))
    \<and> (i' \<noteq> [] \<longrightarrow> m i' = Some l' \<and> timed_out now l'
         \<and> (i \<noteq> [] \<longrightarrow> fl_leasedAt l' \<le> fl_leasedAt l)
         \<and> (\<forall>k \<in> set order. \<forall>x. m k = Some x \<longrightarrow> timed_out now x \<longrightarrow> fl_leasedAt l' \<le> fl_leasedAt x))"
  using assms(2,3)
proof (induction order arbitrary: i l)
  case Nil
  then show ?case by auto
next
  case (Cons k order)
  show ?case
  proof (cases "m k")
    case None
    then show ?thesis using Cons.IH [of i l] Cons.prems by simp
  next
    case (Some x)
    have k: "k \<noteq> []" using Some assms(1) by auto
    show ?thesis
    proof (cases "timed_out now x \<and> (i = [] \<or> fl_leasedAt x < fl_leasedAt l)")
      case True
      then have step: "claim_loop now m order k x = (i', l')"
        using Cons.prems(2) Some by (auto simp: timed_out_def split: if_splits)
      show ?thesis using Cons.IH [OF _ step] True Some k by (auto intro: order_trans)
    next
      case False
      then have step: "claim_loop now m order i l = (i', l')"
        using Cons.prems(2) Some by (auto simp: timed_out_def split: if_splits)
      show ?thesis using Cons.IH [OF Cons.prems(1) step] False Some by force
    qed
  qed
qed

lemma claim_ok:
  assumes inv: "file_inv c" and order: "set order = dom (fileInflight c)"
  shows "file_ok (Claim now ctx consumer order) c"
proof (cases "trim_space consumer = [] \<or> ctx \<noteq> None")
  case True
  then have "exec_file (Claim now ctx consumer order) c = Done (if trim_space consumer = [] then (RMsgs [], c)
      else case ctx of Some e \<Rightarrow> (RErr (Ctx e), c) | None \<Rightarrow> (RMsgs [], c))"
    by (cases ctx) (auto simp: claim_timed_out_file_processing_messages_def)
  then show ?thesis using inv True by (cases ctx) (simp_all add: file_ok_def refused_def split: if_splits)
next
  case False
  let ?m = "fileInflight c"
  have leases: "leases_ok (fileSeq c) (fileQueue c) ?m" using inv by (simp add: file_inv_def)
  have nokey: "?m [] = None"
    using leases_okD [OF leases, of "[]"] nat_digits_nonempty by (metis not_None_eq)
  obtain i l where loop: "claim_loop now ?m order [] zero_file_lease = (i, l)"
    by (cases "claim_loop now ?m order [] zero_file_lease")
  note spec = claim_loop_spec [OF nokey _ loop, simplified]
  show ?thesis
  proof (cases "i = []")
    case True
    then have "exec_file (Claim now ctx consumer order) c = Done (RMsgs [], c)"
      using False loop by (simp add: claim_timed_out_file_processing_messages_def Let_def)
    moreover have "\<not> overdue now (table c) n t" for n t
      using spec True order by (auto simp: overdue_iff)
    ultimately show ?thesis using inv False by (simp add: file_ok_def)
  next
    case i: False
    then have l: "?m i = Some l" "timed_out now l"
        "\<forall>k x. ?m k = Some x \<longrightarrow> timed_out now x \<longrightarrow> fl_leasedAt l \<le> fl_leasedAt x"
      using spec order by (auto simp: dom_def)
    obtain n where n: "i = nat_digits n" using leases_okD [OF leases l(1)] by blast
    let ?msg = "(fl_message l)\<lparr>fm_Reclaimed := True\<rparr>"
    let ?l = "\<lparr>fl_consumerName = trim_space consumer, fl_leasedAt = now, fl_message = ?msg\<rparr>"
    let ?c = "c\<lparr>fileInflight := ?m(i \<mapsto> ?l)\<rparr>"
    have ex: "exec_file (Claim now ctx consumer order) c = Done (RMsgs [?msg], ?c)"
      using False loop i by (simp add: claim_timed_out_file_processing_messages_def Let_def)
    have "file_inv ?c" using inv l(1) by (auto simp: file_inv_def leases_ok_def)
    moreover have "table ?c = (table c)(n \<mapsto> (?msg, Some (trim_space consumer, now)))"
      by (simp add: table_def table_lease n del: fun_upd_apply)
    moreover have "table c n = Some (fl_message l, Some (fl_consumerName l, fl_leasedAt l))"
      using l(1) n by (simp add: table_def table_of_def)
    moreover have "overdue now (table c) n (fl_leasedAt l)" using l(1,2) n by (simp add: overdue_iff)
    moreover have "\<forall>n' t'. overdue now (table c) n' t' \<longrightarrow> fl_leasedAt l \<le> t'"
      using l(3) by (auto simp: overdue_iff)
    ultimately show ?thesis using False by (intro file_okI [OF ex]) auto
  qed
qed

lemmas file_op_ok = enqueue_ok claim_ok dequeue_ok renew_ok settle_ok requeue_ok dead_letter_ok

lemma exec_file_ok:
  "file_inv c \<Longrightarrow> fileSeq c < 2 ^ 63 - 1 \<Longrightarrow> op_fits oper c \<Longrightarrow> file_ok oper c"
  by (cases oper) (simp_all add: file_op_ok)

text \<open>
  C19: The file queue implements a table of leases: every operation, on every branch, ends without
  a panic and changes the table of waiting and leased jobs exactly as the specification says. An
  accepted job gets a new number and waits; a read hands out the oldest waiting job; a claim
  takes over the lease that has been idle longest, if one has been idle for 45 seconds, whatever
  order the map is visited in; renew, settle, requeue and dead-letter act only for the holder and
  otherwise change nothing.
\<close>

theorem file_queue_refines_leases:
  assumes "file_inv c" and "fileSeq c < 2 ^ 63 - 1" and "op_fits oper c"
  shows "\<exists>r c'. exec_file oper c = Done (r, c') \<and> file_inv c'
    \<and> lease_spec oper r (table c) (fileSeq c) (table c') (fileSeq c')"
  using exec_file_ok [OF assms] unfolding file_ok_def by blast

theorem file_queue_refines_leases_witness:
  "\<exists>r c'. exec_file (Enqueue 1 None 7 ''f'' 0 []) new_cache = Done (r, c') \<and> file_inv c'
    \<and> lease_spec (Enqueue 1 None 7 ''f'' 0 []) r (table new_cache) 0 (table c') (fileSeq c')"
  using file_queue_refines_leases [OF file_inv_new_cache, of "Enqueue 1 None 7 ''f'' 0 []"]
  by (simp add: new_cache_def [THEN arg_cong, of fileSeq] del: exec_file.simps lease_spec.simps)

subsection \<open>Leases belong to one worker\<close>

text \<open>
  The contract the four operations of a lease holder share: they act exactly for the worker whose
  name is on the lease, and refusing changes nothing.
\<close>

locale leased_op =
  fixes act :: "string \<Rightarrow> string \<Rightarrow> cache \<Rightarrow> ((cache_err + bool) \<times> cache) outcome"
  assumes act_for_holder: "chan_inv c \<Longrightarrow> holds_lease consumer (trim_space i) c \<Longrightarrow>
      \<exists>c'. act consumer i c = Done (Inr True, c')"
    and act_refused: "\<not> holds_lease consumer (trim_space i) c \<Longrightarrow> act consumer i c = Done (Inr False, c)"
begin

lemma acts_iff_holder:
  "chan_inv c \<Longrightarrow> act consumer i c = Done (Inr ok, c') \<Longrightarrow> ok \<longleftrightarrow> holds_lease consumer (trim_space i) c"
  using act_for_holder act_refused by fastforce

lemma stale_worker_refused:
  assumes "fileInflight c (trim_space i) = Some l" and "fl_consumerName l \<noteq> trim_space consumer"
  shows "act consumer i c = Done (Inr False, c)"
  using assms by (intro act_refused) (simp add: holds_lease_def)

lemma one_holder:
  assumes "chan_inv c" and "act a i c = Done (Inr True, c1)" and "act b i c = Done (Inr True, c2)"
  shows "trim_space a = trim_space b"
  using acts_iff_holder [OF assms(1,2)] acts_iff_holder [OF assms(1,3)]
  by (auto simp: holds_lease_def split: option.splits)

end

interpretation lease_renew: leased_op
  "\<lambda>consumer i c. Done (renew_file_processing_message_lease now None consumer i c)" for now
  by unfold_locales (simp_all add: renew_file_processing_message_lease_def Let_def)

interpretation lease_settle: leased_op
  "\<lambda>consumer i c. Done (settle_file_processing_message now None consumer i c)" for now
  by unfold_locales (simp_all add: settle_file_processing_message_def Let_def)

interpretation lease_requeue: leased_op
  "\<lambda>consumer i c. requeue_file_processing_message now None consumer (msg\<lparr>fm_ID := i\<rparr>) r e c"
  for now msg r e
proof (unfold_locales, goal_cases)
  case (1 c consumer i)
  then have "\<exists>c'. notify_file_queue (c\<lparr>fileSeq := s, fileQueue := q, fileInflight := x\<rparr>) = Done c'" for s q x
    using notify_file_queue_Done [of "c\<lparr>fileSeq := s, fileQueue := q, fileInflight := x\<rparr>"] by auto
  then show ?case
    using 1(2) by (auto simp: requeue_file_processing_message_def Let_def bind_outcome_Done)
next
  case (2 consumer i c)
  then show ?case by (simp add: requeue_file_processing_message_def Let_def)
qed

interpretation lease_dead_letter: leased_op
  "\<lambda>consumer i c. Done (dead_letter_file_processing_message now None consumer (msg\<lparr>fm_ID := i\<rparr>) e c)"
  for now msg e
  by unfold_locales (simp_all add: dead_letter_file_processing_message_def Let_def)

lemma claim_takes_over:
  assumes "file_inv c"
    and "claim_timed_out_file_processing_messages now None consumer order c = (Inr [m], c')"
  shows "\<exists>l. fileInflight c' (trim_space (fm_ID m)) = Some l \<and> fl_consumerName l = trim_space consumer"
proof -
  obtain i l where loop: "claim_loop now (fileInflight c) order [] zero_file_lease = (i, l)"
    by (cases "claim_loop now (fileInflight c) order [] zero_file_lease")
  have leases: "leases_ok (fileSeq c) (fileQueue c) (fileInflight c)" using assms(1) by (simp add: file_inv_def)
  have nokey: "fileInflight c [] = None"
    using leases_okD [OF leases, of "[]"] nat_digits_nonempty by (metis not_None_eq)
  have i: "i \<noteq> []" and m: "m = (fl_message l)\<lparr>fm_Reclaimed := True\<rparr>"
    and c': "c' = c\<lparr>fileInflight := (fileInflight c)(i \<mapsto>
       \<lparr>fl_consumerName = trim_space consumer, fl_leasedAt = now, fl_message = m\<rparr>)\<rparr>"
    using assms(2) loop
    by (auto simp: claim_timed_out_file_processing_messages_def Let_def split: if_splits)
  have l: "fileInflight c i = Some l" using claim_loop_spec [OF nokey _ loop] i by simp
  have "fm_ID m = i" "trim_space i = i" using leases_okD [OF leases l] m by auto
  then show ?thesis using c' by simp
qed

text \<open>
  C22: A worker that lost its lease is powerless: once another worker claimed the message, renew,
  settle, requeue and dead-letter by the old worker all report false and leave the state as it
  was, so a message is never finished twice.
\<close>

theorem lost_lease_is_powerless:
  assumes "file_inv c" and "trim_space a \<noteq> trim_space b"
    and "claim_timed_out_file_processing_messages now None b order c = (Inr [m], c')"
  shows "renew_file_processing_message_lease t None a (fm_ID m) c' = (Inr False, c')
    \<and> settle_file_processing_message t None a (fm_ID m) c' = (Inr False, c')
    \<and> requeue_file_processing_message t None a m r e c' = Done (Inr False, c')
    \<and> dead_letter_file_processing_message t None a m e c' = (Inr False, c')"
proof -
  obtain l where l: "fileInflight c' (trim_space (fm_ID m)) = Some l" "fl_consumerName l \<noteq> trim_space a"
    using claim_takes_over [OF assms(1,3)] assms(2) by auto
  have "m\<lparr>fm_ID := fm_ID m\<rparr> = m" by simp
  then show ?thesis
    using lease_renew.stale_worker_refused [OF l, of t] lease_settle.stale_worker_refused [OF l, of t]
      lease_requeue.stale_worker_refused [OF l, of t m r e]
      lease_dead_letter.stale_worker_refused [OF l, of t m e]
    by simp
qed

definition sample_message :: file_message where
  "sample_message = \<lparr>fm_ID = ''1'', fm_UserID = 7, fm_FileID = ''f'', fm_Retry = 0, fm_LastError = [],
                     fm_Reclaimed = False\<rparr>"

definition leased_cache :: cache where
  \<comment> \<open>one message, read by worker a at instant 1\<close>
  "leased_cache = new_cache\<lparr>fileSeq := 1, fileInflight := [''1'' \<mapsto>
     \<lparr>fl_consumerName = ''a'', fl_leasedAt = 1, fl_message = sample_message\<rparr>]\<rparr>"

lemma sample_strings:
  "nat_digits 1 = ''1''" "trim_space ''1'' = ''1''" "trim_space ''a'' = ''a''" "trim_space ''b'' = ''b''"
  "trim_space ''f'' = ''f''" "nat_digits (Suc 0) = ''1''"
  by code_simp+

lemma leased_cache_inv: "file_inv leased_cache"
proof -
  have "chan_inv leased_cache" using chan_inv_new_cache by (simp add: leased_cache_def)
  moreover have "\<exists>n. ''1'' = nat_digits n \<and> 0 < n \<and> int n \<le> 1"
    using sample_strings(1) by (intro exI [of _ 1]) simp
  ultimately show ?thesis
    by (simp add: file_inv_def queue_ok_def leases_ok_def leased_cache_def sample_message_def new_cache_def)
qed

theorem lost_lease_is_powerless_witness:
  "settle_file_processing_message (61 * second) None ''a'' ''1''
     (snd (claim_timed_out_file_processing_messages (60 * second) None ''b'' [''1''] leased_cache))
   = (Inr False, snd (claim_timed_out_file_processing_messages (60 * second) None ''b'' [''1''] leased_cache))"
proof -
  let ?r = "claim_timed_out_file_processing_messages (60 * second) None ''b'' [''1''] leased_cache"
  have "?r = (Inr [sample_message\<lparr>fm_Reclaimed := True\<rparr>], snd ?r)"
    by (simp add: claim_timed_out_file_processing_messages_def leased_cache_def Let_def sample_strings
        time_sub_def file_processing_min_idle_def second_def)
  from lost_lease_is_powerless [OF leased_cache_inv _ this, of "''a''" "61 * second"]
  show ?thesis by (simp add: sample_strings sample_message_def)
qed

subsection \<open>Runs\<close>

fun run_file :: "cache \<Rightarrow> file_op list \<Rightarrow> (file_result list \<times> cache) outcome" where
  "run_file c [] = Done ([], c)"
| "run_file c (oper # os) =
     bind_outcome (exec_file oper c) (\<lambda>(r, c'). bind_outcome (run_file c' os) (\<lambda>(rs, c''). Done (r # rs, c'')))"

fun fits_run :: "cache \<Rightarrow> file_op list \<Rightarrow> bool" where
  "fits_run c [] \<longleftrightarrow> True"
| "fits_run c (oper # os) \<longleftrightarrow> op_fits oper c \<and>
     (case exec_file oper c of Panic \<Rightarrow> True | Done (r, c') \<Rightarrow> fits_run c' os)"

text \<open>What an operation with a given result does to the number of jobs.\<close>

fun job_change :: "file_op \<Rightarrow> file_result \<Rightarrow> int" where
  "job_change (Enqueue now ctx u f r e) res = (if res = ROk \<and> trim_space f \<noteq> [] then 1 else 0)"
| "job_change (Settle now ctx w i) res = (if res = RBool True then - 1 else 0)"
| "job_change (DeadLetter now ctx w msg e) res = (if res = RBool True then - 1 else 0)"
| "job_change _ res = 0"

lemma card_dom_add: "finite (dom T) \<Longrightarrow> T n = None \<Longrightarrow> int (card (dom (T(n \<mapsto> x)))) = int (card (dom T)) + 1"
  by (simp add: domIff)

lemma card_dom_same: "T n \<noteq> None \<Longrightarrow> dom (T(n \<mapsto> x)) = dom T"
  by auto

lemma card_dom_del: "finite (dom T) \<Longrightarrow> T n \<noteq> None \<Longrightarrow> int (card (dom (T(n := None)))) = int (card (dom T)) - 1"
  using card_Suc_Diff1 [of "dom T" n] by (simp add: dom_fun_upd domIff)

definition jobs_moved :: "(nat \<rightharpoonup> job) \<Rightarrow> (nat \<rightharpoonup> job) \<Rightarrow> int \<Rightarrow> bool" where
  "jobs_moved T T' d \<longleftrightarrow> finite (dom T') \<and> int (card (dom T')) = int (card (dom T)) + d"

lemma jobs_movedI:
  "finite (dom T) \<Longrightarrow> jobs_moved T T 0"
  "finite (dom T) \<Longrightarrow> T n = None \<Longrightarrow> jobs_moved T (T(n \<mapsto> x)) 1"
  "finite (dom T) \<Longrightarrow> T n = Some y \<Longrightarrow> jobs_moved T (T(n \<mapsto> x)) 0"
  "finite (dom T) \<Longrightarrow> T n = Some y \<Longrightarrow> jobs_moved T (T(n := None)) (- 1)"
  using card_dom_add [of T n x] card_dom_same [of T n x] card_dom_del [of T n]
  by (simp_all add: jobs_moved_def)

lemma lease_spec_jobs:
  assumes "lease_spec oper res T s T' s'" and "finite (dom T)"
  shows "jobs_moved T T' (job_change oper res)"
proof (cases oper)
  case (Enqueue now ctx u f r e)
  then show ?thesis using assms jobs_movedI(1,2) [OF assms(2)]
    by (cases "trim_space f = []"; cases "ctx \<noteq> None \<or> res = RErr (Repo ErrFileProcessingQueueFull)")
      (auto simp: refused_def)
next
  case (Claim now ctx w order)
  then have "T' = T \<or> (\<exists>n x y. T n = Some y \<and> T' = T(n \<mapsto> x))"
    using assms(1) by (simp split: if_splits) blast
  then show ?thesis using Claim jobs_movedI(1,3) [OF assms(2)] by (simp del: fun_upd_apply) blast
next
  case (Dequeue now w)
  then have "T' = T \<or> (\<exists>n x y. T n = Some y \<and> T' = T(n \<mapsto> x))"
    using assms(1) by simp blast
  then show ?thesis using Dequeue jobs_movedI(1,3) [OF assms(2)] by (simp del: fun_upd_apply) blast
next
  case (Renew now ctx w i)
  then have "T' = T \<or> (\<exists>n x y. T n = Some y \<and> T' = T(n \<mapsto> x))"
    using assms(1) by (simp split: if_splits) blast
  then show ?thesis using Renew jobs_movedI(1,3) [OF assms(2)] by (simp del: fun_upd_apply) blast
next
  case (Settle now ctx w i)
  then show ?thesis using assms jobs_movedI(1,4) [OF assms(2)]
    by (cases "ctx = None") (auto simp: held_by_def refused_def)
next
  case (DeadLetter now ctx w msg e)
  then show ?thesis using assms jobs_movedI(1,4) [OF assms(2)]
    by (cases "ctx = None") (auto simp: held_by_def refused_def)
next
  case (Requeue now ctx w msg r e)
  show ?thesis
  proof (cases "T' = T")
    case True
    then show ?thesis using assms Requeue by (simp add: jobs_movedI)
  next
    case False
    let ?j = "new_job s' (fm_UserID msg) (fm_FileID msg) r e"
    from False obtain n where n: "held_by w (fm_ID msg) T n" "T (nat s') = None"
        "T' = (T(n := None))(nat s' \<mapsto> ?j)"
      using assms Requeue by (auto split: if_splits)
    then obtain y where y: "T n = Some y" by (auto simp: held_by_def)
    have "jobs_moved (T(n := None)) T' 1"
      unfolding n(3) using assms(2) n(2) by (intro jobs_movedI(2)) simp_all
    then show ?thesis using jobs_movedI(4) [OF assms(2) y] Requeue by (simp add: jobs_moved_def)
  qed
qed

fun jobs_changed :: "file_op list \<Rightarrow> file_result list \<Rightarrow> int" where
  "jobs_changed (oper # os) (r # rs) = job_change oper r + jobs_changed os rs"
| "jobs_changed _ _ = 0"

lemma run_file_step:
  assumes "file_inv c" and "fileSeq c + int (length (oper # os)) < 2 ^ 63" and "fits_run c (oper # os)"
  obtains r c' where "exec_file oper c = Done (r, c')" and "file_inv c'"
    and "fileSeq c' + int (length os) < 2 ^ 63" and "fits_run c' os"
    and "lease_spec oper r (table c) (fileSeq c) (table c') (fileSeq c')"
proof -
  have "file_ok oper c" using assms by (intro exec_file_ok) simp_all
  then show thesis using that assms(2,3) unfolding file_ok_def by fastforce
qed

lemma run_file_conserves:
  assumes "file_inv c" and "fileSeq c + int (length os) < 2 ^ 63" and "fits_run c os"
    and "finite (dom (table c))"
  shows "\<exists>rs c'. run_file c os = Done (rs, c') \<and> file_inv c'
    \<and> jobs_moved (table c) (table c') (jobs_changed os rs)"
  using assms
proof (induction os arbitrary: c)
  case Nil
  then show ?case by (simp add: jobs_movedI)
next
  case (Cons oper os)
  obtain r c' where step: "exec_file oper c = Done (r, c')" "file_inv c'"
      "fileSeq c' + int (length os) < 2 ^ 63" "fits_run c' os"
      "lease_spec oper r (table c) (fileSeq c) (table c') (fileSeq c')"
    using run_file_step [OF Cons.prems(1-3)] by blast
  note moved = lease_spec_jobs [OF step(5) Cons.prems(4)]
  then obtain rs c'' where "run_file c' os = Done (rs, c'')" "file_inv c''"
      "jobs_moved (table c') (table c'') (jobs_changed os rs)"
    using Cons.IH [OF step(2-4)] by (auto simp: jobs_moved_def)
  then show ?case using step(1) moved by (simp add: jobs_moved_def)
qed

lemma table_new_cache: "table new_cache = Map.empty"
  by (rule ext) (simp add: table_def table_of_def new_cache_def)

text \<open>
  C20: No message is lost and none is doubled: any sequence of operations from an empty cache runs
  without a panic, and the number of messages waiting or leased at its end is the number accepted
  minus those settled and those dead-lettered. Reads, claims, renewals and requeues neither add
  nor drop one.
\<close>

theorem file_queue_conserves_messages:
  assumes "int (length os) < 2 ^ 63" and "fits_run new_cache os"
  shows "\<exists>rs c. run_file new_cache os = Done (rs, c) \<and> file_inv c
    \<and> int (card (dom (table c))) = jobs_changed os rs"
proof -
  have "fileSeq new_cache + int (length os) < 2 ^ 63" using assms(1) by (simp add: new_cache_def)
  from run_file_conserves [OF file_inv_new_cache this assms(2)]
  show ?thesis by (auto simp: jobs_moved_def table_new_cache)
qed

theorem file_queue_conserves_messages_witness:
  "\<exists>rs c. run_file new_cache [Enqueue 1 None 7 ''f'' 0 [], Dequeue 2 ''a''] = Done (rs, c) \<and> file_inv c
    \<and> int (card (dom (table c))) = jobs_changed [Enqueue 1 None 7 ''f'' 0 [], Dequeue 2 ''a''] rs"
  by (rule file_queue_conserves_messages) (simp_all split: outcome.split prod.split)

text \<open>A lease that is fresh at the instant of every claim is nobody else's.\<close>

fun touches :: "string \<Rightarrow> gotime \<Rightarrow> file_op \<Rightarrow> bool" where
  "touches a limit (Claim now ctx w order) \<longleftrightarrow> limit \<le> now"
| "touches a limit (Renew now ctx w i) \<longleftrightarrow> trim_space w = trim_space a"
| "touches a limit (Settle now ctx w i) \<longleftrightarrow> trim_space w = trim_space a"
| "touches a limit (Requeue now ctx w msg r e) \<longleftrightarrow> trim_space w = trim_space a"
| "touches a limit (DeadLetter now ctx w msg e) \<longleftrightarrow> trim_space w = trim_space a"
| "touches a limit _ \<longleftrightarrow> False"

lemma lease_spec_keeps:
  assumes "lease_spec oper res T s T' s'" and "T n = Some (m, Some (trim_space a, t))"
    and "\<not> touches a (t + 45 * second) oper"
  shows "T' n = Some (m, Some (trim_space a, t))"
proof (cases oper)
  case (Enqueue now ctx u f r e)
  then show ?thesis using assms by (auto split: if_splits)
next
  case (Claim now ctx w order)
  then show ?thesis using assms by (auto simp: overdue_def split: if_splits)
next
  case (Dequeue now w)
  then show ?thesis using assms by auto
next
  case (Renew now ctx w i)
  then show ?thesis using assms by (auto simp: held_by_def split: if_splits)
next
  case (Settle now ctx w i)
  then show ?thesis using assms by (auto simp: held_by_def split: if_splits)
next
  case (Requeue now ctx w msg r e)
  then show ?thesis using assms by (auto simp: held_by_def split: if_splits)
next
  case (DeadLetter now ctx w msg e)
  then show ?thesis using assms by (auto simp: held_by_def split: if_splits)
qed

lemma run_file_keeps_lease:
  assumes "file_inv c" and "fileSeq c + int (length os) < 2 ^ 63" and "fits_run c os"
    and "table c n = Some (m, Some (trim_space a, t))"
    and "\<forall>oper \<in> set os. \<not> touches a (t + 45 * second) oper"
    and "run_file c os = Done (rs, c')"
  shows "file_inv c' \<and> table c' n = Some (m, Some (trim_space a, t))"
  using assms
proof (induction os arbitrary: c rs)
  case Nil
  then show ?case by simp
next
  case (Cons oper os)
  obtain r c1 where step: "exec_file oper c = Done (r, c1)" "file_inv c1"
      "fileSeq c1 + int (length os) < 2 ^ 63" "fits_run c1 os"
      "lease_spec oper r (table c) (fileSeq c) (table c1) (fileSeq c1)"
    using run_file_step [OF Cons.prems(1-3)] by blast
  have kept: "table c1 n = Some (m, Some (trim_space a, t))"
    using lease_spec_keeps [OF step(5) Cons.prems(4)] Cons.prems(5) by simp
  obtain rs' where "run_file c1 os = Done (rs', c')"
    using Cons.prems(6) step(1) by (auto simp: bind_outcome_Done)
  then show ?case using Cons.IH [OF step(2-4) kept _] Cons.prems(5) by simp
qed

lemma table_holder:
  assumes "file_inv c" and "table c n = Some (m, Some (w, t))"
  shows "fileInflight c (nat_digits n) = Some \<lparr>fl_consumerName = w, fl_leasedAt = t, fl_message = m\<rparr>
    \<and> fm_ID m = nat_digits n"
proof -
  obtain l where l: "fileInflight c (nat_digits n) = Some l" "fl_message l = m" "fl_consumerName l = w"
      "fl_leasedAt l = t"
    using assms(2) by (auto simp: table_def table_of_def split: option.splits)
  have "leases_ok (fileSeq c) (fileQueue c) (fileInflight c)" using assms(1) by (simp add: file_inv_def)
  from leases_okD [OF this l(1)] show ?thesis using l by auto
qed

text \<open>
  A lease is exclusive while it is fresh: whatever other workers do, as long as no claim comes
  45 seconds or more after the holder's last renewal, the holder still has the message and can
  settle it.
\<close>

theorem fresh_lease_is_exclusive:
  assumes "file_inv c" and "fileSeq c + int (length os) < 2 ^ 63" and "fits_run c os"
    and "table c n = Some (m, Some (trim_space a, t))"
    and "\<forall>oper \<in> set os. \<not> touches a (t + 45 * second) oper"
    and "run_file c os = Done (rs, c')"
  shows "fst (settle_file_processing_message now None a (fm_ID m) c') = Inr True"
proof -
  have "fileInflight c' (trim_space (fm_ID m)) = Some \<lparr>fl_consumerName = trim_space a, fl_leasedAt = t, fl_message = m\<rparr>"
    using run_file_keeps_lease [OF assms] table_holder by (metis trim_nat_digits)
  then show ?thesis by (simp add: settle_file_processing_message_def Let_def holds_lease_def)
qed

theorem fresh_lease_is_exclusive_witness:
  "fst (settle_file_processing_message (70 * second) None ''a'' ''1'' leased_cache) = Inr True"
proof -
  have "table leased_cache 1 = Some (sample_message, Some (trim_space ''a'', 1))"
    by (simp add: table_def table_of_def leased_cache_def sample_strings)
  from fresh_lease_is_exclusive [OF leased_cache_inv _ _ this, of "[Renew 5 None ''b'' ''1'', Settle 6 None ''b'' ''1'']"
      "[RBool False, RBool False]" leased_cache "70 * second"]
  show ?thesis
    by (simp add: sample_strings sample_message_def renew_file_processing_message_lease_def
        settle_file_processing_message_def holds_lease_def leased_cache_def new_cache_def)
qed

subsection \<open>Readers that wait\<close>

text \<open>
  \<open>ReadFileProcessingMessages\<close> is a loop around the critical section: it looks at \<open>ctx\<close>, locks,
  takes a message or remembers the channel of that moment, and then waits for the first of: its
  context done, its five-second timer, its channel closed. A reader is in one of these places.
\<close>

datatype reader =
    Idle
  | Looping string        \<comment> \<open>consumer name; before the critical section\<close>
  | Waiting string nat    \<comment> \<open>in \<open>select\<close>, with the channel it waits on\<close>
  | Returned "cache_err + file_message list"

inductive reader_step :: "cache \<Rightarrow> reader \<Rightarrow> cache \<Rightarrow> reader \<Rightarrow> bool" where
  call_blank: "trim_space w = [] \<Longrightarrow> reader_step c Idle c (Returned (Inr []))"
| call: "trim_space w \<noteq> [] \<Longrightarrow> reader_step c Idle c (Looping w)"
| loop_done: "reader_step c (Looping w) c (Returned (Inl (Ctx e)))"
| take_one: "read_file_processing_section now w c = (Inr m, c') \<Longrightarrow>
     reader_step c (Looping w) c' (Returned (Inr [m]))"
| wait: "read_file_processing_section now w c = (Inl ch, c') \<Longrightarrow>
     reader_step c (Looping w) c' (Waiting w ch)"
| select_done: "reader_step c (Waiting w ch) c (Returned (Inl (Ctx e)))"
| select_timer: "reader_step c (Waiting w ch) c (Returned (Inr []))"
| select_notify: "chanClosed c ch \<Longrightarrow> reader_step c (Waiting w ch) c (Looping w)"

inductive_cases reader_step_Idle: "reader_step c Idle c' r'"
inductive_cases reader_step_Looping: "reader_step c (Looping w) c' r'"
inductive_cases reader_step_Waiting: "reader_step c (Waiting w ch) c' r'"
inductive_cases reader_step_Returned: "reader_step c (Returned x) c' r'"

text \<open>Reachable states of the cache with any number of readers and other callers, after \<open>n\<close> steps.\<close>

inductive file_reach :: "nat \<Rightarrow> cache \<Rightarrow> (nat \<Rightarrow> reader) \<Rightarrow> bool" where
  start: "file_reach 0 new_cache (\<lambda>_. Idle)"
| caller: "file_reach n c R \<Longrightarrow> op_fits oper c \<Longrightarrow> exec_file oper c = Done (r, c') \<Longrightarrow>
     file_reach (Suc n) c' R"
| reader: "file_reach n c R \<Longrightarrow> reader_step c (R i) c' r' \<Longrightarrow> file_reach (Suc n) c' (R(i := r'))"

definition waits_soundly :: "cache \<Rightarrow> reader \<Rightarrow> bool" where
  "waits_soundly c r \<longleftrightarrow> (\<forall>w ch. r = Waiting w ch \<longrightarrow>
     ch < chanNext c \<and> (chanClosed c ch \<or> (ch = fileNotify c \<and> fileQueue c = [])))"

text \<open>An operation either leaves an empty queue empty with its channel, or closes that channel.\<close>

definition wakes :: "cache \<Rightarrow> cache \<Rightarrow> bool" where
  "wakes c c' \<longleftrightarrow> chanNext c \<le> chanNext c' \<and> (\<forall>n. chanClosed c n \<longrightarrow> chanClosed c' n)
     \<and> (fileQueue c = [] \<longrightarrow>
          chanClosed c' (fileNotify c) \<or> (fileNotify c' = fileNotify c \<and> fileQueue c' = []))"

lemma waits_soundly_step: "waits_soundly c r \<Longrightarrow> wakes c c' \<Longrightarrow> waits_soundly c' r"
  unfolding waits_soundly_def wakes_def by (metis order_less_le_trans)

lemma wakes_refl: "wakes c c"
  by (simp add: wakes_def)

lemma wakes_notify:
  assumes "notify_file_queue (c\<lparr>fileSeq := s, fileQueue := q, fileInflight := i\<rparr>) = Done c1"
  shows "wakes c (maybe_sweep now c1)"
  using assms
  by (auto simp: notify_file_queue_def close_chan_def make_chan_def wakes_def Let_def split: if_splits)

lemma wakes_notify_seq:
  assumes "notify_file_queue (c\<lparr>fileSeq := s, fileQueue := q\<rparr>) = Done c1"
  shows "wakes c (maybe_sweep now c1)"
  using assms
  by (auto simp: notify_file_queue_def close_chan_def make_chan_def wakes_def Let_def split: if_splits)

lemma exec_file_wakes:
  assumes "exec_file oper c = Done (r, c')"
  shows "wakes c c'"
proof (cases oper)
  case (Enqueue now ctx u f rt e)
  then show ?thesis
    using assms wakes_notify_seq
    by (auto simp: enqueue_file_processing_def bind_outcome_Done Let_def wakes_refl
        split: if_splits option.splits) (simp_all add: wakes_def)
next
  case (Requeue now ctx w msg rt e)
  then show ?thesis
    using assms wakes_notify
    by (auto simp: requeue_file_processing_message_def bind_outcome_Done Let_def wakes_refl
        split: if_splits option.splits)
next
  case (Claim now ctx w order)
  then show ?thesis using assms
    by (auto simp: claim_timed_out_file_processing_messages_def Let_def wakes_def
        split: if_splits option.splits prod.splits)
next
  case (Dequeue now w)
  then show ?thesis using assms
    by (auto simp: read_file_processing_section_def wakes_def split: list.splits)
next
  case (Renew now ctx w i)
  then show ?thesis using assms
    by (auto simp: renew_file_processing_message_lease_def Let_def wakes_def split: if_splits option.splits)
next
  case (Settle now ctx w i)
  then show ?thesis using assms
    by (auto simp: settle_file_processing_message_def Let_def wakes_def split: if_splits option.splits)
next
  case (DeadLetter now ctx w msg e)
  then show ?thesis using assms
    by (auto simp: dead_letter_file_processing_message_def Let_def wakes_def split: if_splits option.splits)
qed

lemma reader_step_section:
  assumes "reader_step c r c' r'" and "file_inv c"
  shows "wakes c c' \<and> file_inv c' \<and> fileSeq c' = fileSeq c \<and> (waits_soundly c r \<longrightarrow> waits_soundly c' r')"
  using assms
proof (cases rule: reader_step.cases)
  case (take_one now w m)
  have ex: "exec_file (Dequeue now w) c = Done (RMsgs [m], c')" using take_one by simp
  have "file_inv c' \<and> fileSeq c' = fileSeq c"
    using dequeue_ok [OF assms(2), of now w] ex unfolding file_ok_def by auto
  then show ?thesis using exec_file_wakes [OF ex] take_one(2) by (simp add: waits_soundly_def)
next
  case (wait now w ch)
  then have "fileQueue c = []" "ch = fileNotify c" "c' = c"
    by (auto simp: read_file_processing_section_def split: list.splits)
  moreover have "fileNotify c < chanNext c"
    using assms(2) by (auto simp: file_inv_def chan_inv_def dest!: spec [of _ FileChan])
  ultimately show ?thesis using wait assms(2) by (simp add: waits_soundly_def wakes_refl)
qed (auto simp: waits_soundly_def wakes_refl)

lemma file_reach_inv:
  "file_reach n c R \<Longrightarrow> int n < 2 ^ 63 \<Longrightarrow>
   file_inv c \<and> fileSeq c \<le> int n \<and> (\<forall>i. waits_soundly c (R i))"
proof (induction rule: file_reach.induct)
  case start
  then show ?case using file_inv_new_cache by (simp add: waits_soundly_def) (simp add: new_cache_def)
next
  case (caller n c R oper r c')
  then have IH: "file_inv c" "fileSeq c \<le> int n" "\<forall>i. waits_soundly c (R i)" by simp_all
  have "file_ok oper c" using IH caller by (intro exec_file_ok) simp_all
  then show ?case
    using caller.hyps(3) IH exec_file_wakes waits_soundly_step unfolding file_ok_def by fastforce
next
  case (reader n c R i c' r')
  then have IH: "file_inv c" "fileSeq c \<le> int n" "\<forall>i. waits_soundly c (R i)" by simp_all
  then show ?case
    using reader_step_section [OF reader.hyps(2) IH(1)] waits_soundly_step by fastforce
qed

text \<open>
  C21: No wake-up is lost: in every reachable interleaving of readers and callers, a reader that is
  waiting while a message is in the queue waits on a channel that is already closed, so it can
  take its next turn at once and does not sleep until its timer.
\<close>

theorem no_lost_wakeup:
  assumes "file_reach n c R" and "int n < 2 ^ 63" and "R i = Waiting w ch" and "fileQueue c \<noteq> []"
  shows "reader_step c (R i) c (Looping w)
    \<and> (\<exists>m. \<forall>now. fst (read_file_processing_section now w c) = Inr m)"
proof -
  have "waits_soundly c (R i)" using file_reach_inv [OF assms(1,2)] by blast
  then have "chanClosed c ch" using assms(3,4) by (simp add: waits_soundly_def)
  moreover have "fst (read_file_processing_section now w c) = Inr (hd (fileQueue c))" for now
    using assms(4) by (simp add: read_file_processing_section_def split: list.split)
  ultimately show ?thesis using assms(3) by (auto intro: reader_step.intros)
qed

theorem no_lost_wakeup_witness:
  "\<exists>c R. file_reach 3 c R \<and> fileQueue c \<noteq> [] \<and> reader_step c (R 0) c (Looping ''a'')"
proof -
  let ?w = "Waiting ''a'' 0" and ?op = "Enqueue 1 None 7 ''f'' 0 []"
  have 1: "file_reach 1 new_cache ((\<lambda>_. Idle)(0 := Looping ''a''))"
    using file_reach.reader [OF file_reach.start, where i = 0] call [of "''a''" new_cache]
    by (simp add: sample_strings)
  have "reader_step new_cache (Looping ''a'') new_cache ?w"
    by (rule wait [of 1]) (simp add: read_file_processing_section_def new_cache_def)
  then have 2: "file_reach 2 new_cache ((\<lambda>_. Idle)(0 := ?w))"
    using file_reach.reader [OF 1, where i = 0] by (simp add: numeral_2_eq_2)
  obtain c where c: "exec_file ?op new_cache = Done (ROk, c)" "fileQueue c \<noteq> []"
    by (simp add: enqueue_file_processing_def notify_file_queue_def close_chan_def make_chan_def
        Let_def sample_strings max_file_queue_length_def new_cache_def)
  have 3: "file_reach 3 c ((\<lambda>_. Idle)(0 := ?w))"
    using file_reach.caller [OF 2 _ c(1)] by (simp add: numeral_3_eq_3 numeral_2_eq_2)
  have "reader_step c (((\<lambda>_. Idle)(0 := ?w)) 0) c (Looping ''a'')"
    using no_lost_wakeup [OF 3 _ _ c(2), where i = 0 and w = "''a''" and ch = 0] by simp
  then show ?thesis using 3 c(2) by blast
qed

end
