(* ===== verification/GenStream.thy ===== *)
theory GenStream
  imports CacheState
begin

text \<open>
  The recoverable generation streams (\<open>generation_stream.go\<close>): a run of the model appends events
  to its stream, readers follow it by sequence number, its owner keeps it active or cancels it.
  A stream lives behind a pointer in the Go map and is changed in place; here its entry is
  replaced. Every change a reader may be waiting for closes the stream's channel.
\<close>

subsection \<open>Operations\<close>

definition fresh_stream :: "nat \<Rightarrow> generation_stream" where
  "fresh_stream n =
     \<lparr>gs_ownerID = 0, gs_conversationID = [], gs_ownerExpiresAt = 0, gs_activeExpiresAt = 0,
      gs_cancelExpiresAt = 0, gs_eventsExpiresAt = 0, gs_seq = 0, gs_events = [],
      gs_textContent = [], gs_textSeq = 0, gs_notify = n\<rparr>"

definition put_stream :: "string \<Rightarrow> generation_stream \<Rightarrow> cache \<Rightarrow> cache" where
  "put_stream runID s c = c\<lparr>streams := (streams c)(trim_space runID \<mapsto> s)\<rparr>"

definition ensure_stream :: "string \<Rightarrow> cache \<Rightarrow> generation_stream \<times> cache" where
  "ensure_stream runID c =
     (case streams c (trim_space runID) of
        Some s \<Rightarrow> (s, c)
      | None \<Rightarrow> (let (n, c') = make_chan c in (fresh_stream n, put_stream runID (fresh_stream n) c')))"

definition notify_stream :: "string \<Rightarrow> generation_stream \<Rightarrow> cache \<Rightarrow> cache outcome" where
  "notify_stream runID s c =
     bind_outcome (close_chan (gs_notify s) c)
       (\<lambda>c. let (n, c) = make_chan c in Done (put_stream runID (s\<lparr>gs_notify := n\<rparr>) c))"

definition notify_generation_streams :: "cache \<Rightarrow> cache outcome" where
  "notify_generation_streams c =
     bind_outcome (close_chan (streamNotify c) c)
       (\<lambda>c. let (n, c) = make_chan c in Done (c\<lparr>streamNotify := n\<rparr>))"

definition register_generation_stream ::
  "gotime \<Rightarrow> string \<Rightarrow> nat \<Rightarrow> string \<Rightarrow> duration \<Rightarrow> cache \<Rightarrow> cache" where
  "register_generation_stream now runID userID conv ttl c =
     (let (s, c) = ensure_stream runID c
      in maybe_sweep now (put_stream runID
           (s\<lparr>gs_ownerID := userID, gs_conversationID := trim_space conv,
              gs_ownerExpiresAt := ttl_from_now now ttl, gs_cancelExpiresAt := 0\<rparr>) c))"

definition get_generation_stream_owner :: "gotime \<Rightarrow> string \<Rightarrow> cache \<Rightarrow> nat \<times> bool" where
  "get_generation_stream_owner now runID c =
     (case streams c (trim_space runID) of
        None \<Rightarrow> (0, False)
      | Some s \<Rightarrow> if gs_ownerID s = 0 \<or> owner_expired now s then (0, False) else (gs_ownerID s, True))"

definition touch_generation_stream_active ::
  "gotime \<Rightarrow> string \<Rightarrow> nat \<Rightarrow> duration \<Rightarrow> cache \<Rightarrow> cache" where
  "touch_generation_stream_active now runID userID ttl c =
     (let (s, c) = ensure_stream runID c
      in if gs_ownerID s \<noteq> userID then c
         else maybe_sweep now (put_stream runID (s\<lparr>gs_activeExpiresAt := ttl_from_now now ttl\<rparr>) c))"

definition clear_generation_stream_active :: "string \<Rightarrow> nat \<Rightarrow> cache \<Rightarrow> cache" where
  "clear_generation_stream_active runID userID c =
     (case streams c (trim_space runID) of
        None \<Rightarrow> c
      | Some s \<Rightarrow> if gs_ownerID s = userID then put_stream runID (s\<lparr>gs_activeExpiresAt := 0\<rparr>) c else c)"

text \<open>The order in which Go visits the map of streams is \<open>order\<close>.\<close>

definition list_active_generation_streams ::
  "gotime \<Rightarrow> nat \<Rightarrow> string list \<Rightarrow> cache \<Rightarrow> (string \<times> string) list \<times> cache" where
  "list_active_generation_streams now userID order c =
     (let c' = maybe_sweep now c
      in (concat (map (\<lambda>runID. case streams c' runID of
            None \<Rightarrow> []
          | Some s \<Rightarrow>
              if gs_ownerID s \<noteq> userID \<or> active_expired now s \<or> trim_space (gs_conversationID s) = []
              then [] else [(runID, gs_conversationID s)]) order), c'))"

definition is_generation_stream_active :: "gotime \<Rightarrow> string \<Rightarrow> cache \<Rightarrow> bool" where
  "is_generation_stream_active now runID c =
     (case streams c (trim_space runID) of None \<Rightarrow> False | Some s \<Rightarrow> \<not> active_expired now s)"

definition request_generation_stream_cancel ::
  "gotime \<Rightarrow> string \<Rightarrow> duration \<Rightarrow> cache \<Rightarrow> cache outcome" where
  "request_generation_stream_cancel now runID ttl c =
     (let (s, c) = ensure_stream runID c
      in bind_outcome (notify_stream runID (s\<lparr>gs_cancelExpiresAt := ttl_from_now now ttl\<rparr>) c)
           (\<lambda>c. Done (maybe_sweep now c)))"

definition is_generation_stream_canceled :: "gotime \<Rightarrow> string \<Rightarrow> cache \<Rightarrow> bool" where
  "is_generation_stream_canceled now runID c =
     (case streams c (trim_space runID) of None \<Rightarrow> False | Some s \<Rightarrow> \<not> cancel_expired now s)"

definition append_event :: "string \<Rightarrow> string \<Rightarrow> int \<Rightarrow> generation_stream \<Rightarrow> generation_stream" where
  "append_event payload textDelta maxEvents s =
     (let seq = wrap64 (gs_seq s + 1);
          events = gs_events s @ [\<lparr>sm_ID = itoa seq, sm_Seq = seq, sm_PayloadJSON = payload\<rparr>];
          text = (if textDelta \<noteq> [] then gs_textContent s @ textDelta else gs_textContent s);
          textSeq = (if textDelta \<noteq> [] then seq else gs_textSeq s);
          maxEvents' = (if maxEvents \<le> 0 then 1024 else maxEvents);
          excess = int (length events) - maxEvents'
      in s\<lparr>gs_seq := seq, gs_events := (if 0 < excess then drop (nat excess) events else events),
           gs_textContent := text, gs_textSeq := textSeq\<rparr>)"

definition append_generation_stream_event ::
  "gotime \<Rightarrow> string \<Rightarrow> string \<Rightarrow> string \<Rightarrow> int \<Rightarrow> duration \<Rightarrow> cache \<Rightarrow> (stream_message \<times> cache) outcome" where
  "append_generation_stream_event now runID payload textDelta maxEvents ttl c =
     (let (s, c) = ensure_stream runID c;
          s' = (append_event payload textDelta maxEvents s)\<lparr>gs_eventsExpiresAt := ttl_from_now now ttl\<rparr>
      in bind_outcome (notify_stream runID s' c)
           (\<lambda>c. bind_outcome (notify_generation_streams c)
             (\<lambda>c. Done (\<lparr>sm_ID = itoa (gs_seq s'), sm_Seq = gs_seq s', sm_PayloadJSON = payload\<rparr>,
                        maybe_sweep now c))))"

definition get_generation_stream_text_snapshot :: "gotime \<Rightarrow> string \<Rightarrow> cache \<Rightarrow> (int \<times> string) option" where
  "get_generation_stream_text_snapshot now runID c =
     (case streams c (trim_space runID) of
        None \<Rightarrow> None
      | Some s \<Rightarrow> if events_expired now s \<or> gs_textSeq s \<le> 0 then None
                  else Some (gs_textSeq s, gs_textContent s))"

definition list_generation_stream_events :: "gotime \<Rightarrow> string \<Rightarrow> int \<Rightarrow> cache \<Rightarrow> stream_message list" where
  "list_generation_stream_events now runID limit c =
     (case streams c (trim_space runID) of
        None \<Rightarrow> []
      | Some s \<Rightarrow>
          if events_expired now s then []
          else if limit \<le> 0 \<or> int (length (gs_events s)) \<le> limit then gs_events s
          else drop (nat (int (length (gs_events s)) - limit)) (gs_events s))"

fun events_after_loop :: "int \<Rightarrow> int \<Rightarrow> stream_message list \<Rightarrow> stream_message list \<Rightarrow> stream_message list" where
  "events_after_loop afterSeq limit [] results = results"
| "events_after_loop afterSeq limit (item # items) results =
     (if sm_Seq item \<le> afterSeq then events_after_loop afterSeq limit items results
      else let results' = results @ [item]
           in if 0 < limit \<and> limit \<le> int (length results') then results'
              else events_after_loop afterSeq limit items results')"

definition generation_events_after :: "stream_message list \<Rightarrow> int \<Rightarrow> int \<Rightarrow> stream_message list" where
  "generation_events_after events afterSeq limit = events_after_loop afterSeq limit events []"

definition parse_stream_id :: "string \<Rightarrow> int" where
  "parse_stream_id raw =
     (let value = trim_space raw
      in if value = [] \<or> value = ''0-0'' then 0
         else parse_int64_or (until_byte (CHR ''-'') value))"

text \<open>The critical section of \<open>ReadGenerationStreamEvents\<close>: records, or the channel to wait on.\<close>

definition read_generation_section ::
  "gotime \<Rightarrow> string \<Rightarrow> string \<Rightarrow> int \<Rightarrow> cache \<Rightarrow> nat + stream_message list" where
  "read_generation_section now runID afterID limit c =
     (case streams c (trim_space runID) of
        None \<Rightarrow> Inl (streamNotify c)
      | Some s \<Rightarrow>
          if events_expired now s then Inl (streamNotify c)
          else let records = generation_events_after (gs_events s) (parse_stream_id afterID) limit
               in if records \<noteq> [] then Inr records else Inl (gs_notify s))"

definition reset_generation_stream_events :: "string \<Rightarrow> cache \<Rightarrow> cache outcome" where
  "reset_generation_stream_events runID c =
     (case streams c (trim_space runID) of
        None \<Rightarrow> Done c
      | Some s \<Rightarrow> notify_stream runID (s\<lparr>gs_events := [], gs_textContent := [], gs_textSeq := 0\<rparr>) c)"

definition expire_generation_stream :: "gotime \<Rightarrow> string \<Rightarrow> duration \<Rightarrow> cache \<Rightarrow> cache outcome" where
  "expire_generation_stream now runID ttl c =
     (case streams c (trim_space runID) of
        None \<Rightarrow> Done c
      | Some s \<Rightarrow>
          let s' = s\<lparr>gs_eventsExpiresAt := ttl_from_now now ttl, gs_ownerExpiresAt := ttl_from_now now ttl\<rparr>;
              s'' = (if \<not> cancel_expired now s' then s'\<lparr>gs_cancelExpiresAt := ttl_from_now now ttl\<rparr> else s')
          in bind_outcome (notify_stream runID s'' c) (\<lambda>c. Done (maybe_sweep now c)))"

subsection \<open>Channels of streams\<close>

lemma ensure_stream_sound:
  assumes "chan_inv c" and "ensure_stream runID c = (s, c1)"
  shows "chan_inv c1 \<and> streams c1 = (streams c)(trim_space runID \<mapsto> s)
    \<and> s = (case streams c (trim_space runID) of None \<Rightarrow> fresh_stream (chanNext c) | Some s \<Rightarrow> s)
    \<and> streamNotify c1 = streamNotify c \<and> fileNotify c1 = fileNotify c
    \<and> chanClosed c1 = chanClosed c \<and> chanNext c \<le> chanNext c1"
proof (cases "streams c (trim_space runID)")
  case (Some s0)
  then show ?thesis using assms by (auto simp: ensure_stream_def)
next
  case None
  let ?n = "chanNext c" and ?w = "RunChan (trim_space runID)"
  let ?c = "put_stream runID (fresh_stream ?n) (c\<lparr>chanNext := Suc ?n\<rparr>)"
  have r: "s = fresh_stream ?n" "c1 = ?c"
    using None assms(2) by (auto simp: ensure_stream_def make_chan_def)
  have "chan_of ?c = (chan_of c)(?w \<mapsto> ?n)"
  proof
    fix w show "chan_of ?c w = ((chan_of c)(?w \<mapsto> ?n)) w"
      by (cases w) (auto simp: put_stream_def fresh_stream_def)
  qed
  then have "chan_inv ?c"
    using None by (intro chan_inv_make [OF assms(1), of ?w]) (simp_all add: put_stream_def)
  then show ?thesis using r None by (simp add: put_stream_def)
qed

lemma put_stream_sound:
  assumes "chan_inv c" and "streams c (trim_space runID) = Some s0" and "gs_notify s = gs_notify s0"
  shows "chan_inv (put_stream runID s c)"
proof (rule chan_inv_sub [OF assms(1)])
  show "chan_of (put_stream runID s c) w = Some n \<Longrightarrow> chan_of c w = Some n" for w n
    using assms(2,3) by (cases w) (auto simp: put_stream_def split: if_splits)
qed (simp_all add: put_stream_def)

lemma notify_stream_sound:
  assumes "chan_inv c" and "streams c (trim_space runID) = Some s0" and "gs_notify s = gs_notify s0"
  shows "\<exists>c'. notify_stream runID s c = Done c' \<and> chan_inv c'
    \<and> streams c' = (streams c)(trim_space runID \<mapsto> s\<lparr>gs_notify := chanNext c\<rparr>)
    \<and> streamNotify c' = streamNotify c \<and> chanClosed c' = (chanClosed c)(gs_notify s := True)"
proof -
  let ?w = "RunChan (trim_space runID)" and ?n = "gs_notify s"
  let ?c = "put_stream runID (s\<lparr>gs_notify := chanNext c\<rparr>)
     (c\<lparr>chanClosed := (chanClosed c)(?n := True), chanNext := Suc (chanNext c)\<rparr>)"
  have cur: "chan_of c ?w = Some ?n" using assms(2,3) by simp
  have "notify_stream runID s c = Done ?c"
    using chan_inv_open [OF assms(1) cur] by (simp add: notify_stream_def close_chan_def make_chan_def)
  moreover have "chan_of ?c = (chan_of c)(?w \<mapsto> chanNext c)"
  proof
    fix w show "chan_of ?c w = ((chan_of c)(?w \<mapsto> chanNext c)) w"
      by (cases w) (auto simp: put_stream_def)
  qed
  then have "chan_inv ?c"
    by (intro chan_inv_renew [OF assms(1) cur]) (simp_all add: put_stream_def)
  ultimately show ?thesis by (simp add: put_stream_def)
qed

lemma notify_generation_streams_sound:
  assumes "chan_inv c"
  shows "\<exists>c'. notify_generation_streams c = Done c' \<and> chan_inv c' \<and> streams c' = streams c
    \<and> chanClosed c' = (chanClosed c)(streamNotify c := True)"
proof -
  let ?c = "c\<lparr>chanClosed := (chanClosed c)(streamNotify c := True), chanNext := Suc (chanNext c),
              streamNotify := chanNext c\<rparr>"
  have "notify_generation_streams c = Done ?c"
    using chan_inv_open [OF assms, of StreamsChan]
    by (simp add: notify_generation_streams_def close_chan_def make_chan_def)
  moreover have "chan_of ?c = (chan_of c)(StreamsChan \<mapsto> chanNext c)"
  proof
    fix w show "chan_of ?c w = ((chan_of c)(StreamsChan \<mapsto> chanNext c)) w" by (cases w) simp_all
  qed
  then have "chan_inv ?c"
    using chan_inv_renew [OF assms, of StreamsChan "streamNotify c" ?c] by simp
  ultimately show ?thesis by simp
qed

subsection \<open>One operation after another\<close>

datatype stream_op =
    SRegister gotime string nat string duration
  | STouch gotime string nat duration
  | SClear gotime string nat
  | SCancel gotime string duration
  | SAppend gotime string string string int duration
  | SReset gotime string
  | SExpire gotime string duration

fun exec_stream :: "stream_op \<Rightarrow> cache \<Rightarrow> cache outcome" where
  "exec_stream (SRegister now r u conv ttl) c = Done (register_generation_stream now r u conv ttl c)"
| "exec_stream (STouch now r u ttl) c = Done (touch_generation_stream_active now r u ttl c)"
| "exec_stream (SClear now r u) c = Done (clear_generation_stream_active r u c)"
| "exec_stream (SCancel now r ttl) c = request_generation_stream_cancel now r ttl c"
| "exec_stream (SAppend now r p d m ttl) c =
     bind_outcome (append_generation_stream_event now r p d m ttl c) (\<lambda>(rec, c'). Done c')"
| "exec_stream (SReset now r) c = reset_generation_stream_events r c"
| "exec_stream (SExpire now r ttl) c = expire_generation_stream now r ttl c"

fun sop_time :: "stream_op \<Rightarrow> gotime" where
  "sop_time (SRegister now r u conv ttl) = now"
| "sop_time (STouch now r u ttl) = now"
| "sop_time (SClear now r u) = now"
| "sop_time (SCancel now r ttl) = now"
| "sop_time (SAppend now r p d m ttl) = now"
| "sop_time (SReset now r) = now"
| "sop_time (SExpire now r ttl) = now"

fun sop_key :: "stream_op \<Rightarrow> string" where
  "sop_key (SRegister now r u conv ttl) = trim_space r"
| "sop_key (STouch now r u ttl) = trim_space r"
| "sop_key (SClear now r u) = trim_space r"
| "sop_key (SCancel now r ttl) = trim_space r"
| "sop_key (SAppend now r p d m ttl) = trim_space r"
| "sop_key (SReset now r) = trim_space r"
| "sop_key (SExpire now r ttl) = trim_space r"

text \<open>What an operation makes of the entry it is about, but for its channel and the sweep.\<close>

fun stream_effect :: "stream_op \<Rightarrow> generation_stream \<Rightarrow> generation_stream" where
  "stream_effect (SRegister now r u conv ttl) s =
     s\<lparr>gs_ownerID := u, gs_conversationID := trim_space conv,
       gs_ownerExpiresAt := ttl_from_now now ttl, gs_cancelExpiresAt := 0\<rparr>"
| "stream_effect (STouch now r u ttl) s =
     (if gs_ownerID s \<noteq> u then s else s\<lparr>gs_activeExpiresAt := ttl_from_now now ttl\<rparr>)"
| "stream_effect (SClear now r u) s = (if gs_ownerID s = u then s\<lparr>gs_activeExpiresAt := 0\<rparr> else s)"
| "stream_effect (SCancel now r ttl) s = s\<lparr>gs_cancelExpiresAt := ttl_from_now now ttl\<rparr>"
| "stream_effect (SAppend now r p d m ttl) s =
     (append_event p d m s)\<lparr>gs_eventsExpiresAt := ttl_from_now now ttl\<rparr>"
| "stream_effect (SReset now r) s = s\<lparr>gs_events := [], gs_textContent := [], gs_textSeq := 0\<rparr>"
| "stream_effect (SExpire now r ttl) s =
     (let s' = s\<lparr>gs_eventsExpiresAt := ttl_from_now now ttl, gs_ownerExpiresAt := ttl_from_now now ttl\<rparr>
      in if \<not> cancel_expired now s' then s'\<lparr>gs_cancelExpiresAt := ttl_from_now now ttl\<rparr> else s')"

fun creates :: "stream_op \<Rightarrow> bool" where
  "creates (SClear now r u) = False"
| "creates (SReset now r) = False"
| "creates (SExpire now r ttl) = False"
| "creates _ = True"

definition entry_or_fresh :: "generation_stream option \<Rightarrow> generation_stream" where
  "entry_or_fresh so = (case so of None \<Rightarrow> fresh_stream 0 | Some s \<Rightarrow> s)"

definition effect_ok :: "stream_op \<Rightarrow> cache \<Rightarrow> cache \<Rightarrow> bool" where
  "effect_ok oper c c' \<longleftrightarrow> (\<exists>c1. (c' = c1 \<or> c' = maybe_sweep (sop_time oper) c1) \<and>
     (if streams c (sop_key oper) = None \<and> \<not> creates oper then streams c1 = streams c
      else \<exists>n. streams c1 = (streams c)(sop_key oper \<mapsto>
             (stream_effect oper (entry_or_fresh (streams c (sop_key oper))))\<lparr>gs_notify := n\<rparr>)))"

lemma effect_okI:
  "c' = c1 \<or> c' = maybe_sweep (sop_time oper) c1 \<Longrightarrow>
   streams c1 = (streams c)(sop_key oper \<mapsto>
     (stream_effect oper (entry_or_fresh (streams c (sop_key oper))))\<lparr>gs_notify := n\<rparr>) \<Longrightarrow>
   creates oper \<or> streams c (sop_key oper) \<noteq> None \<Longrightarrow> effect_ok oper c c'"
  unfolding effect_ok_def by (rule exI [of _ c1]) auto

lemma stream_effect_notify:
  "stream_effect oper (s\<lparr>gs_notify := n\<rparr>) = (stream_effect oper s)\<lparr>gs_notify := n\<rparr>"
  by (cases oper) (simp_all add: append_event_def Let_def cancel_expired_def)

lemma notify_of_effect [simp]: "gs_notify (stream_effect oper s) = gs_notify s"
  by (cases oper) (simp_all add: append_event_def Let_def)

lemma ensured_entry:
  assumes "chan_inv c" and "ensure_stream runID c = (s, c1)"
  shows "stream_effect oper s
    = (stream_effect oper (entry_or_fresh (streams c (trim_space runID))))\<lparr>gs_notify := gs_notify s\<rparr>"
proof -
  have "s = (entry_or_fresh (streams c (trim_space runID)))\<lparr>gs_notify := gs_notify s\<rparr>"
    using ensure_stream_sound [OF assms]
    by (auto simp: entry_or_fresh_def fresh_stream_def split: option.split)
  then show ?thesis by (metis stream_effect_notify)
qed

text \<open>Ensure an entry, change it in place, perhaps tell its readers: all operations have one of
  these two shapes.\<close>

lemma put_effect:
  assumes "chan_inv c" and "ensure_stream runID c = (s, c1)" and "sop_key oper = trim_space runID"
    and "creates oper"
  shows "chan_inv (put_stream runID (stream_effect oper s) c1)
    \<and> effect_ok oper c (maybe_sweep (sop_time oper) (put_stream runID (stream_effect oper s) c1))
    \<and> effect_ok oper c (put_stream runID (stream_effect oper s) c1)"
proof -
  note e = ensure_stream_sound [OF assms(1,2)]
  have "chan_inv (put_stream runID (stream_effect oper s) c1)"
    using e by (intro put_stream_sound [of _ _ s]) simp_all
  moreover have "streams (put_stream runID (stream_effect oper s) c1)
     = (streams c)(sop_key oper \<mapsto> (stream_effect oper (entry_or_fresh (streams c (sop_key oper))))
          \<lparr>gs_notify := gs_notify s\<rparr>)"
    using e ensured_entry [OF assms(1,2), of oper] assms(3) by (simp add: put_stream_def)
  ultimately show ?thesis using assms(4) effect_okI by blast
qed

lemma notify_effect:
  assumes "chan_inv c1" and "streams c1 (trim_space runID) = Some s" and "sop_key oper = trim_space runID"
    and "streams c1 = (streams c)(trim_space runID \<mapsto> s)"
    and "stream_effect oper s
      = (stream_effect oper (entry_or_fresh (streams c (trim_space runID))))\<lparr>gs_notify := gs_notify s\<rparr>"
    and "creates oper \<or> streams c (trim_space runID) \<noteq> None"
  obtains c2 where "notify_stream runID (stream_effect oper s) c1 = Done c2" and "chan_inv c2"
    and "effect_ok oper c c2" and "effect_ok oper c (maybe_sweep (sop_time oper) c2)"
    and "\<And>c3. streams c3 = streams c2 \<Longrightarrow> effect_ok oper c (maybe_sweep (sop_time oper) c3)"
    and "chanClosed c2 = (chanClosed c1)(gs_notify s := True)" and "streamNotify c2 = streamNotify c1"
proof -
  have "gs_notify (stream_effect oper s) = gs_notify s" by simp
  from notify_stream_sound [OF assms(1,2) this]
  obtain c2 where c2: "notify_stream runID (stream_effect oper s) c1 = Done c2" "chan_inv c2"
      "streams c2 = (streams c1)(trim_space runID \<mapsto> (stream_effect oper s)\<lparr>gs_notify := chanNext c1\<rparr>)"
      "chanClosed c2 = (chanClosed c1)(gs_notify s := True)" "streamNotify c2 = streamNotify c1"
    by auto
  have "streams c2 = (streams c)(sop_key oper \<mapsto>
      (stream_effect oper (entry_or_fresh (streams c (sop_key oper))))\<lparr>gs_notify := chanNext c1\<rparr>)"
    unfolding c2(3) assms(4) by (subst assms(5)) (simp add: assms(3))
  then show thesis using that [OF c2(1,2) _ _ _ c2(4,5)] effect_okI assms(3,6) by metis
qed

lemma exec_stream_sound:
  assumes "chan_inv c"
  shows "\<exists>c'. exec_stream oper c = Done c' \<and> chan_inv c' \<and> effect_ok oper c c'"
proof (cases oper)
  case (SRegister now r u conv ttl)
  obtain s c1 where e: "ensure_stream r c = (s, c1)" by (cases "ensure_stream r c")
  show ?thesis using put_effect [OF assms e, of oper] SRegister e
    by (simp add: register_generation_stream_def chan_inv_maybe_sweep)
next
  case (STouch now r u ttl)
  obtain s c1 where e: "ensure_stream r c = (s, c1)" by (cases "ensure_stream r c")
  have "put_stream r s c1 = c1"
    using ensure_stream_sound [OF assms e] by (simp add: put_stream_def)
  then show ?thesis using put_effect [OF assms e, of oper] STouch e
    by (cases "gs_ownerID s = u") (simp_all add: touch_generation_stream_active_def chan_inv_maybe_sweep)
next
  case (SCancel now r ttl)
  obtain s c1 where e: "ensure_stream r c = (s, c1)" by (cases "ensure_stream r c")
  note es = ensure_stream_sound [OF assms e]
  obtain c2 where "notify_stream r (stream_effect oper s) c1 = Done c2" "chan_inv c2"
      "effect_ok oper c (maybe_sweep now c2)"
    by (rule notify_effect [of c1 r s oper c]) (use es ensured_entry [OF assms e] SCancel in auto)
  then show ?thesis using SCancel e
    by (simp add: request_generation_stream_cancel_def chan_inv_maybe_sweep)
next
  case (SAppend now r p d m ttl)
  obtain s c1 where e: "ensure_stream r c = (s, c1)" by (cases "ensure_stream r c")
  note es = ensure_stream_sound [OF assms e]
  obtain c2 where c2: "notify_stream r (stream_effect oper s) c1 = Done c2" "chan_inv c2"
      "\<And>c3. streams c3 = streams c2 \<Longrightarrow> effect_ok oper c (maybe_sweep now c3)"
    by (rule notify_effect [of c1 r s oper c]) (use es ensured_entry [OF assms e] SAppend in auto)
  obtain c3 where "notify_generation_streams c2 = Done c3" "chan_inv c3" "streams c3 = streams c2"
    using notify_generation_streams_sound [OF c2(2)] by blast
  then show ?thesis using SAppend e c2
    by (simp add: append_generation_stream_event_def chan_inv_maybe_sweep Let_def)
next
  case (SClear now r u)
  show ?thesis
  proof (cases "streams c (trim_space r)")
    case None
    then show ?thesis using assms SClear
      by (auto simp: clear_generation_stream_active_def effect_ok_def)
  next
    case (Some s)
    have "clear_generation_stream_active r u c = put_stream r (stream_effect oper s) c"
      using Some SClear by (auto simp: clear_generation_stream_active_def put_stream_def fun_upd_idem)
    moreover have "effect_ok oper c (put_stream r (stream_effect oper s) c)"
      using Some SClear
      by (intro effect_okI [of _ "put_stream r (stream_effect oper s) c" _ _ "gs_notify s"])
        (simp_all add: put_stream_def entry_or_fresh_def)
    moreover have "chan_inv (put_stream r (stream_effect oper s) c)"
      using Some by (intro put_stream_sound [OF assms]) auto
    ultimately show ?thesis using SClear by simp
  qed
next
  case (SReset now r)
  show ?thesis
  proof (cases "streams c (trim_space r)")
    case None
    then show ?thesis using assms SReset
      by (auto simp: reset_generation_stream_events_def effect_ok_def)
  next
    case (Some s)
    obtain c2 where "notify_stream r (stream_effect oper s) c = Done c2" "chan_inv c2" "effect_ok oper c c2"
      by (rule notify_effect [of c r s oper c])
        (use assms Some SReset in \<open>auto simp: entry_or_fresh_def fun_upd_idem\<close>)
    then show ?thesis using SReset Some by (simp add: reset_generation_stream_events_def)
  qed
next
  case (SExpire now r ttl)
  show ?thesis
  proof (cases "streams c (trim_space r)")
    case None
    then show ?thesis using assms SExpire
      by (auto simp: expire_generation_stream_def effect_ok_def)
  next
    case (Some s)
    obtain c2 where "notify_stream r (stream_effect oper s) c = Done c2" "chan_inv c2"
        "effect_ok oper c (maybe_sweep now c2)"
      by (rule notify_effect [of c r s oper c])
        (use assms Some SExpire in \<open>auto simp: entry_or_fresh_def fun_upd_idem Let_def cancel_expired_def\<close>)
    then show ?thesis using SExpire Some
      by (simp add: expire_generation_stream_def Let_def chan_inv_maybe_sweep)
  qed
qed

subsection \<open>The log a stream promises\<close>

text \<open>
  The specification of one run: what was appended since the last reset, numbered from the first
  event of the run on. The stream keeps the last \<open>M\<close> of them and the whole text.
\<close>

fun numbered :: "int \<Rightarrow> string list \<Rightarrow> stream_message list" where
  "numbered n [] = []"
| "numbered n (p # ps) = \<lparr>sm_ID = itoa n, sm_Seq = n, sm_PayloadJSON = p\<rparr> # numbered (n + 1) ps"

lemma numbered_snoc:
  "numbered n (ps @ [p])
     = numbered n ps @ [\<lparr>sm_ID = itoa (n + int (length ps)), sm_Seq = n + int (length ps), sm_PayloadJSON = p\<rparr>]"
  by (induction ps arbitrary: n) (simp_all add: add.assoc)

lemma length_numbered [simp]: "length (numbered n ps) = length ps"
  by (induction ps arbitrary: n) simp_all

record run_log =
  lg_start :: int                       \<comment> \<open>the number of the last event before the reset\<close>
  lg_since :: "(string \<times> string) list"  \<comment> \<open>payload and text delta of every later event\<close>

definition empty_log :: run_log where
  "empty_log = \<lparr>lg_start = 0, lg_since = []\<rparr>"

definition log_seq :: "run_log \<Rightarrow> int" where
  "log_seq l = lg_start l + int (length (lg_since l))"

fun log_step :: "string \<Rightarrow> stream_op \<Rightarrow> run_log \<Rightarrow> run_log" where
  "log_step r (SAppend now r' p d m ttl) l =
     (if trim_space r' = r then l\<lparr>lg_since := lg_since l @ [(p, d)]\<rparr> else l)"
| "log_step r (SReset now r') l =
     (if trim_space r' = r then \<lparr>lg_start = log_seq l, lg_since = []\<rparr> else l)"
| "log_step r _ l = l"

definition log_text :: "run_log \<Rightarrow> string" where
  "log_text l = concat (map snd (lg_since l))"

text \<open>The number of the last event that carried text.\<close>

fun last_text :: "int \<Rightarrow> (string \<times> string) list \<Rightarrow> int \<Rightarrow> int" where
  "last_text n [] acc = acc"
| "last_text n ((p, d) # es) acc = last_text (n + 1) es (if d \<noteq> [] then n else acc)"

lemma last_text_snoc:
  "last_text n (es @ [(p, d)]) acc = (if d \<noteq> [] then n + int (length es) else last_text n es acc)"
  by (induction n es acc rule: last_text.induct) (auto simp: add.assoc)

definition stream_agrees :: "nat \<Rightarrow> gotime \<Rightarrow> generation_stream option \<Rightarrow> run_log \<Rightarrow> bool" where
  "stream_agrees M H so l \<longleftrightarrow>
     (let s = entry_or_fresh so
      in gs_seq s = log_seq l
         \<and> gs_events s = keep_last M (numbered (lg_start l + 1) (map fst (lg_since l)))
         \<and> gs_textContent s = log_text l
         \<and> gs_textSeq s = last_text (lg_start l + 1) (lg_since l) 0
         \<and> (log_seq l \<noteq> 0 \<longrightarrow> so \<noteq> None \<and> H \<le> gs_eventsExpiresAt s))
     \<and> 0 \<le> lg_start l"

lemma stream_agrees_notify:
  "stream_agrees M H (Some (s\<lparr>gs_notify := n\<rparr>)) l = stream_agrees M H (Some s) l"
  by (simp add: stream_agrees_def entry_or_fresh_def)

lemma log_seq_zero: "0 \<le> lg_start l \<Longrightarrow> log_seq l = 0 \<longleftrightarrow> lg_start l = 0 \<and> lg_since l = []"
  by (auto simp: log_seq_def add_nonneg_eq_0_iff)

text \<open>Every operation on the run that sets the life of its events keeps it alive to \<open>H\<close>.\<close>

fun keeps_alive :: "nat \<Rightarrow> gotime \<Rightarrow> string \<Rightarrow> stream_op \<Rightarrow> bool" where
  "keeps_alive M H r (SAppend now r' p d m ttl) \<longleftrightarrow>
     trim_space r' = r \<longrightarrow> m = int M \<and> H \<le> ttl_from_now now ttl"
| "keeps_alive M H r (SExpire now r' ttl) \<longleftrightarrow> trim_space r' = r \<longrightarrow> H \<le> ttl_from_now now ttl"
| "keeps_alive M H r _ \<longleftrightarrow> True"

lemma append_event_agrees:
  assumes "stream_agrees M H (Some s) l" and "0 < M" and "log_seq l < 2 ^ 63 - 1"
  shows "stream_agrees M H
    (Some ((append_event p d (int M) s)\<lparr>gs_eventsExpiresAt := e\<rparr>))
    (l\<lparr>lg_since := lg_since l @ [(p, d)]\<rparr>) \<longleftrightarrow> H \<le> e"
proof -
  let ?l = "l\<lparr>lg_since := lg_since l @ [(p, d)]\<rparr>" and ?n = "log_seq l + 1"
  have a: "gs_seq s = log_seq l" "gs_textContent s = log_text l"
      "gs_events s = keep_last M (numbered (lg_start l + 1) (map fst (lg_since l)))"
      "gs_textSeq s = last_text (lg_start l + 1) (lg_since l) 0" "0 \<le> lg_start l"
    using assms(1) by (simp_all add: stream_agrees_def entry_or_fresh_def)
  have n: "wrap64 ?n = ?n" "?n \<noteq> 0" "log_seq ?l = ?n"
    using assms(3) a(5) by (auto simp: log_seq_def wrap64_nonneg_small)
  let ?item = "\<lparr>sm_ID = itoa ?n, sm_Seq = ?n, sm_PayloadJSON = p\<rparr>"
  have cut: "(if 0 < int (length xs) - int M then drop (nat (int (length xs) - int M)) xs else xs)
      = keep_last M xs" for xs :: "stream_message list"
    by (auto simp: keep_last_def nat_diff_distrib)
  have ev: "keep_last M (gs_events s @ [?item])
      = keep_last M (numbered (lg_start l + 1) (map fst (lg_since ?l)))"
    unfolding a(3) keep_last_snoc by (simp add: numbered_snoc log_seq_def add.assoc add.commute)
  let ?s = "append_event p d (int M) s"
  have "gs_seq ?s = ?n" using a(1) n(1) by (simp add: append_event_def Let_def)
  moreover have "gs_events ?s = keep_last M (gs_events s @ [?item])"
    unfolding cut [symmetric] using assms(2) a(1) n(1) by (simp add: append_event_def Let_def)
  moreover have "gs_textContent ?s = log_text ?l"
    using a(2) by (simp add: append_event_def Let_def log_text_def)
  moreover have "gs_textSeq ?s = last_text (lg_start l + 1) (lg_since ?l) 0"
    using a(1,4) n(1) by (simp add: append_event_def Let_def last_text_snoc) (simp add: log_seq_def)
  ultimately show ?thesis using ev n(2,3) a(5) by (simp add: stream_agrees_def entry_or_fresh_def)
qed

lemma stream_agrees_fresh: "stream_agrees M H None l \<Longrightarrow> stream_agrees M H (Some (entry_or_fresh None)) l"
  by (simp add: stream_agrees_def entry_or_fresh_def Let_def)

lemma stream_agrees_irrelevant:
  assumes "stream_agrees M H (Some s) l"
    and "gs_seq s' = gs_seq s" "gs_events s' = gs_events s" "gs_textContent s' = gs_textContent s"
    and "gs_textSeq s' = gs_textSeq s" "gs_eventsExpiresAt s' = gs_eventsExpiresAt s \<or> H \<le> gs_eventsExpiresAt s'"
  shows "stream_agrees M H (Some s') l"
  using assms by (auto simp: stream_agrees_def entry_or_fresh_def)

lemma stream_effect_agrees:
  assumes "stream_agrees M H (Some s) l" and "0 < M" and "log_seq l < 2 ^ 63 - 1"
    and "keeps_alive M H (sop_key oper) oper"
  shows "stream_agrees M H (Some (stream_effect oper s)) (log_step (sop_key oper) oper l)"
proof (cases oper)
  case (SAppend now r p d m ttl)
  then show ?thesis using append_event_agrees [OF assms(1-3)] assms(4) by simp
next
  case (SReset now r)
  then show ?thesis using assms(1)
    by (auto simp: stream_agrees_def entry_or_fresh_def log_seq_def log_text_def keep_last_def)
next
  case (SExpire now r ttl)
  then show ?thesis using assms(1,4)
    by (auto simp: Let_def intro: stream_agrees_irrelevant)
qed (use assms(1) in \<open>auto intro: stream_agrees_irrelevant\<close>)

lemma log_step_other: "sop_key oper \<noteq> r \<Longrightarrow> log_step r oper l = l"
  by (cases oper) simp_all

lemma log_step_absent:
  assumes "\<not> creates oper" and "log_seq l = 0" and "0 \<le> lg_start l"
  shows "log_step r oper l = l"
  using assms(1) log_seq_zero [OF assms(3)] assms(2) by (cases oper; cases l) (auto simp: log_seq_def)

lemma log_step_seq: "log_seq l \<le> log_seq (log_step r oper l) \<and> log_seq (log_step r oper l) \<le> log_seq l + 1"
  by (cases oper) (auto simp: log_seq_def)

lemma stream_agrees_sweep:
  assumes "stream_agrees M H (streams c r) l" and "now \<le> H" and "0 < H"
  shows "stream_agrees M H (streams (maybe_sweep now c) r) l"
proof (cases "log_seq l = 0")
  case False
  then obtain s where s: "streams c r = Some s" "H \<le> gs_eventsExpiresAt s"
    using assms(1) by (cases "streams c r") (auto simp: stream_agrees_def entry_or_fresh_def Let_def)
  then have "streams (maybe_sweep now c) r = Some s"
    using assms(2,3) by (intro maybe_sweep_live(8)) (auto simp: events_expired_def)
  then show ?thesis using assms(1) s(1) by simp
next
  case True
  have "0 \<le> lg_start l" using assms(1) by (simp add: stream_agrees_def Let_def)
  then have "lg_since l = []" "lg_start l = 0" using True log_seq_zero by simp_all
  then have "stream_agrees M H None l"
    by (simp add: stream_agrees_def entry_or_fresh_def fresh_stream_def log_seq_def log_text_def keep_last_def)
  moreover have "streams (maybe_sweep now c) r = None \<or> streams (maybe_sweep now c) r = streams c r"
    using maybe_sweep_sub(8) [of now c r] by (cases "streams (maybe_sweep now c) r") auto
  ultimately show ?thesis using assms(1) by auto
qed

fun run_stream :: "cache \<Rightarrow> stream_op list \<Rightarrow> cache outcome" where
  "run_stream c [] = Done c"
| "run_stream c (oper # es) = bind_outcome (exec_stream oper c) (\<lambda>c'. run_stream c' es)"

lemma exec_stream_agrees:
  assumes "chan_inv c" and "stream_agrees M H (streams c r) l" and "0 < M" and "0 < H"
    and "log_seq l < 2 ^ 63 - 1" and "keeps_alive M H r oper" and "sop_time oper \<le> H"
  shows "\<exists>c'. exec_stream oper c = Done c' \<and> chan_inv c' \<and> stream_agrees M H (streams c' r) (log_step r oper l)"
proof -
  obtain c' where c': "exec_stream oper c = Done c'" "chan_inv c'" "effect_ok oper c c'"
    using exec_stream_sound [OF assms(1)] by blast
  obtain c1 where c1: "c' = c1 \<or> c' = maybe_sweep (sop_time oper) c1"
      "if streams c (sop_key oper) = None \<and> \<not> creates oper then streams c1 = streams c
       else \<exists>n. streams c1 = (streams c)(sop_key oper \<mapsto>
             (stream_effect oper (entry_or_fresh (streams c (sop_key oper))))\<lparr>gs_notify := n\<rparr>)"
    using c'(3) unfolding effect_ok_def by blast
  have "stream_agrees M H (streams c1 r) (log_step r oper l)"
  proof (cases "sop_key oper = r")
    case False
    then have "streams c1 r = streams c r" using c1(2) by (auto split: if_splits)
    then show ?thesis using assms(2) log_step_other [OF False] by simp
  next
    case True
    show ?thesis
    proof (cases "streams c r = None \<and> \<not> creates oper")
      case none: True
      then have "log_seq l = 0 \<and> 0 \<le> lg_start l" using assms(2) by (auto simp: stream_agrees_def Let_def)
      then show ?thesis using none c1(2) assms(2) True log_step_absent by simp
    next
      case some: False
      let ?s = "entry_or_fresh (streams c r)"
      obtain n where n: "streams c1 r = Some ((stream_effect oper ?s)\<lparr>gs_notify := n\<rparr>)"
        using c1(2) some True by auto
      have "stream_agrees M H (Some ?s) l"
        using assms(2) stream_agrees_fresh by (cases "streams c r") (auto simp: entry_or_fresh_def)
      then have "stream_agrees M H (Some (stream_effect oper ?s)) (log_step r oper l)"
        using stream_effect_agrees [OF _ assms(3,5)] assms(6) True by blast
      then show ?thesis using n by (simp add: stream_agrees_notify)
    qed
  qed
  then have "stream_agrees M H (streams c' r) (log_step r oper l)"
    using c1(1) stream_agrees_sweep assms(4,7) by blast
  then show ?thesis using c'(1,2) by blast
qed

lemma run_stream_agrees:
  assumes "chan_inv c" and "stream_agrees M H (streams c r) l" and "0 < M" and "0 < H"
    and "log_seq l + int (length es) < 2 ^ 63"
    and "\<forall>oper \<in> set es. keeps_alive M H r oper \<and> sop_time oper \<le> H"
  shows "\<exists>c'. run_stream c es = Done c' \<and> chan_inv c'
    \<and> stream_agrees M H (streams c' r) (fold (log_step r) es l)"
  using assms(1,2,5,6)
proof (induction es arbitrary: c l)
  case Nil
  then show ?case by simp
next
  case (Cons oper es)
  obtain c1 where c1: "exec_stream oper c = Done c1" "chan_inv c1"
      "stream_agrees M H (streams c1 r) (log_step r oper l)"
    using exec_stream_agrees [OF Cons.prems(1,2) assms(3,4)] Cons.prems(3,4) by fastforce
  have "log_seq (log_step r oper l) + int (length es) < 2 ^ 63"
    using Cons.prems(3) log_step_seq [of l r oper] by simp
  from Cons.IH [OF c1(2,3) this] show ?case using c1(1) Cons.prems(4) by simp
qed

subsection \<open>Reading by cursor\<close>

definition limited :: "int \<Rightarrow> 'a list \<Rightarrow> 'a list" where
  "limited limit xs = (if 0 < limit then take (nat limit) xs else xs)"

lemma events_after_loop_filter:
  assumes "0 < limit \<longrightarrow> int (length res) < limit"
  shows "events_after_loop a limit xs res
    = (if 0 < limit then take (nat limit) (res @ filter (\<lambda>i. a < sm_Seq i) xs)
       else res @ filter (\<lambda>i. a < sm_Seq i) xs)"
  using assms
proof (induction xs arbitrary: res)
  case Nil
  then show ?case by (auto simp: nat_le_eq_zle)
next
  case (Cons x xs)
  show ?case
  proof (cases "a < sm_Seq x \<and> 0 < limit \<and> limit \<le> int (length (res @ [x]))")
    case True
    then have "nat limit = length (res @ [x])" using Cons.prems by auto
    then show ?thesis using True by (simp add: Let_def)
  next
    case False
    then show ?thesis using Cons.IH [of "res @ [x]"] Cons.IH [of res] Cons.prems
      by (auto simp: Let_def not_less)
  qed
qed

lemma generation_events_after_filter:
  "generation_events_after xs a limit = limited limit (filter (\<lambda>i. a < sm_Seq i) xs)"
  using events_after_loop_filter [of limit "[]" a xs] by (simp add: generation_events_after_def limited_def)

lemma filter_numbered: "filter (\<lambda>i. k < sm_Seq i) (numbered n ps) = drop (nat (k + 1 - n)) (numbered n ps)"
proof (induction ps arbitrary: n)
  case (Cons p ps)
  show ?case
  proof (cases "k < n")
    case True
    then show ?thesis using Cons [of "n + 1"] by simp
  next
    case False
    then have "nat (k + 1 - n) = Suc (nat (k + 1 - (n + 1)))" by simp
    then show ?thesis using False Cons [of "n + 1"] by simp
  qed
qed simp

lemma drop_numbered: "drop j (numbered n ps) = numbered (n + int j) (drop j ps)"
  by (induction j arbitrary: n ps) (simp, case_tac ps, simp_all add: add.assoc)

lemma filter_keep_last_numbered:
  "filter (\<lambda>i. k < sm_Seq i) (keep_last M (numbered (b + 1) ps))
     = drop (max (length ps - M) (nat (k - b))) (numbered (b + 1) ps)"
proof -
  let ?j = "length ps - M"
  have cut: "keep_last M (numbered (b + 1) ps) = numbered (b + 1 + int ?j) (drop ?j ps)"
    by (simp add: keep_last_drop drop_numbered)
  have n: "k + 1 - (b + 1 + int ?j) = k - b - int ?j" by simp
  have "filter (\<lambda>i. k < sm_Seq i) (keep_last M (numbered (b + 1) ps))
      = drop (nat (k - b - int ?j)) (drop ?j (numbered (b + 1) ps))"
    unfolding cut filter_numbered n by (subst drop_numbered) (rule refl)
  also have "\<dots> = drop (nat (k - b - int ?j) + ?j) (numbered (b + 1) ps)" by simp
  also have "nat (k - b - int ?j) + ?j = max ?j (nat (k - b))" by (simp add: max_def) linarith
  finally show ?thesis .
qed

lemma parse_stream_id_itoa:
  assumes "0 \<le> k" and "k < 2 ^ 63"
  shows "parse_stream_id (itoa k) = k"
proof -
  have digits: "CHR ''-'' \<notin> set (nat_digits (nat k))" by (rule not_in_nat_digits) code_simp
  then have "nat_digits (nat k) \<noteq> ''0-0''" by auto
  then show ?thesis
    using assms digits by (simp add: parse_stream_id_def itoa_def Let_def until_byte_id parse_nat_digits)
qed

definition run_log_of :: "string \<Rightarrow> stream_op list \<Rightarrow> run_log" where
  "run_log_of runID es = fold (log_step (trim_space runID)) es empty_log"

definition all_events :: "run_log \<Rightarrow> stream_message list" where
  "all_events l = numbered (lg_start l + 1) (map fst (lg_since l))"

lemma run_from_absent:
  assumes "chan_inv c" and "streams c (trim_space runID) = None" and "0 < M" and "0 < H"
    and "int (length es) < 2 ^ 63"
    and "\<forall>oper \<in> set es. keeps_alive M H (trim_space runID) oper \<and> sop_time oper \<le> H"
    and "run_stream c es = Done c'"
  shows "stream_agrees M H (streams c' (trim_space runID)) (run_log_of runID es)"
proof -
  have "stream_agrees M H (streams c (trim_space runID)) empty_log"
    using assms(2) by (simp add: stream_agrees_def entry_or_fresh_def fresh_stream_def empty_log_def
        log_seq_def log_text_def keep_last_def)
  moreover have "log_seq empty_log + int (length es) < 2 ^ 63"
    using assms(5) by (simp add: log_seq_def empty_log_def)
  ultimately show ?thesis
    using run_stream_agrees [OF assms(1) _ assms(3,4) _ assms(6)] assms(7)
    by (fastforce simp: run_log_of_def)
qed

lemma agrees_events:
  assumes "stream_agrees M H so l" and "now \<le> H" and "0 < H"
  shows "case so of None \<Rightarrow> all_events l = [] \<and> lg_since l = []
    | Some s \<Rightarrow> gs_events s = keep_last M (all_events l) \<and> gs_textContent s = log_text l
        \<and> gs_textSeq s = last_text (lg_start l + 1) (lg_since l) 0
        \<and> (events_expired now s \<longrightarrow> all_events l = [] \<and> lg_since l = [])"
proof (cases so)
  case None
  then show ?thesis using assms(1) log_seq_zero [of l]
    by (auto simp: stream_agrees_def Let_def all_events_def)
next
  case (Some s)
  then show ?thesis using assms log_seq_zero [of l]
    by (auto simp: stream_agrees_def entry_or_fresh_def Let_def all_events_def events_expired_def)
qed

text \<open>
  C23: A generation stream is the log it promises: after any operations on any streams, as long as
  the run is kept alive, a reader lists exactly the last events since the last reset, at most
  the configured number and the asked-for limit, numbered consecutively from the first event of
  the run on (also across resets), and the text snapshot is the concatenation of all text deltas
  since the reset with the number of the last of them.
\<close>

theorem generation_stream_is_log:
  assumes "chan_inv c" and "streams c (trim_space runID) = None" and "0 < M" and "0 < H"
    and "int (length es) < 2 ^ 63"
    and "\<forall>oper \<in> set es. keeps_alive M H (trim_space runID) oper \<and> sop_time oper \<le> H"
    and "run_stream c es = Done c'" and "now \<le> H" and "0 < limit"
  shows "list_generation_stream_events now runID limit c'
      = keep_last (nat limit) (keep_last M (all_events (run_log_of runID es)))
    \<and> get_generation_stream_text_snapshot now runID c'
      = (let n = last_text (lg_start (run_log_of runID es) + 1) (lg_since (run_log_of runID es)) 0
         in if n \<le> 0 then None else Some (n, log_text (run_log_of runID es)))"
proof -
  let ?l = "run_log_of runID es"
  note agree = agrees_events [OF run_from_absent [OF assms(1-7)] assms(8,4)]
  have cut: "(if limit \<le> 0 \<or> int (length xs) \<le> limit then xs else drop (nat (int (length xs) - limit)) xs)
      = keep_last (nat limit) xs" for xs :: "stream_message list"
    using assms(9) by (auto simp: keep_last_def nat_diff_distrib)
  show ?thesis
  proof (cases "streams c' (trim_space runID)")
    case None
    then show ?thesis using agree
      by (simp add: list_generation_stream_events_def get_generation_stream_text_snapshot_def keep_last_def)
  next
    case (Some s)
    then show ?thesis using agree cut [of "gs_events s"]
      by (simp add: list_generation_stream_events_def get_generation_stream_text_snapshot_def Let_def)
        (simp add: keep_last_def)
  qed
qed

text \<open>
  C30: A reader that resumes from a cursor gets exactly what comes after it: the next retained
  events, in order, with no gap and no repetition, up to its limit, and it is told to wait only
  when there is none.
\<close>

theorem generation_stream_resumes:
  assumes "chan_inv c" and "streams c (trim_space runID) = None" and "0 < M" and "0 < H"
    and "int (length es) < 2 ^ 63"
    and "\<forall>oper \<in> set es. keeps_alive M H (trim_space runID) oper \<and> sop_time oper \<le> H"
    and "run_stream c es = Done c'" and "now \<le> H" and "0 \<le> k" and "k < 2 ^ 63"
  shows "(let l = run_log_of runID es;
              records = limited limit (drop (max (length (lg_since l) - M) (nat (k - lg_start l))) (all_events l))
          in if records = [] then \<exists>ch. read_generation_section now runID (itoa k) limit c' = Inl ch
             else read_generation_section now runID (itoa k) limit c' = Inr records)"
proof -
  let ?l = "run_log_of runID es"
  note agree = agrees_events [OF run_from_absent [OF assms(1-7)] assms(8,4)]
  note after = filter_keep_last_numbered [of k M "lg_start ?l" "map fst (lg_since ?l)", folded all_events_def]
  show ?thesis
  proof (cases "streams c' (trim_space runID)")
    case None
    then show ?thesis using agree
      by (simp add: read_generation_section_def limited_def Let_def)
  next
    case (Some s)
    then show ?thesis using agree after
      by (auto simp: read_generation_section_def parse_stream_id_itoa [OF assms(9,10)] Let_def
          generation_events_after_filter limited_def)
  qed
qed

lemma run_stream_sound: "chan_inv c \<Longrightarrow> \<exists>c'. run_stream c es = Done c' \<and> chan_inv c'"
proof (induction es arbitrary: c)
  case (Cons oper es)
  then show ?case using exec_stream_sound [OF Cons.prems, of oper] by fastforce
qed simp

definition sample_run :: "stream_op list" where
  "sample_run = [SAppend 1 ''r'' ''p'' ''d'' 2 100, SAppend 2 ''r'' ''q'' [] 2 100,
                 SAppend 3 ''r'' ''s'' ''e'' 2 100]"

lemma sample_run_log:
  "trim_space ''r'' = ''r''"
  "run_log_of ''r'' sample_run = \<lparr>lg_start = 0, lg_since = [(''p'', ''d''), (''q'', []), (''s'', ''e'')]\<rparr>"
  "\<forall>oper \<in> set sample_run. keeps_alive 2 50 (trim_space ''r'') oper \<and> sop_time oper \<le> 50"
  "itoa 2 = ''2''" "itoa 3 = ''3''"
proof -
  show r: "trim_space ''r'' = ''r''" by code_simp
  show "run_log_of ''r'' sample_run = \<lparr>lg_start = 0, lg_since = [(''p'', ''d''), (''q'', []), (''s'', ''e'')]\<rparr>"
    by (simp add: run_log_of_def sample_run_def r empty_log_def)
  show "\<forall>oper \<in> set sample_run. keeps_alive 2 50 (trim_space ''r'') oper \<and> sop_time oper \<le> 50"
    by (simp add: sample_run_def r ttl_from_now_def)
qed code_simp+

theorem generation_stream_is_log_witness:
  "\<exists>c'. run_stream new_cache sample_run = Done c' \<and> list_generation_stream_events 10 ''r'' 1 c'
     = [\<lparr>sm_ID = ''3'', sm_Seq = 3, sm_PayloadJSON = ''s''\<rparr>]
     \<and> get_generation_stream_text_snapshot 10 ''r'' c' = Some (3, ''de'')"
proof -
  obtain c' where c': "run_stream new_cache sample_run = Done c'"
    using run_stream_sound [OF chan_inv_new_cache] by blast
  have len: "int (length sample_run) < 2 ^ 63" by (simp add: sample_run_def)
  have none: "streams new_cache (trim_space ''r'') = None" by (simp add: new_cache_def)
  have two: "(0::nat) < 2" "(0::int) < 50" "(10::int) \<le> 50" "(0::int) < 1" by simp_all
  from generation_stream_is_log [OF chan_inv_new_cache none two(1,2) len sample_run_log(3) c' two(3,4)]
  show ?thesis using c' by (simp add: sample_run_log all_events_def keep_last_def log_text_def Let_def)
qed

theorem generation_stream_resumes_witness:
  "\<exists>c'. run_stream new_cache sample_run = Done c'
     \<and> read_generation_section 10 ''r'' ''2'' 1 c' = Inr [\<lparr>sm_ID = ''3'', sm_Seq = 3, sm_PayloadJSON = ''s''\<rparr>]"
proof -
  obtain c' where c': "run_stream new_cache sample_run = Done c'"
    using run_stream_sound [OF chan_inv_new_cache] by blast
  have len: "int (length sample_run) < 2 ^ 63" by (simp add: sample_run_def)
  have none: "streams new_cache (trim_space ''r'') = None" by (simp add: new_cache_def)
  have two: "(0::nat) < 2" "(0::int) < 50" "(10::int) \<le> 50" "(0::int) \<le> 2" "(2::int) < 2 ^ 63" by simp_all
  from generation_stream_resumes [OF chan_inv_new_cache none two(1,2) len sample_run_log(3) c' two(3-5), of 1]
  show ?thesis using c' by (simp add: sample_run_log all_events_def limited_def Let_def)
qed

subsection \<open>Ownership and wake-ups\<close>

interpretation stream_owner_read: swept_read "\<lambda>now c. get_generation_stream_owner now runID c" "\<lambda>_. True" for runID
  by unfold_locales
    (auto simp: get_generation_stream_owner_def sweep_map_def owner_expired_def split: option.split)

interpretation stream_active_read: swept_read "\<lambda>now c. is_generation_stream_active now runID c" "\<lambda>_. True" for runID
  by unfold_locales
    (auto simp: is_generation_stream_active_def sweep_map_def active_expired_def split: option.split)

interpretation stream_cancel_read: swept_read "\<lambda>now c. is_generation_stream_canceled now runID c" "\<lambda>_. True" for runID
  by unfold_locales
    (auto simp: is_generation_stream_canceled_def sweep_map_def cancel_expired_def split: option.split)

interpretation stream_text_read: swept_read "\<lambda>now c. get_generation_stream_text_snapshot now runID c" "\<lambda>_. True" for runID
  by unfold_locales
    (auto simp: get_generation_stream_text_snapshot_def sweep_map_def events_expired_def split: option.split)

interpretation stream_events_read: swept_read "\<lambda>now c. list_generation_stream_events now runID limit c" "\<lambda>_. True" for runID limit
  by unfold_locales
    (auto simp: list_generation_stream_events_def sweep_map_def events_expired_def split: option.split)

text \<open>
  The list of active generations of a user is exactly the streams the user owns whose
  activity has not run out and that belong to a conversation: nobody else's stream shows up, and
  the sweep the listing itself makes hides none.
\<close>

theorem active_streams_exact:
  assumes "dom (streams (maybe_sweep now c)) \<subseteq> set order"
  shows "set (fst (list_active_generation_streams now u order c))
    = {(r, gs_conversationID s) | r s. streams c r = Some s \<and> gs_ownerID s = u
         \<and> \<not> active_expired now s \<and> trim_space (gs_conversationID s) \<noteq> []}"
proof -
  let ?c = "maybe_sweep now c"
  have live: "streams ?c r = Some s \<longleftrightarrow> streams c r = Some s" if "\<not> active_expired now s" for r s
    using that maybe_sweep_live(8) [of c r s now] maybe_sweep_sub(8) [of now c r s] by blast
  have "set (fst (list_active_generation_streams now u order c))
    = {(r, gs_conversationID s) | r s. r \<in> set order \<and> streams ?c r = Some s \<and> gs_ownerID s = u
         \<and> \<not> active_expired now s \<and> trim_space (gs_conversationID s) \<noteq> []}"
    by (auto simp: list_active_generation_streams_def Let_def split: option.splits if_splits)
      (metis (mono_tags, lifting) list.set_intros(1) option.simps(5))+
  then show ?thesis using live assms by blast
qed

theorem active_streams_exact_witness:
  "set (fst (list_active_generation_streams 1 7 [''r''] (new_cache\<lparr>streams := [''r'' \<mapsto>
      (fresh_stream 0)\<lparr>gs_ownerID := 7, gs_conversationID := ''c'', gs_activeExpiresAt := 5\<rparr>]\<rparr>)))
   = {(''r'', ''c'')}"
proof -
  let ?c = "new_cache\<lparr>streams := [''r'' \<mapsto>
      (fresh_stream 0)\<lparr>gs_ownerID := 7, gs_conversationID := ''c'', gs_activeExpiresAt := 5\<rparr>]\<rparr>"
  have trim: "trim_space ''c'' = ''c''" by code_simp
  have "dom (streams (maybe_sweep 1 ?c)) \<subseteq> set [''r'']"
    using maybe_sweep_sub(8) [of 1 ?c] by (fastforce split: if_splits)
  from active_streams_exact [OF this, of 7] show ?thesis
    by (auto simp: active_expired_def trim split: if_splits)
qed

text \<open>
  Appending wakes every reader: whichever channel a reader of the run was told to wait on, an
  append to the run closes it, so the reader looks again; and the append itself never panics on
  a closed channel.
\<close>

theorem append_wakes_readers:
  assumes "chan_inv c" and "trim_space runID' = trim_space runID"
    and "read_generation_section t runID afterID limit c = Inl ch"
  shows "\<exists>rec c'. append_generation_stream_event now runID' p d m ttl c = Done (rec, c') \<and> chanClosed c' ch"
proof -
  let ?op = "SAppend now runID' p d m ttl"
  obtain s c1 where e: "ensure_stream runID' c = (s, c1)" by (cases "ensure_stream runID' c")
  note es = ensure_stream_sound [OF assms(1) e]
  obtain c2 where c2: "notify_stream runID' (stream_effect ?op s) c1 = Done c2" "chan_inv c2"
      "chanClosed c2 = (chanClosed c1)(gs_notify s := True)" "streamNotify c2 = streamNotify c1"
    by (rule notify_effect [of c1 runID' s ?op c]) (use es ensured_entry [OF assms(1) e, of ?op] in auto)
  obtain c3 where c3: "notify_generation_streams c2 = Done c3"
      "chanClosed c3 = (chanClosed c2)(streamNotify c2 := True)"
    using notify_generation_streams_sound [OF c2(2)] by blast
  have "ch = streamNotify c \<or> (\<exists>s0. streams c (trim_space runID) = Some s0 \<and> ch = gs_notify s0)"
    using assms(3) by (auto simp: read_generation_section_def Let_def split: option.splits if_splits)
  then have "chanClosed c3 ch" using es c2(3,4) c3(2) assms(2) by auto
  then show ?thesis using e c2(1) c3(1) by (simp add: append_generation_stream_event_def Let_def)
qed

theorem append_wakes_readers_witness:
  "\<exists>rec c'. append_generation_stream_event 2 ''r'' ''p'' [] 10 60 new_cache = Done (rec, c') \<and> chanClosed c' 1"
  by (rule append_wakes_readers [OF chan_inv_new_cache refl, of 1 _ "[]" 0])
    (simp add: read_generation_section_def new_cache_def)

end
