(* ===== verification/Adapters.thy ===== *)
theory Adapters
  imports GoText
begin

text \<open>
  The vocabulary of upstream protocols (\<open>ports/llm/adapter.go\<close>) and the rules that tie
  protocols to kinds of models and to tasks (\<open>application/channel/model_catalog.go\<close>, the kind
  helpers of \<open>service_view_normalization.go\<close>). \<open>encoding/json\<close> is a parameter: \<open>strings_of\<close>
  decodes a JSON array of strings, \<open>defaults_of\<close> an object whose values are strings or null.
\<close>

subsection \<open>Protocols\<close>

definition normalize_adapter :: "string \<Rightarrow> string" where
  "normalize_adapter raw =
     (let value = trim_space (to_lower raw) in if value = [] then ''openai_responses'' else value)"

definition implemented_adapters :: "string list" where
  "implemented_adapters =
     [''openai_responses'', ''openrouter_chat_completions'', ''openrouter_responses'',
      ''openai_chat_completions'', ''openai_image_generations'', ''openai_image_edits'',
      ''anthropic_messages'', ''google_generate_content'', ''google_image_generation'',
      ''gemini_interactions'', ''xai_responses'', ''grok_leader'', ''xai_image'',
      ''xai_image_edits'', ''xai_video'', ''xai_video_extensions'']"

definition is_known_adapter :: "string \<Rightarrow> bool" where
  "is_known_adapter raw \<longleftrightarrow> normalize_adapter raw \<in> set implemented_adapters"

definition is_implemented_adapter :: "string \<Rightarrow> bool" where
  "is_implemented_adapter raw \<longleftrightarrow> normalize_adapter raw \<in> set implemented_adapters"

definition supports_streaming_adapter :: "string \<Rightarrow> bool" where
  "supports_streaming_adapter raw \<longleftrightarrow> normalize_adapter raw \<in> set
     [''openai_responses'', ''openrouter_chat_completions'', ''openrouter_responses'',
      ''openai_chat_completions'', ''openai_image_generations'', ''openai_image_edits'',
      ''anthropic_messages'', ''google_generate_content'', ''google_image_generation'',
      ''gemini_interactions'', ''xai_responses'', ''grok_leader'']"

definition image_generation_model_streams :: "string \<Rightarrow> bool" where
  "image_generation_model_streams model \<longleftrightarrow> has_prefix (to_lower (trim_space model)) ''gpt-image-''"

definition image_edit_model_streams :: "string \<Rightarrow> bool" where
  "image_edit_model_streams model \<longleftrightarrow>
     (let normalized = to_lower (trim_space model)
      in has_prefix normalized ''gpt-image-'' \<or> normalized = ''chatgpt-image-latest'')"

definition supports_image_generation_stream :: "string \<Rightarrow> string \<Rightarrow> bool" where
  "supports_image_generation_stream protocol model \<longleftrightarrow>
     (let p = normalize_adapter protocol
      in if p = ''openai_image_generations'' then image_generation_model_streams model
         else if p = ''google_image_generation'' then True
         else if p = ''gemini_interactions'' then True
         else if p = ''openai_image_edits'' then image_edit_model_streams model
         else False)"

definition is_image_generation_adapter :: "string \<Rightarrow> bool" where
  "is_image_generation_adapter raw \<longleftrightarrow> normalize_adapter raw \<in> set
     [''openai_image_generations'', ''google_image_generation'', ''gemini_interactions'', ''xai_image'']"

definition is_image_edit_adapter :: "string \<Rightarrow> bool" where
  "is_image_edit_adapter raw \<longleftrightarrow> normalize_adapter raw \<in> set
     [''openai_image_edits'', ''google_image_generation'', ''gemini_interactions'', ''xai_image_edits'']"

definition is_video_generation_adapter :: "string \<Rightarrow> bool" where
  "is_video_generation_adapter raw \<longleftrightarrow> normalize_adapter raw \<in> set
     [''gemini_interactions'', ''xai_video'', ''xai_video_extensions'']"

definition supports_previous_response_id :: "string \<Rightarrow> bool" where
  "supports_previous_response_id adapter \<longleftrightarrow>
     normalize_adapter adapter \<in> set [''openai_responses'', ''grok_leader'']"

subsection \<open>Kinds and tasks\<close>

definition protocol_default_kind_order :: "string list" where
  "protocol_default_kind_order =
     [''chat'', ''audio'', ''image_gen'', ''image_edit'', ''video_gen'', ''video_extension'']"

definition normalize_compatible :: "string \<Rightarrow> string" where
  "normalize_compatible raw =
     (let value = trim_space (to_lower raw)
      in if value \<in> set [''anthropic'', ''google'', ''xai'', ''grok'', ''openrouter'', ''custom''] then value
         else if value = [] \<or> value = ''openai'' then ''openai''
         else [])"

definition known_protocols :: "string list" where
  "known_protocols =
     [''openai_responses'', ''openrouter_chat_completions'', ''openrouter_responses'',
      ''openai_chat_completions'', ''anthropic_messages'', ''google_generate_content'',
      ''xai_responses'', ''grok_leader'', ''openai_image_generations'', ''openai_image_edits'',
      ''openai_video_generations'', ''google_image_generation'', ''gemini_interactions'',
      ''xai_image'', ''xai_image_edits'', ''xai_video'', ''xai_video_extensions'']"

definition is_known_protocol :: "string \<Rightarrow> bool" where
  "is_known_protocol raw \<longleftrightarrow> trim_space (to_lower raw) \<in> set known_protocols"

definition kind_protocols :: "string \<Rightarrow> string list" where
  "kind_protocols kind =
     (if kind = ''chat'' then
        [''openai_responses'', ''openrouter_chat_completions'', ''openrouter_responses'',
         ''openai_chat_completions'', ''anthropic_messages'', ''google_generate_content'',
         ''gemini_interactions'', ''xai_responses'', ''grok_leader'']
      else if kind = ''audio'' then
        [''openai_responses'', ''openrouter_chat_completions'', ''openrouter_responses'',
         ''openai_chat_completions'', ''anthropic_messages'', ''google_generate_content'',
         ''xai_responses'']
      else if kind = ''image_gen'' then
        [''openai_image_generations'', ''google_image_generation'', ''gemini_interactions'', ''xai_image'']
      else if kind = ''image_edit'' then
        [''openai_image_edits'', ''google_image_generation'', ''gemini_interactions'', ''xai_image_edits'']
      else if kind = ''video_gen'' then
        [''openai_video_generations'', ''gemini_interactions'', ''xai_video'']
      else if kind = ''video_extension'' then [''xai_video_extensions'']
      else [])"

definition is_protocol_allowed_for_kind :: "string \<Rightarrow> string \<Rightarrow> bool" where
  "is_protocol_allowed_for_kind kind protocol \<longleftrightarrow> protocol \<in> set (kind_protocols kind)"

definition fallback_list :: "string \<Rightarrow> (string \<times> string) list" where
  "fallback_list v =
     (if v = ''openai'' then 
           [(''chat'', ''openai_chat_completions''), (''audio'', ''openai_chat_completions''),
            (''image_gen'', ''openai_image_generations''), (''image_edit'', ''openai_image_edits''),
            (''video_gen'', ''openai_video_generations'')]
         else if v = ''anthropic'' then 
           [(''chat'', ''anthropic_messages''), (''audio'', ''anthropic_messages'')]
         else if v = ''google'' then 
           [(''chat'', ''google_generate_content''), (''audio'', ''google_generate_content''),
            (''image_gen'', ''google_image_generation''), (''image_edit'', ''google_image_generation''),
            (''video_gen'', ''gemini_interactions'')]
         else if v = ''xai'' then 
           [(''chat'', ''xai_responses''), (''audio'', ''xai_responses''), (''image_gen'', ''xai_image''),
            (''image_edit'', ''xai_image_edits''), (''video_gen'', ''xai_video''),
            (''video_extension'', ''xai_video_extensions'')]
         else if v = ''grok'' then [(''chat'', ''grok_leader'')]
         else if v = ''openrouter'' then 
           [(''chat'', ''openrouter_responses''), (''audio'', ''openrouter_responses''),
            (''image_gen'', ''openai_image_generations''), (''image_edit'', ''openai_image_edits''),
            (''video_gen'', ''openai_video_generations'')]
         else if v = ''custom'' then 
           [(''chat'', ''openai_chat_completions''), (''audio'', ''openai_chat_completions''),
            (''image_gen'', ''openai_image_generations''), (''image_edit'', ''openai_image_edits'')]
         else [])"

definition system_fallback_protocols :: "string \<Rightarrow> string \<rightharpoonup> string" where
  "system_fallback_protocols compatible = map_of (fallback_list (normalize_compatible compatible))"

fun normalize_kind_loop :: "string list \<Rightarrow> string list \<Rightarrow> string list \<Rightarrow> string list" where
  "normalize_kind_loop [] seen results = results"
| "normalize_kind_loop (kind # kinds) seen results =
     (let value = trim_space (to_lower kind)
      in if value = [] then normalize_kind_loop kinds seen results
         else if value \<in> set seen then normalize_kind_loop kinds seen results
         else normalize_kind_loop kinds (value # seen) (results @ [value]))"

definition normalize_kind_list :: "string list \<Rightarrow> string list" where
  "normalize_kind_list kinds = normalize_kind_loop kinds [] []"

definition parse_kinds :: "(string \<Rightarrow> string list option) \<Rightarrow> string \<Rightarrow> string list" where
  "parse_kinds strings_of raw =
     (let value = trim_space raw
      in if value = [] then []
         else if has_prefix value ''['' \<and> strings_of value \<noteq> None
         then normalize_kind_list (the (strings_of value))
         else normalize_kind_list [value])"

definition has_model_kind :: "string list \<Rightarrow> string \<Rightarrow> bool" where
  "has_model_kind kinds target \<longleftrightarrow> target \<in> set kinds"

definition validate_kinds :: "string list \<Rightarrow> bool" where
  "validate_kinds kinds \<longleftrightarrow>
     kinds \<noteq> [] \<and> list_all (\<lambda>kind. kind \<in> set protocol_default_kind_order) kinds"

definition primary_kind_from_kinds :: "(string \<Rightarrow> string list option) \<Rightarrow> string \<Rightarrow> string" where
  "primary_kind_from_kinds strings_of kindsJSON =
     (let kinds = parse_kinds strings_of kindsJSON
      in case find (\<lambda>candidate. candidate \<in> set kinds) protocol_default_kind_order of
           None \<Rightarrow> [] | Some kind \<Rightarrow> kind)"

definition is_protocol_allowed_for_kinds :: "(string \<Rightarrow> string list option) \<Rightarrow> string \<Rightarrow> string \<Rightarrow> bool" where
  "is_protocol_allowed_for_kinds strings_of kindsJSON protocol =
     (let kinds = parse_kinds strings_of kindsJSON
      in kinds = [] \<or> list_ex (\<lambda>kind. is_protocol_allowed_for_kind kind protocol) kinds)"

definition normalize_task_type :: "string \<Rightarrow> string" where
  "normalize_task_type raw =
     (let value = trim_space (to_lower raw)
      in if value \<in> set [''image_generation'', ''image_edit'', ''video_generation'', ''video_extension'']
         then value else ''chat'')"

definition is_route_allowed_for_task ::
  "(string \<Rightarrow> string list option) \<Rightarrow> string \<Rightarrow> string \<Rightarrow> string \<Rightarrow> bool" where
  "is_route_allowed_for_task strings_of taskType kindsJSON protocol =
     (let kinds = parse_kinds strings_of kindsJSON;
          p = trim_space (to_lower protocol);
          task = normalize_task_type taskType
      in if kinds = [] then
           (if task = ''image_generation'' then is_protocol_allowed_for_kind ''image_gen'' p
            else if task = ''image_edit'' then is_protocol_allowed_for_kind ''image_edit'' p
            else if task = ''video_generation''
            then is_protocol_allowed_for_kind ''video_gen'' p \<and> p \<noteq> ''xai_video_extensions''
            else if task = ''video_extension'' then is_protocol_allowed_for_kind ''video_extension'' p
            else is_protocol_allowed_for_kind ''chat'' p \<or> is_protocol_allowed_for_kind ''audio'' p)
         else if task = ''image_generation''
         then has_model_kind kinds ''image_gen'' \<and> is_protocol_allowed_for_kind ''image_gen'' p
         else if task = ''image_edit''
         then has_model_kind kinds ''image_edit'' \<and> is_protocol_allowed_for_kind ''image_edit'' p
         else if task = ''video_generation''
         then has_model_kind kinds ''video_gen'' \<and> is_protocol_allowed_for_kind ''video_gen'' p
              \<and> p \<noteq> ''xai_video_extensions''
         else if task = ''video_extension''
         then has_model_kind kinds ''video_extension'' \<and> is_protocol_allowed_for_kind ''video_extension'' p
         else list_ex (\<lambda>kind. (kind = ''chat'' \<or> kind = ''audio'')
                              \<and> is_protocol_allowed_for_kind kind p) kinds)"

subsection \<open>Resolving the protocol of a binding\<close>

datatype adapter_err = ErrInvalidAdapter | ErrProtocolRequired | ErrInvalidRouteProtocolCombination

type_synonym defaults_decoder = "string \<Rightarrow> (string \<rightharpoonup> string option) option"

definition protocol_default_for_kind :: "defaults_decoder \<Rightarrow> string \<Rightarrow> string \<Rightarrow> string" where
  "protocol_default_for_kind defaults_of defaultsJSON kind =
     (case defaults_of (trim_space defaultsJSON) of
        None \<Rightarrow> []
      | Some defaults \<Rightarrow>
          (case defaults kind of
             Some (Some value) \<Rightarrow>
               let protocol = trim_space (to_lower value)
               in if \<not> is_known_protocol protocol then []
                  else if \<not> is_protocol_allowed_for_kind kind protocol then []
                  else protocol
           | _ \<Rightarrow> []))"

definition default_route_protocol_for_kind ::
  "defaults_decoder \<Rightarrow> string \<Rightarrow> string \<Rightarrow> string \<Rightarrow> string" where
  "default_route_protocol_for_kind defaults_of upCompatible defaultsJSON kind =
     (let protocol = protocol_default_for_kind defaults_of defaultsJSON kind
      in if protocol \<noteq> [] then protocol else get_or [] (system_fallback_protocols upCompatible) kind)"

definition route_protocol_supports_all_kinds :: "string \<Rightarrow> string list \<Rightarrow> bool" where
  "route_protocol_supports_all_kinds protocol kinds \<longleftrightarrow>
     list_all (\<lambda>kind. is_protocol_allowed_for_kind kind protocol) kinds \<and> kinds \<noteq> []"

definition unified_protocol_for_multi_kind_route ::
  "(string \<Rightarrow> string list option) \<Rightarrow> defaults_decoder \<Rightarrow> string \<Rightarrow> string \<Rightarrow> string \<Rightarrow> string" where
  "unified_protocol_for_multi_kind_route strings_of defaults_of upCompatible defaultsJSON kindsJSON =
     (let kinds = parse_kinds strings_of kindsJSON
      in if length kinds \<le> 1 \<or> \<not> has_model_kind kinds ''video_gen'' then []
         else let protocol = default_route_protocol_for_kind defaults_of upCompatible defaultsJSON ''video_gen''
              in if protocol = [] \<or> \<not> route_protocol_supports_all_kinds protocol kinds then []
                 else protocol)"

definition resolve_route_protocol ::
  "(string \<Rightarrow> string list option) \<Rightarrow> defaults_decoder \<Rightarrow> string \<Rightarrow> string \<Rightarrow> string \<Rightarrow> string
     \<Rightarrow> adapter_err + string" where
  "resolve_route_protocol strings_of defaults_of explicit upCompatible defaultsJSON kindsJSON =
     (let kind = primary_kind_from_kinds strings_of kindsJSON;
          protocol = trim_space (to_lower explicit)
      in if protocol \<noteq> [] then
           (if \<not> is_known_protocol protocol then Inl ErrInvalidAdapter
            else if \<not> is_protocol_allowed_for_kinds strings_of kindsJSON protocol then Inl ErrInvalidAdapter
            else Inr protocol)
         else if kind = [] then Inl ErrProtocolRequired
         else
           let unified = unified_protocol_for_multi_kind_route strings_of defaults_of upCompatible
                           defaultsJSON kindsJSON;
               default = protocol_default_for_kind defaults_of defaultsJSON kind;
               fallback = get_or [] (system_fallback_protocols upCompatible) kind
           in if unified \<noteq> [] then Inr unified
              else if default \<noteq> [] then Inr default
              else if fallback \<noteq> [] then Inr fallback
              else Inl ErrProtocolRequired)"

definition unique_route_protocols :: "string list \<Rightarrow> string list" where
  "unique_route_protocols values = normalize_kind_loop values [] []"

definition is_supported_route_protocol_combination :: "string list \<Rightarrow> bool" where
  "is_supported_route_protocol_combination protocols =
     (let seen = normalize_kind_loop protocols [] []
      in if length seen \<le> 1 then True
         else if length seen \<noteq> 2 then False
         else if ''openai_image_generations'' \<in> set seen \<and> ''openai_image_edits'' \<in> set seen then True
         else if ''xai_image'' \<in> set seen \<and> ''xai_image_edits'' \<in> set seen then True
         else ''xai_video'' \<in> set seen \<and> ''xai_video_extensions'' \<in> set seen)"

fun explicit_protocols_loop ::
  "(string \<Rightarrow> adapter_err + string) \<Rightarrow> string list \<Rightarrow> string list \<Rightarrow> string list
     \<Rightarrow> adapter_err + string list" where
  "explicit_protocols_loop resolve [] seen protocols = Inr protocols"
| "explicit_protocols_loop resolve (raw # raws) seen protocols =
     (let value = trim_space (to_lower raw)
      in if value = [] then explicit_protocols_loop resolve raws seen protocols
         else case resolve value of
           Inl e \<Rightarrow> Inl e
         | Inr protocol \<Rightarrow>
             if protocol \<in> set seen then explicit_protocols_loop resolve raws seen protocols
             else explicit_protocols_loop resolve raws (protocol # seen) (protocols @ [protocol]))"

definition resolve_route_protocols ::
  "(string \<Rightarrow> string list option) \<Rightarrow> defaults_decoder \<Rightarrow> string list \<Rightarrow> string \<Rightarrow> string \<Rightarrow> string
     \<Rightarrow> adapter_err + string list" where
  "resolve_route_protocols strings_of defaults_of explicit upCompatible defaultsJSON kindsJSON =
     (case explicit_protocols_loop
             (\<lambda>value. resolve_route_protocol strings_of defaults_of value upCompatible defaultsJSON kindsJSON)
             explicit [] [] of
        Inl e \<Rightarrow> Inl e
      | Inr protocols \<Rightarrow>
          if protocols \<noteq> [] then
            (if \<not> is_supported_route_protocol_combination protocols
             then Inl ErrInvalidRouteProtocolCombination else Inr protocols)
          else
            let kinds = parse_kinds strings_of kindsJSON;
                unified = unified_protocol_for_multi_kind_route strings_of defaults_of upCompatible
                            defaultsJSON kindsJSON;
                default_for = default_route_protocol_for_kind defaults_of upCompatible defaultsJSON;
                pair = unique_route_protocols [default_for ''image_gen'', default_for ''image_edit'']
            in if unified \<noteq> [] then Inr [unified]
               else if has_model_kind kinds ''image_gen'' \<and> has_model_kind kinds ''image_edit''
                       \<and> default_for ''image_gen'' \<noteq> [] \<and> default_for ''image_edit'' \<noteq> []
                       \<and> is_supported_route_protocol_combination pair
               then Inr pair
               else if has_model_kind kinds ''video_gen'' \<and> has_model_kind kinds ''video_extension''
                       \<and> normalize_compatible upCompatible = ''xai'' \<and> default_for ''video_gen'' = ''xai_video''
               then Inr [''xai_video'', ''xai_video_extensions'']
               else case resolve_route_protocol strings_of defaults_of [] upCompatible defaultsJSON kindsJSON of
                 Inl e \<Rightarrow> Inl e
               | Inr protocol \<Rightarrow> Inr [protocol])"

subsection \<open>What a resolved protocol is good for\<close>

definition good_protocol :: "string list \<Rightarrow> string \<Rightarrow> bool" where
  "good_protocol kinds p \<longleftrightarrow> is_known_protocol p
     \<and> (kinds = [] \<or> (\<exists>kind \<in> set kinds. is_protocol_allowed_for_kind kind p))"

lemma known_protocols_names: "list_all (list_all name_byte) known_protocols \<and> [] \<notin> set known_protocols"
  unfolding known_protocols_def by code_simp

lemma known_protocol_normal:
  assumes "p \<in> set known_protocols"
  shows "trim_space (to_lower p) = p \<and> is_known_protocol p \<and> p \<noteq> []"
proof -
  have "list_all name_byte p" "p \<noteq> []" using assms known_protocols_names by (auto simp: list_all_iff)
  then have "trim_space (to_lower p) = p" by (rule trim_lower_name)
  then show ?thesis using assms \<open>p \<noteq> []\<close> by (simp add: is_known_protocol_def)
qed

lemma kind_protocols_known: "set (kind_protocols k) \<subseteq> set known_protocols"
  unfolding kind_protocols_def known_protocols_def
  by (simp only: set_simps insert_subset insert_iff empty_subsetI refl simp_thms split: if_split)

lemma fallback_list_allowed:
  "list_all (\<lambda>(k, p). is_protocol_allowed_for_kind k p) (fallback_list v)"
proof -
  have "list_all (\<lambda>v. list_all (\<lambda>(k, p). is_protocol_allowed_for_kind k p) (fallback_list v))
      [''openai'', ''anthropic'', ''google'', ''xai'', ''grok'', ''openrouter'', ''custom'']"
    by code_simp
  moreover have "fallback_list v = []"
    if "v \<notin> set [''openai'', ''anthropic'', ''google'', ''xai'', ''grok'', ''openrouter'', ''custom'']"
    using that by (simp only: fallback_list_def set_simps insert_iff empty_iff de_Morgan_disj simp_thms if_False)
  ultimately show ?thesis unfolding list_all_iff by (metis empty_iff set_empty2)
qed

lemma allowed_is_normal:
  "is_protocol_allowed_for_kind k p \<Longrightarrow> trim_space (to_lower p) = p \<and> is_known_protocol p \<and> p \<noteq> []"
  using kind_protocols_known known_protocol_normal unfolding is_protocol_allowed_for_kind_def by blast

lemma system_fallback_good:
  "system_fallback_protocols c k = Some p \<Longrightarrow> is_protocol_allowed_for_kind k p"
  using fallback_list_allowed unfolding system_fallback_protocols_def list_all_iff
  by (blast dest: map_of_SomeD)

lemma protocol_default_good:
  "protocol_default_for_kind defaults_of d k = p \<Longrightarrow> p \<noteq> [] \<Longrightarrow> is_protocol_allowed_for_kind k p"
  by (auto simp: protocol_default_for_kind_def Let_def split: option.splits if_splits)

lemma default_route_protocol_good:
  "default_route_protocol_for_kind defaults_of c d k = p \<Longrightarrow> p \<noteq> [] \<Longrightarrow> is_protocol_allowed_for_kind k p"
  using protocol_default_good system_fallback_good
  by (auto simp: default_route_protocol_for_kind_def Let_def get_or_def split: if_splits option.splits)

lemma good_protocolI:
  "kind \<in> set kinds \<Longrightarrow> is_protocol_allowed_for_kind kind p \<Longrightarrow> good_protocol kinds p"
  using allowed_is_normal by (auto simp: good_protocol_def)

lemma unified_good:
  assumes "unified_protocol_for_multi_kind_route strings_of defaults_of c d k = p" and "p \<noteq> []"
  shows "good_protocol (parse_kinds strings_of k) p"
  using assms default_route_protocol_good good_protocolI
  by (auto simp: unified_protocol_for_multi_kind_route_def Let_def has_model_kind_def split: if_splits)

lemma find_some_in: "find P xs = Some x \<Longrightarrow> x \<in> set xs \<and> P x"
  by (induction xs) (auto split: if_splits)

lemma primary_kind_in:
  "primary_kind_from_kinds strings_of k = kind \<Longrightarrow> kind \<noteq> [] \<Longrightarrow> kind \<in> set (parse_kinds strings_of k)"
  by (auto simp: primary_kind_from_kinds_def Let_def dest: find_some_in split: option.splits)

lemma resolve_route_protocol_good:
  assumes "resolve_route_protocol strings_of defaults_of e c d k = Inr p"
  shows "good_protocol (parse_kinds strings_of k) p \<and> p \<noteq> []"
proof (cases "trim_space (to_lower e) = []")
  case False
  then show ?thesis using assms
    by (auto simp: resolve_route_protocol_def Let_def good_protocol_def is_protocol_allowed_for_kinds_def
        list_ex_iff split: if_splits)
next
  case True
  let ?kind = "primary_kind_from_kinds strings_of k"
  have kind: "?kind \<noteq> []" "?kind \<in> set (parse_kinds strings_of k)"
    using assms True primary_kind_in by (auto simp: resolve_route_protocol_def Let_def split: if_splits)
  have "get_or [] (system_fallback_protocols c) ?kind = p \<Longrightarrow> p \<noteq> [] \<Longrightarrow> is_protocol_allowed_for_kind ?kind p"
    using system_fallback_good by (auto simp: get_or_def split: option.splits)
  then show ?thesis
    using assms True kind unified_good protocol_default_good good_protocolI
    by (auto simp: resolve_route_protocol_def Let_def split: if_splits)
qed

lemma explicit_protocols_loop_good:
  assumes "explicit_protocols_loop resolve raws seen ps = Inr qs"
    and "\<And>v p. resolve v = Inr p \<Longrightarrow> P p" and "\<forall>p \<in> set ps. P p"
  shows "\<forall>p \<in> set qs. P p"
  using assms(1,3)
  by (induction raws arbitrary: seen ps) (auto simp: Let_def assms(2) split: if_splits sum.splits)

lemma single_combination: "is_supported_route_protocol_combination [p]"
  by (simp add: is_supported_route_protocol_combination_def Let_def)

lemma unique_pair:
  assumes "is_protocol_allowed_for_kind k a" and "is_protocol_allowed_for_kind k' b"
  shows "unique_route_protocols [a, b] = (if a = b then [a] else [a, b])"
  using allowed_is_normal [OF assms(1)] allowed_is_normal [OF assms(2)]
  by (simp add: unique_route_protocols_def Let_def)

text \<open>
  Every binding gets protocols that can serve it: when the resolution of a model binding
  succeeds, explicitly or through the defaults of the upstream or the built-in table, it gives at
  least one protocol, each one known and allowed for one of the kinds of the model, and together
  a supported combination (one protocol, or generation with its edit or extension partner).
\<close>

theorem resolved_protocols_serve_kinds:
  assumes "resolve_route_protocols strings_of defaults_of explicit c d k = Inr ps"
  shows "ps \<noteq> [] \<and> (\<forall>p \<in> set ps. good_protocol (parse_kinds strings_of k) p)
    \<and> is_supported_route_protocol_combination ps"
proof -
  let ?kinds = "parse_kinds strings_of k" and ?def = "default_route_protocol_for_kind defaults_of c d"
  let ?resolve = "\<lambda>v. resolve_route_protocol strings_of defaults_of v c d k"
  obtain qs where qs: "explicit_protocols_loop ?resolve explicit [] [] = Inr qs"
    using assms by (auto simp: resolve_route_protocols_def split: sum.splits)
  have good_qs: "\<forall>p \<in> set qs. good_protocol ?kinds p"
    by (rule explicit_protocols_loop_good [OF qs]) (auto dest: resolve_route_protocol_good)
  have xai: "is_supported_route_protocol_combination [''xai_video'', ''xai_video_extensions'']"
      "is_protocol_allowed_for_kind ''video_extension'' ''xai_video_extensions''"
      "is_protocol_allowed_for_kind ''video_gen'' ''xai_video''"
    by code_simp+
  have pair: "unique_route_protocols [?def ''image_gen'', ?def ''image_edit''] \<noteq> []
      \<and> (\<forall>p \<in> set (unique_route_protocols [?def ''image_gen'', ?def ''image_edit'']). good_protocol ?kinds p)"
    if "has_model_kind ?kinds ''image_gen''" "has_model_kind ?kinds ''image_edit''"
      "?def ''image_gen'' \<noteq> []" "?def ''image_edit'' \<noteq> []"
  proof -
    have "is_protocol_allowed_for_kind ''image_gen'' (?def ''image_gen'')"
        "is_protocol_allowed_for_kind ''image_edit'' (?def ''image_edit'')"
      using that(3,4) default_route_protocol_good by blast+
    then show ?thesis using that(1,2) unique_pair good_protocolI
      by (auto simp: has_model_kind_def)
  qed
  show ?thesis
    using assms qs good_qs xai pair unified_good resolve_route_protocol_good single_combination good_protocolI
    by (auto simp: resolve_route_protocols_def Let_def has_model_kind_def split: if_splits sum.splits)
qed

theorem resolved_protocols_serve_kinds_witness:
  "good_protocol [''image_gen'', ''image_edit''] ''xai_image_edits''"
proof -
  let ?strings = "\<lambda>_. Some [''image_gen'', ''image_edit'']" and ?defaults = "\<lambda>_. None"
  have "resolve_route_protocols ?strings ?defaults [] ''xai'' [] ''[]'' = Inr [''xai_image'', ''xai_image_edits'']"
    and kinds: "parse_kinds ?strings ''[]'' = [''image_gen'', ''image_edit'']"
    by code_simp+
  from resolved_protocols_serve_kinds [OF this(1)] show ?thesis by (simp add: kinds)
qed

end
