(* ===== verification/Breaker.thy ===== *)
theory Breaker
  imports GoText
begin

text \<open>
  The global defaults of the circuit breaker: validation (\<open>domain/channel/breaker_defaults.go\<close>),
  the stored JSON contract (\<open>shared/channelconfig/breaker_defaults.go\<close>) and the short cache the
  routing hot path reads them through (\<open>loadBreakerDefaults\<close>, \<open>storeBreakerDefaults\<close> in
  \<open>application/channel/service_routing.go\<close>). The JSON decoder and encoder are parameters.
\<close>

subsection \<open>Defaults and their validation\<close>

record breaker_defaults =
  bd_Enabled :: bool
  bd_ModelFailureThreshold :: int
  bd_ModelDurationMin :: int
  bd_ModelWindowMin :: int
  bd_UpstreamFailureThreshold :: int
  bd_UpstreamModelThreshold :: int
  bd_UpstreamThresholdLogic :: string
  bd_UpstreamDurationMin :: int
  bd_UpstreamWindowMin :: int

definition zero_breaker_defaults :: breaker_defaults where
  "zero_breaker_defaults =
     \<lparr>bd_Enabled = False, bd_ModelFailureThreshold = 0, bd_ModelDurationMin = 0,
      bd_ModelWindowMin = 0, bd_UpstreamFailureThreshold = 0, bd_UpstreamModelThreshold = 0,
      bd_UpstreamThresholdLogic = [], bd_UpstreamDurationMin = 0, bd_UpstreamWindowMin = 0\<rparr>"

definition default_breaker_defaults :: breaker_defaults where
  "default_breaker_defaults =
     \<lparr>bd_Enabled = False, bd_ModelFailureThreshold = 5, bd_ModelDurationMin = 15,
      bd_ModelWindowMin = 3, bd_UpstreamFailureThreshold = 20, bd_UpstreamModelThreshold = 3,
      bd_UpstreamThresholdLogic = ''or'', bd_UpstreamDurationMin = 30, bd_UpstreamWindowMin = 5\<rparr>"

definition max_minutes :: int where
  "max_minutes = go_div (2 ^ 63 - 1) 60"

definition breaker_defaults_valid :: "breaker_defaults \<Rightarrow> bool" where
  "breaker_defaults_valid d \<longleftrightarrow>
     (if list_ex (\<lambda>value. value < 0)
           [bd_ModelFailureThreshold d, bd_ModelDurationMin d, bd_ModelWindowMin d,
            bd_UpstreamFailureThreshold d, bd_UpstreamModelThreshold d,
            bd_UpstreamDurationMin d, bd_UpstreamWindowMin d] then False
      else if list_ex (\<lambda>value. max_minutes < value)
           [bd_ModelDurationMin d, bd_ModelWindowMin d, bd_UpstreamDurationMin d,
            bd_UpstreamWindowMin d] then False
      else let logic = trim_space (bd_UpstreamThresholdLogic d)
           in logic = [] \<or> logic = ''and'' \<or> logic = ''or'')"

subsection \<open>The stored document\<close>

record breaker_defaults_input =
  bi_Enabled :: "bool option"
  bi_ModelFailureThreshold :: "int option"
  bi_ModelDurationMin :: "int option"
  bi_ModelWindowMin :: "int option"
  bi_UpstreamFailureThreshold :: "int option"
  bi_UpstreamModelThreshold :: "int option"
  bi_UpstreamThresholdLogic :: "string option"
  bi_UpstreamDurationMin :: "int option"
  bi_UpstreamWindowMin :: "int option"

datatype breaker_config_err = ErrInvalidBreakerDefaults

definition breaker_default_keys :: "string list" where
  "breaker_default_keys =
     [''enabled'', ''model_failure_threshold'', ''model_duration_min'', ''model_window_min'',
      ''upstream_failure_threshold'', ''upstream_model_threshold'', ''upstream_threshold_logic'',
      ''upstream_duration_min'', ''upstream_window_min'']"

definition value_or_zero :: "int option \<Rightarrow> int" where
  "value_or_zero value = (case value of None \<Rightarrow> 0 | Some v \<Rightarrow> v)"

definition apply_positive :: "int \<Rightarrow> int option \<Rightarrow> int" where
  "apply_positive target value = (case value of None \<Rightarrow> target | Some v \<Rightarrow> if 0 < v then v else target)"

definition given_breaker_defaults :: "breaker_defaults_input \<Rightarrow> breaker_defaults" where
  "given_breaker_defaults input =
     \<lparr>bd_Enabled = False,
      bd_ModelFailureThreshold = value_or_zero (bi_ModelFailureThreshold input),
      bd_ModelDurationMin = value_or_zero (bi_ModelDurationMin input),
      bd_ModelWindowMin = value_or_zero (bi_ModelWindowMin input),
      bd_UpstreamFailureThreshold = value_or_zero (bi_UpstreamFailureThreshold input),
      bd_UpstreamModelThreshold = value_or_zero (bi_UpstreamModelThreshold input),
      bd_UpstreamThresholdLogic = (case bi_UpstreamThresholdLogic input of None \<Rightarrow> [] | Some l \<Rightarrow> l),
      bd_UpstreamDurationMin = value_or_zero (bi_UpstreamDurationMin input),
      bd_UpstreamWindowMin = value_or_zero (bi_UpstreamWindowMin input)\<rparr>"

definition filled_breaker_defaults :: "breaker_defaults_input \<Rightarrow> breaker_defaults" where
  "filled_breaker_defaults input =
     (let d = default_breaker_defaults
      in \<lparr>bd_Enabled = (case bi_Enabled input of None \<Rightarrow> bd_Enabled d | Some b \<Rightarrow> b),
          bd_ModelFailureThreshold = apply_positive (bd_ModelFailureThreshold d) (bi_ModelFailureThreshold input),
          bd_ModelDurationMin = apply_positive (bd_ModelDurationMin d) (bi_ModelDurationMin input),
          bd_ModelWindowMin = apply_positive (bd_ModelWindowMin d) (bi_ModelWindowMin input),
          bd_UpstreamFailureThreshold =
            apply_positive (bd_UpstreamFailureThreshold d) (bi_UpstreamFailureThreshold input),
          bd_UpstreamModelThreshold =
            apply_positive (bd_UpstreamModelThreshold d) (bi_UpstreamModelThreshold input),
          bd_UpstreamThresholdLogic =
            (case bi_UpstreamThresholdLogic input of
               None \<Rightarrow> bd_UpstreamThresholdLogic d
             | Some l \<Rightarrow> if trim_space l \<noteq> [] then trim_space l else bd_UpstreamThresholdLogic d),
          bd_UpstreamDurationMin = apply_positive (bd_UpstreamDurationMin d) (bi_UpstreamDurationMin input),
          bd_UpstreamWindowMin = apply_positive (bd_UpstreamWindowMin d) (bi_UpstreamWindowMin input)\<rparr>)"

text \<open>
  \<open>object_of\<close> decodes a JSON object into the raw texts of its members (\<open>None\<close> on an error and for
  \<open>null\<close>), \<open>input_of\<close> into the struct of pointers.
\<close>

definition parse_breaker_defaults ::
  "(string \<Rightarrow> (string \<rightharpoonup> string) option) \<Rightarrow> (string \<Rightarrow> breaker_defaults_input option) \<Rightarrow> string
     \<Rightarrow> breaker_config_err + breaker_defaults" where
  "parse_breaker_defaults object_of input_of doc =
     (case object_of doc of
        None \<Rightarrow> Inl ErrInvalidBreakerDefaults
      | Some object \<Rightarrow>
          (case input_of doc of
             None \<Rightarrow> Inl ErrInvalidBreakerDefaults
           | Some input \<Rightarrow>
               if list_ex (\<lambda>key. case object key of None \<Rightarrow> False | Some raw \<Rightarrow> trim_space raw = ''null'')
                    breaker_default_keys
               then Inl ErrInvalidBreakerDefaults
               else if \<not> breaker_defaults_valid (given_breaker_defaults input)
               then Inl ErrInvalidBreakerDefaults
               else Inr (filled_breaker_defaults input)))"

text \<open>\<open>encode\<close> is \<open>json.Marshal\<close> on a struct of scalars: its members in order, under their tags.\<close>

datatype json_scalar = JBool bool | JInt int | JString string

definition breaker_document :: "breaker_defaults \<Rightarrow> (string \<times> json_scalar) list" where
  "breaker_document d =
     [(''enabled'', JBool (bd_Enabled d)),
      (''model_failure_threshold'', JInt (bd_ModelFailureThreshold d)),
      (''model_duration_min'', JInt (bd_ModelDurationMin d)),
      (''model_window_min'', JInt (bd_ModelWindowMin d)),
      (''upstream_failure_threshold'', JInt (bd_UpstreamFailureThreshold d)),
      (''upstream_model_threshold'', JInt (bd_UpstreamModelThreshold d)),
      (''upstream_threshold_logic'', JString (bd_UpstreamThresholdLogic d)),
      (''upstream_duration_min'', JInt (bd_UpstreamDurationMin d)),
      (''upstream_window_min'', JInt (bd_UpstreamWindowMin d))]"

definition marshal_breaker_defaults ::
  "((string \<times> json_scalar) list \<Rightarrow> string option) \<Rightarrow> breaker_defaults \<Rightarrow> string option" where
  "marshal_breaker_defaults encode defaults = encode (breaker_document defaults)"

text \<open>What a decoder that undoes \<open>encode\<close> reads: the members back under their tags.\<close>

definition scalar_bool :: "json_scalar option \<Rightarrow> bool option" where
  "scalar_bool v = (case v of Some (JBool b) \<Rightarrow> Some b | _ \<Rightarrow> None)"

definition scalar_int :: "json_scalar option \<Rightarrow> int option" where
  "scalar_int v = (case v of Some (JInt n) \<Rightarrow> Some n | _ \<Rightarrow> None)"

definition scalar_string :: "json_scalar option \<Rightarrow> string option" where
  "scalar_string v = (case v of Some (JString s) \<Rightarrow> Some s | _ \<Rightarrow> None)"

definition input_of_members :: "(string \<times> json_scalar) list \<Rightarrow> breaker_defaults_input" where
  "input_of_members members =
     (let m = map_of members
      in \<lparr>bi_Enabled = scalar_bool (m ''enabled''),
          bi_ModelFailureThreshold = scalar_int (m ''model_failure_threshold''),
          bi_ModelDurationMin = scalar_int (m ''model_duration_min''),
          bi_ModelWindowMin = scalar_int (m ''model_window_min''),
          bi_UpstreamFailureThreshold = scalar_int (m ''upstream_failure_threshold''),
          bi_UpstreamModelThreshold = scalar_int (m ''upstream_model_threshold''),
          bi_UpstreamThresholdLogic = scalar_string (m ''upstream_threshold_logic''),
          bi_UpstreamDurationMin = scalar_int (m ''upstream_duration_min''),
          bi_UpstreamWindowMin = scalar_int (m ''upstream_window_min'')\<rparr>)"

subsection \<open>The short cache of the defaults\<close>

definition breaker_defaults_cache_ttl :: duration where
  "breaker_defaults_cache_ttl = 5 * second"

definition breaker_defaults_error_retry_ttl :: duration where
  "breaker_defaults_error_retry_ttl = second"

record breaker_cell =
  bc_breakerDefaults :: breaker_defaults
  bc_loaded :: bool
  bc_validUntil :: gotime

definition zero_breaker_cell :: breaker_cell where
  "zero_breaker_cell = \<lparr>bc_breakerDefaults = zero_breaker_defaults, bc_loaded = False, bc_validUntil = 0\<rparr>"

text \<open>
  The second look under the write lock reads the same cell here: nothing runs in between when the
  two are one step. \<open>stored\<close> is what the repository answers to \<open>GetBreakerDefaults\<close>.
\<close>

definition load_breaker_defaults ::
  "gotime \<Rightarrow> 'e + breaker_defaults \<Rightarrow> breaker_cell \<Rightarrow> breaker_defaults \<times> breaker_cell" where
  "load_breaker_defaults now stored cell =
     (if before now (bc_validUntil cell) then (bc_breakerDefaults cell, cell)
      else case stored of
        Inl e \<Rightarrow>
          ((if bc_loaded cell then bc_breakerDefaults cell else zero_breaker_defaults),
           cell\<lparr>bc_validUntil := now + breaker_defaults_error_retry_ttl\<rparr>)
      | Inr cfg \<Rightarrow>
          (cfg, cell\<lparr>bc_breakerDefaults := cfg, bc_loaded := True,
                     bc_validUntil := now + breaker_defaults_cache_ttl\<rparr>))"

definition store_breaker_defaults :: "gotime \<Rightarrow> breaker_defaults \<Rightarrow> breaker_cell \<Rightarrow> breaker_cell" where
  "store_breaker_defaults now cfg cell =
     cell\<lparr>bc_breakerDefaults := cfg, bc_loaded := True, bc_validUntil := now + breaker_defaults_cache_ttl\<rparr>"

subsection \<open>What parsing promises\<close>

definition usable_breaker_defaults :: "breaker_defaults \<Rightarrow> bool" where
  "usable_breaker_defaults d \<longleftrightarrow>
     (\<forall>threshold \<in> {bd_ModelFailureThreshold d, bd_UpstreamFailureThreshold d, bd_UpstreamModelThreshold d}.
        0 < threshold)
     \<and> (\<forall>minutes \<in> {bd_ModelDurationMin d, bd_ModelWindowMin d, bd_UpstreamDurationMin d, bd_UpstreamWindowMin d}.
          0 < minutes \<and> wrap64 (minutes * 60) = minutes * 60)
     \<and> bd_UpstreamThresholdLogic d \<in> {''and'', ''or''}"

lemma max_minutes: "max_minutes = 153722867280912930"
  by (simp add: max_minutes_def go_div_nonneg)

lemma minutes_wrap: "0 < m \<Longrightarrow> m \<le> max_minutes \<Longrightarrow> wrap64 (m * 60) = m * 60"
  by (rule wrap64_id) (simp add: in_i64_def max_minutes)

lemma apply_positive_range:
  "0 < t \<Longrightarrow> t \<le> n \<Longrightarrow> value_or_zero v \<le> n \<Longrightarrow> 0 < apply_positive t v \<and> apply_positive t v \<le> n"
  by (auto simp: apply_positive_def value_or_zero_def split: option.splits)

lemma apply_positive_pos: "0 < t \<Longrightarrow> 0 < apply_positive t v"
  by (auto simp: apply_positive_def split: option.splits)

lemma apply_positive_minutes:
  assumes "0 < t" and "t \<le> 60" and "\<not> max_minutes < value_or_zero v"
  shows "0 < apply_positive t v \<and> wrap64 (apply_positive t v * 60) = apply_positive t v * 60"
  using apply_positive_range [of t max_minutes v] minutes_wrap assms by (simp add: max_minutes)

text \<open>
  C31: Whatever JSON an administrator stored, a configuration that parses is one the breaker can
  count with: every threshold is positive, every duration is a positive number of minutes whose
  conversion to seconds does not wrap around, and the logic is \<open>and\<close> or \<open>or\<close>.
\<close>

theorem parsed_breaker_defaults_usable:
  assumes "parse_breaker_defaults object_of input_of doc = Inr d"
  shows "usable_breaker_defaults d"
proof -
  obtain input where valid: "breaker_defaults_valid (given_breaker_defaults input)"
      and d: "d = filled_breaker_defaults input"
    using assms by (auto simp: parse_breaker_defaults_def split: option.splits if_splits)
  have minutes: "\<not> max_minutes < value_or_zero v"
    if "v \<in> {bi_ModelDurationMin input, bi_ModelWindowMin input, bi_UpstreamDurationMin input,
              bi_UpstreamWindowMin input}" for v
    using valid that by (auto simp: breaker_defaults_valid_def given_breaker_defaults_def split: if_splits)
  have "bd_UpstreamThresholdLogic d \<in> {''and'', ''or''}"
    using valid by (auto simp: d filled_breaker_defaults_def breaker_defaults_valid_def Let_def
        given_breaker_defaults_def default_breaker_defaults_def split: if_splits option.splits)
  then show ?thesis
    using minutes by (simp add: usable_breaker_defaults_def d filled_breaker_defaults_def Let_def
        default_breaker_defaults_def apply_positive_pos apply_positive_minutes)
qed

theorem parsed_breaker_defaults_usable_witness:
  "usable_breaker_defaults (filled_breaker_defaults
     (input_of_members (breaker_document (default_breaker_defaults\<lparr>bd_UpstreamThresholdLogic := '' and ''\<rparr>))))"
  by (rule parsed_breaker_defaults_usable [where object_of = "\<lambda>_. Some (\<lambda>_. None)" and doc = "[]"
        and input_of = "\<lambda>_. Some (input_of_members (breaker_document (default_breaker_defaults\<lparr>bd_UpstreamThresholdLogic := '' and ''\<rparr>)))"])
    code_simp

lemma input_of_document:
  "input_of_members (breaker_document d) =
    \<lparr>bi_Enabled = Some (bd_Enabled d),
      bi_ModelFailureThreshold = Some (bd_ModelFailureThreshold d),
      bi_ModelDurationMin = Some (bd_ModelDurationMin d), bi_ModelWindowMin = Some (bd_ModelWindowMin d),
      bi_UpstreamFailureThreshold = Some (bd_UpstreamFailureThreshold d),
      bi_UpstreamModelThreshold = Some (bd_UpstreamModelThreshold d),
      bi_UpstreamThresholdLogic = Some (bd_UpstreamThresholdLogic d),
      bi_UpstreamDurationMin = Some (bd_UpstreamDurationMin d),
      bi_UpstreamWindowMin = Some (bd_UpstreamWindowMin d)\<rparr>"
  by (simp add: input_of_members_def breaker_document_def scalar_bool_def scalar_int_def scalar_string_def)

text \<open>
  The stored document round-trips. When the JSON library reads back the members it wrote, a
  usable configuration written by \<open>MarshalBreakerDefaults\<close> is the one \<open>ParseBreakerDefaults\<close> returns.
\<close>

theorem breaker_defaults_roundtrip:
  assumes written: "marshal_breaker_defaults encode d = Some doc"
    and reads: "\<And>members. encode members = Some doc \<Longrightarrow> input_of doc = Some (input_of_members members)"
      "object_of doc = Some object"
    and raw: "\<And>key value. object key = Some value \<Longrightarrow> trim_space value \<noteq> ''null''"
    and usable: "usable_breaker_defaults d"
    and range: "in_i64 (bd_ModelDurationMin d * 60)" "in_i64 (bd_ModelWindowMin d * 60)"
      "in_i64 (bd_UpstreamDurationMin d * 60)" "in_i64 (bd_UpstreamWindowMin d * 60)"
  shows "parse_breaker_defaults object_of input_of doc = Inr d"
proof -
  have members: "input_of doc = Some (input_of_members (breaker_document d))"
    using written reads(1) by (simp add: marshal_breaker_defaults_def)
  note m = input_of_document [of d]
  have logic: "trim_space (bd_UpstreamThresholdLogic d) = bd_UpstreamThresholdLogic d"
      "bd_UpstreamThresholdLogic d \<noteq> []"
    using usable by (auto simp: usable_breaker_defaults_def)
  have "m \<le> max_minutes" if "in_i64 (m * 60)" for m
    using that by (simp add: in_i64_def max_minutes)
  then have valid: "breaker_defaults_valid (given_breaker_defaults (input_of_members (breaker_document d)))"
    using usable range logic
    by (force simp: breaker_defaults_valid_def given_breaker_defaults_def m
        value_or_zero_def usable_breaker_defaults_def)
  have "filled_breaker_defaults (input_of_members (breaker_document d)) = d"
    using usable logic by (simp add: filled_breaker_defaults_def m apply_positive_def
        usable_breaker_defaults_def)
  moreover have "\<not> list_ex (\<lambda>key. case object key of None \<Rightarrow> False | Some raw \<Rightarrow> trim_space raw = ''null'')
      breaker_default_keys"
    using raw by (auto simp: list_ex_iff split: option.splits)
  ultimately show ?thesis using valid members reads(2) by (simp add: parse_breaker_defaults_def)
qed

theorem breaker_defaults_roundtrip_witness:
  "parse_breaker_defaults (\<lambda>_. Some [''enabled'' \<mapsto> ''false'']) (\<lambda>_. Some (input_of_members (breaker_document default_breaker_defaults))) ''{}''
     = Inr default_breaker_defaults"
proof (rule breaker_defaults_roundtrip [where encode =
    "\<lambda>members. if members = breaker_document default_breaker_defaults then Some ''{}'' else None" and object = "[''enabled'' \<mapsto> ''false'']"])
  show "usable_breaker_defaults default_breaker_defaults"
    by (simp add: usable_breaker_defaults_def default_breaker_defaults_def wrap64_def)
  show "in_i64 (bd_ModelDurationMin default_breaker_defaults * 60)"
      "in_i64 (bd_ModelWindowMin default_breaker_defaults * 60)"
      "in_i64 (bd_UpstreamDurationMin default_breaker_defaults * 60)"
      "in_i64 (bd_UpstreamWindowMin default_breaker_defaults * 60)"
    by (simp_all add: default_breaker_defaults_def in_i64_def)
qed (auto simp: marshal_breaker_defaults_def split: if_splits)

subsection \<open>What the short cache promises\<close>

text \<open>A history of loads: when each one runs and what the repository answers if it is asked.\<close>

fun load_run :: "(gotime \<times> ('e + breaker_defaults)) list \<Rightarrow> breaker_cell \<Rightarrow> breaker_defaults list \<times> breaker_cell" where
  "load_run [] cell = ([], cell)"
| "load_run ((now, stored) # loads) cell =
     (let (cfg, cell1) = load_breaker_defaults now stored cell;
          (cfgs, cell2) = load_run loads cell1
      in (cfg # cfgs, cell2))"

definition failing :: "'e + 'a \<Rightarrow> bool" where
  "failing stored \<longleftrightarrow> (case stored of Inl _ \<Rightarrow> True | Inr _ \<Rightarrow> False)"

definition holds_config :: "breaker_defaults \<Rightarrow> gotime \<Rightarrow> breaker_cell \<Rightarrow> bool" where
  "holds_config cfg until cell \<longleftrightarrow>
     bc_loaded cell \<and> bc_breakerDefaults cell = cfg \<and> until \<le> bc_validUntil cell"

lemma load_holds:
  assumes "holds_config cfg until cell" and "now < until \<or> failing stored"
  shows "fst (load_breaker_defaults now stored cell) = cfg
    \<and> holds_config cfg until (snd (load_breaker_defaults now stored cell))"
  using assms by (auto simp: holds_config_def load_breaker_defaults_def failing_def
      breaker_defaults_error_retry_ttl_def second_def split: sum.splits)

lemma load_run_holds:
  assumes "holds_config cfg until cell" and "\<forall>(now, stored) \<in> set loads. now < until \<or> failing stored"
  shows "set (fst (load_run loads cell)) \<subseteq> {cfg} \<and> holds_config cfg until (snd (load_run loads cell))"
  using assms
proof (induction loads arbitrary: cell)
  case (Cons load loads)
  obtain now stored where load: "load = (now, stored)" by fastforce
  have step: "fst (load_breaker_defaults now stored cell) = cfg"
      "holds_config cfg until (snd (load_breaker_defaults now stored cell))"
    using load_holds [of cfg until cell now stored] Cons.prems by (simp_all add: load)
  have "set (fst (load_run loads (snd (load_breaker_defaults now stored cell)))) \<subseteq> {cfg}
      \<and> holds_config cfg until (snd (load_run loads (snd (load_breaker_defaults now stored cell))))"
    using Cons.prems by (intro Cons.IH step) simp
  then show ?case using step(1) by (auto simp: load split_beta Let_def)
qed simp

lemma load_run_validUntil:
  assumes "bc_validUntil cell \<le> until" and "\<forall>(now, stored) \<in> set loads. now + breaker_defaults_cache_ttl \<le> until"
  shows "bc_validUntil (snd (load_run loads cell)) \<le> until"
  using assms
proof (induction loads arbitrary: cell)
  case (Cons load loads)
  obtain now stored where load: "load = (now, stored)" by fastforce
  have "bc_validUntil (snd (load_breaker_defaults now stored cell)) \<le> until"
    using Cons.prems by (auto simp: load load_breaker_defaults_def breaker_defaults_cache_ttl_def
        breaker_defaults_error_retry_ttl_def second_def split: sum.splits)
  then show ?case using Cons by (simp add: load split_beta Let_def)
qed simp

text \<open>
  A configuration an administrator saved is in force at once and survives an outage: after
  \<open>storeBreakerDefaults\<close>, every load of this instance within five seconds, and every load at any
  time whose repository read fails, returns it; and the first load that comes five seconds after
  the save and after every load so far, and reaches the repository, returns what is stored there.
\<close>

theorem saved_breaker_defaults_in_force:
  assumes "\<forall>(t, stored) \<in> set loads. t < now + breaker_defaults_cache_ttl \<or> failing stored"
    and "load_run loads (store_breaker_defaults now cfg cell) = (results, cell')"
    and "\<forall>(t, stored) \<in> set loads. t + breaker_defaults_cache_ttl \<le> later"
    and "now + breaker_defaults_cache_ttl \<le> later"
  shows "set results \<subseteq> {cfg} \<and> fst (load_breaker_defaults later (Inr fresh) cell') = fresh"
proof -
  let ?cell = "store_breaker_defaults now cfg cell"
  have "holds_config cfg (now + breaker_defaults_cache_ttl) ?cell"
    by (simp add: holds_config_def store_breaker_defaults_def)
  from load_run_holds [OF this assms(1)] have "set results \<subseteq> {cfg}" using assms(2) by simp
  moreover have "bc_validUntil cell' \<le> later"
    using load_run_validUntil [of ?cell later loads] assms by (simp add: store_breaker_defaults_def)
  ultimately show ?thesis by (simp add: load_breaker_defaults_def)
qed

theorem saved_breaker_defaults_in_force_witness:
  "fst (load_breaker_defaults 12000000000 (Inr zero_breaker_defaults :: unit + breaker_defaults)
     (snd (load_run [(4000000000, Inr zero_breaker_defaults), (7000000000, Inl ())]
        (store_breaker_defaults 0 default_breaker_defaults zero_breaker_cell)))) = zero_breaker_defaults"
proof -
  let ?loads = "[(4000000000, Inr zero_breaker_defaults), (7000000000, Inl ())]"
    and ?cell = "store_breaker_defaults 0 default_breaker_defaults zero_breaker_cell"
  obtain results cell' where run: "load_run ?loads ?cell = (results, cell')" by fastforce
  have "set results \<subseteq> {default_breaker_defaults}
      \<and> fst (load_breaker_defaults 12000000000 (Inr zero_breaker_defaults :: unit + breaker_defaults) cell') = zero_breaker_defaults"
    by (rule saved_breaker_defaults_in_force [OF _ run])
      (simp_all add: failing_def breaker_defaults_cache_ttl_def second_def)
  then show ?thesis unfolding run by simp
qed

end
