(* ===== verification/Circuit.thy ===== *)
theory Circuit
  imports CacheState
begin

text \<open>
  The two-level circuit breaker, the per-route rate-limit backoff and the API-key counter of
  the cache (\<open>infra/cache/memory/channel.go\<close>). A breaker state lives behind a pointer in the Go
  map and is changed in place; here the map entry is replaced. No two keys share a pointer.
\<close>

subsection \<open>Inputs\<close>

record circuit_failure_input =
  cf_UpstreamID :: nat
  cf_ModelKey :: string
  cf_ModelWindowSec :: int
  cf_ModelFailureThreshold :: int
  cf_ModelDurationSec :: int
  cf_UpstreamWindowSec :: int
  cf_UpstreamFailureThreshold :: int
  cf_UpstreamModelThreshold :: int
  cf_UpstreamThresholdLogic :: string
  cf_UpstreamDurationSec :: int
  cf_ActiveModelKeys :: "string list"

record rate_limit_backoff_params =
  rb_UpstreamID :: nat
  rb_RouteID :: nat
  rb_BackoffBaseSec :: int
  rb_BackoffMaxSec :: int
  rb_BackoffMultiplier :: int
  rb_RetryAfterSec :: int

definition circuit_manual_open_duration :: duration where
  "circuit_manual_open_duration = 24 * hour"

definition zero_circuit :: circuit_state where
  "zero_circuit = \<lparr>cs_openUntil = 0, cs_probeUntil = 0, cs_failures = [], cs_manualOpen = False,
                   cs_lastFailure = 0\<rparr>"

definition zero_metadata :: upstream_metadata where
  "zero_metadata = \<lparr>um_lastError = [], um_lastFailure = 0, um_lastSuccess = 0\<rparr>"

definition zero_rate_limit :: rate_limit_state where
  "zero_rate_limit = \<lparr>rl_backoffUntil = 0, rl_backoffCount = 0, rl_countExpires = 0\<rparr>"

subsection \<open>Checking a breaker\<close>

definition model_circuit_key :: "nat \<Rightarrow> string \<Rightarrow> string" where
  "model_circuit_key upstreamID modelKey = nat_digits upstreamID @ '':'' @ trim_space modelKey"

definition check_circuit_state ::
  "gotime \<Rightarrow> circuit_state option \<Rightarrow> string \<times> circuit_state option" where
  "check_circuit_state now state =
     (case state of
        None \<Rightarrow> (''closed'', None)
      | Some st \<Rightarrow>
          if cs_manualOpen st then
            (if before now (cs_openUntil st) then (''open'', Some st)
             else (''closed'', Some (st\<lparr>cs_openUntil := 0, cs_probeUntil := 0, cs_manualOpen := False\<rparr>)))
          else if before now (cs_openUntil st) then (''open'', Some st)
          else if \<not> is_zero (cs_openUntil st) then
            (if after now (cs_openUntil st + circuit_probe_ttl) then
               (''closed'', Some (st\<lparr>cs_openUntil := 0, cs_probeUntil := 0, cs_manualOpen := False\<rparr>))
             else if before now (cs_probeUntil st) then (''half_open_denied'', Some st)
             else (''half_open_granted'', Some (st\<lparr>cs_probeUntil := now + circuit_probe_ttl\<rparr>)))
          else (''closed'', Some st))"

definition check_upstream_circuit_state :: "gotime \<Rightarrow> nat \<Rightarrow> cache \<Rightarrow> string \<times> cache" where
  "check_upstream_circuit_state now upstreamID c =
     (let (v, st) = check_circuit_state now (upstreamCB c upstreamID)
      in (v, c\<lparr>upstreamCB := (upstreamCB c)(upstreamID := st)\<rparr>))"

definition check_model_circuit_state :: "gotime \<Rightarrow> nat \<Rightarrow> string \<Rightarrow> cache \<Rightarrow> string \<times> cache" where
  "check_model_circuit_state now upstreamID modelKey c =
     (let key = model_circuit_key upstreamID modelKey;
          (v, st) = check_circuit_state now (modelCB c key)
      in (v, c\<lparr>modelCB := (modelCB c)(key := st)\<rparr>))"

subsection \<open>Recording failures\<close>

definition record_failure :: "gotime \<Rightarrow> duration \<Rightarrow> circuit_state \<Rightarrow> circuit_state" where
  "record_failure now window st =
     (let window' = (if window \<le> 0 then 5 * minute else window);
          cutoff = now - window'
      in st\<lparr>cs_failures := filter (\<lambda>t. after t cutoff) (cs_failures st) @ [now],
            cs_lastFailure := now\<rparr>)"

definition should_trip :: "circuit_state \<Rightarrow> int \<Rightarrow> bool" where
  "should_trip st threshold \<longleftrightarrow> 0 < threshold \<and> threshold \<le> int (length (cs_failures st))"

definition should_trip_upstream :: "bool \<Rightarrow> int \<Rightarrow> bool \<Rightarrow> int \<Rightarrow> string \<Rightarrow> bool" where
  "should_trip_upstream failMet failThreshold modelMet modelThreshold logic =
     (if trim_space logic = ''and'' then
        (if 0 < failThreshold \<and> 0 < modelThreshold then failMet \<and> modelMet
         else if 0 < failThreshold then failMet
         else if 0 < modelThreshold then modelMet
         else False)
      else failMet \<or> modelMet)"

fun open_model_count_loop ::
  "(string \<rightharpoonup> circuit_state) \<Rightarrow> nat \<Rightarrow> gotime \<Rightarrow> string list \<Rightarrow> string list \<Rightarrow> int \<Rightarrow> int" where
  "open_model_count_loop m upstreamID now [] seen count = count"
| "open_model_count_loop m upstreamID now (modelKey # ks) seen count =
     (let key = model_circuit_key upstreamID modelKey
      in if key \<in> set seen then open_model_count_loop m upstreamID now ks seen count
         else open_model_count_loop m upstreamID now ks (key # seen)
                (case m key of
                   Some st \<Rightarrow> if before now (cs_openUntil st) then count + 1 else count
                 | None \<Rightarrow> count))"

definition open_model_count :: "nat \<Rightarrow> string list \<Rightarrow> gotime \<Rightarrow> cache \<Rightarrow> int" where
  "open_model_count upstreamID modelKeys now c =
     open_model_count_loop (modelCB c) upstreamID now modelKeys [] 0"

definition ensure_circuit :: "circuit_state option \<Rightarrow> circuit_state" where
  "ensure_circuit state = (case state of None \<Rightarrow> zero_circuit | Some st \<Rightarrow> st)"

lemma ensure_circuit_simps [simp]:
  "ensure_circuit None = zero_circuit"
  "ensure_circuit (Some st) = st"
  by (simp_all add: ensure_circuit_def)

lemma zero_circuit_simps [simp]:
  "cs_openUntil zero_circuit = 0" "cs_probeUntil zero_circuit = 0" "cs_failures zero_circuit = []"
  "cs_manualOpen zero_circuit = False" "cs_lastFailure zero_circuit = 0"
  by (simp_all add: zero_circuit_def)

text \<open>The part of \<open>RecordCircuitFailure\<close> that both levels share: the probe, the count, the trip.\<close>

definition fail_circuit :: "gotime \<Rightarrow> int \<Rightarrow> circuit_state \<Rightarrow> bool \<times> circuit_state" where
  "fail_circuit now windowSec st =
     (before now (cs_probeUntil st),
      record_failure now (secs windowSec) (st\<lparr>cs_probeUntil := 0\<rparr>))"

definition trip_circuit :: "gotime \<Rightarrow> int \<Rightarrow> circuit_state \<Rightarrow> circuit_state" where
  "trip_circuit now durationSec st =
     st\<lparr>cs_openUntil := now + secs durationSec, cs_manualOpen := False\<rparr>"

definition record_model_failure :: "gotime \<Rightarrow> circuit_failure_input \<Rightarrow> cache \<Rightarrow> cache" where
  "record_model_failure now i c =
     (let key = model_circuit_key (cf_UpstreamID i) (cf_ModelKey i);
          (probeFailed, st) = fail_circuit now (cf_ModelWindowSec i) (ensure_circuit (modelCB c key));
          st' = (if (probeFailed \<or> should_trip st (cf_ModelFailureThreshold i))
                    \<and> 0 < cf_ModelDurationSec i
                 then trip_circuit now (cf_ModelDurationSec i) st else st)
      in c\<lparr>modelCB := (modelCB c)(key \<mapsto> st')\<rparr>)"

definition record_upstream_failure :: "gotime \<Rightarrow> circuit_failure_input \<Rightarrow> cache \<Rightarrow> cache" where
  "record_upstream_failure now i c =
     (let (probeFailed, st) =
            fail_circuit now (cf_UpstreamWindowSec i) (ensure_circuit (upstreamCB c (cf_UpstreamID i)));
          failMet = (probeFailed \<or> should_trip st (cf_UpstreamFailureThreshold i));
          modelMet = (0 < cf_UpstreamModelThreshold i \<and>
            cf_UpstreamModelThreshold i
              \<le> open_model_count (cf_UpstreamID i) (cf_ActiveModelKeys i) now c);
          trip = should_trip_upstream failMet (cf_UpstreamFailureThreshold i) modelMet
                   (cf_UpstreamModelThreshold i) (cf_UpstreamThresholdLogic i);
          st' = (if trip \<and> 0 < cf_UpstreamDurationSec i
                 then trip_circuit now (cf_UpstreamDurationSec i) st else st)
      in c\<lparr>upstreamCB := (upstreamCB c)(cf_UpstreamID i \<mapsto> st')\<rparr>)"

definition record_circuit_failure :: "gotime \<Rightarrow> circuit_failure_input \<Rightarrow> cache \<Rightarrow> cache" where
  "record_circuit_failure now i c =
     (if cf_UpstreamID i = 0 \<or> trim_space (cf_ModelKey i) = [] then c
      else maybe_sweep now (record_upstream_failure now i (record_model_failure now i c)))"

subsection \<open>Metadata, clearing, manual control\<close>

definition record_failure_metadata :: "gotime \<Rightarrow> nat \<Rightarrow> string \<Rightarrow> cache \<Rightarrow> cache" where
  "record_failure_metadata now upstreamID lastError c =
     maybe_sweep now (c\<lparr>upstreamMeta := (upstreamMeta c)(upstreamID \<mapsto>
       \<lparr>um_lastError = lastError, um_lastFailure = now, um_lastSuccess = 0\<rparr>)\<rparr>)"

definition record_success_metadata :: "gotime \<Rightarrow> nat \<Rightarrow> cache \<Rightarrow> cache" where
  "record_success_metadata now upstreamID c =
     maybe_sweep now (c\<lparr>upstreamMeta := (upstreamMeta c)(upstreamID \<mapsto>
       (get_or zero_metadata (upstreamMeta c) upstreamID)\<lparr>um_lastSuccess := now\<rparr>)\<rparr>)"

definition clear_upstream_circuit_keys :: "nat \<Rightarrow> cache \<Rightarrow> cache" where
  "clear_upstream_circuit_keys upstreamID c =
     c\<lparr>upstreamCB := (upstreamCB c)(upstreamID := None)\<rparr>"

definition clear_model_circuit_keys :: "nat \<Rightarrow> string \<Rightarrow> cache \<Rightarrow> cache" where
  "clear_model_circuit_keys upstreamID modelKey c =
     c\<lparr>modelCB := (modelCB c)(model_circuit_key upstreamID modelKey := None)\<rparr>"

definition reset_all_circuit_states :: "cache \<Rightarrow> cache" where
  "reset_all_circuit_states c = c\<lparr>upstreamCB := Map.empty, modelCB := Map.empty\<rparr>"

definition release_probe :: "circuit_state option \<Rightarrow> circuit_state option" where
  "release_probe state = map_option (\<lambda>st. st\<lparr>cs_probeUntil := 0\<rparr>) state"

definition release_route_probes :: "nat \<Rightarrow> string \<Rightarrow> cache \<Rightarrow> cache" where
  "release_route_probes upstreamID modelKey c =
     (if trim_space modelKey = []
      then c\<lparr>upstreamCB := (upstreamCB c)(upstreamID := release_probe (upstreamCB c upstreamID))\<rparr>
      else let key = model_circuit_key upstreamID modelKey
           in c\<lparr>modelCB := (modelCB c)(key := release_probe (modelCB c key))\<rparr>)"

definition open_upstream_circuit :: "gotime \<Rightarrow> nat \<Rightarrow> cache \<Rightarrow> cache" where
  "open_upstream_circuit now upstreamID c =
     maybe_sweep now (c\<lparr>upstreamCB := (upstreamCB c)(upstreamID \<mapsto>
       (ensure_circuit (upstreamCB c upstreamID))
         \<lparr>cs_openUntil := now + circuit_manual_open_duration, cs_manualOpen := True\<rparr>)\<rparr>)"

definition reset_upstream_circuit :: "nat \<Rightarrow> cache \<Rightarrow> cache" where
  "reset_upstream_circuit upstreamID c =
     c\<lparr>upstreamCB := (upstreamCB c)(upstreamID := None),
       upstreamMeta := (upstreamMeta c)(upstreamID := None)\<rparr>"

definition open_model_circuit :: "gotime \<Rightarrow> nat \<Rightarrow> string \<Rightarrow> cache \<Rightarrow> cache" where
  "open_model_circuit now upstreamID modelKey c =
     (let key = model_circuit_key upstreamID modelKey
      in maybe_sweep now (c\<lparr>modelCB := (modelCB c)(key \<mapsto>
           (ensure_circuit (modelCB c key))
             \<lparr>cs_openUntil := now + circuit_manual_open_duration, cs_manualOpen := True\<rparr>)\<rparr>))"

definition reset_model_circuit :: "nat \<Rightarrow> string \<Rightarrow> cache \<Rightarrow> cache" where
  "reset_model_circuit upstreamID modelKey c =
     c\<lparr>modelCB := (modelCB c)(model_circuit_key upstreamID modelKey := None)\<rparr>"

text \<open>
  \<open>openUntil.Unix()\<close> counts seconds since 1970, 62135596800 seconds after the zero time, and
  rounds down.
\<close>

definition unix_seconds :: "gotime \<Rightarrow> int" where
  "unix_seconds t = t div second - 62135596800"

definition query_circuit_status :: "gotime \<Rightarrow> circuit_state option \<Rightarrow> bool \<times> string" where
  "query_circuit_status now state =
     (case state of
        None \<Rightarrow> (False, [])
      | Some st \<Rightarrow>
          if \<not> before now (cs_openUntil st) then (False, [])
          else (True, itoa (unix_seconds (cs_openUntil st))))"

definition query_upstream_circuit_status :: "gotime \<Rightarrow> nat \<Rightarrow> cache \<Rightarrow> bool \<times> string" where
  "query_upstream_circuit_status now upstreamID c =
     query_circuit_status now (upstreamCB c upstreamID)"

definition query_model_circuit_status :: "gotime \<Rightarrow> nat \<Rightarrow> string \<Rightarrow> cache \<Rightarrow> bool \<times> string" where
  "query_model_circuit_status now upstreamID modelKey c =
     query_circuit_status now (modelCB c (model_circuit_key upstreamID modelKey))"

subsection \<open>Rate-limit backoff and the API-key counter\<close>

function backoff_loop :: "int \<Rightarrow> int \<Rightarrow> int \<Rightarrow> int \<Rightarrow> int \<Rightarrow> int" where
  "backoff_loop i attempt multiplier maxSec backoff =
     (if i < attempt then
        (if maxSec \<le> backoff then maxSec
         else let backoff' = wrap64 (backoff * multiplier)
              in if maxSec \<le> backoff' then maxSec
                 else backoff_loop (i + 1) attempt multiplier maxSec backoff')
      else backoff)"
  by pat_completeness auto
termination
  by (relation "measure (\<lambda>(i, attempt, multiplier, maxSec, backoff). nat (attempt - i))") auto

declare backoff_loop.simps [simp del]

definition calculate_backoff_seconds :: "int \<Rightarrow> rate_limit_backoff_params \<Rightarrow> int" where
  "calculate_backoff_seconds attempt p =
     (let base = (if rb_BackoffBaseSec p \<le> 0 then 5 else rb_BackoffBaseSec p);
          maxSec = (if rb_BackoffMaxSec p \<le> 0 then 60 else rb_BackoffMaxSec p);
          multiplier = (if rb_BackoffMultiplier p \<le> 1 then 2 else rb_BackoffMultiplier p);
          backoff = backoff_loop 1 attempt multiplier maxSec base;
          backoff' = (if backoff < rb_RetryAfterSec p then rb_RetryAfterSec p else backoff)
      in if maxSec < backoff' then maxSec else backoff')"

definition get_rate_limit_backoff :: "gotime \<Rightarrow> nat \<Rightarrow> nat \<Rightarrow> cache \<Rightarrow> duration" where
  "get_rate_limit_backoff now upstreamID routeID c =
     (if upstreamID = 0 \<or> routeID = 0 then 0
      else let remaining = time_sub (rl_backoffUntil
                 (get_or zero_rate_limit (rateLimits c) (upstreamID, routeID))) now
           in if remaining \<le> 0 then 0 else remaining)"

definition record_rate_limit_backoff :: "gotime \<Rightarrow> rate_limit_backoff_params \<Rightarrow> cache \<Rightarrow> cache" where
  "record_rate_limit_backoff now p c =
     (if rb_UpstreamID p = 0 \<or> rb_RouteID p = 0 then c
      else
        let key = (rb_UpstreamID p, rb_RouteID p);
            st = get_or zero_rate_limit (rateLimits c) key;
            count = wrap64 ((if after now (rl_countExpires st) then 0 else rl_backoffCount st) + 1);
            st' = \<lparr>rl_backoffUntil = now + secs (calculate_backoff_seconds count p),
                   rl_backoffCount = count, rl_countExpires = now + 5 * minute\<rparr>
        in maybe_sweep now (c\<lparr>rateLimits := (rateLimits c)(key \<mapsto> st')\<rparr>))"

definition clear_rate_limit_backoff :: "nat \<Rightarrow> nat \<Rightarrow> cache \<Rightarrow> cache" where
  "clear_rate_limit_backoff upstreamID routeID c =
     (if upstreamID = 0 \<or> routeID = 0 then c
      else c\<lparr>rateLimits := (rateLimits c)((upstreamID, routeID) := None)\<rparr>)"

definition zero_key_counter :: api_key_counter where
  "zero_key_counter = \<lparr>ak_next = 0, ak_lastUsed = 0\<rparr>"

definition incr_api_key_counter :: "gotime \<Rightarrow> nat \<Rightarrow> cache \<Rightarrow> (int \<times> bool) \<times> cache" where
  "incr_api_key_counter now upstreamID c =
     (let next = ak_next (get_or zero_key_counter (keyCounters c) upstreamID)
      in ((next, True),
          maybe_sweep now (c\<lparr>keyCounters := (keyCounters c)(upstreamID \<mapsto>
            \<lparr>ak_next = wrap64 (next + 1), ak_lastUsed = now\<rparr>)\<rparr>)))"

subsection \<open>Verdicts\<close>

text \<open>
  What a breaker answers depends on four instants; the abstract view forgets the representation.
\<close>

datatype phase = Closed | Open | ProbeOut | ProbeFree

definition phase :: "gotime \<Rightarrow> circuit_state option \<Rightarrow> phase" where
  "phase now state =
     (case state of None \<Rightarrow> Closed
      | Some st \<Rightarrow>
          if now < cs_openUntil st then Open
          else if cs_manualOpen st \<or> cs_openUntil st = 0
                  \<or> cs_openUntil st + circuit_probe_ttl < now then Closed
          else if now < cs_probeUntil st then ProbeOut else ProbeFree)"

fun verdict_of :: "phase \<Rightarrow> string" where
  "verdict_of Closed = ''closed''"
| "verdict_of Open = ''open''"
| "verdict_of ProbeOut = ''half_open_denied''"
| "verdict_of ProbeFree = ''half_open_granted''"

lemma verdict_of_inject [simp]: "verdict_of p = verdict_of q \<longleftrightarrow> p = q"
  by (cases p; cases q) simp_all

lemma check_circuit_verdict:
  "fst (check_circuit_state now state) = verdict_of (phase now state)"
  by (simp add: check_circuit_state_def phase_def split: option.split)

lemma check_model_verdict:
  "fst (check_model_circuit_state now u k c) = verdict_of (phase now (modelCB c (model_circuit_key u k)))"
  by (simp add: check_model_circuit_state_def Let_def check_circuit_verdict [symmetric]
      split: prod.split)

lemma check_upstream_verdict:
  "fst (check_upstream_circuit_state now u c) = verdict_of (phase now (upstreamCB c u))"
  by (simp add: check_upstream_circuit_state_def Let_def check_circuit_verdict [symmetric]
      split: prod.split)

lemma verdict_open_iff:
  "verdict_of (phase now state) = ''open''
     \<longleftrightarrow> (\<exists>st. state = Some st \<and> now < cs_openUntil st)"
proof -
  have "verdict_of (phase now state) = ''open'' \<longleftrightarrow> phase now state = Open"
    using verdict_of_inject [of "phase now state" Open] by simp
  then show ?thesis by (simp add: phase_def split: option.split)
qed

lemma phase_swept:
  assumes "circuit_state_expired now st" and "0 \<le> now" and "now < now'"
  shows "phase now' (Some st) = Closed"
  using assms by (auto simp: circuit_state_expired_def phase_def retention_defs split: if_splits)

interpretation upstream_circuit_read: swept_read
  "\<lambda>now c. fst (check_upstream_circuit_state now u c)" "\<lambda>_. True" for u
  by unfold_locales
    (auto simp: check_upstream_verdict sweep_map_def phase_swept phase_def [of _ None]
       split: option.split)

interpretation model_circuit_read: swept_read
  "\<lambda>now c. fst (check_model_circuit_state now u k c)" "\<lambda>_. True" for u k
  by unfold_locales
    (auto simp: check_model_verdict sweep_map_def phase_swept phase_def [of _ None]
       split: option.split)

lemma time_sub_nonpos: "t \<le> now \<Longrightarrow> time_sub t now \<le> 0"
  by (simp add: time_sub_def)

interpretation backoff_read: swept_read
  "\<lambda>now c. get_rate_limit_backoff now u r c" "\<lambda>_. True" for u r
proof (unfold_locales, goal_cases)
  case (1 c now now')
  then show ?case
  proof (cases "rateLimits c (u, r)")
    case (Some st)
    then show ?thesis
      using 1 time_sub_nonpos [of "rl_backoffUntil st" now'] time_sub_nonpos [of 0 now']
      by (auto simp: get_rate_limit_backoff_def Let_def get_or_def zero_rate_limit_def)
  qed (simp add: get_rate_limit_backoff_def Let_def)
qed (simp_all add: get_rate_limit_backoff_def)

subsection \<open>One probe at a time\<close>

text \<open>
  Every operation the breakers can meet: those of \<open>channel.go\<close>, and for the operations of the
  other parts of the cache the one thing they do to a breaker, the sweep. A breaker is named the
  way the checks and the releases name it.
\<close>

datatype circuit_op =
    CheckUpstreamCircuitState nat
  | CheckModelCircuitState nat string
  | RecordCircuitFailure circuit_failure_input
  | RecordFailureMetadata nat string
  | RecordSuccessMetadata nat
  | ClearUpstreamCircuitKeys nat
  | ClearModelCircuitKeys nat string
  | ResetAllCircuitStates
  | ReleaseRouteProbes nat string
  | OpenUpstreamCircuit nat
  | ResetUpstreamCircuit nat
  | OpenModelCircuit nat string
  | ResetModelCircuit nat string
  | RecordRateLimitBackoff rate_limit_backoff_params
  | ClearRateLimitBackoff nat nat
  | IncrAPIKeyCounter nat
  | SweepElsewhere

fun circuit_step :: "gotime \<Rightarrow> circuit_op \<Rightarrow> cache \<Rightarrow> cache" where
  "circuit_step now (CheckUpstreamCircuitState u) c = snd (check_upstream_circuit_state now u c)"
| "circuit_step now (CheckModelCircuitState u k) c = snd (check_model_circuit_state now u k c)"
| "circuit_step now (RecordCircuitFailure i) c = record_circuit_failure now i c"
| "circuit_step now (RecordFailureMetadata u e) c = record_failure_metadata now u e c"
| "circuit_step now (RecordSuccessMetadata u) c = record_success_metadata now u c"
| "circuit_step now (ClearUpstreamCircuitKeys u) c = clear_upstream_circuit_keys u c"
| "circuit_step now (ClearModelCircuitKeys u k) c = clear_model_circuit_keys u k c"
| "circuit_step now ResetAllCircuitStates c = reset_all_circuit_states c"
| "circuit_step now (ReleaseRouteProbes u k) c = release_route_probes u k c"
| "circuit_step now (OpenUpstreamCircuit u) c = open_upstream_circuit now u c"
| "circuit_step now (ResetUpstreamCircuit u) c = reset_upstream_circuit u c"
| "circuit_step now (OpenModelCircuit u k) c = open_model_circuit now u k c"
| "circuit_step now (ResetModelCircuit u k) c = reset_model_circuit u k c"
| "circuit_step now (RecordRateLimitBackoff p) c = record_rate_limit_backoff now p c"
| "circuit_step now (ClearRateLimitBackoff u r) c = clear_rate_limit_backoff u r c"
| "circuit_step now (IncrAPIKeyCounter u) c = snd (incr_api_key_counter now u c)"
| "circuit_step now SweepElsewhere c = maybe_sweep now c"

fun circuit_run :: "(gotime \<times> circuit_op) list \<Rightarrow> cache \<Rightarrow> cache" where
  "circuit_run [] c = c"
| "circuit_run ((now, op) # es) c = circuit_run es (circuit_step now op c)"

datatype breaker = UpstreamBreaker nat | ModelBreaker nat string

fun breaker_state :: "breaker \<Rightarrow> cache \<Rightarrow> circuit_state option" where
  "breaker_state (UpstreamBreaker u) c = upstreamCB c u"
| "breaker_state (ModelBreaker u k) c = modelCB c (model_circuit_key u k)"

fun check_breaker :: "gotime \<Rightarrow> breaker \<Rightarrow> cache \<Rightarrow> string \<times> cache" where
  "check_breaker now (UpstreamBreaker u) c = check_upstream_circuit_state now u c"
| "check_breaker now (ModelBreaker u k) c = check_model_circuit_state now u k c"

text \<open>The operations that end a probe of a breaker: its release, and a failure recorded on it.\<close>

fun ends_probe :: "breaker \<Rightarrow> circuit_op \<Rightarrow> bool" where
  "ends_probe b (ReleaseRouteProbes u k) \<longleftrightarrow>
     (case b of UpstreamBreaker v \<Rightarrow> v = u \<and> trim_space k = []
      | ModelBreaker v m \<Rightarrow> trim_space k \<noteq> [] \<and> model_circuit_key v m = model_circuit_key u k)"
| "ends_probe b (RecordCircuitFailure i) \<longleftrightarrow>
     cf_UpstreamID i \<noteq> 0 \<and> trim_space (cf_ModelKey i) \<noteq> [] \<and>
     (case b of UpstreamBreaker v \<Rightarrow> v = cf_UpstreamID i
      | ModelBreaker v m \<Rightarrow> model_circuit_key v m = model_circuit_key (cf_UpstreamID i) (cf_ModelKey i))"
| "ends_probe b _ \<longleftrightarrow> False"

text \<open>A breaker in this set grants no probe before \<open>until\<close>.\<close>

definition quiet_until :: "gotime \<Rightarrow> circuit_state option \<Rightarrow> bool" where
  "quiet_until until state \<longleftrightarrow>
     (case state of None \<Rightarrow> True
      | Some st \<Rightarrow> until \<le> cs_probeUntil st \<or> cs_manualOpen st \<or> cs_openUntil st = 0)"

lemma quiet_until_None [simp]: "quiet_until until None"
  by (simp add: quiet_until_def)

lemma quiet_until_check:
  "quiet_until until state \<Longrightarrow> quiet_until until (snd (check_circuit_state now state))"
  by (cases state) (auto simp: quiet_until_def check_circuit_state_def retention_defs)

lemma quiet_until_verdict:
  "quiet_until until state \<Longrightarrow> now < until \<Longrightarrow> fst (check_circuit_state now state) \<noteq> ''half_open_granted''"
  by (cases state) (auto simp: quiet_until_def check_circuit_state_def)

lemma granted_is_quiet:
  "fst (check_circuit_state now state) = ''half_open_granted''
     \<Longrightarrow> quiet_until (now + circuit_probe_ttl) (snd (check_circuit_state now state))"
  by (cases state) (auto simp: quiet_until_def check_circuit_state_def split: if_splits)

lemma quiet_until_manual:
  "quiet_until until (Some (st\<lparr>cs_openUntil := t, cs_manualOpen := True\<rparr>))"
  by (simp add: quiet_until_def)

lemma check_breaker_read:
  "fst (check_breaker now b c) = fst (check_circuit_state now (breaker_state b c))"
  by (cases b) (simp_all add: check_upstream_verdict check_model_verdict check_circuit_verdict)

lemma check_upstream_entry:
  "upstreamCB (snd (check_upstream_circuit_state now u c)) v
     = (if v = u then snd (check_circuit_state now (upstreamCB c u)) else upstreamCB c v)"
  "modelCB (snd (check_upstream_circuit_state now u c)) = modelCB c"
  by (auto simp: check_upstream_circuit_state_def Let_def split: prod.split)

lemma check_model_entry:
  "modelCB (snd (check_model_circuit_state now u k c)) key
     = (if key = model_circuit_key u k then snd (check_circuit_state now (modelCB c key)) else modelCB c key)"
  "upstreamCB (snd (check_model_circuit_state now u k c)) = upstreamCB c"
  by (auto simp: check_model_circuit_state_def Let_def split: prod.split)

lemma check_breaker_entry:
  "breaker_state b (snd (check_breaker now b c)) = snd (check_circuit_state now (breaker_state b c))"
  by (cases b) (simp_all add: check_upstream_entry check_model_entry)

lemma quiet_until_swept:
  assumes "quiet_until until (breaker_state b c)"
  shows "quiet_until until (breaker_state b (maybe_sweep now c))"
  by (rule maybe_sweep_rule)
    (use assms in \<open>cases b; auto simp: sweep_map_def quiet_until_def split: option.splits\<close>)+

lemma quiet_until_elsewhere:
  "quiet_until until (breaker_state b c) \<Longrightarrow>
     quiet_until until (breaker_state b (c\<lparr>upstreamMeta := m\<rparr>))"
  "quiet_until until (breaker_state b c) \<Longrightarrow>
     quiet_until until (breaker_state b (c\<lparr>rateLimits := l\<rparr>))"
  "quiet_until until (breaker_state b c) \<Longrightarrow>
     quiet_until until (breaker_state b (c\<lparr>keyCounters := n\<rparr>))"
  "quiet_until until (breaker_state b c) \<Longrightarrow> quiet_until until (breaker_state b
     (c\<lparr>upstreamCB := (upstreamCB c)(u \<mapsto> st\<lparr>cs_openUntil := t, cs_manualOpen := True\<rparr>)\<rparr>))"
  "quiet_until until (breaker_state b c) \<Longrightarrow> quiet_until until (breaker_state b
     (c\<lparr>modelCB := (modelCB c)(k \<mapsto> st\<lparr>cs_openUntil := t, cs_manualOpen := True\<rparr>)\<rparr>))"
  by (cases b; auto simp: quiet_until_manual)+

lemma circuit_step_quiet:
  assumes "quiet_until until (breaker_state b c)" and "\<not> ends_probe b op"
  shows "quiet_until until (breaker_state b (circuit_step now op c))"
proof (cases op)
  case (RecordCircuitFailure i)
  show ?thesis
  proof (cases "cf_UpstreamID i = 0 \<or> trim_space (cf_ModelKey i) = []")
    case True
    then show ?thesis using RecordCircuitFailure assms(1) by (auto simp: record_circuit_failure_def)
  next
    case False
    then have "breaker_state b (record_upstream_failure now i (record_model_failure now i c))
        = breaker_state b c"
      using RecordCircuitFailure assms(2)
      by (cases b) (auto simp: record_upstream_failure_def record_model_failure_def Let_def split: prod.split)
    then show ?thesis using RecordCircuitFailure False assms(1)
      by (simp add: record_circuit_failure_def quiet_until_swept)
  qed
next
  case (CheckUpstreamCircuitState u)
  then show ?thesis using assms(1)
    by (cases b) (auto simp: check_upstream_entry quiet_until_check)
next
  case (CheckModelCircuitState u k)
  then show ?thesis using assms(1)
    by (cases b) (auto simp: check_model_entry quiet_until_check)
next
  case (ReleaseRouteProbes u k)
  then show ?thesis using assms
    by (cases b) (auto simp: release_route_probes_def Let_def)
next
  case (RecordFailureMetadata u e)
  then show ?thesis using assms(1)
    by (auto simp: record_failure_metadata_def intro!: quiet_until_swept quiet_until_elsewhere)
next
  case (RecordSuccessMetadata u)
  then show ?thesis using assms(1)
    by (auto simp: record_success_metadata_def intro!: quiet_until_swept quiet_until_elsewhere)
next
  case (OpenUpstreamCircuit u)
  then show ?thesis using assms(1)
    by (auto simp: open_upstream_circuit_def intro!: quiet_until_swept quiet_until_elsewhere)
next
  case (OpenModelCircuit u k)
  then show ?thesis using assms(1)
    by (auto simp: open_model_circuit_def Let_def intro!: quiet_until_swept quiet_until_elsewhere)
next
  case (RecordRateLimitBackoff p)
  then show ?thesis using assms(1)
    by (auto simp: record_rate_limit_backoff_def Let_def intro!: quiet_until_swept quiet_until_elsewhere)
next
  case (IncrAPIKeyCounter u)
  then show ?thesis using assms(1)
    by (auto simp: incr_api_key_counter_def Let_def intro!: quiet_until_swept quiet_until_elsewhere)
next
  case SweepElsewhere
  then show ?thesis using assms(1) by (simp add: quiet_until_swept)
qed (use assms(1) in \<open>cases b; auto simp: clear_upstream_circuit_keys_def clear_model_circuit_keys_def
    reset_all_circuit_states_def reset_upstream_circuit_def reset_model_circuit_def
    clear_rate_limit_backoff_def\<close>)+

lemma circuit_run_quiet:
  assumes "quiet_until until (breaker_state b c)" and "\<forall>e \<in> set es. \<not> ends_probe b (snd e)"
  shows "quiet_until until (breaker_state b (circuit_run es c))"
  using assms by (induction es c rule: circuit_run.induct) (auto intro: circuit_step_quiet)

subsection \<open>Failure windows\<close>

text \<open>
  The specification of the failure counter keeps the instants of all failures reported for a
  model; the circuit is open when, at the report of one of them, the window that ends there held
  at least the threshold, and the opening has not run out.
\<close>

definition failures_in :: "duration \<Rightarrow> gotime \<Rightarrow> gotime list \<Rightarrow> gotime list" where
  "failures_in window t log = filter (\<lambda>s. t - window < s) log"

















subsection \<open>Counting the open models of an upstream\<close>

definition open_keys :: "gotime \<Rightarrow> cache \<Rightarrow> string set \<Rightarrow> string set" where
  "open_keys now c K = {key \<in> K. phase now (modelCB c key) = Open}"

lemma phase_Open: "phase now state = Open \<longleftrightarrow> (\<exists>st. state = Some st \<and> now < cs_openUntil st)"
  by (simp add: phase_def split: option.split)

lemma open_keys_insert:
  "open_keys now c (insert k K)
     = (if phase now (modelCB c k) = Open then insert k (open_keys now c K) else open_keys now c K)"
  by (auto simp: open_keys_def)

lemma open_model_count_loop:
  "open_model_count_loop (modelCB c) u now ks seen n
     = n + int (card (open_keys now c (model_circuit_key u ` set ks - set seen)))"
proof (induction ks arbitrary: seen n)
  case Nil
  then show ?case by (simp add: open_keys_def)
next
  case (Cons k ks)
  let ?key = "model_circuit_key u k" and ?K = "model_circuit_key u ` set ks"
  show ?case
  proof (cases "?key \<in> set seen")
    case True
    then have "insert ?key ?K - set seen = ?K - set seen" by blast
    then show ?thesis using True Cons.IH by (simp add: Let_def)
  next
    case False
    have eq: "insert ?key ?K - set seen = insert ?key (?K - set (?key # seen))" using False by auto
    have fin: "finite (open_keys now c (?K - set (?key # seen)))"
      by (simp add: open_keys_def)
    have notin: "?key \<notin> open_keys now c (?K - set (?key # seen))" by (simp add: open_keys_def)
    have "open_model_count_loop (modelCB c) u now (k # ks) seen n
        = open_model_count_loop (modelCB c) u now ks (?key # seen)
            (if phase now (modelCB c ?key) = Open then n + 1 else n)"
      using False by (simp add: Let_def phase_Open split: option.split)
    also have "\<dots> = (if phase now (modelCB c ?key) = Open then n + 1 else n)
        + int (card (open_keys now c (?K - set (?key # seen))))"
      by (rule Cons.IH)
    also have "\<dots> = n + int (card (open_keys now c (insert ?key (?K - set (?key # seen)))))"
      using fin notin by (simp add: open_keys_insert)
    finally show ?thesis using eq by simp
  qed
qed

text \<open>
  The number of open models the upstream breaker is tripped on counts each active model
  once, however often and with whatever blanks around it the input names it, and counts exactly
  those whose own circuit is open.
\<close>

theorem open_model_count_distinct:
  "open_model_count u ks now c = int (card (open_keys now c (set (map (model_circuit_key u) ks))))"
  using open_model_count_loop [of c u now ks "[]" 0] by (simp add: open_model_count_def)

text \<open>
  C26: Half-open probes are serialised. When a breaker, of an upstream or of a model, grants a
  probe, it grants no other one in the 30 seconds of the probe's lifetime, whatever checks,
  clears, resets, manual openings, failures of other breakers and sweeps come in between and at
  whatever instants, unless one of the operations in between ends the probe: a release of this
  breaker's probe or a failure recorded on this breaker.
\<close>

theorem half_open_probes_spaced:
  assumes "fst (check_breaker t1 b c) = ''half_open_granted''"
    and "fst (check_breaker t2 b (circuit_run es (snd (check_breaker t1 b c)))) = ''half_open_granted''"
    and "t2 < t1 + circuit_probe_ttl"
  shows "\<exists>e \<in> set es. ends_probe b (snd e)"
proof (rule ccontr)
  assume none: "\<not> ?thesis"
  let ?c = "snd (check_breaker t1 b c)"
  have "quiet_until (t1 + circuit_probe_ttl) (breaker_state b ?c)"
    using assms(1) granted_is_quiet by (simp add: check_breaker_read check_breaker_entry)
  then have "quiet_until (t1 + circuit_probe_ttl) (breaker_state b (circuit_run es ?c))"
    using none circuit_run_quiet by blast
  then show False using assms(2,3) quiet_until_verdict by (simp add: check_breaker_read)
qed

definition sample_half_open :: cache where
  "sample_half_open = new_cache\<lparr>modelCB := [''1:m'' \<mapsto> zero_circuit\<lparr>cs_openUntil := 10\<rparr>]\<rparr>"

text \<open>A released probe is granted again one nanosecond later, and the theorem names the release.\<close>

theorem half_open_probes_spaced_witness:
  "\<exists>e \<in> set [(11 :: gotime, CheckModelCircuitState 1 ''m''), (11, ReleaseRouteProbes 1 ''m'')].
     ends_probe (ModelBreaker 1 ''m'') (snd e)"
proof -
  have key: "model_circuit_key 1 ''m'' = ''1:m''" "trim_space ''m'' \<noteq> []"
    by code_simp+
  show ?thesis
    by (rule half_open_probes_spaced [of 10 _ sample_half_open 12])
      (simp_all add: sample_half_open_def key check_model_circuit_state_def check_circuit_state_def
        release_route_probes_def release_probe_def Let_def retention_defs duration_defs
        del: One_nat_def)
qed


definition sample_failure :: circuit_failure_input where
  "sample_failure =
     \<lparr>cf_UpstreamID = 1, cf_ModelKey = ''m'', cf_ModelWindowSec = 300, cf_ModelFailureThreshold = 2,
      cf_ModelDurationSec = 60, cf_UpstreamWindowSec = 300, cf_UpstreamFailureThreshold = 10,
      cf_UpstreamModelThreshold = 2, cf_UpstreamThresholdLogic = ''or'',
      cf_UpstreamDurationSec = 60, cf_ActiveModelKeys = [''m'']\<rparr>"


subsection \<open>The upstream breaker\<close>

definition upstream_fail_met :: "gotime \<Rightarrow> circuit_failure_input \<Rightarrow> cache \<Rightarrow> bool" where
  "upstream_fail_met now i c \<longleftrightarrow>
     (let st = ensure_circuit (upstreamCB c (cf_UpstreamID i));
          w = (if secs (cf_UpstreamWindowSec i) \<le> 0 then 5 * minute
               else secs (cf_UpstreamWindowSec i))
      in now < cs_probeUntil st
         \<or> (0 < cf_UpstreamFailureThreshold i
            \<and> cf_UpstreamFailureThreshold i \<le> int (length (failures_in w now (cs_failures st))) + 1))"

definition upstream_model_met :: "gotime \<Rightarrow> circuit_failure_input \<Rightarrow> cache \<Rightarrow> bool" where
  "upstream_model_met now i c \<longleftrightarrow>
     0 < cf_UpstreamModelThreshold i
     \<and> cf_UpstreamModelThreshold i
         \<le> int (card (open_keys now (record_model_failure now i c)
               (set (map (model_circuit_key (cf_UpstreamID i)) (cf_ActiveModelKeys i)))))"

definition upstream_trips :: "gotime \<Rightarrow> circuit_failure_input \<Rightarrow> cache \<Rightarrow> bool" where
  "upstream_trips now i c \<longleftrightarrow>
     0 < cf_UpstreamDurationSec i \<and>
     (if trim_space (cf_UpstreamThresholdLogic i) = ''and''
         \<and> 0 < cf_UpstreamFailureThreshold i \<and> 0 < cf_UpstreamModelThreshold i
      then upstream_fail_met now i c \<and> upstream_model_met now i c
      else if trim_space (cf_UpstreamThresholdLogic i) = ''and''
      then (0 < cf_UpstreamFailureThreshold i \<and> upstream_fail_met now i c)
           \<or> (0 < cf_UpstreamModelThreshold i \<and> upstream_model_met now i c)
      else upstream_fail_met now i c \<or> upstream_model_met now i c)"

lemma record_upstream_failure_entry:
  "\<exists>st. upstreamCB (record_upstream_failure now i (record_model_failure now i c)) (cf_UpstreamID i) = Some st
    \<and> cs_openUntil st = (if upstream_trips now i c then now + secs (cf_UpstreamDurationSec i)
        else cs_openUntil (ensure_circuit (upstreamCB c (cf_UpstreamID i))))
    \<and> cs_lastFailure st = now \<and> cs_probeUntil st = 0"
proof -
  have keep: "upstreamCB (record_model_failure now i c) = upstreamCB c"
    by (simp add: record_model_failure_def Let_def split: prod.split)
  have mm: "(0 < cf_UpstreamModelThreshold i \<and> cf_UpstreamModelThreshold i
      \<le> open_model_count (cf_UpstreamID i) (cf_ActiveModelKeys i) now (record_model_failure now i c))
    = upstream_model_met now i c"
    unfolding open_model_count_def upstream_model_met_def by (subst open_model_count_loop) simp
  let ?old = "ensure_circuit (upstreamCB c (cf_UpstreamID i))"
  obtain pf st where st: "fail_circuit now (cf_UpstreamWindowSec i) ?old = (pf, st)"
    by (cases "fail_circuit now (cf_UpstreamWindowSec i) ?old")
  have fm: "(pf \<or> should_trip st (cf_UpstreamFailureThreshold i)) = upstream_fail_met now i c"
    using st by (auto simp: fail_circuit_def record_failure_def Let_def should_trip_def
        upstream_fail_met_def failures_in_def)
  have fields: "cs_openUntil st = cs_openUntil ?old" "cs_lastFailure st = now" "cs_probeUntil st = 0"
    using st by (auto simp: fail_circuit_def record_failure_def Let_def)
  have trip: "(should_trip_upstream (upstream_fail_met now i c) (cf_UpstreamFailureThreshold i)
      (upstream_model_met now i c) (cf_UpstreamModelThreshold i) (cf_UpstreamThresholdLogic i)
      \<and> 0 < cf_UpstreamDurationSec i) = upstream_trips now i c"
    by (auto simp: should_trip_upstream_def upstream_trips_def)
  have "upstreamCB (record_upstream_failure now i (record_model_failure now i c)) (cf_UpstreamID i)
      = Some (if upstream_trips now i c then trip_circuit now (cf_UpstreamDurationSec i) st else st)"
    by (simp add: record_upstream_failure_def keep st fm mm Let_def flip: trip)
  then show ?thesis using fields by (auto simp: trip_circuit_def)
qed

text \<open>
  One failure report drives the upstream breaker by its documented rule: it opens for the
  configured time exactly when the own failures of the upstream reach their threshold (or its
  probe failed) and/or enough of its models are open, combined by the configured logic, and
  otherwise an earlier opening is left as it was. Breakers of other upstreams do not notice.
\<close>

theorem upstream_breaker_rule:
  assumes "cf_UpstreamID i \<noteq> 0" and "trim_space (cf_ModelKey i) \<noteq> []"
    and "0 \<le> now" and "now < t"
  shows "fst (check_upstream_circuit_state t u (record_circuit_failure now i c)) = ''open'' \<longleftrightarrow>
     (if u = cf_UpstreamID i \<and> upstream_trips now i c then t < now + secs (cf_UpstreamDurationSec i)
      else fst (check_upstream_circuit_state t u c) = ''open'')"
proof -
  let ?c = "record_upstream_failure now i (record_model_failure now i c)"
  have "fst (check_upstream_circuit_state t u (record_circuit_failure now i c))
      = fst (check_upstream_circuit_state t u ?c)"
    using assms by (simp add: record_circuit_failure_def upstream_circuit_read.read_maybe_sweep)
  moreover have "upstreamCB ?c u = upstreamCB c u" if "u \<noteq> cf_UpstreamID i"
    using that by (auto simp: record_upstream_failure_def record_model_failure_def Let_def split: prod.split)
  moreover have "\<not> t < 0" using assms by simp
  ultimately show ?thesis
    using record_upstream_failure_entry [of now i c]
    by (cases "u = cf_UpstreamID i"; cases "upstreamCB c (cf_UpstreamID i)")
      (auto simp: check_upstream_verdict verdict_open_iff)
qed

theorem upstream_breaker_rule_witness:
  "fst (check_upstream_circuit_state 2 1 (record_circuit_failure 1 (sample_failure\<lparr>cf_UpstreamFailureThreshold := 1\<rparr>) new_cache)) = ''open''"
proof -
  have trim: "trim_space ''m'' = ''m''" "trim_space ''or'' = ''or''" by code_simp+
  show ?thesis
    using upstream_breaker_rule [of "sample_failure\<lparr>cf_UpstreamFailureThreshold := 1\<rparr>" 1 2 1 new_cache]
    by (simp add: sample_failure_def trim upstream_trips_def upstream_fail_met_def Let_def secs_id second_def)
qed

subsection \<open>Exponential backoff\<close>

lemma backoff_loop_closed:
  assumes "0 < b" and "2 \<le> m" and "0 < M" and "M * m < 2 ^ 63"
  shows "min M (backoff_loop i attempt m M b) = min M (b * m ^ nat (attempt - i))"
  using assms
proof (induction i attempt m M b rule: backoff_loop.induct)
  case (1 i attempt m M b)
  show ?case
  proof (cases "i < attempt \<and> b < M")
    case False
    have "b \<le> b * m ^ n" for n using 1(2,3) by simp
    then have "M \<le> b \<Longrightarrow> M \<le> b * m ^ nat (attempt - i)" using order_trans by blast
    then show ?thesis using False by (subst backoff_loop.simps) (auto simp: min_def)
  next
    case True
    have "b * m \<le> M * m" using True 1(3) by (simp add: mult_right_mono)
    then have "b * m < 2 ^ 63" using 1(5) by (rule le_less_trans)
    then have w: "wrap64 (b * m) = b * m" using 1(2,3) by (intro wrap64_nonneg_small) simp_all
    have n: "nat (attempt - i) = Suc (nat (attempt - (i + 1)))" using True by arith
    have le: "b * m \<le> b * m * m ^ k" for k using 1(2,3) by simp
    show ?thesis
    proof (cases "M \<le> b * m")
      case big: True
      then have "M \<le> b * m ^ nat (attempt - i)"
        using le [of "nat (attempt - (i + 1))"] by (simp add: n mult.assoc)
      then show ?thesis using True big by (subst backoff_loop.simps) (simp add: w Let_def)
    next
      case small: False
      then have "backoff_loop i attempt m M b = backoff_loop (i + 1) attempt m M (b * m)"
        using True by (subst backoff_loop.simps) (simp add: w Let_def)
      moreover have "min M (backoff_loop (i + 1) attempt m M (b * m))
          = min M (b * m * m ^ nat (attempt - (i + 1)))"
        using 1(1) [OF _ _ refl] True small 1(2-5) by (simp add: w)
      ultimately show ?thesis by (simp add: n mult.assoc)
    qed
  qed
qed

definition backoff_config_ok :: "rate_limit_backoff_params \<Rightarrow> bool" where
  "backoff_config_ok p \<longleftrightarrow> 0 < rb_BackoffBaseSec p \<and> 0 < rb_BackoffMaxSec p
     \<and> 2 \<le> rb_BackoffMultiplier p \<and> rb_BackoffMaxSec p * rb_BackoffMultiplier p < 2 ^ 63"

lemma calculate_backoff_closed:
  assumes "backoff_config_ok p"
  shows "calculate_backoff_seconds n p
     = min (rb_BackoffMaxSec p)
         (max (rb_RetryAfterSec p) (rb_BackoffBaseSec p * rb_BackoffMultiplier p ^ nat (n - 1)))"
proof -
  let ?l = "backoff_loop 1 n (rb_BackoffMultiplier p) (rb_BackoffMaxSec p) (rb_BackoffBaseSec p)"
  have "calculate_backoff_seconds n p = min (rb_BackoffMaxSec p) (max (rb_RetryAfterSec p) ?l)"
    using assms by (auto simp: calculate_backoff_seconds_def backoff_config_ok_def Let_def)
  also have "\<dots> = min (rb_BackoffMaxSec p) (max (rb_RetryAfterSec p) (min (rb_BackoffMaxSec p) ?l))"
    by linarith
  finally show ?thesis
    using backoff_loop_closed [of "rb_BackoffBaseSec p" "rb_BackoffMultiplier p" "rb_BackoffMaxSec p" 1 n] assms
    by (simp add: backoff_config_ok_def) linarith
qed

lemma calculate_backoff_bounds:
  "0 < calculate_backoff_seconds n p
   \<and> calculate_backoff_seconds n p \<le> (if rb_BackoffMaxSec p \<le> 0 then 60 else rb_BackoffMaxSec p)"
  if "backoff_config_ok p"
proof -
  have "0 < rb_BackoffBaseSec p * rb_BackoffMultiplier p ^ nat (n - 1)"
    using that by (simp add: backoff_config_ok_def)
  then show ?thesis using that unfolding calculate_backoff_closed [OF that]
    by (auto simp: backoff_config_ok_def less_max_iff_disj)
qed

text \<open>Consecutive rate-limit answers of one route, none more than five minutes after the last.\<close>

fun within_gap :: "duration \<Rightarrow> gotime \<Rightarrow> gotime list \<Rightarrow> bool" where
  "within_gap g t [] = True"
| "within_gap g t (u # us) \<longleftrightarrow> t \<le> u \<and> u \<le> t + g \<and> within_gap g u us"

lemma record_backoff_entry:
  assumes "rb_UpstreamID p \<noteq> 0" and "rb_RouteID p \<noteq> 0"
  shows "rateLimits (record_rate_limit_backoff now p c) (rb_UpstreamID p, rb_RouteID p) =
    (let st = get_or zero_rate_limit (rateLimits c) (rb_UpstreamID p, rb_RouteID p);
         n = wrap64 ((if rl_countExpires st < now then 0 else rl_backoffCount st) + 1)
     in Some \<lparr>rl_backoffUntil = now + secs (calculate_backoff_seconds n p), rl_backoffCount = n,
              rl_countExpires = now + 5 * minute\<rparr>)"
  unfolding record_rate_limit_backoff_def Let_def
  by (simp add: assms duration_defs maybe_sweep_live)

lemma backoff_run_entry:
  assumes "rb_UpstreamID p \<noteq> 0" and "rb_RouteID p \<noteq> 0"
    and "rateLimits c (rb_UpstreamID p, rb_RouteID p)
       = Some \<lparr>rl_backoffUntil = t + secs (calculate_backoff_seconds n p), rl_backoffCount = n,
               rl_countExpires = t + 5 * minute\<rparr>"
    and "within_gap (5 * minute) t ts" and "0 \<le> n" and "n + int (length ts) < 2 ^ 63"
  shows "rateLimits (fold (\<lambda>u. record_rate_limit_backoff u p) ts c) (rb_UpstreamID p, rb_RouteID p)
    = Some \<lparr>rl_backoffUntil = last (t # ts) + secs (calculate_backoff_seconds (n + int (length ts)) p),
            rl_backoffCount = n + int (length ts), rl_countExpires = last (t # ts) + 5 * minute\<rparr>"
  using assms(3-)
proof (induction ts arbitrary: c t n)
  case Nil
  then show ?case by simp
next
  case (Cons u us)
  let ?c = "record_rate_limit_backoff u p c"
  have "rateLimits ?c (rb_UpstreamID p, rb_RouteID p)
     = Some \<lparr>rl_backoffUntil = u + secs (calculate_backoff_seconds (n + 1) p), rl_backoffCount = n + 1,
             rl_countExpires = u + 5 * minute\<rparr>"
    using Cons.prems by (simp add: record_backoff_entry [OF assms(1,2)] Let_def wrap64_nonneg_small)
  from Cons.IH [OF this] Cons.prems show ?case by (simp add: add.assoc)
qed

text \<open>
  Rate-limit backoff is exponential and bounded: after n+1 rate-limit answers of a route, each
  within five minutes of the one before, the route is blocked for
  \<open>min max (max retryAfter (base * multiplier ^ n))\<close> seconds from the last of them, and a reader at
  any instant sees what is left of that, never a negative time. The maximum stays below the
  292 years a \<open>Duration\<close> can hold.
\<close>

theorem rate_limit_backoff_exponential:
  assumes "rb_UpstreamID p \<noteq> 0" and "rb_RouteID p \<noteq> 0" and "backoff_config_ok p"
    and "rb_BackoffMaxSec p \<le> 9223372036"
    and "rateLimits c (rb_UpstreamID p, rb_RouteID p) = None" and "0 < t"
    and "within_gap (5 * minute) t ts" and "int (length ts) < 2 ^ 62" and "last (t # ts) \<le> now"
  shows "get_rate_limit_backoff now (rb_UpstreamID p) (rb_RouteID p)
           (fold (\<lambda>u. record_rate_limit_backoff u p) (t # ts) c)
    = max 0 (last (t # ts) - now
        + min (rb_BackoffMaxSec p) (max (rb_RetryAfterSec p)
            (rb_BackoffBaseSec p * rb_BackoffMultiplier p ^ length ts)) * second)"
proof -
  let ?c = "record_rate_limit_backoff t p c" and ?n = "1 + int (length ts)"
  let ?b = "calculate_backoff_seconds ?n p"
  have "rateLimits ?c (rb_UpstreamID p, rb_RouteID p)
     = Some \<lparr>rl_backoffUntil = t + secs (calculate_backoff_seconds 1 p), rl_backoffCount = 1,
             rl_countExpires = t + 5 * minute\<rparr>"
    using assms(5,6)
    by (simp add: record_backoff_entry [OF assms(1,2)] Let_def zero_rate_limit_def wrap64_nonneg_small)
  from backoff_run_entry [OF assms(1,2) this assms(7)]
  have entry: "rateLimits (fold (\<lambda>u. record_rate_limit_backoff u p) (t # ts) c) (rb_UpstreamID p, rb_RouteID p)
    = Some \<lparr>rl_backoffUntil = last (t # ts) + secs ?b, rl_backoffCount = ?n,
            rl_countExpires = last (t # ts) + 5 * minute\<rparr>"
    using assms(8) by simp
  have b: "0 < ?b" "?b \<le> 9223372036"
    using calculate_backoff_bounds [OF assms(3), of ?n] assms(3,4)
    by (auto simp: backoff_config_ok_def split: if_splits)
  have s: "secs ?b = ?b * second" using b by (simp add: secs_id)
  have "?b * second \<le> 9223372036 * second" using b by (simp add: second_def)
  then have "time_sub (last (t # ts) + ?b * second) now \<le> 2 ^ 63 - 1"
    and small: "?b * second \<le> 2 ^ 63 - 1" by (simp_all add: time_sub_def second_def)
  then have "get_rate_limit_backoff now (rb_UpstreamID p) (rb_RouteID p)
           (fold (\<lambda>u. record_rate_limit_backoff u p) (t # ts) c)
     = max 0 (last (t # ts) - now + ?b * second)"
    using assms(1,2,9) entry s small
    by (simp add: get_rate_limit_backoff_def Let_def time_sub_def max_def min_def)
  then show ?thesis by (simp add: calculate_backoff_closed [OF assms(3)])
qed

theorem rate_limit_backoff_exponential_witness:
  "get_rate_limit_backoff 7 1 1 (fold (\<lambda>u. record_rate_limit_backoff u
      \<lparr>rb_UpstreamID = 1, rb_RouteID = 1, rb_BackoffBaseSec = 5, rb_BackoffMaxSec = 60,
       rb_BackoffMultiplier = 2, rb_RetryAfterSec = 0\<rparr>) [1, 4, 7] new_cache) = 20 * second"
  using rate_limit_backoff_exponential [of
      "\<lparr>rb_UpstreamID = 1, rb_RouteID = 1, rb_BackoffBaseSec = 5, rb_BackoffMaxSec = 60,
        rb_BackoffMultiplier = 2, rb_RetryAfterSec = 0\<rparr>" new_cache 1 "[4, 7]" 7]
  by (simp add: backoff_config_ok_def new_cache_def duration_defs)

subsection \<open>The API-key counter\<close>

fun incr_run :: "cache \<Rightarrow> (gotime \<times> nat) list \<Rightarrow> int list" where
  "incr_run c [] = []"
| "incr_run c ((now, u) # es) =
     (let ((n, ok), c') = incr_api_key_counter now u c in n # incr_run c' es)"

definition draws_of :: "nat \<Rightarrow> (gotime \<times> nat) list \<Rightarrow> int list \<Rightarrow> int list" where
  "draws_of u es ns = map snd (filter (\<lambda>(e, n). snd e = u) (zip es ns))"

lemma incr_step_entry:
  assumes "\<And>k. keyCounters c u = Some k \<Longrightarrow> t0 \<le> ak_lastUsed k" and "t0 \<le> now"
    and "now \<le> t0 + key_counter_retention"
  shows "keyCounters (snd (incr_api_key_counter now v c)) u =
    (if v = u then Some \<lparr>ak_next = wrap64 (ak_next (get_or zero_key_counter (keyCounters c) u) + 1),
                        ak_lastUsed = now\<rparr>
     else keyCounters c u)"
proof (cases "v = u")
  case True
  then show ?thesis
    by (simp add: incr_api_key_counter_def Let_def maybe_sweep_live retention_defs)
next
  case False
  let ?c = "c\<lparr>keyCounters := (keyCounters c)(v \<mapsto>
     \<lparr>ak_next = wrap64 (ak_next (get_or zero_key_counter (keyCounters c) v) + 1), ak_lastUsed = now\<rparr>)\<rparr>"
  have "keyCounters (maybe_sweep now ?c) u = keyCounters c u"
  proof (cases "keyCounters c u")
    case None
    then have "keyCounters (maybe_sweep now ?c) u \<noteq> Some k" for k
      using maybe_sweep_sub(13) [of now ?c u k] False by auto
    then show ?thesis using None by (metis option.exhaust)
  next
    case (Some k)
    then show ?thesis using False assms(1) [OF Some] assms(3)
      by (intro trans [OF maybe_sweep_live(13) [where ?i12.0 = k]]) simp_all
  qed
  then show ?thesis using False by (simp add: incr_api_key_counter_def Let_def)
qed

text \<open>
  The API-key counter is a fair round robin: over any interleaving of draws for any upstreams
  within a day, the draws of one upstream are consecutive numbers from its first one on, none
  lost to the sweep and none given twice.
\<close>

theorem api_key_draws_consecutive:
  assumes "\<forall>e \<in> set es. t0 \<le> fst e \<and> fst e \<le> t0 + key_counter_retention"
    and "\<And>k. keyCounters c u = Some k \<Longrightarrow> t0 \<le> ak_lastUsed k"
    and "n = ak_next (get_or zero_key_counter (keyCounters c) u)"
    and "0 \<le> n" and "n + int (length es) < 2 ^ 63"
  shows "draws_of u es (incr_run c es)
    = map (\<lambda>i. n + int i) [0..<length (filter (\<lambda>e. snd e = u) es)]"
  using assms
proof (induction es arbitrary: c n)
  case Nil
  then show ?case by (simp add: draws_of_def)
next
  case (Cons e es)
  obtain now v where e: "e = (now, v)" by (cases e)
  let ?c = "snd (incr_api_key_counter now v c)"
  have run: "incr_run c (e # es) = ak_next (get_or zero_key_counter (keyCounters c) v) # incr_run ?c es"
    by (simp add: e incr_api_key_counter_def Let_def)
  have now: "t0 \<le> now" "now \<le> t0 + key_counter_retention" using Cons.prems(1) e by simp_all
  note entry = incr_step_entry [of c u t0 now v, OF Cons.prems(2) now]
  show ?case
  proof (cases "v = u")
    case False
    then have "draws_of u es (incr_run ?c es)
        = map (\<lambda>i. n + int i) [0..<length (filter (\<lambda>e. snd e = u) es)]"
      using Cons.prems entry by (intro Cons.IH) (auto simp: get_or_def)
    then show ?thesis unfolding run using False by (simp add: draws_of_def e)
  next
    case True
    have "draws_of u es (incr_run ?c es)
        = map (\<lambda>i. n + 1 + int i) [0..<length (filter (\<lambda>e. snd e = u) es)]"
      using Cons.prems True entry now
      by (intro Cons.IH) (auto simp: get_or_def wrap64_nonneg_small)
    moreover have "map (\<lambda>i. n + int i) [0..<Suc m] = n # map (\<lambda>i. n + 1 + int i) [0..<m]" for m
      by (simp add: map_upt_Suc algebra_simps del: upt_Suc)
    ultimately show ?thesis unfolding run using True Cons.prems(3) by (simp add: draws_of_def e del: upt_Suc)
  qed
qed

theorem api_key_draws_consecutive_witness:
  "draws_of 1 [(1, 1), (2, 2), (3, 1)] (incr_run new_cache [(1, 1), (2, 2), (3, 1)]) = [0, 1]"
  using api_key_draws_consecutive [of "[(1, 1), (2, 2), (3, 1)]" 1 new_cache 1 0]
  by (simp add: new_cache_def zero_key_counter_def retention_defs del: incr_run.simps)

end
