(* ===== verification/Routing.thy ===== *)
theory Routing
  imports Adapters Breaker Circuit
begin

text \<open>
  Choosing a route for a model request (\<open>ResolveRoute\<close> in
  \<open>application/channel/service_routing.go\<close>): access checks, the filter of the candidate routes,
  the weighted draw inside a priority group, the two-level circuit breaker and the choice of an
  API key. The cache is reached through its repository interface, a record of operations on
  an abstract state, so that the lemmas hold for any cache that keeps the contract; the
  in-memory cache is shown to keep it. \<open>rand.Intn\<close> takes its values from a list of draws.
  Log lines are left out.
\<close>

subsection \<open>Data\<close>

record api_key =
  ak_Key :: string
  ak_Status :: string
  ak_Note :: string

record api_keys_config =
  kc_Strategy :: string
  kc_Keys :: "api_key list"

record rate_limit_defaults =
  rd_BackoffBaseSec :: int
  rd_BackoffMaxSec :: int
  rd_BackoffMultiplier :: int

record breaker_error_classification =
  ec_CircuitErrors :: "string list"
  ec_RateLimitErrors :: "string list"
  ec_IgnoreErrors :: "string list"

record platform_model =
  pm_ID :: nat
  pm_AccessScope :: string

record route_row =
  rr_RouteID :: nat
  rr_UpstreamModelID :: nat
  rr_UpstreamID :: nat
  rr_UpstreamName :: string
  rr_PlatformModelID :: nat
  rr_PlatformModelName :: string
  rr_ModelVendor :: string
  rr_ModelIcon :: string
  rr_ModelKindsJSON :: string
  rr_ModelCapabilitiesJSON :: string
  rr_ModelSystemPrompt :: string
  rr_Protocol :: string
  rr_BaseURL :: string
  rr_APIKeysEnc :: string
  rr_ConnectTimeoutMS :: int
  rr_ReadTimeoutMS :: int
  rr_StreamIdleTimeoutMS :: int
  rr_HeadersJSON :: string
  rr_RouteHeadersJSON :: string
  rr_BindingCode :: string
  rr_UpstreamModelName :: string
  rr_Weight :: int
  rr_RoutePriority :: int
  rr_UpstreamCbFailureThreshold :: int
  rr_UpstreamCbModelThreshold :: int
  rr_UpstreamCbThresholdLogic :: string
  rr_UpstreamCbDurationMin :: int
  rr_UpstreamCbWindowMin :: int
  rr_PlatformModelCbPolicyMode :: string
  rr_PlatformModelCbFailureThreshold :: int
  rr_PlatformModelCbDurationMin :: int
  rr_PlatformModelCbWindowMin :: int
  rr_ModelCbFailureThreshold :: int
  rr_ModelCbDurationMin :: int
  rr_ModelCbWindowMin :: int

record resolved_route =
  rt_RouteID :: nat
  rt_PlatformModelID :: nat
  rt_PlatformModelName :: string
  rt_UpstreamModelID :: nat
  rt_UpstreamID :: nat
  rt_UpstreamName :: string
  rt_BindingCode :: string
  rt_Protocol :: string
  rt_BaseURL :: string
  rt_APIKey :: string
  rt_ConnectTimeoutMS :: int
  rt_ReadTimeoutMS :: int
  rt_StreamIdleTimeoutMS :: int
  rt_HeadersJSON :: string
  rt_ModelVendor :: string
  rt_ModelIcon :: string
  rt_ModelCapabilitiesJSON :: string
  rt_ModelSystemPrompt :: string
  rt_UpstreamModel :: string
  rt_ReasoningContentPassback :: bool
  rt_ReasoningPassbackRequestOptions :: "string \<rightharpoonup> bool"
  rt_UpstreamCbFailureThreshold :: int
  rt_UpstreamCbModelThreshold :: int
  rt_UpstreamCbThresholdLogic :: string
  rt_UpstreamCbDurationMin :: int
  rt_UpstreamCbWindowMin :: int
  rt_PlatformModelCbPolicyMode :: string
  rt_PlatformModelCbFailureThreshold :: int
  rt_PlatformModelCbDurationMin :: int
  rt_PlatformModelCbWindowMin :: int
  rt_ModelCbFailureThreshold :: int
  rt_ModelCbDurationMin :: int
  rt_ModelCbWindowMin :: int
  rt_UpstreamProbeGranted :: bool
  rt_ModelProbeGranted :: bool

record resolve_route_input =
  ri_PlatformModelName :: string
  ri_TaskType :: string
  ri_Scope :: string
  ri_UserID :: nat
  ri_ExcludedRouteIDs :: "nat list"

record route_candidate =
  ca_row :: route_row
  ca_apiKey :: string

datatype route_err =
    ErrModelNotFound
  | ErrModelAccessDenied
  | ErrRouteNotFound
  | ErrAllRoutesUnavailable
  | RoutesRateLimitedError duration
  | Failed string \<comment> \<open>an error of the database or the cache, passed on\<close>

subsection \<open>Interfaces\<close>

text \<open>
  The cache as the routing code sees it (\<open>ChannelCacheRepository\<close>). An operation whose error is
  only logged gives back the state alone.
\<close>

record 'c cache_ops =
  op_CheckUpstreamCircuitState :: "nat \<Rightarrow> 'c \<Rightarrow> (string + string) \<times> 'c"
  op_CheckModelCircuitState :: "nat \<Rightarrow> string \<Rightarrow> 'c \<Rightarrow> (string + string) \<times> 'c"
  op_RecordCircuitFailure :: "circuit_failure_input \<Rightarrow> 'c \<Rightarrow> 'c"
  op_RecordFailureMetadata :: "nat \<Rightarrow> string \<Rightarrow> 'c \<Rightarrow> 'c"
  op_RecordSuccessMetadata :: "nat \<Rightarrow> 'c \<Rightarrow> 'c"
  op_ClearUpstreamCircuitKeys :: "nat \<Rightarrow> 'c \<Rightarrow> 'c"
  op_ClearModelCircuitKeys :: "nat \<Rightarrow> string \<Rightarrow> 'c \<Rightarrow> 'c"
  op_ReleaseRouteProbes :: "nat \<Rightarrow> string \<Rightarrow> 'c \<Rightarrow> 'c"
  op_GetRateLimitBackoff :: "nat \<Rightarrow> nat \<Rightarrow> 'c \<Rightarrow> (string + duration) \<times> 'c"
  op_RecordRateLimitBackoff :: "rate_limit_backoff_params \<Rightarrow> 'c \<Rightarrow> 'c"
  op_ClearRateLimitBackoff :: "nat \<Rightarrow> nat \<Rightarrow> 'c \<Rightarrow> 'c"
  op_IncrAPIKeyCounter :: "nat \<Rightarrow> 'c \<Rightarrow> (int \<times> bool) \<times> 'c"

definition memory_cache_ops :: "gotime \<Rightarrow> cache cache_ops" where
  \<comment> \<open>the methods of the in-memory cache, all called at the instant \<open>now\<close>\<close>
  "memory_cache_ops now =
     \<lparr>op_CheckUpstreamCircuitState = (\<lambda>u c. map_prod Inr id (check_upstream_circuit_state now u c)),
      op_CheckModelCircuitState = (\<lambda>u k c. map_prod Inr id (check_model_circuit_state now u k c)),
      op_RecordCircuitFailure = record_circuit_failure now,
      op_RecordFailureMetadata = record_failure_metadata now,
      op_RecordSuccessMetadata = record_success_metadata now,
      op_ClearUpstreamCircuitKeys = clear_upstream_circuit_keys,
      op_ClearModelCircuitKeys = clear_model_circuit_keys,
      op_ReleaseRouteProbes = release_route_probes,
      op_GetRateLimitBackoff = (\<lambda>u r c. (Inr (get_rate_limit_backoff now u r c), c)),
      op_RecordRateLimitBackoff = record_rate_limit_backoff now,
      op_ClearRateLimitBackoff = clear_rate_limit_backoff,
      op_IncrAPIKeyCounter = incr_api_key_counter now\<rparr>"

text \<open>The queries of the repositories, as they answer during one call.\<close>

record perm_group_repo =
  pg_ListModelGroupIDs :: "nat \<Rightarrow> string + nat list"
  pg_ListUserGroupIDs :: "nat \<Rightarrow> string + nat list"
  pg_ListDefaultGroupIDs :: "string + nat list"

record route_repo =
  rp_GetActiveModelByName :: "string \<Rightarrow> route_err + platform_model"
  rp_ListActiveRoutesByModel :: "string \<Rightarrow> route_err + route_row list"
  rp_ListActiveRouteBindingCodesForUpstream :: "nat \<Rightarrow> string + string list"
  rp_GetBreakerErrorClassification :: breaker_error_classification
  rp_GetBreakerDefaults :: "string + breaker_defaults"
  rp_GetRateLimitDefaults :: rate_limit_defaults
  rp_permGroups :: "perm_group_repo option"
  rp_subGroupResolver :: "(nat \<Rightarrow> string + nat option) option"

text \<open>
  The code the routes are decoded with: \<open>encoding/json\<close> (arrays of strings, API-key payloads),
  decryption, the URL check, the merge of header objects, the vendor table, and the HTTP date
  parser of \<open>net/http\<close>.
\<close>

record route_env =
  env_strings_of :: "string \<Rightarrow> string list option"
  env_decrypt :: "string \<Rightarrow> string option"
  env_keys_of :: "string \<Rightarrow> api_keys_config option"
  env_trustedURL :: "string \<Rightarrow> bool"
  env_mergeHeaders :: "string \<Rightarrow> string \<Rightarrow> string"
  env_detectVendor :: "string list \<Rightarrow> string"
  env_parseTime :: "string \<Rightarrow> gotime option"

text \<open>
  What the service keeps: the cache, the draws of \<open>math/rand\<close> still to come, the local API-key
  counters that stand in for a cache without counter, and the cell of the breaker defaults.
\<close>

record 'c routing_state =
  w_cache :: 'c
  w_draws :: "nat list"
  w_localCounters :: "nat \<Rightarrow> nat"
  w_breaker :: breaker_cell

definition rand_intn :: "nat \<Rightarrow> 'c routing_state \<Rightarrow> nat \<times> 'c routing_state" where
  "rand_intn n st =
     (case w_draws st of
        [] \<Rightarrow> (0, st)
      | d # ds \<Rightarrow> (d mod n, st\<lparr>w_draws := ds\<rparr>))"

definition with_cache :: "('c \<Rightarrow> 'a \<times> 'c) \<Rightarrow> 'c routing_state \<Rightarrow> 'a \<times> 'c routing_state" where
  "with_cache f st = (let (a, c) = f (w_cache st) in (a, st\<lparr>w_cache := c\<rparr>))"

subsection \<open>Names, scopes and access\<close>

definition is_control_or_odd_space :: "string \<Rightarrow> bool" where
  \<comment> \<open>\<open>hasUnsafeModelNameRune\<close> on the encoding of a rune\<close>
  "is_control_or_odd_space r \<longleftrightarrow>
     (case r of
        [c] \<Rightarrow> byte_in 0 0x1F c \<or> byte_in 0x7F 0x7F c
      | [c, d] \<Rightarrow> c = CHR 0xC2 \<and> byte_in 0x80 0x9F d
      | _ \<Rightarrow> False)
     \<or> (r \<in> set space_codes \<and> r \<noteq> '' '')"

definition normalize_platform_model_name :: "string \<Rightarrow> string option" where
  "normalize_platform_model_name raw =
     (let value = trim_space raw
      in if value = [] then None
         else if list_ex is_control_or_odd_space (runes_of value) then None
         else Some value)"

definition normalize_route_scope :: "string \<Rightarrow> string" where
  "normalize_route_scope raw =
     (if trim_space (to_lower raw) = ''internal'' then ''internal'' else ''user'')"

definition normalize_model_access_scope_value :: "string \<Rightarrow> string" where
  "normalize_model_access_scope_value raw =
     (let value = trim_space (to_lower raw) in if value = [] then ''public'' else value)"

definition route_scope_allows_model_access :: "string \<Rightarrow> string \<Rightarrow> bool" where
  "route_scope_allows_model_access routeScope modelAccessScope =
     (if normalize_route_scope routeScope = ''internal'' then True
      else normalize_model_access_scope_value modelAccessScope = ''public'')"

definition resolve_user_group_ids :: "route_repo \<Rightarrow> nat \<Rightarrow> string + nat set" where
  "resolve_user_group_ids repo userID =
     (case rp_permGroups repo of
        None \<Rightarrow> Inr {}
      | Some groups \<Rightarrow>
          if userID = 0 then Inr {}
          else case pg_ListUserGroupIDs groups userID of
            Inl e \<Rightarrow> Inl e
          | Inr ids \<Rightarrow>
              (case pg_ListDefaultGroupIDs groups of
                 Inl e \<Rightarrow> Inl e
               | Inr defaultIDs \<Rightarrow>
                   (case rp_subGroupResolver repo of
                      None \<Rightarrow> Inr (set ids \<union> set defaultIDs)
                    | Some resolver \<Rightarrow>
                        (case resolver userID of
                           Inl e \<Rightarrow> Inl e
                         | Inr None \<Rightarrow> Inr (set ids \<union> set defaultIDs)
                         | Inr (Some g) \<Rightarrow> Inr (insert g (set ids \<union> set defaultIDs))))))"

definition is_model_accessible :: "route_repo \<Rightarrow> nat \<Rightarrow> nat \<Rightarrow> string + bool" where
  "is_model_accessible repo platformModelID userID =
     (case rp_permGroups repo of
        None \<Rightarrow> Inr True
      | Some groups \<Rightarrow>
          if userID = 0 then Inr True
          else case pg_ListModelGroupIDs groups platformModelID of
            Inl e \<Rightarrow> Inl e
          | Inr modelGroups \<Rightarrow>
              if modelGroups = [] then Inr False
              else case resolve_user_group_ids repo userID of
                Inl e \<Rightarrow> Inl e
              | Inr userGroups \<Rightarrow> Inr (list_ex (\<lambda>gid. gid \<in> userGroups) modelGroups))"

subsection \<open>Choosing an API key\<close>

definition parse_api_keys_config :: "route_env \<Rightarrow> string \<Rightarrow> api_keys_config option" where
  "parse_api_keys_config env encrypted =
     (case env_decrypt env encrypted of
        None \<Rightarrow> None
      | Some raw \<Rightarrow>
          if trim_space raw = [] then Some \<lparr>kc_Strategy = [], kc_Keys = []\<rparr>
          else env_keys_of env (trim_space raw))"

definition active_api_keys :: "api_key list \<Rightarrow> api_key list" where
  "active_api_keys entries =
     filter (\<lambda>e. (ak_Status e = [] \<or> ak_Status e = ''active'') \<and> trim_space (ak_Key e) \<noteq> []) entries"

definition next_local_api_key_index :: "nat \<Rightarrow> 'c routing_state \<Rightarrow> nat \<times> 'c routing_state" where
  "next_local_api_key_index upstreamID st =
     (let n = w_localCounters st upstreamID
      in (n, st\<lparr>w_localCounters := (w_localCounters st)(upstreamID := (n + 1) mod 2 ^ 64)\<rparr>))"

definition next_api_key_index ::
  "'c cache_ops option \<Rightarrow> nat \<Rightarrow> 'c routing_state \<Rightarrow> nat \<times> 'c routing_state" where
  "next_api_key_index cache upstreamID st =
     (if upstreamID = 0 then rand_intn 1024 st
      else case cache of
        None \<Rightarrow> next_local_api_key_index upstreamID st
      | Some c \<Rightarrow>
          let ((idx, ok), st') = with_cache (op_IncrAPIKeyCounter c upstreamID) st
          in if ok then (nat (idx mod 2 ^ 64), st') else next_local_api_key_index upstreamID st')"

definition pick_active_key ::
  "'c cache_ops option \<Rightarrow> nat \<Rightarrow> api_key list \<Rightarrow> string \<Rightarrow> 'c routing_state
     \<Rightarrow> string option \<times> 'c routing_state" where
  "pick_active_key cache upstreamID entries strategy st =
     (let active = active_api_keys entries
      in if active = [] then (None, st)
         else if trim_space strategy = ''failover'' then (Some (ak_Key (active ! 0)), st)
         else if trim_space strategy = ''round_robin'' then
           (let (idx, st') = next_api_key_index cache upstreamID st
            in (Some (ak_Key (active ! (idx mod length active))), st'))
         else
           (let (i, st') = rand_intn (length active) st
            in (Some (ak_Key (active ! i)), st')))"

definition select_api_key ::
  "'c cache_ops option \<Rightarrow> nat \<Rightarrow> api_keys_config \<Rightarrow> 'c routing_state
     \<Rightarrow> string option \<times> 'c routing_state" where
  "select_api_key cache upstreamID cfg st =
     (if kc_Keys cfg = [] then (None, st)
      else pick_active_key cache upstreamID (kc_Keys cfg) (kc_Strategy cfg) st)"

subsection \<open>Building the result\<close>

definition binding_circuit_key :: "string \<Rightarrow> string" where
  "binding_circuit_key bindingCode =
     (let code = trim_space bindingCode
      in if code = [] then [] else ''upstream-model-'' @ replace_byte (CHR '':'') (CHR ''-'') code)"

definition binding_circuit_keys :: "string list \<Rightarrow> string list" where
  "binding_circuit_keys bindingCodes = filter (\<lambda>key. key \<noteq> []) (map binding_circuit_key bindingCodes)"

definition route_model_circuit_key :: "resolved_route \<Rightarrow> string" where
  "route_model_circuit_key route = binding_circuit_key (rt_BindingCode route)"

definition reasoning_content_passback_vendors :: "string list" where
  "reasoning_content_passback_vendors =
     [''deepseek'', ''moonshot'', ''zhipu'', ''xiaomi'', ''alibaba'', ''minimax'']"

definition reasoning_content_passback_required :: "route_env \<Rightarrow> string \<Rightarrow> string list \<Rightarrow> bool" where
  "reasoning_content_passback_required env protocol candidates =
     (let p = normalize_adapter protocol
      in if p = ''openrouter_chat_completions'' then True
         else if p = ''openai_chat_completions''
         then env_detectVendor env candidates \<in> set reasoning_content_passback_vendors
         else False)"

definition reasoning_passback_request_options ::
  "route_env \<Rightarrow> string \<Rightarrow> string list \<Rightarrow> (string \<rightharpoonup> bool)" where
  "reasoning_passback_request_options env protocol candidates =
     (if normalize_adapter protocol \<noteq> ''openai_chat_completions'' then Map.empty
      else let vendor = env_detectVendor env candidates
           in if vendor \<notin> set reasoning_content_passback_vendors then Map.empty
              else if vendor = ''alibaba'' then [''preserve_thinking'' \<mapsto> True]
              else Map.empty)"

definition build_resolved_route :: "route_env \<Rightarrow> route_row \<Rightarrow> string \<Rightarrow> resolved_route" where
  "build_resolved_route env row apiKey =
     (let candidates = [rr_ModelVendor row, rr_PlatformModelName row, rr_UpstreamModelName row,
                        rr_UpstreamName row]
      in \<lparr>rt_RouteID = rr_RouteID row,
          rt_PlatformModelID = rr_PlatformModelID row,
          rt_PlatformModelName = trim_space (rr_PlatformModelName row),
          rt_UpstreamModelID = rr_UpstreamModelID row,
          rt_UpstreamID = rr_UpstreamID row,
          rt_UpstreamName = trim_space (rr_UpstreamName row),
          rt_BindingCode = trim_space (rr_BindingCode row),
          rt_Protocol = rr_Protocol row,
          rt_BaseURL = trim_space (rr_BaseURL row),
          rt_APIKey = apiKey,
          rt_ConnectTimeoutMS = rr_ConnectTimeoutMS row,
          rt_ReadTimeoutMS = rr_ReadTimeoutMS row,
          rt_StreamIdleTimeoutMS = rr_StreamIdleTimeoutMS row,
          rt_HeadersJSON = env_mergeHeaders env (rr_HeadersJSON row) (rr_RouteHeadersJSON row),
          rt_ModelVendor = trim_space (rr_ModelVendor row),
          rt_ModelIcon = trim_space (rr_ModelIcon row),
          rt_ModelCapabilitiesJSON = trim_space (rr_ModelCapabilitiesJSON row),
          rt_ModelSystemPrompt = trim_space (rr_ModelSystemPrompt row),
          rt_UpstreamModel = trim_space (rr_UpstreamModelName row),
          rt_ReasoningContentPassback =
            reasoning_content_passback_required env (rr_Protocol row) candidates,
          rt_ReasoningPassbackRequestOptions =
            reasoning_passback_request_options env (rr_Protocol row) candidates,
          rt_UpstreamCbFailureThreshold = rr_UpstreamCbFailureThreshold row,
          rt_UpstreamCbModelThreshold = rr_UpstreamCbModelThreshold row,
          rt_UpstreamCbThresholdLogic = rr_UpstreamCbThresholdLogic row,
          rt_UpstreamCbDurationMin = rr_UpstreamCbDurationMin row,
          rt_UpstreamCbWindowMin = rr_UpstreamCbWindowMin row,
          rt_PlatformModelCbPolicyMode = rr_PlatformModelCbPolicyMode row,
          rt_PlatformModelCbFailureThreshold = rr_PlatformModelCbFailureThreshold row,
          rt_PlatformModelCbDurationMin = rr_PlatformModelCbDurationMin row,
          rt_PlatformModelCbWindowMin = rr_PlatformModelCbWindowMin row,
          rt_ModelCbFailureThreshold = rr_ModelCbFailureThreshold row,
          rt_ModelCbDurationMin = rr_ModelCbDurationMin row,
          rt_ModelCbWindowMin = rr_ModelCbWindowMin row,
          rt_UpstreamProbeGranted = False,
          rt_ModelProbeGranted = False\<rparr>)"

subsection \<open>The weighted draw\<close>

definition candidate_weight :: "route_candidate \<Rightarrow> int" where
  "candidate_weight c = (if rr_Weight (ca_row c) \<le> 0 then 100 else rr_Weight (ca_row c))"

definition total_weight :: "route_candidate list \<Rightarrow> int" where
  "total_weight rows = foldl (\<lambda>total row. wrap64 (total + candidate_weight row)) 0 rows"

fun weighted_pick :: "int \<Rightarrow> int \<Rightarrow> route_candidate list \<Rightarrow> route_candidate option" where
  "weighted_pick r cumulative [] = None"
| "weighted_pick r cumulative (row # rows) =
     (let cumulative' = wrap64 (cumulative + candidate_weight row)
      in if r < cumulative' then Some row else weighted_pick r cumulative' rows)"

definition weighted_random_candidate ::
  "route_candidate list \<Rightarrow> 'c routing_state \<Rightarrow> route_candidate option \<times> 'c routing_state" where
  "weighted_random_candidate rows st =
     (if rows = [] then (None, st)
      else if total_weight rows \<le> 0 then
        (let (idx, st') = rand_intn (length rows) st in (Some (rows ! idx), st'))
      else
        (let (r, st') = rand_intn (nat (total_weight rows)) st
         in case weighted_pick (int r) 0 rows of
              Some row \<Rightarrow> (Some row, st')
            | None \<Rightarrow> (Some (last rows), st')))"

definition remove_candidate :: "route_candidate list \<Rightarrow> nat \<Rightarrow> nat \<Rightarrow> route_candidate list" where
  "remove_candidate items upstreamID upstreamModelID =
     filter (\<lambda>item. \<not> (rr_UpstreamID (ca_row item) = upstreamID
                        \<and> rr_UpstreamModelID (ca_row item) = upstreamModelID)) items"

lemma rand_intn_less: "0 < n \<Longrightarrow> fst (rand_intn n st) < n"
  by (simp add: rand_intn_def split: list.split)

lemma weighted_pick_in: "weighted_pick r acc rows = Some c \<Longrightarrow> c \<in> set rows"
  by (induction rows arbitrary: acc) (auto simp: Let_def split: if_splits)

lemma weighted_random_candidate_in:
  assumes "weighted_random_candidate rows st = (Some c, st')"
  shows "c \<in> set rows"
proof (cases "rows = []")
  case False
  then have "fst (rand_intn (length rows) st) < length rows" by (simp add: rand_intn_less)
  then show ?thesis using assms False weighted_pick_in
    by (auto simp: weighted_random_candidate_def split: if_splits prod.splits option.splits)
qed (use assms in \<open>simp add: weighted_random_candidate_def\<close>)

lemma weighted_random_candidate_some:
  "rows \<noteq> [] \<Longrightarrow> \<exists>c st'. weighted_random_candidate rows st = (Some c, st')"
  by (simp add: weighted_random_candidate_def split: prod.split option.split)

lemma remove_candidate_less:
  "c \<in> set items \<Longrightarrow>
    length (remove_candidate items (rr_UpstreamID (ca_row c)) (rr_UpstreamModelID (ca_row c))) < length items"
  unfolding remove_candidate_def by (rule length_filter_less) auto

subsection \<open>Trying one candidate\<close>

datatype attempt = Serve resolved_route | Skip | Abort route_err

definition blocked_state :: "string \<Rightarrow> bool" where
  "blocked_state s \<longleftrightarrow> s = ''open'' \<or> s = ''half_open_denied''"

definition release_upstream_probe ::
  "'c cache_ops \<Rightarrow> string \<Rightarrow> nat \<Rightarrow> 'c routing_state \<Rightarrow> 'c routing_state" where
  "release_upstream_probe api upstreamState upstreamID st =
     (if upstreamState = ''half_open_granted''
      then st\<lparr>w_cache := op_ReleaseRouteProbes api upstreamID [] (w_cache st)\<rparr> else st)"

definition serve ::
  "route_env \<Rightarrow> route_candidate \<Rightarrow> string \<Rightarrow> string \<Rightarrow> resolved_route" where
  "serve env selected upstreamState modelState =
     (build_resolved_route env (ca_row selected) (ca_apiKey selected))
       \<lparr>rt_UpstreamProbeGranted := (upstreamState = ''half_open_granted''),
        rt_ModelProbeGranted := (modelState = ''half_open_granted'')\<rparr>"

definition try_candidate ::
  "route_env \<Rightarrow> 'c cache_ops option \<Rightarrow> route_candidate \<Rightarrow> 'c routing_state \<Rightarrow> attempt \<times> 'c routing_state" where
  \<comment> \<open>\<open>breaker\<close> is the cache when the breaker is enabled\<close>
  "try_candidate env breaker selected st =
     (case breaker of
        None \<Rightarrow> (Serve (serve env selected ''closed'' ''closed''), st)
      | Some api \<Rightarrow>
          let u = rr_UpstreamID (ca_row selected);
              (upstream, st1) = with_cache (op_CheckUpstreamCircuitState api u) st
          in case upstream of
               Inl e \<Rightarrow> (Abort (Failed e), st1)
             | Inr upstreamState \<Rightarrow>
                 if blocked_state upstreamState then (Skip, st1)
                 else
                   let key = binding_circuit_key (rr_BindingCode (ca_row selected));
                       (model, st2) = with_cache (op_CheckModelCircuitState api u key) st1
                   in case model of
                        Inl e \<Rightarrow> (Abort (Failed e), release_upstream_probe api upstreamState u st2)
                      | Inr modelState \<Rightarrow>
                          if blocked_state modelState
                          then (Skip, release_upstream_probe api upstreamState u st2)
                          else (Serve (serve env selected upstreamState modelState), st2))"

subsection \<open>The loops\<close>

definition selected_of :: "route_candidate list \<Rightarrow> route_candidate option \<Rightarrow> route_candidate" where
  "selected_of candidates picked = (case picked of None \<Rightarrow> candidates ! 0 | Some c \<Rightarrow> c)"

lemma selected_of_in:
  assumes "candidates \<noteq> []" and "weighted_random_candidate candidates st = (picked, st')"
  shows "selected_of candidates picked \<in> set candidates"
  using assms weighted_random_candidate_in by (fastforce simp: selected_of_def split: option.splits)

function select_route ::
  "route_env \<Rightarrow> 'c cache_ops option \<Rightarrow> route_candidate list \<Rightarrow> 'c routing_state
     \<Rightarrow> (route_err + resolved_route) option \<times> 'c routing_state" where
  "select_route env breaker candidates st =
     (if candidates = [] then (None, st)
      else
        let (picked, st1) = weighted_random_candidate candidates st;
            selected = selected_of candidates picked;
            (attempt, st2) = try_candidate env breaker selected st1
        in case attempt of
             Serve route \<Rightarrow> (Some (Inr route), st2)
           | Abort e \<Rightarrow> (Some (Inl e), st2)
           | Skip \<Rightarrow>
               select_route env breaker
                 (remove_candidate candidates (rr_UpstreamID (ca_row selected))
                    (rr_UpstreamModelID (ca_row selected))) st2)"
  by pat_completeness auto

termination
  by (relation "measure (\<lambda>(env, breaker, candidates, st). length candidates)")
    (auto intro!: remove_candidate_less elim: selected_of_in [OF _ sym])

declare select_route.simps [simp del]

definition route_rate_limit_backoff ::
  "'c cache_ops option \<Rightarrow> nat \<Rightarrow> nat \<Rightarrow> 'c routing_state \<Rightarrow> duration \<times> 'c routing_state" where
  "route_rate_limit_backoff cache upstreamID routeID st =
     (case cache of
        None \<Rightarrow> (0, st)
      | Some api \<Rightarrow>
          if upstreamID = 0 \<or> routeID = 0 then (0, st)
          else let (remaining, st') = with_cache (op_GetRateLimitBackoff api upstreamID routeID) st
               in case remaining of Inl e \<Rightarrow> (0, st') | Inr d \<Rightarrow> (d, st'))"

definition usable_row :: "route_env \<Rightarrow> route_row \<Rightarrow> bool" where
  \<comment> \<open>the checks of the collecting loop that need no state\<close>
  "usable_row env row \<longleftrightarrow>
     (if rr_UpstreamModelID row = 0 \<or> trim_space (rr_BindingCode row) = []
         \<or> trim_space (rr_UpstreamModelName row) = [] then False
      else if \<not> is_implemented_adapter (rr_Protocol row) then False
      else env_trustedURL env (rr_BaseURL row))"

fun collect_group ::
  "route_env \<Rightarrow> 'c cache_ops option \<Rightarrow> route_row list \<Rightarrow> route_candidate list \<Rightarrow> duration
     \<Rightarrow> 'c routing_state \<Rightarrow> (route_candidate list \<times> duration) \<times> 'c routing_state" where
  "collect_group env cache [] members shortest st = ((members, shortest), st)"
| "collect_group env cache (row # rows) members shortest st =
     (if \<not> usable_row env row then collect_group env cache rows members shortest st
      else
        let (remaining, st1) = route_rate_limit_backoff cache (rr_UpstreamID row) (rr_RouteID row) st
        in if 0 < remaining then
             collect_group env cache rows members
               (if shortest = 0 \<or> remaining < shortest then remaining else shortest) st1
           else case parse_api_keys_config env (rr_APIKeysEnc row) of
             None \<Rightarrow> collect_group env cache rows members shortest st1
           | Some keyCfg \<Rightarrow>
               let (apiKey, st2) = select_api_key cache (rr_UpstreamID row) keyCfg st1
               in case apiKey of
                    None \<Rightarrow> collect_group env cache rows members shortest st2
                  | Some k \<Rightarrow>
                      collect_group env cache rows (members @ [\<lparr>ca_row = row, ca_apiKey = k\<rparr>]) shortest st2)"

definition same_priority :: "route_row \<Rightarrow> route_row \<Rightarrow> bool" where
  "same_priority row row' \<longleftrightarrow> rr_RoutePriority row' = rr_RoutePriority row"

function resolve_groups ::
  "route_env \<Rightarrow> 'c cache_ops option \<Rightarrow> bool \<Rightarrow> route_row list \<Rightarrow> duration \<Rightarrow> 'c routing_state
     \<Rightarrow> (route_err + resolved_route) \<times> 'c routing_state" where
  "resolve_groups env cache breakerEnabled [] shortest st =
     ((if 0 < shortest then Inl (RoutesRateLimitedError shortest) else Inl ErrAllRoutesUnavailable), st)"
| "resolve_groups env cache breakerEnabled (row # rows) shortest st =
     (let peers = row # takeWhile (same_priority row) rows;
          later = dropWhile (same_priority row) rows;
          ((members, shortest'), st1) = collect_group env cache peers [] shortest st
      in if members = [] then resolve_groups env cache breakerEnabled later shortest' st1
         else
           let (result, st2) = select_route env (if breakerEnabled then cache else None) members st1
           in case result of
                Some r \<Rightarrow> (r, st2)
              | None \<Rightarrow> resolve_groups env cache breakerEnabled later shortest' st2)"
  by pat_completeness auto
termination
  by (relation "measure (\<lambda>(env, cache, enabled, rows, shortest, st). length rows)")
    (auto simp: le_imp_less_Suc length_dropWhile_le)

definition available_rows :: "route_env \<Rightarrow> resolve_route_input \<Rightarrow> route_row list \<Rightarrow> route_row list" where
  "available_rows env input rows =
     filter (\<lambda>row. \<not> (rr_RouteID row \<in> set (ri_ExcludedRouteIDs input) \<and> rr_RouteID row \<noteq> 0)
                   \<and> is_route_allowed_for_task (env_strings_of env) (ri_TaskType input)
                        (rr_ModelKindsJSON row) (rr_Protocol row)) rows"

definition load_breaker ::
  "gotime \<Rightarrow> route_repo \<Rightarrow> 'c routing_state \<Rightarrow> breaker_defaults \<times> 'c routing_state" where
  "load_breaker now repo st =
     (let (cfg, cell) = load_breaker_defaults now (rp_GetBreakerDefaults repo) (w_breaker st)
      in (cfg, st\<lparr>w_breaker := cell\<rparr>))"

definition check_access :: "route_repo \<Rightarrow> resolve_route_input \<Rightarrow> platform_model \<Rightarrow> route_err option" where
  \<comment> \<open>\<open>None\<close> when the caller may use the model\<close>
  "check_access repo input model =
     (if \<not> route_scope_allows_model_access (ri_Scope input) (pm_AccessScope model)
      then Some ErrModelAccessDenied
      else if normalize_route_scope (ri_Scope input) = ''user'' \<and> 0 < ri_UserID input then
        (case is_model_accessible repo (pm_ID model) (ri_UserID input) of
           Inl e \<Rightarrow> Some (Failed e)
         | Inr accessible \<Rightarrow> if \<not> accessible then Some ErrModelAccessDenied else None)
      else None)"

definition resolve_route ::
  "route_env \<Rightarrow> 'c cache_ops option \<Rightarrow> route_repo \<Rightarrow> gotime \<Rightarrow> resolve_route_input \<Rightarrow> 'c routing_state
     \<Rightarrow> (route_err + resolved_route) \<times> 'c routing_state" where
  "resolve_route env cache repo now input st =
     (let (breakerEnabled, st0) =
            (case cache of
               None \<Rightarrow> (False, st)
             | Some api \<Rightarrow> let (cfg, st') = load_breaker now repo st in (bd_Enabled cfg, st'))
      in case normalize_platform_model_name (ri_PlatformModelName input) of
           None \<Rightarrow> (Inl ErrModelNotFound, st0)
         | Some name \<Rightarrow>
             (case rp_GetActiveModelByName repo name of
                Inl e \<Rightarrow> (Inl e, st0)
              | Inr model \<Rightarrow>
                  (case check_access repo input model of
                     Some e \<Rightarrow> (Inl e, st0)
                   | None \<Rightarrow>
                       (case rp_ListActiveRoutesByModel repo name of
                          Inl e \<Rightarrow> (Inl e, st0)
                        | Inr rows \<Rightarrow>
                            if rows = [] then (Inl ErrRouteNotFound, st0)
                            else let available = available_rows env input rows
                                 in if available = [] then (Inl ErrAllRoutesUnavailable, st0)
                                    else resolve_groups env cache breakerEnabled available 0 st0))))"

end
