(* ===== verification/RouteChoice.thy ===== *)
theory RouteChoice
  imports Routing
begin

text \<open>
  What \<open>ResolveRoute\<close> promises. The contract a cache has to keep is the locale \<open>breaker_cache\<close>:
  its circuits have a phase, a check answers by the phase and takes the probe that is free, a
  release gives it back. The lemmas about the loops are proved under the contract, and the
  in-memory cache is an instance of it at every instant.
\<close>

subsection \<open>Circuits and their phases\<close>

datatype circuit_id = UpstreamCircuit nat | ModelCircuit string

definition upstream_circuit :: "route_row \<Rightarrow> circuit_id" where
  "upstream_circuit row = UpstreamCircuit (rr_UpstreamID row)"

definition model_circuit :: "route_row \<Rightarrow> circuit_id" where
  "model_circuit row = ModelCircuit
     (model_circuit_key (rr_UpstreamID row) (binding_circuit_key (rr_BindingCode row)))"

lemma circuits_differ [simp]:
  "upstream_circuit row \<noteq> model_circuit row'" "model_circuit row' \<noteq> upstream_circuit row"
  by (simp_all add: upstream_circuit_def model_circuit_def)

definition admits :: "phase \<Rightarrow> bool" where
  "admits p \<longleftrightarrow> p = Closed \<or> p = ProbeFree"

definition take_probe :: "circuit_id \<Rightarrow> (circuit_id \<Rightarrow> phase) \<Rightarrow> circuit_id \<Rightarrow> phase" where
  "take_probe k f = f(k := if f k = ProbeFree then ProbeOut else f k)"

definition give_probe :: "circuit_id \<Rightarrow> (circuit_id \<Rightarrow> phase) \<Rightarrow> circuit_id \<Rightarrow> phase" where
  "give_probe k f = f(k := if f k = ProbeOut then ProbeFree else f k)"

text \<open>Maintenance may close a circuit whose last probe is free.\<close>

definition drift :: "(circuit_id \<Rightarrow> phase) \<Rightarrow> (circuit_id \<Rightarrow> phase) \<Rightarrow> bool" where
  "drift f g \<longleftrightarrow> (\<forall>k. g k = f k \<or> (f k = ProbeFree \<and> g k = Closed))"

lemma drift_refl [simp]: "drift f f"
  by (simp add: drift_def)

lemma drift_trans: "drift f g \<Longrightarrow> drift g h \<Longrightarrow> drift f h"
  unfolding drift_def by (metis phase.distinct(5))

lemma drift_admits: "drift f g \<Longrightarrow> admits (g k) = admits (f k)"
  unfolding drift_def admits_def by metis

lemma drift_closed: "drift f g \<Longrightarrow> f k = Closed \<Longrightarrow> g k = Closed"
  unfolding drift_def by (metis phase.distinct(5))

lemma take_probe_blocked: "\<not> admits (f k) \<Longrightarrow> take_probe k f = f"
  by (auto simp: take_probe_def admits_def)

lemma give_take_probe: "f k = ProbeFree \<Longrightarrow> give_probe k (take_probe k f) = f"
  by (auto simp: take_probe_def give_probe_def)

lemma take_probe_other: "k' \<noteq> k \<Longrightarrow> take_probe k f k' = f k'"
  by (simp add: take_probe_def)

lemma take_probe_not_free: "f k \<noteq> ProbeFree \<Longrightarrow> take_probe k f = f"
  by (auto simp: take_probe_def)

lemma take_probe_closed: "f k = Closed \<Longrightarrow> take_probe k f = f"
  by (auto simp: take_probe_def)

lemma blocked_verdict: "blocked_state (verdict_of p) \<longleftrightarrow> \<not> admits p"
  by (cases p) (simp_all add: blocked_state_def admits_def)

lemma granted_verdict: "verdict_of p = ''half_open_granted'' \<longleftrightarrow> p = ProbeFree"
  using verdict_of_inject [of p ProbeFree] by simp

lemma take_probe_admits:
  "admits (take_probe k f k') \<longleftrightarrow> admits (f k') \<and> \<not> (k' = k \<and> f k = ProbeFree)"
  by (auto simp: take_probe_def admits_def)

subsection \<open>Rows that can be served\<close>

definition served_by :: "route_env \<Rightarrow> route_candidate \<Rightarrow> (circuit_id \<Rightarrow> phase) \<Rightarrow> resolved_route" where
  "served_by env c f =
     serve env c (verdict_of (f (upstream_circuit (ca_row c)))) (verdict_of (f (model_circuit (ca_row c))))"

definition served_phases :: "route_row \<Rightarrow> (circuit_id \<Rightarrow> phase) \<Rightarrow> circuit_id \<Rightarrow> phase" where
  "served_phases row f = take_probe (model_circuit row) (take_probe (upstream_circuit row) f)"

definition open_row :: "(circuit_id \<Rightarrow> phase) \<Rightarrow> route_row \<Rightarrow> bool" where
  "open_row f row \<longleftrightarrow> admits (f (upstream_circuit row)) \<and> admits (f (model_circuit row))"

definition remaining_backoff :: "(nat \<times> nat \<Rightarrow> duration) \<Rightarrow> route_row \<Rightarrow> duration" where
  "remaining_backoff b row =
     (if rr_UpstreamID row = 0 \<or> rr_RouteID row = 0 then 0 else b (rr_UpstreamID row, rr_RouteID row))"

definition key_of_row :: "route_env \<Rightarrow> route_row \<Rightarrow> string \<Rightarrow> bool" where
  "key_of_row env row key \<longleftrightarrow>
     (case parse_api_keys_config env (rr_APIKeysEnc row) of
        None \<Rightarrow> False
      | Some cfg \<Rightarrow> key \<in> ak_Key ` set (active_api_keys (kc_Keys cfg)))"

definition has_key :: "route_env \<Rightarrow> route_row \<Rightarrow> bool" where
  "has_key env row \<longleftrightarrow>
     (case parse_api_keys_config env (rr_APIKeysEnc row) of
        None \<Rightarrow> False
      | Some cfg \<Rightarrow> active_api_keys (kc_Keys cfg) \<noteq> [])"

definition ready_row :: "route_env \<Rightarrow> (nat \<times> nat \<Rightarrow> duration) \<Rightarrow> route_row \<Rightarrow> bool" where
  "ready_row env b row \<longleftrightarrow> usable_row env row \<and> remaining_backoff b row \<le> 0 \<and> has_key env row"

text \<open>The waits that were met: those of usable rows still backing off.\<close>

definition waits :: "route_env \<Rightarrow> (nat \<times> nat \<Rightarrow> duration) \<Rightarrow> route_row list \<Rightarrow> duration list" where
  "waits env b rows =
     filter (\<lambda>d. 0 < d) (map (remaining_backoff b) (filter (usable_row env) rows))"

definition shorter :: "duration \<Rightarrow> duration \<Rightarrow> duration" where
  "shorter shortest remaining =
     (if shortest = 0 \<or> remaining < shortest then remaining else shortest)"

lemma waits_append: "waits env b (xs @ ys) = waits env b xs @ waits env b ys"
  by (simp add: waits_def)

lemma foldl_shorter:
  assumes "\<forall>d \<in> set ds. 0 < d" and "0 < s"
  shows "foldl shorter s ds = Min (insert s (set ds))"
  using assms
proof (induction ds arbitrary: s)
  case (Cons d ds)
  have "0 < shorter s d" and m: "shorter s d = min s d" using Cons.prems by (auto simp: shorter_def)
  then have "foldl shorter s (d # ds) = Min (insert (min s d) (set ds))" using Cons by simp
  also have "\<dots> = Min (insert s (set (d # ds)))" by (cases "ds = []") (simp_all add: min.assoc)
  finally show ?case .
qed simp

lemma foldl_shorter_zero:
  "\<forall>d \<in> set ds. 0 < d \<Longrightarrow> foldl shorter 0 ds = (if ds = [] then 0 else Min (set ds))"
  by (cases ds) (simp_all add: shorter_def foldl_shorter)

text \<open>
  A healthy row is ready and, where the breaker counts, both its circuits are closed. Rows that
  share an upstream model share its binding code: the query joins both from one table.
\<close>

definition healthy_row ::
  "route_env \<Rightarrow> bool \<Rightarrow> (nat \<times> nat \<Rightarrow> duration) \<Rightarrow> (circuit_id \<Rightarrow> phase) \<Rightarrow> route_row \<Rightarrow> bool" where
  "healthy_row env breakerEnabled b f row \<longleftrightarrow> ready_row env b row
     \<and> (breakerEnabled \<longrightarrow> f (upstream_circuit row) = Closed \<and> f (model_circuit row) = Closed)"

definition bindings_agree :: "route_row list \<Rightarrow> bool" where
  "bindings_agree rows \<longleftrightarrow>
     (\<forall>row \<in> set rows. \<forall>row' \<in> set rows. rr_UpstreamID row = rr_UpstreamID row'
        \<and> rr_UpstreamModelID row = rr_UpstreamModelID row' \<longrightarrow> rr_BindingCode row = rr_BindingCode row')"

lemma bindings_agree_sub: "set rows' \<subseteq> set rows \<Longrightarrow> bindings_agree rows \<Longrightarrow> bindings_agree rows'"
  unfolding bindings_agree_def by blast

lemma healthy_row_drift: "drift f g \<Longrightarrow> healthy_row env en b f row \<Longrightarrow> healthy_row env en b g row"
  by (auto simp: healthy_row_def drift_closed)

text \<open>How a candidate of a group is served.\<close>

definition group_served ::
  "route_env \<Rightarrow> bool \<Rightarrow> route_candidate \<Rightarrow> (circuit_id \<Rightarrow> phase) \<Rightarrow> resolved_route \<Rightarrow> (circuit_id \<Rightarrow> phase) \<Rightarrow> bool" where
  "group_served env en c f r f' \<longleftrightarrow>
     (if en then open_row f (ca_row c) \<and> r = served_by env c f \<and> f' = served_phases (ca_row c) f
      else r = serve env c ''closed'' ''closed'' \<and> f' = f)"

definition no_route_error :: "duration \<Rightarrow> route_err" where
  "no_route_error shortest =
     (if 0 < shortest then RoutesRateLimitedError shortest else ErrAllRoutesUnavailable)"

subsection \<open>The contract of a cache\<close>

locale breaker_cache =
  fixes api :: "'c cache_ops"
    and phase_of :: "'c \<Rightarrow> circuit_id \<Rightarrow> phase"
    and backoff_of :: "'c \<Rightarrow> nat \<times> nat \<Rightarrow> duration"
  assumes check_upstream: "op_CheckUpstreamCircuitState api u c = (v, c') \<Longrightarrow>
      v = Inr (verdict_of (phase_of c (UpstreamCircuit u)))
      \<and> phase_of c' = take_probe (UpstreamCircuit u) (phase_of c) \<and> backoff_of c' = backoff_of c"
    and check_model: "op_CheckModelCircuitState api u k c = (v, c') \<Longrightarrow>
      v = Inr (verdict_of (phase_of c (ModelCircuit (model_circuit_key u k))))
      \<and> phase_of c' = take_probe (ModelCircuit (model_circuit_key u k)) (phase_of c)
      \<and> backoff_of c' = backoff_of c"
    and release_upstream: "phase_of (op_ReleaseRouteProbes api u [] c) = give_probe (UpstreamCircuit u) (phase_of c)
      \<and> backoff_of (op_ReleaseRouteProbes api u [] c) = backoff_of c"
    and get_backoff: "u \<noteq> 0 \<Longrightarrow> r \<noteq> 0 \<Longrightarrow>
      op_GetRateLimitBackoff api u r c = (Inr (backoff_of c (u, r)), c)"
    and incr: "op_IncrAPIKeyCounter api u c = (n, c') \<Longrightarrow>
      drift (phase_of c) (phase_of c') \<and> backoff_of c' = backoff_of c"
begin

abbreviation phases :: "'c routing_state \<Rightarrow> circuit_id \<Rightarrow> phase" where
  "phases st \<equiv> phase_of (w_cache st)"

abbreviation backoffs :: "'c routing_state \<Rightarrow> nat \<times> nat \<Rightarrow> duration" where
  "backoffs st \<equiv> backoff_of (w_cache st)"

lemma try_candidate_law:
  assumes "try_candidate env (Some api) c st = (a, st')"
  shows "backoffs st' = backoffs st \<and>
    (if open_row (phases st) (ca_row c)
     then a = Serve (served_by env c (phases st)) \<and> phases st' = served_phases (ca_row c) (phases st)
     else a = Skip \<and> phases st' = phases st)"
proof -
  let ?row = "ca_row c" and ?f = "phases st"
  let ?u = "rr_UpstreamID ?row" and ?k = "binding_circuit_key (rr_BindingCode ?row)"
  obtain v c1 where v: "op_CheckUpstreamCircuitState api ?u (w_cache st) = (v, c1)" by fastforce
  obtain m c2 where m: "op_CheckModelCircuitState api ?u ?k c1 = (m, c2)" by fastforce
  note up = check_upstream [OF v] and md = check_model [OF m]
  have f1: "phase_of c1 = take_probe (upstream_circuit ?row) ?f" using up by (simp add: upstream_circuit_def)
  have v1: "v = Inr (verdict_of (?f (upstream_circuit ?row)))" using up by (simp add: upstream_circuit_def)
  have f2: "phase_of c2 = served_phases ?row ?f"
    using md f1 by (simp add: served_phases_def model_circuit_def)
  have m1: "m = Inr (verdict_of (?f (model_circuit ?row)))"
    using md f1 by (simp add: model_circuit_def [symmetric] take_probe_other)
  have restored: "give_probe (upstream_circuit ?row) (phase_of c2) = ?f"
    if "\<not> admits (?f (model_circuit ?row))" "?f (upstream_circuit ?row) = ProbeFree"
    using that f2 by (simp add: served_phases_def take_probe_blocked take_probe_other give_take_probe)
  have kept: "phase_of c2 = ?f"
    if "\<not> admits (?f (model_circuit ?row))" "?f (upstream_circuit ?row) \<noteq> ProbeFree"
    using that f2 by (simp add: served_phases_def take_probe_blocked take_probe_not_free)
  show ?thesis
    using assms v m up md v1 m1 f1 f2 restored kept release_upstream
    by (auto simp: try_candidate_def with_cache_def Let_def open_row_def blocked_verdict granted_verdict
        release_upstream_probe_def served_by_def take_probe_blocked upstream_circuit_def
        split: if_splits)
qed

lemma route_rate_limit_backoff_law:
  "route_rate_limit_backoff (Some api) (rr_UpstreamID row) (rr_RouteID row) st
     = (remaining_backoff (backoffs st) row, st)"
  by (auto simp: route_rate_limit_backoff_def remaining_backoff_def with_cache_def get_backoff)

lemma select_api_key_law:
  assumes "select_api_key (Some api) u cfg st = (k, st')"
  shows "drift (phases st) (phases st') \<and> backoffs st' = backoffs st
    \<and> (case k of None \<Rightarrow> active_api_keys (kc_Keys cfg) = []
         | Some key \<Rightarrow> key \<in> ak_Key ` set (active_api_keys (kc_Keys cfg)))"
proof -
  let ?active = "active_api_keys (kc_Keys cfg)"
  have nil: "kc_Keys cfg = [] \<Longrightarrow> ?active = []" by (simp add: active_api_keys_def)
  have rnd: "w_cache (snd (rand_intn n st)) = w_cache st" for n
    by (simp add: rand_intn_def split: list.split)
  obtain idx st1 where idx: "next_api_key_index (Some api) u st = (idx, st1)" by fastforce
  have nxt: "drift (phases st) (phases st1) \<and> backoffs st1 = backoffs st"
    using idx rnd [of 1024] incr [of u "w_cache st"]
    by (auto simp: next_api_key_index_def with_cache_def next_local_api_key_index_def Let_def
        split: if_splits prod.splits)
  have less: "?active \<noteq> [] \<Longrightarrow> fst (rand_intn (length ?active) st) < length ?active"
    by (simp add: rand_intn_less)
  show ?thesis
    using assms nil nxt idx rnd [of "length ?active"] less
    by (auto simp: select_api_key_def pick_active_key_def Let_def split: if_splits prod.splits)
qed

lemma collect_group_law:
  assumes "collect_group env (Some api) rows cands sh st = ((g, sh'), st')"
  shows "drift (phases st) (phases st') \<and> backoffs st' = backoffs st
    \<and> sh' = foldl shorter sh (waits env (backoffs st) rows)
    \<and> (\<exists>new. g = cands @ new \<and> map ca_row new = filter (ready_row env (backoffs st)) rows
             \<and> (\<forall>c \<in> set new. key_of_row env (ca_row c) (ca_apiKey c)))"
  using assms
proof (induction rows arbitrary: cands sh st)
  case Nil
  then show ?case by (simp add: waits_def)
next
  case (Cons row rows)
  let ?b = "backoffs st" and ?r = "remaining_backoff (backoffs st) row"
  show ?case
  proof (cases "usable_row env row \<and> ?r \<le> 0")
    case False
    have rest: "collect_group env (Some api) rows cands
        (if usable_row env row then shorter sh ?r else sh) st = ((g, sh'), st')"
      using Cons.prems False by (auto simp: route_rate_limit_backoff_law shorter_def split: if_splits)
    have "\<not> ready_row env ?b row" using False by (auto simp: ready_row_def)
    moreover have "foldl shorter sh (waits env ?b (row # rows))
        = foldl shorter (if usable_row env row then shorter sh ?r else sh) (waits env ?b rows)"
      using False by (auto simp: waits_def)
    ultimately show ?thesis using Cons.IH [OF rest] by simp
  next
    case True
    show ?thesis
    proof (cases "parse_api_keys_config env (rr_APIKeysEnc row)")
      case None
      then have rest: "collect_group env (Some api) rows cands sh st = ((g, sh'), st')"
        using Cons.prems True by (simp add: route_rate_limit_backoff_law)
      show ?thesis using Cons.IH [OF rest] True None by (simp add: ready_row_def has_key_def waits_def)
    next
      case (Some cfg)
      obtain k st2 where k: "select_api_key (Some api) (rr_UpstreamID row) cfg st = (k, st2)" by fastforce
      note law = select_api_key_law [OF k]
      let ?cands = "case k of None \<Rightarrow> cands | Some key \<Rightarrow> cands @ [\<lparr>ca_row = row, ca_apiKey = key\<rparr>]"
      have rest: "collect_group env (Some api) rows ?cands sh st2 = ((g, sh'), st')"
        using Cons.prems True Some k by (cases k) (simp_all add: route_rate_limit_backoff_law)
      from Cons.IH [OF rest] law obtain new where
        ih: "drift (phases st2) (phases st')" "backoffs st' = ?b"
          "sh' = foldl shorter sh (waits env ?b rows)" "g = ?cands @ new"
          "map ca_row new = filter (ready_row env ?b) rows"
          "\<forall>c \<in> set new. key_of_row env (ca_row c) (ca_apiKey c)"
        by auto
      have w: "waits env ?b (row # rows) = waits env ?b rows" using True by (simp add: waits_def)
      have d: "drift (phases st) (phases st')" using law ih(1) drift_trans by blast
      show ?thesis
      proof (cases k)
        case None
        then have "\<not> ready_row env ?b row" using law Some by (simp add: ready_row_def has_key_def)
        then show ?thesis using ih w d None by simp
      next
        case (Some key)
        then have "key_of_row env row key" "ready_row env ?b row"
          using law True \<open>parse_api_keys_config env (rr_APIKeysEnc row) = Some cfg\<close>
          by (auto simp: ready_row_def has_key_def key_of_row_def)
        then show ?thesis using ih w d Some
          by (auto intro!: exI [of _ "\<lparr>ca_row = row, ca_apiKey = key\<rparr> # new"])
      qed
    qed
  qed
qed

lemma select_route_law:
  assumes "select_route env (Some api) cands st = (res, st')"
  shows "backoffs st' = backoffs st \<and>
    (case res of
       None \<Rightarrow> phases st' = phases st
         \<and> (\<forall>c \<in> set cands. \<exists>c' \<in> set cands. \<not> open_row (phases st) (ca_row c')
                \<and> rr_UpstreamID (ca_row c') = rr_UpstreamID (ca_row c)
                \<and> rr_UpstreamModelID (ca_row c') = rr_UpstreamModelID (ca_row c))
     | Some (Inl e) \<Rightarrow> False
     | Some (Inr r) \<Rightarrow> \<exists>c \<in> set cands. open_row (phases st) (ca_row c) \<and> r = served_by env c (phases st)
         \<and> phases st' = served_phases (ca_row c) (phases st))"
  using assms
proof (induction "length cands" arbitrary: cands st rule: less_induct)
  case less
  show ?case
  proof (cases "cands = []")
    case True
    have "select_route env (Some api) [] st = (None, st)" by (simp add: select_route.simps)
    then show ?thesis using less.prems True by auto
  next
    case False
    obtain picked st1 where p: "weighted_random_candidate cands st = (picked, st1)" by fastforce
    let ?c = "selected_of cands picked"
    obtain a st2 where a: "try_candidate env (Some api) ?c st1 = (a, st2)" by fastforce
    have c: "?c \<in> set cands" by (rule selected_of_in [OF False p])
    have st1: "w_cache st1 = w_cache st"
      using p by (auto simp: weighted_random_candidate_def rand_intn_def split: if_splits prod.splits
          option.splits list.splits)
    note law = try_candidate_law [OF a, unfolded st1]
    let ?rest = "remove_candidate cands (rr_UpstreamID (ca_row ?c)) (rr_UpstreamModelID (ca_row ?c))"
    have unfold: "select_route env (Some api) cands st =
        (case a of Serve route \<Rightarrow> (Some (Inr route), st2) | Abort e \<Rightarrow> (Some (Inl e), st2)
         | Skip \<Rightarrow> select_route env (Some api) ?rest st2)"
      using False p a by (subst select_route.simps) (simp add: Let_def)
    show ?thesis
    proof (cases "open_row (phases st) (ca_row ?c)")
      case True
      then show ?thesis using law unfold less.prems c by auto
    next
      case closed: False
      then have skip: "a = Skip" "phases st2 = phases st" "backoffs st2 = backoffs st" using law by auto
      then have run: "select_route env (Some api) ?rest st2 = (res, st')" using unfold less.prems by simp
      have sub: "set ?rest \<subseteq> set cands" by (auto simp: remove_candidate_def)
      have gone: "x \<in> set ?rest \<or> (rr_UpstreamID (ca_row ?c) = rr_UpstreamID (ca_row x)
          \<and> rr_UpstreamModelID (ca_row ?c) = rr_UpstreamModelID (ca_row x))" if "x \<in> set cands" for x
        using that by (auto simp: remove_candidate_def)
      from less.hyps [OF remove_candidate_less [OF c] run] show ?thesis
        using skip sub gone closed c
        by (cases res) (fastforce split: sum.splits)+
    qed
  qed
qed

lemma select_route_without_breaker:
  assumes "select_route env None cands st = (res, st')" and "cands \<noteq> []"
  shows "\<exists>c \<in> set cands. res = Some (Inr (serve env c ''closed'' ''closed'')) \<and> w_cache st' = w_cache st"
proof -
  obtain picked st1 where p: "weighted_random_candidate cands st = (picked, st1)" by fastforce
  have "w_cache st1 = w_cache st"
    using p by (auto simp: weighted_random_candidate_def rand_intn_def split: if_splits prod.splits
        option.splits list.splits)
  then show ?thesis using assms p selected_of_in [OF assms(2) p]
    by (auto simp: select_route.simps [of _ _ cands] try_candidate_def Let_def)
qed

lemma group_law:
  assumes "select_route env (if en then Some api else None) cands st = (res, st')"
    and "cands \<noteq> []"
  shows "backoffs st' = backoffs st \<and>
    (case res of
       None \<Rightarrow> en \<and> phases st' = phases st
         \<and> (\<forall>c \<in> set cands. \<exists>c' \<in> set cands. \<not> open_row (phases st) (ca_row c')
                \<and> rr_UpstreamID (ca_row c') = rr_UpstreamID (ca_row c)
                \<and> rr_UpstreamModelID (ca_row c') = rr_UpstreamModelID (ca_row c))
     | Some (Inl e) \<Rightarrow> False
     | Some (Inr r) \<Rightarrow> \<exists>c \<in> set cands. group_served env en c (phases st) r (phases st'))"
proof (cases en)
  case True
  then show ?thesis using select_route_law [of env cands st res st'] assms
    by (auto simp: group_served_def split: option.splits sum.splits)
next
  case False
  then show ?thesis using select_route_without_breaker [of env cands st res st'] assms
    by (fastforce simp: group_served_def)
qed

lemma not_healthy_in_blocked_group:
  assumes "\<forall>row \<in> set rows. \<exists>row' \<in> set rows. \<not> open_row f row'
      \<and> rr_UpstreamID row' = rr_UpstreamID row \<and> rr_UpstreamModelID row' = rr_UpstreamModelID row"
    and "bindings_agree rows" and "h \<in> set rows"
  shows "\<not> healthy_row env True b f h"
proof
  assume h: "healthy_row env True b f h"
  obtain row' where r: "row' \<in> set rows" "\<not> open_row f row'" "rr_UpstreamID row' = rr_UpstreamID h"
      "rr_UpstreamModelID row' = rr_UpstreamModelID h" using assms(1,3) by blast
  then have "rr_BindingCode row' = rr_BindingCode h" using assms(2,3) unfolding bindings_agree_def by blast
  then show False using r h
    by (simp add: open_row_def healthy_row_def upstream_circuit_def model_circuit_def admits_def)
qed

lemma resolve_groups_law:
  assumes "resolve_groups env (Some api) en rows sh st = (res, st')"
  shows "backoffs st' = backoffs st \<and>
    (case res of
       Inl e \<Rightarrow> drift (phases st) (phases st')
         \<and> e = no_route_error (foldl shorter sh (waits env (backoffs st) rows))
         \<and> (bindings_agree rows \<longrightarrow>
              (\<forall>h \<in> set rows. \<not> healthy_row env en (backoffs st) (phases st) h))
     | Inr r \<Rightarrow> \<exists>c f. ca_row c \<in> set rows \<and> ready_row env (backoffs st) (ca_row c)
         \<and> key_of_row env (ca_row c) (ca_apiKey c)
         \<and> drift (phases st) f \<and> group_served env en c f r (phases st')
         \<and> (bindings_agree rows \<and> sorted (map rr_RoutePriority rows) \<longrightarrow>
              (\<forall>h \<in> set rows. healthy_row env en (backoffs st) (phases st) h
                 \<longrightarrow> rr_RoutePriority (ca_row c) \<le> rr_RoutePriority h)))"
  using assms
proof (induction "length rows" arbitrary: rows sh st rule: less_induct)
  case less
  show ?case
  proof (cases rows)
    case Nil
    then show ?thesis using less.prems by (auto simp: no_route_error_def waits_def)
  next
    case (Cons row tail)
    let ?peers = "row # takeWhile (same_priority row) tail" and ?later = "dropWhile (same_priority row) tail"
    let ?b = "backoffs st" and ?f = "phases st"
    have split: "rows = ?peers @ ?later" by (simp add: Cons)
    obtain g sh1 st1 where g: "collect_group env (Some api) ?peers [] sh st = ((g, sh1), st1)"
      by (metis prod.exhaust)
    note claw = collect_group_law [OF g]
    have d1: "drift ?f (phases st1)" and b1: "backoffs st1 = ?b"
      and sh1: "sh1 = foldl shorter sh (waits env ?b ?peers)"
      and gr: "map ca_row g = filter (ready_row env ?b) ?peers"
      and keys: "\<forall>c \<in> set g. key_of_row env (ca_row c) (ca_apiKey c)"
      using claw by auto
    have rows_g: "ca_row ` set g = {row \<in> set ?peers. ready_row env ?b row}"
      using arg_cong [OF gr, of set] by auto
    have less: "length ?later < length rows" by (simp add: Cons le_imp_less_Suc length_dropWhile_le)
    obtain res2 st2 where sel: "select_route env (if en then Some api else None) g st1 = (res2, st2)"
      by fastforce
    have run: "resolve_groups env (Some api) en rows sh st =
        (if g = [] then resolve_groups env (Some api) en ?later sh1 st1
         else case res2 of Some r \<Rightarrow> (r, st2) | None \<Rightarrow> resolve_groups env (Some api) en ?later sh1 st2)"
      using g sel by (simp add: Cons)
    show ?thesis
    proof (cases "\<exists>r. g \<noteq> [] \<and> res2 = Some r")
      case True
      then obtain r0 where r0: "g \<noteq> []" "res2 = Some r0" by blast
      then have res: "res = r0" "st' = st2" using run less.prems by simp_all
      from group_law [OF sel r0(1)] r0 obtain r c where
        c: "r0 = Inr r" "c \<in> set g" "group_served env en c (phases st1) r (phases st2)"
          "backoffs st2 = backoffs st1"
        by (auto split: sum.splits)
      have cr: "ca_row c \<in> set ?peers" "ready_row env ?b (ca_row c)" using c(2) rows_g by auto
      then have prio: "rr_RoutePriority (ca_row c) = rr_RoutePriority row"
        by (auto simp: same_priority_def dest: set_takeWhileD)
      have first: "rr_RoutePriority row \<le> rr_RoutePriority h"
        if "sorted (map rr_RoutePriority rows)" "h \<in> set rows" for h
        using that by (auto simp: Cons)
      have "\<exists>c f. ca_row c \<in> set rows \<and> ready_row env ?b (ca_row c)
         \<and> key_of_row env (ca_row c) (ca_apiKey c)
         \<and> drift ?f f \<and> group_served env en c f r (phases st')
         \<and> (bindings_agree rows \<and> sorted (map rr_RoutePriority rows) \<longrightarrow>
              (\<forall>h \<in> set rows. healthy_row env en ?b ?f h
                 \<longrightarrow> rr_RoutePriority (ca_row c) \<le> rr_RoutePriority h))"
        using c cr d1 keys prio first split res(2)
        by (intro exI [of _ c] exI [of _ "phases st1"]) (auto simp: Cons dest: set_takeWhileD)
      then show ?thesis using c(1,4) b1 res by simp
    next
      case False
      define st3 where "st3 = (if g = [] then st1 else st2)"
      have rest: "resolve_groups env (Some api) en ?later sh1 st3 = (res, st')"
        using run less.prems False by (cases res2) (simp_all add: st3_def split: if_splits)
      have "(phases st3 = phases st1 \<and> backoffs st3 = ?b)
          \<and> (bindings_agree ?peers \<longrightarrow> (\<forall>h \<in> set ?peers. \<not> healthy_row env en ?b ?f h))"
      proof (cases "g = []")
        case True
        then show ?thesis using rows_g b1 by (auto simp: st3_def healthy_row_def)
      next
        case ne: False
        then have "res2 = None" using False by (cases res2) auto
        with group_law [OF sel ne] have blocked: "en" "phases st2 = phases st1" "backoffs st2 = backoffs st1"
          and peers: "\<forall>x \<in> set (map ca_row g). \<exists>y \<in> set (map ca_row g). \<not> open_row (phases st1) y
                \<and> rr_UpstreamID y = rr_UpstreamID x \<and> rr_UpstreamModelID y = rr_UpstreamModelID x"
          by auto
        have "\<not> healthy_row env en ?b ?f h" if "bindings_agree ?peers" "h \<in> set ?peers" for h
        proof
          assume h: "healthy_row env en ?b ?f h"
          then have "h \<in> set (map ca_row g)" using that(2) rows_g by (auto simp: healthy_row_def)
          moreover have "bindings_agree (map ca_row g)"
            by (rule bindings_agree_sub [OF _ that(1)]) (use rows_g in auto)
          ultimately have "\<not> healthy_row env True ?b (phases st1) h"
            by (intro not_healthy_in_blocked_group [OF peers])
          then show False using healthy_row_drift [OF d1 h] blocked(1) by simp
        qed
        then show ?thesis using blocked ne b1 by (simp add: st3_def)
      qed
      then have st3: "phases st3 = phases st1" "backoffs st3 = ?b"
        and none: "bindings_agree ?peers \<Longrightarrow> h \<in> set ?peers \<Longrightarrow> \<not> healthy_row env en ?b ?f h" for h
        by blast+
      have sub0: "set ?peers \<subseteq> set rows" by (auto simp: Cons dest: set_takeWhileD)
      have none': "\<not> healthy_row env en ?b ?f h" if "bindings_agree rows" "h \<in> set ?peers" for h
        by (rule none [OF bindings_agree_sub [OF sub0 that(1)] that(2)])
      have sub: "set ?later \<subseteq> set rows" by (auto simp: Cons dest: set_dropWhileD)
      have srt: "sorted (map rr_RoutePriority rows) \<Longrightarrow> sorted (map rr_RoutePriority ?later)"
        using split by (metis map_append sorted_append)
      have sh': "foldl shorter sh1 (waits env ?b ?later) = foldl shorter sh (waits env ?b rows)"
        using arg_cong [OF split, of "waits env ?b"] by (simp only: sh1 waits_append foldl_append)
      note ih = less.hyps [OF less rest, unfolded st3 sh']
      have mono: "healthy_row env en ?b ?f h \<Longrightarrow> healthy_row env en ?b (phases st1) h" for h
        by (rule healthy_row_drift [OF d1])
      have inrows: "h \<in> set ?later" if "h \<in> set rows" "healthy_row env en ?b ?f h" "bindings_agree rows" for h
      proof -
        have "set rows = set ?peers \<union> set ?later" by (rule arg_cong [OF split, of set, unfolded set_append])
        then show ?thesis using that(1) none' [OF that(3), of h] that(2) by blast
      qed
      show ?thesis
      proof (cases res)
        case (Inl e)
        have "\<not> healthy_row env en ?b ?f h" if "bindings_agree rows" "h \<in> set rows" for h
          using ih Inl that inrows mono bindings_agree_sub [OF sub that(1)] by auto
        moreover have "drift ?f (phases st')" using ih Inl drift_trans [OF d1] by simp
        ultimately show ?thesis using ih Inl by simp
      next
        case (Inr r)
        then obtain c f where c: "ca_row c \<in> set ?later" "ready_row env ?b (ca_row c)"
            "key_of_row env (ca_row c) (ca_apiKey c)" "drift (phases st1) f"
            "group_served env en c f r (phases st')"
          and best: "bindings_agree ?later \<and> sorted (map rr_RoutePriority ?later) \<longrightarrow>
              (\<forall>h \<in> set ?later. healthy_row env en ?b (phases st1) h
                 \<longrightarrow> rr_RoutePriority (ca_row c) \<le> rr_RoutePriority h)"
          using ih by auto
        have "rr_RoutePriority (ca_row c) \<le> rr_RoutePriority h"
          if "bindings_agree rows" "sorted (map rr_RoutePriority rows)" "h \<in> set rows"
            "healthy_row env en ?b ?f h" for h
          using best bindings_agree_sub [OF sub that(1)] srt [OF that(2)] inrows [OF that(3,4,1)]
            mono [OF that(4)] by blast
        then show ?thesis using c sub drift_trans [OF d1 c(4)] ih Inr
          by (auto intro!: exI [of _ c] exI [of _ f])
      qed
    qed
  qed
qed

end

subsection \<open>The in-memory cache keeps the contract\<close>

definition memory_phases :: "gotime \<Rightarrow> cache \<Rightarrow> circuit_id \<Rightarrow> phase" where
  "memory_phases now c k =
     (case k of
        UpstreamCircuit u \<Rightarrow> phase now (upstreamCB c u)
      | ModelCircuit key \<Rightarrow> phase now (modelCB c key))"

definition memory_backoffs :: "gotime \<Rightarrow> cache \<Rightarrow> nat \<times> nat \<Rightarrow> duration" where
  "memory_backoffs now c = (\<lambda>(u, r). get_rate_limit_backoff now u r c)"

lemma check_circuit_phase:
  assumes "0 \<le> now"
  shows "phase now (snd (check_circuit_state now state))
    = (if phase now state = ProbeFree then ProbeOut else phase now state)"
proof (cases state)
  case (Some st)
  then show ?thesis using assms
    by (cases "now < cs_openUntil st"; cases "cs_manualOpen st"; cases "cs_openUntil st = 0";
        cases "cs_openUntil st + circuit_probe_ttl < now"; cases "now < cs_probeUntil st")
      (simp_all add: check_circuit_state_def phase_def circuit_probe_ttl_def second_def)
qed (simp add: check_circuit_state_def phase_def)

lemma release_phase:
  "0 \<le> now \<Longrightarrow> phase now (release_probe state) = (if phase now state = ProbeOut then ProbeFree else phase now state)"
  by (simp add: release_probe_def phase_def split: option.split)

lemma swept_phase:
  assumes "circuit_state_expired now st" and "0 \<le> now"
  shows "phase now (Some st) = Closed \<or> phase now (Some st) = ProbeFree"
  using assms by (auto simp: circuit_state_expired_def phase_def retention_defs second_def split: if_splits)

lemma swept_map_phase:
  assumes "0 \<le> now"
  shows "phase now (sweep_map (circuit_state_expired now) m k) = phase now (m k)
      \<or> phase now (m k) = ProbeFree \<and> phase now (sweep_map (circuit_state_expired now) m k) = Closed"
  using swept_phase [OF _ assms, of "the (m k)"]
  by (cases "m k") (auto simp: sweep_map_def phase_def [of now None])

lemma memory_sweep_drift:
  assumes "0 \<le> now"
  shows "drift (memory_phases now c) (memory_phases now (maybe_sweep now c))"
proof (rule maybe_sweep_rule)
  show "drift (memory_phases now c) (memory_phases now (sweep_expired now (c\<lparr>ops := (ops c + 1) mod 2 ^ 64\<rparr>)))"
    unfolding drift_def
  proof
    fix k
    show "memory_phases now (sweep_expired now (c\<lparr>ops := (ops c + 1) mod 2 ^ 64\<rparr>)) k = memory_phases now c k
      \<or> (memory_phases now c k = ProbeFree
          \<and> memory_phases now (sweep_expired now (c\<lparr>ops := (ops c + 1) mod 2 ^ 64\<rparr>)) k = Closed)"
      by (cases k) (use swept_map_phase [OF assms] in \<open>simp_all add: memory_phases_def\<close>)
  qed
qed (simp add: drift_def memory_phases_def split: circuit_id.split)

lemma memory_backoffs_cong: "rateLimits c' = rateLimits c \<Longrightarrow> memory_backoffs now c' = memory_backoffs now c"
  by (auto simp: memory_backoffs_def get_rate_limit_backoff_def fun_eq_iff Let_def get_or_def)

lemma memory_sweep_backoffs:
  assumes "0 \<le> now"
  shows "memory_backoffs now (maybe_sweep now c) = memory_backoffs now c"
proof (rule maybe_sweep_rule)
  have "get_rate_limit_backoff now u r (sweep_expired now (c\<lparr>ops := (ops c + 1) mod 2 ^ 64\<rparr>))
      = get_rate_limit_backoff now u r c" for u r
    using assms time_sub_nonpos [of "rl_backoffUntil (the (rateLimits c (u, r)))" now]
    by (cases "rateLimits c (u, r)")
      (auto simp: get_rate_limit_backoff_def Let_def get_or_def sweep_map_def zero_rate_limit_def time_sub_def)
  then show "memory_backoffs now (sweep_expired now (c\<lparr>ops := (ops c + 1) mod 2 ^ 64\<rparr>)) = memory_backoffs now c"
    by (auto simp: memory_backoffs_def fun_eq_iff)
qed (rule memory_backoffs_cong, simp)

interpretation memory_breaker: breaker_cache
  "memory_cache_ops (int now)" "memory_phases (int now)" "memory_backoffs (int now)" for now :: nat
proof (unfold_locales, goal_cases)
  case (1 u c v c')
  then have c': "c' = c\<lparr>upstreamCB := (upstreamCB c)(u := snd (check_circuit_state (int now) (upstreamCB c u)))\<rparr>"
      and v: "v = Inr (fst (check_circuit_state (int now) (upstreamCB c u)))"
    by (auto simp: memory_cache_ops_def check_upstream_circuit_state_def Let_def split: prod.splits)
  have "memory_phases (int now) c' = take_probe (UpstreamCircuit u) (memory_phases (int now) c)"
    by (rule ext) (simp add: c' memory_phases_def take_probe_def check_circuit_phase split: circuit_id.split)
  moreover have "memory_backoffs (int now) c' = memory_backoffs (int now) c"
    by (rule memory_backoffs_cong) (simp add: c')
  ultimately show ?case by (simp add: v check_circuit_verdict memory_phases_def [of _ _ "_ _"])
next
  case (2 u k c v c')
  let ?key = "model_circuit_key u k"
  from 2 have c': "c' = c\<lparr>modelCB := (modelCB c)(?key := snd (check_circuit_state (int now) (modelCB c ?key)))\<rparr>"
      and v: "v = Inr (fst (check_circuit_state (int now) (modelCB c ?key)))"
    by (auto simp: memory_cache_ops_def check_model_circuit_state_def Let_def split: prod.splits)
  have "memory_phases (int now) c' = take_probe (ModelCircuit ?key) (memory_phases (int now) c)"
    by (rule ext) (simp add: c' memory_phases_def take_probe_def check_circuit_phase split: circuit_id.split)
  moreover have "memory_backoffs (int now) c' = memory_backoffs (int now) c"
    by (rule memory_backoffs_cong) (simp add: c')
  ultimately show ?case by (simp add: v check_circuit_verdict memory_phases_def [of _ _ "_ _"])
next
  case (3 u c)
  have "memory_phases (int now) (release_route_probes u [] c)
      = give_probe (UpstreamCircuit u) (memory_phases (int now) c)"
    by (rule ext) (simp add: memory_phases_def give_probe_def release_route_probes_def release_phase
        split: circuit_id.split)
  moreover have "memory_backoffs (int now) (release_route_probes u [] c) = memory_backoffs (int now) c"
    by (rule memory_backoffs_cong) (simp add: release_route_probes_def)
  ultimately show ?case by (simp add: memory_cache_ops_def)
next
  case (4 u r c)
  then show ?case by (simp add: memory_cache_ops_def memory_backoffs_def)
next
  case (5 u c n c')
  define c0 where "c0 = c\<lparr>keyCounters := (keyCounters c)(u \<mapsto>
      \<lparr>ak_next = wrap64 (ak_next (get_or zero_key_counter (keyCounters c) u) + 1), ak_lastUsed = int now\<rparr>)\<rparr>"
  have c': "c' = maybe_sweep (int now) c0"
    using 5 by (simp add: memory_cache_ops_def incr_api_key_counter_def Let_def c0_def)
  have "memory_phases (int now) c0 = memory_phases (int now) c"
    by (rule ext) (simp add: memory_phases_def c0_def split: circuit_id.split)
  moreover have "memory_backoffs (int now) c0 = memory_backoffs (int now) c"
    by (rule memory_backoffs_cong) (simp add: c0_def)
  ultimately show ?case using memory_sweep_drift [of "int now" c0] memory_sweep_backoffs [of "int now" c0]
    by (simp add: c')
qed

subsection \<open>From the call to the loops\<close>

definition breaker_enabled :: "gotime \<Rightarrow> route_repo \<Rightarrow> 'c routing_state \<Rightarrow> bool" where
  "breaker_enabled now repo st = bd_Enabled (fst (load_breaker now repo st))"

definition request_rows ::
  "route_env \<Rightarrow> route_repo \<Rightarrow> resolve_route_input \<Rightarrow> route_row list option" where
  \<comment> \<open>the rows the loops run over, \<open>None\<close> when the request is refused before\<close>
  "request_rows env repo input =
     (case normalize_platform_model_name (ri_PlatformModelName input) of
        None \<Rightarrow> None
      | Some name \<Rightarrow>
          (case (rp_GetActiveModelByName repo name, rp_ListActiveRoutesByModel repo name) of
             (Inr model, Inr rows) \<Rightarrow>
               if check_access repo input model = None then Some (available_rows env input rows) else None
           | _ \<Rightarrow> None))"

lemma resolve_route_loops:
  fixes api :: "'c cache_ops"
  obtains st0 :: "'c routing_state" where "w_cache st0 = w_cache st"
    "\<And>rows. request_rows env repo input = Some rows \<Longrightarrow> rows \<noteq> [] \<Longrightarrow>
      resolve_route env (Some api) repo now input st
        = resolve_groups env (Some api) (breaker_enabled now repo st) rows 0 st0"
    "request_rows env repo input = None \<or> request_rows env repo input = Some [] \<Longrightarrow>
      \<exists>e. resolve_route env (Some api) repo now input st = (Inl e, st0)
          \<and> (\<forall>d. e \<noteq> RoutesRateLimitedError d \<or> (\<exists>name. rp_GetActiveModelByName repo name = Inl e)
               \<or> (\<exists>name. rp_ListActiveRoutesByModel repo name = Inl e))"
proof -
  obtain cfg st0 where l: "load_breaker now repo st = (cfg, st0)" by fastforce
  have "w_cache st0 = w_cache st" using l by (auto simp: load_breaker_def split: prod.splits)
  moreover have "resolve_route env (Some api) repo now input st
        = resolve_groups env (Some api) (breaker_enabled now repo st) rows 0 st0"
    if "request_rows env repo input = Some rows" "rows \<noteq> []" for rows
    using that l by (auto simp: request_rows_def resolve_route_def breaker_enabled_def Let_def
        available_rows_def split: option.splits sum.splits if_splits)
  moreover have "\<exists>e. resolve_route env (Some api) repo now input st = (Inl e, st0)
          \<and> (\<forall>d. e \<noteq> RoutesRateLimitedError d \<or> (\<exists>name. rp_GetActiveModelByName repo name = Inl e)
               \<or> (\<exists>name. rp_ListActiveRoutesByModel repo name = Inl e))"
    if "request_rows env repo input = None \<or> request_rows env repo input = Some []"
  proof (cases "normalize_platform_model_name (ri_PlatformModelName input)")
    case (Some name)
    have access: "check_access repo input m = Some e \<Longrightarrow> e \<noteq> RoutesRateLimitedError d" for m e d
      by (auto simp: check_access_def split: if_splits sum.splits)
    show ?thesis using that l Some access
      by (auto simp: request_rows_def resolve_route_def Let_def split: option.splits sum.splits if_splits)
  qed (use l in \<open>simp add: resolve_route_def Let_def\<close>)
  ultimately show thesis by (rule that)
qed

definition held_circuits :: "resolved_route \<Rightarrow> circuit_id set" where
  "held_circuits route =
     (if rt_UpstreamProbeGranted route then {UpstreamCircuit (rt_UpstreamID route)} else {})
     \<union> (if rt_ModelProbeGranted route
        then {ModelCircuit (model_circuit_key (rt_UpstreamID route) (route_model_circuit_key route))} else {})"

lemma served_fields [simp]:
  "rt_RouteID (serve env c v m) = rr_RouteID (ca_row c)"
  "rt_UpstreamID (serve env c v m) = rr_UpstreamID (ca_row c)"
  "rt_UpstreamModelID (serve env c v m) = rr_UpstreamModelID (ca_row c)"
  "rt_Protocol (serve env c v m) = rr_Protocol (ca_row c)"
  "rt_APIKey (serve env c v m) = ca_apiKey c"
  "route_model_circuit_key (serve env c v m) = binding_circuit_key (rr_BindingCode (ca_row c))"
  "rt_UpstreamProbeGranted (serve env c v m) = (v = ''half_open_granted'')"
  "rt_ModelProbeGranted (serve env c v m) = (m = ''half_open_granted'')"
  by (simp_all add: serve_def build_resolved_route_def Let_def route_model_circuit_key_def
      binding_circuit_key_def)

lemma held_served:
  "k \<in> held_circuits (served_by env c f)
    \<longleftrightarrow> k \<in> {upstream_circuit (ca_row c), model_circuit (ca_row c)} \<and> f k = ProbeFree"
  by (auto simp: held_circuits_def served_by_def granted_verdict upstream_circuit_def model_circuit_def)

lemma served_phases_admits:
  "admits (served_phases row f k) \<longleftrightarrow> admits (f k)
     \<and> \<not> (k \<in> {upstream_circuit row, model_circuit row} \<and> f k = ProbeFree)"
  by (auto simp: served_phases_def take_probe_admits take_probe_other)

lemma held_unprobed: "held_circuits (serve env c ''closed'' ''closed'') = {}"
  by (simp add: held_circuits_def)

abbreviation memory_api :: "nat \<Rightarrow> cache cache_ops" where
  "memory_api now \<equiv> memory_cache_ops (int now)"

lemma resolve_route_memory:
  assumes "resolve_route env (Some (memory_api now)) repo (int now) input st = (Inr r, st')"
    and "request_rows env repo input = Some rows"
  shows "\<exists>c f. ca_row c \<in> set rows \<and> ready_row env (memory_backoffs (int now) (w_cache st)) (ca_row c)
    \<and> key_of_row env (ca_row c) (ca_apiKey c) \<and> drift (memory_phases (int now) (w_cache st)) f
    \<and> group_served env (breaker_enabled (int now) repo st) c f r (memory_phases (int now) (w_cache st'))
    \<and> (bindings_agree rows \<and> sorted (map rr_RoutePriority rows) \<longrightarrow>
         (\<forall>h \<in> set rows. healthy_row env (breaker_enabled (int now) repo st)
              (memory_backoffs (int now) (w_cache st)) (memory_phases (int now) (w_cache st)) h
            \<longrightarrow> rr_RoutePriority (ca_row c) \<le> rr_RoutePriority h))"
proof -
  obtain st0 where st0: "w_cache st0 = w_cache st"
    and loops: "\<And>rows. request_rows env repo input = Some rows \<Longrightarrow> rows \<noteq> [] \<Longrightarrow>
      resolve_route env (Some (memory_api now)) repo (int now) input st
        = resolve_groups env (Some (memory_api now)) (breaker_enabled (int now) repo st) rows 0 st0"
    and early: "request_rows env repo input = None \<or> request_rows env repo input = Some [] \<Longrightarrow>
      \<exists>e. resolve_route env (Some (memory_api now)) repo (int now) input st = (Inl e, st0)"
    by (rule resolve_route_loops [of st env repo input "memory_api now" "int now"]) blast
  have "rows \<noteq> []" using early assms by auto
  then show ?thesis using memory_breaker.resolve_groups_law loops assms st0 by fastforce
qed

lemma backoff_zero:
  assumes "remaining_backoff (memory_backoffs now c) row \<le> 0"
  shows "get_rate_limit_backoff now (rr_UpstreamID row) (rr_RouteID row) c = 0"
  using assms by (auto simp: remaining_backoff_def memory_backoffs_def get_rate_limit_backoff_def Let_def
      split: if_splits)

lemma resolved_request:
  assumes "resolve_route env (Some (memory_api now)) repo (int now) input st = (Inr r, st')"
  shows "\<exists>rows. request_rows env repo input = Some rows"
proof -
  obtain st0 where "request_rows env repo input = None \<or> request_rows env repo input = Some [] \<Longrightarrow>
      \<exists>e. resolve_route env (Some (memory_api now)) repo (int now) input st = (Inl e, st0)"
    by (rule resolve_route_loops [of st env repo input "memory_api now" "int now"]) blast
  then show ?thesis using assms by (cases "request_rows env repo input") auto
qed

lemma request_rowsD:
  assumes "request_rows env repo input = Some rows" and "row \<in> set rows"
  shows "is_route_allowed_for_task (env_strings_of env) (ri_TaskType input) (rr_ModelKindsJSON row) (rr_Protocol row)
    \<and> (rr_RouteID row \<in> set (ri_ExcludedRouteIDs input) \<longrightarrow> rr_RouteID row = 0)
    \<and> (\<exists>name model listed. normalize_platform_model_name (ri_PlatformModelName input) = Some name
         \<and> rp_GetActiveModelByName repo name = Inr model \<and> check_access repo input model = None
         \<and> rp_ListActiveRoutesByModel repo name = Inr listed \<and> row \<in> set listed)"
  using assms by (auto simp: request_rows_def available_rows_def split: option.splits sum.splits if_splits)

text \<open>A small installation to run the functions on: one model, one upstream, two routes.\<close>

definition sample_row :: "nat \<Rightarrow> int \<Rightarrow> route_row" where
  "sample_row routeID priority =
     \<lparr>rr_RouteID = routeID, rr_UpstreamModelID = 3, rr_UpstreamID = 1, rr_UpstreamName = ''up'',
      rr_PlatformModelID = 9, rr_PlatformModelName = ''m'', rr_ModelVendor = ''openai'', rr_ModelIcon = [],
      rr_ModelKindsJSON = [], rr_ModelCapabilitiesJSON = [], rr_ModelSystemPrompt = [],
      rr_Protocol = ''openai_responses'', rr_BaseURL = ''u'', rr_APIKeysEnc = ''k'',
      rr_ConnectTimeoutMS = 0, rr_ReadTimeoutMS = 0, rr_StreamIdleTimeoutMS = 0, rr_HeadersJSON = [],
      rr_RouteHeadersJSON = [], rr_BindingCode = ''b'', rr_UpstreamModelName = ''um'', rr_Weight = 1,
      rr_RoutePriority = priority, rr_UpstreamCbFailureThreshold = 0, rr_UpstreamCbModelThreshold = 0,
      rr_UpstreamCbThresholdLogic = [], rr_UpstreamCbDurationMin = 0, rr_UpstreamCbWindowMin = 0,
      rr_PlatformModelCbPolicyMode = [], rr_PlatformModelCbFailureThreshold = 0,
      rr_PlatformModelCbDurationMin = 0, rr_PlatformModelCbWindowMin = 0,
      rr_ModelCbFailureThreshold = 0, rr_ModelCbDurationMin = 0, rr_ModelCbWindowMin = 0\<rparr>"

definition sample_env :: route_env where
  "sample_env =
     \<lparr>env_strings_of = (\<lambda>_. None), env_decrypt = Some,
      env_keys_of = (\<lambda>_. Some \<lparr>kc_Strategy = [], kc_Keys = [\<lparr>ak_Key = ''sk'', ak_Status = [], ak_Note = []\<rparr>]\<rparr>),
      env_trustedURL = (\<lambda>_. True), env_mergeHeaders = (\<lambda>a b. a), env_detectVendor = (\<lambda>_. []),
      env_parseTime = (\<lambda>_. None)\<rparr>"

definition sample_repo :: route_repo where
  "sample_repo =
     \<lparr>rp_GetActiveModelByName = (\<lambda>_. Inr \<lparr>pm_ID = 9, pm_AccessScope = []\<rparr>),
      rp_ListActiveRoutesByModel = (\<lambda>_. Inr [sample_row 7 1, sample_row 8 2]),
      rp_ListActiveRouteBindingCodesForUpstream = (\<lambda>_. Inr [''b'']),
      rp_GetBreakerErrorClassification =
        \<lparr>ec_CircuitErrors = [], ec_RateLimitErrors = [''429''], ec_IgnoreErrors = [''4xx'']\<rparr>,
      rp_GetBreakerDefaults = Inr (default_breaker_defaults\<lparr>bd_Enabled := True\<rparr>),
      rp_GetRateLimitDefaults = \<lparr>rd_BackoffBaseSec = 5, rd_BackoffMaxSec = 60, rd_BackoffMultiplier = 2\<rparr>,
      rp_permGroups = None, rp_subGroupResolver = None\<rparr>"

definition sample_request :: resolve_route_input where
  "sample_request =
     \<lparr>ri_PlatformModelName = ''m'', ri_TaskType = [], ri_Scope = [], ri_UserID = 0, ri_ExcludedRouteIDs = []\<rparr>"

definition sample_state :: "cache routing_state" where
  "sample_state =
     \<lparr>w_cache = new_cache\<lparr>upstreamCB := [1 \<mapsto> zero_circuit\<lparr>cs_openUntil := 50\<rparr>]\<rparr>, w_draws = [],
      w_localCounters = (\<lambda>_. 0), w_breaker = zero_breaker_cell\<rparr>"

definition sample_route :: "(route_err + resolved_route) \<times> cache routing_state" where
  "sample_route = resolve_route sample_env (Some (memory_cache_ops (int 100))) sample_repo (int 100)
     sample_request sample_state"

definition is_route :: "nat \<Rightarrow> route_err + resolved_route \<Rightarrow> bool" where
  "is_route routeID res = (case res of Inl _ \<Rightarrow> False | Inr r \<Rightarrow> rt_RouteID r = routeID)"

lemma sample_route_served: "is_route 7 (fst sample_route)"
  by code_simp

lemma sample_rows: "request_rows sample_env sample_repo sample_request = Some [sample_row 7 1, sample_row 8 2]"
  by code_simp

text \<open>
  C16: Every route \<open>ResolveRoute\<close> hands out may serve the request. The caller has access to the
  model, the route is one of the active routes of that model, was not excluded, is allowed for
  the task, speaks an implemented protocol at a trusted address, is not backing off from a rate
  limit, and carries one of the active keys of its upstream; and when the breaker is enabled,
  neither the circuit of the upstream nor that of the model was open or held by a probe.
\<close>

theorem resolved_route_may_serve:
  assumes "resolve_route env (Some (memory_cache_ops (int now))) repo (int now) input st = (Inr r, st')"
  shows "\<exists>name model listed row.
    normalize_platform_model_name (ri_PlatformModelName input) = Some name
    \<and> rp_GetActiveModelByName repo name = Inr model \<and> check_access repo input model = None
    \<and> rp_ListActiveRoutesByModel repo name = Inr listed \<and> row \<in> set listed
    \<and> rt_RouteID r = rr_RouteID row \<and> rt_UpstreamID r = rr_UpstreamID row
    \<and> rt_Protocol r = rr_Protocol row \<and> key_of_row env row (rt_APIKey r)
    \<and> (rr_RouteID row \<in> set (ri_ExcludedRouteIDs input) \<longrightarrow> rr_RouteID row = 0)
    \<and> is_route_allowed_for_task (env_strings_of env) (ri_TaskType input) (rr_ModelKindsJSON row) (rr_Protocol row)
    \<and> usable_row env row
    \<and> get_rate_limit_backoff (int now) (rr_UpstreamID row) (rr_RouteID row) (w_cache st) = 0
    \<and> (breaker_enabled (int now) repo st \<longrightarrow>
         open_row (memory_phases (int now) (w_cache st)) row)"
proof -
  obtain rows where rows: "request_rows env repo input = Some rows"
    using resolved_request [OF assms] by blast
  from resolve_route_memory [OF assms rows] obtain c f where
    c: "ca_row c \<in> set rows" "ready_row env (memory_backoffs (int now) (w_cache st)) (ca_row c)"
      "key_of_row env (ca_row c) (ca_apiKey c)" "drift (memory_phases (int now) (w_cache st)) f"
      "group_served env (breaker_enabled (int now) repo st) c f r (memory_phases (int now) (w_cache st'))"
    by blast
  have r: "rt_RouteID r = rr_RouteID (ca_row c)" "rt_UpstreamID r = rr_UpstreamID (ca_row c)"
      "rt_Protocol r = rr_Protocol (ca_row c)" "rt_APIKey r = ca_apiKey c"
      "breaker_enabled (int now) repo st \<longrightarrow> open_row f (ca_row c)"
    using c(5) by (auto simp: group_served_def served_by_def split: if_splits)
  have "open_row f (ca_row c) \<longleftrightarrow> open_row (memory_phases (int now) (w_cache st)) (ca_row c)"
    using drift_admits [OF c(4)] by (simp add: open_row_def)
  then show ?thesis
    using request_rowsD [OF rows c(1)] c(2,3) r backoff_zero by (simp add: ready_row_def) blast
qed

text \<open>
  C17: A healthy route is always found, and no route of a later priority is preferred to it. If one
  of the rows of the request is ready (usable, not backing off, with an active key) and both its
  circuits are closed, then \<open>ResolveRoute\<close> succeeds whatever the draws are, and the route it
  returns comes from a row whose priority is not after the healthy one.
\<close>

theorem healthy_route_is_found:
  assumes rows: "request_rows env repo input = Some rows"
    and sorted: "sorted (map rr_RoutePriority rows)" and agree: "bindings_agree rows"
    and h: "h \<in> set rows"
      "healthy_row env (breaker_enabled (int now) repo st)
         (memory_backoffs (int now) (w_cache st)) (memory_phases (int now) (w_cache st)) h"
  shows "\<exists>r row st'. resolve_route env (Some (memory_cache_ops (int now))) repo (int now) input st = (Inr r, st')
    \<and> row \<in> set rows \<and> rt_RouteID r = rr_RouteID row \<and> rr_RoutePriority row \<le> rr_RoutePriority h"
proof -
  obtain st0 where st0: "w_cache st0 = w_cache st"
    and loops: "\<And>rows. request_rows env repo input = Some rows \<Longrightarrow> rows \<noteq> [] \<Longrightarrow>
      resolve_route env (Some (memory_api now)) repo (int now) input st
        = resolve_groups env (Some (memory_api now)) (breaker_enabled (int now) repo st) rows 0 st0"
    by (rule resolve_route_loops [of st env repo input "memory_api now" "int now"]) blast
  obtain res st' where run: "resolve_route env (Some (memory_api now)) repo (int now) input st = (res, st')"
    by fastforce
  have "rows \<noteq> []" using h(1) by auto
  from memory_breaker.resolve_groups_law [OF trans [OF loops [OF rows this, symmetric] run]]
  show ?thesis
  proof (cases res)
    case (Inl e)
    with memory_breaker.resolve_groups_law [OF trans [OF loops [OF rows \<open>rows \<noteq> []\<close>, symmetric] run]]
    show ?thesis using h agree st0 by auto
  next
    case (Inr r)
    from resolve_route_memory [OF run [unfolded Inr] rows] obtain c f where
      "ca_row c \<in> set rows" "group_served env (breaker_enabled (int now) repo st) c f r (memory_phases (int now) (w_cache st'))"
      "rr_RoutePriority (ca_row c) \<le> rr_RoutePriority h"
      using sorted agree h by blast
    then show ?thesis using run Inr
      by (auto simp: group_served_def served_by_def split: if_splits)
  qed
qed

text \<open>
  C18: Probes are accounted for. Whatever \<open>ResolveRoute\<close> returns, a circuit admits requests after
  the call exactly when it did before and its probe was not handed to the returned route: the
  probe of an upstream whose model turns out to be blocked is always given back.
\<close>

theorem resolve_route_leaks_no_probe:
  assumes "resolve_route env (Some (memory_cache_ops (int now))) repo (int now) input st = (res, st')"
  shows "admits (memory_phases (int now) (w_cache st') k) \<longleftrightarrow>
    admits (memory_phases (int now) (w_cache st) k)
      \<and> (case res of Inl e \<Rightarrow> True | Inr r \<Rightarrow> k \<notin> held_circuits r)"
proof -
  obtain st0 where st0: "w_cache st0 = w_cache st"
    and loops: "\<And>rows. request_rows env repo input = Some rows \<Longrightarrow> rows \<noteq> [] \<Longrightarrow>
      resolve_route env (Some (memory_api now)) repo (int now) input st
        = resolve_groups env (Some (memory_api now)) (breaker_enabled (int now) repo st) rows 0 st0"
    and early: "request_rows env repo input = None \<or> request_rows env repo input = Some [] \<Longrightarrow>
      \<exists>e. resolve_route env (Some (memory_api now)) repo (int now) input st = (Inl e, st0)"
    by (rule resolve_route_loops [of st env repo input "memory_api now" "int now"]) blast
  show ?thesis
  proof (cases "\<exists>rows. request_rows env repo input = Some rows \<and> rows \<noteq> []")
    case False
    then have "request_rows env repo input = None \<or> request_rows env repo input = Some []"
      by (cases "request_rows env repo input") auto
    then show ?thesis using early assms st0 by auto
  next
    case True
    then obtain rows where rows: "request_rows env repo input = Some rows" "rows \<noteq> []" by blast
    note law = memory_breaker.resolve_groups_law [OF trans [OF loops [OF rows, symmetric] assms]]
    show ?thesis
    proof (cases res)
      case (Inl e)
      then show ?thesis using law st0 drift_admits by simp
    next
      case (Inr r)
      from resolve_route_memory [OF assms [unfolded Inr] rows(1)] obtain c f where
        d: "drift (memory_phases (int now) (w_cache st)) f"
        and g: "group_served env (breaker_enabled (int now) repo st) c f r (memory_phases (int now) (w_cache st'))"
        by blast
      then show ?thesis using Inr drift_admits [OF d, of k]
        by (auto simp: group_served_def served_phases_admits held_served held_unprobed split: if_splits)
    qed
  qed
qed

lemma sample_route_resolved:
  obtains r st' where "resolve_route sample_env (Some (memory_cache_ops (int 100))) sample_repo (int 100)
      sample_request sample_state = (Inr r, st')" "rt_RouteID r = 7"
proof -
  obtain res st' where run: "sample_route = (res, st')" by fastforce
  then have "is_route 7 res" using sample_route_served by (metis fst_conv)
  then obtain r where "res = Inr r" "rt_RouteID r = 7" by (cases res) (simp_all add: is_route_def)
  then show thesis using that run by (simp add: sample_route_def)
qed

theorem resolved_route_may_serve_witness:
  "\<exists>(r :: resolved_route) (row :: route_row). rt_RouteID r = 7 \<and> rt_RouteID r = rr_RouteID row \<and> usable_row sample_env row
     \<and> get_rate_limit_backoff 100 (rr_UpstreamID row) (rr_RouteID row) (w_cache sample_state) = 0"
proof -
  obtain r st' where r: "resolve_route sample_env (Some (memory_cache_ops (int 100))) sample_repo (int 100)
      sample_request sample_state = (Inr r, st')" "rt_RouteID r = 7" by (rule sample_route_resolved)
  from resolved_route_may_serve [OF r(1)] obtain row where "rt_RouteID r = rr_RouteID row"
      "usable_row sample_env row"
      "get_rate_limit_backoff (int 100) (rr_UpstreamID row) (rr_RouteID row) (w_cache sample_state) = 0"
    by blast
  then show ?thesis using r(2) by (intro exI [of _ r] exI [of _ row]) simp
qed

definition closed_state :: "cache routing_state" where
  "closed_state = sample_state\<lparr>w_cache := new_cache\<rparr>"

theorem healthy_route_is_found_witness:
  "\<exists>r row st'. resolve_route sample_env (Some (memory_cache_ops (int 100))) sample_repo (int 100)
       sample_request closed_state = (Inr r, st')
     \<and> row \<in> set [sample_row 7 1, sample_row 8 2] \<and> rt_RouteID r = rr_RouteID row
     \<and> rr_RoutePriority row \<le> rr_RoutePriority (sample_row 7 1)"
proof (rule healthy_route_is_found [OF sample_rows])
  show "sorted (map rr_RoutePriority [sample_row 7 1, sample_row 8 2])" by (simp add: sample_row_def)
  show "bindings_agree [sample_row 7 1, sample_row 8 2]" by (simp add: bindings_agree_def sample_row_def)
  have "usable_row sample_env (sample_row 7 1) \<and> has_key sample_env (sample_row 7 1)" by code_simp
  then show "healthy_row sample_env (breaker_enabled (int 100) sample_repo closed_state)
      (memory_backoffs (int 100) (w_cache closed_state)) (memory_phases (int 100) (w_cache closed_state))
      (sample_row 7 1)"
    by (simp add: healthy_row_def ready_row_def closed_state_def memory_phases_def upstream_circuit_def
        model_circuit_def remaining_backoff_def memory_backoffs_def get_rate_limit_backoff_def new_cache_def
        zero_rate_limit_def time_sub_def phase_def)
qed simp

theorem resolve_route_leaks_no_probe_witness:
  "\<exists>r st'. resolve_route sample_env (Some (memory_cache_ops (int 100))) sample_repo (int 100)
       sample_request sample_state = (Inr r, st')
     \<and> (admits (memory_phases (int 100) (w_cache st') (UpstreamCircuit 1))
          \<longleftrightarrow> UpstreamCircuit 1 \<notin> held_circuits r)"
proof -
  obtain r st' where r: "resolve_route sample_env (Some (memory_cache_ops (int 100))) sample_repo (int 100)
      sample_request sample_state = (Inr r, st')" "rt_RouteID r = 7" by (rule sample_route_resolved)
  have "admits (memory_phases (int 100) (w_cache sample_state) (UpstreamCircuit 1))"
    by (simp add: admits_def memory_phases_def sample_state_def phase_def zero_circuit_def
        circuit_probe_ttl_def second_def)
  with resolve_route_leaks_no_probe [OF r(1), of "UpstreamCircuit 1"] show ?thesis using r(1) by auto
qed

text \<open>
  A caller that finds no route is told the truth about waiting. When rows were there but none
  could serve, the error is \<open>RoutesRateLimitedError\<close> exactly when some usable row is backing off,
  and its \<open>RetryAfter\<close> is the shortest of the remaining backoffs.
\<close>

theorem unavailable_routes_report_shortest_wait:
  assumes "resolve_route env (Some (memory_cache_ops (int now))) repo (int now) input st = (Inl e, st')"
    and "request_rows env repo input = Some rows" and "rows \<noteq> []"
  shows "e = (let ws = waits env (memory_backoffs (int now) (w_cache st)) rows
              in if ws = [] then ErrAllRoutesUnavailable else RoutesRateLimitedError (Min (set ws)))"
proof -
  obtain st0 where st0: "w_cache st0 = w_cache st"
    and loops: "\<And>rows. request_rows env repo input = Some rows \<Longrightarrow> rows \<noteq> [] \<Longrightarrow>
      resolve_route env (Some (memory_api now)) repo (int now) input st
        = resolve_groups env (Some (memory_api now)) (breaker_enabled (int now) repo st) rows 0 st0"
    by (rule resolve_route_loops [of st env repo input "memory_api now" "int now"]) blast
  let ?ws = "waits env (memory_backoffs (int now) (w_cache st)) rows"
  have "e = no_route_error (foldl shorter 0 ?ws)"
    using memory_breaker.resolve_groups_law [OF trans [OF loops [OF assms(2,3), symmetric] assms(1)]] st0
    by simp
  moreover have pos: "\<forall>d \<in> set ?ws. 0 < d" by (simp add: waits_def)
  moreover have "?ws \<noteq> [] \<Longrightarrow> 0 < Min (set ?ws)" using pos by simp
  ultimately show ?thesis by (simp add: foldl_shorter_zero no_route_error_def Let_def)
qed

definition limited_state :: "cache routing_state" where
  "limited_state = sample_state\<lparr>w_cache := new_cache\<lparr>rateLimits :=
     [(1, 7) \<mapsto> \<lparr>rl_backoffUntil = 190, rl_backoffCount = 1, rl_countExpires = 900\<rparr>,
      (1, 8) \<mapsto> \<lparr>rl_backoffUntil = 150, rl_backoffCount = 1, rl_countExpires = 900\<rparr>]\<rparr>\<rparr>"

theorem unavailable_routes_report_shortest_wait_witness:
  "\<exists>st'. resolve_route sample_env (Some (memory_cache_ops (int 100))) sample_repo (int 100)
       sample_request limited_state = (Inl (RoutesRateLimitedError 50), st')"
proof -
  obtain res st' where run: "resolve_route sample_env (Some (memory_cache_ops (int 100))) sample_repo (int 100)
       sample_request limited_state = (res, st')" by fastforce
  have "isl (fst (resolve_route sample_env (Some (memory_cache_ops (int 100))) sample_repo (int 100)
       sample_request limited_state))" by code_simp
  then obtain e where e: "res = Inl e" using run by (cases res) auto
  have "usable_row sample_env (sample_row 7 1) \<and> usable_row sample_env (sample_row 8 2)" by code_simp
  then have "waits sample_env (memory_backoffs (int 100) (w_cache limited_state)) [sample_row 7 1, sample_row 8 2]
      = [90, 50]"
    by (simp add: waits_def remaining_backoff_def memory_backoffs_def get_rate_limit_backoff_def
        limited_state_def time_sub_def sample_row_def)
  then show ?thesis
    using unavailable_routes_report_shortest_wait [OF run [unfolded e] sample_rows] run e by simp
qed

subsection \<open>The weighted draw\<close>

lemma weighted_pick_interval:
  assumes "distinct rows" and "i < length rows" and "acc \<le> r" and "0 \<le> acc"
    and "acc + sum_list (map candidate_weight rows) < 2 ^ 63"
  shows "weighted_pick r acc rows = Some (rows ! i) \<longleftrightarrow>
    acc + sum_list (map candidate_weight (take i rows)) \<le> r
      \<and> r < acc + sum_list (map candidate_weight (take (Suc i) rows))"
  using assms
proof (induction rows arbitrary: acc i)
  case (Cons row rows)
  have pos: "0 \<le> candidate_weight x" for x by (simp add: candidate_weight_def)
  have sums: "0 \<le> sum_list (map candidate_weight xs)" for xs by (rule sum_list_nonneg) (auto simp: pos)
  have w: "wrap64 (acc + candidate_weight row) = acc + candidate_weight row"
    using Cons.prems(4,5) pos [of row] sums [of rows] by (intro wrap64_nonneg_small) simp_all
  show ?case
  proof (cases i)
    case 0
    then show ?thesis using Cons.prems(1,3) weighted_pick_in [of r "acc + candidate_weight row" rows row]
      by (auto simp: w Let_def)
  next
    case (Suc j)
    have j: "j < length rows" using Cons.prems(2) Suc by simp
    show ?thesis
    proof (cases "r < acc + candidate_weight row")
      case True
      then show ?thesis using Suc j Cons.prems(1) sums [of "take j rows"] by (auto simp: w Let_def)
    next
      case False
      then have "weighted_pick r (acc + candidate_weight row) rows = Some (rows ! j)
          \<longleftrightarrow> acc + candidate_weight row + sum_list (map candidate_weight (take j rows)) \<le> r
            \<and> r < acc + candidate_weight row + sum_list (map candidate_weight (take (Suc j) rows))"
        using Cons.prems pos [of row] j by (intro Cons.IH) simp_all
      then show ?thesis using False Suc by (simp add: w add.assoc)
    qed
  qed
qed simp

lemma weighted_pick_some:
  "r < acc + sum_list (map candidate_weight rows) \<Longrightarrow> 0 \<le> acc \<Longrightarrow>
    acc + sum_list (map candidate_weight rows) < 2 ^ 63 \<Longrightarrow> rows \<noteq> [] \<Longrightarrow> weighted_pick r acc rows \<noteq> None"
proof (induction rows arbitrary: acc)
  case (Cons row rows)
  have pos: "0 \<le> candidate_weight x" for x by (simp add: candidate_weight_def)
  have "0 \<le> sum_list (map candidate_weight rows)" by (rule sum_list_nonneg) (auto simp: pos)
  then have "wrap64 (acc + candidate_weight row) = acc + candidate_weight row"
    using Cons.prems pos [of row] by (intro wrap64_nonneg_small) simp_all
  then show ?case using Cons pos [of row] by (cases "rows = []") (auto simp: Let_def add.assoc)
qed simp

lemma total_weight_sum:
  assumes "sum_list (map candidate_weight rows) < 2 ^ 63"
  shows "total_weight rows = sum_list (map candidate_weight rows)"
proof -
  have pos: "0 \<le> candidate_weight x" for x by (simp add: candidate_weight_def)
  have "foldl (\<lambda>total row. wrap64 (total + candidate_weight row)) acc rows
      = acc + sum_list (map candidate_weight rows)"
    if "0 \<le> acc" "acc + sum_list (map candidate_weight rows) < 2 ^ 63" for acc
    using that
  proof (induction rows arbitrary: acc)
    case (Cons row rows)
    have "0 \<le> sum_list (map candidate_weight rows)" by (rule sum_list_nonneg) (auto simp: pos)
    then have "wrap64 (acc + candidate_weight row) = acc + candidate_weight row"
      using Cons.prems pos [of row] by (intro wrap64_nonneg_small) simp_all
    then show ?case using Cons pos [of row] by (simp add: add.assoc)
  qed simp
  from this [of 0] show ?thesis using assms by (simp add: total_weight_def)
qed

text \<open>
  The draw is fair to the weights. As long as the weights of a group add up within an \<open>int\<close>,
  each candidate is drawn by exactly as many of the values of \<open>rand.Intn(totalWeight)\<close> as its
  weight says (a weight that is not positive counts as 100).
\<close>

theorem weighted_draw_is_proportional:
  assumes distinct: "distinct rows" and i: "i < length rows"
    and total: "sum_list (map candidate_weight rows) < 2 ^ 63"
  shows "int (card {d. d < nat (total_weight rows)
      \<and> fst (weighted_random_candidate rows (st\<lparr>w_draws := [d]\<rparr>)) = Some (rows ! i)})
    = candidate_weight (rows ! i)"
proof -
  let ?W = "sum_list (map candidate_weight rows)"
  let ?a = "sum_list (map candidate_weight (take i rows))"
  have pos: "0 < candidate_weight x" for x by (simp add: candidate_weight_def)
  have sums: "0 \<le> sum_list (map candidate_weight xs)" for xs
    by (rule sum_list_nonneg) (auto simp: less_imp_le [OF pos])
  have b: "sum_list (map candidate_weight (take (Suc i) rows)) = ?a + candidate_weight (rows ! i)"
    using i by (simp add: take_Suc_conv_app_nth)
  have "rows = take (Suc i) rows @ drop (Suc i) rows" by simp
  then have "?W = sum_list (map candidate_weight (take (Suc i) rows)) + sum_list (map candidate_weight (drop (Suc i) rows))"
    by (metis map_append sum_list_append)
  then have le: "?a + candidate_weight (rows ! i) \<le> ?W" using b sums [of "drop (Suc i) rows"] by simp
  have W: "total_weight rows = ?W" "0 < ?W"
    using total_weight_sum [OF total] le sums [of "take i rows"] pos [of "rows ! i"] by simp_all
  have draw: "fst (weighted_random_candidate rows (st\<lparr>w_draws := [d]\<rparr>)) = Some (rows ! i)
      \<longleftrightarrow> ?a \<le> int d \<and> int d < ?a + candidate_weight (rows ! i)" if d: "d < nat ?W" for d
  proof -
    have iff: "weighted_pick (int d) 0 rows = Some (rows ! k) \<longleftrightarrow>
        sum_list (map candidate_weight (take k rows)) \<le> int d
          \<and> int d < sum_list (map candidate_weight (take (Suc k) rows))" if "k < length rows" for k
      using weighted_pick_interval [OF distinct that, of 0 "int d"] total by simp
    have "weighted_pick (int d) 0 rows \<noteq> None"
      using weighted_pick_some [of "int d" 0 rows] d total W(2) i by fastforce
    then show ?thesis using d i W iff [OF i] b
      by (auto simp: weighted_random_candidate_def rand_intn_def)
  qed
  have "{d. d < nat (total_weight rows) \<and> fst (weighted_random_candidate rows (st\<lparr>w_draws := [d]\<rparr>)) = Some (rows ! i)}
      = {nat ?a ..< nat (?a + candidate_weight (rows ! i))}"
    using draw W(1) le sums [of "take i rows"] by (auto simp: nat_le_iff)
  then show ?thesis using sums [of "take i rows"] pos [of "rows ! i"] by simp
qed

theorem weighted_draw_is_proportional_witness:
  "int (card {d. d < nat (total_weight [\<lparr>ca_row = sample_row 7 1, ca_apiKey = []\<rparr>, \<lparr>ca_row = sample_row 8 2, ca_apiKey = []\<rparr>])
      \<and> fst (weighted_random_candidate [\<lparr>ca_row = sample_row 7 1, ca_apiKey = []\<rparr>, \<lparr>ca_row = sample_row 8 2, ca_apiKey = []\<rparr>]
               (sample_state\<lparr>w_draws := [d]\<rparr>)) = Some \<lparr>ca_row = sample_row 8 2, ca_apiKey = []\<rparr>}) = 1"
  using weighted_draw_is_proportional [of "[\<lparr>ca_row = sample_row 7 1, ca_apiKey = []\<rparr>, \<lparr>ca_row = sample_row 8 2, ca_apiKey = []\<rparr>]" 1 sample_state]
  by (simp add: candidate_weight_def sample_row_def)

end
