(* ===== verification/RouteFailure.thy ===== *)
theory RouteFailure
  imports RouteChoice
begin

text \<open>
  What happens to a route after it was used: \<open>MarkRouteSuccess\<close>, \<open>MarkRouteFailure\<close>, the
  classification of errors and the failover rule (\<open>application/channel/service_routing.go\<close>), with
  the error values of \<open>ports/llm/types.go\<close>. A Go error is its message and the chain
  \<open>errors.Is\<close> and \<open>errors.As\<close> walk; \<open>nil\<close> is \<open>None\<close>.
\<close>

subsection \<open>Errors\<close>

record upstream_error =
  ue_StatusCode :: int
  ue_Message :: string
  ue_ResponseHeaders :: "(string \<times> string) list option"
    \<comment> \<open>\<open>Debug.Response.Headers\<close> in iteration order, \<open>None\<close> without a debug snapshot\<close>

datatype error_node =
    ContextCanceled
  | ContextDeadlineExceeded
  | IoEOF
  | IoUnexpectedEOF
  | UpstreamNode upstream_error
  | AcceptedRequestNode
  | NetworkNode \<comment> \<open>any other error that implements \<open>net.Error\<close>\<close>
  | OtherNode

record go_error =
  ge_message :: string
  ge_chain :: "error_node list"

definition error_is :: "error_node \<Rightarrow> go_error \<Rightarrow> bool" where
  "error_is node err \<longleftrightarrow> node \<in> set (ge_chain err)"

fun first_upstream :: "error_node list \<Rightarrow> upstream_error option" where
  "first_upstream [] = None"
| "first_upstream (UpstreamNode e # nodes) = Some e"
| "first_upstream (node # nodes) = first_upstream nodes"

definition as_upstream :: "go_error \<Rightarrow> upstream_error option" where
  "as_upstream err = first_upstream (ge_chain err)"

definition upstream_error_text :: "upstream_error \<Rightarrow> string" where
  "upstream_error_text e =
     (if trim_space (ue_Message e) = [] then ''upstream request failed: status='' @ itoa (ue_StatusCode e)
      else ''upstream request failed: status='' @ itoa (ue_StatusCode e) @ '' message='' @ ue_Message e)"

definition request_was_accepted :: "go_error option \<Rightarrow> bool" where
  "request_was_accepted err = (case err of None \<Rightarrow> False | Some e \<Rightarrow> error_is AcceptedRequestNode e)"

definition mark_request_accepted :: "go_error option \<Rightarrow> go_error option" where
  "mark_request_accepted err =
     (case err of
        None \<Rightarrow> None
      | Some e \<Rightarrow>
          if request_was_accepted err then err
          else Some \<lparr>ge_message = ge_message e, ge_chain = AcceptedRequestNode # ge_chain e\<rparr>)"

definition error_message :: "go_error option \<Rightarrow> string" where
  "error_message err = (case err of None \<Rightarrow> [] | Some e \<Rightarrow> ge_message e)"

definition truncate_message :: "string \<Rightarrow> int \<Rightarrow> string" where
  "truncate_message message limit =
     (let v = trim_space message
      in if limit \<le> 0 \<or> int (length (runes_of v)) \<le> limit then v
         else string_of_runes (take (nat limit) (runes_of v)))"

subsection \<open>Classification\<close>

datatype route_failure_class = FailureCircuit | FailureRateLimit | FailureIgnore

definition is_rate_limit_failure :: "go_error \<Rightarrow> bool" where
  "is_rate_limit_failure cause =
     (case as_upstream cause of None \<Rightarrow> False | Some e \<Rightarrow> ue_StatusCode e = 429)"

definition is_ignorable_failure :: "go_error \<Rightarrow> bool" where
  "is_ignorable_failure cause =
     (case as_upstream cause of
        None \<Rightarrow> False
      | Some e \<Rightarrow> 400 \<le> ue_StatusCode e \<and> ue_StatusCode e < 500 \<and> ue_StatusCode e \<noteq> 429)"

definition is_circuit_failure :: "go_error \<Rightarrow> bool" where
  "is_circuit_failure cause =
     (case as_upstream cause of
        Some e \<Rightarrow> 500 \<le> ue_StatusCode e
      | None \<Rightarrow>
          if error_is ContextDeadlineExceeded cause then True
          else let message = to_lower (ge_message cause)
               in list_ex (contains message)
                    [''timeout'', ''deadline exceeded'', ''connection refused'', ''connection reset'',
                     ''broken pipe'', ''dial tcp'', ''no such host'', ''eof''])"

definition matches_failure_rule :: "string list \<Rightarrow> string \<Rightarrow> bool" where
  "matches_failure_rule rules target =
     list_ex (\<lambda>rule. trim_space (to_lower rule) = trim_space (to_lower target)) rules"

definition classify_route_failure :: "breaker_error_classification \<Rightarrow> go_error option \<Rightarrow> route_failure_class" where
  "classify_route_failure rules cause =
     (case cause of
        None \<Rightarrow> FailureIgnore
      | Some err \<Rightarrow>
          if error_is ContextCanceled err then FailureIgnore
          else if is_rate_limit_failure err \<and> matches_failure_rule (ec_RateLimitErrors rules) ''429''
          then FailureRateLimit
          else if is_ignorable_failure err \<and> matches_failure_rule (ec_IgnoreErrors rules) ''4xx''
          then FailureIgnore
          else if is_circuit_failure err
                  \<and> (matches_failure_rule (ec_CircuitErrors rules) ''5xx''
                     \<or> matches_failure_rule (ec_CircuitErrors rules) ''timeout''
                     \<or> matches_failure_rule (ec_CircuitErrors rules) ''connection_error'')
          then FailureCircuit
          else FailureCircuit)"

definition should_failover_route :: "go_error option \<Rightarrow> bool" where
  "should_failover_route cause =
     (case cause of
        None \<Rightarrow> False
      | Some err \<Rightarrow>
          if error_is ContextCanceled err \<or> request_was_accepted cause then False
          else case as_upstream err of
            Some e \<Rightarrow> ue_StatusCode e = 408 \<or> ue_StatusCode e = 429 \<or> 500 \<le> ue_StatusCode e
          | None \<Rightarrow>
              if error_is ContextDeadlineExceeded err \<or> error_is IoEOF err \<or> error_is IoUnexpectedEOF err
              then True else error_is NetworkNode err)"

fun retry_after_header :: "(string \<times> string) list \<Rightarrow> string" where
  "retry_after_header [] = []"
| "retry_after_header ((key, val) # headers) =
     (if equal_fold (trim_space key) ''Retry-After'' then trim_space val else retry_after_header headers)"

definition upstream_retry_after_seconds :: "route_env \<Rightarrow> go_error option \<Rightarrow> gotime \<Rightarrow> int" where
  "upstream_retry_after_seconds env cause now =
     (case Option.bind cause (\<lambda>err. Option.bind (as_upstream err) ue_ResponseHeaders) of
        None \<Rightarrow> 0
      | Some headers \<Rightarrow>
          let raw = retry_after_header headers
          in if raw = [] then 0
             else case atoi raw of
               Some seconds \<Rightarrow> max seconds 0
             | None \<Rightarrow>
                 (case env_parseTime env raw of
                    None \<Rightarrow> 0
                  | Some retryAt \<Rightarrow>
                      if \<not> after retryAt now then 0
                      else go_div (wrap64 (wrap64 (time_sub retryAt now + second) - 1)) second))"

subsection \<open>Reporting\<close>

definition update_cache :: "('c \<Rightarrow> 'c) \<Rightarrow> 'c routing_state \<Rightarrow> 'c routing_state" where
  "update_cache f st = st\<lparr>w_cache := f (w_cache st)\<rparr>"

definition mark_route_success ::
  "'c cache_ops option \<Rightarrow> resolved_route \<Rightarrow> 'c routing_state \<Rightarrow> 'c routing_state" where
  "mark_route_success cache route st =
     (case cache of
        None \<Rightarrow> st
      | Some api \<Rightarrow>
          let u = rt_UpstreamID route; key = route_model_circuit_key route
          in if u = 0 then st
             else
               let st1 = update_cache (op_ClearRateLimitBackoff api u (rt_RouteID route)) st;
                   st2 = (if rt_UpstreamProbeGranted route
                          then update_cache (op_ClearUpstreamCircuitKeys api u) st1 else st1);
                   st3 = (if rt_ModelProbeGranted route \<and> key \<noteq> []
                          then update_cache (op_ClearModelCircuitKeys api u key) st2 else st2)
               in update_cache (op_RecordSuccessMetadata api u) st3)"

definition release_granted_route_probes ::
  "'c cache_ops \<Rightarrow> resolved_route \<Rightarrow> 'c routing_state \<Rightarrow> 'c routing_state" where
  "release_granted_route_probes api route st =
     (let u = rt_UpstreamID route; key = route_model_circuit_key route
      in if u = 0 then st
         else
           let st1 = (if rt_UpstreamProbeGranted route
                      then update_cache (op_ReleaseRouteProbes api u []) st else st)
           in if rt_ModelProbeGranted route
              then (if key = [] then st1 else update_cache (op_ReleaseRouteProbes api u key) st1)
              else st1)"

definition normalize_cb_logic :: "string \<Rightarrow> string" where
  "normalize_cb_logic raw = (if trim_space raw = ''and'' then ''and'' else ''or'')"

definition normalize_model_circuit_policy_mode :: "string \<Rightarrow> string" where
  "normalize_model_circuit_policy_mode raw =
     (if trim_space (to_lower raw) = ''enforced'' then ''enforced'' else ''default'')"

definition resolve_model_circuit_value :: "bool \<Rightarrow> int \<Rightarrow> int \<Rightarrow> int \<Rightarrow> int" where
  "resolve_model_circuit_value enforced routeValue platformValue defaultValue =
     (let v = (if enforced \<or> routeValue \<le> 0 then platformValue else routeValue)
      in if v \<le> 0 then defaultValue else v)"

definition or_default :: "int \<Rightarrow> int \<Rightarrow> int" where
  "or_default v d = (if v \<le> 0 then d else v)"

definition circuit_failure_of ::
  "route_repo \<Rightarrow> resolved_route \<Rightarrow> breaker_defaults \<Rightarrow> circuit_failure_input" where
  "circuit_failure_of repo route d =
     (let key = route_model_circuit_key route;
          enforced = (normalize_model_circuit_policy_mode (rt_PlatformModelCbPolicyMode route) = ''enforced'');
          codes = (case rp_ListActiveRouteBindingCodesForUpstream repo (rt_UpstreamID route) of
                     Inl _ \<Rightarrow> [] | Inr codes \<Rightarrow> binding_circuit_keys codes);
          window = or_default (rt_UpstreamCbWindowMin route) (bd_UpstreamWindowMin d);
          modelWindow = resolve_model_circuit_value enforced (rt_ModelCbWindowMin route)
                          (rt_PlatformModelCbWindowMin route) (bd_ModelWindowMin d);
          modelDuration = resolve_model_circuit_value enforced (rt_ModelCbDurationMin route)
                            (rt_PlatformModelCbDurationMin route) (bd_ModelDurationMin d);
          duration = or_default (rt_UpstreamCbDurationMin route) (bd_UpstreamDurationMin d)
      in \<lparr>cf_UpstreamID = rt_UpstreamID route,
          cf_ModelKey = key,
          cf_ModelWindowSec = wrap64 (modelWindow * 60),
          cf_ModelFailureThreshold = resolve_model_circuit_value enforced (rt_ModelCbFailureThreshold route)
             (rt_PlatformModelCbFailureThreshold route) (bd_ModelFailureThreshold d),
          cf_ModelDurationSec = wrap64 (modelDuration * 60),
          cf_UpstreamWindowSec = wrap64 (window * 60),
          cf_UpstreamFailureThreshold =
            or_default (rt_UpstreamCbFailureThreshold route) (bd_UpstreamFailureThreshold d),
          cf_UpstreamModelThreshold =
            or_default (rt_UpstreamCbModelThreshold route) (bd_UpstreamModelThreshold d),
          cf_UpstreamThresholdLogic =
            (if trim_space (rt_UpstreamCbThresholdLogic route) = []
             then normalize_cb_logic (bd_UpstreamThresholdLogic d)
             else normalize_cb_logic (rt_UpstreamCbThresholdLogic route)),
          cf_UpstreamDurationSec = wrap64 (duration * 60),
          cf_ActiveModelKeys = (if codes = [] then [key] else codes)\<rparr>)"

definition report_circuit_failure ::
  "'c cache_ops \<Rightarrow> route_repo \<Rightarrow> resolved_route \<Rightarrow> breaker_defaults \<Rightarrow> 'c routing_state \<Rightarrow> 'c routing_state" where
  "report_circuit_failure api repo route d st =
     (if rt_UpstreamID route = 0 \<or> route_model_circuit_key route = [] then st
      else update_cache (op_RecordCircuitFailure api (circuit_failure_of repo route d)) st)"

definition report_rate_limit ::
  "route_env \<Rightarrow> 'c cache_ops \<Rightarrow> route_repo \<Rightarrow> gotime \<Rightarrow> resolved_route \<Rightarrow> go_error option
     \<Rightarrow> 'c routing_state \<Rightarrow> 'c routing_state" where
  "report_rate_limit env api repo now route cause st =
     (if rt_UpstreamID route = 0 \<or> rt_RouteID route = 0 then st
      else
        let d = rp_GetRateLimitDefaults repo
        in update_cache (op_RecordRateLimitBackoff api
             \<lparr>rb_UpstreamID = rt_UpstreamID route, rb_RouteID = rt_RouteID route,
              rb_BackoffBaseSec = rd_BackoffBaseSec d, rb_BackoffMaxSec = rd_BackoffMaxSec d,
              rb_BackoffMultiplier = rd_BackoffMultiplier d,
              rb_RetryAfterSec = upstream_retry_after_seconds env cause now\<rparr>) st)"

definition mark_route_failure ::
  "route_env \<Rightarrow> 'c cache_ops option \<Rightarrow> route_repo \<Rightarrow> gotime \<Rightarrow> resolved_route \<Rightarrow> go_error option
     \<Rightarrow> 'c routing_state \<Rightarrow> 'c routing_state" where
  "mark_route_failure env cache repo now route cause st =
     (case cache of
        None \<Rightarrow> st
      | Some api \<Rightarrow>
          if rt_UpstreamID route = 0 then st
          else
            let lastErrMsg = truncate_message (trim_space (error_message cause)) 255;
                st1 = update_cache (op_RecordFailureMetadata api (rt_UpstreamID route) lastErrMsg) st
            in case classify_route_failure (rp_GetBreakerErrorClassification repo) cause of
                 FailureIgnore \<Rightarrow> release_granted_route_probes api route st1
               | FailureRateLimit \<Rightarrow>
                   report_rate_limit env api repo now route cause (release_granted_route_probes api route st1)
               | FailureCircuit \<Rightarrow>
                   let (defaults, st2) = load_breaker now repo st1
                   in if \<not> bd_Enabled defaults then release_granted_route_probes api route st2
                      else report_circuit_failure api repo route defaults st2)"

subsection \<open>Classification and failover\<close>

text \<open>
  Marking an error as accepted. A marked error does not fail over to another route, however it is wrapped; the caller may still
  try the same route again with another shape of the request. Marking keeps the message and the classification
  of the error, and marking twice is marking once.
\<close>

lemma marked_requests_do_not_fail_over:
  "\<not> should_failover_route (mark_request_accepted cause)
   \<and> mark_request_accepted (mark_request_accepted cause) = mark_request_accepted cause
   \<and> error_message (mark_request_accepted cause) = error_message cause
   \<and> classify_route_failure rules (mark_request_accepted cause) = classify_route_failure rules cause
   \<and> (request_was_accepted (mark_request_accepted cause) \<longleftrightarrow> cause \<noteq> None)"
  by (cases cause) (auto simp: mark_request_accepted_def should_failover_route_def error_message_def
      request_was_accepted_def error_is_def classify_route_failure_def is_rate_limit_failure_def
      is_ignorable_failure_def is_circuit_failure_def as_upstream_def)

text \<open>
  What classification depends on. A cancelled call counts for nothing; the status of the first
  upstream error in the chain together with the two configured lists decides between a rate limit,
  an ignored client error and a circuit failure; the list of circuit errors decides nothing.
\<close>

theorem classification_by_status:
  assumes "cause = Some err" and "\<not> error_is ContextCanceled err"
  shows "classify_route_failure rules cause =
      (case as_upstream err of
         None \<Rightarrow> FailureCircuit
       | Some e \<Rightarrow>
           if ue_StatusCode e = 429 \<and> matches_failure_rule (ec_RateLimitErrors rules) ''429'' then FailureRateLimit
           else if 400 \<le> ue_StatusCode e \<and> ue_StatusCode e < 500 \<and> ue_StatusCode e \<noteq> 429
                   \<and> matches_failure_rule (ec_IgnoreErrors rules) ''4xx'' then FailureIgnore
           else FailureCircuit)
    \<and> classify_route_failure (rules\<lparr>ec_CircuitErrors := other\<rparr>) cause = classify_route_failure rules cause"
  using assms by (simp add: classify_route_failure_def is_rate_limit_failure_def is_ignorable_failure_def
      split: option.split)

definition rate_limited_error :: go_error where
  "rate_limited_error = \<lparr>ge_message = ''x'', ge_chain = [OtherNode, UpstreamNode
     \<lparr>ue_StatusCode = 429, ue_Message = [], ue_ResponseHeaders = Some [(''retry-after'', ''30'')]\<rparr>]\<rparr>"

theorem classification_by_status_witness:
  "classify_route_failure (rp_GetBreakerErrorClassification sample_repo) (Some rate_limited_error) = FailureRateLimit"
proof -
  have "matches_failure_rule [''429''] ''429''" by code_simp
  then show ?thesis
    using classification_by_status [of "Some rate_limited_error" rate_limited_error "rp_GetBreakerErrorClassification sample_repo"]
    by (simp add: rate_limited_error_def error_is_def as_upstream_def sample_repo_def)
qed

subsection \<open>Settling a route on the in-memory cache\<close>

lemma memory_release_phases:
  "memory_phases (int now) (release_route_probes u k c)
    = give_probe (if trim_space k = [] then UpstreamCircuit u else ModelCircuit (model_circuit_key u k))
        (memory_phases (int now) c)"
  by (rule ext) (simp add: memory_phases_def give_probe_def release_route_probes_def release_phase Let_def
      split: circuit_id.split)

lemma binding_key_not_blank: "binding_circuit_key code \<noteq> [] \<Longrightarrow> trim_space (binding_circuit_key code) \<noteq> []"
  by (rule trim_space_not_blank [of "CHR ''u''"]) (auto simp: binding_circuit_key_def Let_def split: if_splits)

lemma memory_metadata_drift:
  "drift (memory_phases (int now) c) (memory_phases (int now) (record_failure_metadata (int now) u msg c))"
  "drift (memory_phases (int now) c) (memory_phases (int now) (record_success_metadata (int now) u c))"
proof -
  have same: "memory_phases (int now) (c\<lparr>upstreamMeta := m\<rparr>) = memory_phases (int now) c" for m
    by (rule ext) (simp add: memory_phases_def split: circuit_id.split)
  show "drift (memory_phases (int now) c) (memory_phases (int now) (record_failure_metadata (int now) u msg c))"
    "drift (memory_phases (int now) c) (memory_phases (int now) (record_success_metadata (int now) u c))"
    using memory_sweep_drift [of "int now"] same
    by (auto simp: record_failure_metadata_def record_success_metadata_def Let_def) (metis of_nat_0_le_iff)+
qed


lemma released_phases:
  assumes "rt_UpstreamID route \<noteq> 0" and key: "route_model_circuit_key route \<noteq> []"
  shows "memory_phases (int now) (w_cache (release_granted_route_probes (memory_cache_ops (int now)) route st)) k
    = (if k \<in> held_circuits route \<and> memory_phases (int now) (w_cache st) k = ProbeOut then ProbeFree
       else memory_phases (int now) (w_cache st) k)"
proof -
  have blank: "trim_space (route_model_circuit_key route) \<noteq> []"
    using binding_key_not_blank key unfolding route_model_circuit_key_def by blast
  show ?thesis
    using assms blank
    by (auto simp: release_granted_route_probes_def update_cache_def memory_cache_ops_def Let_def
        memory_release_phases give_probe_def held_circuits_def)
qed

lemma rate_limit_report_drift:
  "drift (memory_phases (int now) (w_cache st))
     (memory_phases (int now) (w_cache (report_rate_limit env (memory_cache_ops (int now)) repo t route cause st)))"
proof -
  have same: "memory_phases (int now) (c\<lparr>rateLimits := m\<rparr>) = memory_phases (int now) c" for c m
    by (rule ext) (simp add: memory_phases_def split: circuit_id.split)
  show ?thesis
    using memory_sweep_drift [of "int now"] same
    by (simp add: report_rate_limit_def update_cache_def memory_cache_ops_def record_rate_limit_backoff_def Let_def)
      (metis of_nat_0_le_iff)
qed

text \<open>
  A failure that is not the circuit's fault gives the probes back. After \<open>MarkRouteFailure\<close>
  with an error classified as ignored or as a rate limit, a circuit admits requests exactly when
  it did before or its probe was the one this route held.
\<close>

theorem forgiven_failure_returns_probes:
  assumes "rt_UpstreamID route \<noteq> 0" and "route_model_circuit_key route \<noteq> []"
    and "classify_route_failure (rp_GetBreakerErrorClassification repo) cause \<noteq> FailureCircuit"
  shows "admits (memory_phases (int now)
      (w_cache (mark_route_failure env (Some (memory_cache_ops (int now))) repo (int now) route cause st)) k)
    \<longleftrightarrow> admits (memory_phases (int now) (w_cache st) k)
        \<or> (k \<in> held_circuits route \<and> memory_phases (int now) (w_cache st) k = ProbeOut)"
proof -
  let ?api = "memory_cache_ops (int now)" and ?f = "memory_phases (int now)"
  let ?msg = "truncate_message (trim_space (error_message cause)) 255"
  define st1 where "st1 = update_cache (op_RecordFailureMetadata ?api (rt_UpstreamID route) ?msg) st"
  define st2 where "st2 = release_granted_route_probes ?api route st1"
  have d1: "drift (?f (w_cache st)) (?f (w_cache st1))"
    by (simp add: st1_def update_cache_def memory_cache_ops_def memory_metadata_drift)
  have out: "?f (w_cache st1) j = ProbeOut \<longleftrightarrow> ?f (w_cache st) j = ProbeOut" for j
    using d1 unfolding drift_def by (metis phase.distinct(3,11))
  have "admits (?f (w_cache st2) k) \<longleftrightarrow> admits (?f (w_cache st1) k)
      \<or> (k \<in> held_circuits route \<and> ?f (w_cache st1) k = ProbeOut)"
    by (auto simp: st2_def released_phases [OF assms(1,2)] admits_def)
  then have st2: "admits (?f (w_cache st2) k) \<longleftrightarrow> admits (?f (w_cache st) k)
      \<or> (k \<in> held_circuits route \<and> ?f (w_cache st) k = ProbeOut)"
    using drift_admits [OF d1] out by simp
  have "mark_route_failure env (Some ?api) repo (int now) route cause st \<in>
      {st2, report_rate_limit env ?api repo (int now) route cause st2}"
    using assms(1,3) by (auto simp: mark_route_failure_def Let_def st1_def st2_def split: route_failure_class.split)
  then have "drift (?f (w_cache st2))
      (?f (w_cache (mark_route_failure env (Some ?api) repo (int now) route cause st)))"
    using rate_limit_report_drift by auto
  then show ?thesis using st2 drift_admits by blast
qed

definition probing_route :: resolved_route where
  "probing_route = serve sample_env \<lparr>ca_row = sample_row 7 1, ca_apiKey = ''sk''\<rparr> ''half_open_granted'' ''closed''"

definition probing_state :: "cache routing_state" where
  "probing_state = sample_state\<lparr>w_cache :=
     new_cache\<lparr>upstreamCB := [1 \<mapsto> zero_circuit\<lparr>cs_openUntil := 50, cs_probeUntil := 200\<rparr>]\<rparr>\<rparr>"

lemma probing_route_facts:
  "rt_UpstreamID probing_route \<noteq> 0" "route_model_circuit_key probing_route \<noteq> []"
  "UpstreamCircuit 1 \<in> held_circuits probing_route"
  by (simp_all add: probing_route_def held_circuits_def sample_row_def binding_circuit_key_def Let_def)

theorem forgiven_failure_returns_probes_witness:
  "admits (memory_phases (int 100) (w_cache (mark_route_failure sample_env (Some (memory_cache_ops (int 100)))
      sample_repo (int 100) probing_route None probing_state)) (UpstreamCircuit 1))"
proof -
  have "memory_phases (int 100) (w_cache probing_state) (UpstreamCircuit 1) = ProbeOut"
    by (simp add: memory_phases_def probing_state_def phase_def zero_circuit_def circuit_probe_ttl_def second_def)
  moreover have "classify_route_failure (rp_GetBreakerErrorClassification sample_repo) None \<noteq> FailureCircuit"
    by (simp add: classify_route_failure_def)
  ultimately show ?thesis
    using forgiven_failure_returns_probes [OF probing_route_facts(1,2), of sample_repo None 100 sample_env probing_state "UpstreamCircuit 1"]
      probing_route_facts(3) by simp
qed

text \<open>
  A successful probe closes its circuit. After \<open>MarkRouteSuccess\<close> every circuit whose probe the
  route held is closed, the route no longer backs off, and the other circuits are as they were
  (maintenance may close one whose probe was free).
\<close>

theorem successful_probe_closes_circuits:
  assumes "rt_UpstreamID route \<noteq> 0" and "route_model_circuit_key route \<noteq> []"
  shows "let before = memory_phases (int now) (w_cache st);
             c = w_cache (mark_route_success (Some (memory_cache_ops (int now))) route st)
         in (k \<in> held_circuits route \<longrightarrow> memory_phases (int now) c k = Closed)
          \<and> (memory_phases (int now) c k \<in> {before k, Closed})
          \<and> (k \<notin> held_circuits route \<and> before k \<noteq> ProbeFree \<longrightarrow> memory_phases (int now) c k = before k)
          \<and> get_rate_limit_backoff (int now) (rt_UpstreamID route) (rt_RouteID route) c = 0"
proof -
  let ?u = "rt_UpstreamID route" and ?key = "route_model_circuit_key route"
  let ?f = "memory_phases (int now)"
  define c1 where "c1 = clear_rate_limit_backoff ?u (rt_RouteID route) (w_cache st)"
  define c2 where "c2 = (if rt_UpstreamProbeGranted route then clear_upstream_circuit_keys ?u c1 else c1)"
  define c3 where "c3 = (if rt_ModelProbeGranted route then clear_model_circuit_keys ?u ?key c2 else c2)"
  have c: "w_cache (mark_route_success (Some (memory_cache_ops (int now))) route st)
      = record_success_metadata (int now) ?u c3"
    using assms by (simp add: mark_route_success_def update_cache_def memory_cache_ops_def Let_def c1_def c2_def c3_def)
  have c1f: "?f c1 j = ?f (w_cache st) j" for j
    by (simp add: c1_def memory_phases_def clear_rate_limit_backoff_def split: circuit_id.split)
  have none: "phase (int now) None = Closed" by (simp add: phase_def)
  have c3f: "?f c3 j = (if j \<in> held_circuits route then Closed else ?f (w_cache st) j)" for j
    using c1f [of j] none
    by (cases j) (auto simp: c2_def c3_def memory_phases_def clear_upstream_circuit_keys_def
        clear_model_circuit_keys_def held_circuits_def)
  have d: "drift (?f c3) (?f (record_success_metadata (int now) ?u c3))" by (rule memory_metadata_drift)
  have gone: "rateLimits c3 (?u, rt_RouteID route) = None \<or> rt_RouteID route = 0"
    using assms(1) by (auto simp: c1_def c2_def c3_def clear_rate_limit_backoff_def clear_upstream_circuit_keys_def
        clear_model_circuit_keys_def)
  have sub: "rateLimits (record_success_metadata (int now) ?u c3) x = Some i \<Longrightarrow> rateLimits c3 x = Some i" for x i
    unfolding record_success_metadata_def by (drule maybe_sweep_sub(9)) simp
  have "rateLimits (record_success_metadata (int now) ?u c3) (?u, rt_RouteID route) = None \<or> rt_RouteID route = 0"
    using gone sub [of "(?u, rt_RouteID route)"]
    by (cases "rateLimits (record_success_metadata (int now) ?u c3) (?u, rt_RouteID route)") auto
  then have z: "get_rate_limit_backoff (int now) ?u (rt_RouteID route) (record_success_metadata (int now) ?u c3) = 0"
    by (auto simp: get_rate_limit_backoff_def Let_def zero_rate_limit_def time_sub_def)
  have "?f (record_success_metadata (int now) ?u c3) k = ?f c3 k
      \<or> (?f c3 k = ProbeFree \<and> ?f (record_success_metadata (int now) ?u c3) k = Closed)"
    using d by (simp add: drift_def)
  then show ?thesis using c3f [of k] z by (auto simp: c Let_def split: if_splits)
qed

theorem successful_probe_closes_circuits_witness:
  "memory_phases (int 100) (w_cache (mark_route_success (Some (memory_cache_ops (int 100))) probing_route
      probing_state)) (UpstreamCircuit 1) = Closed"
  using successful_probe_closes_circuits [OF probing_route_facts(1,2), of 100 probing_state "UpstreamCircuit 1"]
    probing_route_facts(3) by (simp add: Let_def)


subsection \<open>Rate limits from report to routing\<close>

definition backoff_params_of :: "route_env \<Rightarrow> route_repo \<Rightarrow> gotime \<Rightarrow> resolved_route \<Rightarrow> go_error option \<Rightarrow> rate_limit_backoff_params" where
  "backoff_params_of env repo now route cause =
     (let d = rp_GetRateLimitDefaults repo
      in \<lparr>rb_UpstreamID = rt_UpstreamID route, rb_RouteID = rt_RouteID route,
          rb_BackoffBaseSec = rd_BackoffBaseSec d, rb_BackoffMaxSec = rd_BackoffMaxSec d,
          rb_BackoffMultiplier = rd_BackoffMultiplier d,
          rb_RetryAfterSec = upstream_retry_after_seconds env cause now\<rparr>)"

lemma rate_limit_failure_entry:
  assumes "rt_UpstreamID route \<noteq> 0" and "rt_RouteID route \<noteq> 0"
    and "classify_route_failure (rp_GetBreakerErrorClassification repo) cause = FailureRateLimit"
  shows "\<exists>n m k. rateLimits (w_cache (mark_route_failure env (Some (memory_cache_ops t)) repo t route cause st))
      (rt_UpstreamID route, rt_RouteID route)
    = Some \<lparr>rl_backoffUntil = t + secs (calculate_backoff_seconds n (backoff_params_of env repo t route cause)),
            rl_backoffCount = m, rl_countExpires = k\<rparr>"
proof -
  let ?p = "backoff_params_of env repo t route cause"
  have f: "rb_UpstreamID ?p = rt_UpstreamID route" "rb_RouteID ?p = rt_RouteID route"
    by (simp_all add: backoff_params_of_def Let_def)
  obtain c where c: "w_cache (mark_route_failure env (Some (memory_cache_ops t)) repo t route cause st)
      = record_rate_limit_backoff t ?p c"
    using assms by (simp add: mark_route_failure_def report_rate_limit_def update_cache_def
        memory_cache_ops_def backoff_params_of_def Let_def)
  have "rb_UpstreamID ?p \<noteq> 0" "rb_RouteID ?p \<noteq> 0" using assms(1,2) f by simp_all
  from record_backoff_entry [OF this, of t c, unfolded Let_def f] show ?thesis unfolding c by blast
qed

text \<open>
  A route that answered 429 rests. Once \<open>MarkRouteFailure\<close> has classified an error as a rate
  limit, no later call of \<open>ResolveRoute\<close>, whatever it asks for, returns that route again before
  the larger of the configured base and the upstream's own Retry-After (capped at the configured
  maximum) has passed.
\<close>

theorem rate_limited_route_rests:
  assumes route: "rt_UpstreamID route \<noteq> 0" "rt_RouteID route \<noteq> 0"
    and limit: "classify_route_failure (rp_GetBreakerErrorClassification repo) cause = FailureRateLimit"
    and config: "backoff_config_ok (backoff_params_of env repo (int t) route cause)"
      "rd_BackoffMaxSec (rp_GetRateLimitDefaults repo) \<le> 9223372036"
    and marked: "mark_route_failure env (Some (memory_cache_ops (int t))) repo (int t) route cause st = st'"
    and early: "int now < int t + min (rd_BackoffMaxSec (rp_GetRateLimitDefaults repo))
        (max (upstream_retry_after_seconds env cause (int t)) (rd_BackoffBaseSec (rp_GetRateLimitDefaults repo))) * second"
    and resolved: "resolve_route env' (Some (memory_cache_ops (int now))) repo' (int now) input st' = (Inr r, st'')"
  shows "\<not> (rt_UpstreamID r = rt_UpstreamID route \<and> rt_RouteID r = rt_RouteID route)"
proof
  let ?p = "backoff_params_of env repo (int t) route cause"
  let ?u = "rt_UpstreamID route" and ?r = "rt_RouteID route"
  assume same: "rt_UpstreamID r = ?u \<and> rt_RouteID r = ?r"
  obtain n m k where entry: "rateLimits (w_cache st') (?u, ?r)
      = Some \<lparr>rl_backoffUntil = int t + secs (calculate_backoff_seconds n ?p), rl_backoffCount = m, rl_countExpires = k\<rparr>"
    using rate_limit_failure_entry [OF route limit] marked by blast
  let ?b = "calculate_backoff_seconds n ?p"
  have fields: "rb_BackoffMaxSec ?p = rd_BackoffMaxSec (rp_GetRateLimitDefaults repo)"
      "rb_BackoffBaseSec ?p = rd_BackoffBaseSec (rp_GetRateLimitDefaults repo)"
      "rb_RetryAfterSec ?p = upstream_retry_after_seconds env cause (int t)"
    by (simp_all add: backoff_params_of_def Let_def)
  have "rb_BackoffBaseSec ?p * 1 \<le> rb_BackoffBaseSec ?p * rb_BackoffMultiplier ?p ^ nat (n - 1)"
    using config(1) by (intro mult_left_mono) (simp_all add: backoff_config_ok_def)
  then have low: "min (rb_BackoffMaxSec ?p) (max (rb_RetryAfterSec ?p) (rb_BackoffBaseSec ?p)) \<le> ?b"
    unfolding calculate_backoff_closed [OF config(1)] by (auto simp: min_def max_def)
  have b: "0 < ?b" "?b \<le> 9223372036"
    using calculate_backoff_bounds [OF config(1), of n] config(1,2) fields(1)
    by (auto simp: backoff_config_ok_def split: if_splits)
  have "int now < int t + ?b * second"
    using early low unfolding fields [symmetric] by (simp add: second_def)
  then have pos: "0 < get_rate_limit_backoff (int now) ?u ?r (w_cache st')"
    using route entry secs_id [of ?b] b by (simp add: get_rate_limit_backoff_def Let_def time_sub_def)
  obtain rows where rows: "request_rows env' repo' input = Some rows"
    using resolved_request [OF resolved] by blast
  from resolve_route_memory [OF resolved rows] obtain c f where
    c: "ready_row env' (memory_backoffs (int now) (w_cache st')) (ca_row c)"
    and served: "group_served env' (breaker_enabled (int now) repo' st') c f r (memory_phases (int now) (w_cache st''))"
    by blast
  have "rr_UpstreamID (ca_row c) = ?u" "rr_RouteID (ca_row c) = ?r"
    using same served by (auto simp: group_served_def served_by_def split: if_splits)
  then show False using backoff_zero [of "int now" "w_cache st'" "ca_row c"] c pos by (simp add: ready_row_def)
qed

definition limited_after :: "cache routing_state" where
  "limited_after = mark_route_failure sample_env (Some (memory_cache_ops (int 100))) sample_repo (int 100)
     probing_route (Some rate_limited_error) sample_state"

theorem rate_limited_route_rests_witness:
  "\<exists>(r :: resolved_route) st''. resolve_route sample_env (Some (memory_cache_ops (int 200))) sample_repo (int 200) sample_request
      limited_after = (Inr r, st'') \<and> rt_RouteID r \<noteq> 7"
proof -
  have "is_route 8 (fst (resolve_route sample_env (Some (memory_cache_ops (int 200))) sample_repo (int 200)
      sample_request limited_after))" by code_simp
  then obtain r st'' where r: "resolve_route sample_env (Some (memory_cache_ops (int 200))) sample_repo (int 200)
      sample_request limited_after = (Inr r, st'')" "rt_RouteID r = 8"
    by (cases "resolve_route sample_env (Some (memory_cache_ops (int 200))) sample_repo (int 200)
      sample_request limited_after") (auto simp: is_route_def split: sum.splits)
  have "classify_route_failure (rp_GetBreakerErrorClassification sample_repo) (Some rate_limited_error) = FailureRateLimit"
      "upstream_retry_after_seconds sample_env (Some rate_limited_error) (int 100) = 30"
    by code_simp+
  then have "\<not> (rt_UpstreamID r = rt_UpstreamID probing_route \<and> rt_RouteID r = rt_RouteID probing_route)"
    using rate_limited_route_rests [OF _ _ _ _ _ limited_after_def [symmetric] _ r(1)]
    by (simp add: probing_route_def sample_row_def backoff_config_ok_def backoff_params_of_def sample_repo_def second_def)
  moreover have "rt_RouteID probing_route = 7" by (simp add: probing_route_def sample_row_def)
  ultimately show ?thesis using r by auto
qed

subsection \<open>What is reported to the breaker\<close>

text \<open>
  What a circuit failure reports is safe to count with. If the defaults are the usable ones the
  parser gives, and no minutes set on the route or its model are more than an \<open>int\<close> of seconds can
  hold, then every threshold and every period handed to the cache is positive and in seconds, the
  logic is \<open>and\<close> or \<open>or\<close>, and the list of active model keys is not empty; a policy enforced on the
  platform model overrides the one of the route.
\<close>

theorem reported_circuit_failure_is_sane:
  assumes usable: "usable_breaker_defaults d"
    and range: "\<And>m. m \<in> {rt_ModelCbWindowMin route, rt_ModelCbDurationMin route,
        rt_PlatformModelCbWindowMin route, rt_PlatformModelCbDurationMin route,
        rt_UpstreamCbWindowMin route, rt_UpstreamCbDurationMin route} \<Longrightarrow> in_i64 (m * 60)"
  shows "let i = circuit_failure_of repo route d
    in 0 < cf_ModelWindowSec i \<and> 0 < cf_ModelDurationSec i \<and> 0 < cf_UpstreamWindowSec i
     \<and> 0 < cf_UpstreamDurationSec i \<and> 0 < cf_ModelFailureThreshold i
     \<and> 0 < cf_UpstreamFailureThreshold i \<and> 0 < cf_UpstreamModelThreshold i
     \<and> cf_UpstreamThresholdLogic i \<in> {''and'', ''or''} \<and> cf_ActiveModelKeys i \<noteq> []
     \<and> (normalize_model_circuit_policy_mode (rt_PlatformModelCbPolicyMode route) = ''enforced''
          \<and> 0 < rt_PlatformModelCbWindowMin route
        \<longrightarrow> cf_ModelWindowSec i = rt_PlatformModelCbWindowMin route * 60)"
proof -
  have d: "0 < bd_ModelWindowMin d \<and> wrap64 (bd_ModelWindowMin d * 60) = bd_ModelWindowMin d * 60"
      "0 < bd_ModelDurationMin d \<and> wrap64 (bd_ModelDurationMin d * 60) = bd_ModelDurationMin d * 60"
      "0 < bd_UpstreamWindowMin d \<and> wrap64 (bd_UpstreamWindowMin d * 60) = bd_UpstreamWindowMin d * 60"
      "0 < bd_UpstreamDurationMin d \<and> wrap64 (bd_UpstreamDurationMin d * 60) = bd_UpstreamDurationMin d * 60"
      "0 < bd_ModelFailureThreshold d" "0 < bd_UpstreamFailureThreshold d" "0 < bd_UpstreamModelThreshold d"
    using usable by (simp_all add: usable_breaker_defaults_def)
  have w: "wrap64 (m * 60) = m * 60" if "m \<in> {rt_ModelCbWindowMin route, rt_ModelCbDurationMin route,
        rt_PlatformModelCbWindowMin route, rt_PlatformModelCbDurationMin route,
        rt_UpstreamCbWindowMin route, rt_UpstreamCbDurationMin route}" for m
    using range [OF that] by (rule wrap64_id)
  have "0 < wrap64 (resolve_model_circuit_value e rv pv dv * 60)"
    if "wrap64 (rv * 60) = rv * 60" "wrap64 (pv * 60) = pv * 60" "0 < dv \<and> wrap64 (dv * 60) = dv * 60" for e rv pv dv
    using that by (simp add: resolve_model_circuit_value_def Let_def)
  moreover have "0 < wrap64 (or_default v dv * 60)"
    if "wrap64 (v * 60) = v * 60" "0 < dv \<and> wrap64 (dv * 60) = dv * 60" for v dv
    using that by (simp add: or_default_def)
  moreover have "0 < resolve_model_circuit_value e rv pv dv" "0 < or_default rv dv" if "0 < dv" for e rv pv dv
    using that by (simp_all add: resolve_model_circuit_value_def or_default_def Let_def)
  ultimately show ?thesis
    using d w by (simp add: circuit_failure_of_def Let_def normalize_cb_logic_def resolve_model_circuit_value_def)
qed

theorem reported_circuit_failure_is_sane_witness:
  "0 < cf_UpstreamWindowSec (circuit_failure_of sample_repo probing_route default_breaker_defaults)"
proof -
  have "usable_breaker_defaults default_breaker_defaults"
    by (simp add: usable_breaker_defaults_def default_breaker_defaults_def wrap64_def)
  from reported_circuit_failure_is_sane [OF this, of probing_route sample_repo] show ?thesis
    by (simp add: Let_def probing_route_def serve_def build_resolved_route_def sample_row_def in_i64_def)
qed

end
