(* ===== verification/BillingData.thy ===== *)
theory BillingData
  imports GoText
begin

text \<open>
  The data of billing (\<open>domain/billing/types.go\<close>, \<open>domain/billing/quota.go\<close>) and the errors of the repository
  (\<open>repository/errors.go\<close>) and of the service (\<open>application/billing/errs.go\<close>). Times of creation and
  update of rows are left out. The database is a record of tables, a table the list of its rows;
  all tables draw their ids from one sequence, which is faithful because ids of different
  tables are never compared. Rows deleted softly are not in the lists.
\<close>

datatype repo_err =
    ErrInvalidInput
  | ErrNotFound
  | ErrDuplicate
  | ErrConflict
  | ErrInsufficientBalance
  | ErrWeeklyQuotaExceeded
  | ErrUsageReservationLimitExceeded
  | ErrRedemptionUnavailable
  | ErrRedemptionExhausted
  | ErrRedemptionUserLimitExceeded
  | ErrOutOfRange  \<comment> \<open>the database refuses a \<open>bigint\<close> outside its range\<close>

datatype billing_err =
    ErrWeeklyCreditExceeded
  | ErrModelPricingRequired
  | ErrUsageBalanceInsufficient
  | ErrUsageReservationConflict
  | ErrUsageConcurrencyLimitExceeded
  | RepoErr repo_err

subsection \<open>Plans and subscriptions\<close>

record plan =
  pl_ID :: nat
  pl_Code :: string
  pl_Name :: string
  pl_Description :: string
  pl_FeatureJSON :: string
  pl_PeriodCreditNanousd :: int
  pl_WeeklyCreditNanousd :: int
  pl_DiscountPercent :: int
  pl_SortOrder :: int
  pl_IsActive :: bool
  pl_PermissionGroupID :: "nat option"

definition zero_plan :: plan where
  "zero_plan = \<lparr>pl_ID = 0, pl_Code = [], pl_Name = [], pl_Description = [], pl_FeatureJSON = [],
     pl_PeriodCreditNanousd = 0, pl_WeeklyCreditNanousd = 0, pl_DiscountPercent = 0, pl_SortOrder = 0,
     pl_IsActive = False, pl_PermissionGroupID = None\<rparr>"

record price =
  pr_ID :: nat
  pr_PlanID :: nat
  pr_Code :: string
  pr_BillingInterval :: string
  pr_Currency :: string
  pr_AmountCents :: int
  pr_IsActive :: bool
  pr_IsDefault :: bool
  pr_ExternalPriceRef :: string

record subscription =
  su_ID :: nat
  su_UserID :: nat
  su_PlanID :: nat
  su_PriceID :: nat
  su_Status :: string
  su_StartAt :: gotime
  su_CurrentPeriodStartAt :: gotime
  su_CurrentPeriodEndAt :: "gotime option"
  su_CancelAtPeriodEnd :: bool
  su_CanceledAt :: "gotime option"
  su_AutoRenew :: bool

record subscription_table =
  tb_rows :: "subscription list"
  tb_next :: nat

subsection \<open>Accounts, reservations, ledgers\<close>

record account =
  ac_ID :: nat
  ac_UserID :: nat
  ac_Currency :: string
  ac_BalanceNanousd :: int
  ac_Status :: string

record balance_transaction =
  bt_ID :: nat
  bt_AccountID :: nat
  bt_UserID :: nat
  bt_Type :: string
  bt_AmountNanousd :: int
  bt_BalanceAfterNanousd :: int
  bt_RefType :: string
  bt_RefID :: nat
  bt_RefNo :: string
  bt_Description :: string

datatype reservation_status = Active | Settled | Released | Reconciliation

record reservation =
  rs_ID :: nat
  rs_UserID :: nat
  rs_RefNo :: string
  rs_Mode :: string
  rs_BalanceNanousd :: int
  rs_PeriodCreditNanousd :: int
  rs_PeriodLimitNanousd :: int
  rs_PeriodStartAt :: "gotime option"
  rs_PeriodEndAt :: "gotime option"
  rs_WeeklyCycleID :: nat
  rs_WeeklyCreditNanousd :: int
  rs_WeeklyLimitNanousd :: int
  rs_Status :: reservation_status
  rs_UsageLedgerID :: nat
  rs_SettledNanousd :: int
  rs_SettledWeeklyCycleID :: nat
  rs_ExpiresAt :: gotime
  rs_SettledAt :: "gotime option"
  rs_ReleasedAt :: "gotime option"
  rs_ReconciliationAt :: "gotime option"
  rs_FailureCode :: string

record reservation_request =
  rq_UserID :: nat
  rq_RefNo :: string
  rq_Mode :: string
  rq_RequestedNanousd :: int
  rq_AuthorizedAt :: gotime
  rq_PeriodStartAt :: "gotime option"
  rq_PeriodEndAt :: "gotime option"
  rq_PeriodCreditNanousd :: int
  rq_WeeklyCreditNanousd :: int

record usage_authorization =
  ua_Mode :: string
  ua_Reservation :: "reservation option"

record usage_ledger =
  ul_ID :: nat
  ul_UserID :: nat
  ul_ConversationID :: nat
  ul_ProviderProtocol :: string
  ul_UpstreamName :: string
  ul_PlatformModelName :: string
  ul_RoutedBindingCode :: string
  ul_UpstreamModelName :: string
  ul_IsFreeModel :: bool
  ul_BillingAt :: gotime
  ul_UsageDate :: gotime
  ul_InputTokens :: int
  ul_CacheReadTokens :: int
  ul_CacheWriteTokens :: int
  ul_CacheWrite5mTokens :: int
  ul_CacheWrite1hTokens :: int
  ul_OutputTokens :: int
  ul_ReasoningTokens :: int
  ul_CallCount :: int
  ul_DurationSeconds :: int
  ul_LatencyMS :: int
  ul_UsageSpeed :: string
  ul_ServiceTier :: string
  ul_BilledCurrency :: string
  ul_BilledNanousd :: int
  ul_BalanceAfterNanousd :: "int option"
  ul_PricingSnapshotJSON :: string

subsection \<open>Orders and codes\<close>

record payment_order =
  po_ID :: nat
  po_OrderNo :: string
  po_OrderType :: string
  po_UserID :: nat
  po_PlanID :: nat
  po_PriceID :: nat
  po_Provider :: string
  po_Status :: string
  po_BaseCurrency :: string
  po_BaseAmountCents :: int
  po_PayCurrency :: string
  po_PayAmountCents :: int
  po_FXRate :: string
  po_CreditNanousd :: int
  po_BillingInterval :: string
  po_Cycles :: int
  po_ExternalPaymentID :: string
  po_ExternalCheckoutID :: string
  po_CheckoutURL :: string
  po_PaidAt :: "gotime option"
  po_ExpiredAt :: "gotime option"
  po_SnapshotJSON :: string

record redemption_code =
  rc_ID :: nat
  rc_CodeHash :: string
  rc_CodeEncrypted :: string
  rc_CodeHint :: string
  rc_Mode :: string
  rc_RewardType :: string
  rc_CreditNanousd :: int
  rc_PlanID :: nat
  rc_DurationUnit :: string
  rc_DurationCount :: int
  rc_DurationDays :: int
  rc_MaxRedemptions :: "int option"
  rc_PerUserLimit :: int
  rc_RedeemedCount :: int
  rc_Status :: string
  rc_ExpiresAt :: "gotime option"
  rc_Description :: string
  rc_CreatedByUserID :: nat

record redemption =
  rd_ID :: nat
  rd_CodeID :: nat
  rd_UserID :: nat
  rd_Mode :: string
  rd_RewardType :: string
  rd_CreditNanousd :: int
  rd_PlanID :: nat
  rd_SubscriptionID :: nat
  rd_BalanceTransactionID :: nat
  rd_RefNo :: string
  rd_SnapshotJSON :: string

subsection \<open>The weekly quota\<close>

record quota_cycle =
  qc_ID :: nat
  qc_StartAt :: gotime
  qc_EndAt :: gotime
  qc_ResetReason :: string
  qc_ResetByUserID :: nat

record quota_schedule =
  qs_CurrentCycleID :: nat
  qs_NextResetAt :: "gotime option"

record quota_account =
  qa_ID :: nat
  qa_CycleID :: nat
  qa_UserID :: nat
  qa_UsedNanousd :: int
  qa_ReservedNanousd :: int

subsection \<open>The database\<close>

record billing_db =
  bd_accounts :: "account list"
  bd_transactions :: "balance_transaction list"
  bd_reservations :: "reservation list"
  bd_ledgers :: "usage_ledger list"
  bd_orders :: "payment_order list"
  bd_codes :: "redemption_code list"
  bd_redemptions :: "redemption list"
  bd_subscriptions :: subscription_table
  bd_plans :: "plan list"
  bd_prices :: "price list"
  bd_schedule :: "quota_schedule option"
  bd_cycles :: "quota_cycle list"
  bd_quotaAccounts :: "quota_account list"
  bd_nextID :: nat

text \<open>The database of a fresh installation; row ids start at 1.\<close>

definition empty_db :: billing_db where
  "empty_db = \<lparr>bd_accounts = [], bd_transactions = [], bd_reservations = [], bd_ledgers = [], bd_orders = [],
     bd_codes = [], bd_redemptions = [], bd_subscriptions = \<lparr>tb_rows = [], tb_next = 1\<rparr>, bd_plans = [], bd_prices = [],
     bd_schedule = None, bd_cycles = [], bd_quotaAccounts = [], bd_nextID = 1\<rparr>"

fun first_non_empty :: "string list \<Rightarrow> string" where
  "first_non_empty [] = []"
| "first_non_empty (v # vs) = (if trim_space v \<noteq> [] then trim_space v else first_non_empty vs)"

end
