(* ===== verification/Accounts.thy ===== *)
theory Accounts
  imports BillingData
begin

text \<open>
  Balances and their journal (\<open>infra/persistence/postgres/billing/repository.go\<close>): every change of a
  balance goes with a row of \<open>balance_transactions\<close>. A transaction of the database is a function from
  the database to an error or a result with the new database; on an error the database stays as
  it was (rollback), and the row locks the code takes make each transaction one step. Go's own
  sums wrap around; an update by expression (\<open>balance - x\<close>) is computed by the database, which
  refuses a result outside \<open>bigint\<close>.
\<close>

named_theorems db_simps
  \<comment> \<open>what a statement leaves of the tables it does not write\<close>

text \<open>Keys of the rows of a table: all different and all given out by the sequence.\<close>

definition ids_below :: "('a \<Rightarrow> nat) \<Rightarrow> nat \<Rightarrow> 'a list \<Rightarrow> bool" where
  "ids_below key n xs \<longleftrightarrow> distinct (map key xs) \<and> (\<forall>x\<in>set xs. key x < n)"

lemma ids_below_Nil [simp]: "ids_below key n []"
  by (simp add: ids_below_def)

lemma ids_below_snoc: "ids_below key n xs \<Longrightarrow> key x = n \<Longrightarrow> ids_below key (Suc n) (xs @ [x])"
  by (fastforce simp: ids_below_def)

lemma ids_below_mono: "ids_below key n xs \<Longrightarrow> n \<le> m \<Longrightarrow> ids_below key m xs"
  by (auto simp: ids_below_def)

lemma ids_below_map: "(\<And>x. key (f x) = key x) \<Longrightarrow> ids_below key n (map f xs) = ids_below key n xs"
  by (simp add: ids_below_def comp_def)

lemma ids_below_inj: "ids_below key n xs \<Longrightarrow> x \<in> set xs \<Longrightarrow> y \<in> set xs \<Longrightarrow> key x = key y \<Longrightarrow> x = y"
  by (auto simp: ids_below_def distinct_map dest: inj_onD)

lemma ids_below_less: "ids_below key n xs \<Longrightarrow> x \<in> set xs \<Longrightarrow> key x < n"
  by (simp add: ids_below_def)

lemma find_key:
  "List.find (\<lambda>x. key x = k) xs = Some x \<Longrightarrow> x \<in> set xs \<and> key x = k"
  by (auto simp: find_Some_iff)

type_synonym 'a tx = "repo_err + 'a"

definition find_account :: "nat \<Rightarrow> billing_db \<Rightarrow> account option" where
  "find_account userID db = List.find (\<lambda>a. ac_UserID a = userID) (bd_accounts db)"

definition new_account :: "nat \<Rightarrow> nat \<Rightarrow> account" where
  "new_account rowID userID =
     \<lparr>ac_ID = rowID, ac_UserID = userID, ac_Currency = ''USD'', ac_BalanceNanousd = 0, ac_Status = ''active''\<rparr>"

definition get_or_create_billing_account :: "nat \<Rightarrow> billing_db \<Rightarrow> (account \<times> billing_db) tx" where
  "get_or_create_billing_account userID db =
     (if userID = 0 then Inl ErrInvalidInput
      else case find_account userID db of
             Some a \<Rightarrow> Inr (a, db)
           | None \<Rightarrow>
               let a = new_account (bd_nextID db) userID
               in Inr (a, db\<lparr>bd_accounts := bd_accounts db @ [a], bd_nextID := bd_nextID db + 1\<rparr>))"

definition update_account :: "nat \<Rightarrow> (account \<Rightarrow> account) \<Rightarrow> billing_db \<Rightarrow> billing_db" where
  "update_account accountID f db =
     db\<lparr>bd_accounts := map (\<lambda>a. if ac_ID a = accountID then f a else a) (bd_accounts db)\<rparr>"

definition set_balance :: "int \<Rightarrow> account \<Rightarrow> account" where
  "set_balance balance a = a\<lparr>ac_BalanceNanousd := balance, ac_Currency := ''USD'', ac_Status := ''active''\<rparr>"

definition add_to_balance :: "account \<Rightarrow> int \<Rightarrow> billing_db \<Rightarrow> billing_db tx" where
  \<comment> \<open>\<open>UPDATE ... SET balance_nanousd = balance_nanousd + delta, currency = 'USD', status = 'active'\<close>\<close>
  "add_to_balance a delta db =
     (if in_i64 (ac_BalanceNanousd a + delta)
      then Inr (update_account (ac_ID a) (\<lambda>r. set_balance (ac_BalanceNanousd r + delta) r) db)
      else Inl ErrOutOfRange)"

definition post_transaction ::
  "account \<Rightarrow> nat \<Rightarrow> string \<Rightarrow> int \<Rightarrow> int \<Rightarrow> string \<Rightarrow> nat \<Rightarrow> string \<Rightarrow> string \<Rightarrow> billing_db \<Rightarrow> billing_db" where
  "post_transaction a userID kind amount balanceAfter refType refID refNo description db =
     db\<lparr>bd_transactions := bd_transactions db @
          [\<lparr>bt_ID = bd_nextID db, bt_AccountID = ac_ID a, bt_UserID = userID, bt_Type = kind,
            bt_AmountNanousd = amount, bt_BalanceAfterNanousd = balanceAfter, bt_RefType = refType,
            bt_RefID = refID, bt_RefNo = refNo, bt_Description = description\<rparr>],
        bd_nextID := bd_nextID db + 1\<rparr>"

definition usage_debit_description :: string where
  \<comment> \<open>the UTF-8 bytes of the Chinese text\<close>
  "usage_debit_description = map char_of [
      230, 140, 137, 233, 135, 143, 230, 168, 161, 229, 158, 139, 231, 148, 168, 233, 135,
      143, 230, 137, 163, 232, 180, 185 :: nat]"

definition period_overage_description :: string where
  \<comment> \<open>the UTF-8 bytes of the Chinese text\<close>
  "period_overage_description = map char_of [
      229, 145, 168, 230, 156, 159, 229, 165, 151, 233, 164, 144, 232, 182, 133, 233, 162,
      157, 230, 140, 137, 233, 135, 143, 230, 137, 163, 232, 180, 185 :: nat]"

definition topup_description :: string where
  \<comment> \<open>the UTF-8 bytes of the Chinese text\<close>
  "topup_description = map char_of [
      230, 140, 137, 233, 135, 143, 228, 189, 153, 233, 162, 157, 229, 133, 133, 229, 128,
      188 :: nat]"

definition redemption_description :: string where
  \<comment> \<open>the UTF-8 bytes of the Chinese text\<close>
  "redemption_description = map char_of [
      229, 133, 145, 230, 141, 162, 231, 160, 129, 229, 133, 165, 232, 180, 166 :: nat]"

definition admin_set_description :: string where
  \<comment> \<open>the UTF-8 bytes of the Chinese text\<close>
  "admin_set_description = map char_of [
      231, 174, 161, 231, 144, 134, 229, 145, 152, 232, 174, 190, 231, 189, 174, 228, 189,
      153, 233, 162, 157 :: nat]"

subsection \<open>Operations on one account\<close>

definition set_billing_account_balance ::
  "nat \<Rightarrow> int \<Rightarrow> string \<Rightarrow> string \<Rightarrow> billing_db \<Rightarrow> (account \<times> billing_db) tx" where
  "set_billing_account_balance userID balanceNanousd refNo description db =
     (if userID = 0 \<or> balanceNanousd < 0 then Inl ErrInvalidInput
      else case get_or_create_billing_account userID db of
             Inl e \<Rightarrow> Inl e
           | Inr (a, db1) \<Rightarrow>
               let amount = wrap64 (balanceNanousd - ac_BalanceNanousd a);
                   db2 = update_account (ac_ID a) (set_balance balanceNanousd) db1;
                   db3 = (if amount \<noteq> 0
                          then post_transaction a userID ''admin_set'' amount balanceNanousd ''admin'' 0 (trim_space refNo)
                                 (first_non_empty [trim_space description, admin_set_description]) db2
                          else db2)
               in Inr (set_balance balanceNanousd a, db3))"

definition apply_redemption_balance ::
  "nat \<Rightarrow> redemption_code \<Rightarrow> string \<Rightarrow> billing_db \<Rightarrow> (account \<times> nat \<times> billing_db) tx" where
  "apply_redemption_balance userID code refNo db =
     (case get_or_create_billing_account userID db of
        Inl e \<Rightarrow> Inl e
      | Inr (a, db1) \<Rightarrow>
          (case add_to_balance a (rc_CreditNanousd code) db1 of
             Inl e \<Rightarrow> Inl e
           | Inr db2 \<Rightarrow>
               let a' = set_balance (ac_BalanceNanousd a + rc_CreditNanousd code) a
               in Inr (a', bd_nextID db2,
                    post_transaction a' userID ''redemption'' (rc_CreditNanousd code) (ac_BalanceNanousd a')
                      ''redemption_code'' (rc_ID code) (trim_space refNo)
                      (first_non_empty [trim_space (rc_Description code), redemption_description]) db2)))"

definition update_order :: "nat \<Rightarrow> (payment_order \<Rightarrow> payment_order) \<Rightarrow> billing_db \<Rightarrow> billing_db" where
  "update_order orderID f db =
     db\<lparr>bd_orders := map (\<lambda>r. if po_ID r = orderID then f r else r) (bd_orders db)\<rparr>"

definition paid_order :: "string \<Rightarrow> gotime \<Rightarrow> payment_order \<Rightarrow> payment_order" where
  "paid_order externalPaymentID paidAt r =
     r\<lparr>po_Status := ''paid'', po_ExternalPaymentID := trim_space externalPaymentID, po_PaidAt := Some paidAt\<rparr>"

definition find_order :: "string \<Rightarrow> billing_db \<Rightarrow> payment_order option" where
  "find_order orderNo db = List.find (\<lambda>r. po_OrderNo r = orderNo) (bd_orders db)"

definition order_expired :: "payment_order \<Rightarrow> gotime \<Rightarrow> bool" where
  "order_expired order paidAt \<longleftrightarrow> (case po_ExpiredAt order of None \<Rightarrow> False | Some e \<Rightarrow> before e paidAt)"

definition mark_payment_order_paid_and_credit_balance ::
  "gotime \<Rightarrow> string \<Rightarrow> string \<Rightarrow> gotime \<Rightarrow> billing_db \<Rightarrow> (payment_order \<times> bool \<times> billing_db) tx" where
  \<comment> \<open>the update to \<open>expired\<close> of a late payment is rolled back with the error that follows it\<close>
  "mark_payment_order_paid_and_credit_balance clock orderNo externalPaymentID paidAt db =
     (let orderNo = trim_space orderNo;
          paidAt = (if is_zero paidAt then clock else paidAt)
      in if orderNo = [] then Inl ErrInvalidInput
         else case find_order orderNo db of
           None \<Rightarrow> Inl ErrNotFound
         | Some order \<Rightarrow>
             if po_Status order = ''paid'' then Inr (order, False, db)
             else if po_Status order \<noteq> ''pending'' \<or> po_OrderType order \<noteq> ''topup'' \<or> po_CreditNanousd order \<le> 0
             then Inl ErrInvalidInput
             else if order_expired order paidAt then Inl ErrInvalidInput
             else case get_or_create_billing_account (po_UserID order) db of
               Inl e \<Rightarrow> Inl e
             | Inr (a, db1) \<Rightarrow>
                 let nextBalance = wrap64 (ac_BalanceNanousd a + po_CreditNanousd order);
                     db2 = update_account (ac_ID a) (set_balance nextBalance) db1;
                     db3 = post_transaction a (po_UserID order) ''topup'' (po_CreditNanousd order) nextBalance
                             ''payment_order'' (po_ID order) (po_OrderNo order) topup_description db2;
                     db4 = update_order (po_ID order) (paid_order externalPaymentID paidAt) db3
                 in case find_order orderNo db4 of
                      None \<Rightarrow> Inl ErrNotFound
                    | Some order' \<Rightarrow> Inr (order', True, db4))"

end
