(* ===== verification/Pricing.thy ===== *)
theory Pricing
  imports GoText
begin

text \<open>
  The arithmetic of bills (\<open>application/billing/service.go\<close>): prices in nano dollars per million
  tokens, rate multipliers as fractions of \<open>int64\<close>, the split of cache-write tokens, tiered
  prices, and the rules that read speeds and service tiers off a request. All of it is
  integer arithmetic on \<open>int64\<close>; wrap-around and truncating division are written out. The one
  conversion from \<open>float64\<close>, of the dollars of a stored tier, is a parameter.
\<close>

subsection \<open>Tokens to nano dollars\<close>

definition clamp_non_negative :: "int \<Rightarrow> int" where
  "clamp_non_negative value = (if value < 0 then 0 else value)"

definition calc_nanousd_by_token :: "int \<Rightarrow> int \<Rightarrow> int" where
  "calc_nanousd_by_token tokens nanousdPerMTokens =
     (if tokens \<le> 0 \<or> nanousdPerMTokens \<le> 0 then 0
      else go_div (wrap64 (wrap64 (tokens * nanousdPerMTokens) + 500000)) 1000000)"

definition calc_cache_write_billed_nanousd :: "int \<Rightarrow> int \<Rightarrow> int \<Rightarrow> int \<Rightarrow> int \<Rightarrow> int \<Rightarrow> int" where
  "calc_cache_write_billed_nanousd totalTokens fiveMinuteTokens oneHourTokens aggregateRate fiveMinuteRate oneHourRate =
     (if totalTokens \<le> 0 then 0
      else if fiveMinuteTokens \<le> 0 \<and> oneHourTokens \<le> 0 then calc_nanousd_by_token totalTokens aggregateRate
      else wrap64 (calc_nanousd_by_token fiveMinuteTokens fiveMinuteRate
                   + calc_nanousd_by_token oneHourTokens oneHourRate))"

definition resolve_snapshot_rate_from_billed :: "int \<Rightarrow> int \<Rightarrow> int \<Rightarrow> int" where
  "resolve_snapshot_rate_from_billed tokens billedNanousd fallbackRate =
     (if tokens \<le> 0 \<or> billedNanousd \<le> 0 then fallbackRate
      else go_div (wrap64 (wrap64 (billedNanousd * 1000000) + go_div tokens 2)) tokens)"

subsection \<open>Rate multipliers\<close>

record billing_rate_multiplier =
  bm_Numerator :: int
  bm_Denominator :: int

definition ratio :: "int \<Rightarrow> int \<Rightarrow> billing_rate_multiplier" where
  "ratio n d = \<lparr>bm_Numerator = n, bm_Denominator = d\<rparr>"

definition normalize_billing_rate_multiplier :: "billing_rate_multiplier \<Rightarrow> billing_rate_multiplier" where
  "normalize_billing_rate_multiplier m =
     (if bm_Numerator m \<le> 0 \<or> bm_Denominator m \<le> 0 then ratio 1 1 else m)"

definition apply_rate_multiplier :: "int \<Rightarrow> billing_rate_multiplier \<Rightarrow> int" where
  "apply_rate_multiplier rate multiplier =
     (if rate \<le> 0 then 0
      else let m = normalize_billing_rate_multiplier multiplier
           in if bm_Numerator m = bm_Denominator m then rate
              else go_div (wrap64 (wrap64 (rate * bm_Numerator m) + go_div (bm_Denominator m) 2))
                     (bm_Denominator m))"

definition compose_group_rate_percent :: "billing_rate_multiplier \<Rightarrow> int \<Rightarrow> billing_rate_multiplier" where
  "compose_group_rate_percent base percent =
     (if percent \<le> 0 \<or> percent = 100 then base
      else let b = normalize_billing_rate_multiplier base
           in ratio (wrap64 (bm_Numerator b * percent)) (wrap64 (bm_Denominator b * 100)))"

subsection \<open>Speeds and service tiers\<close>

definition normalize_usage_speed :: "string \<Rightarrow> string" where
  "normalize_usage_speed v = trim_space (to_lower v)"

definition is_anthropic :: "string \<Rightarrow> bool" where
  "is_anthropic providerProtocol \<longleftrightarrow> trim_space providerProtocol = ''anthropic_messages''"

definition is_openai_provider_protocol :: "string \<Rightarrow> bool" where
  "is_openai_provider_protocol providerProtocol \<longleftrightarrow>
     trim_space providerProtocol \<in> set [''openai_chat_completions'', ''openai_responses'']"

definition is_gpt55_series :: "string \<Rightarrow> bool" where
  "is_gpt55_series modelName \<longleftrightarrow> has_prefix (to_lower (trim_space modelName)) ''gpt-5.5''"

definition resolve_billing_speed :: "string \<Rightarrow> string \<Rightarrow> string \<Rightarrow> string" where
  "resolve_billing_speed providerProtocol usageSpeed requestSpeed =
     (if \<not> is_anthropic providerProtocol then []
      else if usageSpeed \<noteq> [] then normalize_usage_speed usageSpeed
      else normalize_usage_speed requestSpeed)"

definition normalize_openai_service_tier :: "string \<Rightarrow> string" where
  "normalize_openai_service_tier raw =
     (let v = trim_space (to_lower raw)
      in if v \<in> set [''default'', ''flex'', ''priority''] then v else [])"

definition resolve_billing_service_tier :: "string \<Rightarrow> string \<Rightarrow> string" where
  "resolve_billing_service_tier providerProtocol usageServiceTier =
     (if \<not> is_openai_provider_protocol providerProtocol then []
      else if usageServiceTier \<noteq> [] then normalize_openai_service_tier usageServiceTier
      else ''default'')"

definition is_anthropic_fast_mode :: "string \<Rightarrow> string \<Rightarrow> string \<Rightarrow> bool" where
  "is_anthropic_fast_mode providerProtocol usageSpeed requestSpeed =
     (if \<not> is_anthropic providerProtocol then False
      else if normalize_usage_speed usageSpeed \<noteq> [] then normalize_usage_speed usageSpeed = ''fast''
      else normalize_usage_speed requestSpeed = ''fast'')"

definition resolve_usage_rate_multiplier ::
  "string \<Rightarrow> string \<Rightarrow> string \<Rightarrow> bool \<Rightarrow> string \<Rightarrow> billing_rate_multiplier" where
  "resolve_usage_rate_multiplier providerProtocol platformModelName upstreamModelName fastMode billingServiceTier =
     (if fastMode then ratio 6 1
      else if \<not> is_openai_provider_protocol providerProtocol then ratio 1 1
      else
        let tier = normalize_openai_service_tier billingServiceTier
        in if tier = ''flex'' then ratio 1 2
           else if tier = ''priority'' then
             (if is_gpt55_series platformModelName \<or> is_gpt55_series upstreamModelName
              then ratio 5 2 else ratio 2 1)
           else ratio 1 1)"

subsection \<open>Cache writes\<close>

definition normalize_anthropic_cache_timeout :: "string \<Rightarrow> string" where
  "normalize_anthropic_cache_timeout raw = (if trim_space (to_lower raw) = ''1h'' then ''1h'' else ''5m'')"

definition billing_cache_timeout_snapshot :: "string \<Rightarrow> string \<Rightarrow> string" where
  "billing_cache_timeout_snapshot providerProtocol cacheTimeout =
     (if \<not> is_anthropic providerProtocol then [] else normalize_anthropic_cache_timeout cacheTimeout)"

definition resolve_cache_write_rate :: "int \<Rightarrow> string \<Rightarrow> string \<Rightarrow> int" where
  "resolve_cache_write_rate configuredRate providerProtocol cacheTimeout =
     (if \<not> is_anthropic providerProtocol then configuredRate
      else if configuredRate \<le> 0 then 0
      else if normalize_anthropic_cache_timeout cacheTimeout = ''1h'' then wrap64 (configuredRate * 2)
      else go_div (wrap64 (configuredRate * 5)) 4)"

definition normalize_cache_write_token_breakdown ::
  "int \<Rightarrow> int \<Rightarrow> int \<Rightarrow> string \<Rightarrow> string \<Rightarrow> int \<times> int \<times> int" where
  "normalize_cache_write_token_breakdown totalTokens fiveMinuteTokens oneHourTokens providerProtocol cacheTimeout =
     (let total = clamp_non_negative totalTokens;
          five = clamp_non_negative fiveMinuteTokens;
          hour1 = clamp_non_negative oneHourTokens
      in if \<not> is_anthropic providerProtocol then (total, 0, 0)
         else
           let split = wrap64 (five + hour1);
               total' = (if total < split then split else total);
               remainder = wrap64 (total' - split)
           in if remainder \<le> 0 then (total', five, hour1)
              else if normalize_anthropic_cache_timeout cacheTimeout = ''1h''
              then (total', five, wrap64 (hour1 + remainder))
              else (total', wrap64 (five + remainder), hour1))"

subsection \<open>Tiers\<close>

record pricing_tier =
  pt_UpToTokens :: int
  pt_input :: int
  pt_cacheRead :: int
  pt_cacheWrite :: int
  pt_output :: int

definition zero_tier :: pricing_tier where
  "zero_tier = \<lparr>pt_UpToTokens = 0, pt_input = 0, pt_cacheRead = 0, pt_cacheWrite = 0, pt_output = 0\<rparr>"

record resolved_tier =
  re_tier :: pricing_tier
  re_fromTokens :: int
  re_upToTokens :: "int option"

definition tier_upper_limit :: "int \<Rightarrow> int option" where
  "tier_upper_limit limit = (if limit \<le> 0 then None else Some limit)"

fun resolve_tier_loop :: "int \<Rightarrow> pricing_tier \<Rightarrow> pricing_tier list \<Rightarrow> int \<Rightarrow> int \<Rightarrow> resolved_tier" where
  "resolve_tier_loop inputTokens lastTier [] previousLimit lastFromTokens =
     \<lparr>re_tier = lastTier, re_fromTokens = lastFromTokens, re_upToTokens = None\<rparr>"
| "resolve_tier_loop inputTokens lastTier (tier # tiers) previousLimit lastFromTokens =
     (if pt_UpToTokens tier \<le> 0 \<or> inputTokens \<le> pt_UpToTokens tier
      then \<lparr>re_tier = tier, re_fromTokens = previousLimit, re_upToTokens = tier_upper_limit (pt_UpToTokens tier)\<rparr>
      else resolve_tier_loop inputTokens lastTier tiers (pt_UpToTokens tier) previousLimit)"

definition resolve_tiered_pricing_tier :: "int \<Rightarrow> pricing_tier list \<Rightarrow> resolved_tier" where
  "resolve_tiered_pricing_tier inputTokens tiers =
     (if tiers = [] then \<lparr>re_tier = zero_tier, re_fromTokens = 0, re_upToTokens = None\<rparr>
      else resolve_tier_loop inputTokens (last tiers) tiers 0 0)"

definition tiered_pricing_input_tokens :: "int \<Rightarrow> int \<Rightarrow> int \<Rightarrow> int" where
  "tiered_pricing_input_tokens inputTokens cacheReadTokens cacheWriteTokens =
     wrap64 (wrap64 (clamp_non_negative inputTokens + clamp_non_negative cacheReadTokens)
             + clamp_non_negative cacheWriteTokens)"

text \<open>
  A stored tier has its prices in dollars as \<open>float64\<close>, a type \<open>'f\<close> here; \<open>nanousd\<close> is
  \<open>usdToNanousd\<close> on it, \<open>tiers_of\<close> the decoder (\<open>None\<close> on an error).
\<close>

record 'f stored_tier =
  st_UpToTokens :: int
  st_InputUSD :: 'f
  st_CacheReadUSD :: 'f
  st_CacheWriteUSD :: 'f
  st_OutputUSD :: 'f

datatype tier_err = ErrTierJSON | ErrTierInput

fun tier_limits_ok :: "int \<Rightarrow> int list \<Rightarrow> bool" where
  "tier_limits_ok previousLimit [] \<longleftrightarrow> True"
| "tier_limits_ok previousLimit (limit # limits) \<longleftrightarrow>
     (if 0 < limit then (if limit \<le> previousLimit then False else tier_limits_ok limit limits)
      else tier_limits_ok previousLimit limits)"

definition priced_tier :: "('f \<Rightarrow> int) \<Rightarrow> 'f stored_tier \<Rightarrow> pricing_tier" where
  "priced_tier nanousd t =
     \<lparr>pt_UpToTokens = st_UpToTokens t, pt_input = nanousd (st_InputUSD t),
      pt_cacheRead = nanousd (st_CacheReadUSD t), pt_cacheWrite = nanousd (st_CacheWriteUSD t),
      pt_output = nanousd (st_OutputUSD t)\<rparr>"

definition parse_tiered_pricing_tiers ::
  "(string \<Rightarrow> 'f stored_tier list option) \<Rightarrow> ('f \<Rightarrow> int) \<Rightarrow> string \<Rightarrow> tier_err + pricing_tier list" where
  "parse_tiered_pricing_tiers tiers_of nanousd raw =
     (let trimmed = trim_space raw;
          doc = (if trimmed = [] then ''{}'' else trimmed)
      in case tiers_of doc of
           None \<Rightarrow> Inl ErrTierJSON
         | Some tiers \<Rightarrow>
             if tiers = [] \<or> 100 < length tiers then Inl ErrTierInput
             else if \<not> tier_limits_ok 0 (map st_UpToTokens tiers) then Inl ErrTierInput
             else Inr (map (priced_tier nanousd) tiers))"

definition normalize_pricing_mode :: "string \<Rightarrow> string" where
  "normalize_pricing_mode raw =
     (let v = trim_space raw in if v \<in> set [''call'', ''duration'', ''tiered''] then v else ''token'')"

definition cents_to_nanousd :: "int \<Rightarrow> int" where
  "cents_to_nanousd v = (if v \<le> 0 then 0 else wrap64 (v * 10000000))"

subsection \<open>Rounding is exact to half a unit\<close>

lemma go_div_round:
  assumes "0 \<le> a" and "0 < b" and "a + b div 2 < 2 ^ 63"
  shows "go_div (wrap64 (a + b div 2)) b = round_half_up a b"
  using assms by (simp add: round_half_up_def wrap64_nonneg_small go_div_nonneg)

lemma calc_nanousd_exact:
  assumes "0 \<le> t" and "0 \<le> r" and "t * r + 500000 < 2 ^ 63"
  shows "calc_nanousd_by_token t r = round_half_up (t * r) 1000000"
proof (cases "t = 0 \<or> r = 0")
  case True
  then show ?thesis by (auto simp: calc_nanousd_by_token_def round_half_up_def)
next
  case False
  then have "0 < t * r" using assms by simp
  then have "wrap64 (t * r) = t * r" using assms(3) by (intro wrap64_nonneg_small) simp_all
  then show ?thesis
    using go_div_round [of "t * r" 1000000] assms False \<open>0 < t * r\<close> by (simp add: calc_nanousd_by_token_def)
qed

lemma apply_rate_exact:
  assumes "0 < n" and "0 < d" and "0 \<le> r" and "r * n + d < 2 ^ 63"
  shows "apply_rate_multiplier r (ratio n d) = round_half_up (r * n) d"
proof (cases "r = 0")
  case True
  have "d div 2 < d" using assms(2) by simp
  then show ?thesis using True assms(2) by (simp add: apply_rate_multiplier_def round_half_up_def)
next
  case False
  have h: "d div 2 \<le> d" "0 \<le> d div 2" using assms(2) by simp_all
  have "0 < r * n" using False assms by simp
  then have "wrap64 (r * n) = r * n" using assms by (intro wrap64_nonneg_small) simp_all
  moreover have "go_div d 2 = d div 2" using assms(2) by (simp add: go_div_nonneg)
  moreover have "r = round_half_up (r * n) d" if "n = d" using that assms(2) by (simp add: round_half_up_exact)
  ultimately show ?thesis
    using False assms h go_div_round [of "r * n" d] \<open>0 < r * n\<close>
    by (simp add: apply_rate_multiplier_def normalize_billing_rate_multiplier_def ratio_def Let_def)
qed

text \<open>
  Pricing is exact to half a unit. As long as a product of tokens and price fits an \<open>int64\<close>, the
  bill of a number of tokens at a multiplied price is the two-step rounding of the exact amount:
  the effective price is within half a nano dollar of \<open>price * n / d\<close> per million tokens, the bill
  within half a nano dollar of \<open>tokens * effective / 10^6\<close>, it is never negative, and it does not
  shrink when the tokens grow.
\<close>

theorem token_bill_is_exact:
  fixes tokens more rate n d :: int
  assumes "0 < n" and "0 < d" and "0 \<le> rate" and "rate * n + d < 2 ^ 63"
    and "0 \<le> tokens" and "tokens \<le> more"
    and "more * apply_rate_multiplier rate (ratio n d) + 500000 < 2 ^ 63"
  shows "let effective = apply_rate_multiplier rate (ratio n d);
             bill = calc_nanousd_by_token tokens effective
         in 2 * \<bar>effective * d - rate * n\<bar> \<le> d
          \<and> 2 * \<bar>bill * 1000000 - tokens * effective\<bar> \<le> 1000000
          \<and> 0 \<le> bill \<and> bill \<le> calc_nanousd_by_token more effective"
proof -
  let ?e = "apply_rate_multiplier rate (ratio n d)"
  have e: "?e = round_half_up (rate * n) d" by (rule apply_rate_exact) (use assms in auto)
  have pos: "0 \<le> ?e" unfolding e using assms by (intro round_half_up_nonneg) simp_all
  have le: "tokens * ?e \<le> more * ?e" using pos assms by (intro mult_right_mono)
  have b: "calc_nanousd_by_token tokens ?e = round_half_up (tokens * ?e) 1000000"
    using assms pos le by (intro calc_nanousd_exact) simp_all
  have b': "calc_nanousd_by_token more ?e = round_half_up (more * ?e) 1000000"
    using assms pos by (intro calc_nanousd_exact) simp_all
  have "0 \<le> tokens * ?e" using assms pos by simp
  then have "0 \<le> round_half_up (tokens * ?e) 1000000" by (rule round_half_up_nonneg) simp
  moreover have "2 * \<bar>?e * d - rate * n\<bar> \<le> d" unfolding e by (rule round_half_up_error [OF assms(2)])
  moreover have "2 * \<bar>round_half_up (tokens * ?e) 1000000 * 1000000 - tokens * ?e\<bar> \<le> 1000000"
    by (rule round_half_up_error) simp
  moreover have "round_half_up (tokens * ?e) 1000000 \<le> round_half_up (more * ?e) 1000000"
    using le by (rule round_half_up_mono) simp
  ultimately show ?thesis by (simp add: b b' Let_def)
qed

theorem token_bill_is_exact_witness:
  "0 \<le> calc_nanousd_by_token 1500 (apply_rate_multiplier 2500000000 (ratio 5 2))"
  using token_bill_is_exact [of 5 2 2500000000 1500 2000]
  by (simp add: apply_rate_multiplier_def normalize_billing_rate_multiplier_def ratio_def Let_def
      go_div_nonneg wrap64_def)

text \<open>
  Cache-write tokens are neither lost nor billed twice. For an Anthropic request the
  five-minute and one-hour parts that are billed add up to the total, which is the larger of the
  reported total and the reported parts, and each part is at least what was reported; for any
  other protocol the total alone is billed.
\<close>

theorem cache_write_split_is_complete:
  assumes "normalize_cache_write_token_breakdown reported five hours protocol timeout = (t, f, h)"
    and "max 0 five + max 0 hours < 2 ^ 63" and "reported < 2 ^ 63"
  shows "0 \<le> f \<and> 0 \<le> h
    \<and> (if is_anthropic protocol
       then t = f + h \<and> t = max (max 0 reported) (max 0 five + max 0 hours) \<and> max 0 five \<le> f \<and> max 0 hours \<le> h
       else t = max 0 reported \<and> f = 0 \<and> h = 0)"
proof -
  let ?f = "max 0 five" and ?h = "max 0 hours" and ?t = "max 0 reported"
  have c: "clamp_non_negative x = max 0 x" for x by (simp add: clamp_non_negative_def max_def)
  have w: "wrap64 (?f + ?h) = ?f + ?h" using assms(2) by (intro wrap64_nonneg_small) simp_all
  define m where "m = max ?t (?f + ?h)"
  have m: "0 \<le> m - (?f + ?h)" "m < 2 ^ 63" using assms(2,3) by (auto simp: m_def max_def)
  have r: "wrap64 (m - (?f + ?h)) = m - (?f + ?h)" using m by (intro wrap64_nonneg_small) (auto simp: max_def)
  have nn: "0 \<le> ?f" "0 \<le> ?h" by simp_all
  have w1: "wrap64 (?f + (m - (?f + ?h))) = m - ?h" using m nn by (subst wrap64_nonneg_small) linarith+
  have w2: "wrap64 (?h + (m - (?f + ?h))) = m - ?f" using m nn by (subst wrap64_nonneg_small) linarith+
  have mm: "(if ?t < ?f + ?h then ?f + ?h else ?t) = m" by (simp add: m_def max_def)
  have split: "normalize_cache_write_token_breakdown reported five hours protocol timeout =
      (if m - (?f + ?h) \<le> 0 then (m, ?f, ?h)
        else if normalize_anthropic_cache_timeout timeout = ''1h'' then (m, ?f, m - ?f) else (m, m - ?h, ?h))"
    if "is_anthropic protocol"
    unfolding normalize_cache_write_token_breakdown_def Let_def c w mm r w1 w2 using that by simp
  have le: "?f + ?h \<le> m" using m(1) by linarith
  show ?thesis
  proof (cases "is_anthropic protocol")
    case False
    then show ?thesis using assms(1) by (auto simp: normalize_cache_write_token_breakdown_def Let_def c)
  next
    case True
    have "(t, f, h) = (if m - (?f + ?h) \<le> 0 then (m, ?f, ?h)
        else if normalize_anthropic_cache_timeout timeout = ''1h'' then (m, ?f, m - ?f) else (m, m - ?h, ?h))"
      using assms(1) split [OF True] by simp
    then show ?thesis using True nn le by (auto simp: m_def [symmetric] split: if_splits)
  qed
qed

theorem cache_write_split_is_complete_witness:
  "normalize_cache_write_token_breakdown 100 30 20 ''anthropic_messages'' ''1h'' = (100, 30, 70)"
proof -
  obtain t f h where s: "normalize_cache_write_token_breakdown 100 30 20 ''anthropic_messages'' ''1h'' = (t, f, h)"
    by (metis prod_cases3)
  have a: "is_anthropic ''anthropic_messages''" by code_simp
  have "f = 30" using s a by (simp add: normalize_cache_write_token_breakdown_def clamp_non_negative_def Let_def
      wrap64_def normalize_anthropic_cache_timeout_def lower_byte_def split: if_splits)
  then show ?thesis using cache_write_split_is_complete [OF s] a s by simp
qed

end
