(* ===== verification/Reservations.thy ===== *)
theory Reservations
  imports Accounts Pricing
begin

text \<open>
  Budgets of running calls (\<open>infra/persistence/postgres/billing/repository_reservation.go\<close>, and
  \<open>AddUsageAndSettleBalance\<close> and \<open>AddPeriodUsageAndSettleOverage\<close> of \<open>repository.go\<close>): a call reserves part of
  the balance and of the period's credit before it starts, and its usage settles the reservation
  once, however often the settlement is retried. The weekly mode is in \<open>WeeklyQuota\<close>.
\<close>

subsection \<open>Arithmetic of budgets\<close>

definition usage_reservation_ttl :: duration where "usage_reservation_ttl = 3 * hour"
definition usage_reservation_max_active_per_user :: int where "usage_reservation_max_active_per_user = 5"

definition min_int64 :: "int \<Rightarrow> int \<Rightarrow> int" where
  "min_int64 a b = (if a < b then a else b)"

definition add_non_negative_int64 :: "int \<Rightarrow> int \<Rightarrow> int" where
  "add_non_negative_int64 a b =
     (let a' = (if a < 0 then 0 else a);
          b' = (if b < 0 then 0 else b)
      in if 2 ^ 63 - 1 - b' < a' then 2 ^ 63 - 1 else a' + b')"

definition divide_budget_across_slots :: "int \<Rightarrow> int \<Rightarrow> int" where
  "divide_budget_across_slots availableNanousd slots =
     (if availableNanousd \<le> 0 \<or> slots \<le> 0 then 0
      else let result = go_div availableNanousd slots
           in if go_mod availableNanousd slots \<noteq> 0 then result + 1 else result)"

definition remaining_non_negative_budget :: "int \<Rightarrow> int \<Rightarrow> int \<Rightarrow> int" where
  "remaining_non_negative_budget limit consumed reserved =
     (if limit \<le> 0 then 0
      else if limit \<le> clamp_non_negative consumed then 0
      else
        let remaining = limit - clamp_non_negative consumed
        in if remaining \<le> clamp_non_negative reserved then 0 else remaining - clamp_non_negative reserved)"

subsection \<open>Queries\<close>

definition holds_budget :: "gotime \<Rightarrow> reservation \<Rightarrow> bool" where
  \<comment> \<open>\<open>(status = 'active' AND expires_at > now) OR status = 'reconciliation'\<close>\<close>
  "holds_budget now r \<longleftrightarrow> rs_Status r = Active \<and> now < rs_ExpiresAt r \<or> rs_Status r = Reconciliation"

definition held_reservations :: "nat \<Rightarrow> gotime \<Rightarrow> billing_db \<Rightarrow> reservation list" where
  "held_reservations userID now db = filter (\<lambda>r. rs_UserID r = userID \<and> holds_budget now r) (bd_reservations db)"

definition count_active_usage_reservations :: "nat \<Rightarrow> gotime \<Rightarrow> billing_db \<Rightarrow> int" where
  "count_active_usage_reservations userID now db = int (length (held_reservations userID now db))"

definition sum_active_balance_reservations :: "nat \<Rightarrow> gotime \<Rightarrow> billing_db \<Rightarrow> int" where
  "sum_active_balance_reservations userID now db = sum_list (map rs_BalanceNanousd (held_reservations userID now db))"

definition sum_active_period_credit_reservations ::
  "nat \<Rightarrow> gotime \<Rightarrow> gotime \<Rightarrow> nat \<Rightarrow> gotime \<Rightarrow> billing_db \<Rightarrow> int" where
  "sum_active_period_credit_reservations userID periodStart periodEnd excludeID now db =
     sum_list (map rs_PeriodCreditNanousd
       (filter (\<lambda>r. rs_PeriodStartAt r = Some periodStart \<and> rs_PeriodEndAt r = Some periodEnd
                   \<and> (0 < excludeID \<longrightarrow> rs_ID r \<noteq> excludeID))
          (held_reservations userID now db)))"

definition sum_billable_nanousd :: "nat \<Rightarrow> gotime \<Rightarrow> gotime \<Rightarrow> billing_db \<Rightarrow> int" where
  "sum_billable_nanousd userID startAt endAt db =
     sum_list (map ul_BilledNanousd
       (filter (\<lambda>u. ul_UserID u = userID \<and> \<not> ul_IsFreeModel u \<and> startAt \<le> ul_BillingAt u \<and> ul_BillingAt u < endAt)
          (bd_ledgers db)))"

definition find_reservation :: "nat \<Rightarrow> string \<Rightarrow> billing_db \<Rightarrow> reservation option" where
  "find_reservation userID refNo db =
     List.find (\<lambda>r. rs_UserID r = userID \<and> rs_RefNo r = refNo) (bd_reservations db)"

definition legacy_reservation :: "nat \<Rightarrow> string \<Rightarrow> billing_db \<Rightarrow> bool" where
  "legacy_reservation userID refNo db \<longleftrightarrow>
     (\<exists>t\<in>set (bd_transactions db). bt_UserID t = userID \<and> bt_RefNo t = refNo
        \<and> bt_Type t \<in> set [''usage_reserve'', ''usage_refund''])"

subsection \<open>Reserving\<close>

definition valid_period :: "gotime option \<Rightarrow> gotime option \<Rightarrow> bool" where
  "valid_period startAt endAt \<longleftrightarrow>
     (case (startAt, endAt) of (Some s, Some e) \<Rightarrow> after e s | _ \<Rightarrow> False)"

definition new_reservation :: "nat \<Rightarrow> reservation_request \<Rightarrow> int \<Rightarrow> int \<Rightarrow> gotime \<Rightarrow> reservation" where
  "new_reservation rowID input balance credit expiresAt =
     \<lparr>rs_ID = rowID, rs_UserID = rq_UserID input, rs_RefNo = rq_RefNo input, rs_Mode = rq_Mode input,
      rs_BalanceNanousd = balance, rs_PeriodCreditNanousd = credit,
      rs_PeriodLimitNanousd = rq_PeriodCreditNanousd input,
      rs_PeriodStartAt = rq_PeriodStartAt input, rs_PeriodEndAt = rq_PeriodEndAt input,
      rs_WeeklyCycleID = 0, rs_WeeklyCreditNanousd = 0, rs_WeeklyLimitNanousd = 0, rs_Status = Active,
      rs_UsageLedgerID = 0, rs_SettledNanousd = 0, rs_SettledWeeklyCycleID = 0, rs_ExpiresAt = expiresAt,
      rs_SettledAt = None, rs_ReleasedAt = None, rs_ReconciliationAt = None, rs_FailureCode = []\<rparr>"

definition available_credit :: "reservation_request \<Rightarrow> gotime \<Rightarrow> billing_db \<Rightarrow> int" where
  "available_credit input now db =
     (case (rq_PeriodStartAt input, rq_PeriodEndAt input) of
        (Some s, Some e) \<Rightarrow>
          if rq_Mode input = ''period''
          then remaining_non_negative_budget (rq_PeriodCreditNanousd input)
                 (sum_billable_nanousd (rq_UserID input) s e db)
                 (sum_active_period_credit_reservations (rq_UserID input) s e 0 now db)
          else 0
      | _ \<Rightarrow> 0)"

definition reserve_balance_tx :: "reservation_request \<Rightarrow> gotime \<Rightarrow> billing_db \<Rightarrow> (reservation \<times> billing_db) tx" where
  \<comment> \<open>the transaction of \<open>ReserveUsageBalance\<close>; \<open>now\<close> is \<open>time.Now()\<close> inside it\<close>
  "reserve_balance_tx input now db =
     (case get_or_create_billing_account (rq_UserID input) db of
        Inl e \<Rightarrow> Inl e
      | Inr (a, db1) \<Rightarrow>
          if find_reservation (rq_UserID input) (rq_RefNo input) db1 \<noteq> None then Inl ErrConflict
          else if legacy_reservation (rq_UserID input) (rq_RefNo input) db1 then Inl ErrConflict
          else
            let activeCount = count_active_usage_reservations (rq_UserID input) now db1
            in if usage_reservation_max_active_per_user \<le> activeCount then Inl ErrUsageReservationLimitExceeded
               else if ac_BalanceNanousd a < 0 then Inl ErrInsufficientBalance
               else
                 let availableBalance = remaining_non_negative_budget (ac_BalanceNanousd a)
                       (sum_active_balance_reservations (rq_UserID input) now db1) 0;
                     availableCredit = available_credit input now db1;
                     available = add_non_negative_int64 availableCredit availableBalance;
                     requested = (if rq_RequestedNanousd input \<le> 0
                                  then divide_budget_across_slots available (usage_reservation_max_active_per_user - activeCount)
                                  else rq_RequestedNanousd input)
                 in if requested \<le> 0 \<or> available < requested then Inl ErrInsufficientBalance
                    else
                      let credit = min_int64 requested availableCredit;
                          row = new_reservation (bd_nextID db1) input (requested - credit) credit (now + usage_reservation_ttl)
                      in Inr (row, db1\<lparr>bd_reservations := bd_reservations db1 @ [row], bd_nextID := bd_nextID db1 + 1\<rparr>))"

subsection \<open>Releasing, renewing, marking\<close>

definition update_reservation :: "nat \<Rightarrow> (reservation \<Rightarrow> reservation) \<Rightarrow> billing_db \<Rightarrow> billing_db" where
  "update_reservation rowID f db =
     db\<lparr>bd_reservations := map (\<lambda>r. if rs_ID r = rowID then f r else r) (bd_reservations db)\<rparr>"

definition renew_usage_balance_reservation :: "nat \<Rightarrow> string \<Rightarrow> gotime \<Rightarrow> billing_db \<Rightarrow> billing_db tx" where
  "renew_usage_balance_reservation userID refNo now db =
     (let refNo = trim_space refNo
      in if userID = 0 \<or> refNo = [] then Inl ErrInvalidInput
         else
           let hit = (\<lambda>r. rs_UserID r = userID \<and> rs_RefNo r = refNo \<and> rs_Status r = Active \<and> now < rs_ExpiresAt r)
           in if \<not> list_ex hit (bd_reservations db) then Inl ErrConflict
              else Inr (db\<lparr>bd_reservations :=
                     map (\<lambda>r. if hit r then r\<lparr>rs_ExpiresAt := now + usage_reservation_ttl\<rparr> else r) (bd_reservations db)\<rparr>))"

definition mark_usage_reservation_reconciliation_required ::
  "nat \<Rightarrow> string \<Rightarrow> string \<Rightarrow> gotime \<Rightarrow> billing_db \<Rightarrow> billing_db tx" where
  "mark_usage_reservation_reconciliation_required userID refNo failureCode now db =
     (let refNo = trim_space refNo;
          failureCode = trim_space failureCode
      in if userID = 0 \<or> refNo = [] \<or> failureCode = [] then Inl ErrInvalidInput
         else
           let code = (if 64 < length failureCode then take 64 failureCode else failureCode);
               hit = (\<lambda>r. rs_UserID r = userID \<and> rs_RefNo r = refNo \<and> rs_Status r \<in> set [Active, Reconciliation])
           in if \<not> list_ex hit (bd_reservations db) then Inl ErrConflict
              else Inr (db\<lparr>bd_reservations :=
                     map (\<lambda>r. if hit r
                            then r\<lparr>rs_Status := Reconciliation, rs_FailureCode := code, rs_ReconciliationAt := Some now\<rparr>
                            else r) (bd_reservations db)\<rparr>))"

subsection \<open>Settling\<close>

definition usage_reservation_for_settlement ::
  "nat \<Rightarrow> reservation option \<Rightarrow> billing_db \<Rightarrow> (reservation option \<times> bool) tx" where
  "usage_reservation_for_settlement userID reservation db =
     (case reservation of
        None \<Rightarrow> Inr (None, False)
      | Some r \<Rightarrow>
          if userID = 0 \<or> rs_UserID r \<noteq> 0 \<and> rs_UserID r \<noteq> userID \<or> trim_space (rs_RefNo r) = [] then Inl ErrConflict
          else case List.find (\<lambda>x. rs_UserID x = userID \<and> rs_RefNo x = trim_space (rs_RefNo r)
                                \<and> (0 < rs_ID r \<longrightarrow> rs_ID x = rs_ID r)) (bd_reservations db) of
                 None \<Rightarrow> Inl ErrConflict
               | Some item \<Rightarrow>
                   (case rs_Status item of
                      Active \<Rightarrow> Inr (Some item, False)
                    | Reconciliation \<Rightarrow> Inr (Some item, False)
                    | Settled \<Rightarrow> if rs_UsageLedgerID item = 0 then Inl ErrConflict else Inr (Some item, True)
                    | Released \<Rightarrow> Inl ErrConflict))"

definition settled_row :: "nat \<Rightarrow> gotime \<Rightarrow> reservation \<Rightarrow> reservation" where
  "settled_row usageLedgerID now r =
     r\<lparr>rs_Status := Settled, rs_UsageLedgerID := usageLedgerID, rs_SettledAt := Some now\<rparr>"

definition settle_usage_reservation :: "reservation option \<Rightarrow> nat \<Rightarrow> gotime \<Rightarrow> billing_db \<Rightarrow> billing_db" where
  "settle_usage_reservation reservation usageLedgerID now db =
     (case reservation of
        None \<Rightarrow> db
      | Some r \<Rightarrow> update_reservation (rs_ID r) (settled_row usageLedgerID now) db)"

definition reservation_ref_no :: "reservation option \<Rightarrow> string" where
  "reservation_ref_no reservation = (case reservation of None \<Rightarrow> [] | Some r \<Rightarrow> trim_space (rs_RefNo r))"

definition restore_settled_usage_ledger :: "nat \<Rightarrow> billing_db \<Rightarrow> usage_ledger tx" where
  "restore_settled_usage_ledger usageLedgerID db =
     (if usageLedgerID = 0 then Inl ErrConflict
      else case List.find (\<lambda>u. ul_ID u = usageLedgerID) (bd_ledgers db) of
             None \<Rightarrow> Inl ErrNotFound
           | Some u \<Rightarrow> Inr u)"

definition create_ledger :: "usage_ledger \<Rightarrow> billing_db \<Rightarrow> usage_ledger \<times> billing_db" where
  "create_ledger usage db =
     (let row = usage\<lparr>ul_ID := bd_nextID db\<rparr>
      in (row, db\<lparr>bd_ledgers := bd_ledgers db @ [row], bd_nextID := bd_nextID db + 1\<rparr>))"

definition add_usage :: "usage_ledger \<Rightarrow> billing_db \<Rightarrow> billing_db" where
  "add_usage usage db = snd (create_ledger usage db)"

definition charge_of :: "usage_ledger \<Rightarrow> int" where
  "charge_of usage = (if ul_IsFreeModel usage \<or> ul_BilledNanousd usage \<le> 0 then 0 else ul_BilledNanousd usage)"

definition debit_account ::
  "account \<Rightarrow> nat \<Rightarrow> int \<Rightarrow> int \<Rightarrow> nat \<Rightarrow> string \<Rightarrow> string \<Rightarrow> billing_db \<Rightarrow> billing_db tx" where
  "debit_account a userID amount nextBalance ledgerID refNo description db =
     (if \<not> 0 < amount then Inr db
      else case add_to_balance a (- amount) db of
             Inl e \<Rightarrow> Inl e
           | Inr db' \<Rightarrow>
               Inr (post_transaction a userID ''usage_debit'' (- amount) nextBalance ''usage_ledger'' ledgerID refNo description db'))"

definition add_usage_and_settle_balance ::
  "usage_ledger \<Rightarrow> reservation option \<Rightarrow> gotime \<Rightarrow> billing_db \<Rightarrow> (usage_ledger \<times> billing_db) tx" where
  \<comment> \<open>the first result is the caller's usage, overwritten when the call is a retry\<close>
  "add_usage_and_settle_balance usage reservation now db =
     (case get_or_create_billing_account (ul_UserID usage) db of
        Inl e \<Rightarrow> Inl e
      | Inr (a, db1) \<Rightarrow>
          (case usage_reservation_for_settlement (ul_UserID usage) reservation db1 of
             Inl e \<Rightarrow> Inl e
           | Inr (row, alreadySettled) \<Rightarrow>
               if (case row of None \<Rightarrow> False | Some r \<Rightarrow> rs_Mode r \<noteq> ''usage'') then Inl ErrConflict
               else if alreadySettled then
                 (case restore_settled_usage_ledger (rs_UsageLedgerID (the row)) db1 of
                    Inl e \<Rightarrow> Inl e | Inr restored \<Rightarrow> Inr (restored, db1))
               else
                 let charge = charge_of usage;
                     nextBalance = wrap64 (ac_BalanceNanousd a - charge);
                     (ledger, db2) = create_ledger (usage\<lparr>ul_BalanceAfterNanousd := Some nextBalance\<rparr>) db1
                 in case debit_account a (ul_UserID usage) charge nextBalance (ul_ID ledger)
                           (reservation_ref_no reservation) usage_debit_description db2 of
                      Inl e \<Rightarrow> Inl e
                    | Inr db3 \<Rightarrow> Inr (usage, settle_usage_reservation row (ul_ID ledger) now db3)))"

definition matches_period_reservation :: "reservation \<Rightarrow> gotime \<Rightarrow> gotime \<Rightarrow> int \<Rightarrow> bool" where
  "matches_period_reservation r periodStart periodEnd periodCreditNanousd \<longleftrightarrow>
     rs_Mode r = ''period'' \<and> rs_PeriodStartAt r = Some periodStart \<and> rs_PeriodEndAt r = Some periodEnd
     \<and> rs_PeriodLimitNanousd r = periodCreditNanousd"

text \<open>
  \<open>with_snapshot\<close> is \<open>withPeriodSettlementSnapshot\<close>: merging numbers into a JSON document, done by
  \<open>encoding/json\<close>, a parameter.
\<close>

definition period_snapshot_values ::
  "int \<Rightarrow> int \<Rightarrow> int \<Rightarrow> int \<Rightarrow> int \<Rightarrow> int \<Rightarrow> int \<Rightarrow> (string \<times> int) list" where
  "period_snapshot_values limit usedBefore charge covered reservedCredit overage reservedBalance =
     [(''period_credit_nanousd'', limit),
      (''period_used_before_nanousd'', usedBefore),
      (''period_used_after_nanousd'', add_non_negative_int64 usedBefore charge),
      (''period_credit_covered_nanousd'', covered),
      (''period_credit_reserved_nanousd'', reservedCredit),
      (''period_overage_billed_nanousd'', overage),
      (''period_balance_charged_nanousd'', overage),
      (''period_balance_reserved_nanousd'', reservedBalance),
      (''period_balance_settlement_delta_nanousd'', wrap64 (overage - reservedBalance))]"

definition add_period_usage_and_settle_overage ::
  "(string \<Rightarrow> (string \<times> int) list \<Rightarrow> string) \<Rightarrow> usage_ledger \<Rightarrow> gotime \<Rightarrow> gotime \<Rightarrow> int \<Rightarrow> reservation option
   \<Rightarrow> gotime \<Rightarrow> billing_db \<Rightarrow> (usage_ledger \<times> billing_db) tx" where
  "add_period_usage_and_settle_overage with_snapshot usage periodStart periodEnd periodCreditNanousd reservation now db =
     (if ul_UserID usage = 0 \<or> is_zero periodStart \<or> \<not> after periodEnd periodStart \<or> periodCreditNanousd < 0
      then Inl ErrInvalidInput
      else case get_or_create_billing_account (ul_UserID usage) db of
        Inl e \<Rightarrow> Inl e
      | Inr (a, db1) \<Rightarrow>
          (case usage_reservation_for_settlement (ul_UserID usage) reservation db1 of
             Inl e \<Rightarrow> Inl e
           | Inr (row, alreadySettled) \<Rightarrow>
               if (case row of None \<Rightarrow> False
                   | Some r \<Rightarrow> \<not> matches_period_reservation r periodStart periodEnd periodCreditNanousd)
               then Inl ErrConflict
               else if alreadySettled then
                 (case restore_settled_usage_ledger (rs_UsageLedgerID (the row)) db1 of
                    Inl e \<Rightarrow> Inl e | Inr restored \<Rightarrow> Inr (restored, db1))
               else
                 let usedBefore = sum_billable_nanousd (ul_UserID usage) periodStart periodEnd db1;
                     charge = charge_of usage;
                     otherReserved = sum_active_period_credit_reservations (ul_UserID usage) periodStart periodEnd
                       (case row of None \<Rightarrow> 0 | Some r \<Rightarrow> rs_ID r) now db1;
                     remaining = remaining_non_negative_budget periodCreditNanousd usedBefore otherReserved;
                     covered = min_int64 charge remaining;
                     overage = charge - covered;
                     reservedBalance = (case row of None \<Rightarrow> 0 | Some r \<Rightarrow> rs_BalanceNanousd r);
                     reservedCredit = (case row of None \<Rightarrow> 0 | Some r \<Rightarrow> rs_PeriodCreditNanousd r);
                     nextBalance = wrap64 (ac_BalanceNanousd a - overage);
                     snapshot = with_snapshot (ul_PricingSnapshotJSON usage)
                       (period_snapshot_values periodCreditNanousd usedBefore charge covered reservedCredit overage reservedBalance);
                     (ledger, db2) = create_ledger
                       (usage\<lparr>ul_BalanceAfterNanousd := Some nextBalance, ul_PricingSnapshotJSON := snapshot\<rparr>) db1
                 in case debit_account a (ul_UserID usage) overage nextBalance (ul_ID ledger)
                           (reservation_ref_no reservation) period_overage_description db2 of
                      Inl e \<Rightarrow> Inl e
                    | Inr db3 \<Rightarrow>
                        Inr (if snapshot \<noteq> [] then usage\<lparr>ul_PricingSnapshotJSON := snapshot\<rparr> else usage,
                             settle_usage_reservation row (ul_ID ledger) now db3)))"

end
