(* ===== verification/WeeklyQuota.thy ===== *)
theory WeeklyQuota
  imports Reservations
begin

text \<open>
  The weekly quota (\<open>repository_quota.go\<close>, \<open>repository_weekly.go\<close>): one row of schedule shared by all
  users points to the current cycle of seven days; each user has a counter per cycle. A call
  reserves part of the weekly credit and its cost is counted in the cycle its bill falls in,
  never against the balance. The whole of \<open>ReserveUsageBalance\<close> and of the release of a
  reservation are here, since they dispatch on the mode. Instants are unbounded; a difference of
  two instants saturates and a product of durations wraps, as in Go.
\<close>

subsection \<open>Cycles\<close>

definition weekly_quota_cycle_duration :: duration where
  "weekly_quota_cycle_duration = 7 * 24 * hour"

definition normalize_initial_weekly_reset :: "gotime \<Rightarrow> gotime \<Rightarrow> gotime tx" where
  "normalize_initial_weekly_reset now initialResetAt =
     (if is_zero initialResetAt then Inr (now + weekly_quota_cycle_duration)
      else if after initialResetAt now then
        (if weekly_quota_cycle_duration < time_sub initialResetAt now then Inl ErrInvalidInput
         else Inr initialResetAt)
      else
        let elapsed = time_sub now initialResetAt;
            steps = wrap64 (go_div elapsed weekly_quota_cycle_duration + 1)
        in Inr (initialResetAt + wrap64 (steps * weekly_quota_cycle_duration)))"

definition lock_weekly_quota_schedule :: "billing_db \<Rightarrow> quota_schedule \<times> billing_db" where
  \<comment> \<open>the row is created when it is missing\<close>
  "lock_weekly_quota_schedule db =
     (case bd_schedule db of
        Some s \<Rightarrow> (s, db)
      | None \<Rightarrow>
          let s = \<lparr>qs_CurrentCycleID = 0, qs_NextResetAt = None\<rparr>
          in (s, db\<lparr>bd_schedule := Some s\<rparr>))"

definition set_current_weekly_quota_cycle :: "nat \<Rightarrow> billing_db \<Rightarrow> billing_db tx" where
  "set_current_weekly_quota_cycle cycleID db =
     (if cycleID = 0 then Inl ErrInvalidInput
      else case bd_schedule db of
             None \<Rightarrow> Inl ErrConflict
           | Some s \<Rightarrow> Inr (db\<lparr>bd_schedule := Some (s\<lparr>qs_CurrentCycleID := cycleID\<rparr>)\<rparr>))"

definition set_next_reset :: "gotime \<Rightarrow> billing_db \<Rightarrow> billing_db" where
  "set_next_reset at db =
     db\<lparr>bd_schedule := map_option (\<lambda>s. s\<lparr>qs_NextResetAt := Some at\<rparr>) (bd_schedule db)\<rparr>"

definition create_cycle ::
  "gotime \<Rightarrow> gotime \<Rightarrow> string \<Rightarrow> nat \<Rightarrow> billing_db \<Rightarrow> quota_cycle \<times> billing_db" where
  "create_cycle startAt endAt reason actor db =
     (let c = \<lparr>qc_ID = bd_nextID db, qc_StartAt = startAt, qc_EndAt = endAt, qc_ResetReason = reason,
               qc_ResetByUserID = actor\<rparr>
      in (c, db\<lparr>bd_cycles := bd_cycles db @ [c], bd_nextID := bd_nextID db + 1\<rparr>))"

definition update_cycle :: "nat \<Rightarrow> (quota_cycle \<Rightarrow> quota_cycle) \<Rightarrow> billing_db \<Rightarrow> billing_db" where
  "update_cycle cycleID f db =
     db\<lparr>bd_cycles := map (\<lambda>c. if qc_ID c = cycleID then f c else c) (bd_cycles db)\<rparr>"

definition find_cycle :: "nat \<Rightarrow> billing_db \<Rightarrow> quota_cycle option" where
  "find_cycle cycleID db = List.find (\<lambda>c. qc_ID c = cycleID) (bd_cycles db)"

function advance_cycles :: "gotime \<Rightarrow> quota_cycle \<Rightarrow> billing_db \<Rightarrow> quota_cycle \<times> billing_db" where
  "advance_cycles now current db =
     (if before now (qc_EndAt current) then (current, db)
      else
        case create_cycle (qc_EndAt current) (qc_EndAt current + weekly_quota_cycle_duration) ''automatic'' 0 db of
          (c, db') \<Rightarrow> advance_cycles now c db')"
  by pat_completeness auto
termination
  by (relation "measure (\<lambda>(now, current, db). nat (now + 1 - qc_EndAt current))")
    (auto simp: create_cycle_def Let_def weekly_quota_cycle_duration_def duration_defs)

declare advance_cycles.simps [simp del]

definition initialize_cycle :: "gotime \<Rightarrow> gotime \<Rightarrow> quota_schedule \<Rightarrow> billing_db \<Rightarrow> (quota_cycle \<times> bool \<times> billing_db) tx" where
  "initialize_cycle now initialResetAt schedule db =
     (let configuredResetAt = (if is_zero initialResetAt
                               then (case qs_NextResetAt schedule of None \<Rightarrow> initialResetAt | Some t \<Rightarrow> t)
                               else initialResetAt)
      in case normalize_initial_weekly_reset now configuredResetAt of
           Inl e \<Rightarrow> Inl e
         | Inr endAt \<Rightarrow>
             (case create_cycle (endAt - weekly_quota_cycle_duration) endAt ''initial'' 0 db of
                (c, db1) \<Rightarrow>
                  (case set_current_weekly_quota_cycle (qc_ID c) db1 of
                     Inl e \<Rightarrow> Inl e
                   | Inr db2 \<Rightarrow> Inr (c, True, set_next_reset (qc_EndAt c) db2))))"

definition ensure_weekly_quota_cycle ::
  "gotime \<Rightarrow> gotime \<Rightarrow> billing_db \<Rightarrow> (quota_cycle \<times> bool \<times> billing_db) tx" where
  \<comment> \<open>\<open>ensureWeeklyQuotaCycleForUpdate\<close>; the flag says that the first cycle was created\<close>
  "ensure_weekly_quota_cycle now initialResetAt db =
     (case lock_weekly_quota_schedule db of
        (schedule, db1) \<Rightarrow>
          if qs_CurrentCycleID schedule = 0 then initialize_cycle now initialResetAt schedule db1
          else case find_cycle (qs_CurrentCycleID schedule) db1 of
            None \<Rightarrow> Inl ErrConflict
          | Some current \<Rightarrow>
              if \<not> after (qc_EndAt current) (qc_StartAt current) then Inl ErrConflict
              else case advance_cycles now current db1 of
                (c, db2) \<Rightarrow>
                  if qc_ID c = qs_CurrentCycleID schedule then Inr (c, False, db2)
                  else case set_current_weekly_quota_cycle (qc_ID c) db2 of
                    Inl e \<Rightarrow> Inl e
                  | Inr db3 \<Rightarrow> Inr (c, False, set_next_reset (qc_EndAt c) db3))"

definition ensure_weekly_quota_cycle_tx :: "gotime \<Rightarrow> gotime \<Rightarrow> billing_db \<Rightarrow> (quota_cycle \<times> billing_db) tx" where
  \<comment> \<open>\<open>EnsureWeeklyQuotaCycle\<close>\<close>
  "ensure_weekly_quota_cycle_tx now initialResetAt db =
     (if is_zero now then Inl ErrInvalidInput
      else case ensure_weekly_quota_cycle now initialResetAt db of
             Inl e \<Rightarrow> Inl e
           | Inr (c, initialized, db') \<Rightarrow> Inr (c, db'))"

definition set_weekly_quota_next_reset :: "gotime \<Rightarrow> gotime \<Rightarrow> billing_db \<Rightarrow> (quota_cycle \<times> billing_db) tx" where
  "set_weekly_quota_next_reset now nextResetAt db =
     (if is_zero now \<or> is_zero nextResetAt then Inl ErrInvalidInput
      else if \<not> after nextResetAt now then Inl ErrInvalidInput
      else case ensure_weekly_quota_cycle now nextResetAt db of
        Inl e \<Rightarrow> Inl e
      | Inr (c, initialized, db1) \<Rightarrow>
          if qc_EndAt c = nextResetAt then Inr (c, set_next_reset nextResetAt db1)
          else
            let f = qc_EndAt_update (\<lambda>_. nextResetAt)
            in Inr (f c, set_next_reset nextResetAt (update_cycle (qc_ID c) f db1)))"

definition reset_by :: "gotime \<Rightarrow> nat \<Rightarrow> quota_cycle \<Rightarrow> quota_cycle" where
  "reset_by now actorUserID c =
     c\<lparr>qc_EndAt := now + weekly_quota_cycle_duration, qc_ResetReason := ''manual'', qc_ResetByUserID := actorUserID\<rparr>"

definition reset_weekly_quota_cycle :: "gotime \<Rightarrow> nat \<Rightarrow> billing_db \<Rightarrow> (quota_cycle \<times> billing_db) tx" where
  "reset_weekly_quota_cycle now actorUserID db =
     (if is_zero now \<or> actorUserID = 0 then Inl ErrInvalidInput
      else case ensure_weekly_quota_cycle now (now + weekly_quota_cycle_duration) db of
        Inl e \<Rightarrow> Inl e
      | Inr (c, initialized, db1) \<Rightarrow>
          if initialized \<or> qc_StartAt c = now
          then Inr (reset_by now actorUserID c,
                 set_next_reset (now + weekly_quota_cycle_duration) (update_cycle (qc_ID c) (reset_by now actorUserID) db1))
          else if \<not> after now (qc_StartAt c) \<or> \<not> after (qc_EndAt c) now then Inl ErrConflict
          else
            case create_cycle now (now + weekly_quota_cycle_duration) ''manual'' actorUserID
                   (update_cycle (qc_ID c) (qc_EndAt_update (\<lambda>_. now)) db1) of
              (c', db2) \<Rightarrow>
                (case set_current_weekly_quota_cycle (qc_ID c') db2 of
                   Inl e \<Rightarrow> Inl e
                 | Inr db3 \<Rightarrow> Inr (c', set_next_reset (qc_EndAt c') db3)))"

definition weekly_quota_cycle_for_timestamp :: "gotime \<Rightarrow> billing_db \<Rightarrow> (quota_cycle \<times> billing_db) tx" where
  \<comment> \<open>\<open>ORDER BY start_at DESC, id DESC\<close>: the last row of the list sorted by id, then by start\<close>
  "weekly_quota_cycle_for_timestamp at db =
     (if is_zero at then Inl ErrInvalidInput
      else case ensure_weekly_quota_cycle at 0 db of
        Inl e \<Rightarrow> Inl e
      | Inr (current, initialized, db1) \<Rightarrow>
          (case filter (\<lambda>c. qc_StartAt c \<le> at \<and> at < qc_EndAt c) (bd_cycles db1) of
             [] \<Rightarrow> Inl ErrConflict
           | c # cs \<Rightarrow> Inr (last (sort_key qc_StartAt (sort_key qc_ID (c # cs))), db1)))"

subsection \<open>Counters\<close>

definition get_or_create_weekly_quota_account :: "nat \<Rightarrow> nat \<Rightarrow> billing_db \<Rightarrow> (quota_account \<times> billing_db) tx" where
  "get_or_create_weekly_quota_account cycleID userID db =
     (if cycleID = 0 \<or> userID = 0 then Inl ErrInvalidInput
      else if find_cycle cycleID db = None then Inl ErrNotFound
      else case List.find (\<lambda>a. qa_CycleID a = cycleID \<and> qa_UserID a = userID) (bd_quotaAccounts db) of
             Some a \<Rightarrow> Inr (a, db)
           | None \<Rightarrow>
               let a = \<lparr>qa_ID = bd_nextID db, qa_CycleID = cycleID, qa_UserID = userID, qa_UsedNanousd = 0,
                        qa_ReservedNanousd = 0\<rparr>
               in Inr (a, db\<lparr>bd_quotaAccounts := bd_quotaAccounts db @ [a], bd_nextID := bd_nextID db + 1\<rparr>))"

definition update_quota_account :: "nat \<Rightarrow> (quota_account \<Rightarrow> quota_account) \<Rightarrow> billing_db \<Rightarrow> billing_db" where
  "update_quota_account accountID f db =
     db\<lparr>bd_quotaAccounts := map (\<lambda>a. if qa_ID a = accountID then f a else a) (bd_quotaAccounts db)\<rparr>"

definition weekly_held :: "nat \<Rightarrow> nat \<Rightarrow> gotime \<Rightarrow> billing_db \<Rightarrow> int" where
  "weekly_held cycleID userID now db =
     sum_list (map rs_WeeklyCreditNanousd
       (filter (\<lambda>r. rs_WeeklyCycleID r = cycleID) (held_reservations userID now db)))"

definition sum_weekly_quota_reserved :: "nat \<Rightarrow> nat \<Rightarrow> gotime \<Rightarrow> billing_db \<Rightarrow> int tx" where
  "sum_weekly_quota_reserved cycleID userID now db =
     (if cycleID = 0 \<or> userID = 0 then Inl ErrInvalidInput else Inr (weekly_held cycleID userID now db))"

definition sync_weekly_quota_reserved :: "nat \<Rightarrow> nat \<Rightarrow> gotime \<Rightarrow> billing_db \<Rightarrow> billing_db tx" where
  "sync_weekly_quota_reserved cycleID userID now db =
     (case get_or_create_weekly_quota_account cycleID userID db of
        Inl e \<Rightarrow> Inl e
      | Inr (a, db1) \<Rightarrow>
          (case sum_weekly_quota_reserved cycleID userID now db1 of
             Inl e \<Rightarrow> Inl e
           | Inr reserved \<Rightarrow> Inr (update_quota_account (qa_ID a) (qa_ReservedNanousd_update (\<lambda>_. reserved)) db1)))"

subsection \<open>Reserving\<close>

definition weekly_reservation :: "nat \<Rightarrow> reservation_request \<Rightarrow> nat \<Rightarrow> int \<Rightarrow> gotime \<Rightarrow> reservation" where
  "weekly_reservation rowID input cycleID requested expiresAt =
     \<lparr>rs_ID = rowID, rs_UserID = rq_UserID input, rs_RefNo = rq_RefNo input, rs_Mode = ''weekly'',
      rs_BalanceNanousd = 0, rs_PeriodCreditNanousd = 0, rs_PeriodLimitNanousd = 0,
      rs_PeriodStartAt = None, rs_PeriodEndAt = None,
      rs_WeeklyCycleID = cycleID, rs_WeeklyCreditNanousd = requested,
      rs_WeeklyLimitNanousd = rq_WeeklyCreditNanousd input, rs_Status = Active,
      rs_UsageLedgerID = 0, rs_SettledNanousd = 0, rs_SettledWeeklyCycleID = 0, rs_ExpiresAt = expiresAt,
      rs_SettledAt = None, rs_ReleasedAt = None, rs_ReconciliationAt = None, rs_FailureCode = []\<rparr>"

definition reserve_in_cycle ::
  "reservation_request \<Rightarrow> gotime \<Rightarrow> nat \<Rightarrow> int \<Rightarrow> billing_db \<Rightarrow> (reservation \<times> billing_db) tx" where
  \<comment> \<open>from the quota account of the user on\<close>
  "reserve_in_cycle input now cycleID activeCount db =
     (case get_or_create_weekly_quota_account cycleID (rq_UserID input) db of
        Inl e \<Rightarrow> Inl e
      | Inr (a, db1) \<Rightarrow>
          (case sum_weekly_quota_reserved cycleID (rq_UserID input) now db1 of
             Inl e \<Rightarrow> Inl e
           | Inr reserved \<Rightarrow>
               let db2 = update_quota_account (qa_ID a) (qa_ReservedNanousd_update (\<lambda>_. reserved)) db1;
                   available = remaining_non_negative_budget (rq_WeeklyCreditNanousd input) (qa_UsedNanousd a) reserved;
                   requested = (if rq_RequestedNanousd input \<le> 0
                                then divide_budget_across_slots available (usage_reservation_max_active_per_user - activeCount)
                                else if available < rq_RequestedNanousd input then available
                                else rq_RequestedNanousd input)
               in if requested \<le> 0 then Inl ErrWeeklyQuotaExceeded
                  else
                    let row = weekly_reservation (bd_nextID db2) input cycleID requested (now + usage_reservation_ttl);
                        db3 = db2\<lparr>bd_reservations := bd_reservations db2 @ [row], bd_nextID := bd_nextID db2 + 1\<rparr>
                    in Inr (row, update_quota_account (qa_ID a)
                         (qa_ReservedNanousd_update (\<lambda>_. add_non_negative_int64 reserved requested)) db3)))"

definition reserve_weekly_usage ::
  "gotime \<Rightarrow> reservation_request \<Rightarrow> billing_db \<Rightarrow> (reservation \<times> billing_db) tx" where
  "reserve_weekly_usage clock input db =
     (let now = (if is_zero (rq_AuthorizedAt input) then clock else rq_AuthorizedAt input)
      in case ensure_weekly_quota_cycle now 0 db of
           Inl e \<Rightarrow> Inl e
         | Inr (c, initialized, db1) \<Rightarrow>
             if find_reservation (rq_UserID input) (rq_RefNo input) db1 \<noteq> None then Inl ErrConflict
             else if legacy_reservation (rq_UserID input) (rq_RefNo input) db1 then Inl ErrConflict
             else
               let activeCount = count_active_usage_reservations (rq_UserID input) now db1
               in if usage_reservation_max_active_per_user \<le> activeCount then Inl ErrUsageReservationLimitExceeded
                  else reserve_in_cycle input now (qc_ID c) activeCount db1)"

definition reserve_usage_balance ::
  "gotime \<Rightarrow> reservation_request \<Rightarrow> billing_db \<Rightarrow> (reservation \<times> billing_db) tx" where
  "reserve_usage_balance clock req db =
     (let input = req\<lparr>rq_RefNo := trim_space (rq_RefNo req), rq_Mode := trim_space (rq_Mode req)\<rparr>
      in if rq_UserID input = 0 \<or> rq_RefNo input = [] \<or> rq_RequestedNanousd input < 0 then Inl ErrInvalidInput
         else if rq_Mode input \<notin> set [''usage'', ''period'', ''weekly''] then Inl ErrInvalidInput
         else if rq_Mode input = ''period''
                 \<and> (\<not> valid_period (rq_PeriodStartAt input) (rq_PeriodEndAt input) \<or> rq_PeriodCreditNanousd input < 0)
         then Inl ErrInvalidInput
         else if rq_Mode input = ''weekly'' then
           (if rq_WeeklyCreditNanousd input \<le> 0 then Inl ErrWeeklyQuotaExceeded
            else reserve_weekly_usage clock input db)
         else reserve_balance_tx input clock db)"

definition release_usage_balance_reservation :: "nat \<Rightarrow> string \<Rightarrow> gotime \<Rightarrow> billing_db \<Rightarrow> billing_db tx" where
  "release_usage_balance_reservation userID ref now db =
     (let refNo = trim_space ref
      in if userID = 0 \<or> refNo = [] then Inl ErrInvalidInput
         else case find_reservation userID refNo db of
           None \<Rightarrow> Inr db
         | Some r \<Rightarrow>
             if rs_Status r \<noteq> Active then Inr db
             else
               let db1 = update_reservation (rs_ID r) (\<lambda>x. x\<lparr>rs_Status := Released, rs_ReleasedAt := Some now\<rparr>) db
               in if rs_Mode r = ''weekly'' then sync_weekly_quota_reserved (rs_WeeklyCycleID r) (rs_UserID r) now db1
                  else Inr db1)"

subsection \<open>Settling\<close>

definition weekly_settled_row :: "nat \<Rightarrow> int \<Rightarrow> nat \<Rightarrow> gotime \<Rightarrow> reservation \<Rightarrow> reservation" where
  "weekly_settled_row usageLedgerID settledNanousd cycleID now r =
     r\<lparr>rs_Status := Settled, rs_UsageLedgerID := usageLedgerID, rs_SettledNanousd := settledNanousd,
       rs_SettledWeeklyCycleID := cycleID, rs_SettledAt := Some now\<rparr>"

definition settle_weekly_usage_reservation ::
  "reservation \<Rightarrow> nat \<Rightarrow> int \<Rightarrow> nat \<Rightarrow> gotime \<Rightarrow> billing_db \<Rightarrow> billing_db tx" where
  "settle_weekly_usage_reservation r usageLedgerID settledNanousd cycleID now db =
     (if usageLedgerID = 0 \<or> cycleID = 0 then Inl ErrInvalidInput
      else Inr (update_reservation (rs_ID r) (weekly_settled_row usageLedgerID settledNanousd cycleID now) db))"

definition lock_weekly_settlement_accounts ::
  "nat \<Rightarrow> nat \<Rightarrow> nat \<Rightarrow> billing_db \<Rightarrow> (quota_account \<times> quota_account \<times> billing_db) tx" where
  \<comment> \<open>the two rows are locked in the order of their cycles\<close>
  "lock_weekly_settlement_accounts originCycleID completionCycleID userID db =
     (if originCycleID = 0 \<or> completionCycleID = 0 \<or> userID = 0 then Inl ErrInvalidInput
      else if originCycleID = completionCycleID then
        (case get_or_create_weekly_quota_account originCycleID userID db of
           Inl e \<Rightarrow> Inl e | Inr (a, db') \<Rightarrow> Inr (a, a, db'))
      else
        let firstCycleID = min originCycleID completionCycleID;
            secondCycleID = max originCycleID completionCycleID
        in case get_or_create_weekly_quota_account firstCycleID userID db of
             Inl e \<Rightarrow> Inl e
           | Inr (a, db1) \<Rightarrow>
               (case get_or_create_weekly_quota_account secondCycleID userID db1 of
                  Inl e \<Rightarrow> Inl e
                | Inr (b, db2) \<Rightarrow>
                    Inr (if originCycleID = firstCycleID then (a, b, db2) else (b, a, db2))))"

definition weekly_snapshot_values ::
  "nat \<Rightarrow> nat \<Rightarrow> int \<Rightarrow> int \<Rightarrow> int \<Rightarrow> int \<Rightarrow> int \<Rightarrow> int \<Rightarrow> (string \<times> int) list" where
  "weekly_snapshot_values origin completion limit reserved usedBefore usedAfter charge overage =
     [(''weekly_origin_cycle_id'', int origin),
      (''weekly_settlement_cycle_id'', int completion),
      (''weekly_limit_nanousd'', limit),
      (''weekly_reserved_nanousd'', reserved),
      (''weekly_used_before_nanousd'', usedBefore),
      (''weekly_used_after_nanousd'', usedAfter),
      (''weekly_charged_nanousd'', charge),
      (''weekly_overage_uncharged_nanousd'', overage),
      (''weekly_balance_charged_nanousd'', 0)]"

definition settle_weekly_tx ::
  "(string \<Rightarrow> (string \<times> int) list \<Rightarrow> string) \<Rightarrow> usage_ledger \<Rightarrow> int \<Rightarrow> reservation \<Rightarrow> gotime \<Rightarrow> billing_db
   \<Rightarrow> (string \<times> billing_db) tx" where
  \<comment> \<open>from the check of the reservation on; the first result is the snapshot\<close>
  "settle_weekly_tx with_snapshot usage charge r now db =
     (if rs_WeeklyCycleID r = 0 \<or> rs_WeeklyLimitNanousd r \<le> 0 then Inl ErrConflict
      else case weekly_quota_cycle_for_timestamp (ul_BillingAt usage) db of
        Inl e \<Rightarrow> Inl e
      | Inr (completion, db1) \<Rightarrow>
          (case lock_weekly_settlement_accounts (rs_WeeklyCycleID r) (qc_ID completion) (ul_UserID usage) db1 of
             Inl e \<Rightarrow> Inl e
           | Inr (originAccount, completionAccount, db2) \<Rightarrow>
               let usedBefore = qa_UsedNanousd completionAccount;
                   usedAfter = add_non_negative_int64 usedBefore charge;
                   overage = (if rs_WeeklyLimitNanousd r < usedAfter then wrap64 (usedAfter - rs_WeeklyLimitNanousd r) else 0);
                   snapshot = with_snapshot (ul_PricingSnapshotJSON usage)
                     (weekly_snapshot_values (rs_WeeklyCycleID r) (qc_ID completion) (rs_WeeklyLimitNanousd r)
                       (rs_WeeklyCreditNanousd r) usedBefore usedAfter charge overage);
                   (ledger, db3) = create_ledger
                     (usage\<lparr>ul_BalanceAfterNanousd := None, ul_PricingSnapshotJSON := snapshot\<rparr>) db2;
                   db4 = update_quota_account (qa_ID completionAccount) (qa_UsedNanousd_update (\<lambda>_. usedAfter)) db3
               in case settle_weekly_usage_reservation r (ul_ID ledger) charge (qc_ID completion) now db4 of
                    Inl e \<Rightarrow> Inl e
                  | Inr db5 \<Rightarrow>
                      (case sync_weekly_quota_reserved (qa_CycleID originAccount) (ul_UserID usage) now db5 of
                         Inl e \<Rightarrow> Inl e
                       | Inr db6 \<Rightarrow> Inr (snapshot, db6))))"

definition weekly_usage :: "usage_ledger \<Rightarrow> usage_ledger" where
  "weekly_usage usage =
     (if ul_IsFreeModel usage then usage\<lparr>ul_BilledNanousd := 0, ul_BalanceAfterNanousd := None\<rparr> else usage)"

definition add_weekly_usage_and_settle_quota ::
  "(string \<Rightarrow> (string \<times> int) list \<Rightarrow> string) \<Rightarrow> usage_ledger \<Rightarrow> reservation option \<Rightarrow> gotime \<Rightarrow> billing_db
   \<Rightarrow> (usage_ledger \<times> billing_db) tx" where
  "add_weekly_usage_and_settle_quota with_snapshot usage0 reservation now db =
     (if ul_UserID usage0 = 0 \<or> is_zero (ul_BillingAt usage0) \<or> is_zero (ul_UsageDate usage0) then Inl ErrInvalidInput
      else
        let charge = (if ul_IsFreeModel usage0 then 0 else clamp_non_negative (ul_BilledNanousd usage0));
            usage = weekly_usage usage0
        in case usage_reservation_for_settlement (ul_UserID usage) reservation db of
             Inl e \<Rightarrow> Inl e
           | Inr (row, alreadySettled) \<Rightarrow>
               (case row of
                  None \<Rightarrow>
                    if ul_IsFreeModel usage then Inr (usage, add_usage usage db) else Inl ErrConflict
                | Some r \<Rightarrow>
                    if rs_Mode r \<noteq> ''weekly'' then Inl ErrConflict
                    else if alreadySettled then
                      (case restore_settled_usage_ledger (rs_UsageLedgerID r) db of
                         Inr restored \<Rightarrow> Inr (restored, db)
                       | Inl e \<Rightarrow>
                           if e \<noteq> ErrNotFound then Inl e
                           else Inr (usage\<lparr>ul_BilledNanousd := rs_SettledNanousd r, ul_BalanceAfterNanousd := None\<rparr>, db))
                    else case settle_weekly_tx with_snapshot usage charge r now db of
                      Inl e \<Rightarrow> Inl e
                    | Inr (snapshot, db') \<Rightarrow>
                        Inr (if snapshot \<noteq> [] then usage\<lparr>ul_PricingSnapshotJSON := snapshot\<rparr> else usage, db')))"

end
