(* ===== verification/QuotaCycles.thy ===== *)
theory QuotaCycles
  imports WeeklyQuota
begin

text \<open>
  What holds of the weekly cycles: the rows of the table form one chain without gaps or
  overlaps, the schedule points to its last row, and whatever operation asks for the current
  cycle gets the row that holds its instant.
\<close>

fun chained :: "quota_cycle list \<Rightarrow> bool" where
  "chained [] \<longleftrightarrow> True"
| "chained [c] \<longleftrightarrow> qc_StartAt c < qc_EndAt c"
| "chained (c # d # cs) \<longleftrightarrow> qc_StartAt c < qc_EndAt c \<and> qc_EndAt c = qc_StartAt d \<and> chained (d # cs)"

definition cycle_ids_ok :: "billing_db \<Rightarrow> bool" where
  "cycle_ids_ok db \<longleftrightarrow> 0 < bd_nextID db \<and> ids_below qc_ID (bd_nextID db) (bd_cycles db)
     \<and> (\<forall>c\<in>set (bd_cycles db). 0 < qc_ID c)"

definition current_cycle_id :: "billing_db \<Rightarrow> nat" where
  "current_cycle_id db = (case bd_schedule db of None \<Rightarrow> 0 | Some s \<Rightarrow> qs_CurrentCycleID s)"

definition quota_ok :: "billing_db \<Rightarrow> bool" where
  "quota_ok db \<longleftrightarrow> chained (bd_cycles db) \<and> cycle_ids_ok db
     \<and> current_cycle_id db = (if bd_cycles db = [] then 0 else qc_ID (last (bd_cycles db)))"

definition started :: "gotime \<Rightarrow> billing_db \<Rightarrow> bool" where
  "started t db \<longleftrightarrow> (bd_cycles db = [] \<or> qc_StartAt (last (bd_cycles db)) \<le> t)"

lemma chained_snoc:
  "chained (cs @ [c]) \<longleftrightarrow> chained cs \<and> (cs \<noteq> [] \<longrightarrow> qc_EndAt (last cs) = qc_StartAt c) \<and> qc_StartAt c < qc_EndAt c"
  by (induction cs rule: chained.induct) auto

lemma chained_append:
  "chained (xs @ ys) \<longleftrightarrow> chained xs \<and> chained ys \<and> (xs \<noteq> [] \<longrightarrow> ys \<noteq> [] \<longrightarrow> qc_EndAt (last xs) = qc_StartAt (hd ys))"
proof (induction ys arbitrary: xs)
  case (Cons y ys)
  then show ?case
    using Cons.IH [of "xs @ [y]"] Cons.IH [of "[y]"] by (cases ys) (auto simp: chained_snoc)
qed simp

lemma chained_less: "chained cs \<Longrightarrow> c \<in> set cs \<Longrightarrow> qc_StartAt c < qc_EndAt c"
  by (induction cs rule: chained.induct) auto

lemma chained_hd_end: "chained (c # cs) \<Longrightarrow> qc_EndAt c \<le> qc_EndAt (last (c # cs))"
  using chained_less [of "c # cs"] by (induction cs arbitrary: c) (force dest: chained_less)+

lemma chained_bounds:
  "chained cs \<Longrightarrow> c \<in> set cs \<Longrightarrow> qc_StartAt (hd cs) \<le> qc_StartAt c \<and> qc_EndAt c \<le> qc_EndAt (last cs)"
proof (induction cs rule: chained.induct)
  case (3 c' d cs)
  then show ?case using chained_hd_end [of d cs] chained_less [of "d # cs" d] by force
qed auto

text \<open>A chain tiles the time it spans.\<close>

lemma chained_tiles:
  assumes "chained cs" and "cs \<noteq> []" and "qc_StartAt (hd cs) \<le> t" and "t < qc_EndAt (last cs)"
  shows "\<exists>!c. c \<in> set cs \<and> qc_StartAt c \<le> t \<and> t < qc_EndAt c"
  using assms
proof (induction cs rule: chained.induct)
  case (3 c d cs)
  have later: "qc_EndAt c \<le> qc_StartAt x" if "x \<in> set (d # cs)" for x
    using chained_bounds [of "d # cs" x] 3(2) that by simp
  show ?case
  proof (cases "t < qc_EndAt c")
    case True
    then show ?thesis using 3 later by (intro ex1I [of _ c]) force+
  next
    case False
    then have "\<exists>!x. x \<in> set (d # cs) \<and> qc_StartAt x \<le> t \<and> t < qc_EndAt x" using 3 by simp
    then show ?thesis using False by auto
  qed
qed auto

lemma find_last_id:
  assumes "distinct (map qc_ID cs)" and "cs \<noteq> []"
  shows "List.find (\<lambda>c. qc_ID c = qc_ID (last cs)) cs = Some (last cs)"
proof -
  obtain xs x where cs: "cs = xs @ [x]" using assms(2) by (metis append_butlast_last_id)
  then have "\<forall>c\<in>set xs. qc_ID c \<noteq> qc_ID x" using assms(1) by (auto simp: image_iff)
  then have "List.find (\<lambda>c. qc_ID c = qc_ID x) (xs @ [x]) = Some x" by (induction xs) auto
  then show ?thesis by (simp add: cs)
qed

subsection \<open>Advancing\<close>

text \<open>A state in the middle of \<open>ensureWeeklyQuotaCycleForUpdate\<close>: the loop holds the last row.\<close>

definition advancing :: "quota_cycle \<Rightarrow> billing_db \<Rightarrow> bool" where
  "advancing c db \<longleftrightarrow> chained (bd_cycles db) \<and> cycle_ids_ok db \<and> bd_cycles db \<noteq> [] \<and> last (bd_cycles db) = c"

lemma week_pos [simp]: "0 < weekly_quota_cycle_duration"
  by (simp add: weekly_quota_cycle_duration_def duration_defs)

lemma create_cycle_ids:
  assumes "create_cycle s e reason actor db = (c, db')" and "cycle_ids_ok db"
  shows "cycle_ids_ok db'" "qc_ID c = bd_nextID db" "0 < qc_ID c" "bd_cycles db' = bd_cycles db @ [c]"
    "qc_StartAt c = s" "qc_EndAt c = e"
  using assms by (auto simp: create_cycle_def cycle_ids_ok_def Let_def ids_below_snoc)

lemma advance_cycles_spec:
  assumes "advance_cycles now c db = (c', db')" and "advancing c db"
  shows "advancing c' db' \<and> now < qc_EndAt c' \<and> (qc_StartAt c' \<le> max now (qc_StartAt c))
     \<and> (\<exists>cs. bd_cycles db' = bd_cycles db @ cs \<and> (cs = [] \<longleftrightarrow> c' = c) \<and> (c' = c \<longrightarrow> db' = db)
          \<and> (\<forall>x\<in>set cs. qc_EndAt x = qc_StartAt x + weekly_quota_cycle_duration))
     \<and> bd_schedule db' = bd_schedule db \<and> qc_ID c \<le> qc_ID c' \<and> (c' \<noteq> c \<longrightarrow> qc_ID c' \<noteq> qc_ID c)"
  using assms
proof (induction now c db rule: advance_cycles.induct)
  case (1 now c db)
  show ?case
  proof (cases "before now (qc_EndAt c)")
    case True
    then show ?thesis using 1(2,3) by (subst (asm) advance_cycles.simps) auto
  next
    case False
    obtain d db1 where d: "create_cycle (qc_EndAt c) (qc_EndAt c + weekly_quota_cycle_duration) ''automatic'' 0 db = (d, db1)"
      by (cases "create_cycle (qc_EndAt c) (qc_EndAt c + weekly_quota_cycle_duration) ''automatic'' 0 db")
    have run: "advance_cycles now d db1 = (c', db')"
      using 1(2) False d by (subst (asm) advance_cycles.simps) simp
    have ids: "cycle_ids_ok db" using 1(3) by (simp add: advancing_def)
    note new = create_cycle_ids [OF d ids]
    have old: "c \<in> set (bd_cycles db)" using 1(3) by (auto simp: advancing_def)
    then have id: "qc_ID c < qc_ID d" using ids new(2) by (auto simp: cycle_ids_ok_def dest: ids_below_less [of qc_ID])
    have "advancing d db1"
      using 1(3) new by (simp add: advancing_def chained_snoc)
    from 1(1) [OF False d [symmetric] run this]
    have IH: "advancing c' db'" "now < qc_EndAt c'" "qc_StartAt c' \<le> max now (qc_StartAt d)"
      "bd_schedule db' = bd_schedule db1" "qc_ID d \<le> qc_ID c'"
      and "\<exists>cs. bd_cycles db' = bd_cycles db1 @ cs \<and> (\<forall>x\<in>set cs. qc_EndAt x = qc_StartAt x + weekly_quota_cycle_duration)"
      by blast+
    then obtain cs where cs: "bd_cycles db' = bd_cycles db @ (d # cs)"
        "\<forall>x\<in>set (d # cs). qc_EndAt x = qc_StartAt x + weekly_quota_cycle_duration"
      using new by auto
    have "c' \<noteq> c" using IH(5) id by auto
    moreover have "bd_schedule db1 = bd_schedule db" using d by (auto simp: create_cycle_def Let_def)
    moreover have "qc_StartAt c' \<le> max now (qc_StartAt c)" using IH(3) False new(5) by simp
    ultimately show ?thesis
      using IH id cs by (intro conjI exI [of _ "d # cs"]) auto
  qed
qed

lemma schedule_simps [simp]:
  "bd_cycles (set_next_reset t db) = bd_cycles db"
  "bd_nextID (set_next_reset t db) = bd_nextID db"
  "current_cycle_id (set_next_reset t db) = current_cycle_id db"
  by (simp_all add: set_next_reset_def current_cycle_id_def split: option.splits)

lemma set_current_spec:
  "set_current_weekly_quota_cycle i db = Inr db' \<Longrightarrow>
     bd_cycles db' = bd_cycles db \<and> bd_nextID db' = bd_nextID db \<and> current_cycle_id db' = i"
  by (auto simp: set_current_weekly_quota_cycle_def current_cycle_id_def split: if_splits option.splits)

lemma lock_schedule_spec:
  "lock_weekly_quota_schedule db = (s, db') \<Longrightarrow>
     bd_cycles db' = bd_cycles db \<and> bd_nextID db' = bd_nextID db \<and> bd_schedule db' = Some s
     \<and> current_cycle_id db' = current_cycle_id db \<and> qs_CurrentCycleID s = current_cycle_id db"
  by (auto simp: lock_weekly_quota_schedule_def current_cycle_id_def Let_def split: option.splits)

lemma quota_ok_frame:
  "bd_cycles db' = bd_cycles db \<Longrightarrow> current_cycle_id db' = current_cycle_id db \<Longrightarrow> bd_nextID db \<le> bd_nextID db' \<Longrightarrow>
     quota_ok db \<Longrightarrow> quota_ok db'"
  by (auto simp: quota_ok_def cycle_ids_ok_def ids_below_mono)

lemma started_frame: "bd_cycles db' = bd_cycles db \<Longrightarrow> started t db' = started t db"
  by (simp add: started_def)

lemma started_later: "started t db \<Longrightarrow> t \<le> u \<Longrightarrow> started u db"
  by (auto simp: started_def)

lemma wrap64_once:
  assumes "2 ^ 63 \<le> x" and "x < 3 * 2 ^ 63"
  shows "wrap64 x = x - 2 ^ 64"
proof -
  have "(x + 2 ^ 63) mod 2 ^ 64 = x - 2 ^ 63"
    using assms by (intro int_mod_pos_eq [of _ _ 1]) simp_all
  then show ?thesis by (simp add: wrap64_def)
qed

text \<open>A first boundary is at most one cycle after the present.\<close>

lemma initial_reset_bound:
  assumes "normalize_initial_weekly_reset now t = Inr endAt"
  shows "endAt \<le> now + weekly_quota_cycle_duration"
    and "now - t < 2 ^ 63 - weekly_quota_cycle_duration \<Longrightarrow> now < endAt"
proof -
  let ?week = "weekly_quota_cycle_duration"
  have week: "?week = 604800000000000" by (simp add: weekly_quota_cycle_duration_def duration_defs)
  have bound: "t + wrap64 (wrap64 (go_div e ?week + 1) * ?week) \<le> now + ?week \<and>
      (now - t < 2 ^ 63 - ?week \<longrightarrow> now < t + wrap64 (wrap64 (go_div e ?week + 1) * ?week))"
    if "t \<le> now" "e = time_sub now t" for e
  proof -
    have e: "0 \<le> e" "e \<le> now - t" "e < 2 ^ 63" "now - t < 2 ^ 63 \<longrightarrow> e = now - t"
      using that by (auto simp: time_sub_def)
    define q where "q = e div ?week"
    have q: "q * ?week \<le> e" "e < (q + 1) * ?week" "0 \<le> q"
      using e(1) by (simp_all add: q_def week pos_imp_zdiv_nonneg_iff)
    have small: "q < 100000" using q(1) e(3) by (simp add: week)
    have steps: "wrap64 (go_div e ?week + 1) = q + 1"
      using small q e week by (simp add: go_div_nonneg q_def [symmetric] wrap64_nonneg_small)
    show ?thesis
    proof (cases "(q + 1) * ?week < 2 ^ 63")
      case True
      then show ?thesis
        unfolding steps using q e week by (auto simp: wrap64_nonneg_small algebra_simps)
    next
      case False
      have "wrap64 ((q + 1) * ?week) = (q + 1) * ?week - 2 ^ 64"
        using False q e(3) week by (intro wrap64_once) (simp_all add: algebra_simps)
      moreover have "(q + 1) * ?week \<le> e + ?week" using q by (simp add: algebra_simps)
      ultimately show ?thesis unfolding steps using False e that week by auto
    qed
  qed
  show "endAt \<le> now + ?week" and "now - t < 2 ^ 63 - ?week \<Longrightarrow> now < endAt"
    using assms bound week by (auto simp: normalize_initial_weekly_reset_def time_sub_def Let_def split: if_splits)
qed

subsection \<open>What the operations on cycles leave alone\<close>

definition only_cycles :: "billing_db \<Rightarrow> billing_db \<Rightarrow> bool" where
  "only_cycles db db' \<longleftrightarrow>
     db' = db\<lparr>bd_schedule := bd_schedule db', bd_cycles := bd_cycles db', bd_nextID := bd_nextID db'\<rparr>
     \<and> bd_nextID db \<le> bd_nextID db'"

lemma only_cyclesD:
  assumes "only_cycles db db'"
  shows "bd_accounts db' = bd_accounts db" "bd_transactions db' = bd_transactions db"
    "bd_reservations db' = bd_reservations db" "bd_ledgers db' = bd_ledgers db" "bd_orders db' = bd_orders db"
    "bd_codes db' = bd_codes db" "bd_redemptions db' = bd_redemptions db"
    "bd_subscriptions db' = bd_subscriptions db" "bd_plans db' = bd_plans db" "bd_prices db' = bd_prices db"
    "bd_quotaAccounts db' = bd_quotaAccounts db" "bd_nextID db \<le> bd_nextID db'"
proof -
  obtain s cs n where "db' = db\<lparr>bd_schedule := s, bd_cycles := cs, bd_nextID := n\<rparr>" "bd_nextID db \<le> n"
    using assms unfolding only_cycles_def by blast
  then show "bd_accounts db' = bd_accounts db" "bd_transactions db' = bd_transactions db"
    "bd_reservations db' = bd_reservations db" "bd_ledgers db' = bd_ledgers db" "bd_orders db' = bd_orders db"
    "bd_codes db' = bd_codes db" "bd_redemptions db' = bd_redemptions db"
    "bd_subscriptions db' = bd_subscriptions db" "bd_plans db' = bd_plans db" "bd_prices db' = bd_prices db"
    "bd_quotaAccounts db' = bd_quotaAccounts db" "bd_nextID db \<le> bd_nextID db'"
    by simp_all
qed

lemma only_cyclesI:
  "db' = db\<lparr>bd_schedule := s, bd_cycles := cs, bd_nextID := n\<rparr> \<Longrightarrow> bd_nextID db \<le> n \<Longrightarrow> only_cycles db db'"
  by (simp add: only_cycles_def)

lemma only_cycles_refl [simp]: "only_cycles db db"
  by (simp add: only_cycles_def)

lemma only_cycles_trans [trans]: "only_cycles db db1 \<Longrightarrow> only_cycles db1 db2 \<Longrightarrow> only_cycles db db2"
proof -
  assume a: "only_cycles db db1" "only_cycles db1 db2"
  obtain s cs n where 1: "db1 = db\<lparr>bd_schedule := s, bd_cycles := cs, bd_nextID := n\<rparr>" "bd_nextID db \<le> n"
    using a(1) unfolding only_cycles_def by blast
  obtain s' cs' n' where 2: "db2 = db1\<lparr>bd_schedule := s', bd_cycles := cs', bd_nextID := n'\<rparr>" "bd_nextID db1 \<le> n'"
    using a(2) unfolding only_cycles_def by blast
  show "only_cycles db db2" using 1 2 by (intro only_cyclesI [where s = s' and cs = cs' and n = n']) simp_all
qed

lemma cycle_steps_only:
  "only_cycles db (set_next_reset t db)"
  "set_current_weekly_quota_cycle i db = Inr db' \<Longrightarrow> only_cycles db db'"
  "only_cycles db (snd (lock_weekly_quota_schedule db))"
  "only_cycles db (snd (create_cycle b e reason actor db))"
  "only_cycles db (update_cycle i f db)"
  by (auto simp: only_cycles_def set_next_reset_def set_current_weekly_quota_cycle_def Let_def
      lock_weekly_quota_schedule_def create_cycle_def update_cycle_def split: if_splits option.splits)

lemma advance_only: "only_cycles db (snd (advance_cycles now c db))"
proof (induction now c db rule: advance_cycles.induct)
  case (1 now c db)
  show ?case
  proof (cases "before now (qc_EndAt c)")
    case True
    then show ?thesis by (subst advance_cycles.simps) simp
  next
    case False
    obtain d db1 where d: "create_cycle (qc_EndAt c) (qc_EndAt c + weekly_quota_cycle_duration) ''automatic'' 0 db = (d, db1)"
      by (cases "create_cycle (qc_EndAt c) (qc_EndAt c + weekly_quota_cycle_duration) ''automatic'' 0 db")
    then have "only_cycles db db1" using cycle_steps_only(4) [of db] by (metis snd_conv)
    also have "only_cycles db1 (snd (advance_cycles now d db1))" by (rule 1 [OF False d [symmetric]])
    finally show ?thesis using False d by (subst advance_cycles.simps) simp
  qed
qed

subsection \<open>The current cycle\<close>

definition horizon :: "gotime \<Rightarrow> gotime \<Rightarrow> billing_db \<Rightarrow> bool" where
  \<comment> \<open>the configured first boundary is less than 292 years in the past, as far as \<open>Sub\<close> counts\<close>
  "horizon now t db \<longleftrightarrow>
     bd_cycles db \<noteq> []
     \<or> now - (if t = 0 then (case bd_schedule db of
                Some s \<Rightarrow> (case qs_NextResetAt s of Some r \<Rightarrow> r | None \<Rightarrow> now) | None \<Rightarrow> now) else t)
       < 2 ^ 63 - weekly_quota_cycle_duration"

definition cycle_found :: "gotime \<Rightarrow> quota_cycle \<Rightarrow> billing_db \<Rightarrow> billing_db \<Rightarrow> bool" where
  \<comment> \<open>\<open>c\<close> is the current cycle after an operation asked for the one of \<open>now\<close>\<close>
  "cycle_found now c db db' \<longleftrightarrow>
     quota_ok db' \<and> bd_cycles db' \<noteq> [] \<and> c = last (bd_cycles db') \<and> only_cycles db db'
     \<and> (\<exists>cs. bd_cycles db' = bd_cycles db @ cs \<and> (\<forall>x\<in>set cs. qc_EndAt x = qc_StartAt x + weekly_quota_cycle_duration))
     \<and> (\<forall>u. started u db \<longrightarrow> now \<le> u \<longrightarrow> started u db')"

lemma initialize_cycle_found:
  assumes run: "initialize_cycle now t s db = Inr (c, ini, db')"
    and ok: "quota_ok db" "bd_cycles db = []"
  shows "cycle_found now c db db' \<and> ini"
    and "now - (if t = 0 then (case qs_NextResetAt s of Some r \<Rightarrow> r | None \<Rightarrow> now) else t)
           < 2 ^ 63 - weekly_quota_cycle_duration \<Longrightarrow> now < qc_EndAt c"
proof -
  define configured where "configured = (if is_zero t then (case qs_NextResetAt s of None \<Rightarrow> t | Some r \<Rightarrow> r) else t)"
  obtain endAt where e: "normalize_initial_weekly_reset now configured = Inr endAt"
    using run by (auto simp: initialize_cycle_def configured_def split: sum.splits)
  obtain db1 where d: "create_cycle (endAt - weekly_quota_cycle_duration) endAt ''initial'' 0 db = (c, db1)"
    and cur: "\<exists>db2. set_current_weekly_quota_cycle (qc_ID c) db1 = Inr db2 \<and> db' = set_next_reset (qc_EndAt c) db2" and ini
    using run e [unfolded configured_def] by (auto simp: initialize_cycle_def Let_def split: sum.splits prod.splits)
  then obtain db2 where cur: "set_current_weekly_quota_cycle (qc_ID c) db1 = Inr db2" "db' = set_next_reset (qc_EndAt c) db2"
    by blast
  note new = create_cycle_ids [OF d] and set = set_current_spec [OF cur(1)]
  have ids: "cycle_ids_ok db" using ok by (simp add: quota_ok_def)
  have "only_cycles db db1" using cycle_steps_only(4) [of db] d by (metis snd_conv)
  then have only: "only_cycles db db'"
    using cycle_steps_only(1,2) cur only_cycles_trans by blast
  have "qc_StartAt c \<le> now" using new(5) [OF ids] initial_reset_bound(1) [OF e] by simp
  then show "cycle_found now c db db' \<and> ini"
    using only new [OF ids] set cur(2) ok(2) \<open>ini\<close>
    by (auto simp: cycle_found_def quota_ok_def cycle_ids_ok_def started_def)
  assume near: "now - (if t = 0 then (case qs_NextResetAt s of Some r \<Rightarrow> r | None \<Rightarrow> now) else t)
           < 2 ^ 63 - weekly_quota_cycle_duration"
  show "now < qc_EndAt c"
  proof (cases "configured = 0")
    case True
    then show ?thesis using e new(6) [OF ids] by (auto simp: normalize_initial_weekly_reset_def)
  next
    case False
    then have "now - configured < 2 ^ 63 - weekly_quota_cycle_duration"
      using near by (auto simp: configured_def split: option.splits if_splits)
    then show ?thesis using initial_reset_bound(2) [OF e] new(6) [OF ids] by simp
  qed
qed

lemma ensure_weekly_quota_cycle_found:
  assumes run: "ensure_weekly_quota_cycle now t db = Inr (c, ini, db')" and ok: "quota_ok db"
  shows "cycle_found now c db db'" and "horizon now t db \<Longrightarrow> now < qc_EndAt c"
    and "ini \<longleftrightarrow> bd_cycles db = []"
proof -
  obtain s db1 where l: "lock_weekly_quota_schedule db = (s, db1)" by (cases "lock_weekly_quota_schedule db")
  note lock = lock_schedule_spec [OF l]
  have only1: "only_cycles db db1" using cycle_steps_only(3) [of db] l by simp
  have ok1: "quota_ok db1" using ok lock quota_ok_frame [of db1 db] by simp
  have next_reset: "qs_NextResetAt s = (case bd_schedule db of Some s \<Rightarrow> qs_NextResetAt s | None \<Rightarrow> None)"
    using l by (auto simp: lock_weekly_quota_schedule_def Let_def split: option.splits)
  have "cycle_found now c db db' \<and> (horizon now t db \<longrightarrow> now < qc_EndAt c) \<and> (ini \<longleftrightarrow> bd_cycles db = [])"
  proof (cases "bd_cycles db = []")
    case True
    then have "initialize_cycle now t s db1 = Inr (c, ini, db')"
      using run l lock ok by (auto simp: ensure_weekly_quota_cycle_def quota_ok_def)
    from initialize_cycle_found [OF this ok1] show ?thesis
      using True lock only1 next_reset only_cycles_trans [OF only1]
      by (auto simp: cycle_found_def horizon_def started_def split: option.splits)
  next
    case False
    define cur where "cur = last (bd_cycles db)"
    have ids: "cycle_ids_ok db1" "current_cycle_id db = qc_ID cur" "0 < qc_ID cur"
      using ok ok1 False by (auto simp: quota_ok_def cur_def cycle_ids_ok_def)
    have "find_cycle (qc_ID cur) db1 = Some cur"
      using ok1 find_last_id [of "bd_cycles db1"] False lock
      by (simp add: find_cycle_def quota_ok_def cycle_ids_ok_def ids_below_def cur_def)
    moreover obtain c' db2 where adv: "advance_cycles now cur db1 = (c', db2)" by (cases "advance_cycles now cur db1")
    ultimately have c: "c' = c" "\<not> ini"
      and fin: "if qc_ID c = qc_ID cur then db' = db2
                else \<exists>db3. set_current_weekly_quota_cycle (qc_ID c) db2 = Inr db3 \<and> db' = set_next_reset (qc_EndAt c) db3"
      using run l lock ids by (auto simp: ensure_weekly_quota_cycle_def split: if_splits sum.splits)
    have "advancing cur db1" using ok1 lock False by (simp add: advancing_def quota_ok_def cur_def)
    from advance_cycles_spec [OF adv this] c
    have adv': "advancing c db2" "now < qc_EndAt c" "qc_StartAt c \<le> max now (qc_StartAt cur)"
      "bd_schedule db2 = bd_schedule db1" "c \<noteq> cur \<longrightarrow> qc_ID c \<noteq> qc_ID cur" "c = cur \<longrightarrow> db2 = db1"
      and cs: "\<exists>cs. bd_cycles db2 = bd_cycles db @ cs
                 \<and> (\<forall>x\<in>set cs. qc_EndAt x = qc_StartAt x + weekly_quota_cycle_duration)"
      using lock by auto
    have only2: "only_cycles db db2"
      using only_cycles_trans [OF only1 advance_only [of db1 now cur]] adv by simp
    have "bd_cycles db' = bd_cycles db2 \<and> bd_nextID db' = bd_nextID db2 \<and> current_cycle_id db' = qc_ID c \<and> only_cycles db db'"
    proof (cases "qc_ID c = qc_ID cur")
      case True
      then have "db' = db1" "db' = db2" using fin adv'(5,6) by auto
      then show ?thesis using lock ids True only1 by simp
    next
      case False
      then obtain db3 where cur3: "set_current_weekly_quota_cycle (qc_ID c) db2 = Inr db3" "db' = set_next_reset (qc_EndAt c) db3"
        using fin by auto
      have "only_cycles db db'"
        unfolding cur3(2) using only2 cycle_steps_only(2) [OF cur3(1)] cycle_steps_only(1) only_cycles_trans by blast
      then show ?thesis using set_current_spec [OF cur3(1)] cur3(2) by simp
    qed
    then have fin': "bd_cycles db' = bd_cycles db2" "bd_nextID db' = bd_nextID db2" "current_cycle_id db' = qc_ID c"
      and only: "only_cycles db db'" by simp_all
    have "started u db'" if "started u db" "now \<le> u" for u
      using that adv' False fin' by (auto simp: started_def cur_def advancing_def)
    then show ?thesis
      using adv' fin' only cs c False by (simp add: cycle_found_def quota_ok_def advancing_def cycle_ids_ok_def)
  qed
  then show "cycle_found now c db db'" and "horizon now t db \<Longrightarrow> now < qc_EndAt c" and "ini \<longleftrightarrow> bd_cycles db = []"
    by auto
qed

lemma cycle_foundD:
  assumes "cycle_found now c db db'"
  shows "quota_ok db'" "bd_cycles db' \<noteq> []" "c = last (bd_cycles db')" "only_cycles db db'"
    "started u db \<Longrightarrow> now \<le> u \<Longrightarrow> started u db'" "c \<in> set (bd_cycles db')"
  using assms by (auto simp: cycle_found_def)

lemma update_last_cycle:
  assumes "quota_ok db" and "bd_cycles db \<noteq> []" and "c = last (bd_cycles db)"
    and "qc_ID (f c) = qc_ID c" "qc_StartAt (f c) = qc_StartAt c" "qc_StartAt c < qc_EndAt (f c)"
  shows "quota_ok (update_cycle (qc_ID c) f db)" "last (bd_cycles (update_cycle (qc_ID c) f db)) = f c"
    "bd_cycles (update_cycle (qc_ID c) f db) \<noteq> []"
    "bd_nextID (update_cycle (qc_ID c) f db) = bd_nextID db"
proof -
  obtain cs where cs: "bd_cycles db = cs @ [c]" using assms(2,3) by (metis append_butlast_last_id)
  have ids: "ids_below qc_ID (bd_nextID db) (cs @ [c])" using assms(1) cs by (simp add: quota_ok_def cycle_ids_ok_def)
  then have "\<forall>x\<in>set cs. qc_ID x \<noteq> qc_ID c" by (auto simp: ids_below_def image_iff)
  then have "map (\<lambda>x. if qc_ID x = qc_ID c then f x else x) cs = cs" by (simp add: map_idI)
  then have new: "bd_cycles (update_cycle (qc_ID c) f db) = cs @ [f c]" by (simp add: update_cycle_def cs)
  show "last (bd_cycles (update_cycle (qc_ID c) f db)) = f c"
    "bd_cycles (update_cycle (qc_ID c) f db) \<noteq> []" "bd_nextID (update_cycle (qc_ID c) f db) = bd_nextID db"
    using new by (simp_all add: update_cycle_def)
  have same: "bd_nextID (update_cycle (qc_ID c) f db) = bd_nextID db"
    "current_cycle_id (update_cycle (qc_ID c) f db) = current_cycle_id db"
    by (simp_all add: update_cycle_def current_cycle_id_def)
  have "ids_below qc_ID (bd_nextID db) (cs @ [f c])" using ids assms(4) by (simp add: ids_below_def)
  moreover have "chained (cs @ [f c])"
    using assms(1,5,6) cs by (simp add: quota_ok_def chained_snoc)
  ultimately show "quota_ok (update_cycle (qc_ID c) f db)"
    using assms(1,4) cs by (simp add: quota_ok_def cycle_ids_ok_def same new)
qed

lemma set_next_reset_keeps:
  assumes run: "set_weekly_quota_next_reset now r db = Inr (c, db')" and ok: "quota_ok db" "started now db"
  shows "quota_ok db'" "started now db'" "only_cycles db db'" "c = last (bd_cycles db')" "qc_EndAt c = r" "now < r"
    "bd_cycles db' \<noteq> []"
proof -
  obtain c0 ini db1 where e: "ensure_weekly_quota_cycle now r db = Inr (c0, ini, db1)" and r: "now < r"
    and fin: "if qc_EndAt c0 = r then c = c0 \<and> db' = set_next_reset r db1
       else c = c0\<lparr>qc_EndAt := r\<rparr> \<and> db' = set_next_reset r (update_cycle (qc_ID c0) (qc_EndAt_update (\<lambda>_. r)) db1)"
    using run by (auto simp: set_weekly_quota_next_reset_def Let_def split: if_splits sum.splits)
  note found = cycle_foundD [OF ensure_weekly_quota_cycle_found(1) [OF e ok(1)]]
  have st: "started now db1" by (rule found(5) [OF ok(2) order_refl])
  then have "qc_StartAt c0 \<le> now" using found(2,3) by (simp add: started_def)
  have "quota_ok db' \<and> started now db' \<and> only_cycles db db' \<and> c = last (bd_cycles db') \<and> qc_EndAt c = r \<and> bd_cycles db' \<noteq> []"
  proof (cases "qc_EndAt c0 = r")
    case True
    then have fin': "c = c0" "db' = set_next_reset r db1" using fin by simp_all
    then show ?thesis
      using True found(1-3) st only_cycles_trans [OF found(4) cycle_steps_only(1)]
      by (simp add: started_def quota_ok_def cycle_ids_ok_def)
  next
    case False
    define db2 where "db2 = update_cycle (qc_ID c0) (qc_EndAt_update (\<lambda>_. r)) db1"
    have fin': "c = c0\<lparr>qc_EndAt := r\<rparr>" "db' = set_next_reset r db2" using fin False by (simp_all add: db2_def)
    have upd: "quota_ok db2" "last (bd_cycles db2) = c" "bd_cycles db2 \<noteq> []"
      using update_last_cycle [OF found(1-3), of "qc_EndAt_update (\<lambda>_. r)"] fin' r \<open>qc_StartAt c0 \<le> now\<close>
      by (simp_all add: db2_def)
    have "only_cycles db db2" unfolding db2_def by (rule only_cycles_trans [OF found(4) cycle_steps_only(5)])
    then have "only_cycles db db'" unfolding fin'(2) by (rule only_cycles_trans [OF _ cycle_steps_only(1)])
    then show ?thesis
      using upd fin' \<open>qc_StartAt c0 \<le> now\<close> by (simp add: started_def quota_ok_def cycle_ids_ok_def)
  qed
  then show "quota_ok db'" "started now db'" "only_cycles db db'" "c = last (bd_cycles db')" "qc_EndAt c = r" "now < r"
    "bd_cycles db' \<noteq> []"
    using r by blast+
qed

lemma reset_now_starts:
  assumes "initialize_cycle now (now + weekly_quota_cycle_duration) s db = Inr (c, ini, db')"
    and "now + weekly_quota_cycle_duration \<noteq> 0"
  shows "qc_StartAt c = now"
proof -
  have "normalize_initial_weekly_reset now (now + weekly_quota_cycle_duration) = Inr (now + weekly_quota_cycle_duration)"
    using assms(2) by (simp add: normalize_initial_weekly_reset_def time_sub_def)
      (simp add: weekly_quota_cycle_duration_def duration_defs)
  then show ?thesis
    using assms by (auto simp: initialize_cycle_def create_cycle_def Let_def split: sum.splits)
qed

lemma reset_keeps:
  assumes run: "reset_weekly_quota_cycle now actor db = Inr (c, db')" and ok: "quota_ok db" "started now db"
  shows "quota_ok db' \<and> started now db' \<and> only_cycles db db' \<and> c = last (bd_cycles db') \<and> bd_cycles db' \<noteq> []
     \<and> qc_EndAt c = now + weekly_quota_cycle_duration"
proof -
  let ?e = "now + weekly_quota_cycle_duration"
  obtain c0 ini db1 where e: "ensure_weekly_quota_cycle now ?e db = Inr (c0, ini, db1)"
    using run by (auto simp: reset_weekly_quota_cycle_def split: if_splits sum.splits)
  note found = cycle_foundD [OF ensure_weekly_quota_cycle_found(1) [OF e ok(1)]]
  have st: "started now db1" by (rule found(5) [OF ok(2) order_refl])
  then have start: "qc_StartAt c0 \<le> now" using found(2,3) by (simp add: started_def)
  show ?thesis
  proof (cases "ini \<or> qc_StartAt c0 = now")
    case True
    then have fin: "c = reset_by now actor c0" "db' = set_next_reset ?e (update_cycle (qc_ID c0) (reset_by now actor) db1)"
      using run e by (auto simp: reset_weekly_quota_cycle_def split: if_splits)
    have less: "qc_StartAt c0 < ?e" using start week_pos by linarith
    note upd = update_last_cycle [OF found(1-3), of "reset_by now actor"]
    have "only_cycles db db'"
      unfolding fin(2) by (rule only_cycles_trans [OF only_cycles_trans [OF found(4) cycle_steps_only(5)] cycle_steps_only(1)])
    then show ?thesis
      using upd less start by (simp add: fin reset_by_def started_def quota_ok_def cycle_ids_ok_def)
  next
    case False
    then have less: "qc_StartAt c0 < now" "now < qc_EndAt c0"
      using run e by (auto simp: reset_weekly_quota_cycle_def split: if_splits)
    define db2 where "db2 = update_cycle (qc_ID c0) (qc_EndAt_update (\<lambda>_. now)) db1"
    obtain db3 db4 where d: "create_cycle now ?e ''manual'' actor db2 = (c, db3)"
      and cur: "set_current_weekly_quota_cycle (qc_ID c) db3 = Inr db4" "db' = set_next_reset (qc_EndAt c) db4"
      using run e False less
      by (auto simp: reset_weekly_quota_cycle_def db2_def Let_def split: if_splits sum.splits prod.splits)
    have upd: "quota_ok db2" "last (bd_cycles db2) = c0\<lparr>qc_EndAt := now\<rparr>" "bd_cycles db2 \<noteq> []"
      using update_last_cycle [OF found(1-3), of "qc_EndAt_update (\<lambda>_. now)"] less by (simp_all add: db2_def)
    have ids: "cycle_ids_ok db2" using upd(1) by (simp add: quota_ok_def)
    note new = create_cycle_ids [OF d ids] and set = set_current_spec [OF cur(1)]
    have "only_cycles db db2" unfolding db2_def by (rule only_cycles_trans [OF found(4) cycle_steps_only(5)])
    also have "only_cycles db2 db3" using cycle_steps_only(4) [of db2] d by (metis snd_conv)
    also have "only_cycles db3 db4" by (rule cycle_steps_only(2) [OF cur(1)])
    also have "only_cycles db4 db'" unfolding cur(2) by (rule cycle_steps_only(1))
    finally have "only_cycles db db'" .
    moreover have "quota_ok db'"
      using upd new set cur(2) by (simp add: quota_ok_def chained_snoc cycle_ids_ok_def)
    ultimately show ?thesis using new set cur(2) by (simp add: started_def)
  qed
qed

lemma cycle_for_timestamp_found:
  assumes run: "weekly_quota_cycle_for_timestamp at db = Inr (c, db')" and ok: "quota_ok db"
  shows "\<exists>c'. cycle_found at c' db db'" "c \<in> set (bd_cycles db')" "qc_StartAt c \<le> at" "at < qc_EndAt c"
proof -
  obtain c' ini where e: "ensure_weekly_quota_cycle at 0 db = Inr (c', ini, db')"
    and hit: "\<exists>x xs. filter (\<lambda>c. qc_StartAt c \<le> at \<and> at < qc_EndAt c) (bd_cycles db') = x # xs
      \<and> c = last (sort_key qc_StartAt (sort_key qc_ID (x # xs)))"
    using run by (auto simp: weekly_quota_cycle_for_timestamp_def simp del: sort_key_simps
        split: if_splits sum.splits list.splits)
  then have "c \<in> set (filter (\<lambda>c. qc_StartAt c \<le> at \<and> at < qc_EndAt c) (bd_cycles db'))"
    using last_in_set [of "sort_key qc_StartAt (sort_key qc_ID (filter (\<lambda>c. qc_StartAt c \<le> at \<and> at < qc_EndAt c) (bd_cycles db')))"]
    by (metis length_0_conv length_sort list.distinct(1) set_sort)
  then show "\<exists>c'. cycle_found at c' db db'" "c \<in> set (bd_cycles db')" "qc_StartAt c \<le> at" "at < qc_EndAt c"
    using ensure_weekly_quota_cycle_found(1) [OF e ok] by auto
qed

end
