(* ===== verification/Budgets.thy ===== *)
theory Budgets
  imports QuotaCycles
begin

text \<open>
  What a reservation promises: after a call was let in, all budgets held for its user fit into
  what the user has, in each of the three modes.
\<close>

subsection \<open>The arithmetic of budgets\<close>

lemma clamp_simps: "clamp_non_negative x = max 0 x"
  by (simp add: clamp_non_negative_def)

lemma remaining_budget:
  "0 \<le> remaining_non_negative_budget limit consumed reserved"
  "0 < remaining_non_negative_budget limit consumed reserved \<Longrightarrow>
     remaining_non_negative_budget limit consumed reserved + consumed + reserved \<le> limit"
  by (auto simp: remaining_non_negative_budget_def clamp_non_negative_def Let_def split: if_splits)

lemma add_non_negative: "0 \<le> a \<Longrightarrow> 0 \<le> b \<Longrightarrow> add_non_negative_int64 a b = min (2 ^ 63 - 1) (a + b)"
  by (auto simp: add_non_negative_int64_def)

lemma divide_budget:
  assumes "0 < slots"
  shows "0 \<le> divide_budget_across_slots a slots" "0 \<le> a \<Longrightarrow> divide_budget_across_slots a slots \<le> a"
    "0 < a \<Longrightarrow> 0 < divide_budget_across_slots a slots"
proof -
  have 1: "0 \<le> a div slots + (if a mod slots \<noteq> 0 then 1 else 0)
      \<and> a div slots + (if a mod slots \<noteq> 0 then 1 else 0) \<le> a \<and> 0 < a div slots + (if a mod slots \<noteq> 0 then 1 else 0)"
    if "0 < a"
  proof -
    define q r where "q = a div slots" and "r = a mod slots"
    have a: "a = q * slots + r" and r: "0 \<le> r" "r < slots" and q: "0 \<le> q"
      using assms that by (simp_all add: q_def r_def pos_imp_zdiv_nonneg_iff)
    have "q * 1 \<le> q * slots" using q assms by (intro mult_left_mono) simp_all
    then have "q + (if r \<noteq> 0 then 1 else 0) \<le> a" using a r by simp
    moreover have "0 < q + (if r \<noteq> 0 then 1 else 0)" using a r q that by (cases "q = 0") simp_all
    ultimately show ?thesis using q by (simp flip: q_def r_def)
  qed
  show "0 \<le> divide_budget_across_slots a slots" "0 \<le> a \<Longrightarrow> divide_budget_across_slots a slots \<le> a"
    "0 < a \<Longrightarrow> 0 < divide_budget_across_slots a slots"
    using 1 assms by (auto simp: divide_budget_across_slots_def go_div_nonneg go_mod_nonneg Let_def)
qed

subsection \<open>Frames\<close>

text \<open>A guarded result is read off its guards.\<close>

lemma guarded_result:
  "((if b then Inl e else f) = (Inr y :: 'a + 'b)) = (\<not> b \<and> f = Inr y)"
  by (cases b) simp_all

lemma find_append: "List.find P (xs @ ys) = (case List.find P xs of None \<Rightarrow> List.find P ys | Some x \<Rightarrow> Some x)"
  by (induction xs) auto

lemma get_account_spec:
  assumes "get_or_create_billing_account userID db = Inr (a, db')"
  shows "find_account userID db' = Some a" "userID \<noteq> 0"
    "bd_reservations db' = bd_reservations db" "bd_ledgers db' = bd_ledgers db"
    "bd_transactions db' = bd_transactions db" "bd_nextID db \<le> bd_nextID db'"
  using assms
  by (auto simp: get_or_create_billing_account_def find_account_def find_append new_account_def Let_def
      split: if_splits option.splits)

lemma held_snoc:
  "held_reservations userID now (db\<lparr>bd_reservations := bd_reservations db @ [r], bd_nextID := n\<rparr>)
     = held_reservations userID now db @ (if rs_UserID r = userID \<and> holds_budget now r then [r] else [])"
  by (simp add: held_reservations_def)

lemma held_cong: "bd_reservations db' = bd_reservations db \<Longrightarrow> held_reservations u t db' = held_reservations u t db"
  by (simp add: held_reservations_def)

lemma billable_cong: "bd_ledgers db' = bd_ledgers db \<Longrightarrow> sum_billable_nanousd u s e db' = sum_billable_nanousd u s e db"
  by (simp add: sum_billable_nanousd_def)

text \<open>The books of a user at an instant: all that is held fits.\<close>

definition balance_covered :: "nat \<Rightarrow> gotime \<Rightarrow> billing_db \<Rightarrow> bool" where
  "balance_covered userID now db \<longleftrightarrow>
     (case find_account userID db of
        None \<Rightarrow> False
      | Some a \<Rightarrow> sum_active_balance_reservations userID now db \<le> ac_BalanceNanousd a)"

definition period_covered :: "nat \<Rightarrow> gotime \<Rightarrow> gotime \<Rightarrow> int \<Rightarrow> gotime \<Rightarrow> billing_db \<Rightarrow> bool" where
  "period_covered userID s e limit now db \<longleftrightarrow>
     sum_billable_nanousd userID s e db + sum_active_period_credit_reservations userID s e 0 now db \<le> limit"

definition weekly_covered :: "nat \<Rightarrow> nat \<Rightarrow> int \<Rightarrow> gotime \<Rightarrow> billing_db \<Rightarrow> bool" where
  "weekly_covered userID cycleID limit now db \<longleftrightarrow>
     (\<exists>a\<in>set (bd_quotaAccounts db). qa_CycleID a = cycleID \<and> qa_UserID a = userID
        \<and> qa_UsedNanousd a + weekly_held cycleID userID now db \<le> limit)"

definition budget_granted :: "reservation_request \<Rightarrow> gotime \<Rightarrow> reservation \<Rightarrow> billing_db \<Rightarrow> bool" where
  "budget_granted input now row db \<longleftrightarrow>
     row \<in> set (held_reservations (rq_UserID input) now db) \<and> rs_RefNo row = rq_RefNo input \<and> rs_Mode row = rq_Mode input
     \<and> count_active_usage_reservations (rq_UserID input) now db \<le> 5
     \<and> 0 \<le> rs_BalanceNanousd row \<and> 0 \<le> rs_PeriodCreditNanousd row \<and> 0 \<le> rs_WeeklyCreditNanousd row
     \<and> 0 < rs_BalanceNanousd row + rs_PeriodCreditNanousd row + rs_WeeklyCreditNanousd row
     \<and> (0 < rs_BalanceNanousd row \<longrightarrow> balance_covered (rq_UserID input) now db)
     \<and> (0 < rs_PeriodCreditNanousd row \<longrightarrow>
          (case (rq_PeriodStartAt input, rq_PeriodEndAt input) of
             (Some s, Some e) \<Rightarrow> period_covered (rq_UserID input) s e (rq_PeriodCreditNanousd input) now db
           | _ \<Rightarrow> False))
     \<and> (0 < rs_WeeklyCreditNanousd row \<longrightarrow>
          weekly_covered (rq_UserID input) (rs_WeeklyCycleID row) (rq_WeeklyCreditNanousd input) now db)"

lemma ttl_pos [simp]: "0 < usage_reservation_ttl"
  by (simp add: usage_reservation_ttl_def duration_defs)

lemma available_credit_bounds:
  "0 \<le> available_credit input now db"
  "0 < available_credit input now db \<Longrightarrow>
     (case (rq_PeriodStartAt input, rq_PeriodEndAt input) of
        (Some s, Some e) \<Rightarrow> sum_billable_nanousd (rq_UserID input) s e db
           + sum_active_period_credit_reservations (rq_UserID input) s e 0 now db + available_credit input now db
           \<le> rq_PeriodCreditNanousd input
      | _ \<Rightarrow> False)"
  using remaining_budget by (auto simp: available_credit_def ac_simps split: option.splits if_splits)

lemma reserve_balance_granted:
  assumes run: "reserve_balance_tx input now db = Inr (row, db')"
  shows "budget_granted input now row db' \<and> bd_transactions db' = bd_transactions db"
proof -
  let ?u = "rq_UserID input"
  obtain a db1 where acc: "get_or_create_billing_account ?u db = Inr (a, db1)"
    using run by (auto simp: reserve_balance_tx_def split: sum.splits)
  note acc_spec = get_account_spec [OF acc]
  define active where "active = count_active_usage_reservations ?u now db1"
  define bal where "bal = remaining_non_negative_budget (ac_BalanceNanousd a) (sum_active_balance_reservations ?u now db1) 0"
  define cred where "cred = available_credit input now db1"
  define avail where "avail = add_non_negative_int64 cred bal"
  define req where "req = (if rq_RequestedNanousd input \<le> 0
      then divide_budget_across_slots avail (usage_reservation_max_active_per_user - active) else rq_RequestedNanousd input)"
  define r where "r = new_reservation (bd_nextID db1) input (req - min_int64 req cred) (min_int64 req cred) (now + usage_reservation_ttl)"
  have guards: "\<not> usage_reservation_max_active_per_user \<le> active" "\<not> (req \<le> 0 \<or> avail < req)" and row: "r = row"
    and db: "db1\<lparr>bd_reservations := bd_reservations db1 @ [r], bd_nextID := bd_nextID db1 + 1\<rparr> = db'"
    using run [unfolded reserve_balance_tx_def acc sum.case prod.case Let_def,
        folded active_def bal_def cred_def, folded avail_def, folded req_def, folded r_def]
    unfolding guarded_result sum.inject prod.inject by blast+
  have active: "active < 5" using guards(1) by (simp only: usage_reservation_max_active_per_user_def not_le)
  have req: "0 < req" "req \<le> avail" using guards(2) by linarith+
  note db' = db [symmetric]
  have nonneg: "0 \<le> cred" "0 \<le> bal" using available_credit_bounds(1) remaining_budget(1) by (simp_all add: cred_def bal_def)
  have avail: "avail \<le> cred + bal" using nonneg by (simp add: avail_def add_non_negative)
  have r_simps: "rs_UserID r = ?u" "holds_budget now r" "rs_BalanceNanousd r = req - min req cred"
    "rs_PeriodCreditNanousd r = min req cred" "rs_WeeklyCreditNanousd r = 0" "rs_RefNo r = rq_RefNo input"
    "rs_Mode r = rq_Mode input" "rs_PeriodStartAt r = rq_PeriodStartAt input" "rs_PeriodEndAt r = rq_PeriodEndAt input"
    by (simp_all add: r_def new_reservation_def holds_budget_def min_int64_def)
  have held: "held_reservations ?u now db' = held_reservations ?u now db1 @ [r]"
    unfolding db' held_snoc by (simp add: r_simps)
  have find: "find_account ?u db' = Some a" using acc_spec(1) by (simp add: find_account_def db')
  have bill: "sum_billable_nanousd u s e db' = sum_billable_nanousd u s e db1" for u s e
    unfolding db' by (rule billable_cong) simp
  have bal_ok: "balance_covered ?u now db'" if "0 < req - min req cred"
  proof -
    have "0 < bal" "req - min req cred \<le> bal" using that req avail by auto
    then have "req - min req cred + sum_active_balance_reservations ?u now db1 \<le> ac_BalanceNanousd a"
      using remaining_budget(2) [of "ac_BalanceNanousd a" "sum_active_balance_reservations ?u now db1" 0]
      by (simp flip: bal_def)
    then show ?thesis by (simp add: balance_covered_def find sum_active_balance_reservations_def held r_simps)
  qed
  have per_ok: "case (rq_PeriodStartAt input, rq_PeriodEndAt input) of
      (Some s, Some e) \<Rightarrow> period_covered ?u s e (rq_PeriodCreditNanousd input) now db' | _ \<Rightarrow> False"
    if "0 < min req cred"
  proof -
    have "0 < cred" using that by simp
    from available_credit_bounds(2) [OF this [unfolded cred_def], folded cred_def]
    show ?thesis
      using that bill
      by (auto simp: period_covered_def sum_active_period_credit_reservations_def held r_simps split: option.splits)
  qed
  have moved: "bd_transactions db' = bd_transactions db" using acc_spec(5) unfolding db' by simp
  have five: "count_active_usage_reservations ?u now db' \<le> 5"
    using active unfolding active_def count_active_usage_reservations_def held by simp
  have "budget_granted input now r db'"
    unfolding budget_granted_def r_simps held
    using active req bal_ok per_ok nonneg five by simp
  then show ?thesis using moved unfolding row by simp
qed

lemma quota_account_spec:
  assumes "get_or_create_weekly_quota_account cycleID userID db = Inr (a, db')"
  shows "a \<in> set (bd_quotaAccounts db')" "qa_CycleID a = cycleID" "qa_UserID a = userID"
    "bd_reservations db' = bd_reservations db" "bd_transactions db' = bd_transactions db"
    "bd_accounts db' = bd_accounts db" "bd_ledgers db' = bd_ledgers db"
  using assms by (auto simp: get_or_create_weekly_quota_account_def Let_def find_Some_iff
      split: if_splits option.splits)

lemma reserve_in_cycle_granted:
  assumes run: "reserve_in_cycle input now cycleID active db = Inr (row, db')"
    and active: "active = count_active_usage_reservations (rq_UserID input) now db" "active < 5"
    and mode: "rq_Mode input = ''weekly''"
  shows "budget_granted input now row db' \<and> bd_transactions db' = bd_transactions db \<and> bd_accounts db' = bd_accounts db"
proof -
  let ?u = "rq_UserID input"
  obtain a db1 where acc: "get_or_create_weekly_quota_account cycleID ?u db = Inr (a, db1)"
    using run by (auto simp: reserve_in_cycle_def split: sum.splits)
  note acc_spec = quota_account_spec [OF acc]
  define held0 where "held0 = weekly_held cycleID ?u now db1"
  have reserved: "sum_weekly_quota_reserved cycleID ?u now db1 = Inr held0"
    using acc by (simp add: sum_weekly_quota_reserved_def held0_def get_or_create_weekly_quota_account_def split: if_splits)
  define avail where "avail = remaining_non_negative_budget (rq_WeeklyCreditNanousd input) (qa_UsedNanousd a) held0"
  define req where "req = (if rq_RequestedNanousd input \<le> 0
      then divide_budget_across_slots avail (usage_reservation_max_active_per_user - active)
      else if avail < rq_RequestedNanousd input then avail else rq_RequestedNanousd input)"
  define r where "r = weekly_reservation
      (bd_nextID (update_quota_account (qa_ID a) (qa_ReservedNanousd_update (\<lambda>_. held0)) db1)) input cycleID req (now + usage_reservation_ttl)"
  have req: "0 < req" and row: "row = r"
    and res: "bd_reservations db' = bd_reservations db @ [r]" "bd_transactions db' = bd_transactions db"
      "bd_accounts db' = bd_accounts db"
    and quota: "bd_quotaAccounts db' = map (\<lambda>x. if qa_ID x = qa_ID a
        then x\<lparr>qa_ReservedNanousd := add_non_negative_int64 held0 req\<rparr> else x) (bd_quotaAccounts db1)"
    using run [unfolded reserve_in_cycle_def acc sum.case prod.case reserved Let_def,
        folded avail_def, folded req_def, folded r_def] acc_spec
    by (auto simp: update_quota_account_def comp_def split: if_splits)
  have "req \<le> avail"
    using divide_budget(2) [of "5 - active" avail] remaining_budget(1) active(2)
    by (auto simp: req_def avail_def usage_reservation_max_active_per_user_def)
  then have fits: "req + qa_UsedNanousd a + held0 \<le> rq_WeeklyCreditNanousd input"
    using remaining_budget(2) [of "rq_WeeklyCreditNanousd input" "qa_UsedNanousd a" held0] req by (simp flip: avail_def)
  have r_simps: "rs_UserID r = ?u" "holds_budget now r" "rs_BalanceNanousd r = 0" "rs_PeriodCreditNanousd r = 0"
    "rs_WeeklyCreditNanousd r = req" "rs_RefNo r = rq_RefNo input" "rs_Mode r = ''weekly''" "rs_WeeklyCycleID r = cycleID"
    by (simp_all add: r_def weekly_reservation_def holds_budget_def)
  have held: "held_reservations ?u now db' = held_reservations ?u now db @ [r]"
    by (simp add: held_reservations_def res r_simps)
  have held1: "held0 = weekly_held cycleID ?u now db"
    unfolding held0_def weekly_held_def held_cong [OF acc_spec(4)] by (rule refl)
  have "weekly_covered ?u cycleID (rq_WeeklyCreditNanousd input) now db'"
    unfolding weekly_covered_def
  proof (intro bexI conjI)
    show "a\<lparr>qa_ReservedNanousd := add_non_negative_int64 held0 req\<rparr> \<in> set (bd_quotaAccounts db')"
      unfolding quota using acc_spec(1) by force
  qed (use fits held1 acc_spec in \<open>simp_all add: weekly_held_def held r_simps\<close>)
  then show ?thesis
    using req active mode res
    by (simp add: budget_granted_def row held r_simps count_active_usage_reservations_def)
qed

definition budget_time :: "gotime \<Rightarrow> reservation_request \<Rightarrow> gotime" where
  "budget_time clock input =
     (if rq_Mode input = ''weekly'' \<and> rq_AuthorizedAt input \<noteq> 0 then rq_AuthorizedAt input else clock)"

lemma reserve_weekly_granted:
  assumes run: "reserve_weekly_usage clock input db = Inr (row, db')" and mode: "rq_Mode input = ''weekly''"
    and ok: "quota_ok db"
  shows "budget_granted input (budget_time clock input) row db' \<and> bd_transactions db' = bd_transactions db
     \<and> bd_accounts db' = bd_accounts db"
proof -
  let ?t = "budget_time clock input"
  have t: "?t = (if is_zero (rq_AuthorizedAt input) then clock else rq_AuthorizedAt input)"
    by (simp add: budget_time_def mode)
  obtain c ini db1 where e: "ensure_weekly_quota_cycle ?t 0 db = Inr (c, ini, db1)"
    and active: "count_active_usage_reservations (rq_UserID input) ?t db1 < 5"
    and fin: "reserve_in_cycle input ?t (qc_ID c) (count_active_usage_reservations (rq_UserID input) ?t db1) db1 = Inr (row, db')"
    using run unfolding reserve_weekly_usage_def t [symmetric] Let_def
    by (auto simp: usage_reservation_max_active_per_user_def split: if_splits sum.splits)
  from reserve_in_cycle_granted [OF fin refl active mode]
  show ?thesis
    using only_cyclesD(1,2) [OF cycle_foundD(4) [OF ensure_weekly_quota_cycle_found(1) [OF e ok]]] by simp
qed

text \<open>
  C12: A reservation never promises what the user does not have. When a call is let in, then at
  that instant the user holds at most five budgets, the new one is positive, and every source it
  draws on covers all budgets held against it: the balance the held parts of the balance, the
  credit of the period what was used in the period and what is held of it, the weekly limit what
  was used in the current week and what is held of it. Reserving moves no money.
\<close>

theorem reservation_within_budget:
  assumes "reserve_usage_balance clock req db = Inr (row, db')" and "quota_ok db"
    and "input = req\<lparr>rq_RefNo := trim_space (rq_RefNo req), rq_Mode := trim_space (rq_Mode req)\<rparr>"
  shows "budget_granted input (budget_time clock input) row db' \<and> bd_transactions db' = bd_transactions db"
proof (cases "rq_Mode input = ''weekly''")
  case True
  then have "reserve_weekly_usage clock input db = Inr (row, db')"
    using assms by (simp add: reserve_usage_balance_def Let_def split: if_splits)
  from reserve_weekly_granted [OF this True assms(2)] show ?thesis by simp
next
  case False
  then have "reserve_balance_tx input clock db = Inr (row, db')"
    using assms by (simp add: reserve_usage_balance_def Let_def split: if_splits)
  from reserve_balance_granted [OF this] show ?thesis using False by (simp add: budget_time_def)
qed

definition small_db :: billing_db where
  "small_db = empty_db
     \<lparr>bd_accounts := [\<lparr>ac_ID = 1, ac_UserID = 7, ac_Currency = ''USD'', ac_BalanceNanousd = 100, ac_Status = ''active''\<rparr>],
      bd_nextID := 2\<rparr>"

definition small_request :: reservation_request where
  "small_request = \<lparr>rq_UserID = 7, rq_RefNo = ''run'', rq_Mode = ''usage'', rq_RequestedNanousd = 40, rq_AuthorizedAt = 0,
     rq_PeriodStartAt = None, rq_PeriodEndAt = None, rq_PeriodCreditNanousd = 0, rq_WeeklyCreditNanousd = 0\<rparr>"

lemma small_trim: "trim_space ''run'' = ''run''" "trim_space ''usage'' = ''usage''"
  by (rule trim_space_plain; simp)+

theorem reservation_within_budget_witness:
  "\<exists>row db'. reserve_usage_balance 1 small_request small_db = Inr (row, db') \<and> rs_BalanceNanousd row = 40
     \<and> budget_granted small_request 1 row db' \<and> bd_transactions db' = []"
proof -
  obtain row db' where run: "reserve_usage_balance 1 small_request small_db = Inr (row, db')" and row: "rs_BalanceNanousd row = 40"
    by (simp add: small_db_def empty_db_def small_request_def reserve_usage_balance_def small_trim reserve_balance_tx_def
        get_or_create_billing_account_def find_account_def find_reservation_def legacy_reservation_def
        count_active_usage_reservations_def held_reservations_def usage_reservation_max_active_per_user_def
        remaining_non_negative_budget_def clamp_non_negative_def sum_active_balance_reservations_def
        available_credit_def add_non_negative_int64_def min_int64_def new_reservation_def Let_def)
  have ok: "quota_ok small_db" by (simp add: quota_ok_def cycle_ids_ok_def ids_below_def current_cycle_id_def small_db_def empty_db_def)
  have "small_request = small_request\<lparr>rq_RefNo := trim_space (rq_RefNo small_request), rq_Mode := trim_space (rq_Mode small_request)\<rparr>"
    by (simp add: small_request_def small_trim)
  from reservation_within_budget [OF run ok this]
  show ?thesis using run row by (auto simp: budget_time_def small_request_def small_db_def empty_db_def)
qed

end
