(* ===== verification/Calendar.thy ===== *)
theory Calendar
  imports GoText
begin

text \<open>
  The civil calendar of package \<open>time\<close>, as far as billing uses it (\<open>Date\<close>, \<open>time.Date\<close> with its
  normalisation, \<open>AddDate\<close>), and the months and cycles of \<open>domain/billing/quota.go\<close> and
  \<open>application/billing/service.go\<close>. The zero time is midnight of 1 January of year 1; the location is
  UTC. A month is also an index, twelve times the year plus the month from 0, and the lemmas
  count days by it. Years are unbounded.
\<close>

subsection \<open>Days\<close>

definition day :: duration where "day = 24 * hour"

definition is_leap :: "int \<Rightarrow> bool" where
  "is_leap y \<longleftrightarrow> y mod 4 = 0 \<and> (y mod 100 \<noteq> 0 \<or> y mod 400 = 0)"

definition month_days :: "int \<Rightarrow> int \<Rightarrow> int" where
  "month_days y m =
     (if m = 2 then (if is_leap y then 29 else 28)
      else if m \<in> set [4, 6, 9, 11] then 30 else 31)"

definition days_before_year :: "int \<Rightarrow> int" where
  "days_before_year y = 365 * (y - 1) + (y - 1) div 4 - (y - 1) div 100 + (y - 1) div 400"

definition days_before_month :: "int \<Rightarrow> int \<Rightarrow> int" where
  "days_before_month y m = sum_list (map (month_days y) [1..m - 1])"

definition day_number :: "int \<Rightarrow> int \<Rightarrow> int \<Rightarrow> int" where
  "day_number y m d = days_before_year y + days_before_month y m + d - 1"

lemma div_pred:
  fixes y n :: int
  assumes "0 < n"
  shows "y div n = (y - 1) div n + (if y mod n = 0 then 1 else 0)"
proof (cases "y mod n = 0")
  case True
  then obtain q where q: "y = n * q" by (auto simp: mod_eq_0_iff_dvd)
  have "(n * q - 1) div n = (n - 1 + n * (q - 1)) div n" by (simp add: algebra_simps)
  also have "\<dots> = q - 1" using assms by (subst div_mult_self2) simp_all
  finally show ?thesis using True assms q by simp
next
  case False
  define q r where "q = y div n" and "r = y mod n"
  have "y = n * q + r" by (simp add: q_def r_def)
  moreover have "0 < r" "r < n"
    using False pos_mod_sign [OF assms, of y] pos_mod_bound [OF assms, of y] by (simp_all add: r_def)
  ultimately have "(y - 1) div n = q"
    using assms by (intro int_div_pos_eq [of _ _ q "r - 1"]) auto
  then show ?thesis using False by (simp add: q_def)
qed

lemma mod_of_multiple:
  fixes y :: int
  shows "y mod (n * k) = 0 \<Longrightarrow> y mod n = 0"
  by (auto simp: mod_eq_0_iff_dvd elim: dvd_mult_left)

lemma days_before_year_step:
  "days_before_year (y + 1) = days_before_year y + (if is_leap y then 366 else 365)"
proof -
  have leap: "y mod 100 = 0" if "y mod 400 = 0"
    using mod_of_multiple [of y 100 4] that by simp
  have leap': "y mod 4 = 0" if "y mod 100 = 0"
    using mod_of_multiple [of y 4 25] that by simp
  define a b c :: int where "a = (if y mod 4 = 0 then 1 else 0)"
    and "b = (if y mod 100 = 0 then 1 else 0)" and "c = (if y mod 400 = 0 then 1 else 0)"
  have "y div 4 = (y - 1) div 4 + a" "y div 100 = (y - 1) div 100 + b" "y div 400 = (y - 1) div 400 + c"
    unfolding a_def b_def c_def by (rule div_pred, simp)+
  moreover have "365 * y + x - u + v = 365 * (y - 1) + p - q + r + 365 + a - b + c"
    if "x = p + a" "u = q + b" "v = r + c" for x u v p q r using that by simp
  ultimately have "days_before_year (y + 1) = days_before_year y + 365 + a - b + c"
    unfolding days_before_year_def add_diff_cancel_right' by blast
  also have "\<dots> = days_before_year y + (if is_leap y then 366 else 365)"
    using leap leap' unfolding is_leap_def a_def b_def c_def
    by (cases "y mod 4 = 0"; cases "y mod 100 = 0"; cases "y mod 400 = 0") (simp_all only:, simp_all)
  finally show ?thesis .
qed

function year_from :: "int \<Rightarrow> int \<Rightarrow> int" where
  \<comment> \<open>the first year from \<open>y\<close> on that has not ended before day \<open>n\<close>\<close>
  "year_from n y = (if days_before_year (y + 1) \<le> n then year_from n (y + 1) else y)"
  by pat_completeness auto
termination
  by (relation "measure (\<lambda>(n, y). nat (n - days_before_year y))") (auto simp: days_before_year_step split: if_splits)

declare year_from.simps [simp del]

definition year_of_day :: "int \<Rightarrow> int" where
  "year_of_day n = year_from n (if 0 \<le> n then n div 366 + 1 else n div 365)"

fun month_in :: "int \<Rightarrow> int list \<Rightarrow> int \<Rightarrow> int \<times> int" where
  "month_in y [] r = (12, r + 1)"
| "month_in y (m # ms) r = (if r < month_days y m then (m, r + 1) else month_in y ms (r - month_days y m))"

definition civil_of :: "int \<Rightarrow> int \<times> int \<times> int" where
  "civil_of n = (let y = year_of_day n in (y, month_in y [1..12] (n - days_before_year y)))"

subsection \<open>Instants\<close>

definition date_of :: "gotime \<Rightarrow> int \<times> int \<times> int" where
  "date_of t = civil_of (t div day)"

definition clock_of :: "gotime \<Rightarrow> duration" where
  "clock_of t = t mod day"

definition time_date :: "int \<Rightarrow> int \<Rightarrow> int \<Rightarrow> duration \<Rightarrow> gotime" where
  \<comment> \<open>\<open>time.Date\<close>: months outside 1..12 and days outside the month carry over\<close>
  "time_date y m d clock = day_number (y + (m - 1) div 12) ((m - 1) mod 12 + 1) d * day + clock"

definition add_date :: "gotime \<Rightarrow> int \<Rightarrow> int \<Rightarrow> int \<Rightarrow> gotime" where
  "add_date t years months days =
     (case date_of t of (y, m, d) \<Rightarrow> time_date (y + years) (m + months) (d + days) (clock_of t))"

definition day_of_month :: "gotime \<Rightarrow> int" where
  "day_of_month t = (case date_of t of (y, m, d) \<Rightarrow> d)"

subsection \<open>Months by index\<close>

definition month_start :: "int \<Rightarrow> int" where
  "month_start k = day_number (k div 12) (k mod 12 + 1) 1"

definition month_length :: "int \<Rightarrow> int" where
  "month_length k = month_days (k div 12) (k mod 12 + 1)"

lemma days_before_month_step: "1 \<le> m \<Longrightarrow> days_before_month y (m + 1) = days_before_month y m + month_days y m"
  by (simp add: days_before_month_def upto_rec2 [of 1 m])

lemma days_of_year: "days_before_month y 12 + month_days y 12 = (if is_leap y then 366 else 365)"
  by (simp add: days_before_month_def month_days_def upto_rec1)

lemma month_index:
  fixes y m :: int
  assumes "0 \<le> m" and "m < 12"
  shows "(12 * y + m) div 12 = y" "(12 * y + m) mod 12 = m"
  using assms by (simp_all add: int_div_pos_eq int_mod_pos_eq)

lemma month_start_index:
  assumes "0 \<le> m" and "m < 12"
  shows "month_start (12 * y + m) = day_number y (m + 1) 1" "month_length (12 * y + m) = month_days y (m + 1)"
  unfolding month_start_def month_length_def month_index [OF assms] by simp_all

lemma month_start_step: "month_start (k + 1) = month_start k + month_length k"
proof -
  define y m where "y = k div 12" and "m = k mod 12"
  have k: "k = 12 * y + m" and m: "0 \<le> m" "m < 12" by (simp_all add: y_def m_def)
  show ?thesis
  proof (cases "m = 11")
    case True
    then have "month_start (k + 1) = day_number (y + 1) 1 1"
      using k month_start_index(1) [of 0 "y + 1"] by (simp add: algebra_simps)
    then show ?thesis
      unfolding k month_start_index [OF m]
      using True days_before_year_step [of y] days_of_year [of y]
      by (simp add: day_number_def days_before_month_def)
  next
    case False
    then have "month_start (k + 1) = day_number y (m + 2) 1"
      using k m month_start_index(1) [of "m + 1" y] by (simp add: add.assoc)
    then show ?thesis
      unfolding k month_start_index [OF m]
      using m days_before_month_step [of "m + 1" y] by (simp add: day_number_def add.assoc)
  qed
qed

lemma month_length_bounds: "28 \<le> month_length k" "month_length k \<le> 31"
  by (simp_all add: month_length_def month_days_def)

lemma month_start_less: "k < k' \<Longrightarrow> month_start k + month_length k \<le> month_start k'"
proof (induction "nat (k' - k)" arbitrary: k')
  case 0
  then show ?case by simp
next
  case (Suc n)
  show ?case
  proof (cases "k' = k + 1")
    case True
    then show ?thesis by (simp add: month_start_step)
  next
    case False
    then have "month_start k + month_length k \<le> month_start (k' - 1)" using Suc by (intro Suc.hyps) auto
    then show ?thesis using month_start_step [of "k' - 1"] month_length_bounds(1) [of "k' - 1"] by simp
  qed
qed

definition in_month :: "int \<Rightarrow> int \<Rightarrow> bool" where
  "in_month k n \<longleftrightarrow> month_start k \<le> n \<and> n < month_start k + month_length k"

lemma in_month_unique: "in_month k n \<Longrightarrow> in_month k' n \<Longrightarrow> k = k'"
  using month_start_less [of k k'] month_start_less [of k' k] unfolding in_month_def by (cases k k' rule: linorder_cases) auto

lemma month_in_spec:
  assumes "month_in y [m..12] r = (m', d)" and "1 \<le> m" "m \<le> 12"
    and "0 \<le> r" and "r < sum_list (map (month_days y) [m..12])"
  shows "m \<le> m' \<and> m' \<le> 12 \<and> 1 \<le> d \<and> d \<le> month_days y m'
     \<and> days_before_month y m + r = days_before_month y m' + d - 1"
  using assms
proof (induction "nat (12 - m)" arbitrary: m r)
  case 0
  then have "m = 12" by simp
  then show ?case using 0 by (auto split: if_splits)
next
  case (Suc n)
  have up: "[m..12] = m # [m + 1..12]" using Suc.prems by (simp add: upto_rec1)
  show ?case
  proof (cases "r < month_days y m")
    case True
    then show ?thesis using Suc.prems by (auto simp: up)
  next
    case False
    then have "month_in y [m + 1..12] (r - month_days y m) = (m', d)" using Suc.prems by (simp add: up)
    moreover have "m \<noteq> 12" using Suc by auto
    ultimately have "m + 1 \<le> m' \<and> m' \<le> 12 \<and> 1 \<le> d \<and> d \<le> month_days y m'
        \<and> days_before_month y (m + 1) + (r - month_days y m) = days_before_month y m' + d - 1"
      using Suc.prems Suc.hyps(2) False by (intro Suc.hyps(1)) (auto simp: up)
    then show ?thesis using Suc.prems days_before_month_step [of m y] by auto
  qed
qed

lemma year_from_spec:
  "days_before_year y \<le> n \<Longrightarrow>
     days_before_year (year_from n y) \<le> n \<and> n < days_before_year (year_from n y + 1)"
  by (induction n y rule: year_from.induct) (subst (1 2) year_from.simps, auto)

lemma leap_days_nonneg:
  fixes q :: int
  assumes "0 \<le> q"
  shows "q div 4 - q div 100 + q div 400 \<le> q"
proof -
  have "q div 400 \<le> q div 100" "q div 4 \<le> q div 1"
    using assms by (intro zdiv_mono2; simp)+
  then show ?thesis by simp
qed

lemma leap_days_neg:
  fixes q :: int
  assumes "q < 0"
  shows "q div 4 - q div 100 + q div 400 \<le> 0"
proof -
  have "q div 4 \<le> q div 100" using assms by (intro zdiv_mono2_neg) simp_all
  moreover have "q div 400 < 0" using assms by (simp add: neg_imp_zdiv_neg_iff)
  ultimately show ?thesis by simp
qed

lemma year_of_day_spec: "days_before_year (year_of_day n) \<le> n" "n < days_before_year (year_of_day n + 1)"
proof -
  have "days_before_year (q + 1) \<le> n" if "0 \<le> n" "q = n div 366" for q
  proof -
    have "366 * q \<le> n" "0 \<le> q" using that by (simp_all add: pos_imp_zdiv_nonneg_iff)
    then show ?thesis using leap_days_nonneg [of q] by (simp add: days_before_year_def)
  qed
  moreover have "days_before_year q \<le> n" if "\<not> 0 \<le> n" "q = n div 365" for q
  proof -
    have "365 * q \<le> n" "q < 0" using that by (simp_all add: neg_imp_zdiv_neg_iff)
    then show ?thesis using leap_days_neg [of "q - 1"] by (simp add: days_before_year_def)
  qed
  ultimately have "days_before_year (if 0 \<le> n then n div 366 + 1 else n div 365) \<le> n" by auto
  from year_from_spec [OF this]
  show "days_before_year (year_of_day n) \<le> n" "n < days_before_year (year_of_day n + 1)"
    by (simp_all add: year_of_day_def)
qed

lemma civil_of_spec:
  assumes "civil_of n = (y, m, d)"
  shows "1 \<le> m" "m \<le> 12" "1 \<le> d" "d \<le> month_days y m" "day_number y m d = n"
proof -
  have y: "y = year_of_day n" and m: "month_in y [1..12] (n - days_before_year y) = (m, d)"
    using assms by (auto simp: civil_of_def Let_def)
  have "sum_list (map (month_days y) [1..12]) = (if is_leap y then 366 else 365)"
    by (simp add: month_days_def upto_rec1)
  then have "0 \<le> n - days_before_year y" "n - days_before_year y < sum_list (map (month_days y) [1..12])"
    using year_of_day_spec [of n] days_before_year_step [of y] y by auto
  from month_in_spec [OF m _ _ this]
  show "1 \<le> m" "m \<le> 12" "1 \<le> d" "d \<le> month_days y m" "day_number y m d = n"
    by (auto simp: day_number_def days_before_month_def)
qed

subsection \<open>Dates by month and day\<close>

definition month_of :: "gotime \<Rightarrow> int" where
  "month_of t = (case date_of t of (y, m, d) \<Rightarrow> 12 * y + (m - 1))"

lemma in_month_day_number:
  assumes "1 \<le> m" "m \<le> 12" "1 \<le> d" "d \<le> month_days y m"
  shows "in_month (12 * y + (m - 1)) (day_number y m d)"
    and "day_number y m d = month_start (12 * y + (m - 1)) + d - 1"
proof -
  have m: "0 \<le> m - 1" "m - 1 < 12" using assms by simp_all
  show "in_month (12 * y + (m - 1)) (day_number y m d)"
    and "day_number y m d = month_start (12 * y + (m - 1)) + d - 1"
    unfolding in_month_def month_start_index [OF m] using assms by (simp_all add: day_number_def)
qed

lemma date_of_month:
  shows "in_month (month_of t) (t div day)"
    and "day_of_month t = t div day - month_start (month_of t) + 1"
proof -
  obtain y m d where t: "date_of t = (y, m, d)" by (cases "date_of t") auto
  note spec = civil_of_spec [OF t [unfolded date_of_def]]
  show "in_month (month_of t) (t div day)" "day_of_month t = t div day - month_start (month_of t) + 1"
    using in_month_day_number [OF spec(1-4)] spec(5) by (simp_all add: month_of_def day_of_month_def t)
qed

lemma month_of_unique: "in_month k (t div day) \<Longrightarrow> month_of t = k"
  using in_month_unique date_of_month(1) by blast

lemma day_of_month_bounds: "1 \<le> day_of_month t" "day_of_month t \<le> month_length (month_of t)"
  using date_of_month [of t] by (simp_all add: in_month_def)

lemma day_pos [simp]: "0 < day"
  by (simp add: day_def duration_defs)

lemma clock_of_bounds: "0 \<le> clock_of t" "clock_of t < day"
  by (simp_all add: clock_of_def)

lemma instant_eq: "t = (month_start (month_of t) + day_of_month t - 1) * day + clock_of t"
  by (simp add: date_of_month(2) clock_of_def)

lemma time_date_month: "time_date y m d c = (month_start (12 * y + (m - 1)) + d - 1) * day + c"
proof -
  have "(12 * y + (m - 1)) div 12 = y + (m - 1) div 12" "(12 * y + (m - 1)) mod 12 = (m - 1) mod 12"
    by simp_all
  then show ?thesis by (simp add: time_date_def month_start_def day_number_def)
qed

text \<open>Day \<open>d\<close> of month \<open>k\<close> at a time of the day, and what can be read off it.\<close>

definition instant :: "int \<Rightarrow> int \<Rightarrow> duration \<Rightarrow> gotime" where
  "instant k d c = (month_start k + d - 1) * day + c"

lemma instant_facts:
  assumes "1 \<le> d" "d \<le> month_length k" "0 \<le> c" "c < day"
  shows "month_of (instant k d c) = k" "day_of_month (instant k d c) = d" "clock_of (instant k d c) = c"
proof -
  have n: "instant k d c div day = month_start k + d - 1" "instant k d c mod day = c"
    using assms by (simp_all add: instant_def div_pos_pos_trivial)
  then show k: "month_of (instant k d c) = k"
    using assms by (intro month_of_unique) (simp add: in_month_def)
  show "day_of_month (instant k d c) = d" "clock_of (instant k d c) = c"
    using n k by (simp_all add: date_of_month(2) clock_of_def)
qed

lemma instant_less:
  assumes "k < k'" "d \<le> month_length k" "1 \<le> d'" "0 \<le> c'" "c < day"
  shows "instant k d c < instant k' d' c'"
proof -
  have "month_start k + d - 1 + 1 \<le> month_start k' + d' - 1"
    using month_start_less [OF assms(1)] assms by simp
  then have "(month_start k + d - 1 + 1) * day \<le> (month_start k' + d' - 1) * day"
    by (rule mult_right_mono) (simp add: less_imp_le)
  then show ?thesis using assms by (simp add: instant_def algebra_simps)
qed

lemma date_of_instant: "t = instant (month_of t) (day_of_month t) (clock_of t)"
  using instant_eq by (simp add: instant_def)

lemma month_of_date: "date_of t = (y, m, d) \<Longrightarrow> month_of t = 12 * y + (m - 1) \<and> day_of_month t = d"
  by (simp add: month_of_def day_of_month_def)

subsection \<open>The end of a redeemed subscription\<close>

definition add_calendar_months_clamped :: "gotime \<Rightarrow> int \<Rightarrow> gotime" where
  "add_calendar_months_clamped start months =
     (case date_of start of (y, m, d) \<Rightarrow>
        let targetMonth = time_date y (m + months) 1 (clock_of start);
            lastDay = day_of_month (add_date targetMonth 0 1 (- 1));
            d' = (if lastDay < d then lastDay else d)
        in case date_of targetMonth of (ty, tm, td) \<Rightarrow> time_date ty tm d' (clock_of start))"

definition resolve_redemption_end :: "gotime \<Rightarrow> string \<Rightarrow> int \<Rightarrow> int \<Rightarrow> gotime option" where
  \<comment> \<open>\<open>None\<close> is \<open>ErrInvalidRedemptionDuration\<close>\<close>
  "resolve_redemption_end start unit count legacyDays =
     (if is_zero start then None
      else if trim_space unit = ''month'' then
        (if count \<le> 0 then None
         else let endAt = add_calendar_months_clamped start count
              in if \<not> after endAt start then None else Some endAt)
      else if trim_space unit = [] then
        (if legacyDays \<le> 0 then None
         else let endAt = start + wrap64 (legacyDays * 24 * hour)
              in if \<not> after endAt start then None else Some endAt)
      else None)"

lemma add_calendar_months_instant:
  "add_calendar_months_clamped start n =
     instant (month_of start + n) (min (day_of_month start) (month_length (month_of start + n))) (clock_of start)"
proof -
  define k' where "k' = month_of start + n"
  obtain y m d where s: "date_of start = (y, m, d)" by (cases "date_of start") auto
  have k': "12 * y + (m + n - 1) = k'" and d: "day_of_month start = d"
    using month_of_date [OF s] by (simp_all add: k'_def)
  define target where "target = time_date y (m + n) 1 (clock_of start)"
  have target: "target = instant k' 1 (clock_of start)"
    using time_date_month [of y "m + n" 1] k' by (simp add: target_def instant_def)
  have facts: "month_of target = k'" "day_of_month target = 1" "clock_of target = clock_of start"
    unfolding target using month_length_bounds(1) [of k'] clock_of_bounds [of start]
    by (simp_all add: instant_facts)
  obtain ty tm td where t: "date_of target = (ty, tm, td)" by (cases "date_of target") auto
  have ty: "12 * ty + (tm - 1) = k'" "td = 1" using month_of_date [OF t] facts by simp_all
  have "add_date target 0 1 (- 1) = instant k' (month_length k') (clock_of start)"
    using time_date_month [of ty "tm + 1" "0"] ty month_start_step [of k'] facts
    by (simp add: add_date_def t instant_def algebra_simps)
  then have "day_of_month (add_date target 0 1 (- 1)) = month_length k'"
    using month_length_bounds(1) [of k'] clock_of_bounds [of start] by (simp add: instant_facts)
  then show ?thesis
    using time_date_month [of ty tm] ty
    by (simp add: add_calendar_months_clamped_def s t d instant_def min_def Let_def flip: target_def k'_def)
qed

text \<open>
  A redeemed subscription runs by the calendar. For a code that counts in months the end
  always exists, lies after the start, exactly that many months later, on the same day of the
  month or on the last day of a month that is too short, at the same time of the day.
\<close>

theorem redeemed_months_follow_the_calendar:
  assumes "start \<noteq> 0" and "trim_space unit = ''month''" and "0 < count"
  shows "\<exists>endAt. resolve_redemption_end start unit count legacyDays = Some endAt
     \<and> start < endAt \<and> month_of endAt = month_of start + count
     \<and> day_of_month endAt = min (day_of_month start) (month_length (month_of endAt))
     \<and> clock_of endAt = clock_of start"
proof -
  define k' d' where "k' = month_of start + count" and "d' = min (day_of_month start) (month_length k')"
  have d': "1 \<le> d'" "d' \<le> month_length k'"
    using day_of_month_bounds(1) [of start] month_length_bounds(1) [of k'] by (simp_all add: d'_def)
  have "start < instant k' d' (clock_of start)"
    using instant_less [of "month_of start" k' "day_of_month start" d' "clock_of start" "clock_of start"]
      assms(3) d' day_of_month_bounds(2) [of start] clock_of_bounds [of start]
    by (simp add: k'_def flip: date_of_instant)
  then show ?thesis
    using assms instant_facts [OF d' clock_of_bounds [of start]]
    by (simp add: resolve_redemption_end_def add_calendar_months_instant k'_def d'_def Let_def)
qed

theorem redeemed_months_follow_the_calendar_witness:
  "(1 :: gotime) \<noteq> 0 \<and> trim_space ''month'' = ''month''
   \<and> (\<exists>endAt. resolve_redemption_end 1 ''month'' 13 0 = Some endAt
     \<and> 1 < endAt \<and> month_of endAt = month_of 1 + 13
     \<and> day_of_month endAt = min (day_of_month 1) (month_length (month_of endAt))
     \<and> clock_of endAt = clock_of 1)"
  using redeemed_months_follow_the_calendar [of 1 "''month''" 13 0]
  by (simp add: trim_space_plain)

subsection \<open>Cycles anchored at a day of the month\<close>

definition floor_div :: "int \<Rightarrow> int \<Rightarrow> int" where
  "floor_div v divisor =
     (let result = go_div v divisor
      in if go_mod v divisor \<noteq> 0 \<and> v < 0 then result - 1 else result)"

definition floor_mod :: "int \<Rightarrow> int \<Rightarrow> int" where
  "floor_mod v divisor =
     (let result = go_mod v divisor in if result < 0 then result + divisor else result)"

definition last_day_of_month :: "int \<Rightarrow> int \<Rightarrow> int" where
  "last_day_of_month y m = day_of_month (time_date y (m + 1) 0 0)"

definition add_anchored_months :: "gotime \<Rightarrow> int \<Rightarrow> gotime" where
  "add_anchored_months anchor monthOffset =
     (case date_of anchor of (y, m, d) \<Rightarrow>
        let monthIndex = m - 1 + monthOffset;
            year = y + floor_div monthIndex 12;
            month = floor_mod monthIndex 12 + 1;
            lastDay = last_day_of_month year month;
            d' = (if lastDay < d then lastDay else d)
        in time_date year month d' 0)"

definition midnight :: "gotime \<Rightarrow> gotime" where
  \<comment> \<open>\<open>time.Date(t.Year(), t.Month(), t.Day(), 0, 0, 0, 0, location)\<close>\<close>
  "midnight t = (case date_of t of (y, m, d) \<Rightarrow> time_date y m d 0)"

lemma floor_12: "floor_div v 12 = v div 12" "floor_mod v 12 = v mod 12"
proof -
  show "floor_div v 12 = v div 12"
  proof (cases "0 \<le> v")
    case True
    then show ?thesis by (simp add: floor_div_def go_div_nonneg)
  next
    case False
    define w where "w = - v"
    have "go_div v 12 = - (w div 12)" "go_mod v 12 = - (w mod 12)"
      using False by (simp_all add: w_def go_div_def go_mod_def signed_divide_int_def signed_modulo_int_def
          sgn_if minus_div_mult_eq_mod)
    moreover have "v div 12 = - (w div 12) - (if w mod 12 = 0 then 0 else 1)"
      using zdiv_zminus1_eq_if [of 12 w] by (auto simp: w_def)
    ultimately show ?thesis using False by (simp add: floor_div_def Let_def)
  qed
  show "floor_mod v 12 = v mod 12"
  proof (cases "0 \<le> v")
    case True
    then show ?thesis using pos_mod_sign [of 12 v] by (simp add: floor_mod_def go_mod_nonneg Let_def)
  next
    case False
    define w where "w = - v"
    have "go_mod v 12 = - (w mod 12)"
      using False by (simp add: w_def go_mod_def signed_divide_int_def signed_modulo_int_def
          sgn_if minus_div_mult_eq_mod)
    moreover have "v mod 12 = (if w mod 12 = 0 then 0 else 12 - w mod 12)"
      using zmod_zminus1_eq_if [of w 12] by (auto simp: w_def)
    ultimately show ?thesis
      using pos_mod_sign [of 12 w] by (cases "w mod 12 = 0") (auto simp: floor_mod_def Let_def)
  qed
qed

lemma last_day_of_month_index: "0 \<le> m \<Longrightarrow> m < 12 \<Longrightarrow> last_day_of_month y (m + 1) = month_length (12 * y + m)"
proof -
  assume m: "0 \<le> m" "m < 12"
  define k where "k = 12 * y + m"
  have "time_date y (m + 1 + 1) 0 0 = instant k (month_length k) 0"
    using time_date_month [of y "m + 1 + 1" 0 0] month_start_step [of k]
    by (simp add: k_def instant_def algebra_simps)
  then show ?thesis
    using month_length_bounds(1) [of k] by (simp add: last_day_of_month_def instant_facts flip: k_def)
qed

lemma add_anchored_instant:
  "add_anchored_months anchor i =
     instant (month_of anchor + i) (min (day_of_month anchor) (month_length (month_of anchor + i))) 0"
proof -
  obtain y m d where a: "date_of anchor = (y, m, d)" by (cases "date_of anchor") auto
  define v where "v = m - 1 + i"
  have v: "12 * (y + v div 12) + v mod 12 = month_of anchor + i"
    using month_of_date [OF a] by (simp add: v_def algebra_simps)
  have len: "last_day_of_month (y + v div 12) (v mod 12 + 1) = month_length (month_of anchor + i)"
    using last_day_of_month_index [of "v mod 12" "y + v div 12"] unfolding v by simp
  have "time_date (y + v div 12) (v mod 12 + 1) d' 0 = instant (month_of anchor + i) d' 0" for d'
    using time_date_month [of "y + v div 12" "v mod 12 + 1" d' 0]
    unfolding instant_def v [symmetric] by simp
  then show ?thesis
    using month_of_date [OF a]
    by (simp add: add_anchored_months_def a floor_12 len min_def Let_def flip: v_def)
qed

lemma add_anchored_mono: "i < j \<Longrightarrow> add_anchored_months anchor i < add_anchored_months anchor j"
  using day_of_month_bounds(1) [of anchor] month_length_bounds(1)
  unfolding add_anchored_instant by (intro instant_less) (simp_all add: order_trans [of 1 28])

lemma midnight_instant: "midnight t = instant (month_of t) (day_of_month t) 0"
proof -
  obtain y m d where t: "date_of t = (y, m, d)" by (cases "date_of t") auto
  then show ?thesis
    using month_of_date [OF t] time_date_month [of y m d 0] by (simp add: midnight_def instant_def)
qed

lemma midnight_le: "midnight t \<le> t" "t < midnight t + day"
  using date_of_instant [of t] clock_of_bounds [of t] by (simp_all add: midnight_instant instant_def)

lemma midnight_facts: "month_of (midnight t) = month_of t" "day_of_month (midnight t) = day_of_month t"
  using instant_facts [OF day_of_month_bounds, of 0 t] by (simp_all add: midnight_instant)

function anchored_loop :: "gotime \<Rightarrow> gotime \<Rightarrow> int \<Rightarrow> gotime \<times> gotime" where
  \<comment> \<open>the loop with its start and its end, which are the anchored months of the offset and the next\<close>
  "anchored_loop today anchorDay monthOffset =
     (let endAt = add_anchored_months anchorDay (monthOffset + 1)
      in if before today endAt then (add_anchored_months anchorDay monthOffset, endAt)
         else anchored_loop today anchorDay (monthOffset + 1))"
  by pat_completeness auto
termination
proof (relation "measure (\<lambda>(today, anchorDay, i). nat (today + 1 - add_anchored_months anchorDay (i + 1)))")
  fix today anchorDay i endAt
  assume "endAt = add_anchored_months anchorDay (i + 1)" and "\<not> before today endAt"
  then show "((today, anchorDay, i + 1), today, anchorDay, i)
      \<in> measure (\<lambda>(today, anchorDay, i). nat (today + 1 - add_anchored_months anchorDay (i + 1)))"
    using add_anchored_mono [of "i + 1" "i + 2" anchorDay] by (simp add: add.assoc)
qed simp

declare anchored_loop.simps [simp del]

definition resolve_anchored_monthly_cycle :: "gotime \<Rightarrow> gotime \<Rightarrow> gotime \<Rightarrow> gotime \<times> gotime" where
  "resolve_anchored_monthly_cycle clock anchor0 now0 =
     (let now = (if is_zero now0 then clock else now0);
          anchor = (if is_zero anchor0 then now else anchor0);
          anchorDay = midnight anchor;
          today = midnight now
      in case (date_of today, date_of anchorDay) of ((ty, tm, td), (ay, am, ad)) \<Rightarrow>
           let monthOffset = (ty - ay) * 12 + tm - am;
               start = add_anchored_months anchorDay monthOffset
           in anchored_loop today anchorDay (if before today start then monthOffset - 1 else monthOffset))"

lemma anchored_loop_eq:
  "today < add_anchored_months anchorDay (i + 1) \<Longrightarrow>
     anchored_loop today anchorDay i = (add_anchored_months anchorDay i, add_anchored_months anchorDay (i + 1))"
  by (subst anchored_loop.simps) (simp add: Let_def)

lemma resolve_anchored_cycle_index:
  assumes "now \<noteq> 0" and "anchor \<noteq> 0"
  obtains i where "resolve_anchored_monthly_cycle clock anchor now =
      (add_anchored_months (midnight anchor) i, add_anchored_months (midnight anchor) (i + 1))"
    "add_anchored_months (midnight anchor) i \<le> midnight now"
    "midnight now < add_anchored_months (midnight anchor) (i + 1)"
proof -
  let ?A = "add_anchored_months (midnight anchor)"
  define off where "off = month_of now - month_of anchor"
  obtain ty tm td ay am ad where d: "date_of (midnight now) = (ty, tm, td)" "date_of (midnight anchor) = (ay, am, ad)"
    by (cases "date_of (midnight now)", cases "date_of (midnight anchor)") auto
  have off: "(ty - ay) * 12 + tm - am = off"
    using month_of_date [OF d(1)] month_of_date [OF d(2)] midnight_facts by (simp add: off_def algebra_simps)
  define i where "i = (if midnight now < ?A off then off - 1 else off)"
  have next_month: "midnight now < ?A (off + 1)"
    unfolding midnight_instant [of now] add_anchored_instant midnight_facts off_def
    using day_of_month_bounds [of now] day_of_month_bounds(1) [of anchor] month_length_bounds(1)
    by (intro instant_less) (simp_all add: order_trans [of 1 28])
  have last_month: "?A (off - 1) \<le> midnight now"
    unfolding midnight_instant [of now] add_anchored_instant midnight_facts off_def
    using day_of_month_bounds [of now] by (intro less_imp_le [OF instant_less]) simp_all
  have "?A i \<le> midnight now" "midnight now < ?A (i + 1)"
    using next_month last_month by (simp_all add: i_def)
  moreover have "resolve_anchored_monthly_cycle clock anchor now = anchored_loop (midnight now) (midnight anchor) i"
    unfolding i_def off [symmetric] using assms by (simp add: resolve_anchored_monthly_cycle_def d Let_def)
  then have "resolve_anchored_monthly_cycle clock anchor now = (?A i, ?A (i + 1))"
    using anchored_loop_eq [OF calculation(2)] by simp
  ultimately show thesis by (intro that)
qed

lemma midnight_before_instant: "d \<le> month_length k \<Longrightarrow> 1 \<le> d \<Longrightarrow> midnight t < instant k d 0 \<longleftrightarrow> t < instant k d 0"
proof -
  define n where "n = month_start (month_of t) + day_of_month t - 1"
  define n' where "n' = month_start k + d - 1"
  have "midnight t = n * day" "t = n * day + clock_of t" "instant k d 0 = n' * day"
    using midnight_instant [of t] date_of_instant [of t] by (simp_all add: instant_def n_def n'_def)
  moreover have "n * day + c < n' * day \<longleftrightarrow> n < n'" if "0 \<le> c" "c < day" for c
  proof
    assume "n * day + c < n' * day"
    then have "n * day < n' * day" using that by linarith
    then show "n < n'" by (simp only: mult_less_cancel_right_pos [OF day_pos])
  next
    assume "n < n'"
    then have "(n + 1) * day \<le> n' * day" by (intro mult_right_mono) (simp_all add: less_imp_le)
    then show "n * day + c < n' * day" using that by (simp add: algebra_simps)
  qed
  ultimately show ?thesis using clock_of_bounds [of t] by (metis add_0_right day_pos order_refl)
qed

text \<open>
  The billing cycle of a user contains the present and the cycles tile time. For any day of
  registration and any instant, the search ends with a cycle that has begun and has not ended;
  its bounds are the anchor moved by whole months, each in its own month, on the anchor's day or on
  the last day of a shorter month, so the next cycle begins where this one ends.
\<close>

theorem anchored_cycle_contains_now:
  assumes "now \<noteq> 0" and "anchor \<noteq> 0"
    and "resolve_anchored_monthly_cycle clock anchor now = (startAt, endAt)"
  shows "startAt \<le> now \<and> now < endAt \<and> month_of endAt = month_of startAt + 1
    \<and> clock_of startAt = 0 \<and> clock_of endAt = 0
    \<and> day_of_month startAt = min (day_of_month anchor) (month_length (month_of startAt))
    \<and> day_of_month endAt = min (day_of_month anchor) (month_length (month_of endAt))"
proof -
  obtain i where i: "startAt = add_anchored_months (midnight anchor) i"
      "endAt = add_anchored_months (midnight anchor) (i + 1)"
    and now: "startAt \<le> midnight now" "midnight now < endAt"
    using resolve_anchored_cycle_index [OF assms(1,2), of clock] assms(3) by auto
  have bound: "1 \<le> min (day_of_month anchor) (month_length k)" "min (day_of_month anchor) (month_length k) \<le> month_length k" for k
    using day_of_month_bounds(1) [of anchor] month_length_bounds(1) [of k] by simp_all
  note facts = instant_facts [OF bound order_refl day_pos]
  have "startAt \<le> now" using now(1) midnight_le(1) [of now] by simp
  moreover have "now < endAt"
    using now(2) midnight_before_instant [OF bound(2,1)]
    unfolding i(2) add_anchored_instant midnight_facts by blast
  moreover have "month_of endAt = month_of startAt + 1" "clock_of startAt = 0" "clock_of endAt = 0"
    "day_of_month startAt = min (day_of_month anchor) (month_length (month_of startAt))"
    "day_of_month endAt = min (day_of_month anchor) (month_length (month_of endAt))"
    unfolding i add_anchored_instant midnight_facts facts by simp_all
  ultimately show ?thesis by blast
qed

theorem anchored_cycle_contains_now_witness:
  "\<exists>startAt endAt. resolve_anchored_monthly_cycle 0 (30 * day) (40 * day) = (startAt, endAt)
     \<and> startAt \<le> 40 * day \<and> 40 * day < endAt \<and> month_of endAt = month_of startAt + 1
     \<and> clock_of startAt = 0 \<and> clock_of endAt = 0
     \<and> day_of_month startAt = min (day_of_month (30 * day)) (month_length (month_of startAt))
     \<and> day_of_month endAt = min (day_of_month (30 * day)) (month_length (month_of endAt))"
proof -
  obtain s e where run: "resolve_anchored_monthly_cycle 0 (30 * day) (40 * day) = (s, e)" by fastforce
  have "30 * day \<noteq> 0" "40 * day \<noteq> 0" using day_pos by linarith+
  from anchored_cycle_contains_now [OF this(2,1) run] show ?thesis using run by fast
qed

subsection \<open>Months and paid periods\<close>

definition month_bounds :: "gotime \<Rightarrow> gotime \<Rightarrow> gotime \<times> gotime" where
  "month_bounds clock now0 =
     (let now = (if is_zero now0 then clock else now0)
      in case date_of now of (y, m, d) \<Rightarrow>
           let start = time_date y m 1 0 in (start, add_date start 0 1 0))"

definition resolve_period_end :: "gotime \<Rightarrow> string \<Rightarrow> int \<Rightarrow> gotime option" where
  "resolve_period_end now interval cycles0 =
     (let cycles = (if cycles0 \<le> 0 then 1 else cycles0)
      in if interval = ''year'' then Some (add_date now cycles 0 0)
         else if interval = ''lifetime'' then None
         else Some (add_date now 0 cycles 0))"

lemma add_date_months:
  "add_date t years months 0 = instant (month_of t + 12 * years + months) (day_of_month t) (clock_of t)"
proof -
  obtain y m d where t: "date_of t = (y, m, d)" by (cases "date_of t") auto
  have k: "12 * (y + years) + (m + months - 1) = month_of t + 12 * years + months" and d: "day_of_month t = d"
    using month_of_date [OF t] by simp_all
  have "add_date t years months 0 = instant (12 * (y + years) + (m + months - 1)) d (clock_of t)"
    using time_date_month [of "y + years" "m + months" d "clock_of t"]
    by (simp only: add_date_def t prod.case instant_def add_0_right)
  then show ?thesis unfolding k d .
qed

lemma month_bounds_month:
  assumes "month_bounds clock now = (startAt, endAt)" and "now \<noteq> 0"
  shows "startAt \<le> now" "now < endAt" "month_of startAt = month_of now"
proof -
  obtain y m d where t: "date_of now = (y, m, d)" by (cases "date_of now") auto
  have start: "startAt = instant (month_of now) 1 0"
    using assms month_of_date [OF t] time_date_month [of y m 1 0] by (simp add: month_bounds_def t instant_def Let_def)
  have k: "month_of startAt = month_of now" "day_of_month startAt = 1" "clock_of startAt = 0"
    using month_length_bounds(1) [of "month_of now"] by (simp_all add: start instant_facts)
  have "endAt = add_date startAt 0 1 0" using assms by (auto simp: month_bounds_def t Let_def)
  then have "endAt = instant (month_of now + 1) 1 0" using k by (simp add: add_date_months)
  then show "now < endAt"
    using instant_less [of "month_of now" "month_of now + 1" "day_of_month now" 1 0 "clock_of now"]
      day_of_month_bounds [of now] clock_of_bounds [of now] by (simp flip: date_of_instant)
  have "(month_start (month_of now) + 1 - 1) * day \<le> (month_start (month_of now) + day_of_month now - 1) * day"
    using day_of_month_bounds(1) [of now] by (intro mult_right_mono) (simp_all add: less_imp_le)
  then show "startAt \<le> now"
    using instant_eq [of now] clock_of_bounds(1) [of now] unfolding start instant_def by linarith
  show "month_of startAt = month_of now" by (rule k)
qed

lemma resolve_period_end_after:
  assumes "resolve_period_end now interval cycles = Some endAt"
  shows "now < endAt"
proof -
  have "now < instant (month_of now + n) (day_of_month now) (clock_of now)" if "0 < n" for n
    using instant_less [of "month_of now" "month_of now + n" "day_of_month now" "day_of_month now" "clock_of now" "clock_of now"]
      that day_of_month_bounds [of now] clock_of_bounds [of now] by (simp flip: date_of_instant)
  from this [of "12 * (if cycles \<le> 0 then 1 else cycles)"] this [of "if cycles \<le> 0 then 1 else cycles"]
  show ?thesis using assms
    by (auto simp: resolve_period_end_def add_date_months Let_def split: if_splits)
qed

end
