(* ===== verification/Subscriptions.thy ===== *)
theory Subscriptions
  imports BillingData
begin

text \<open>
  Which subscription of a user counts (\<open>application/billing/service.go\<close>, from
  \<open>listSubscriptionEntitlements\<close> to \<open>subscriptionEndSortTime\<close>): the current one is the active one of the
  highest priority, it lasts until the end of the run of subscriptions to the same plan, and the
  overview lists what is and what will be active. The rows of the table are a list; a query
  of \<open>infra/persistence/postgres/billing/repository.go\<close> filters and sorts it.
\<close>

subsection \<open>Priorities\<close>

type_synonym plan_map = "nat \<Rightarrow> plan option"

definition is_free_plan_code :: "string \<Rightarrow> bool" where
  "is_free_plan_code code \<longleftrightarrow> trim_space code = ''free''"

definition subscription_plan_rank :: "plan \<Rightarrow> int" where
  "subscription_plan_rank p =
     (if is_free_plan_code (pl_Code p) then 0
      else if 0 < pl_SortOrder p then pl_SortOrder p
      else wrap64 (int (pl_ID p)))"

definition year_9999_end :: gotime where
  \<comment> \<open>\<open>time.Date(9999, 12, 31, 23, 59, 59, 0, time.UTC)\<close>\<close>
  "year_9999_end = 315537897599000000000"

definition subscription_end_sort_time :: "subscription \<Rightarrow> gotime" where
  "subscription_end_sort_time s =
     (case su_CurrentPeriodEndAt s of None \<Rightarrow> year_9999_end | Some e \<Rightarrow> e)"

definition rank_in :: "plan_map \<Rightarrow> subscription \<Rightarrow> int" where
  "rank_in plans s = subscription_plan_rank (get_or zero_plan plans (su_PlanID s))"

definition is_higher_priority_subscription :: "subscription \<Rightarrow> subscription \<Rightarrow> plan_map \<Rightarrow> bool" where
  "is_higher_priority_subscription candidate current plans =
     (let candidateRank = rank_in plans candidate;
          currentRank = rank_in plans current;
          candidateEnd = subscription_end_sort_time candidate;
          currentEnd = subscription_end_sort_time current
      in if candidateRank \<noteq> currentRank then currentRank < candidateRank
         else if candidateEnd \<noteq> currentEnd then after candidateEnd currentEnd
         else su_ID current < su_ID candidate)"

subsection \<open>Queries\<close>

text \<open>
  \<open>ORDER BY user_id, current_period_start_at, current_period_end_at NULLS LAST, id\<close>: sorting by the
  last column first, with a stable sort.
\<close>

definition end_order :: "subscription \<Rightarrow> int \<times> int" where
  "end_order s = (case su_CurrentPeriodEndAt s of None \<Rightarrow> (1, 0) | Some e \<Rightarrow> (0, e))"

definition order_by_period :: "subscription list \<Rightarrow> subscription list" where
  "order_by_period rows =
     sort_key su_CurrentPeriodStartAt
       (sort_key (\<lambda>s. fst (end_order s)) (sort_key (\<lambda>s. snd (end_order s)) (sort_key su_ID rows)))"

definition list_subscription_entitlements_by_user_ids ::
  "subscription list \<Rightarrow> nat list \<Rightarrow> gotime \<Rightarrow> subscription list" where
  "list_subscription_entitlements_by_user_ids rows userIDs now =
     (if userIDs = [] then []
      else sort_key su_UserID (order_by_period
        (filter (\<lambda>s. su_UserID s \<in> set userIDs \<and> su_Status s = ''active''
              \<and> (case su_CurrentPeriodEndAt s of None \<Rightarrow> True | Some e \<Rightarrow> now < e)) rows)))"

fun distinct_plan_ids :: "subscription list \<Rightarrow> nat list \<Rightarrow> nat list" where
  "distinct_plan_ids [] planIDs = planIDs"
| "distinct_plan_ids (item # items) planIDs =
     (if su_PlanID item = 0 \<or> su_PlanID item \<in> set planIDs then distinct_plan_ids items planIDs
      else distinct_plan_ids items (planIDs @ [su_PlanID item]))"

definition list_plans_by_ids :: "plan list \<Rightarrow> nat list \<Rightarrow> plan list" where
  "list_plans_by_ids table ids = filter (\<lambda>p. pl_ID p \<in> set ids) table"

definition plans_of :: "plan list \<Rightarrow> plan_map" where
  "plans_of items = foldl (\<lambda>m p. m(pl_ID p \<mapsto> p)) Map.empty items"

definition list_subscription_entitlements ::
  "subscription list \<Rightarrow> plan list \<Rightarrow> nat list \<Rightarrow> gotime \<Rightarrow> subscription list \<times> plan_map" where
  "list_subscription_entitlements rows table userIDs now =
     (let subscriptions = list_subscription_entitlements_by_user_ids rows userIDs now
      in (subscriptions, plans_of (list_plans_by_ids table (distinct_plan_ids subscriptions []))))"

subsection \<open>The current subscription\<close>

definition eligible :: "plan_map \<Rightarrow> gotime \<Rightarrow> subscription \<Rightarrow> bool" where
  "eligible plans now item \<longleftrightarrow>
     \<not> (su_Status item \<noteq> ''active'' \<or> after (su_CurrentPeriodStartAt item) now)
     \<and> \<not> (case su_CurrentPeriodEndAt item of None \<Rightarrow> False | Some e \<Rightarrow> \<not> after e now)
     \<and> (case plans (su_PlanID item) of None \<Rightarrow> False | Some p \<Rightarrow> pl_IsActive p)"

fun select_current_from ::
  "subscription option \<Rightarrow> subscription list \<Rightarrow> plan_map \<Rightarrow> gotime \<Rightarrow> subscription option" where
  "select_current_from result [] plans now = result"
| "select_current_from result (item # items) plans now =
     (if \<not> eligible plans now item then select_current_from result items plans now
      else case result of
             None \<Rightarrow> select_current_from (Some item) items plans now
           | Some r \<Rightarrow>
               select_current_from (Some (if is_higher_priority_subscription item r plans then item else r)) items plans now)"

definition select_current_subscription ::
  "subscription list \<Rightarrow> plan_map \<Rightarrow> gotime \<Rightarrow> subscription option" where
  "select_current_subscription subscriptions plans now = select_current_from None subscriptions plans now"

subsection \<open>The end of a run of subscriptions\<close>

definition extends_run :: "subscription \<Rightarrow> gotime \<Rightarrow> subscription \<Rightarrow> bool" where
  "extends_run current endAt item \<longleftrightarrow>
     \<not> (su_ID item = su_ID current \<or> su_PlanID item \<noteq> su_PlanID current)
     \<and> (case su_CurrentPeriodEndAt item of
          None \<Rightarrow> False
        | Some e \<Rightarrow> \<not> (after (su_CurrentPeriodStartAt item) endAt \<or> \<not> after e endAt))"

fun contiguous_pass :: "subscription \<Rightarrow> subscription list \<Rightarrow> gotime \<Rightarrow> bool \<Rightarrow> gotime \<times> bool" where
  "contiguous_pass current [] endAt extended = (endAt, extended)"
| "contiguous_pass current (item # items) endAt extended =
     (if extends_run current endAt item
      then contiguous_pass current items (the (su_CurrentPeriodEndAt item)) True
      else contiguous_pass current items endAt extended)"

definition later_ends :: "subscription list \<Rightarrow> gotime \<Rightarrow> subscription list" where
  "later_ends subs endAt =
     filter (\<lambda>s. case su_CurrentPeriodEndAt s of None \<Rightarrow> False | Some e \<Rightarrow> endAt < e) subs"

lemma contiguous_pass_later:
  "contiguous_pass current items endAt extended = (endAt', extended') \<Longrightarrow>
     endAt \<le> endAt' \<and> (extended' \<longrightarrow> extended \<or> endAt < endAt')
     \<and> (endAt < endAt' \<longrightarrow> (\<exists>s\<in>set items. su_CurrentPeriodEndAt s = Some endAt'))"
  by (induction current items endAt extended rule: contiguous_pass.induct)
    (fastforce simp: extends_run_def split: if_splits option.splits)+

lemma later_ends_less:
  assumes "contiguous_pass current subs endAt False = (endAt', True)"
  shows "length (later_ends subs endAt') < length (later_ends subs endAt)"
proof -
  have lt: "endAt < endAt'" and "\<exists>s\<in>set subs. su_CurrentPeriodEndAt s = Some endAt'"
    using contiguous_pass_later [OF assms] by auto
  then obtain s where "s \<in> set subs" "su_CurrentPeriodEndAt s = Some endAt'" by blast
  then have "s \<in> set (later_ends subs endAt)" "\<not> (case su_CurrentPeriodEndAt s of None \<Rightarrow> False | Some e \<Rightarrow> endAt' < e)"
    using lt by (simp_all add: later_ends_def)
  moreover have "later_ends subs endAt' =
      filter (\<lambda>s. case su_CurrentPeriodEndAt s of None \<Rightarrow> False | Some e \<Rightarrow> endAt' < e) (later_ends subs endAt)"
    using lt by (auto simp: later_ends_def intro!: filter_cong split: option.splits)
  ultimately show ?thesis by (metis length_filter_less)
qed

function contiguous_loop :: "subscription \<Rightarrow> subscription list \<Rightarrow> gotime \<Rightarrow> gotime" where
  "contiguous_loop current subs endAt =
     (case contiguous_pass current subs endAt False of
        (endAt', True) \<Rightarrow> contiguous_loop current subs endAt'
      | (endAt', False) \<Rightarrow> endAt')"
  by pat_completeness auto
termination
  by (relation "measure (\<lambda>(current, subs, endAt). length (later_ends subs endAt))")
    (auto dest: later_ends_less [OF sym])

declare contiguous_loop.simps [simp del]

definition contiguous_subscription_end :: "subscription \<Rightarrow> subscription list \<Rightarrow> gotime option" where
  "contiguous_subscription_end current subs =
     (case su_CurrentPeriodEndAt current of
        None \<Rightarrow> None
      | Some endAt \<Rightarrow> Some (contiguous_loop current subs endAt))"

subsection \<open>The overview\<close>

record entitlement_view =
  ev_Subscription :: subscription
  ev_Plan :: plan
  ev_IsCurrent :: bool

definition can_merge_subscription_entitlement :: "subscription \<Rightarrow> subscription \<Rightarrow> bool" where
  "can_merge_subscription_entitlement left right =
     (case su_CurrentPeriodEndAt left of
        None \<Rightarrow> False
      | Some e \<Rightarrow>
          if su_PlanID left \<noteq> su_PlanID right \<or> su_PriceID left \<noteq> su_PriceID right then False
          else \<not> after (su_CurrentPeriodStartAt right) e)"

definition subscription_ends_after :: "subscription \<Rightarrow> subscription \<Rightarrow> bool" where
  "subscription_ends_after left right =
     (case su_CurrentPeriodEndAt left of
        None \<Rightarrow> True
      | Some l \<Rightarrow> (case su_CurrentPeriodEndAt right of None \<Rightarrow> False | Some r \<Rightarrow> after l r))"

definition listed_entitlement :: "plan_map \<Rightarrow> gotime \<Rightarrow> subscription \<Rightarrow> bool" where
  "listed_entitlement plans now item \<longleftrightarrow>
     (case plans (su_PlanID item) of
        None \<Rightarrow> False
      | Some p \<Rightarrow> \<not> (trim_space (pl_Code p) = ''free'' \<or> su_Status item \<noteq> ''active''))
     \<and> \<not> (case su_CurrentPeriodEndAt item of None \<Rightarrow> False | Some e \<Rightarrow> \<not> after e now)"

definition order_entitlements :: "plan_map \<Rightarrow> subscription list \<Rightarrow> subscription list" where
  \<comment> \<open>by start, then rank downwards, then id\<close>
  "order_entitlements plans items =
     sort_key su_CurrentPeriodStartAt (sort_key (\<lambda>s. - rank_in plans s) (sort_key su_ID items))"

definition extend_view :: "entitlement_view \<Rightarrow> entitlement_view \<Rightarrow> entitlement_view" where
  "extend_view previous view =
     previous\<lparr>
       ev_Subscription :=
         (if subscription_ends_after (ev_Subscription view) (ev_Subscription previous)
          then (ev_Subscription previous)\<lparr>su_CurrentPeriodEndAt := su_CurrentPeriodEndAt (ev_Subscription view)\<rparr>
          else ev_Subscription previous),
       ev_IsCurrent := ev_IsCurrent previous \<or> ev_IsCurrent view\<rparr>"

fun merge_views :: "entitlement_view \<Rightarrow> entitlement_view list \<Rightarrow> entitlement_view list" where
  \<comment> \<open>the loop over the sorted rows; the first argument is the last result\<close>
  "merge_views previous [] = [previous]"
| "merge_views previous (view # views) =
     (if can_merge_subscription_entitlement (ev_Subscription previous) (ev_Subscription view)
      then merge_views (extend_view previous view) views
      else previous # merge_views view views)"

definition build_subscription_entitlement_views ::
  "subscription list \<Rightarrow> plan_map \<Rightarrow> gotime \<Rightarrow> entitlement_view list" where
  "build_subscription_entitlement_views subscriptions plans now =
     (let current = select_current_subscription subscriptions plans now;
          items = order_entitlements plans (filter (listed_entitlement plans now) subscriptions);
          view = (\<lambda>item. \<lparr>ev_Subscription = item, ev_Plan = get_or zero_plan plans (su_PlanID item),
                     ev_IsCurrent = (case current of None \<Rightarrow> False | Some c \<Rightarrow> su_ID item = su_ID c)\<rparr>)
      in case map view items of [] \<Rightarrow> [] | v # vs \<Rightarrow> merge_views v vs)"

record subscription_snapshot =
  ss_UserID :: nat
  ss_PlanID :: nat
  ss_PlanName :: string
  ss_Tier :: string
  ss_Status :: string
  ss_ExpiresAt :: "gotime option"
  ss_PermissionGroupID :: "nat option"

definition subscription_snapshot_of :: "nat \<Rightarrow> subscription list \<Rightarrow> plan_map \<Rightarrow> gotime \<Rightarrow> subscription_snapshot option" where
  "subscription_snapshot_of userID items plans now =
     (case select_current_subscription items plans now of
        None \<Rightarrow> None
      | Some s \<Rightarrow>
          let p = plans (su_PlanID s);
              planCode = (case p of None \<Rightarrow> [] | Some p \<Rightarrow> trim_space (pl_Code p));
              planName = (case p of None \<Rightarrow> [] | Some p \<Rightarrow> trim_space (pl_Name p));
              permGroupID = (case p of None \<Rightarrow> None | Some p \<Rightarrow> pl_PermissionGroupID p);
              status = (if planCode = ''free'' then ''free'' else trim_space (su_Status s));
              expiresAt = (if planCode = ''free'' then None else contiguous_subscription_end s items)
          in Some \<lparr>ss_UserID = userID, ss_PlanID = su_PlanID s,
               ss_PlanName = first_non_empty [planName, to_upper planCode],
               ss_Tier = first_non_empty [planCode, ''free''], ss_Status = first_non_empty [status, ''free''],
               ss_ExpiresAt = expiresAt, ss_PermissionGroupID = permGroupID\<rparr>)"

definition list_current_subscription_snapshots ::
  "subscription list \<Rightarrow> plan list \<Rightarrow> nat list \<Rightarrow> gotime \<Rightarrow> nat \<Rightarrow> subscription_snapshot option" where
  "list_current_subscription_snapshots rows table userIDs now =
     (let (subscriptions, plans) = list_subscription_entitlements rows table userIDs now
      in (\<lambda>userID.
           (let items = filter (\<lambda>s. su_UserID s = userID) subscriptions
            in if items = [] then None else subscription_snapshot_of userID items plans now)))"

definition get_current_subscription_snapshot ::
  "subscription list \<Rightarrow> plan list \<Rightarrow> nat \<Rightarrow> gotime \<Rightarrow> subscription_snapshot option" where
  "get_current_subscription_snapshot rows table userID now =
     list_current_subscription_snapshots rows table [userID] now userID"

subsection \<open>The plan that pays\<close>

definition current_weekly_plan :: "subscription list \<Rightarrow> plan list \<Rightarrow> nat \<Rightarrow> gotime \<Rightarrow> billing_err + plan" where
  "current_weekly_plan rows table userID now =
     (let (subscriptions, plans) = list_subscription_entitlements rows table [userID] now
      in case select_current_subscription subscriptions plans now of
           None \<Rightarrow> Inl ErrWeeklyCreditExceeded
         | Some s \<Rightarrow>
             (case plans (su_PlanID s) of
                None \<Rightarrow> Inl ErrWeeklyCreditExceeded
              | Some p \<Rightarrow>
                  if trim_space (pl_Code p) = ''free'' \<or> pl_WeeklyCreditNanousd p \<le> 0
                  then Inl ErrWeeklyCreditExceeded else Inr p))"

definition get_active_plan_by_code :: "plan list \<Rightarrow> string \<Rightarrow> plan option" where
  \<comment> \<open>\<open>First\<close> orders by the primary key\<close>
  "get_active_plan_by_code table code =
     List.find (\<lambda>p. pl_Code p = trim_space code \<and> pl_IsActive p) (sort_key pl_ID table)"

definition current_period_plan :: "subscription list \<Rightarrow> plan list \<Rightarrow> nat \<Rightarrow> gotime \<Rightarrow> billing_err + plan" where
  \<comment> \<open>the bounds of the month, the other results, are \<open>monthBounds\<close> of \<open>now\<close>\<close>
  "current_period_plan rows table userID now =
     (let (subscriptions, plans) = list_subscription_entitlements rows table [userID] now
      in case select_current_subscription subscriptions plans now of
           None \<Rightarrow> (case get_active_plan_by_code table ''free'' of None \<Rightarrow> Inl (RepoErr ErrNotFound) | Some p \<Rightarrow> Inr p)
         | Some s \<Rightarrow> (case plans (su_PlanID s) of None \<Rightarrow> Inl (RepoErr ErrNotFound) | Some p \<Rightarrow> Inr p))"

subsection \<open>The current subscription is the best one\<close>

datatype subscription_priority = Subscription_Priority (sp_rank: int) (sp_end: int) (sp_id: nat)

instantiation subscription_priority :: linorder
begin

definition less_subscription_priority :: "subscription_priority \<Rightarrow> subscription_priority \<Rightarrow> bool" where
  "less_subscription_priority a b \<longleftrightarrow>
     (if sp_rank a \<noteq> sp_rank b then sp_rank a < sp_rank b
      else if sp_end a \<noteq> sp_end b then sp_end a < sp_end b else sp_id a < sp_id b)"

definition less_eq_subscription_priority :: "subscription_priority \<Rightarrow> subscription_priority \<Rightarrow> bool" where
  "less_eq_subscription_priority a b \<longleftrightarrow> a < b \<or> a = (b :: subscription_priority)"

instance
proof
  fix a b c :: subscription_priority
  show "(a < b) = (a \<le> b \<and> \<not> b \<le> a)"
    by (cases a; cases b) (auto simp: less_eq_subscription_priority_def less_subscription_priority_def split: if_splits)
  show "a \<le> a" by (simp add: less_eq_subscription_priority_def)
  show "a \<le> b \<Longrightarrow> b \<le> c \<Longrightarrow> a \<le> c"
    by (cases a; cases b; cases c)
      (auto simp: less_eq_subscription_priority_def less_subscription_priority_def split: if_splits)
  show "a \<le> b \<Longrightarrow> b \<le> a \<Longrightarrow> a = b"
    by (cases a; cases b) (auto simp: less_eq_subscription_priority_def less_subscription_priority_def split: if_splits)
  show "a \<le> b \<or> b \<le> a"
    by (cases a; cases b) (auto simp: less_eq_subscription_priority_def less_subscription_priority_def)
qed

end

definition priority :: "plan_map \<Rightarrow> subscription \<Rightarrow> subscription_priority" where
  "priority plans s = Subscription_Priority (rank_in plans s) (subscription_end_sort_time s) (su_ID s)"

lemma is_higher_priority: "is_higher_priority_subscription a b plans \<longleftrightarrow> priority plans b < priority plans a"
  by (auto simp: is_higher_priority_subscription_def priority_def less_subscription_priority_def Let_def)

lemma select_current_from_max:
  "(select_current_from result items plans now = None \<longleftrightarrow>
      result = None \<and> (\<forall>s\<in>set items. \<not> eligible plans now s))
   \<and> (\<forall>s. select_current_from result items plans now = Some s \<longrightarrow>
        (result = Some s \<or> s \<in> set items \<and> eligible plans now s)
        \<and> (\<forall>x. result = Some x \<or> x \<in> set items \<and> eligible plans now x \<longrightarrow> priority plans x \<le> priority plans s))"
proof (induction result items plans now rule: select_current_from.induct)
  case (2 result item items plans now)
  show ?case
  proof (cases "eligible plans now item")
    case True
    show ?thesis
    proof (cases result)
      case None
      then show ?thesis using 2(2) [OF _ None] True by auto
    next
      case (Some r)
      let ?m = "if is_higher_priority_subscription item r plans then item else r"
      have m: "priority plans r \<le> priority plans ?m" "priority plans item \<le> priority plans ?m" "?m = item \<or> ?m = r"
        by (auto simp: is_higher_priority)
      have eq: "select_current_from (Some r) (item # items) plans now = select_current_from (Some ?m) items plans now"
        using True by simp
      note ih = 2(3) [OF _ Some, unfolded not_not, OF True]
      show ?thesis
        unfolding Some eq
      proof (intro conjI allI impI)
        fix s assume s: "select_current_from (Some ?m) items plans now = Some s"
        show "Some r = Some s \<or> s \<in> set (item # items) \<and> eligible plans now s"
          using ih s m(3) True by auto
        fix x assume x: "Some r = Some x \<or> x \<in> set (item # items) \<and> eligible plans now x"
        have "priority plans ?m \<le> priority plans s" using ih s by blast
        then show "priority plans x \<le> priority plans s"
          using x ih s m(1,2) by (metis option.inject order_trans set_ConsD)
      qed (use ih in simp)
    qed
  next
    case False
    then show ?thesis using 2(1) by auto
  qed
qed auto

text \<open>
  C32: The current subscription is the best of the eligible ones, whatever the order of the rows. There
  is one exactly if some row is active, has begun, has not ended and belongs to an active plan;
  it is such a row, every other one loses to it by plan rank, then by end, then by id, and a
  permutation of the rows does not change the choice.
\<close>

theorem current_subscription_is_the_best:
  assumes "inj_on su_ID (set subs)"
  shows "(select_current_subscription subs plans now = None \<longleftrightarrow> (\<forall>s\<in>set subs. \<not> eligible plans now s))
    \<and> (\<forall>s. select_current_subscription subs plans now = Some s \<longrightarrow>
         s \<in> set subs \<and> eligible plans now s
         \<and> (\<forall>x\<in>set subs. eligible plans now x \<longrightarrow> x = s \<or> is_higher_priority_subscription s x plans))
    \<and> (\<forall>rows. set rows = set subs \<longrightarrow>
         select_current_subscription rows plans now = select_current_subscription subs plans now)"
proof -
  have best: "s \<in> set xs \<and> eligible plans now s
      \<and> (\<forall>x\<in>set xs. eligible plans now x \<longrightarrow> x = s \<or> is_higher_priority_subscription s x plans)"
    if "select_current_subscription xs plans now = Some s" "set xs = set subs" for xs s
  proof -
    have m: "s \<in> set xs" "eligible plans now s" "\<And>x. x \<in> set xs \<Longrightarrow> eligible plans now x \<Longrightarrow> priority plans x \<le> priority plans s"
      using that(1) select_current_from_max [of None xs plans now] by (auto simp: select_current_subscription_def)
    have "x = s" if "x \<in> set xs" "priority plans x = priority plans s" for x
      using that m(1) assms \<open>set xs = set subs\<close> by (auto simp: priority_def inj_on_def)
    then show ?thesis using m unfolding is_higher_priority by (metis le_neq_trans)
  qed
  have none: "select_current_subscription xs plans now = None \<longleftrightarrow> (\<forall>s\<in>set xs. \<not> eligible plans now s)" for xs
    using select_current_from_max [of None xs plans now] by (simp add: select_current_subscription_def)
  have "select_current_subscription rows plans now = select_current_subscription subs plans now"
    if rows: "set rows = set subs" for rows
  proof (cases "select_current_subscription subs plans now")
    case None
    then show ?thesis using none [of rows] none [of subs] rows by simp
  next
    case (Some s)
    then have "select_current_subscription rows plans now \<noteq> None"
      using none [of rows] none [of subs] rows by auto
    then obtain r where r: "select_current_subscription rows plans now = Some r" by auto
    have "r = s"
      using best [OF r rows] best [OF Some refl] rows unfolding is_higher_priority by (metis less_asym)
    then show ?thesis using r Some by simp
  qed
  then show ?thesis using none [of subs] best [OF _ refl] by blast
qed

definition sample_plan :: plan where
  "sample_plan = zero_plan\<lparr>pl_ID := 2, pl_Code := ''pro'', pl_IsActive := True\<rparr>"

definition sample_subscription :: "nat \<Rightarrow> gotime \<Rightarrow> gotime \<Rightarrow> subscription" where
  "sample_subscription i s e = \<lparr>su_ID = i, su_UserID = 7, su_PlanID = 2, su_PriceID = 20, su_Status = ''active'',
     su_StartAt = s, su_CurrentPeriodStartAt = s, su_CurrentPeriodEndAt = Some e, su_CancelAtPeriodEnd = False,
     su_CanceledAt = None, su_AutoRenew = False\<rparr>"

theorem current_subscription_is_the_best_witness:
  "select_current_subscription [sample_subscription 1 0 30, sample_subscription 2 0 60] [2 \<mapsto> sample_plan] 10
     = Some (sample_subscription 2 0 60)"
proof -
  let ?subs = "[sample_subscription 1 0 30, sample_subscription 2 0 60]"
  have e: "eligible [2 \<mapsto> sample_plan] 10 s" if "s \<in> set ?subs" for s
    using that by (auto simp: eligible_def sample_subscription_def sample_plan_def)
  have "inj_on su_ID (set ?subs)" by (auto simp: inj_on_def sample_subscription_def)
  note best = current_subscription_is_the_best [OF this, of "[2 \<mapsto> sample_plan]" 10]
  have "eligible [2 \<mapsto> sample_plan] 10 (sample_subscription 2 0 60)" using e by simp
  then have "select_current_subscription ?subs [2 \<mapsto> sample_plan] 10 \<noteq> None"
    unfolding conjunct1 [OF best] by simp
  then obtain s where s: "select_current_subscription ?subs [2 \<mapsto> sample_plan] 10 = Some s" by blast
  have b: "s \<in> set ?subs \<and> eligible [2 \<mapsto> sample_plan] 10 s \<and> (\<forall>x\<in>set ?subs. eligible [2 \<mapsto> sample_plan] 10 x \<longrightarrow>
      x = s \<or> is_higher_priority_subscription s x [2 \<mapsto> sample_plan])"
    by (rule conjunct1 [OF conjunct2 [OF best], rule_format, OF s])
  then have "s \<in> set ?subs" and "sample_subscription 2 0 60 = s
      \<or> is_higher_priority_subscription s (sample_subscription 2 0 60) [2 \<mapsto> sample_plan]"
    using e [of "sample_subscription 2 0 60"] by simp_all
  moreover have "\<not> is_higher_priority_subscription (sample_subscription 1 0 30) (sample_subscription 2 0 60) [2 \<mapsto> sample_plan]"
    by (simp add: is_higher_priority_subscription_def sample_subscription_def subscription_end_sort_time_def rank_in_def Let_def)
  ultimately show ?thesis using s by auto
qed

subsection \<open>The end of a run\<close>

lemma contiguous_pass_flag: "contiguous_pass current items endAt extended = (endAt', extended') \<Longrightarrow> extended \<Longrightarrow> extended'"
  by (induction current items endAt extended rule: contiguous_pass.induct) (auto split: if_splits)

lemma contiguous_pass_run:
  "contiguous_pass current items endAt extended = (endAt', extended') \<Longrightarrow>
     (\<forall>t. endAt \<le> t \<longrightarrow> t < endAt' \<longrightarrow>
        (\<exists>s\<in>set items. su_ID s \<noteq> su_ID current \<and> su_PlanID s = su_PlanID current \<and> su_CurrentPeriodStartAt s \<le> t
           \<and> (\<exists>e. su_CurrentPeriodEndAt s = Some e \<and> t < e)))
     \<and> (\<forall>b. endAt \<le> b \<longrightarrow> (\<forall>s\<in>set items. \<not> extends_run current b s) \<longrightarrow> endAt' \<le> b)
     \<and> (\<not> extended' \<longrightarrow> endAt' = endAt \<and> (\<forall>s\<in>set items. \<not> extends_run current endAt s))"
proof (induction current items endAt extended rule: contiguous_pass.induct)
  case (2 current item items endAt extended)
  show ?case
  proof (cases "extends_run current endAt item")
    case True
    then obtain e where e: "su_CurrentPeriodEndAt item = Some e" "su_CurrentPeriodStartAt item \<le> endAt" "endAt < e"
      and id: "su_ID item \<noteq> su_ID current" "su_PlanID item = su_PlanID current"
      by (auto simp: extends_run_def split: option.splits)
    have p: "contiguous_pass current items e True = (endAt', extended')" using 2(3) True e by simp
    note ih = 2(1) [OF True, unfolded e option.sel, OF p]
    have "extended'" using contiguous_pass_flag [OF p] by simp
    moreover have "\<exists>s\<in>set (item # items). su_ID s \<noteq> su_ID current \<and> su_PlanID s = su_PlanID current
        \<and> su_CurrentPeriodStartAt s \<le> t \<and> (\<exists>e. su_CurrentPeriodEndAt s = Some e \<and> t < e)"
      if "endAt \<le> t" "t < endAt'" for t
      using ih that e id by (cases "t < e") auto
    moreover have "endAt' \<le> b" if "endAt \<le> b" "\<forall>s\<in>set (item # items). \<not> extends_run current b s" for b
    proof -
      have "e \<le> b" using that e id by (auto simp: extends_run_def)
      then show ?thesis using ih that by auto
    qed
    ultimately show ?thesis by blast
  next
    case False
    then show ?thesis using 2(2) [OF False] 2(3) by auto
  qed
qed auto

definition run_of :: "subscription \<Rightarrow> subscription list \<Rightarrow> gotime \<Rightarrow> gotime \<Rightarrow> bool" where
  "run_of current subs a b \<longleftrightarrow>
     (\<forall>t. a \<le> t \<longrightarrow> t < b \<longrightarrow>
        (\<exists>s\<in>set subs. su_ID s \<noteq> su_ID current \<and> su_PlanID s = su_PlanID current
           \<and> su_CurrentPeriodStartAt s \<le> t \<and> (\<exists>e. su_CurrentPeriodEndAt s = Some e \<and> t < e)))"

lemma contiguous_loop_run:
  "endAt \<le> contiguous_loop current subs endAt
   \<and> run_of current subs endAt (contiguous_loop current subs endAt)
   \<and> (\<forall>s\<in>set subs. \<not> extends_run current (contiguous_loop current subs endAt) s)
   \<and> (\<forall>b. endAt \<le> b \<longrightarrow> (\<forall>s\<in>set subs. \<not> extends_run current b s) \<longrightarrow> contiguous_loop current subs endAt \<le> b)"
proof (induction current subs endAt rule: contiguous_loop.induct)
  case (1 current subs endAt)
  obtain endAt' extended where p: "contiguous_pass current subs endAt False = (endAt', extended)" by force
  note later = contiguous_pass_later [OF p] and run = contiguous_pass_run [OF p]
  have loop: "contiguous_loop current subs endAt = (if extended then contiguous_loop current subs endAt' else endAt')"
    using p by (subst contiguous_loop.simps) simp
  show ?case
  proof (cases extended)
    case True
    have ih: "endAt' \<le> contiguous_loop current subs endAt'"
      "run_of current subs endAt' (contiguous_loop current subs endAt')"
      "\<forall>s\<in>set subs. \<not> extends_run current (contiguous_loop current subs endAt') s"
      "\<And>b. endAt' \<le> b \<Longrightarrow> \<forall>s\<in>set subs. \<not> extends_run current b s \<Longrightarrow> contiguous_loop current subs endAt' \<le> b"
      using 1 p True by auto
    have "run_of current subs endAt (contiguous_loop current subs endAt')"
      unfolding run_of_def
    proof (intro allI impI)
      fix t assume t: "endAt \<le> t" "t < contiguous_loop current subs endAt'"
      show "\<exists>s\<in>set subs. su_ID s \<noteq> su_ID current \<and> su_PlanID s = su_PlanID current
           \<and> su_CurrentPeriodStartAt s \<le> t \<and> (\<exists>e. su_CurrentPeriodEndAt s = Some e \<and> t < e)"
      proof (cases "t < endAt'")
        case True
        then show ?thesis using run t by blast
      next
        case False
        then show ?thesis using ih(2) t by (simp add: run_of_def)
      qed
    qed
    then show ?thesis using ih later run True by (auto simp: loop)
  next
    case False
    then show ?thesis using later run by (auto simp: loop run_of_def)
  qed
qed

text \<open>
  A subscription expires when the run of subscriptions to its plan ends. For a subscription with
  an end, the search for the contiguous end terminates; up to the end it returns every instant is
  covered by another subscription to the same plan, no further one continues the run, and it is the
  earliest end with that property.
\<close>

theorem contiguous_end_is_the_end_of_the_run:
  assumes "su_CurrentPeriodEndAt current = Some endAt"
  shows "\<exists>e. contiguous_subscription_end current subs = Some e
      \<and> endAt \<le> e \<and> run_of current subs endAt e
      \<and> (\<forall>s\<in>set subs. \<not> extends_run current e s)
      \<and> (\<forall>b. endAt \<le> b \<longrightarrow> (\<forall>s\<in>set subs. \<not> extends_run current b s) \<longrightarrow> e \<le> b)"
  using assms contiguous_loop_run [of endAt current subs] by (simp add: contiguous_subscription_end_def)

theorem contiguous_end_is_the_end_of_the_run_witness:
  "contiguous_subscription_end (sample_subscription 1 0 30)
     [sample_subscription 3 60 90, sample_subscription 2 30 60, sample_subscription 4 91 99] = Some 90"
proof -
  let ?c = "sample_subscription 1 0 30"
  let ?subs = "[sample_subscription 3 60 90, sample_subscription 2 30 60, sample_subscription 4 91 99]"
  have e: "su_CurrentPeriodEndAt ?c = Some 30" by (simp add: sample_subscription_def)
  obtain x where x: "contiguous_subscription_end ?c ?subs = Some x" "30 \<le> x" "\<forall>s\<in>set ?subs. \<not> extends_run ?c x s"
    "\<forall>b. 30 \<le> b \<longrightarrow> (\<forall>s\<in>set ?subs. \<not> extends_run ?c b s) \<longrightarrow> x \<le> b"
    using contiguous_end_is_the_end_of_the_run [OF e] by blast
  have "x \<le> 90" using x(4) by (auto simp: extends_run_def sample_subscription_def)
  moreover have "90 \<le> x" using x(2,3) by (auto simp: extends_run_def sample_subscription_def)
  ultimately show ?thesis using x(1) by simp
qed

subsection \<open>The overview hides nothing\<close>

definition runs_at :: "subscription \<Rightarrow> gotime \<Rightarrow> bool" where
  "runs_at s t \<longleftrightarrow> su_CurrentPeriodStartAt s \<le> t
     \<and> (case su_CurrentPeriodEndAt s of None \<Rightarrow> True | Some e \<Rightarrow> t < e)"

definition entitled :: "nat \<Rightarrow> nat \<Rightarrow> gotime \<Rightarrow> subscription \<Rightarrow> bool" where
  "entitled planID priceID t s \<longleftrightarrow> su_PlanID s = planID \<and> su_PriceID s = priceID \<and> runs_at s t"

lemma extend_view_entitled:
  assumes "can_merge_subscription_entitlement (ev_Subscription v) (ev_Subscription w)"
    and "su_CurrentPeriodStartAt (ev_Subscription v) \<le> su_CurrentPeriodStartAt (ev_Subscription w)"
  shows "entitled p q t (ev_Subscription (extend_view v w)) \<longleftrightarrow>
      entitled p q t (ev_Subscription v) \<or> entitled p q t (ev_Subscription w)"
    and "su_CurrentPeriodStartAt (ev_Subscription (extend_view v w)) = su_CurrentPeriodStartAt (ev_Subscription v)"
  using assms
  by (auto simp: can_merge_subscription_entitlement_def entitled_def runs_at_def extend_view_def
      subscription_ends_after_def split: option.splits if_splits)

lemma merge_views_entitled:
  "sorted_wrt (\<lambda>a b. su_CurrentPeriodStartAt (ev_Subscription a) \<le> su_CurrentPeriodStartAt (ev_Subscription b)) (v # vs) \<Longrightarrow>
     (\<exists>x\<in>set (merge_views v vs). entitled p q t (ev_Subscription x))
     \<longleftrightarrow> (\<exists>x\<in>set (v # vs). entitled p q t (ev_Subscription x))"
proof (induction v vs rule: merge_views.induct)
  case (2 v w vs)
  show ?case
  proof (cases "can_merge_subscription_entitlement (ev_Subscription v) (ev_Subscription w)")
    case True
    have "su_CurrentPeriodStartAt (ev_Subscription v) \<le> su_CurrentPeriodStartAt (ev_Subscription w)" using 2(3) by simp
    note e = extend_view_entitled [OF True this]
    have "sorted_wrt (\<lambda>a b. su_CurrentPeriodStartAt (ev_Subscription a) \<le> su_CurrentPeriodStartAt (ev_Subscription b))
        (extend_view v w # vs)" using 2(3) e(2) by simp
    from 2(1) [OF True this] show ?thesis using True e(1) by auto
  next
    case False
    then show ?thesis using 2(2) [OF False] 2(3) by auto
  qed
qed simp

lemma order_entitlements_facts:
  "set (order_entitlements plans items) = set items"
  "sorted_wrt (\<lambda>a b. su_CurrentPeriodStartAt a \<le> su_CurrentPeriodStartAt b) (order_entitlements plans items)"
  unfolding order_entitlements_def using sorted_sort_key [of su_CurrentPeriodStartAt] by (simp_all add: sorted_map)

text \<open>
  The overview hides no entitlement and invents none: at every instant some listed period of a plan
  at a price runs exactly if some active, unexpired row of that paid plan at that price does,
  however rows were merged into one period.
\<close>

theorem overview_shows_every_entitlement:
  "(\<exists>v\<in>set (build_subscription_entitlement_views subs plans now). entitled planID priceID t (ev_Subscription v))
   \<longleftrightarrow> (\<exists>s\<in>set subs. listed_entitlement plans now s \<and> entitled planID priceID t s)"
proof -
  let ?items = "order_entitlements plans (filter (listed_entitlement plans now) subs)"
  let ?view = "\<lambda>item. \<lparr>ev_Subscription = item, ev_Plan = get_or zero_plan plans (su_PlanID item),
      ev_IsCurrent = (case select_current_subscription subs plans now of None \<Rightarrow> False | Some c \<Rightarrow> su_ID item = su_ID c)\<rparr>"
  have sorted: "sorted_wrt (\<lambda>a b. su_CurrentPeriodStartAt (ev_Subscription a) \<le> su_CurrentPeriodStartAt (ev_Subscription b))
      (map ?view ?items)"
    using order_entitlements_facts(2) [of plans "filter (listed_entitlement plans now) subs"] by (simp add: sorted_wrt_map)
  have "(\<exists>v\<in>set (build_subscription_entitlement_views subs plans now). entitled planID priceID t (ev_Subscription v))
      \<longleftrightarrow> (\<exists>v\<in>set (map ?view ?items). entitled planID priceID t (ev_Subscription v))"
  proof (cases "map ?view ?items")
    case Nil
    then show ?thesis by (simp add: build_subscription_entitlement_views_def Let_def)
  next
    case (Cons v vs)
    have "build_subscription_entitlement_views subs plans now = merge_views v vs"
      using Cons by (simp add: build_subscription_entitlement_views_def Let_def)
    then show ?thesis using merge_views_entitled [of v vs planID priceID t] sorted Cons by simp
  qed
  also have "\<dots> \<longleftrightarrow> (\<exists>s\<in>set ?items. entitled planID priceID t s)" by simp
  finally show ?thesis by (simp add: order_entitlements_facts(1)) blast
qed

end
