(* ===== verification/Authorization.thy ===== *)
theory Authorization
  imports Budgets Calendar Subscriptions
begin

text \<open>
  A paid call from its admission to its bill (\<open>application/billing/service.go\<close>): \<open>AuthorizeUsage\<close> fixes
  the billing mode and reserves a budget, \<open>RecordUsageWithAuthorization\<close> settles the usage by the mode
  fixed then, and three small operations release, renew or flag the budget in between. The
  settings and the prices of models are tables of their own. What other services answer, the
  identity of a model and its abilities, is asked through the ports the service is given.
\<close>

subsection \<open>Settings\<close>

record setting =
  st_Namespace :: string
  st_Key :: string
  st_Value :: string

definition billing_setting :: "string \<Rightarrow> setting list \<Rightarrow> setting option" where
  "billing_setting key settings = List.find (\<lambda>s. st_Namespace s = ''billing'' \<and> st_Key s = key) settings"

definition get_billing_mode :: "setting list \<Rightarrow> string" where
  "get_billing_mode settings =
     (case billing_setting ''mode'' settings of
        None \<Rightarrow> ''self''
      | Some item \<Rightarrow>
          let mode = trim_space (st_Value item)
          in if mode \<in> set [''self'', ''usage'', ''period'', ''weekly''] then mode else ''self'')"

text \<open>
  \<open>strconv.ParseFloat\<close>, the test for a negative, infinite or undefined number and the conversion
  of dollars to nano dollars are parameters.
\<close>

record 'f float_ops =
  fl_parse :: "string \<Rightarrow> 'f option"
  fl_amount :: "'f \<Rightarrow> bool"
  fl_nanousd :: "'f \<Rightarrow> int"

definition get_billing_prepaid_amount_nanousd :: "'f float_ops \<Rightarrow> setting list \<Rightarrow> int tx" where
  "get_billing_prepaid_amount_nanousd floats settings =
     (case billing_setting ''prepaid_amount_usd'' settings of
        None \<Rightarrow> Inr 0
      | Some item \<Rightarrow>
          let value = trim_space (st_Value item)
          in if value = [] then Inr 0
             else case fl_parse floats value of
                    None \<Rightarrow> Inl ErrInvalidInput
                  | Some amount \<Rightarrow> if \<not> fl_amount floats amount then Inl ErrInvalidInput else Inr (fl_nanousd floats amount))"

subsection \<open>Prices of models\<close>

record model_pricing =
  mp_ID :: nat
  mp_PlatformModelName :: string
  mp_Currency :: string
  mp_IsFree :: bool
  mp_PricingMode :: string
  mp_InputNanousdPerMTokens :: int
  mp_CacheReadNanousdPerMTokens :: int
  mp_CacheWriteNanousdPerMTokens :: int
  mp_OutputNanousdPerMTokens :: int
  mp_CallNanousdPerCall :: int
  mp_DurationNanousdPerSecond :: int
  mp_TieredPricingJSON :: string

definition get_model_pricing :: "model_pricing list \<Rightarrow> string \<Rightarrow> model_pricing tx" where
  \<comment> \<open>\<open>First\<close> orders by the primary key\<close>
  "get_model_pricing table name =
     (case List.find (\<lambda>p. mp_PlatformModelName p = trim_space name) (sort_key mp_ID table) of
        None \<Rightarrow> Inl ErrNotFound
      | Some p \<Rightarrow> Inr p)"

record model_identity =
  mi_PlatformModelID :: nat
  mi_PlatformModelName :: string
  mi_ModelVendor :: string
  mi_ModelIcon :: string

datatype identity_err = ErrModelNotFound | IdentityErr repo_err

record service_ports =
  sp_identity :: "(string \<Rightarrow> identity_err + model_identity) option"
  sp_video :: "(string \<Rightarrow> billing_err + bool) option"
  sp_group_rate :: "(nat \<Rightarrow> nat \<Rightarrow> nat list \<Rightarrow> billing_err + int) option"

definition resolve_platform_model_identity :: "service_ports \<Rightarrow> string \<Rightarrow> model_identity tx" where
  "resolve_platform_model_identity ports platformModelName =
     (let name = trim_space platformModelName
      in if name = [] then Inl ErrNotFound
         else case sp_identity ports of
                None \<Rightarrow> Inr \<lparr>mi_PlatformModelID = 0, mi_PlatformModelName = name, mi_ModelVendor = [], mi_ModelIcon = []\<rparr>
              | Some resolve \<Rightarrow>
                  (case resolve name of
                     Inl ErrModelNotFound \<Rightarrow> Inl ErrNotFound
                   | Inl (IdentityErr e) \<Rightarrow> Inl e
                   | Inr identity \<Rightarrow>
                       let resolved = trim_space (mi_PlatformModelName identity)
                       in Inr (identity\<lparr>mi_PlatformModelName := if resolved = [] then name else resolved\<rparr>)))"

definition get_resolved_model_pricing :: "service_ports \<Rightarrow> model_pricing list \<Rightarrow> string \<Rightarrow> model_pricing tx" where
  "get_resolved_model_pricing ports table platformModelName =
     (case resolve_platform_model_identity ports platformModelName of
        Inl e \<Rightarrow> Inl e
      | Inr identity \<Rightarrow>
          let name = trim_space (mi_PlatformModelName identity)
          in if name = [] then Inl ErrNotFound else get_model_pricing table name)"

subsection \<open>Admission\<close>

definition reserve_error :: "repo_err \<Rightarrow> billing_err" where
  "reserve_error e =
     (case e of
        ErrUsageReservationLimitExceeded \<Rightarrow> ErrUsageConcurrencyLimitExceeded
      | ErrInsufficientBalance \<Rightarrow> ErrUsageBalanceInsufficient
      | ErrWeeklyQuotaExceeded \<Rightarrow> ErrWeeklyCreditExceeded
      | ErrConflict \<Rightarrow> ErrUsageReservationConflict
      | _ \<Rightarrow> RepoErr e)"

definition usage_request ::
  "gotime \<Rightarrow> string \<Rightarrow> int \<Rightarrow> nat \<Rightarrow> string \<Rightarrow> billing_db \<Rightarrow> billing_err + reservation_request" where
  \<comment> \<open>the plan of the user as the mode needs it\<close>
  "usage_request now mode amount userID refNo db =
     (let request = \<lparr>rq_UserID = userID, rq_RefNo = trim_space refNo, rq_Mode = mode, rq_RequestedNanousd = amount,
            rq_AuthorizedAt = now, rq_PeriodStartAt = None, rq_PeriodEndAt = None, rq_PeriodCreditNanousd = 0,
            rq_WeeklyCreditNanousd = 0\<rparr>
      in if mode = ''period'' then
           (case current_period_plan (tb_rows (bd_subscriptions db)) (bd_plans db) userID now of
              Inl e \<Rightarrow> Inl e
            | Inr p \<Rightarrow>
                (case month_bounds now now of
                   (startAt, endAt) \<Rightarrow>
                     Inr (request\<lparr>rq_PeriodStartAt := Some startAt, rq_PeriodEndAt := Some endAt,
                       rq_PeriodCreditNanousd := pl_PeriodCreditNanousd p\<rparr>)))
         else if mode = ''weekly'' then
           (case current_weekly_plan (tb_rows (bd_subscriptions db)) (bd_plans db) userID now of
              Inl e \<Rightarrow> Inl e
            | Inr p \<Rightarrow>
                Inr (request\<lparr>rq_WeeklyCreditNanousd := pl_WeeklyCreditNanousd p,
                  rq_RequestedNanousd := if pl_WeeklyCreditNanousd p < amount then pl_WeeklyCreditNanousd p else amount\<rparr>))
         else Inr request)"

definition duration_supported :: "service_ports \<Rightarrow> string \<Rightarrow> billing_err + unit" where
  "duration_supported ports platformModelName =
     (case sp_video ports of
        None \<Rightarrow> Inl ErrModelPricingRequired
      | Some supports \<Rightarrow>
          (case supports platformModelName of
             Inl e \<Rightarrow> Inl e
           | Inr supported \<Rightarrow> if supported then Inr () else Inl ErrModelPricingRequired))"

definition reserve_for_call ::
  "'f float_ops \<Rightarrow> gotime \<Rightarrow> setting list \<Rightarrow> string \<Rightarrow> nat \<Rightarrow> string \<Rightarrow> billing_db
   \<Rightarrow> billing_err + (usage_authorization \<times> billing_db)" where
  "reserve_for_call floats now settings mode userID refNo db =
     (case get_billing_prepaid_amount_nanousd floats settings of
        Inl e \<Rightarrow> Inl (RepoErr e)
      | Inr amount \<Rightarrow>
          (case usage_request now mode amount userID refNo db of
             Inl e \<Rightarrow> Inl e
           | Inr request \<Rightarrow>
               (case reserve_usage_balance now request db of
                  Inl e \<Rightarrow> Inl (reserve_error e)
                | Inr (row, db') \<Rightarrow> Inr (\<lparr>ua_Mode = mode, ua_Reservation = Some row\<rparr>, db'))))"

definition authorize_usage ::
  "service_ports \<Rightarrow> 'f float_ops \<Rightarrow> gotime \<Rightarrow> setting list \<Rightarrow> model_pricing list \<Rightarrow> nat \<Rightarrow> string \<Rightarrow> string \<Rightarrow> billing_db
   \<Rightarrow> billing_err + (usage_authorization \<times> billing_db)" where
  "authorize_usage ports floats now settings prices userID platformModelName refNo db =
     (let mode = trim_space (get_billing_mode settings);
          free = \<lparr>ua_Mode = mode, ua_Reservation = None\<rparr>
      in if mode \<notin> set [''usage'', ''period'', ''weekly''] then Inr (free, db)
         else case get_resolved_model_pricing ports prices platformModelName of
                Inl e \<Rightarrow> Inl (if e = ErrNotFound then ErrModelPricingRequired else RepoErr e)
              | Inr pricing \<Rightarrow>
                  if mp_IsFree pricing then Inr (free, db)
                  else case (if normalize_pricing_mode (mp_PricingMode pricing) = ''duration''
                             then duration_supported ports platformModelName else Inr ()) of
                         Inl e \<Rightarrow> Inl e
                       | Inr _ \<Rightarrow> reserve_for_call floats now settings mode userID refNo db)"

subsection \<open>The bill\<close>

definition settle_error :: "repo_err \<Rightarrow> billing_err" where
  "settle_error e =
     (if e = ErrInsufficientBalance then ErrUsageBalanceInsufficient
      else if e = ErrConflict then ErrUsageReservationConflict else RepoErr e)"

definition weekly_settle_error :: "repo_err \<Rightarrow> billing_err" where
  "weekly_settle_error e =
     (if e = ErrWeeklyQuotaExceeded then ErrWeeklyCreditExceeded
      else if e = ErrConflict then ErrUsageReservationConflict else RepoErr e)"

definition map_error :: "('e \<Rightarrow> 'f) \<Rightarrow> 'e + 'a \<Rightarrow> 'f + 'a" where
  "map_error f x = (case x of Inl e \<Rightarrow> Inl (f e) | Inr y \<Rightarrow> Inr y)"

definition current_period :: "gotime \<Rightarrow> usage_ledger \<Rightarrow> billing_db \<Rightarrow> billing_err + (gotime \<times> gotime \<times> int)" where
  "current_period clock usage db =
     (case current_period_plan (tb_rows (bd_subscriptions db)) (bd_plans db) (ul_UserID usage) (ul_BillingAt usage) of
        Inl e \<Rightarrow> Inl e
      | Inr p \<Rightarrow> (case month_bounds clock (ul_BillingAt usage) of (s, e) \<Rightarrow> Inr (s, e, pl_PeriodCreditNanousd p)))"

definition settlement_period ::
  "gotime \<Rightarrow> usage_ledger \<Rightarrow> reservation option \<Rightarrow> billing_db \<Rightarrow> billing_err + (gotime \<times> gotime \<times> int)" where
  \<comment> \<open>the period fixed by the reservation, or the current one of the user\<close>
  "settlement_period clock usage reservation db =
     (case reservation of
        Some r \<Rightarrow>
          if rs_Mode r = ''period'' then
            (case (rs_PeriodStartAt r, rs_PeriodEndAt r) of
               (Some s, Some e) \<Rightarrow>
                 if after e s \<and> 0 \<le> rs_PeriodLimitNanousd r then Inr (s, e, rs_PeriodLimitNanousd r)
                 else Inl (RepoErr ErrInvalidInput)
             | _ \<Rightarrow> Inl (RepoErr ErrInvalidInput))
          else
            current_period clock usage db
      | None \<Rightarrow>
          current_period clock usage db)"

definition usage_mode :: "setting list \<Rightarrow> usage_authorization option \<Rightarrow> string" where
  "usage_mode settings authorization =
     (let mode = (case authorization of None \<Rightarrow> [] | Some a \<Rightarrow> trim_space (ua_Mode a))
      in if mode = [] then get_billing_mode settings else mode)"

definition record_usage_with_authorization ::
  "(string \<Rightarrow> (string \<times> int) list \<Rightarrow> string) \<Rightarrow> gotime \<Rightarrow> setting list \<Rightarrow> usage_ledger \<Rightarrow> usage_authorization option
   \<Rightarrow> billing_db \<Rightarrow> billing_err + (usage_ledger \<times> billing_db)" where
  "record_usage_with_authorization with_snapshot now settings usage authorization db =
     (let reservation = (case authorization of None \<Rightarrow> None | Some a \<Rightarrow> ua_Reservation a);
          mode = usage_mode settings authorization
      in if mode = ''usage'' then
           map_error settle_error (add_usage_and_settle_balance usage reservation now db)
         else if mode = ''weekly'' then
           map_error weekly_settle_error (add_weekly_usage_and_settle_quota with_snapshot usage reservation now db)
         else if mode = ''period'' then
           (if is_zero (ul_BillingAt usage) \<or> is_zero (ul_UsageDate usage) then Inl (RepoErr ErrInvalidInput)
            else case settlement_period now usage reservation db of
                   Inl e \<Rightarrow> Inl e
                 | Inr (startAt, endAt, credit) \<Rightarrow>
                     map_error settle_error
                       (add_period_usage_and_settle_overage with_snapshot usage startAt endAt credit reservation now db))
         else Inr (usage, add_usage usage db))"

subsection \<open>In between\<close>

definition on_reservation ::
  "(nat \<Rightarrow> string \<Rightarrow> billing_db \<Rightarrow> billing_db tx) \<Rightarrow> usage_authorization option \<Rightarrow> billing_db \<Rightarrow> billing_db tx" where
  "on_reservation f authorization db =
     (case authorization of
        None \<Rightarrow> Inr db
      | Some a \<Rightarrow> (case ua_Reservation a of None \<Rightarrow> Inr db | Some r \<Rightarrow> f (rs_UserID r) (rs_RefNo r) db))"

definition release_usage_authorization :: "usage_authorization option \<Rightarrow> gotime \<Rightarrow> billing_db \<Rightarrow> billing_db tx" where
  "release_usage_authorization authorization now =
     on_reservation (\<lambda>u refNo. release_usage_balance_reservation u refNo now) authorization"

definition renew_usage_authorization :: "usage_authorization option \<Rightarrow> gotime \<Rightarrow> billing_db \<Rightarrow> billing_db tx" where
  "renew_usage_authorization authorization now =
     on_reservation (\<lambda>u refNo. renew_usage_balance_reservation u refNo now) authorization"

definition mark_usage_authorization_for_reconciliation ::
  "usage_authorization option \<Rightarrow> string \<Rightarrow> gotime \<Rightarrow> billing_db \<Rightarrow> billing_db tx" where
  "mark_usage_authorization_for_reconciliation authorization failureCode now =
     on_reservation (\<lambda>u refNo. mark_usage_reservation_reconciliation_required u refNo failureCode now) authorization"

end
