(* ===== verification/Timeline.thy ===== *)
theory Timeline
  imports BillingData "HOL-Library.Multiset_Order"
begin

text \<open>
  The timeline of a user's subscriptions
  (\<open>infra/persistence/postgres/billing/repository.go\<close>, from \<open>subscriptionTimelineSegment\<close> on):
  a new grant is placed on the earliest instants that no plan of the same or a higher rank
  occupies, and what it displaces of lower plans is queued again behind it.

  A segment is a half-open interval of time with the plan it belongs to. The lemmas show what
  each step does to three views of a list of segments: the time each plan has in all
  (\<open>time_of\<close>), the instants a plan covers (\<open>covered\<close>), and whether the segments follow one another
  (\<open>timeline\<close>).
\<close>

subsection \<open>Segments and grants\<close>

record timeline_segment =
  sg_SubscriptionID :: nat
  sg_PlanID :: nat
  sg_PriceID :: nat
  sg_Rank :: int
  sg_StartAt :: gotime
  sg_EndAt :: gotime
  sg_CancelAtPeriodEnd :: bool
  sg_AutoRenew :: bool
  sg_NewGrant :: bool

record timeline_grant =
  gr_SubscriptionID :: nat
  gr_PlanID :: nat
  gr_PriceID :: nat
  gr_Rank :: int
  gr_StartAt :: gotime
  gr_Duration :: duration
  gr_CancelAtPeriodEnd :: bool
  gr_AutoRenew :: bool
  gr_NewGrant :: bool

definition min_time :: "gotime \<Rightarrow> gotime \<Rightarrow> gotime" where
  "min_time left right = (if before left right then left else right)"

definition max_time :: "gotime \<Rightarrow> gotime \<Rightarrow> gotime" where
  "max_time left right = (if after left right then left else right)"

definition timeline_overlaps :: "timeline_segment \<Rightarrow> timeline_segment \<Rightarrow> bool" where
  "timeline_overlaps left right \<longleftrightarrow>
     before (sg_StartAt left) (sg_EndAt right) \<and> before (sg_StartAt right) (sg_EndAt left)"

subsection \<open>Normalisation\<close>

text \<open>The order of \<open>sort.SliceStable\<close>: by start, then rank downwards, then end, then plan.\<close>

datatype segment_order = Segment_Order (so_start: int) (so_rank: int) (so_end: int) (so_plan: nat)

instantiation segment_order :: linorder
begin

definition less_segment_order :: "segment_order \<Rightarrow> segment_order \<Rightarrow> bool" where
  "less_segment_order a b \<longleftrightarrow>
     (if so_start a = so_start b then
        (if so_rank a = so_rank b then
           (if so_end a = so_end b then so_plan a < so_plan b else so_end a < so_end b)
         else so_rank b < so_rank a)
      else so_start a < so_start b)"

definition less_eq_segment_order :: "segment_order \<Rightarrow> segment_order \<Rightarrow> bool" where
  "less_eq_segment_order a b \<longleftrightarrow> a < b \<or> a = (b :: segment_order)"

instance
proof
  fix a b c :: segment_order
  show "(a < b) = (a \<le> b \<and> \<not> b \<le> a)"
    by (cases a; cases b) (auto simp: less_eq_segment_order_def less_segment_order_def split: if_splits)
  show "a \<le> a" by (simp add: less_eq_segment_order_def)
  show "a \<le> b \<Longrightarrow> b \<le> c \<Longrightarrow> a \<le> c"
    by (cases a; cases b; cases c) (auto simp: less_eq_segment_order_def less_segment_order_def split: if_splits)
  show "a \<le> b \<Longrightarrow> b \<le> a \<Longrightarrow> a = b"
    by (cases a; cases b) (auto simp: less_eq_segment_order_def less_segment_order_def split: if_splits)
  show "a \<le> b \<or> b \<le> a"
    by (cases a; cases b) (auto simp: less_eq_segment_order_def less_segment_order_def)
qed

end

definition segment_order :: "timeline_segment \<Rightarrow> segment_order" where
  "segment_order s = Segment_Order (sg_StartAt s) (sg_Rank s) (sg_EndAt s) (sg_PlanID s)"

definition segment_ok :: "timeline_segment \<Rightarrow> bool" where
  "segment_ok s \<longleftrightarrow> \<not> (sg_PlanID s = 0 \<or> sg_PriceID s = 0 \<or> \<not> after (sg_EndAt s) (sg_StartAt s))"

definition can_merge :: "timeline_segment \<Rightarrow> timeline_segment \<Rightarrow> bool" where
  "can_merge previous item \<longleftrightarrow>
     sg_PlanID previous = sg_PlanID item \<and> sg_PriceID previous = sg_PriceID item \<and> sg_Rank previous = sg_Rank item
     \<and> sg_SubscriptionID previous = sg_SubscriptionID item
     \<and> sg_CancelAtPeriodEnd previous = sg_CancelAtPeriodEnd item
     \<and> sg_AutoRenew previous = sg_AutoRenew item \<and> sg_NewGrant previous = sg_NewGrant item
     \<and> \<not> before (sg_EndAt previous) (sg_StartAt item)"

fun merge_segments :: "timeline_segment \<Rightarrow> timeline_segment list \<Rightarrow> timeline_segment list" where
  \<comment> \<open>the loop over the sorted segments; the first argument is the last merged segment\<close>
  "merge_segments previous [] = [previous]"
| "merge_segments previous (item # items) =
     (if can_merge previous item
      then merge_segments (if after (sg_EndAt item) (sg_EndAt previous) then previous\<lparr>sg_EndAt := sg_EndAt item\<rparr> else previous) items
      else previous # merge_segments item items)"

definition normalize_timeline :: "timeline_segment list \<Rightarrow> timeline_segment list" where
  "normalize_timeline segments =
     (case sort_key segment_order (filter segment_ok segments) of
        [] \<Rightarrow> []
      | item # items \<Rightarrow> merge_segments item items)"

subsection \<open>Placing a grant\<close>

definition earlier_blocker :: "timeline_segment \<Rightarrow> timeline_segment \<Rightarrow> bool" where
  "earlier_blocker item result \<longleftrightarrow>
     before (sg_StartAt item) (sg_StartAt result)
     \<or> sg_StartAt item = sg_StartAt result \<and> before (sg_EndAt item) (sg_EndAt result)"

fun next_blocker_from ::
  "timeline_segment option \<Rightarrow> timeline_segment list \<Rightarrow> int \<Rightarrow> gotime \<Rightarrow> timeline_segment option" where
  "next_blocker_from result [] rank cursor = result"
| "next_blocker_from result (item # items) rank cursor =
     (if sg_Rank item < rank \<or> \<not> after (sg_EndAt item) cursor then next_blocker_from result items rank cursor
      else case result of
             None \<Rightarrow> next_blocker_from (Some item) items rank cursor
           | Some r \<Rightarrow> next_blocker_from (Some (if earlier_blocker item r then item else r)) items rank cursor)"

definition next_timeline_blocker :: "timeline_segment list \<Rightarrow> int \<Rightarrow> gotime \<Rightarrow> timeline_segment option" where
  "next_timeline_blocker segments rank cursor = next_blocker_from None segments rank cursor"

definition cut_segment :: "timeline_segment \<Rightarrow> timeline_segment \<Rightarrow> timeline_segment list" where
  \<comment> \<open>what stays of a displaced segment: the part before and the part after\<close>
  "cut_segment allocated item =
     (let overlapStart = max_time (sg_StartAt item) (sg_StartAt allocated);
          overlapEnd = min_time (sg_EndAt item) (sg_EndAt allocated)
      in (if before (sg_StartAt item) overlapStart then [item\<lparr>sg_EndAt := overlapStart\<rparr>] else [])
         @ (if after (sg_EndAt item) overlapEnd then [item\<lparr>sg_StartAt := overlapEnd\<rparr>] else []))"

definition displaced_grant :: "timeline_segment \<Rightarrow> timeline_segment \<Rightarrow> timeline_grant list" where
  "displaced_grant allocated item =
     (let overlapStart = max_time (sg_StartAt item) (sg_StartAt allocated);
          overlapEnd = min_time (sg_EndAt item) (sg_EndAt allocated)
      in if after overlapEnd overlapStart
         then [\<lparr>gr_SubscriptionID = sg_SubscriptionID item, gr_PlanID = sg_PlanID item,
                gr_PriceID = sg_PriceID item, gr_Rank = sg_Rank item,
                gr_StartAt = max_time (sg_EndAt allocated) (sg_EndAt item),
                gr_Duration = overlapEnd - overlapStart,
                gr_CancelAtPeriodEnd = sg_CancelAtPeriodEnd item, gr_AutoRenew = sg_AutoRenew item,
                gr_NewGrant = sg_NewGrant item\<rparr>]
         else [])"

definition keeps_place :: "timeline_segment \<Rightarrow> timeline_segment \<Rightarrow> bool" where
  "keeps_place allocated item \<longleftrightarrow> \<not> timeline_overlaps item allocated \<or> sg_Rank allocated \<le> sg_Rank item"

definition insert_timeline_segment ::
  "timeline_segment list \<Rightarrow> timeline_segment \<Rightarrow> timeline_segment list \<times> timeline_grant list" where
  "insert_timeline_segment segments allocated =
     (normalize_timeline
        (concat (map (\<lambda>item. if keeps_place allocated item then [item] else cut_segment allocated item) segments)
         @ [allocated]),
      concat (map (\<lambda>item. if keeps_place allocated item then [] else displaced_grant allocated item) segments))"

definition allocate :: "timeline_grant \<Rightarrow> gotime \<Rightarrow> gotime \<Rightarrow> timeline_segment" where
  "allocate g startAt endAt =
     \<lparr>sg_SubscriptionID = gr_SubscriptionID g, sg_PlanID = gr_PlanID g, sg_PriceID = gr_PriceID g,
      sg_Rank = gr_Rank g, sg_StartAt = startAt, sg_EndAt = endAt,
      sg_CancelAtPeriodEnd = gr_CancelAtPeriodEnd g, sg_AutoRenew = gr_AutoRenew g, sg_NewGrant = gr_NewGrant g\<rparr>"

definition grant_end :: "timeline_segment option \<Rightarrow> gotime \<Rightarrow> duration \<Rightarrow> gotime" where
  "grant_end blocker cursor remaining =
     (case blocker of
        Some b \<Rightarrow> (if before (sg_StartAt b) (cursor + remaining) then sg_StartAt b else cursor + remaining)
      | None \<Rightarrow> cursor + remaining)"

definition blocker_end :: "timeline_segment option \<Rightarrow> gotime" where
  "blocker_end blocker = (case blocker of Some b \<Rightarrow> sg_EndAt b | None \<Rightarrow> 0)"

definition blocked_at :: "timeline_segment option \<Rightarrow> gotime \<Rightarrow> bool" where
  "blocked_at blocker cursor \<longleftrightarrow> (case blocker of Some b \<Rightarrow> \<not> after (sg_StartAt b) cursor | None \<Rightarrow> False)"

definition blockers_ahead :: "int \<Rightarrow> gotime \<Rightarrow> timeline_segment list \<Rightarrow> timeline_segment list" where
  "blockers_ahead rank cursor segments = filter (\<lambda>s. rank \<le> sg_Rank s \<and> cursor < sg_EndAt s) segments"

lemma next_blocker_from_cases:
  "next_blocker_from result segments rank cursor = Some b \<Longrightarrow>
     b \<in> set (blockers_ahead rank cursor segments) \<or> result = Some b"
  by (induction result segments rank cursor rule: next_blocker_from.induct)
    (auto simp: blockers_ahead_def split: if_splits option.splits)

lemma next_blocker_from_None:
  "next_blocker_from result segments rank cursor = None \<longleftrightarrow>
     result = None \<and> blockers_ahead rank cursor segments = []"
  by (induction result segments rank cursor rule: next_blocker_from.induct)
    (auto simp: blockers_ahead_def split: option.splits)

lemma next_blocker_from_least:
  "next_blocker_from result segments rank cursor = Some b \<Longrightarrow>
     (\<forall>s\<in>set (blockers_ahead rank cursor segments). sg_StartAt b \<le> sg_StartAt s)
     \<and> (\<forall>r. result = Some r \<longrightarrow> sg_StartAt b \<le> sg_StartAt r)"
proof (induction result segments rank cursor rule: next_blocker_from.induct)
  case (2 result item items rank cursor)
  then show ?case
    by (cases result) (auto simp: blockers_ahead_def earlier_blocker_def split: if_splits)
qed (simp add: blockers_ahead_def)

lemma next_blocker_Some:
  assumes "next_timeline_blocker segments rank cursor = Some b"
  shows "b \<in> set segments" and "rank \<le> sg_Rank b" and "cursor < sg_EndAt b"
    and "\<And>s. s \<in> set segments \<Longrightarrow> rank \<le> sg_Rank s \<Longrightarrow> cursor < sg_EndAt s \<Longrightarrow> sg_StartAt b \<le> sg_StartAt s"
  using next_blocker_from_cases [of None segments rank cursor b]
    next_blocker_from_least [of None segments rank cursor b] assms
  by (auto simp: next_timeline_blocker_def blockers_ahead_def)

lemma next_blocker_None:
  "next_timeline_blocker segments rank cursor = None \<longleftrightarrow> blockers_ahead rank cursor segments = []"
  by (simp add: next_timeline_blocker_def next_blocker_from_None)

lemma blocker_is_passed:
  assumes "next_timeline_blocker segments rank cursor = Some b"
  shows "length (blockers_ahead rank (sg_EndAt b) segments) < length (blockers_ahead rank cursor segments)"
proof -
  have sub: "blockers_ahead rank (sg_EndAt b) segments
      = filter (\<lambda>s. sg_EndAt b < sg_EndAt s) (blockers_ahead rank cursor segments)"
    using next_blocker_Some(3) [OF assms] by (auto simp: blockers_ahead_def intro!: filter_cong)
  have "b \<in> set (blockers_ahead rank cursor segments)"
    using next_blocker_Some [OF assms] by (simp add: blockers_ahead_def)
  then show ?thesis unfolding sub by (rule length_filter_less) simp
qed

text \<open>
  The loop of \<open>placeSubscriptionTimelineGrant\<close>: skip the blocker that holds the cursor, otherwise
  allocate up to the next blocker. Instants are unbounded integers here; the code's additions
  stay far inside the range of \<open>time.Time\<close>.
\<close>

function place_loop ::
  "timeline_grant \<Rightarrow> timeline_segment list \<Rightarrow> timeline_grant list \<Rightarrow> duration \<Rightarrow> gotime
   \<Rightarrow> timeline_segment list \<times> timeline_grant list" where
  "place_loop g segments displaced remaining cursor =
     (if remaining \<le> 0 then (segments, displaced)
      else
        let blocker = next_timeline_blocker segments (gr_Rank g) cursor;
            endAt = grant_end blocker cursor remaining
        in if blocked_at blocker cursor \<or> \<not> after endAt cursor
           then place_loop g segments displaced remaining (blocker_end blocker)
           else
             let inserted = insert_timeline_segment segments (allocate g cursor endAt)
             in place_loop g (fst inserted) (displaced @ snd inserted) (remaining - (endAt - cursor)) endAt)"
  by pat_completeness auto
termination
proof (relation "measures [\<lambda>(g, segments, displaced, remaining, cursor). nat remaining,
    \<lambda>(g, segments, displaced, remaining, cursor). length (blockers_ahead (gr_Rank g) cursor segments)]", goal_cases)
  case 1
  show ?case by simp
next
  case (2 g segments displaced remaining cursor blocker endAt)
  then obtain b where "blocker = Some b"
    by (cases "next_timeline_blocker segments (gr_Rank g) cursor") (auto simp: blocked_at_def grant_end_def)
  then show ?case using 2 blocker_is_passed [of segments "gr_Rank g" cursor b] by (simp add: blocker_end_def)
next
  case (3 g segments displaced remaining cursor blocker endAt inserted)
  then show ?case by simp
qed

declare place_loop.simps [simp del]

definition place_timeline_grant ::
  "timeline_segment list \<Rightarrow> timeline_grant \<Rightarrow> repo_err + timeline_segment list \<times> timeline_grant list" where
  "place_timeline_grant existing g =
     (if gr_Duration g \<le> 0 then Inl ErrInvalidInput
      else
        let placed = place_loop g (normalize_timeline existing) [] (gr_Duration g) (gr_StartAt g)
        in Inr (normalize_timeline (fst placed), snd placed))"

subsection \<open>Three views of a list of segments\<close>

definition seg_key :: "timeline_segment \<Rightarrow> timeline_segment" where
  "seg_key s = s\<lparr>sg_StartAt := 0, sg_EndAt := 0\<rparr>"

definition grant_key :: "timeline_grant \<Rightarrow> timeline_segment" where
  "grant_key g = allocate g 0 0"

definition time_of :: "(timeline_segment \<Rightarrow> bool) \<Rightarrow> timeline_segment list \<Rightarrow> int" where
  "time_of P segments = (\<Sum>s\<leftarrow>segments. if P (seg_key s) then sg_EndAt s - sg_StartAt s else 0)"

definition due :: "(timeline_segment \<Rightarrow> bool) \<Rightarrow> timeline_grant list \<Rightarrow> int" where
  "due P gs = (\<Sum>g\<leftarrow>gs. if P (grant_key g) then gr_Duration g else 0)"

definition covered :: "timeline_segment \<Rightarrow> gotime \<Rightarrow> timeline_segment list \<Rightarrow> bool" where
  "covered k t segments \<longleftrightarrow> (\<exists>s\<in>set segments. seg_key s = k \<and> sg_StartAt s \<le> t \<and> t < sg_EndAt s)"

definition timeline :: "timeline_segment list \<Rightarrow> bool" where
  "timeline segments \<longleftrightarrow>
     list_all segment_ok segments \<and> sorted_wrt (\<lambda>a b. sg_EndAt a \<le> sg_StartAt b) segments"

definition apart :: "timeline_segment list \<Rightarrow> bool" where
  "apart segments \<longleftrightarrow> sorted_wrt (\<lambda>a b. \<not> timeline_overlaps a b) segments"

lemma time_of_simps [simp]:
  "time_of P [] = 0"
  "time_of P (s # segs) = (if P (seg_key s) then sg_EndAt s - sg_StartAt s else 0) + time_of P segs"
  "time_of P (segs @ segs') = time_of P segs + time_of P segs'"
  by (simp_all add: time_of_def)

lemma due_simps [simp]:
  "due P [] = 0"
  "due P (g # gs) = (if P (grant_key g) then gr_Duration g else 0) + due P gs"
  "due P (gs @ gs') = due P gs + due P gs'"
  by (simp_all add: due_def)

lemma covered_simps [simp]:
  "\<not> covered k t []"
  "covered k t (s # segs) \<longleftrightarrow> seg_key s = k \<and> sg_StartAt s \<le> t \<and> t < sg_EndAt s \<or> covered k t segs"
  "covered k t (segs @ segs') \<longleftrightarrow> covered k t segs \<or> covered k t segs'"
  by (auto simp: covered_def)

lemma seg_key_simps [simp]:
  "seg_key (s\<lparr>sg_StartAt := a\<rparr>) = seg_key s" "seg_key (s\<lparr>sg_EndAt := b\<rparr>) = seg_key s"
  "seg_key (allocate g a b) = grant_key g"
  "sg_Rank (seg_key s) = sg_Rank s" "sg_PlanID (seg_key s) = sg_PlanID s" "sg_PriceID (seg_key s) = sg_PriceID s"
  "sg_SubscriptionID (seg_key s) = sg_SubscriptionID s" "sg_NewGrant (seg_key s) = sg_NewGrant s"
  by (simp_all add: seg_key_def grant_key_def allocate_def)

lemma grant_key_simps [simp]:
  "sg_Rank (grant_key g) = gr_Rank g" "sg_PlanID (grant_key g) = gr_PlanID g"
  "sg_PriceID (grant_key g) = gr_PriceID g" "sg_SubscriptionID (grant_key g) = gr_SubscriptionID g"
  "sg_NewGrant (grant_key g) = gr_NewGrant g"
  by (simp_all add: grant_key_def allocate_def)

lemma allocate_simps [simp]:
  "sg_StartAt (allocate g a b) = a" "sg_EndAt (allocate g a b) = b" "sg_Rank (allocate g a b) = gr_Rank g"
  "sg_PlanID (allocate g a b) = gr_PlanID g" "sg_PriceID (allocate g a b) = gr_PriceID g"
  "sg_NewGrant (allocate g a b) = gr_NewGrant g"
  by (simp_all add: allocate_def)

lemma can_merge_key: "can_merge a b \<longleftrightarrow> seg_key a = seg_key b \<and> sg_StartAt b \<le> sg_EndAt a"
  by (cases a; cases b) (auto simp: can_merge_def seg_key_def)

lemma rank_covered: "covered k t segs \<Longrightarrow> \<exists>s\<in>set segs. sg_Rank s = sg_Rank k \<and> sg_StartAt s \<le> t \<and> t < sg_EndAt s"
  by (auto simp: covered_def)

lemma mset_time_of: "mset xs = mset ys \<Longrightarrow> time_of P xs = time_of P ys"
  unfolding time_of_def sum_mset_sum_list [symmetric] mset_map by simp

lemma mset_covered: "mset xs = mset ys \<Longrightarrow> covered k t xs = covered k t ys"
  by (simp add: covered_def) (metis set_mset_mset)

lemma overlaps_sym: "timeline_overlaps a b \<longleftrightarrow> timeline_overlaps b a"
  by (auto simp: timeline_overlaps_def)

lemma apart_simps [simp]:
  "apart []"
  "apart (s # segs) \<longleftrightarrow> (\<forall>x\<in>set segs. \<not> timeline_overlaps s x) \<and> apart segs"
  "apart (segs @ segs') \<longleftrightarrow>
     apart segs \<and> apart segs' \<and> (\<forall>x\<in>set segs. \<forall>y\<in>set segs'. \<not> timeline_overlaps x y)"
  by (auto simp: apart_def sorted_wrt_append)

lemma mset_apart: "mset xs = mset ys \<Longrightarrow> apart xs \<Longrightarrow> apart ys"
proof (induction xs arbitrary: ys)
  case (Cons x xs)
  then have "x \<in> set ys" by (metis list.set_intros(1) set_mset_mset)
  then obtain l r where ys: "ys = l @ x # r" by (meson split_list)
  with Cons.prems(1) have m: "mset xs = mset (l @ r)" by simp
  have "apart (l @ r)" using Cons.prems(2) by (intro Cons.IH [OF m]) simp
  moreover have "set xs = set (l @ r)" using m by (metis set_mset_mset)
  ultimately show ?case using Cons.prems(2) ys overlaps_sym by auto
qed simp

lemma timeline_simps [simp]:
  "timeline []"
  "timeline (s # segs) \<longleftrightarrow> segment_ok s \<and> (\<forall>x\<in>set segs. sg_EndAt s \<le> sg_StartAt x) \<and> timeline segs"
  by (auto simp: timeline_def)

lemma timeline_ok: "timeline segs \<Longrightarrow> s \<in> set segs \<Longrightarrow> segment_ok s"
  by (auto simp: timeline_def list_all_iff)

lemma segment_ok_less: "segment_ok s \<Longrightarrow> sg_StartAt s < sg_EndAt s"
  by (auto simp: segment_ok_def)

lemma timeline_apart: "timeline segs \<Longrightarrow> apart segs"
  by (induction segs) (auto simp: timeline_overlaps_def)

lemma sorted_apart_timeline:
  assumes "list_all segment_ok segs" and "apart segs" and "sorted_wrt (\<lambda>a b. sg_StartAt a \<le> sg_StartAt b) segs"
  shows "timeline segs"
  using assms
proof (induction segs)
  case (Cons s segs)
  have "sg_EndAt s \<le> sg_StartAt x" if "x \<in> set segs" for x
    using Cons.prems that by (auto simp: timeline_overlaps_def list_all_iff dest!: bspec segment_ok_less)
  then show ?case using Cons by auto
qed simp

lemma sorted_segments_start: "sorted_wrt (\<lambda>a b. sg_StartAt a \<le> sg_StartAt b) (sort_key segment_order segs)"
proof -
  have "sorted_wrt (\<lambda>a b. segment_order a \<le> segment_order b) (sort_key segment_order segs)"
    using sorted_sort_key [of segment_order segs] by (simp add: sorted_map)
  then show ?thesis
    by (rule sorted_wrt_mono_rel [rotated])
      (auto simp: less_eq_segment_order_def less_segment_order_def segment_order_def split: if_splits)
qed

lemma sorted_timeline:
  assumes "apart (filter segment_ok segs)"
  shows "timeline (sort_key segment_order (filter segment_ok segs))"
proof (rule sorted_apart_timeline)
  show "list_all segment_ok (sort_key segment_order (filter segment_ok segs))" by (simp add: list_all_iff)
  show "apart (sort_key segment_order (filter segment_ok segs))"
    using assms by (rule mset_apart [rotated]) simp
qed (rule sorted_segments_start)

subsection \<open>Normalising loses nothing\<close>

lemma merge_segments_keys: "seg_key ` set (merge_segments s segs) \<subseteq> seg_key ` set (s # segs)"
proof (induction s segs rule: merge_segments.induct)
  case (2 s item items)
  then show ?case by (cases "can_merge s item") (auto simp: image_subset_iff)
qed simp

lemma merge_segments_timeline:
  "timeline (s # segs) \<Longrightarrow>
     timeline (merge_segments s segs) \<and> (\<forall>x\<in>set (merge_segments s segs). sg_StartAt s \<le> sg_StartAt x)
     \<and> time_of P (merge_segments s segs) = time_of P (s # segs)
     \<and> (covered k t (merge_segments s segs) \<longleftrightarrow> covered k t (s # segs))"
proof (induction s segs rule: merge_segments.induct)
  case (2 s item items)
  note item = segment_ok_less [of item] segment_ok_less [of s]
  show ?case
  proof (cases "can_merge s item")
    case True
    let ?s = "if after (sg_EndAt item) (sg_EndAt s) then s\<lparr>sg_EndAt := sg_EndAt item\<rparr> else s"
    have "sg_EndAt s = sg_StartAt item" and key: "seg_key s = seg_key item"
      using 2(3) True by (auto simp: can_merge_key)
    moreover have "sg_StartAt item < sg_EndAt item" using 2(3) item by simp
    ultimately have s: "?s = s\<lparr>sg_EndAt := sg_EndAt item\<rparr>" and end_s: "sg_EndAt s = sg_StartAt item" by auto
    have "timeline (?s # items)" using 2(3) item end_s by (auto simp: s segment_ok_def)
    from 2(1) [OF True this] show ?thesis
      using True item 2(3) key end_s by (auto simp: s)
  next
    case False
    have "timeline (item # items)" using 2(3) by simp
    from 2(2) [OF False this] show ?thesis using False 2(3) item by fastforce
  qed
qed simp

lemma normalize_timeline:
  assumes "apart (filter segment_ok segs)"
  shows "timeline (normalize_timeline segs)"
    and "time_of P (normalize_timeline segs) = time_of P (filter segment_ok segs)"
    and "covered k t (normalize_timeline segs) \<longleftrightarrow> covered k t (filter segment_ok segs)"
proof -
  let ?s = "sort_key segment_order (filter segment_ok segs)"
  have t: "timeline ?s" using assms by (rule sorted_timeline)
  have m: "mset ?s = mset (filter segment_ok segs)" by simp
  show "timeline (normalize_timeline segs)"
    using t merge_segments_timeline by (auto simp: normalize_timeline_def split: list.split)
  show "time_of P (normalize_timeline segs) = time_of P (filter segment_ok segs)"
    unfolding mset_time_of [OF m, symmetric] using t merge_segments_timeline
    by (auto simp: normalize_timeline_def split: list.split)
  show "covered k t (normalize_timeline segs) \<longleftrightarrow> covered k t (filter segment_ok segs)"
    unfolding mset_covered [OF m, symmetric] using t merge_segments_timeline
    by (auto simp: normalize_timeline_def split: list.split)
qed

lemma normalize_keys: "seg_key ` set (normalize_timeline segs) \<subseteq> seg_key ` set segs"
proof (cases "sort_key segment_order (filter segment_ok segs)")
  case (Cons s ss)
  then have "set (s # ss) \<subseteq> set segs" by (metis filter_is_subset set_sort)
  then show ?thesis using merge_segments_keys [of s ss] Cons by (auto simp: normalize_timeline_def)
qed (simp add: normalize_timeline_def)

lemma normalize_of_timeline:
  assumes "timeline segs"
  shows "timeline (normalize_timeline segs)"
    and "time_of P (normalize_timeline segs) = time_of P segs"
    and "covered k t (normalize_timeline segs) \<longleftrightarrow> covered k t segs"
proof -
  have "filter segment_ok segs = segs" using assms by (auto simp: filter_id_conv dest: timeline_ok)
  then show "timeline (normalize_timeline segs)"
    and "time_of P (normalize_timeline segs) = time_of P segs"
    and "covered k t (normalize_timeline segs) \<longleftrightarrow> covered k t segs"
    using normalize_timeline [of segs] timeline_apart [OF assms] by simp_all
qed

subsection \<open>Inserting a segment\<close>

abbreviation kept_pieces :: "timeline_segment \<Rightarrow> timeline_segment list \<Rightarrow> timeline_segment list" where
  "kept_pieces a segs \<equiv> concat (map (\<lambda>item. if keeps_place a item then [item] else cut_segment a item) segs)"

abbreviation displaced_grants :: "timeline_segment \<Rightarrow> timeline_segment list \<Rightarrow> timeline_grant list" where
  "displaced_grants a segs \<equiv> concat (map (\<lambda>item. if keeps_place a item then [] else displaced_grant a item) segs)"

lemmas cut_defs = cut_segment_def displaced_grant_def keeps_place_def timeline_overlaps_def
  min_time_def max_time_def grant_key_def allocate_def seg_key_def

lemma displaced_grant_key: "g \<in> set (displaced_grant a s) \<Longrightarrow> grant_key g = seg_key s"
  by (auto simp: cut_defs Let_def split: if_splits)

lemma cut_segment_key: "x \<in> set (cut_segment a s) \<Longrightarrow> seg_key x = seg_key s"
  by (auto simp: cut_segment_def Let_def split: if_splits)

lemma cut_time:
  assumes "segment_ok s" and "segment_ok a" and "\<not> keeps_place a s"
  shows "time_of P (cut_segment a s) + due P (displaced_grant a s) = time_of P [s]"
proof -
  have "due P (displaced_grant a s) = (if P (seg_key s) then
      min_time (sg_EndAt s) (sg_EndAt a) - max_time (sg_StartAt s) (sg_StartAt a) else 0)"
    using assms displaced_grant_key [of _ a s]
    by (auto simp: displaced_grant_def Let_def keeps_place_def timeline_overlaps_def min_time_def max_time_def
        dest: segment_ok_less split: if_splits)
  then show ?thesis
    using assms by (auto simp: cut_segment_def Let_def min_time_def max_time_def)
qed

lemma kept_time:
  assumes "list_all segment_ok segs" and "segment_ok a"
  shows "time_of P (kept_pieces a segs) + due P (displaced_grants a segs) = time_of P segs"
  using assms
proof (induction segs)
  case (Cons s segs)
  then show ?case using cut_time [of s a P] by (cases "keeps_place a s") auto
qed simp

lemma displaced_grants_facts:
  assumes "g \<in> set (displaced_grants a segs)"
  shows "gr_Rank g < sg_Rank a" and "0 < gr_Duration g" and "\<exists>s\<in>set segs. grant_key g = seg_key s"
    and "sg_EndAt a \<le> gr_StartAt g"
proof -
  obtain s where s: "s \<in> set segs" "\<not> keeps_place a s" "g \<in> set (displaced_grant a s)"
    using assms by (auto split: if_splits)
  have k: "grant_key g = seg_key s" using s(3) by (rule displaced_grant_key)
  show "\<exists>s\<in>set segs. grant_key g = seg_key s" using s(1) k by blast
  have "gr_Rank g = sg_Rank s" using arg_cong [OF k, of sg_Rank] by simp
  then show "gr_Rank g < sg_Rank a" using s(2) by (simp add: keeps_place_def)
  show "0 < gr_Duration g" using s(3) by (auto simp: displaced_grant_def Let_def split: if_splits)
  show "sg_EndAt a \<le> gr_StartAt g" using s(3) by (auto simp: displaced_grant_def Let_def max_time_def split: if_splits)
qed

text \<open>The condition under which a segment is inserted: what keeps its place is not touched.\<close>

definition fits :: "timeline_segment \<Rightarrow> timeline_segment list \<Rightarrow> bool" where
  "fits a segs \<longleftrightarrow> segment_ok a \<and> (\<forall>s\<in>set segs. sg_Rank a \<le> sg_Rank s \<longrightarrow> \<not> timeline_overlaps s a)"

lemma cut_within:
  assumes "x \<in> set (cut_segment a s)" and "segment_ok s" and "segment_ok a" and "timeline_overlaps s a"
  shows "segment_ok x" and "sg_StartAt s \<le> sg_StartAt x" and "sg_EndAt x \<le> sg_EndAt s"
    and "\<not> timeline_overlaps x a"
  using assms
  by (auto simp: cut_segment_def timeline_overlaps_def Let_def min_time_def max_time_def segment_ok_def split: if_splits)

lemma cut_covered:
  assumes "segment_ok s" and "timeline_overlaps s a"
  shows "covered k t (cut_segment a s) \<longleftrightarrow> covered k t [s] \<and> \<not> (sg_StartAt a \<le> t \<and> t < sg_EndAt a)"
  using assms
  by (auto simp: cut_segment_def timeline_overlaps_def Let_def min_time_def max_time_def segment_ok_def split: if_splits)

lemma cut_apart: "timeline_overlaps s a \<Longrightarrow> segment_ok a \<Longrightarrow> apart (cut_segment a s)"
  by (auto simp: segment_ok_def cut_segment_def timeline_overlaps_def Let_def min_time_def max_time_def)

lemma kept_ok: "list_all segment_ok segs \<Longrightarrow> segment_ok a \<Longrightarrow> list_all segment_ok (kept_pieces a segs)"
  by (induction segs) (auto simp: list_all_iff keeps_place_def dest: cut_within(1))

lemma kept_within:
  assumes "x \<in> set (kept_pieces a segs)" and "list_all segment_ok segs" and "segment_ok a"
  shows "\<exists>s\<in>set segs. sg_StartAt s \<le> sg_StartAt x \<and> sg_EndAt x \<le> sg_EndAt s"
proof -
  obtain s where s: "s \<in> set segs" "x \<in> set (if keeps_place a s then [s] else cut_segment a s)"
    using assms(1) by auto
  then show ?thesis
    using cut_within(2,3) [of x a s] assms by (cases "keeps_place a s") (auto simp: list_all_iff keeps_place_def)
qed

lemma kept_not_overlap:
  assumes "fits a segs" and "list_all segment_ok segs" and "x \<in> set (kept_pieces a segs)"
  shows "\<not> timeline_overlaps x a"
proof -
  obtain s where s: "s \<in> set segs" "x \<in> set (if keeps_place a s then [s] else cut_segment a s)"
    using assms(3) by auto
  have ok: "segment_ok s" "segment_ok a" using s(1) assms(1,2) by (auto simp: list_all_iff fits_def)
  show ?thesis
  proof (cases "keeps_place a s")
    case True
    then show ?thesis using s assms(1) by (auto simp: keeps_place_def fits_def)
  next
    case False
    then show ?thesis using s(2) cut_within(4) [of x a s] ok by (simp add: keeps_place_def)
  qed
qed

lemma within_not_overlap:
  assumes "\<not> timeline_overlaps s s'" and "segment_ok s" and "segment_ok s'"
    and "sg_StartAt s \<le> sg_StartAt x" and "sg_EndAt x \<le> sg_EndAt s"
    and "sg_StartAt s' \<le> sg_StartAt x'" and "sg_EndAt x' \<le> sg_EndAt s'"
  shows "\<not> timeline_overlaps x x'"
  using assms by (auto simp: timeline_overlaps_def segment_ok_def)

lemma kept_apart:
  assumes "list_all segment_ok segs" and "apart segs" and "segment_ok a"
  shows "apart (kept_pieces a segs)"
  using assms
proof (induction segs)
  case (Cons s segs)
  let ?p = "if keeps_place a s then [s] else cut_segment a s"
  have w: "sg_StartAt s \<le> sg_StartAt x \<and> sg_EndAt x \<le> sg_EndAt s" if "x \<in> set ?p" for x
    using that Cons.prems cut_within(2,3) [of x a s] by (auto simp: keeps_place_def split: if_splits)
  have "apart ?p" using cut_apart [of s a] Cons.prems(3) by (auto simp: keeps_place_def)
  moreover have "\<not> timeline_overlaps x y" if x: "x \<in> set ?p" and y: "y \<in> set (kept_pieces a segs)" for x y
  proof -
    obtain s' where s': "s' \<in> set segs" "sg_StartAt s' \<le> sg_StartAt y" "sg_EndAt y \<le> sg_EndAt s'"
      using kept_within [OF y] Cons.prems by auto
    then show ?thesis
      using within_not_overlap [of s s' x y] w [OF x] Cons.prems by (auto simp: list_all_iff)
  qed
  ultimately show ?case using Cons by (auto split: if_splits)
qed simp

lemma kept_covered:
  assumes "fits a segs" and "list_all segment_ok segs"
  shows "covered k t (kept_pieces a segs) \<longleftrightarrow> covered k t segs \<and> \<not> (sg_StartAt a \<le> t \<and> t < sg_EndAt a)"
  using assms
proof (induction segs)
  case (Cons s segs)
  have f: "fits a segs" using Cons.prems by (simp add: fits_def)
  have "covered k t (if keeps_place a s then [s] else cut_segment a s)
      \<longleftrightarrow> covered k t [s] \<and> \<not> (sg_StartAt a \<le> t \<and> t < sg_EndAt a)"
  proof (cases "keeps_place a s")
    case True
    then have "\<not> timeline_overlaps s a" using Cons.prems by (auto simp: fits_def keeps_place_def)
    then show ?thesis using True by (auto simp: timeline_overlaps_def)
  next
    case False
    then show ?thesis using cut_covered [of s a k t] Cons.prems by (auto simp: keeps_place_def)
  qed
  then show ?case using Cons f by auto
qed simp

lemma insert_segment:
  assumes "timeline segs" and "fits a segs" and "insert_timeline_segment segs a = (segs', moved)"
  shows "timeline segs'"
    and "time_of P segs' + due P moved = time_of P segs + time_of P [a]"
    and "covered k t segs' \<longleftrightarrow> (if sg_StartAt a \<le> t \<and> t < sg_EndAt a then k = seg_key a else covered k t segs)"
    and "g \<in> set moved \<Longrightarrow> gr_Rank g < sg_Rank a \<and> 0 < gr_Duration g \<and> (\<exists>s\<in>set segs. grant_key g = seg_key s)
          \<and> sg_EndAt a \<le> gr_StartAt g"
    and "seg_key ` set segs' \<subseteq> seg_key ` set (a # segs)"
proof -
  have ok: "list_all segment_ok segs" "segment_ok a" using assms by (simp_all add: timeline_def fits_def)
  let ?raw = "kept_pieces a segs @ [a]"
  have fil: "filter segment_ok ?raw = ?raw" using kept_ok [OF ok] ok by (simp add: list_all_iff filter_id_conv)
  have raw: "apart (filter segment_ok ?raw)"
    unfolding fil using kept_apart [OF ok(1) timeline_apart ok(2)] kept_not_overlap [OF assms(2) ok(1)] assms(1) by auto
  have eq: "segs' = normalize_timeline ?raw" "moved = displaced_grants a segs"
    using assms(3) by (simp_all add: insert_timeline_segment_def)
  show "timeline segs'" unfolding eq by (rule normalize_timeline(1) [OF raw])
  show "time_of P segs' + due P moved = time_of P segs + time_of P [a]"
    unfolding eq normalize_timeline(2) [OF raw] fil using kept_time [OF ok, of P] by simp
  show "covered k t segs' \<longleftrightarrow> (if sg_StartAt a \<le> t \<and> t < sg_EndAt a then k = seg_key a else covered k t segs)"
    unfolding eq normalize_timeline(3) [OF raw] fil using kept_covered [OF assms(2) ok(1), of k t] by auto
  show "gr_Rank g < sg_Rank a \<and> 0 < gr_Duration g \<and> (\<exists>s\<in>set segs. grant_key g = seg_key s)
      \<and> sg_EndAt a \<le> gr_StartAt g" if "g \<in> set moved"
    using that displaced_grants_facts [of g a segs] unfolding eq by blast
  have "seg_key ` set ?raw \<subseteq> seg_key ` set (a # segs)"
    by (auto dest: cut_segment_key split: if_splits)
  then show "seg_key ` set segs' \<subseteq> seg_key ` set (a # segs)"
    unfolding eq using normalize_keys [of ?raw] by blast
qed

subsection \<open>Placing a grant\<close>

text \<open>What placing \<open>d\<close> of a grant from \<open>cursor\<close> on does to the timeline.\<close>

definition at_least_until :: "int \<Rightarrow> gotime \<Rightarrow> gotime \<Rightarrow> timeline_segment list \<Rightarrow> bool" where
  "at_least_until rank a b segs \<longleftrightarrow>
     (\<forall>u. a \<le> u \<longrightarrow> u \<le> b \<longrightarrow> (\<exists>k. rank \<le> sg_Rank k \<and> covered k u segs))"

definition placed ::
  "timeline_grant \<Rightarrow> gotime \<Rightarrow> duration \<Rightarrow> timeline_segment list \<Rightarrow> timeline_segment list \<Rightarrow> timeline_grant list \<Rightarrow> bool"
where
  "placed g cursor d segs segs' moved \<longleftrightarrow>
     timeline segs'
     \<and> seg_key ` set segs' \<subseteq> insert (grant_key g) (seg_key ` set segs)
     \<and> (\<forall>m\<in>set moved. gr_Rank m < gr_Rank g \<and> 0 < gr_Duration m \<and> grant_key m \<in> seg_key ` set segs
          \<and> cursor \<le> gr_StartAt m)
     \<and> (\<forall>P. time_of P segs' + due P moved = time_of P segs + (if P (grant_key g) then d else 0))
     \<and> (\<forall>k t. gr_Rank g \<le> sg_Rank k \<longrightarrow> covered k t segs \<longrightarrow> covered k t segs')
     \<and> (\<forall>k t. covered k t segs' \<longrightarrow>
          covered k t segs \<or> k = grant_key g \<and> cursor \<le> t \<and> at_least_until (gr_Rank g) cursor t segs')"

lemma placedD:
  assumes "placed g cursor d segs segs' moved"
  shows "timeline segs'" and "seg_key ` set segs' \<subseteq> insert (grant_key g) (seg_key ` set segs)"
    and "m \<in> set moved \<Longrightarrow> gr_Rank m < gr_Rank g \<and> 0 < gr_Duration m \<and> grant_key m \<in> seg_key ` set segs
          \<and> cursor \<le> gr_StartAt m"
    and "time_of P segs' + due P moved = time_of P segs + (if P (grant_key g) then d else 0)"
    and "gr_Rank g \<le> sg_Rank k \<Longrightarrow> covered k t segs \<Longrightarrow> covered k t segs'"
    and "covered k t segs' \<Longrightarrow>
          covered k t segs \<or> k = grant_key g \<and> cursor \<le> t \<and> at_least_until (gr_Rank g) cursor t segs'"
  using assms by (simp_all add: placed_def)

lemma allocation_fits:
  assumes "timeline segs" and "gr_PlanID g \<noteq> 0" and "gr_PriceID g \<noteq> 0"
    and b: "blocker = next_timeline_blocker segs (gr_Rank g) cursor"
    and e: "endAt = grant_end blocker cursor remaining"
    and "\<not> (blocked_at blocker cursor \<or> \<not> after endAt cursor)"
  shows "fits (allocate g cursor endAt) segs" and "cursor < endAt" and "endAt \<le> cursor + remaining"
proof -
  show less: "cursor < endAt" using assms(6) by simp
  show "endAt \<le> cursor + remaining" unfolding e by (auto simp: grant_end_def split: option.split)
  have "\<not> timeline_overlaps s (allocate g cursor endAt)" if s: "s \<in> set segs" "gr_Rank g \<le> sg_Rank s" for s
  proof (cases "cursor < sg_EndAt s")
    case True
    then have "s \<in> set (blockers_ahead (gr_Rank g) cursor segs)" using s by (simp add: blockers_ahead_def)
    then obtain x where x: "blocker = Some x"
      unfolding b using next_blocker_None [of segs "gr_Rank g" cursor] by (cases "next_timeline_blocker segs (gr_Rank g) cursor") auto
    have "sg_StartAt x \<le> sg_StartAt s" using next_blocker_Some(4) [OF x [unfolded b]] s True by simp
    then show ?thesis using x e by (auto simp: grant_end_def timeline_overlaps_def split: if_splits)
  qed (simp add: timeline_overlaps_def)
  then show "fits (allocate g cursor endAt) segs"
    using less assms(2,3) by (simp add: fits_def segment_ok_def)
qed

lemma placed_jump:
  assumes "next_timeline_blocker segs (gr_Rank g) cursor = Some b" and "sg_StartAt b \<le> cursor"
    and "placed g (sg_EndAt b) d segs segs' moved"
  shows "placed g cursor d segs segs' moved"
proof -
  note b = next_blocker_Some [OF assms(1)]
  have "at_least_until (gr_Rank g) cursor t segs'" if "at_least_until (gr_Rank g) (sg_EndAt b) t segs'" for t
    unfolding at_least_until_def
  proof (intro allI impI)
    fix u assume u: "cursor \<le> u" "u \<le> t"
    show "\<exists>k. gr_Rank g \<le> sg_Rank k \<and> covered k u segs'"
    proof (cases "u < sg_EndAt b")
      case True
      then have "covered (seg_key b) u segs" using b(1) u assms(2) by (auto simp: covered_def)
      then show ?thesis using assms(3) b(2) by (intro exI [of _ "seg_key b"]) (simp add: placed_def)
    next
      case False
      then show ?thesis using that u by (simp add: at_least_until_def)
    qed
  qed
  then show ?thesis
    using assms(3) b(3) unfolding placed_def by (meson less_imp_le order_trans)
qed

lemma placed_step:
  assumes t: "timeline segs" and fit: "fits (allocate g cursor endAt) segs" and lt: "cursor < endAt"
    and ins: "insert_timeline_segment segs (allocate g cursor endAt) = (mid, moved)"
    and rest: "placed g endAt (d - (endAt - cursor)) mid segs' moved'"
  shows "placed g cursor d segs segs' (moved @ moved')"
proof -
  note i = insert_segment [OF t fit ins, simplified]
  have keys: "seg_key ` set segs' \<subseteq> insert (grant_key g) (seg_key ` set segs)"
    using placedD(2) [OF rest] i(5) by blast
  have mv: "gr_Rank m < gr_Rank g \<and> 0 < gr_Duration m \<and> grant_key m \<in> seg_key ` set segs \<and> cursor \<le> gr_StartAt m"
    if "m \<in> set (moved @ moved')" for m
  proof (cases "m \<in> set moved")
    case True
    then show ?thesis using i(4) [OF True] lt by auto
  next
    case False
    then have m: "gr_Rank m < gr_Rank g" "0 < gr_Duration m" "grant_key m \<in> seg_key ` set mid" "cursor \<le> gr_StartAt m"
      using that placedD(3) [OF rest] lt by force+
    then have "grant_key m \<in> insert (grant_key g) (seg_key ` set segs)" using i(5) by auto
    moreover have "grant_key m \<noteq> grant_key g" using m(1) by (metis grant_key_simps(1) less_irrefl)
    ultimately show ?thesis using m by auto
  qed
  have time: "time_of P segs' + due P (moved @ moved') = time_of P segs + (if P (grant_key g) then d else 0)" for P
    using rest i(2) [of P] by (cases "P (grant_key g)") (auto simp: placed_def algebra_simps)
  have keep: "covered k t segs'" if "gr_Rank g \<le> sg_Rank k" "covered k t segs" for k t
  proof -
    have "\<not> (cursor \<le> t \<and> t < endAt)"
      using rank_covered [OF that(2)] that(1) fit by (auto simp: fits_def timeline_overlaps_def)
    then have "covered k t mid" using i(3) [of k t] that(2) by auto
    then show ?thesis by (rule placedD(5) [OF rest that(1)])
  qed
  have new: "covered (grant_key g) u segs'" if "cursor \<le> u" "u < endAt" for u
    using placedD(5) [OF rest, of "grant_key g" u] i(3) [of "grant_key g" u] that by simp
  have "covered k t segs \<or> k = grant_key g \<and> cursor \<le> t \<and> at_least_until (gr_Rank g) cursor t segs'"
    if c: "covered k t segs'" for k t
  proof -
    have "covered k t mid \<or> k = grant_key g \<and> endAt \<le> t \<and> at_least_until (gr_Rank g) endAt t segs'"
      using placedD(6) [OF rest c] .
    then show ?thesis
    proof
      assume "covered k t mid"
      then have "covered k t segs \<or> k = grant_key g \<and> cursor \<le> t \<and> t < endAt"
        using i(3) [of k t] by (auto split: if_splits)
      moreover have "at_least_until (gr_Rank g) cursor t segs'" if "t < endAt"
        using that new by (auto simp: at_least_until_def intro!: exI [of _ "grant_key g"])
      ultimately show ?thesis by blast
    next
      assume a: "k = grant_key g \<and> endAt \<le> t \<and> at_least_until (gr_Rank g) endAt t segs'"
      then have "at_least_until (gr_Rank g) cursor t segs'"
        using new by (auto simp: at_least_until_def) (metis grant_key_simps(1) not_le order_refl)
      then show ?thesis using a lt by auto
    qed
  qed
  then show ?thesis using placedD(1) [OF rest] keys mv time keep unfolding placed_def by blast
qed

lemma place_loop_placed:
  "timeline segs \<Longrightarrow> gr_PlanID g \<noteq> 0 \<Longrightarrow> gr_PriceID g \<noteq> 0 \<Longrightarrow>
     \<exists>segs' moved. place_loop g segs disp remaining cursor = (segs', disp @ moved)
       \<and> placed g cursor (max 0 remaining) segs segs' moved"
proof (induction g segs disp remaining cursor rule: place_loop.induct)
  case (1 g segs disp remaining cursor)
  let ?b = "next_timeline_blocker segs (gr_Rank g) cursor"
  let ?e = "grant_end ?b cursor remaining"
  show ?case
  proof (cases "remaining \<le> 0")
    case True
    then show ?thesis using 1(3) by (auto simp: place_loop.simps [of g segs] placed_def)
  next
    case False
    show ?thesis
    proof (cases "blocked_at ?b cursor \<or> \<not> after ?e cursor")
      case True
      then obtain b where b: "?b = Some b" "sg_StartAt b \<le> cursor"
        using False by (cases ?b) (auto simp: blocked_at_def grant_end_def split: if_splits)
      have "place_loop g segs disp remaining cursor = place_loop g segs disp remaining (sg_EndAt b)"
        using False True b by (subst place_loop.simps) (simp add: Let_def blocker_end_def)
      then show ?thesis
        using 1(1) [OF False refl refl True 1(3-5)] placed_jump [OF b] by (auto simp: blocker_end_def b)
    next
      case ok: False
      note f = allocation_fits [OF 1(3-5) refl refl ok]
      obtain mid moved where ins: "insert_timeline_segment segs (allocate g cursor ?e) = (mid, moved)" by force
      have t: "timeline mid" by (rule insert_segment(1) [OF 1(3) f(1) ins])
      have "place_loop g segs disp remaining cursor = place_loop g mid (disp @ moved) (remaining - (?e - cursor)) ?e"
        using False ok ins by (subst place_loop.simps) (simp add: Let_def)
      moreover obtain segs' moved' where
        "place_loop g mid (disp @ moved) (remaining - (?e - cursor)) ?e = (segs', (disp @ moved) @ moved')"
        and p: "placed g ?e (max 0 (remaining - (?e - cursor))) mid segs' moved'"
        using 1(2) [OF False refl refl ok refl] t 1(4,5) ins by auto
      moreover have "placed g cursor (max 0 remaining) segs segs' (moved @ moved')"
        using placed_step [OF 1(3) f(1,2) ins, of "max 0 remaining"] p f(2,3) False by (simp add: max_def)
      ultimately show ?thesis by simp
    qed
  qed
qed

lemma place_timeline_grant_placed:
  assumes "timeline segs" and "gr_PlanID g \<noteq> 0" and "gr_PriceID g \<noteq> 0" and "0 < gr_Duration g"
  shows "\<exists>segs' moved. place_timeline_grant segs g = Inr (segs', moved)
      \<and> placed g (gr_StartAt g) (gr_Duration g) segs segs' moved"
proof -
  note n = normalize_of_timeline [OF assms(1)]
  obtain mid moved where p: "place_loop g (normalize_timeline segs) [] (gr_Duration g) (gr_StartAt g) = (mid, moved)"
    and pl: "placed g (gr_StartAt g) (gr_Duration g) (normalize_timeline segs) mid moved"
    using place_loop_placed [OF n(1) assms(2,3), of "[]" "gr_Duration g" "gr_StartAt g"]
    unfolding max_absorb2 [OF less_imp_le [OF assms(4)]] append_Nil by (elim exE conjE) (rule that)
  note m = normalize_of_timeline [OF placedD(1) [OF pl]]
  have "placed g (gr_StartAt g) (gr_Duration g) segs (normalize_timeline mid) moved"
    unfolding placed_def at_least_until_def m
  proof (intro conjI ballI allI impI)
    show "seg_key ` set (normalize_timeline mid) \<subseteq> insert (grant_key g) (seg_key ` set segs)"
      by (rule order_trans [OF normalize_keys order_trans [OF placedD(2) [OF pl] insert_mono [OF normalize_keys]]])
    show "grant_key x \<in> seg_key ` set segs" if "x \<in> set moved" for x
      using placedD(3) [OF pl that] subsetD [OF normalize_keys [of segs]] by simp
    fix k t P
    show "time_of P mid + due P moved = time_of P segs + (if P (grant_key g) then gr_Duration g else 0)"
      using placedD(4) [OF pl, of P] n(2) [of P] by simp
    show "covered k t mid" if "gr_Rank g \<le> sg_Rank k" and "covered k t segs"
      using placedD(5) [OF pl that(1), of t] that(2) n(3) [of k t] by simp
    assume "covered k t mid"
    then show "covered k t segs \<or> k = grant_key g \<and> gr_StartAt g \<le> t
        \<and> (\<forall>u\<ge>gr_StartAt g. u \<le> t \<longrightarrow> (\<exists>k. gr_Rank g \<le> sg_Rank k \<and> covered k u mid))"
      using placedD(6) [OF pl, of k t] n(3) [of k t] by (simp add: at_least_until_def)
  qed (use placedD(3) [OF pl] m(1) in simp_all)
  then show ?thesis using p assms(4) by (simp add: place_timeline_grant_def)
qed

subsection \<open>Building the timeline\<close>

text \<open>
  The queue of \<open>buildSubscriptionTimeline\<close> is a stack: what a placement displaces is placed next.
  It empties because a displaced grant has a smaller rank than the one that displaced it.
\<close>

definition rank_below :: "int set \<Rightarrow> int \<Rightarrow> nat" where
  "rank_below ranks r = card {x \<in> ranks. x < r}"

definition ranks_of :: "timeline_segment list \<Rightarrow> timeline_grant list \<Rightarrow> int set" where
  "ranks_of segs queue = sg_Rank ` set segs \<union> gr_Rank ` set queue"

definition queue_measure :: "timeline_segment list \<Rightarrow> timeline_grant list \<Rightarrow> nat multiset" where
  "queue_measure segs queue = mset (map (\<lambda>g. rank_below (ranks_of segs queue) (gr_Rank g)) queue)"

lemma insert_ranks:
  assumes "insert_timeline_segment segs a = (segs', moved)"
  shows "sg_Rank ` set segs' \<subseteq> insert (sg_Rank a) (sg_Rank ` set segs)"
    and "m \<in> set moved \<Longrightarrow> gr_Rank m < sg_Rank a \<and> gr_Rank m \<in> sg_Rank ` set segs"
proof -
  have eq: "segs' = normalize_timeline (kept_pieces a segs @ [a])" "moved = displaced_grants a segs"
    using assms by (simp_all add: insert_timeline_segment_def)
  have "seg_key ` set segs' \<subseteq> seg_key ` set (a # segs)"
    unfolding eq using normalize_keys [of "kept_pieces a segs @ [a]"] cut_segment_key
    by (auto split: if_splits)
  from image_mono [OF this, of sg_Rank] show "sg_Rank ` set segs' \<subseteq> insert (sg_Rank a) (sg_Rank ` set segs)"
    by (simp add: image_image)
  show "gr_Rank m < sg_Rank a \<and> gr_Rank m \<in> sg_Rank ` set segs" if mv: "m \<in> set moved"
  proof -
    obtain s where s: "s \<in> set segs" "grant_key m = seg_key s"
      using displaced_grants_facts(3) [of m a segs] mv unfolding eq by blast
    then have "gr_Rank m = sg_Rank s" by (metis grant_key_simps(1) seg_key_simps(4))
    then show ?thesis using displaced_grants_facts(1) [of m a segs] mv s(1) unfolding eq by blast
  qed
qed

lemma place_loop_ranks:
  "place_loop g segs disp remaining cursor = (segs', disp') \<Longrightarrow>
     sg_Rank ` set segs' \<subseteq> insert (gr_Rank g) (sg_Rank ` set segs)
     \<and> (\<forall>m\<in>set disp'. m \<in> set disp \<or> gr_Rank m < gr_Rank g \<and> gr_Rank m \<in> sg_Rank ` set segs)"
proof (induction g segs disp remaining cursor rule: place_loop.induct)
  case (1 g segs disp remaining cursor)
  let ?b = "next_timeline_blocker segs (gr_Rank g) cursor"
  let ?e = "grant_end ?b cursor remaining"
  let ?i = "insert_timeline_segment segs (allocate g cursor ?e)"
  show ?case
  proof (cases "remaining \<le> 0")
    case True
    then show ?thesis using 1(3) by (auto simp: place_loop.simps [of g segs])
  next
    case False
    show ?thesis
    proof (cases "blocked_at ?b cursor \<or> \<not> after ?e cursor")
      case True
      then show ?thesis using 1(1) [OF False refl refl True] 1(3) False by (subst (asm) place_loop.simps) (simp add: Let_def)
    next
      case ok: False
      have "place_loop g (fst ?i) (disp @ snd ?i) (remaining - (?e - cursor)) ?e = (segs', disp')"
        using 1(3) False ok by (subst (asm) place_loop.simps) (simp add: Let_def)
      from 1(2) [OF False refl refl ok refl this]
      have h: "sg_Rank ` set segs' \<subseteq> insert (gr_Rank g) (sg_Rank ` set (fst ?i))"
        "\<forall>m\<in>set disp'. m \<in> set (disp @ snd ?i) \<or> gr_Rank m < gr_Rank g \<and> gr_Rank m \<in> sg_Rank ` set (fst ?i)"
        by simp_all
      note i = insert_ranks [of segs "allocate g cursor ?e" "fst ?i" "snd ?i", simplified]
      show ?thesis
      proof
        show "sg_Rank ` set segs' \<subseteq> insert (gr_Rank g) (sg_Rank ` set segs)" using h(1) i(1) by blast
        show "\<forall>m\<in>set disp'. m \<in> set disp \<or> gr_Rank m < gr_Rank g \<and> gr_Rank m \<in> sg_Rank ` set segs"
        proof
          fix m assume "m \<in> set disp'"
          then consider "m \<in> set disp" | "m \<in> set (snd ?i)" | "gr_Rank m < gr_Rank g" "gr_Rank m \<in> sg_Rank ` set (fst ?i)"
            using h(2) by auto
          then show "m \<in> set disp \<or> gr_Rank m < gr_Rank g \<and> gr_Rank m \<in> sg_Rank ` set segs"
            by cases (use i(1) i(2) [of m] in auto)
        qed
      qed
    qed
  qed
qed

lemma place_grant_ranks:
  assumes "place_timeline_grant segs g = Inr (segs', moved)"
  shows "sg_Rank ` set segs' \<subseteq> insert (gr_Rank g) (sg_Rank ` set segs)"
    and "m \<in> set moved \<Longrightarrow> gr_Rank m < gr_Rank g \<and> gr_Rank m \<in> sg_Rank ` set segs"
proof -
  have norm: "sg_Rank ` set (normalize_timeline xs) \<subseteq> sg_Rank ` set xs" for xs
    using image_mono [OF normalize_keys [of xs], of sg_Rank] by (simp add: image_image)
  obtain mid moved' where p': "place_loop g (normalize_timeline segs) [] (gr_Duration g) (gr_StartAt g) = (mid, moved')"
    by (rule prod.exhaust)
  have "segs' = normalize_timeline mid" and mv: "moved' = moved"
    using assms unfolding place_timeline_grant_def Let_def p' by (simp_all split: if_splits)
  then have s: "segs' = normalize_timeline mid" by simp
  note p = p' [unfolded mv]
  note r = place_loop_ranks [OF p]
  show "sg_Rank ` set segs' \<subseteq> insert (gr_Rank g) (sg_Rank ` set segs)"
    unfolding s by (rule order_trans [OF norm order_trans [OF conjunct1 [OF r] insert_mono [OF norm]]])
  show "gr_Rank m < gr_Rank g \<and> gr_Rank m \<in> sg_Rank ` set segs" if "m \<in> set moved"
    using r that subsetD [OF norm [of segs]] by (metis empty_iff empty_set)
qed

lemma rank_below_mono: "finite B \<Longrightarrow> A \<subseteq> B \<Longrightarrow> rank_below A r \<le> rank_below B r"
  unfolding rank_below_def by (rule card_mono) auto

lemma rank_below_less: "finite B \<Longrightarrow> A \<subseteq> B \<Longrightarrow> q \<in> B \<Longrightarrow> q < r \<Longrightarrow> rank_below A q < rank_below B r"
  unfolding rank_below_def by (rule psubset_card_mono) auto

lemma map_mset_le: "(\<And>x. x \<in> set xs \<Longrightarrow> f x \<le> (h x :: nat)) \<Longrightarrow> mset (map f xs) \<le> mset (map h xs)"
proof (induction xs)
  case (Cons x xs)
  have "f x \<le> h x" by (rule Cons.prems) simp
  then have "{#f x#} \<le> {#h x#}" by auto
  then have "{#f x#} + mset (map f xs) \<le> {#h x#} + mset (map h xs)" using Cons by (intro add_mono) simp_all
  then show ?case by simp
qed simp

lemma queue_measure_decreases:
  assumes "place_timeline_grant segs g = Inr (segs', moved)"
  shows "queue_measure segs' (moved @ rest) < queue_measure segs (g # rest)"
proof -
  let ?R = "ranks_of segs (g # rest)" and ?R' = "ranks_of segs' (moved @ rest)"
  note p = place_grant_ranks [OF assms]
  have fin: "finite ?R" by (simp add: ranks_of_def)
  have sub: "?R' \<subseteq> ?R" using p by (auto simp: ranks_of_def)
  have "mset (map (\<lambda>m. rank_below ?R' (gr_Rank m)) moved) < {#rank_below ?R (gr_Rank g)#}"
  proof (rule ex_gt_imp_less_multiset, intro exI conjI allI impI)
    fix x assume "x \<in># mset (map (\<lambda>m. rank_below ?R' (gr_Rank m)) moved)"
    then obtain m where m: "m \<in> set moved" "x = rank_below ?R' (gr_Rank m)" by auto
    then have "gr_Rank m \<in> ?R" using p(2) by (auto simp: ranks_of_def)
    then show "x < rank_below ?R (gr_Rank g)" using m p(2) by (auto intro!: rank_below_less [OF fin sub])
  qed simp
  moreover have "mset (map (\<lambda>m. rank_below ?R' (gr_Rank m)) rest) \<le> mset (map (\<lambda>m. rank_below ?R (gr_Rank m)) rest)"
    by (intro map_mset_le rank_below_mono fin sub)
  ultimately have "mset (map (\<lambda>m. rank_below ?R' (gr_Rank m)) moved) + mset (map (\<lambda>m. rank_below ?R' (gr_Rank m)) rest)
      < {#rank_below ?R (gr_Rank g)#} + mset (map (\<lambda>m. rank_below ?R (gr_Rank m)) rest)"
    by (rule add_less_le_mono)
  then show ?thesis by (simp add: queue_measure_def)
qed

function build_loop :: "timeline_segment list \<Rightarrow> timeline_grant list \<Rightarrow> repo_err + timeline_segment list" where
  "build_loop segments [] = Inr (normalize_timeline segments)"
| "build_loop segments (current # queue) =
     (case place_timeline_grant segments current of
        Inl e \<Rightarrow> Inl e
      | Inr (segments', displaced) \<Rightarrow> build_loop segments' (displaced @ queue))"
  by pat_completeness auto
termination
  by (relation "inv_image {(M, N). M < N} (\<lambda>(segments, queue). queue_measure segments queue)")
    (simp_all add: wf_less_multiset queue_measure_decreases)

definition build_subscription_timeline ::
  "timeline_segment list \<Rightarrow> timeline_grant \<Rightarrow> repo_err + timeline_segment list" where
  "build_subscription_timeline existing g =
     (if gr_Duration g \<le> 0 then Inl ErrInvalidInput
      else build_loop (normalize_timeline existing) [g])"

definition built_from ::
  "timeline_segment list \<Rightarrow> timeline_grant list \<Rightarrow> timeline_segment list \<Rightarrow> bool" where
  "built_from segs queue built \<longleftrightarrow>
     timeline built
     \<and> seg_key ` set built \<subseteq> seg_key ` set segs \<union> grant_key ` set queue
     \<and> (\<forall>P. time_of P built = time_of P segs + due P queue)
     \<and> (\<forall>k t. (\<forall>g\<in>set queue. gr_Rank g < sg_Rank k) \<longrightarrow> (covered k t built \<longleftrightarrow> covered k t segs))
     \<and> (\<forall>b k t. (\<forall>k t. covered k t segs \<longrightarrow> b \<le> t) \<longrightarrow> (\<forall>g\<in>set queue. b \<le> gr_StartAt g) \<longrightarrow>
          covered k t built \<longrightarrow> b \<le> t)"

lemma built_fromD:
  assumes "built_from segs queue built"
  shows "timeline built" and "seg_key ` set built \<subseteq> seg_key ` set segs \<union> grant_key ` set queue"
    and "time_of P built = time_of P segs + due P queue"
    and "\<forall>g\<in>set queue. gr_Rank g < sg_Rank k \<Longrightarrow> covered k t built \<longleftrightarrow> covered k t segs"
    and "\<forall>k t. covered k t segs \<longrightarrow> b \<le> t \<Longrightarrow> \<forall>g\<in>set queue. b \<le> gr_StartAt g \<Longrightarrow> covered k t built \<Longrightarrow> b \<le> t"
  using assms unfolding built_from_def by blast+

lemma build_loop_built:
  "timeline segs \<Longrightarrow> \<forall>g\<in>set queue. gr_PlanID g \<noteq> 0 \<and> gr_PriceID g \<noteq> 0 \<and> 0 < gr_Duration g \<Longrightarrow>
     \<exists>built. build_loop segs queue = Inr built \<and> built_from segs queue built"
proof (induction segs queue rule: build_loop.induct)
  case (1 segs)
  note n = normalize_of_timeline [OF 1(1)]
  show ?case using n(1) n(2) n(3) normalize_keys [of segs] by (simp add: built_from_def)
next
  case (2 segs g queue)
  obtain mid moved where p: "place_timeline_grant segs g = Inr (mid, moved)"
    and pl: "placed g (gr_StartAt g) (gr_Duration g) segs mid moved"
    using place_timeline_grant_placed [OF 2(2), of g] 2(3) by auto
  have mv: "\<forall>m\<in>set (moved @ queue). gr_PlanID m \<noteq> 0 \<and> gr_PriceID m \<noteq> 0 \<and> 0 < gr_Duration m"
  proof
    fix m assume m: "m \<in> set (moved @ queue)"
    show "gr_PlanID m \<noteq> 0 \<and> gr_PriceID m \<noteq> 0 \<and> 0 < gr_Duration m"
    proof (cases "m \<in> set queue")
      case False
      then obtain s where s: "s \<in> set segs" "grant_key m = seg_key s" and d: "0 < gr_Duration m"
        using m placedD(3) [OF pl, of m] by auto
      have "gr_PlanID m = sg_PlanID s" "gr_PriceID m = sg_PriceID s"
        using s(2) by (metis grant_key_simps(2,3) seg_key_simps(5,6))+
      then show ?thesis using timeline_ok [OF 2(2) s(1)] d by (simp add: segment_ok_def)
    qed (use 2(3) in simp)
  qed
  obtain built where b: "build_loop mid (moved @ queue) = Inr built"
    and bf: "built_from mid (moved @ queue) built"
    using 2(1) [OF p refl placedD(1) [OF pl] mv] by blast
  note keys = built_fromD(2) [OF bf] and time = built_fromD(3) [OF bf] and cov = built_fromD(4) [OF bf]
    and low = built_fromD(5) [OF bf]
  have "seg_key ` set built \<subseteq> seg_key ` set segs \<union> grant_key ` set (g # queue)"
  proof
    fix x assume "x \<in> seg_key ` set built"
    from subsetD [OF keys this]
    consider "x \<in> seg_key ` set mid" | m where "m \<in> set moved" "x = grant_key m" | "x \<in> grant_key ` set queue"
      by auto
    then show "x \<in> seg_key ` set segs \<union> grant_key ` set (g # queue)"
    proof cases
      case 1
      from subsetD [OF placedD(2) [OF pl] this] show ?thesis by auto
    next
      case 2
      then show ?thesis using placedD(3) [OF pl, of m] by simp
    next
      case 3
      then show ?thesis by auto
    qed
  qed
  moreover have "time_of P built = time_of P segs + due P (g # queue)" for P
    using time [of P] placedD(4) [OF pl, of P] by simp
  moreover have "covered k t built \<longleftrightarrow> covered k t segs" if k: "\<forall>g\<in>set (g # queue). gr_Rank g < sg_Rank k" for k t
  proof -
    have "\<forall>m\<in>set (moved @ queue). gr_Rank m < sg_Rank k" using placedD(3) [OF pl] k by fastforce
    then have "covered k t built \<longleftrightarrow> covered k t mid" by (rule cov)
    moreover have "k \<noteq> grant_key g" using k by auto
    ultimately show ?thesis using placedD(5) [OF pl, of k t] placedD(6) [OF pl, of k t] k by auto
  qed
  moreover have "b \<le> t" if "\<forall>k t. covered k t segs \<longrightarrow> b \<le> t" and g: "\<forall>g\<in>set (g # queue). b \<le> gr_StartAt g"
    and "covered k t built" for b k t
  proof (rule low [OF _ _ that(3)])
    show "\<forall>k t. covered k t mid \<longrightarrow> b \<le> t" using placedD(6) [OF pl] that(1) g by fastforce
    show "\<forall>m\<in>set (moved @ queue). b \<le> gr_StartAt m" using placedD(3) [OF pl] g by fastforce
  qed
  ultimately have "built_from segs (g # queue) built" using built_fromD(1) [OF bf] unfolding built_from_def by blast
  then show ?case using b p by simp
qed

text \<open>A list of segments the algorithm accepts: a plan and a price, a positive length, no overlap.\<close>

definition disjoint_segments :: "timeline_segment list \<Rightarrow> bool" where
  "disjoint_segments segs \<longleftrightarrow> list_all segment_ok segs \<and> apart segs"

lemma normalize_disjoint:
  assumes "disjoint_segments segs"
  shows "timeline (normalize_timeline segs)"
    and "time_of P (normalize_timeline segs) = time_of P segs"
    and "covered k t (normalize_timeline segs) \<longleftrightarrow> covered k t segs"
proof -
  have "filter segment_ok segs = segs" using assms by (auto simp: filter_id_conv disjoint_segments_def list_all_iff)
  then show "timeline (normalize_timeline segs)"
    and "time_of P (normalize_timeline segs) = time_of P segs"
    and "covered k t (normalize_timeline segs) \<longleftrightarrow> covered k t segs"
    using normalize_timeline [of segs] assms by (simp_all add: disjoint_segments_def)
qed

lemma build_subscription_timeline_built:
  assumes "disjoint_segments existing" and "gr_PlanID g \<noteq> 0" and "gr_PriceID g \<noteq> 0" and "0 < gr_Duration g"
  obtains built where "build_subscription_timeline existing g = Inr built" and "timeline built"
    and "seg_key ` set built \<subseteq> insert (grant_key g) (seg_key ` set existing)"
    and "\<And>P. time_of P built = time_of P existing + (if P (grant_key g) then gr_Duration g else 0)"
    and "\<And>k t. gr_Rank g \<le> sg_Rank k \<Longrightarrow> covered k t existing \<Longrightarrow> covered k t built"
    and "\<And>t. covered (grant_key g) t built \<Longrightarrow> \<not> covered (grant_key g) t existing \<Longrightarrow>
           gr_StartAt g \<le> t \<and> at_least_until (gr_Rank g) (gr_StartAt g) t built"
    and "\<And>b k t. (\<And>k t. covered k t existing \<Longrightarrow> b \<le> t) \<Longrightarrow> b \<le> gr_StartAt g \<Longrightarrow> covered k t built \<Longrightarrow> b \<le> t"
proof -
  note n = normalize_disjoint [OF assms(1)]
  obtain mid moved where p: "place_timeline_grant (normalize_timeline existing) g = Inr (mid, moved)"
    and pl: "placed g (gr_StartAt g) (gr_Duration g) (normalize_timeline existing) mid moved"
    using place_timeline_grant_placed [OF n(1) assms(2-4)] by auto
  have one: "\<forall>g\<in>set [g]. gr_PlanID g \<noteq> 0 \<and> gr_PriceID g \<noteq> 0 \<and> 0 < gr_Duration g" using assms by simp
  obtain built where b: "build_loop (normalize_timeline existing) [g] = Inr built"
    and bf: "built_from (normalize_timeline existing) [g] built"
    using build_loop_built [OF n(1) one] by blast
  note keys = built_fromD(2) [OF bf] and time = built_fromD(3) [OF bf] and low = built_fromD(5) [OF bf]
  have mv: "gr_PlanID m \<noteq> 0 \<and> gr_PriceID m \<noteq> 0 \<and> 0 < gr_Duration m" if m: "m \<in> set moved" for m
  proof -
    obtain s where s: "s \<in> set (normalize_timeline existing)" "grant_key m = seg_key s" and d: "0 < gr_Duration m"
      using m placedD(3) [OF pl, of m] by auto
    have "gr_PlanID m = sg_PlanID s" "gr_PriceID m = sg_PriceID s"
      using s(2) by (metis grant_key_simps(2,3) seg_key_simps(5,6))+
    then show ?thesis using timeline_ok [OF n(1) s(1)] d by (simp add: segment_ok_def)
  qed
  have high: "covered k t built \<longleftrightarrow> covered k t mid" if "gr_Rank g \<le> sg_Rank k" for k t
  proof -
    obtain built' where "build_loop mid moved = Inr built'" and "built_from mid moved built'"
      using build_loop_built [OF placedD(1) [OF pl], of moved] mv by blast
    moreover have "build_loop mid moved = Inr built" using b(1) p by simp
    moreover have "\<forall>m\<in>set moved. gr_Rank m < sg_Rank k" using placedD(3) [OF pl] that by fastforce
    ultimately show ?thesis using built_fromD(4) [of mid moved built k t] by simp
  qed
  show ?thesis
  proof (rule that)
    show "build_subscription_timeline existing g = Inr built" "timeline built"
      using b built_fromD(1) [OF bf] assms(4) by (simp_all add: build_subscription_timeline_def)
    show "seg_key ` set built \<subseteq> insert (grant_key g) (seg_key ` set existing)"
      using order_trans [OF keys Un_mono [OF normalize_keys order_refl]] by simp
    show "time_of P built = time_of P existing + (if P (grant_key g) then gr_Duration g else 0)" for P
      using time [of P] n(2) [of P] by simp
    show "covered k t built" if "gr_Rank g \<le> sg_Rank k" and "covered k t existing" for k t
      unfolding high [OF that(1)] using placedD(5) [OF pl that(1)] that(2) n(3) by simp
    show "gr_StartAt g \<le> t \<and> at_least_until (gr_Rank g) (gr_StartAt g) t built"
      if "covered (grant_key g) t built" and "\<not> covered (grant_key g) t existing" for t
    proof -
      have "gr_StartAt g \<le> t \<and> at_least_until (gr_Rank g) (gr_StartAt g) t mid"
        using placedD(6) [OF pl, of "grant_key g" t] that high [of "grant_key g" t] n(3) by auto
      then show ?thesis using high unfolding at_least_until_def by metis
    qed
    show "b \<le> t" if "\<And>k t. covered k t existing \<Longrightarrow> b \<le> t" and "b \<le> gr_StartAt g" and "covered k t built" for b k t
      by (rule low [OF _ _ that(3)]) (use that(1,2) n(3) in auto)
  qed
qed

subsection \<open>What a grant does\<close>

text \<open>
  C15: Granting a plan never loses paid time, and it always ends. For existing segments that do not
  overlap and a grant of a positive length, the timeline is built (however plans displace one
  another), its segments follow one another without overlap, and whatever subscriptions
  one looks at (the rows of one plan, say), they have exactly the time in all they had before,
  plus the duration of the grant if it is among them.
\<close>

theorem grant_conserves_paid_time:
  assumes "disjoint_segments existing"
    and "gr_PlanID g \<noteq> 0" and "gr_PriceID g \<noteq> 0" and "0 < gr_Duration g"
  shows "\<exists>built. build_subscription_timeline existing g = Inr built \<and> timeline built
      \<and> (\<forall>P. time_of P built = time_of P existing + (if P (grant_key g) then gr_Duration g else 0))"
  by (rule build_subscription_timeline_built [OF assms]) auto

text \<open>A plan of rank 20 that runs for 90, and a grant of rank 30 for 30, from instant 30 on.\<close>

definition sample_segment :: timeline_segment where
  "sample_segment = \<lparr>sg_SubscriptionID = 100, sg_PlanID = 2, sg_PriceID = 20, sg_Rank = 20, sg_StartAt = 0,
     sg_EndAt = 90, sg_CancelAtPeriodEnd = False, sg_AutoRenew = False, sg_NewGrant = False\<rparr>"

definition sample_grant :: timeline_grant where
  "sample_grant = \<lparr>gr_SubscriptionID = 0, gr_PlanID = 3, gr_PriceID = 30, gr_Rank = 30, gr_StartAt = 30,
     gr_Duration = 30, gr_CancelAtPeriodEnd = False, gr_AutoRenew = False, gr_NewGrant = True\<rparr>"

lemma sample_disjoint: "disjoint_segments [sample_segment]"
  by (simp add: disjoint_segments_def segment_ok_def sample_segment_def)

theorem grant_conserves_paid_time_witness:
  "\<exists>built. build_subscription_timeline [sample_segment] sample_grant = Inr built
     \<and> time_of (\<lambda>k. sg_PlanID k = 2) built = 90 \<and> time_of (\<lambda>k. sg_PlanID k = 3) built = 30"
proof -
  obtain built where "build_subscription_timeline [sample_segment] sample_grant = Inr built"
    and t: "\<forall>P. time_of P built = time_of P [sample_segment] + (if P (grant_key sample_grant) then gr_Duration sample_grant else 0)"
    using grant_conserves_paid_time [OF sample_disjoint, of sample_grant] by (auto simp: sample_grant_def)
  moreover have "time_of (\<lambda>k. sg_PlanID k = 2) built = 90" "time_of (\<lambda>k. sg_PlanID k = 3) built = 30"
    using t [rule_format, of "\<lambda>k. sg_PlanID k = 2"] t [rule_format, of "\<lambda>k. sg_PlanID k = 3"]
    by (simp_all add: sample_segment_def sample_grant_def seg_key_def grant_key_def allocate_def)
  ultimately show ?thesis by blast
qed

text \<open>
  A plan never waits behind a lower one and never displaces an equal or higher one. Where a plan
  of at least the rank of the grant covered an instant, it still does; and at every instant from
  the requested start to any instant the grant newly covers, a plan of at least its rank is
  running.
\<close>

theorem higher_plans_come_first:
  assumes "disjoint_segments existing"
    and "gr_PlanID g \<noteq> 0" and "gr_PriceID g \<noteq> 0" and "0 < gr_Duration g"
    and "build_subscription_timeline existing g = Inr built"
  shows "(\<forall>k t. gr_Rank g \<le> sg_Rank k \<longrightarrow> covered k t existing \<longrightarrow> covered k t built)
    \<and> (\<forall>t. covered (grant_key g) t built \<longrightarrow> \<not> covered (grant_key g) t existing \<longrightarrow>
         gr_StartAt g \<le> t
         \<and> (\<forall>u. gr_StartAt g \<le> u \<longrightarrow> u \<le> t \<longrightarrow> (\<exists>s\<in>set built. gr_Rank g \<le> sg_Rank s \<and> sg_StartAt s \<le> u \<and> u < sg_EndAt s)))"
proof (rule build_subscription_timeline_built [OF assms(1-4)])
  fix b
  assume b: "build_subscription_timeline existing g = Inr b"
    and keep: "\<And>k t. gr_Rank g \<le> sg_Rank k \<Longrightarrow> covered k t existing \<Longrightarrow> covered k t b"
    and new: "\<And>t. covered (grant_key g) t b \<Longrightarrow> \<not> covered (grant_key g) t existing \<Longrightarrow>
           gr_StartAt g \<le> t \<and> at_least_until (gr_Rank g) (gr_StartAt g) t b"
  have "b = built" using b assms(5) by simp
  moreover have "\<exists>s\<in>set b. gr_Rank g \<le> sg_Rank s \<and> sg_StartAt s \<le> u \<and> u < sg_EndAt s"
    if "at_least_until (gr_Rank g) (gr_StartAt g) t b" and "gr_StartAt g \<le> u" and "u \<le> t" for t u
    using that rank_covered unfolding at_least_until_def by (metis (lifting))
  ultimately show ?thesis using keep new by blast
qed

theorem higher_plans_come_first_witness:
  "\<exists>built. build_subscription_timeline [sample_segment] sample_grant = Inr built
     \<and> (covered (grant_key sample_grant) 40 built \<longrightarrow> 30 \<le> (40 :: int))"
proof -
  obtain built where b: "build_subscription_timeline [sample_segment] sample_grant = Inr built"
    by (rule build_subscription_timeline_built [OF sample_disjoint, of sample_grant]) (auto simp: sample_grant_def)
  have "\<not> covered (grant_key sample_grant) 40 [sample_segment]"
    by (simp add: sample_segment_def sample_grant_def seg_key_def grant_key_def allocate_def)
  then have "covered (grant_key sample_grant) 40 built \<longrightarrow> gr_StartAt sample_grant \<le> 40"
    using higher_plans_come_first [OF sample_disjoint _ _ _ b] by (simp add: sample_grant_def)
  then show ?thesis using b by (simp add: sample_grant_def)
qed

end
