(* ===== verification/Grants.thy ===== *)
theory Grants
  imports Timeline Subscriptions
begin

text \<open>
  Granting a plan to a user in the table of subscriptions (\<open>grantSubscriptionOnTimeline\<close> and what it
  calls, \<open>infra/persistence/postgres/billing/repository.go\<close>): the user's active rows become segments,
  the timeline of \<open>Timeline\<close> is built over them, and the rows are rewritten to it: reused, expired or
  created. The table is a list of rows with the next id; a statement of the transaction is a
  function on it, a failing one leaves the table alone (the transaction is rolled back), row
  locks make the whole function one step. Failures of the database itself are not modelled.
\<close>

record grant_request =
  tg_UserID :: nat
  tg_Plan :: plan
  tg_PriceID :: nat
  tg_StartAt :: gotime
  tg_Duration :: duration
  tg_CancelAtPeriodEnd :: bool
  tg_AutoRenew :: bool
  tg_NewGrant :: bool

subsection \<open>Reading\<close>

definition active_from :: "nat \<Rightarrow> gotime \<Rightarrow> subscription \<Rightarrow> bool" where
  "active_from userID now s \<longleftrightarrow> su_UserID s = userID \<and> su_Status s = ''active''
     \<and> (case su_CurrentPeriodEndAt s of None \<Rightarrow> False | Some e \<Rightarrow> now < e)"

definition active_rows_from :: "subscription list \<Rightarrow> nat \<Rightarrow> gotime \<Rightarrow> subscription list" where
  "active_rows_from rows userID now = order_by_period (filter (active_from userID now) rows)"

definition append_subscription_plan_id :: "subscription list \<Rightarrow> nat \<Rightarrow> nat list" where
  "append_subscription_plan_id items planID = distinct_plan_ids items (if 0 < planID then [planID] else [])"

definition billing_plans_for_timeline :: "plan list \<Rightarrow> nat list \<Rightarrow> repo_err + plan_map" where
  \<comment> \<open>ids are distinct, so the count of \<open>results\<close> falls short exactly when one is missing\<close>
  "billing_plans_for_timeline table planIDs =
     (let results = plans_of (list_plans_by_ids table planIDs)
      in if list_all (\<lambda>i. results i \<noteq> None) planIDs then Inr results else Inl ErrInvalidInput)"

definition row_segment :: "gotime \<Rightarrow> plan \<Rightarrow> subscription \<Rightarrow> gotime \<Rightarrow> gotime \<Rightarrow> timeline_segment" where
  "row_segment now p item startAt endAt =
     \<lparr>sg_SubscriptionID = su_ID item, sg_PlanID = su_PlanID item, sg_PriceID = su_PriceID item,
      sg_Rank = subscription_plan_rank p, sg_StartAt = startAt, sg_EndAt = endAt,
      sg_CancelAtPeriodEnd = su_CancelAtPeriodEnd item, sg_AutoRenew = su_AutoRenew item, sg_NewGrant = False\<rparr>"

definition from_now :: "gotime \<Rightarrow> subscription \<Rightarrow> gotime" where
  "from_now now item = (if before (su_CurrentPeriodStartAt item) now then now else su_CurrentPeriodStartAt item)"

fun timeline_segments ::
  "gotime \<Rightarrow> plan_map \<Rightarrow> subscription list \<Rightarrow> repo_err + timeline_segment list" where
  "timeline_segments now plans [] = Inr []"
| "timeline_segments now plans (item # items) =
     (case su_CurrentPeriodEndAt item of
        None \<Rightarrow> timeline_segments now plans items
      | Some e \<Rightarrow>
          if \<not> after e now \<or> \<not> after e (from_now now item) then timeline_segments now plans items
          else case plans (su_PlanID item) of
                 None \<Rightarrow> Inl ErrInvalidInput
               | Some p \<Rightarrow>
                   (case timeline_segments now plans items of
                      Inl err \<Rightarrow> Inl err
                    | Inr segs \<Rightarrow> Inr (row_segment now p item (from_now now item) e # segs)))"

subsection \<open>Writing\<close>

definition update_row :: "nat \<Rightarrow> (subscription \<Rightarrow> subscription) \<Rightarrow> subscription_table \<Rightarrow> subscription_table" where
  "update_row rowID f tab = tab\<lparr>tb_rows := map (\<lambda>r. if su_ID r = rowID then f r else r) (tb_rows tab)\<rparr>"

definition expired_row :: "gotime \<Rightarrow> subscription \<Rightarrow> subscription \<Rightarrow> subscription" where
  "expired_row now item r =
     (let endAt = (if after (su_CurrentPeriodStartAt item) now then su_CurrentPeriodStartAt item else now);
          endAt' = (case su_CurrentPeriodEndAt item of
                      None \<Rightarrow> endAt
                    | Some e \<Rightarrow> if before e endAt then e else endAt)
      in r\<lparr>su_Status := ''expired'', su_AutoRenew := False, su_CancelAtPeriodEnd := False,
           su_CurrentPeriodEndAt := Some endAt'\<rparr>)"

definition expire_subscription_for_timeline ::
  "subscription \<Rightarrow> gotime \<Rightarrow> subscription_table \<Rightarrow> subscription_table" where
  "expire_subscription_for_timeline item now = update_row (su_ID item) (expired_row now item)"

definition updated_row :: "gotime \<Rightarrow> subscription \<Rightarrow> timeline_segment \<Rightarrow> subscription \<Rightarrow> subscription" where
  "updated_row now item segment r =
     (let startAt = (if before (su_CurrentPeriodStartAt item) now \<and> \<not> after (sg_StartAt segment) now
                     then su_CurrentPeriodStartAt item else sg_StartAt segment);
          recordStartAt = (if before (su_StartAt item) startAt \<and> \<not> after (sg_StartAt segment) now
                           then su_StartAt item else startAt)
      in r\<lparr>su_PlanID := sg_PlanID segment, su_PriceID := sg_PriceID segment, su_Status := ''active'',
           su_StartAt := recordStartAt, su_CurrentPeriodStartAt := startAt,
           su_CurrentPeriodEndAt := Some (sg_EndAt segment),
           su_CancelAtPeriodEnd := sg_CancelAtPeriodEnd segment, su_CanceledAt := None,
           su_AutoRenew := sg_AutoRenew segment\<rparr>)"

definition update_subscription_segment ::
  "subscription \<Rightarrow> timeline_segment \<Rightarrow> gotime \<Rightarrow> subscription_table \<Rightarrow> repo_err + subscription \<times> subscription_table" where
  "update_subscription_segment item segment now tab =
     (let tab' = update_row (su_ID item) (updated_row now item segment) tab
      in case List.find (\<lambda>r. su_ID r = su_ID item) (tb_rows tab') of
           None \<Rightarrow> Inl ErrInvalidInput
         | Some updated \<Rightarrow> Inr (updated, tab'))"

definition segment_row :: "nat \<Rightarrow> nat \<Rightarrow> timeline_segment \<Rightarrow> subscription" where
  "segment_row rowID userID segment =
     \<lparr>su_ID = rowID, su_UserID = userID, su_PlanID = sg_PlanID segment, su_PriceID = sg_PriceID segment,
      su_Status = ''active'', su_StartAt = sg_StartAt segment, su_CurrentPeriodStartAt = sg_StartAt segment,
      su_CurrentPeriodEndAt = Some (sg_EndAt segment), su_CancelAtPeriodEnd = sg_CancelAtPeriodEnd segment,
      su_CanceledAt = None, su_AutoRenew = sg_AutoRenew segment\<rparr>"

definition create_subscription_segment ::
  "nat \<Rightarrow> timeline_segment \<Rightarrow> subscription_table \<Rightarrow> repo_err + subscription \<times> subscription_table" where
  "create_subscription_segment userID segment tab =
     (if userID = 0 \<or> sg_PlanID segment = 0 \<or> sg_PriceID segment = 0 \<or> \<not> after (sg_EndAt segment) (sg_StartAt segment)
      then Inl ErrInvalidInput
      else let record' = segment_row (tb_next tab) userID segment
           in Inr (record', \<lparr>tb_rows = tb_rows tab @ [record'], tb_next = tb_next tab + 1\<rparr>))"

fun reusable_subscription_segment_index ::
  "subscription \<Rightarrow> timeline_segment list \<Rightarrow> gotime \<Rightarrow> nat option" where
  "reusable_subscription_segment_index item [] now = None"
| "reusable_subscription_segment_index item (target # targets) now =
     (if \<not> after (sg_EndAt target) (sg_StartAt target)
         \<or> before (su_CurrentPeriodStartAt item) now \<and> after (sg_StartAt target) now
      then map_option Suc (reusable_subscription_segment_index item targets now)
      else Some 0)"

definition granted_by :: "nat \<Rightarrow> subscription option \<Rightarrow> timeline_segment \<Rightarrow> subscription \<Rightarrow> subscription option" where
  "granted_by grantPlanID granted target record' =
     (if granted = None \<and> sg_NewGrant target \<and> sg_PlanID target = grantPlanID then Some record' else granted)"

fun apply_targets ::
  "nat \<Rightarrow> nat \<Rightarrow> gotime \<Rightarrow> subscription \<Rightarrow> nat option \<Rightarrow> nat \<Rightarrow> timeline_segment list
   \<Rightarrow> subscription option \<times> subscription_table \<Rightarrow> repo_err + subscription option \<times> subscription_table" where
  "apply_targets userID grantPlanID now item reusable index [] st = Inr st"
| "apply_targets userID grantPlanID now item reusable index (target # targets) (granted, tab) =
     (case (if reusable = Some index then update_subscription_segment item target now tab
            else create_subscription_segment userID target tab) of
        Inl err \<Rightarrow> Inl err
      | Inr (record', tab') \<Rightarrow>
          apply_targets userID grantPlanID now item reusable (index + 1) targets
            (granted_by grantPlanID granted target record', tab'))"

fun apply_existing ::
  "nat \<Rightarrow> nat \<Rightarrow> gotime \<Rightarrow> timeline_segment list \<Rightarrow> subscription list
   \<Rightarrow> subscription option \<times> subscription_table \<Rightarrow> repo_err + subscription option \<times> subscription_table" where
  "apply_existing userID grantPlanID now segments [] st = Inr st"
| "apply_existing userID grantPlanID now segments (item # items) (granted, tab) =
     (let targets = filter (\<lambda>s. 0 < sg_SubscriptionID s \<and> sg_SubscriptionID s = su_ID item) segments
      in if targets = []
         then apply_existing userID grantPlanID now segments items (granted, expire_subscription_for_timeline item now tab)
         else
           let reusable = reusable_subscription_segment_index item targets now;
               tab' = (if reusable = None then expire_subscription_for_timeline item now tab else tab)
           in case apply_targets userID grantPlanID now item reusable 0 targets (granted, tab') of
                Inl err \<Rightarrow> Inl err
              | Inr st \<Rightarrow> apply_existing userID grantPlanID now segments items st)"

fun apply_new ::
  "nat \<Rightarrow> nat \<Rightarrow> timeline_segment list
   \<Rightarrow> subscription option \<times> subscription_table \<Rightarrow> repo_err + subscription option \<times> subscription_table" where
  "apply_new userID grantPlanID [] st = Inr st"
| "apply_new userID grantPlanID (target # targets) (granted, tab) =
     (case create_subscription_segment userID target tab of
        Inl err \<Rightarrow> Inl err
      | Inr (record', tab') \<Rightarrow>
          apply_new userID grantPlanID targets (granted_by grantPlanID granted target record', tab'))"

definition apply_subscription_timeline ::
  "nat \<Rightarrow> subscription list \<Rightarrow> timeline_segment list \<Rightarrow> gotime \<Rightarrow> nat \<Rightarrow> subscription_table
   \<Rightarrow> repo_err + subscription \<times> subscription_table" where
  "apply_subscription_timeline userID existing segments now grantPlanID tab =
     (let normalized = normalize_timeline segments;
          newSegments = filter (\<lambda>s. \<not> 0 < sg_SubscriptionID s) normalized
      in case apply_existing userID grantPlanID now normalized existing (None, tab) of
           Inl err \<Rightarrow> Inl err
         | Inr st \<Rightarrow>
             (case apply_new userID grantPlanID newSegments st of
                Inl err \<Rightarrow> Inl err
              | Inr (None, tab') \<Rightarrow> Inl ErrInvalidInput
              | Inr (Some granted, tab') \<Rightarrow> Inr (granted, tab')))"

definition requested_grant :: "gotime \<Rightarrow> grant_request \<Rightarrow> timeline_grant" where
  "requested_grant now input =
     \<lparr>gr_SubscriptionID = 0, gr_PlanID = pl_ID (tg_Plan input), gr_PriceID = tg_PriceID input,
      gr_Rank = subscription_plan_rank (tg_Plan input), gr_StartAt = now, gr_Duration = tg_Duration input,
      gr_CancelAtPeriodEnd = tg_CancelAtPeriodEnd input, gr_AutoRenew = tg_AutoRenew input,
      gr_NewGrant = tg_NewGrant input\<rparr>"

definition grant_subscription_on_timeline ::
  "gotime \<Rightarrow> plan list \<Rightarrow> grant_request \<Rightarrow> subscription_table \<Rightarrow> repo_err + subscription \<times> subscription_table" where
  \<comment> \<open>\<open>clock\<close> is \<open>time.Now()\<close>\<close>
  "grant_subscription_on_timeline clock planTable input tab =
     (if tg_UserID input = 0 \<or> pl_ID (tg_Plan input) = 0 \<or> tg_PriceID input = 0 \<or> tg_Duration input \<le> 0
      then Inl ErrInvalidInput
      else
        let now = (if is_zero (tg_StartAt input) then clock else tg_StartAt input);
            existing = active_rows_from (tb_rows tab) (tg_UserID input) now
        in case billing_plans_for_timeline planTable (append_subscription_plan_id existing (pl_ID (tg_Plan input))) of
             Inl err \<Rightarrow> Inl err
           | Inr plans \<Rightarrow>
               (case timeline_segments now plans existing of
                  Inl err \<Rightarrow> Inl err
                | Inr segments \<Rightarrow>
                    (case build_subscription_timeline segments (requested_grant now input) of
                       Inl err \<Rightarrow> Inl err
                     | Inr built \<Rightarrow>
                         apply_subscription_timeline (tg_UserID input) existing built now (pl_ID (tg_Plan input)) tab)))"

subsection \<open>What the rows pay for\<close>

text \<open>The period a row still covers, without the fields only the algorithm uses.\<close>

definition bare :: "timeline_segment \<Rightarrow> timeline_segment" where
  "bare s = s\<lparr>sg_SubscriptionID := 0, sg_Rank := 0, sg_NewGrant := False\<rparr>"

definition row_periods :: "nat \<Rightarrow> gotime \<Rightarrow> subscription \<Rightarrow> timeline_segment list" where
  "row_periods userID now r =
     (case su_CurrentPeriodEndAt r of
        None \<Rightarrow> []
      | Some e \<Rightarrow>
          if active_from userID now r \<and> from_now now r < e
          then [bare (row_segment now zero_plan r (from_now now r) e)] else [])"

abbreviation periods :: "nat \<Rightarrow> gotime \<Rightarrow> subscription list \<Rightarrow> timeline_segment list" where
  "periods userID now rows \<equiv> concat (map (row_periods userID now) rows)"

definition paid_time :: "nat \<Rightarrow> gotime \<Rightarrow> nat \<Rightarrow> subscription list \<Rightarrow> int" where
  \<comment> \<open>the time from \<open>now\<close> on that the active rows of a user give him on a plan\<close>
  "paid_time userID now planID rows =
     (\<Sum>r\<leftarrow>rows. if active_from userID now r \<and> su_PlanID r = planID
        then max 0 (the (su_CurrentPeriodEndAt r) - from_now now r) else 0)"

definition rows_apart :: "nat \<Rightarrow> gotime \<Rightarrow> subscription list \<Rightarrow> bool" where
  \<comment> \<open>no two active rows of a user run at the same instant\<close>
  "rows_apart userID now rows \<longleftrightarrow>
     (\<forall>r\<in>set rows. \<forall>r'\<in>set rows. active_from userID now r \<longrightarrow> active_from userID now r' \<longrightarrow> r \<noteq> r' \<longrightarrow>
        \<not> (\<exists>t\<ge>now. runs_at r t \<and> runs_at r' t))"

definition table_ok :: "subscription_table \<Rightarrow> bool" where
  "table_ok tab \<longleftrightarrow> distinct (map su_ID (tb_rows tab)) \<and> (\<forall>r\<in>set (tb_rows tab). 0 < su_ID r \<and> su_ID r < tb_next tab)
     \<and> 0 < tb_next tab"

lemma bare_simps [simp]:
  "sg_StartAt (bare s) = sg_StartAt s" "sg_EndAt (bare s) = sg_EndAt s" "sg_PlanID (bare s) = sg_PlanID s"
  "timeline_overlaps (bare a) b = timeline_overlaps a b" "timeline_overlaps a (bare b) = timeline_overlaps a b"
  by (simp_all add: bare_def timeline_overlaps_def)

lemma apart_bare [simp]: "apart (map bare segs) = apart segs"
  by (induction segs) auto

lemma row_segment_simps [simp]:
  "sg_SubscriptionID (row_segment now p r a b) = su_ID r" "sg_PlanID (row_segment now p r a b) = su_PlanID r"
  "sg_PriceID (row_segment now p r a b) = su_PriceID r" "sg_StartAt (row_segment now p r a b) = a"
  "sg_EndAt (row_segment now p r a b) = b" "sg_NewGrant (row_segment now p r a b) = False"
  by (simp_all add: row_segment_def)

lemma bare_row_segment: "bare (row_segment now p r a b) = bare (row_segment now zero_plan r a b)"
  by (simp add: row_segment_def bare_def)

lemma row_periods_inactive: "\<not> active_from userID now r \<Longrightarrow> row_periods userID now r = []"
  by (simp add: row_periods_def split: option.split)

lemma paid_time_periods:
  "paid_time userID now planID rows = time_of (\<lambda>k. sg_PlanID k = planID) (periods userID now rows)"
proof (induction rows)
  case (Cons r rows)
  have "(if active_from userID now r \<and> su_PlanID r = planID
        then max 0 (the (su_CurrentPeriodEndAt r) - from_now now r) else 0)
      = time_of (\<lambda>k. sg_PlanID k = planID) (row_periods userID now r)"
    by (cases "su_CurrentPeriodEndAt r") (auto simp: row_periods_def active_from_def max_def)
  then show ?case using Cons by (simp add: paid_time_def)
qed (simp add: paid_time_def)

lemma mset_periods: "mset xs = mset ys \<Longrightarrow> mset (periods userID now xs) = mset (periods userID now ys)"
proof (induction xs arbitrary: ys)
  case (Cons x xs)
  then have "x \<in> set ys" by (metis list.set_intros(1) set_mset_mset)
  then obtain l r where "ys = l @ x # r" by (meson split_list)
  then show ?case using Cons.IH [of "l @ r"] Cons.prems by simp
qed simp

lemma periods_filter: "periods userID now (filter (active_from userID now) rows) = periods userID now rows"
  by (induction rows) (auto simp: row_periods_inactive)

lemma order_by_period_set [simp]: "set (order_by_period rows) = set rows" "mset (order_by_period rows) = mset rows"
  by (simp_all add: order_by_period_def)

lemma active_rows_from_facts:
  "set (active_rows_from rows userID now) = {r \<in> set rows. active_from userID now r}"
  "mset (periods userID now (active_rows_from rows userID now)) = mset (periods userID now rows)"
  "distinct (map su_ID rows) \<Longrightarrow> distinct (map su_ID (active_rows_from rows userID now))"
proof -
  let ?f = "filter (active_from userID now) rows"
  show "set (active_rows_from rows userID now) = {r \<in> set rows. active_from userID now r}"
    by (auto simp: active_rows_from_def)
  have "mset (periods userID now (order_by_period ?f)) = mset (periods userID now ?f)"
    by (rule mset_periods) simp
  then show "mset (periods userID now (active_rows_from rows userID now)) = mset (periods userID now rows)"
    by (simp only: active_rows_from_def periods_filter)
  assume "distinct (map su_ID rows)"
  then have "distinct (map su_ID ?f)" by (rule distinct_map_filter)
  moreover have "mset (map su_ID (order_by_period ?f)) = mset (map su_ID ?f)" by simp
  from mset_eq_imp_distinct_iff [OF this] have "distinct (map su_ID (order_by_period ?f)) = distinct (map su_ID ?f)" .
  ultimately show "distinct (map su_ID (active_rows_from rows userID now))"
    unfolding active_rows_from_def by simp
qed

lemma timeline_segments_periods:
  "timeline_segments now plans items = Inr segs \<Longrightarrow> \<forall>r\<in>set items. active_from userID now r \<Longrightarrow>
     map bare segs = periods userID now items
     \<and> (\<forall>s\<in>set segs. \<exists>r\<in>set items. sg_SubscriptionID s = su_ID r \<and> sg_PlanID s = su_PlanID r
          \<and> sg_PriceID s = su_PriceID r \<and> \<not> sg_NewGrant s \<and> now \<le> sg_StartAt s \<and> sg_StartAt s < sg_EndAt s)"
proof (induction items arbitrary: segs)
  case (Cons item items)
  then obtain e where e: "su_CurrentPeriodEndAt item = Some e" "now < e"
    by (auto simp: active_from_def split: option.splits)
  show ?case
  proof (cases "from_now now item < e")
    case True
    then obtain p segs' where "plans (su_PlanID item) = Some p" and r: "timeline_segments now plans items = Inr segs'"
      and s: "segs = row_segment now p item (from_now now item) e # segs'"
      using Cons.prems(1) e by (auto split: option.splits sum.splits)
    have "now \<le> from_now now item" by (simp add: from_now_def)
    then show ?thesis using Cons.IH [OF r] Cons.prems(2) True e s
      by (auto simp: row_periods_def bare_row_segment [of now p])
  next
    case False
    then show ?thesis using Cons.IH [of segs] Cons.prems e by (auto simp: row_periods_def)
  qed
qed simp

lemma timeline_segments_total:
  "\<forall>r\<in>set items. plans (su_PlanID r) \<noteq> None \<Longrightarrow> \<exists>segs. timeline_segments now plans items = Inr segs"
  by (induction items) (auto split: option.splits)

subsection \<open>What writing does to the periods\<close>

text \<open>A segment that may be written: of a plan and a price, of a positive length, from \<open>now\<close> on.\<close>

definition writable :: "gotime \<Rightarrow> timeline_segment \<Rightarrow> bool" where
  "writable now s \<longleftrightarrow> segment_ok s \<and> now \<le> sg_StartAt s"

text \<open>A step that leaves the rows in \<open>others\<close> alone and changes the periods of the user.\<close>

definition rows_step ::
  "nat \<Rightarrow> gotime \<Rightarrow> subscription_table \<Rightarrow> subscription_table \<Rightarrow> subscription list \<Rightarrow> timeline_segment multiset \<Rightarrow> bool" where
  "rows_step userID now tab tab' changed ps \<longleftrightarrow>
     table_ok tab' \<and> tb_next tab \<le> tb_next tab'
     \<and> (\<forall>r\<in>set (tb_rows tab). r \<notin> set changed \<longrightarrow> r \<in> set (tb_rows tab'))
     \<and> (\<forall>r\<in>set (tb_rows tab'). su_UserID r \<noteq> userID \<longrightarrow> r \<in> set (tb_rows tab))
     \<and> mset (periods userID now (tb_rows tab')) + mset (periods userID now changed)
        = mset (periods userID now (tb_rows tab)) + ps"

lemma rows_stepD:
  assumes "rows_step userID now tab tab' changed ps"
  shows "table_ok tab'" and "tb_next tab \<le> tb_next tab'"
    and "r \<in> set (tb_rows tab) \<Longrightarrow> r \<notin> set changed \<Longrightarrow> r \<in> set (tb_rows tab')"
    and "r \<in> set (tb_rows tab') \<Longrightarrow> su_UserID r \<noteq> userID \<Longrightarrow> r \<in> set (tb_rows tab)"
    and "mset (periods userID now (tb_rows tab')) + mset (periods userID now changed)
        = mset (periods userID now (tb_rows tab)) + ps"
  using assms by (auto simp: rows_step_def)

lemma rows_step_refl: "table_ok tab \<Longrightarrow> rows_step userID now tab tab [] {#}"
  by (simp add: rows_step_def)

lemma rows_step_trans:
  assumes "rows_step userID now tab tab' changed ps" and "rows_step userID now tab' tab'' changed' ps'"
  shows "rows_step userID now tab tab'' (changed @ changed') (ps + ps')"
proof -
  note a = rows_stepD [OF assms(1)] and b = rows_stepD [OF assms(2)]
  have "mset (periods userID now (tb_rows tab'')) + mset (periods userID now (changed @ changed'))
      = (mset (periods userID now (tb_rows tab'')) + mset (periods userID now changed')) + mset (periods userID now changed)"
    by (simp add: ac_simps)
  also have "\<dots> = (mset (periods userID now (tb_rows tab')) + mset (periods userID now changed)) + ps'"
    unfolding b(5) by (simp add: ac_simps)
  also have "\<dots> = mset (periods userID now (tb_rows tab)) + (ps + ps')" unfolding a(5) by (simp add: ac_simps)
  finally have "mset (periods userID now (tb_rows tab'')) + mset (periods userID now (changed @ changed'))
      = mset (periods userID now (tb_rows tab)) + (ps + ps')" .
  moreover have "r \<in> set (tb_rows tab'')" if "r \<in> set (tb_rows tab)" "r \<notin> set (changed @ changed')" for r
    using b(3) [OF a(3)] that by simp
  moreover have "r \<in> set (tb_rows tab)" if "r \<in> set (tb_rows tab'')" "su_UserID r \<noteq> userID" for r
    using a(4) [OF b(4)] that by simp
  moreover have "tb_next tab \<le> tb_next tab''" using a(2) b(2) by simp
  ultimately show ?thesis using b(1) by (simp add: rows_step_def)
qed

lemma mset_map_update:
  assumes "distinct (map su_ID rows)" and "item \<in> set rows"
  shows "mset (concat (map h (map (\<lambda>r. if su_ID r = su_ID item then f r else r) rows))) + mset (h item)
       = mset (concat (map h rows)) + mset (h (f item))"
proof -
  obtain l r where rows: "rows = l @ item # r" using assms(2) by (meson split_list)
  have "su_ID x \<noteq> su_ID item" if "x \<in> set l \<or> x \<in> set r" for x
    using assms(1) that unfolding rows by (auto simp: image_iff)
  then have "map (\<lambda>x. if su_ID x = su_ID item then f x else x) l = l"
    and "map (\<lambda>x. if su_ID x = su_ID item then f x else x) r = r"
    by (auto intro!: map_idI)
  then show ?thesis by (simp add: rows)
qed

lemma update_row_step:
  assumes "table_ok tab" and "item \<in> set (tb_rows tab)" and "su_UserID item = userID"
    and f: "\<And>r. su_ID (f r) = su_ID r" "\<And>r. su_UserID (f r) = su_UserID r"
  shows "rows_step userID now tab (update_row (su_ID item) f tab) [item] (mset (row_periods userID now (f item)))"
proof -
  let ?u = "\<lambda>r. if su_ID r = su_ID item then f r else r"
  have ids: "map su_ID (map ?u (tb_rows tab)) = map su_ID (tb_rows tab)" unfolding map_map comp_def using f(1) by (intro map_cong) auto
  have d: "distinct (map su_ID (tb_rows tab))" using assms(1) by (simp add: table_ok_def)
  have same: "r = item" if "r \<in> set (tb_rows tab)" "su_ID r = su_ID item" for r
    using d that assms(2) by (auto simp: distinct_map inj_on_def)
  have "table_ok (update_row (su_ID item) f tab)"
  proof -
    have "distinct (map su_ID (map ?u (tb_rows tab)))" unfolding ids by (rule d)
    moreover have "\<forall>r\<in>set (map ?u (tb_rows tab)). 0 < su_ID r \<and> su_ID r < tb_next tab"
      using assms(1) f(1) by (auto simp: table_ok_def)
    ultimately show ?thesis
      using assms(1) unfolding table_ok_def update_row_def by (simp del: map_map set_map)
  qed
  moreover have "mset (periods userID now (map ?u (tb_rows tab))) + mset (row_periods userID now item)
       = mset (periods userID now (tb_rows tab)) + mset (row_periods userID now (f item))"
    by (rule mset_map_update [OF d assms(2)])
  moreover have "r \<in> set (map ?u (tb_rows tab))" if "r \<in> set (tb_rows tab)" "r \<noteq> item" for r
  proof -
    have "?u r = r" using same [OF that(1)] that(2) by auto
    then show ?thesis unfolding set_map using that(1) by (intro image_eqI [of _ _ r]) simp_all
  qed
  moreover have "r \<in> set (tb_rows tab)" if r: "r \<in> set (map ?u (tb_rows tab))" and u: "su_UserID r \<noteq> userID" for r
  proof -
    obtain x where x: "x \<in> set (tb_rows tab)" "r = ?u x" using r unfolding set_map by (elim imageE)
    then show ?thesis using same u f(2) assms(3) by (cases "su_ID x = su_ID item") auto
  qed
  moreover have "tb_rows (update_row (su_ID item) f tab) = map ?u (tb_rows tab)"
    and "tb_next (update_row (su_ID item) f tab) = tb_next tab"
    by (simp_all add: update_row_def)
  ultimately show ?thesis unfolding rows_step_def by (simp del: set_map map_map)
qed

lemma expired_periods [simp]: "row_periods userID now (expired_row now' item r) = []"
  by (rule row_periods_inactive) (simp add: active_from_def expired_row_def Let_def)

lemma row_ids [simp]:
  "su_ID (expired_row now item r) = su_ID r" "su_UserID (expired_row now item r) = su_UserID r"
  "su_ID (updated_row now item target r) = su_ID r" "su_UserID (updated_row now item target r) = su_UserID r"
  by (simp_all add: expired_row_def updated_row_def Let_def)

lemma expire_step:
  assumes "table_ok tab" and "item \<in> set (tb_rows tab)" and "su_UserID item = userID"
  shows "rows_step userID now tab (expire_subscription_for_timeline item now tab) [item] {#}"
  using update_row_step [OF assms, of "expired_row now item" now]
  by (simp add: expire_subscription_for_timeline_def)

lemma updated_periods:
  assumes "writable now target" and "su_UserID item = userID"
  shows "row_periods userID now (updated_row now item target item) = [bare target]"
  using assms
  by (auto simp: row_periods_def updated_row_def Let_def active_from_def from_now_def writable_def segment_ok_def
      bare_def row_segment_def)

lemma created_periods:
  assumes "writable now target"
  shows "row_periods userID now (segment_row rowID userID target) = [bare target]"
  using assms
  by (auto simp: row_periods_def segment_row_def active_from_def from_now_def writable_def segment_ok_def
      bare_def row_segment_def)

lemma create_step:
  assumes "table_ok tab" and "writable now target" and "userID \<noteq> 0"
  shows "\<exists>r tab'. create_subscription_segment userID target tab = Inr (r, tab')
      \<and> r = segment_row (tb_next tab) userID target \<and> r \<in> set (tb_rows tab')
      \<and> rows_step userID now tab tab' [] {#bare target#}"
  using assms created_periods [OF assms(2), of userID "tb_next tab"]
  by (auto simp: create_subscription_segment_def writable_def segment_ok_def Let_def rows_step_def table_ok_def
      segment_row_def)

lemma update_step:
  assumes "table_ok tab" and "item \<in> set (tb_rows tab)" and "su_UserID item = userID" and "writable now target"
  shows "\<exists>r tab'. update_subscription_segment item target now tab = Inr (r, tab')
      \<and> rows_step userID now tab tab' [item] {#bare target#}"
proof -
  have "rows_step userID now tab (update_row (su_ID item) (updated_row now item target) tab) [item] {#bare target#}"
    using update_row_step [OF assms(1-3), of "updated_row now item target" now] updated_periods [OF assms(4,3)] by simp
  moreover have "\<exists>x\<in>set (tb_rows (update_row (su_ID item) (updated_row now item target) tab)). su_ID x = su_ID item"
    using assms(2) by (intro bexI [of _ "updated_row now item target item"])
      (auto simp: update_row_def intro!: image_eqI [of _ _ item])
  then have "List.find (\<lambda>r. su_ID r = su_ID item) (tb_rows (update_row (su_ID item) (updated_row now item target) tab)) \<noteq> None"
    by (auto simp: find_None_iff)
  ultimately show ?thesis by (auto simp: update_subscription_segment_def Let_def)
qed

lemma apply_targets_created:
  "\<forall>i. reusable = Some i \<longrightarrow> i < index \<Longrightarrow> \<forall>s\<in>set targets. writable now s \<Longrightarrow> userID \<noteq> 0 \<Longrightarrow> table_ok tab \<Longrightarrow>
     \<exists>granted' tab'. apply_targets userID planID now item reusable index targets (granted, tab) = Inr (granted', tab')
       \<and> rows_step userID now tab tab' [] (mset (map bare targets))"
proof (induction targets arbitrary: index granted tab)
  case (Cons target targets)
  have "reusable \<noteq> Some index" using Cons.prems(1) by auto
  obtain r tab1 where c: "create_subscription_segment userID target tab = Inr (r, tab1)"
    and s: "rows_step userID now tab tab1 [] {#bare target#}"
    using create_step [of tab now target userID] Cons.prems by auto
  have next_index: "\<forall>i. reusable = Some i \<longrightarrow> i < index + 1" using Cons.prems(1) by auto
  obtain granted' tab' where a: "apply_targets userID planID now item reusable (index + 1) targets
      (granted_by planID granted target r, tab1) = Inr (granted', tab')"
    and s': "rows_step userID now tab1 tab' [] (mset (map bare targets))"
    using Cons.IH [OF next_index _ Cons.prems(3) rows_stepD(1) [OF s]] Cons.prems(2) by (metis list.set_intros(2))
  have "rows_step userID now tab tab' [] (mset (map bare (target # targets)))"
    using rows_step_trans [OF s s'] by simp
  then show ?case using c a \<open>reusable \<noteq> Some index\<close> by simp
qed (simp add: rows_step_refl)

lemma apply_targets_reused:
  "reusable = Some (index + n) \<Longrightarrow> n < length targets \<Longrightarrow> \<forall>s\<in>set targets. writable now s \<Longrightarrow> userID \<noteq> 0 \<Longrightarrow>
     table_ok tab \<Longrightarrow> item \<in> set (tb_rows tab) \<Longrightarrow> su_UserID item = userID \<Longrightarrow>
     \<exists>granted' tab'. apply_targets userID planID now item reusable index targets (granted, tab) = Inr (granted', tab')
       \<and> rows_step userID now tab tab' [item] (mset (map bare targets))"
proof (induction targets arbitrary: index n granted tab)
  case (Cons target targets)
  show ?case
  proof (cases n)
    case 0
    obtain r tab1 where u: "update_subscription_segment item target now tab = Inr (r, tab1)"
      and s: "rows_step userID now tab tab1 [item] {#bare target#}"
      using update_step [OF Cons.prems(5-7), of now target] Cons.prems(3) by auto
    have later: "\<forall>i. reusable = Some i \<longrightarrow> i < index + 1" using Cons.prems(1) 0 by simp
    have w: "\<forall>s\<in>set targets. writable now s" using Cons.prems(3) by simp
    obtain granted' tab' where "apply_targets userID planID now item reusable (index + 1) targets
        (granted_by planID granted target r, tab1) = Inr (granted', tab')"
      and "rows_step userID now tab1 tab' [] (mset (map bare targets))"
      using apply_targets_created [OF later w Cons.prems(4) rows_stepD(1) [OF s]] by blast
    then show ?thesis using u 0 Cons.prems(1) rows_step_trans [OF s, of tab'] by force
  next
    case (Suc m)
    obtain r tab1 where c: "create_subscription_segment userID target tab = Inr (r, tab1)"
      and s: "rows_step userID now tab tab1 [] {#bare target#}"
      using create_step [of tab now target userID] Cons.prems by auto
    have item: "item \<in> set (tb_rows tab1)" using rows_stepD(3) [OF s Cons.prems(6)] by simp
    have w: "\<forall>s\<in>set targets. writable now s" using Cons.prems(3) by simp
    have m: "reusable = Some ((index + 1) + m)" "m < length targets" using Cons.prems(1,2) Suc by simp_all
    obtain granted' tab' where "apply_targets userID planID now item reusable (index + 1) targets
        (granted_by planID granted target r, tab1) = Inr (granted', tab')"
      and "rows_step userID now tab1 tab' [item] (mset (map bare targets))"
      using Cons.IH [OF m w Cons.prems(4) rows_stepD(1) [OF s] item Cons.prems(7)] by blast
    then show ?thesis using c Suc Cons.prems(1) rows_step_trans [OF s, of tab'] by force
  qed
qed simp

lemma reusable_index_less: "reusable_subscription_segment_index item targets now = Some i \<Longrightarrow> i < length targets"
  by (induction item targets now arbitrary: i rule: reusable_subscription_segment_index.induct) (auto split: if_splits)

lemma apply_item:
  assumes "\<forall>s\<in>set targets. writable now s" and "userID \<noteq> 0" and "table_ok tab"
    and "item \<in> set (tb_rows tab)" and "su_UserID item = userID"
  shows "\<exists>granted' tab'. apply_targets userID planID now item (reusable_subscription_segment_index item targets now) 0 targets
        (granted, if reusable_subscription_segment_index item targets now = None
                  then expire_subscription_for_timeline item now tab else tab) = Inr (granted', tab')
      \<and> rows_step userID now tab tab' [item] (mset (map bare targets))"
proof (cases "reusable_subscription_segment_index item targets now")
  case None
  note s = expire_step [OF assms(3-5), of now]
  obtain granted' tab' where "apply_targets userID planID now item None 0 targets
      (granted, expire_subscription_for_timeline item now tab) = Inr (granted', tab')"
    and s': "rows_step userID now (expire_subscription_for_timeline item now tab) tab' [] (mset (map bare targets))"
    using apply_targets_created [of None 0 targets now userID] assms(1,2) rows_stepD(1) [OF s] by blast
  then show ?thesis using None rows_step_trans [OF s s'] by simp
next
  case (Some i)
  then show ?thesis
    using apply_targets_reused [of "Some i" 0 i targets now userID tab item planID granted] reusable_index_less [OF Some] assms
    by simp
qed

lemma apply_targets_granted:
  "apply_targets userID planID now item reusable index targets (granted, tab) = Inr (granted', tab') \<Longrightarrow>
     \<forall>s\<in>set targets. \<not> sg_NewGrant s \<Longrightarrow> granted' = granted"
  by (induction targets arbitrary: index granted tab) (auto simp: granted_by_def split: sum.splits if_splits)

abbreviation targets_of :: "timeline_segment list \<Rightarrow> subscription \<Rightarrow> timeline_segment list" where
  "targets_of segments item \<equiv> filter (\<lambda>s. 0 < sg_SubscriptionID s \<and> sg_SubscriptionID s = su_ID item) segments"

lemma apply_existing_step:
  assumes "\<forall>s\<in>set segments. writable now s" and "userID \<noteq> 0"
    and "\<forall>s\<in>set segments. 0 < sg_SubscriptionID s \<longrightarrow> \<not> sg_NewGrant s"
  shows "table_ok tab \<Longrightarrow> distinct items \<Longrightarrow>
     \<forall>r\<in>set items. r \<in> set (tb_rows tab) \<and> su_UserID r = userID \<Longrightarrow>
     \<exists>tab'. apply_existing userID planID now segments items (granted, tab) = Inr (granted, tab')
       \<and> rows_step userID now tab tab' items (mset (map bare (concat (map (targets_of segments) items))))"
proof (induction items arbitrary: tab)
  case (Cons item items)
  have item: "item \<in> set (tb_rows tab)" "su_UserID item = userID" using Cons.prems(3) by simp_all
  have rest: "\<exists>tab'. apply_existing userID planID now segments items (granted, tab1) = Inr (granted, tab')
      \<and> rows_step userID now tab tab' (item # items) (mset (map bare (concat (map (targets_of segments) (item # items)))))"
    if s: "rows_step userID now tab tab1 [item] (mset (map bare (targets_of segments item)))" for tab1
  proof -
    have kept: "\<forall>r\<in>set items. r \<in> set (tb_rows tab1) \<and> su_UserID r = userID"
    proof
      fix r assume r: "r \<in> set items"
      then have "r \<in> set (tb_rows tab)" "r \<notin> set [item]" using Cons.prems(2,3) by auto
      then show "r \<in> set (tb_rows tab1) \<and> su_UserID r = userID" using rows_stepD(3) [OF s] r Cons.prems(3) by auto
    qed
    have d: "distinct items" using Cons.prems(2) by simp
    obtain tab' where "apply_existing userID planID now segments items (granted, tab1) = Inr (granted, tab')"
      and "rows_step userID now tab1 tab' items (mset (map bare (concat (map (targets_of segments) items))))"
      using Cons.IH [OF rows_stepD(1) [OF s] d kept] by blast
    then show ?thesis using rows_step_trans [OF s, of tab' items] by force
  qed
  show ?case
  proof (cases "targets_of segments item = []")
    case True
    have "rows_step userID now tab (expire_subscription_for_timeline item now tab) [item] (mset (map bare (targets_of segments item)))"
      unfolding True using expire_step [OF Cons.prems(1) item] by simp
    from rest [OF this] show ?thesis using True by (simp add: Let_def)
  next
    case False
    have w: "\<forall>s\<in>set (targets_of segments item). writable now s" using assms(1) by simp
    obtain granted' tab1 where a: "apply_targets userID planID now item
          (reusable_subscription_segment_index item (targets_of segments item) now) 0 (targets_of segments item)
          (granted, if reusable_subscription_segment_index item (targets_of segments item) now = None
                    then expire_subscription_for_timeline item now tab else tab) = Inr (granted', tab1)"
      and s: "rows_step userID now tab tab1 [item] (mset (map bare (targets_of segments item)))"
      using apply_item [OF w assms(2) Cons.prems(1) item] by blast
    have "granted' = granted" using apply_targets_granted [OF a] assms(3) by simp
    then show ?thesis using rest [OF s] a False by (simp add: Let_def)
  qed
qed (simp add: rows_step_refl)

lemma apply_new_step:
  "\<forall>s\<in>set targets. writable now s \<Longrightarrow> userID \<noteq> 0 \<Longrightarrow> table_ok tab \<Longrightarrow>
     (\<forall>r. granted = Some r \<longrightarrow> r \<in> set (tb_rows tab) \<and> su_UserID r = userID \<and> su_PlanID r = planID \<and> su_Status r = ''active'') \<Longrightarrow>
     \<exists>granted' tab'. apply_new userID planID targets (granted, tab) = Inr (granted', tab')
       \<and> rows_step userID now tab tab' [] (mset (map bare targets))
       \<and> (\<forall>r. granted' = Some r \<longrightarrow> r \<in> set (tb_rows tab') \<and> su_UserID r = userID \<and> su_PlanID r = planID \<and> su_Status r = ''active'')
       \<and> (granted \<noteq> None \<or> (\<exists>s\<in>set targets. sg_NewGrant s \<and> sg_PlanID s = planID) \<longrightarrow> granted' \<noteq> None)"
proof (induction targets arbitrary: granted tab)
  case (Cons target targets)
  obtain r tab1 where c: "create_subscription_segment userID target tab = Inr (r, tab1)"
    and r: "r = segment_row (tb_next tab) userID target" "r \<in> set (tb_rows tab1)"
    and s: "rows_step userID now tab tab1 [] {#bare target#}"
    using create_step [of tab now target userID] Cons.prems by auto
  let ?g = "granted_by planID granted target r"
  have w: "\<forall>s\<in>set targets. writable now s" using Cons.prems(1) by simp
  have g: "\<forall>x. ?g = Some x \<longrightarrow> x \<in> set (tb_rows tab1) \<and> su_UserID x = userID \<and> su_PlanID x = planID \<and> su_Status x = ''active''"
    using Cons.prems(4) r rows_stepD(3) [OF s] by (auto simp: granted_by_def segment_row_def)
  obtain granted' tab' where a: "apply_new userID planID targets (?g, tab1) = Inr (granted', tab')"
    and s': "rows_step userID now tab1 tab' [] (mset (map bare targets))"
    and g': "\<forall>r. granted' = Some r \<longrightarrow> r \<in> set (tb_rows tab') \<and> su_UserID r = userID \<and> su_PlanID r = planID \<and> su_Status r = ''active''"
    and n: "?g \<noteq> None \<or> (\<exists>s\<in>set targets. sg_NewGrant s \<and> sg_PlanID s = planID) \<longrightarrow> granted' \<noteq> None"
    using Cons.IH [OF w Cons.prems(2) rows_stepD(1) [OF s] g] by blast
  have "granted \<noteq> None \<or> (\<exists>s\<in>set (target # targets). sg_NewGrant s \<and> sg_PlanID s = planID) \<longrightarrow> granted' \<noteq> None"
    using n by (auto simp: granted_by_def)
  moreover have "rows_step userID now tab tab' [] (mset (map bare (target # targets)))"
    using rows_step_trans [OF s s'] by simp
  ultimately show ?case using c a g' by simp
qed (simp add: rows_step_refl)

lemma mset_partition:
  assumes "distinct (map su_ID items)" and "\<forall>s\<in>set segs. 0 < sg_SubscriptionID s \<longrightarrow> sg_SubscriptionID s \<in> su_ID ` set items"
  shows "mset (concat (map (targets_of segs) items)) + mset (filter (\<lambda>s. \<not> 0 < sg_SubscriptionID s) segs) = mset segs"
  using assms(2)
proof (induction segs)
  case (Cons s segs)
  have ih: "mset (concat (map (targets_of segs) items)) + mset (filter (\<lambda>s. \<not> 0 < sg_SubscriptionID s) segs) = mset segs"
    using Cons by simp
  show ?case
  proof (cases "0 < sg_SubscriptionID s")
    case True
    then obtain item where item: "item \<in> set items" "su_ID item = sg_SubscriptionID s" using Cons.prems by auto
    then obtain l r where items: "items = l @ item # r" by (meson split_list)
    have "targets_of (s # segs) x = targets_of segs x" if "x \<in> set l \<or> x \<in> set r" for x
    proof -
      have "su_ID x \<noteq> sg_SubscriptionID s"
        using assms(1) that item(2) unfolding items by (auto simp: image_iff)
      then show ?thesis by simp
    qed
    then have lr: "map (targets_of (s # segs)) l = map (targets_of segs) l" "map (targets_of (s # segs)) r = map (targets_of segs) r"
      by (simp_all del: filter.simps)
    have here: "targets_of (s # segs) item = s # targets_of segs item" using True item(2) by simp
    have "mset (concat (map (targets_of (s # segs)) items)) = add_mset s (mset (concat (map (targets_of segs) items)))"
      unfolding items map_append list.map lr here by simp
    then show ?thesis using ih True by simp
  next
    case False
    then show ?thesis using ih by simp
  qed
qed (induction items; simp)

subsection \<open>What a grant does to the rows\<close>

text \<open>
  What a grant needs: a user, a known plan with a price and a positive length; a table with
  distinct ids whose active rows of the user have a known plan and a price and do not run at the
  same time.
\<close>

definition grantable :: "plan list \<Rightarrow> grant_request \<Rightarrow> gotime \<Rightarrow> subscription_table \<Rightarrow> bool" where
  "grantable planTable input now tab \<longleftrightarrow>
     tg_UserID input \<noteq> 0 \<and> pl_ID (tg_Plan input) \<noteq> 0 \<and> tg_PriceID input \<noteq> 0 \<and> 0 < tg_Duration input
     \<and> tg_NewGrant input
     \<and> pl_ID (tg_Plan input) \<in> pl_ID ` set planTable
     \<and> table_ok tab
     \<and> (\<forall>r\<in>set (tb_rows tab). active_from (tg_UserID input) now r \<longrightarrow>
          su_PlanID r \<noteq> 0 \<and> su_PriceID r \<noteq> 0 \<and> su_PlanID r \<in> pl_ID ` set planTable)
     \<and> rows_apart (tg_UserID input) now (tb_rows tab)"

lemma distinct_plan_ids_set: "set (distinct_plan_ids items ids) = set ids \<union> (su_PlanID ` set items - {0})"
  by (induction items ids rule: distinct_plan_ids.induct) auto

lemma foldl_plans_None: "foldl (\<lambda>m p. m(pl_ID p \<mapsto> p)) m ps i = None \<longleftrightarrow> m i = None \<and> i \<notin> pl_ID ` set ps"
  by (induction ps arbitrary: m) auto

lemma billing_plans_found:
  assumes "set planIDs \<subseteq> pl_ID ` set planTable"
  shows "\<exists>plans. billing_plans_for_timeline planTable planIDs = Inr plans \<and> (\<forall>i\<in>set planIDs. plans i \<noteq> None)"
proof -
  have "\<forall>i\<in>set planIDs. plans_of (list_plans_by_ids planTable planIDs) i \<noteq> None"
    using assms unfolding plans_of_def foldl_plans_None list_plans_by_ids_def by auto
  then show ?thesis by (auto simp: billing_plans_for_timeline_def Let_def list_all_iff)
qed

lemma row_periodsD:
  assumes "x \<in> set (row_periods userID now r)"
  shows "\<exists>e. su_CurrentPeriodEndAt r = Some e \<and> active_from userID now r \<and> from_now now r < e
      \<and> x = bare (row_segment now zero_plan r (from_now now r) e)"
  using assms by (cases "su_CurrentPeriodEndAt r") (auto simp: row_periods_def split: if_splits)

lemma periods_apart:
  assumes "rows_apart userID now rows" and "distinct items" and "set items \<subseteq> set rows"
  shows "apart (periods userID now items)"
  using assms(2,3)
proof (induction items)
  case (Cons item items)
  have "\<not> timeline_overlaps x y" if x: "x \<in> set (row_periods userID now item)" and y: "y \<in> set (periods userID now items)" for x y
  proof -
    obtain r where r: "r \<in> set items" "y \<in> set (row_periods userID now r)" using y by auto
    have ne: "item \<noteq> r" using r(1) Cons.prems(1) by auto
    obtain a where a: "su_CurrentPeriodEndAt item = Some a" "active_from userID now item"
      "x = bare (row_segment now zero_plan item (from_now now item) a)" "from_now now item < a"
      using row_periodsD [OF x] by blast
    obtain b where b: "su_CurrentPeriodEndAt r = Some b" "active_from userID now r"
      "y = bare (row_segment now zero_plan r (from_now now r) b)" "from_now now r < b"
      using row_periodsD [OF r(2)] by blast
    let ?t = "max (from_now now item) (from_now now r)"
    have "\<not> (\<exists>t\<ge>now. runs_at item t \<and> runs_at r t)"
      using assms(1) Cons.prems(2) r(1) a(2) b(2) ne by (auto simp: rows_apart_def)
    moreover have "now \<le> ?t" by (simp add: from_now_def max_def)
    moreover have "su_CurrentPeriodStartAt item \<le> ?t" "su_CurrentPeriodStartAt r \<le> ?t"
      by (simp_all add: from_now_def max_def)
    ultimately have "\<not> (?t < a \<and> ?t < b)" using a(1) b(1) unfolding runs_at_def by auto
    then show ?thesis using a(4) b(4) unfolding a(3) b(3) by (auto simp: timeline_overlaps_def max_def split: if_splits)
  qed
  moreover have "apart (row_periods userID now item)" by (simp add: row_periods_def split: option.split)
  ultimately show ?case using Cons by simp
qed simp

lemma apart_rows:
  assumes "apart (periods userID now rows)"
  shows "rows_apart userID now rows"
  unfolding rows_apart_def
proof (intro ballI impI notI)
  fix r r' assume r: "r \<in> set rows" "r' \<in> set rows" "active_from userID now r" "active_from userID now r'" "r \<noteq> r'"
    and "\<exists>t\<ge>now. runs_at r t \<and> runs_at r' t"
  then obtain t where t: "now \<le> t" "runs_at r t" "runs_at r' t" by blast
  have seg: "\<exists>x\<in>set (row_periods userID now z). sg_StartAt x \<le> t \<and> t < sg_EndAt x"
    if "active_from userID now z" "runs_at z t" for z
    using that t(1) by (auto simp: row_periods_def active_from_def runs_at_def from_now_def split: option.splits)
  obtain l m where "rows = l @ r # m" using r(1) by (meson split_list)
  then have "r' \<in> set l \<or> r' \<in> set m" using r(2,5) by auto
  then have "\<forall>x\<in>set (row_periods userID now r). \<forall>y\<in>set (row_periods userID now r'). \<not> timeline_overlaps x y"
  proof
    assume "r' \<in> set l"
    then have "\<forall>y\<in>set (row_periods userID now r'). \<forall>x\<in>set (row_periods userID now r). \<not> timeline_overlaps y x"
      using assms unfolding \<open>rows = l @ r # m\<close> by auto
    then show ?thesis using overlaps_sym by blast
  next
    assume "r' \<in> set m"
    then show ?thesis using assms unfolding \<open>rows = l @ r # m\<close> by simp
  qed
  moreover obtain x y where xy: "x \<in> set (row_periods userID now r)" "y \<in> set (row_periods userID now r')"
    "sg_StartAt x \<le> t" "t < sg_EndAt x" "sg_StartAt y \<le> t" "t < sg_EndAt y"
    using seg [OF r(3) t(2)] seg [OF r(4) t(3)] by blast
  moreover have "timeline_overlaps x y" using xy by (simp add: timeline_overlaps_def)
  ultimately show False by blast
qed

lemma time_of_nonzero: "time_of P segs \<noteq> 0 \<Longrightarrow> \<exists>s\<in>set segs. P (seg_key s)"
  by (induction segs) (auto split: if_splits)

lemma grant_built:
  fixes now userID rows
  defines "existing \<equiv> active_rows_from rows userID now"
  assumes "distinct (map su_ID rows)" and ids: "\<forall>r\<in>set rows. 0 < su_ID r"
    and known: "\<forall>r\<in>set existing. su_PlanID r \<noteq> 0 \<and> su_PriceID r \<noteq> 0"
    and apart: "rows_apart userID now rows"
    and segs: "timeline_segments now plans existing = Inr segs"
    and g: "gr_SubscriptionID g = 0" "gr_PlanID g \<noteq> 0" "gr_PriceID g \<noteq> 0" "0 < gr_Duration g" "gr_StartAt g = now"
  obtains built where "build_subscription_timeline segs g = Inr built"
    and "timeline (normalize_timeline built)"
    and "\<forall>s\<in>set (normalize_timeline built). writable now s"
    and "\<forall>s\<in>set (normalize_timeline built). 0 < sg_SubscriptionID s \<longrightarrow>
           sg_SubscriptionID s \<in> su_ID ` set existing \<and> \<not> sg_NewGrant s"
    and "\<forall>s\<in>set (normalize_timeline built). \<not> 0 < sg_SubscriptionID s \<longrightarrow> seg_key s = grant_key g"
    and "\<And>P. time_of P (normalize_timeline built) = time_of P segs + (if P (grant_key g) then gr_Duration g else 0)"
proof -
  note ex = active_rows_from_facts [where rows = rows and userID = userID and now = now, folded existing_def]
  have act: "\<forall>r\<in>set existing. active_from userID now r" by (simp add: ex(1))
  note sg = timeline_segments_periods [OF segs act]
  have d: "distinct existing" using ex(3) [OF assms(2)] by (simp add: distinct_map)
  have "apart (periods userID now existing)" using periods_apart [OF apart d] ex(1) by auto
  then have ap: "apart segs" using sg apart_bare [of segs] by simp
  have seg: "\<exists>r\<in>set existing. sg_SubscriptionID s = su_ID r \<and> sg_PlanID s = su_PlanID r
          \<and> sg_PriceID s = su_PriceID r \<and> \<not> sg_NewGrant s \<and> now \<le> sg_StartAt s \<and> sg_StartAt s < sg_EndAt s"
    if "s \<in> set segs" for s using sg that by blast
  have ok: "segment_ok s" if "s \<in> set segs" for s
    using seg [OF that] known by (auto simp: segment_ok_def)
  have dis: "disjoint_segments segs" using ap ok by (simp add: disjoint_segments_def list_all_iff)
  obtain built where b: "build_subscription_timeline segs g = Inr built" "timeline built"
    and keys: "seg_key ` set built \<subseteq> insert (grant_key g) (seg_key ` set segs)"
    and time: "\<And>P. time_of P built = time_of P segs + (if P (grant_key g) then gr_Duration g else 0)"
    and low: "\<And>b k t. (\<And>k t. covered k t segs \<Longrightarrow> b \<le> t) \<Longrightarrow> b \<le> gr_StartAt g \<Longrightarrow> covered k t built \<Longrightarrow> b \<le> t"
    by (rule build_subscription_timeline_built [OF dis g(2-4)]) blast
  note n = normalize_of_timeline [OF b(2)]
  have start: "now \<le> sg_StartAt s" if s: "s \<in> set (normalize_timeline built)" for s
  proof -
    have "sg_StartAt s < sg_EndAt s" by (rule segment_ok_less [OF timeline_ok [OF n(1) s]])
    then have "covered (seg_key s) (sg_StartAt s) (normalize_timeline built)" using s by (auto simp: covered_def)
    then have c: "covered (seg_key s) (sg_StartAt s) built" using n(3) by simp
    show ?thesis
    proof (rule low [OF _ _ c])
      show "now \<le> t" if "covered k t segs" for k t using that seg unfolding covered_def by force
    qed (simp add: g(5))
  qed
  have key: "seg_key s = grant_key g \<or> (\<exists>x\<in>set segs. seg_key s = seg_key x)" if "s \<in> set (normalize_timeline built)" for s
    using that subsetD [OF normalize_keys [of built], of "seg_key s"] subsetD [OF keys, of "seg_key s"] by auto
  have sub: "sg_SubscriptionID s = sg_SubscriptionID x \<and> sg_NewGrant s = sg_NewGrant x" if "seg_key s = seg_key x" for s x
    using that by (metis seg_key_simps(7,8))
  have old: "sg_SubscriptionID s \<in> su_ID ` set existing \<and> \<not> sg_NewGrant s \<and> 0 < sg_SubscriptionID s"
    if "x \<in> set segs" "seg_key s = seg_key x" for s x
    using seg [OF that(1)] sub [OF that(2)] ids ex(1) by auto
  have new: "sg_SubscriptionID s = 0" if "seg_key s = grant_key g" for s
    using that g(1) by (metis grant_key_simps(4) seg_key_simps(7))
  show ?thesis
  proof (rule that [OF b(1) n(1)])
    show "\<forall>s\<in>set (normalize_timeline built). writable now s"
      using start timeline_ok [OF n(1)] by (simp add: writable_def)
    show "\<forall>s\<in>set (normalize_timeline built). 0 < sg_SubscriptionID s \<longrightarrow>
           sg_SubscriptionID s \<in> su_ID ` set existing \<and> \<not> sg_NewGrant s"
    proof (intro ballI impI)
      fix s assume s: "s \<in> set (normalize_timeline built)" "0 < sg_SubscriptionID s"
      from key [OF s(1)] show "sg_SubscriptionID s \<in> su_ID ` set existing \<and> \<not> sg_NewGrant s"
      proof
        assume "seg_key s = grant_key g"
        then show ?thesis using new s(2) by simp
      next
        assume "\<exists>x\<in>set segs. seg_key s = seg_key x"
        then show ?thesis using old by blast
      qed
    qed
    show "\<forall>s\<in>set (normalize_timeline built). \<not> 0 < sg_SubscriptionID s \<longrightarrow> seg_key s = grant_key g"
    proof (intro ballI impI)
      fix s assume s: "s \<in> set (normalize_timeline built)" "\<not> 0 < sg_SubscriptionID s"
      from key [OF s(1)] show "seg_key s = grant_key g"
      proof
        assume "\<exists>x\<in>set segs. seg_key s = seg_key x"
        then obtain x where "x \<in> set segs" "seg_key s = seg_key x" by blast
        then show ?thesis using old s(2) by simp
      qed
    qed
    show "time_of P (normalize_timeline built) = time_of P segs + (if P (grant_key g) then gr_Duration g else 0)" for P
      using time n(2) by simp
  qed
qed

text \<open>
  C14: Granting a plan keeps every user's paid time and never runs two plans at once. If the table is
  in order (\<open>grantable\<close>), the grant succeeds, whatever it displaces: it returns an active row of the
  granted plan; for every plan the user has exactly the time he had from now on, plus the
  duration for the granted plan; no two of his active rows run at the same instant; ids stay
  distinct; every row of another user, and every row of this one that was expired or had no end,
  is unchanged, and no row of another user appears.
\<close>

theorem granting_keeps_paid_time:
  assumes ok: "grantable planTable input now tab" and now: "tg_StartAt input = now" "now \<noteq> 0"
  shows "\<exists>granted tab'. grant_subscription_on_timeline clock planTable input tab = Inr (granted, tab')
    \<and> granted \<in> set (tb_rows tab') \<and> su_UserID granted = tg_UserID input
    \<and> su_PlanID granted = pl_ID (tg_Plan input) \<and> su_Status granted = ''active''
    \<and> (\<forall>p. paid_time (tg_UserID input) now p (tb_rows tab')
         = paid_time (tg_UserID input) now p (tb_rows tab) + (if p = pl_ID (tg_Plan input) then tg_Duration input else 0))
    \<and> rows_apart (tg_UserID input) now (tb_rows tab') \<and> table_ok tab'
    \<and> (\<forall>r\<in>set (tb_rows tab). \<not> active_from (tg_UserID input) now r \<longrightarrow> r \<in> set (tb_rows tab'))
    \<and> (\<forall>r\<in>set (tb_rows tab'). su_UserID r \<noteq> tg_UserID input \<longrightarrow> r \<in> set (tb_rows tab))"
proof -
  let ?u = "tg_UserID input" and ?p = "pl_ID (tg_Plan input)" and ?g = "requested_grant now input"
  let ?ex = "active_rows_from (tb_rows tab) ?u now"
  have ids: "distinct (map su_ID (tb_rows tab))" "\<forall>r\<in>set (tb_rows tab). 0 < su_ID r" and tok: "table_ok tab"
    using ok by (auto simp: grantable_def table_ok_def)
  note ex = active_rows_from_facts [where rows = "tb_rows tab" and userID = ?u and now = now]
  have exd: "distinct (map su_ID ?ex)" by (rule ex(3) [OF ids(1)])
  have known: "\<forall>r\<in>set ?ex. su_PlanID r \<noteq> 0 \<and> su_PriceID r \<noteq> 0" using ok ex(1) by (simp add: grantable_def)
  have "set (append_subscription_plan_id ?ex ?p) \<subseteq> pl_ID ` set planTable"
    using ok ex(1) by (auto simp: append_subscription_plan_id_def distinct_plan_ids_set grantable_def)
  then obtain plans where plans: "billing_plans_for_timeline planTable (append_subscription_plan_id ?ex ?p) = Inr plans"
    and found: "\<forall>i\<in>set (append_subscription_plan_id ?ex ?p). plans i \<noteq> None"
    using billing_plans_found by blast
  have "\<forall>r\<in>set ?ex. plans (su_PlanID r) \<noteq> None"
    using found known by (auto simp: append_subscription_plan_id_def distinct_plan_ids_set)
  then obtain segs where segs: "timeline_segments now plans ?ex = Inr segs"
    using timeline_segments_total by blast
  have act: "\<forall>r\<in>set ?ex. active_from ?u now r" by (simp add: ex(1))
  have sp: "map bare segs = periods ?u now ?ex" using timeline_segments_periods [OF segs act] by blast
  have apart: "rows_apart ?u now (tb_rows tab)" using ok by (simp add: grantable_def)
  have g: "gr_SubscriptionID ?g = 0" "gr_PlanID ?g \<noteq> 0" "gr_PriceID ?g \<noteq> 0" "0 < gr_Duration ?g" "gr_StartAt ?g = now"
    using ok by (simp_all add: requested_grant_def grantable_def)
  obtain built where b: "build_subscription_timeline segs ?g = Inr built" and tl: "timeline (normalize_timeline built)"
    and w: "\<forall>s\<in>set (normalize_timeline built). writable now s"
    and old: "\<forall>s\<in>set (normalize_timeline built). 0 < sg_SubscriptionID s \<longrightarrow>
           sg_SubscriptionID s \<in> su_ID ` set ?ex \<and> \<not> sg_NewGrant s"
    and new: "\<forall>s\<in>set (normalize_timeline built). \<not> 0 < sg_SubscriptionID s \<longrightarrow> seg_key s = grant_key ?g"
    and time: "\<And>P. time_of P (normalize_timeline built) = time_of P segs + (if P (grant_key ?g) then gr_Duration ?g else 0)"
    using grant_built [OF ids known apart segs g] by blast
  let ?T = "normalize_timeline built"
  have user: "?u \<noteq> 0" using ok by (simp add: grantable_def)
  obtain tab1 where a: "apply_existing ?u ?p now ?T ?ex (None, tab) = Inr (None, tab1)"
    and s1: "rows_step ?u now tab tab1 ?ex (mset (map bare (concat (map (targets_of ?T) ?ex))))"
    using apply_existing_step [OF w user, of tab ?ex ?p None] old tok exd ex(1) by (auto simp: distinct_map active_from_def)
  let ?N = "filter (\<lambda>s. \<not> 0 < sg_SubscriptionID s) ?T"
  have wn: "\<forall>s\<in>set ?N. writable now s" using w by simp
  obtain granted tab' where n: "apply_new ?u ?p ?N (None, tab1) = Inr (granted, tab')"
    and s2: "rows_step ?u now tab1 tab' [] (mset (map bare ?N))"
    and gr: "\<forall>r. granted = Some r \<longrightarrow> r \<in> set (tb_rows tab') \<and> su_UserID r = ?u \<and> su_PlanID r = ?p \<and> su_Status r = ''active''"
    and some: "(\<exists>s\<in>set ?N. sg_NewGrant s \<and> sg_PlanID s = ?p) \<longrightarrow> granted \<noteq> None"
    using apply_new_step [OF wn user rows_stepD(1) [OF s1], of None ?p] by auto
  note step = rows_step_trans [OF s1 s2]
  have "mset (map bare (concat (map (targets_of ?T) ?ex))) + mset (map bare ?N) = mset (map bare ?T)"
    unfolding mset_map [of bare] image_mset_union [symmetric] using mset_partition [OF exd, of ?T] old by simp
  then have "mset (periods ?u now (tb_rows tab')) + mset (periods ?u now ?ex)
      = mset (periods ?u now (tb_rows tab)) + mset (map bare ?T)"
    using rows_stepD(5) [OF step] by simp
  then have ps: "mset (periods ?u now (tb_rows tab')) = mset (map bare ?T)" using ex(2) by simp
  have bare_time: "time_of (\<lambda>k. sg_PlanID k = p) (map bare xs) = time_of (\<lambda>k. sg_PlanID k = p) xs" for p xs
    by (induction xs) simp_all
  have paid: "paid_time ?u now p (tb_rows tab') = paid_time ?u now p (tb_rows tab) + (if p = ?p then tg_Duration input else 0)" for p
  proof -
    have "paid_time ?u now p (tb_rows tab') = time_of (\<lambda>k. sg_PlanID k = p) ?T"
      unfolding paid_time_periods mset_time_of [OF ps] bare_time ..
    also have "\<dots> = time_of (\<lambda>k. sg_PlanID k = p) segs + (if p = ?p then tg_Duration input else 0)"
      unfolding time by (simp add: requested_grant_def eq_commute)
    also have "time_of (\<lambda>k. sg_PlanID k = p) segs = paid_time ?u now p (tb_rows tab)"
      unfolding paid_time_periods mset_time_of [OF ex(2) [symmetric]] sp [symmetric] bare_time ..
    finally show ?thesis .
  qed
  have "apart (map bare ?T)" using timeline_apart [OF tl] by simp
  then have rows: "rows_apart ?u now (tb_rows tab')" by (intro apart_rows mset_apart [OF ps [symmetric]])
  have "\<exists>s\<in>set ?N. sg_NewGrant s \<and> sg_PlanID s = ?p"
  proof -
    let ?P = "\<lambda>k. k = grant_key ?g"
    have len: "0 \<le> time_of ?P segs"
    proof -
      have "\<forall>s\<in>set segs. sg_StartAt s < sg_EndAt s" using timeline_segments_periods [OF segs act] by blast
      then show ?thesis by (induction segs) auto
    qed
    then have "time_of ?P ?T \<noteq> 0" using time [of ?P] g(4) by simp
    then obtain s where "s \<in> set ?T" "seg_key s = grant_key ?g" using time_of_nonzero [of ?P ?T] by blast
    moreover from this(2) have "sg_SubscriptionID s = 0" "sg_NewGrant s" "sg_PlanID s = ?p"
      using ok by (metis grant_key_simps(2,4,5) seg_key_simps(5,7,8) requested_grant_def timeline_grant.select_convs grantable_def)+
    ultimately show ?thesis by auto
  qed
  then obtain r where r: "granted = Some r" using some by auto
  have "grant_subscription_on_timeline clock planTable input tab = Inr (r, tab')"
    using ok now plans segs b a n r
    by (simp add: grant_subscription_on_timeline_def apply_subscription_timeline_def grantable_def Let_def)
  moreover have "r' \<in> set (tb_rows tab')" if "r' \<in> set (tb_rows tab)" "\<not> active_from ?u now r'" for r'
    using rows_stepD(3) [OF step that(1)] that(2) ex(1) by simp
  ultimately show ?thesis using gr r paid rows rows_stepD(1) [OF step] rows_stepD(4) [OF step] by blast
qed

text \<open>A user in the middle of a plan of rank 20 buys one of rank 30.\<close>

definition plan_of_rank :: "nat \<Rightarrow> int \<Rightarrow> plan" where
  "plan_of_rank i rank = zero_plan\<lparr>pl_ID := i, pl_Code := ''pro'', pl_SortOrder := rank, pl_IsActive := True\<rparr>"

definition sample_table :: subscription_table where
  "sample_table = \<lparr>tb_rows = [sample_subscription 1 0 90], tb_next = 2\<rparr>"

definition sample_request :: grant_request where
  "sample_request = \<lparr>tg_UserID = 7, tg_Plan = plan_of_rank 3 30, tg_PriceID = 30, tg_StartAt = 30, tg_Duration = 40,
     tg_CancelAtPeriodEnd = False, tg_AutoRenew = False, tg_NewGrant = True\<rparr>"

lemma sample_grantable: "grantable [plan_of_rank 2 20, plan_of_rank 3 30] sample_request 30 sample_table"
  by (auto simp: grantable_def sample_request_def sample_table_def table_ok_def plan_of_rank_def zero_plan_def
      sample_subscription_def rows_apart_def)

theorem granting_keeps_paid_time_witness:
  "\<exists>granted tab'. grant_subscription_on_timeline 0 [plan_of_rank 2 20, plan_of_rank 3 30] sample_request sample_table
        = Inr (granted, tab')
     \<and> paid_time 7 30 2 (tb_rows tab') = 60 \<and> paid_time 7 30 3 (tb_rows tab') = 40"
proof -
  have before: "paid_time 7 30 2 (tb_rows sample_table) = 60" "paid_time 7 30 3 (tb_rows sample_table) = 0"
    by (simp_all add: paid_time_def sample_table_def sample_subscription_def active_from_def from_now_def)
  have fields: "tg_UserID sample_request = 7" "pl_ID (tg_Plan sample_request) = 3" "tg_Duration sample_request = 40"
    "tg_StartAt sample_request = 30"
    by (simp_all add: sample_request_def plan_of_rank_def zero_plan_def)
  obtain granted tab' where
    "grant_subscription_on_timeline 0 [plan_of_rank 2 20, plan_of_rank 3 30] sample_request sample_table = Inr (granted, tab')"
    and "\<forall>p. paid_time 7 30 p (tb_rows tab') = paid_time 7 30 p (tb_rows sample_table) + (if p = 3 then 40 else 0)"
    using granting_keeps_paid_time [OF sample_grantable fields(4), of 0] unfolding fields by auto
  then show ?thesis using before by (intro exI [of _ granted] exI [of _ tab']) simp
qed

end
