(* ===== verification/Orders.thy ===== *)
theory Orders
  imports Grants Accounts Calendar Pricing
begin

text \<open>
  Payment orders (\<open>infra/persistence/postgres/billing/repository.go\<close>, \<open>CompletePaymentOrder\<close> of
  \<open>application/billing/service.go\<close>). A payment provider calls back as often as it likes; an order
  leaves \<open>pending\<close> once. The top-up of a balance is in \<open>Accounts\<close>.
\<close>

definition normalize_order_type :: "string \<Rightarrow> string" where
  "normalize_order_type v = (if trim_space v = ''topup'' then ''topup'' else ''subscription'')"

definition normalize_interval :: "string \<Rightarrow> string" where
  "normalize_interval v =
     (if trim_space v \<in> set [''year'', ''lifetime''] then trim_space v else ''month'')"

definition normalize_currency :: "string \<Rightarrow> string" where
  "normalize_currency v = (let normalized = to_upper (trim_space v) in if normalized = [] then ''USD'' else normalized)"

definition order_row :: "nat \<Rightarrow> payment_order \<Rightarrow> payment_order" where
  "order_row rowID item =
     \<lparr>po_ID = rowID, po_OrderNo = trim_space (po_OrderNo item), po_OrderType = normalize_order_type (po_OrderType item),
      po_UserID = po_UserID item, po_PlanID = po_PlanID item, po_PriceID = po_PriceID item,
      po_Provider = trim_space (po_Provider item),
      po_Status = first_non_empty [trim_space (po_Status item), ''pending''],
      po_BaseCurrency = normalize_currency (po_BaseCurrency item),
      po_BaseAmountCents = clamp_non_negative (po_BaseAmountCents item),
      po_PayCurrency = normalize_currency (po_PayCurrency item),
      po_PayAmountCents = clamp_non_negative (po_PayAmountCents item),
      po_FXRate = trim_space (po_FXRate item),
      po_CreditNanousd = clamp_non_negative (po_CreditNanousd item),
      po_BillingInterval = normalize_interval (po_BillingInterval item),
      po_Cycles = (if po_Cycles item \<le> 0 then 1 else po_Cycles item),
      po_ExternalPaymentID = [], po_ExternalCheckoutID = [], po_CheckoutURL = [], po_PaidAt = None,
      po_ExpiredAt = po_ExpiredAt item, po_SnapshotJSON = trim_space (po_SnapshotJSON item)\<rparr>"

definition create_payment_order :: "payment_order \<Rightarrow> billing_db \<Rightarrow> (payment_order \<times> billing_db) tx" where
  \<comment> \<open>the index on the order number is unique\<close>
  "create_payment_order item db =
     (if trim_space (po_OrderNo item) = [] then Inl ErrInvalidInput
      else if find_order (trim_space (po_OrderNo item)) db \<noteq> None then Inl ErrDuplicate
      else
        let row = order_row (bd_nextID db) item
        in Inr (row, db\<lparr>bd_orders := bd_orders db @ [row], bd_nextID := bd_nextID db + 1\<rparr>))"

definition update_payment_order_checkout :: "string \<Rightarrow> string \<Rightarrow> string \<Rightarrow> billing_db \<Rightarrow> billing_db tx" where
  "update_payment_order_checkout orderNo0 externalCheckoutID checkoutURL db =
     (let orderNo = trim_space orderNo0
      in if orderNo = [] then Inl ErrInvalidInput
         else Inr (db\<lparr>bd_orders :=
                map (\<lambda>r. if po_OrderNo r = orderNo
                       then r\<lparr>po_ExternalCheckoutID := trim_space externalCheckoutID, po_CheckoutURL := trim_space checkoutURL\<rparr>
                       else r) (bd_orders db)\<rparr>))"

definition get_payment_order_by_order_no :: "string \<Rightarrow> billing_db \<Rightarrow> payment_order tx" where
  "get_payment_order_by_order_no orderNo db =
     (case find_order (trim_space orderNo) db of None \<Rightarrow> Inl ErrNotFound | Some r \<Rightarrow> Inr r)"

definition find_active_plan :: "nat \<Rightarrow> billing_db \<Rightarrow> plan option" where
  "find_active_plan planID db = List.find (\<lambda>p. pl_ID p = planID \<and> pl_IsActive p) (bd_plans db)"

definition find_active_price :: "nat \<Rightarrow> nat \<Rightarrow> billing_db \<Rightarrow> price option" where
  "find_active_price priceID planID db =
     List.find (\<lambda>p. pr_ID p = priceID \<and> pr_PlanID p = planID \<and> pr_IsActive p) (bd_prices db)"

definition grant_on_db :: "gotime \<Rightarrow> grant_request \<Rightarrow> billing_db \<Rightarrow> (subscription \<times> billing_db) tx" where
  "grant_on_db clock input db =
     (case grant_subscription_on_timeline clock (bd_plans db) input (bd_subscriptions db) of
        Inl e \<Rightarrow> Inl e
      | Inr (granted, tab) \<Rightarrow> Inr (granted, db\<lparr>bd_subscriptions := tab\<rparr>))"

definition order_grant :: "subscription \<Rightarrow> plan \<Rightarrow> price \<Rightarrow> gotime \<Rightarrow> duration \<Rightarrow> grant_request" where
  "order_grant sub p pr paidAt d =
     \<lparr>tg_UserID = su_UserID sub, tg_Plan = p, tg_PriceID = pr_ID pr, tg_StartAt = paidAt, tg_Duration = d,
      tg_CancelAtPeriodEnd = su_CancelAtPeriodEnd sub, tg_AutoRenew = su_AutoRenew sub, tg_NewGrant = True\<rparr>"

definition mark_payment_order_paid_and_grant_subscription ::
  "gotime \<Rightarrow> string \<Rightarrow> string \<Rightarrow> gotime \<Rightarrow> subscription \<Rightarrow> billing_db \<Rightarrow> (payment_order \<times> bool \<times> billing_db) tx" where
  \<comment> \<open>the update to \<open>expired\<close> of a late payment is rolled back with the error that follows it\<close>
  "mark_payment_order_paid_and_grant_subscription clock orderNo0 externalPaymentID paidAt0 sub db =
     (let orderNo = trim_space orderNo0;
          paidAt = (if is_zero paidAt0 then clock else paidAt0)
      in if orderNo = [] then Inl ErrInvalidInput
         else case find_order orderNo db of
           None \<Rightarrow> Inl ErrNotFound
         | Some order \<Rightarrow>
             if po_Status order = ''paid'' then Inr (order, False, db)
             else if po_Status order \<noteq> ''pending'' then Inl ErrInvalidInput
             else if po_OrderType order \<noteq> [] \<and> po_OrderType order \<noteq> ''subscription'' then Inl ErrInvalidInput
             else if order_expired order paidAt then Inl ErrInvalidInput
             else case find_active_plan (su_PlanID sub) db of
               None \<Rightarrow> Inl ErrNotFound
             | Some p \<Rightarrow>
                 (case find_active_price (su_PriceID sub) (su_PlanID sub) db of
                    None \<Rightarrow> Inl ErrNotFound
                  | Some pr \<Rightarrow>
                      (case su_CurrentPeriodEndAt sub of
                         None \<Rightarrow> Inl ErrInvalidInput
                       | Some endAt \<Rightarrow>
                           let d = time_sub endAt paidAt
                           in if d \<le> 0 then Inl ErrInvalidInput
                              else case grant_on_db clock (order_grant sub p pr paidAt d) db of
                                Inl e \<Rightarrow> Inl e
                              | Inr (granted, db1) \<Rightarrow>
                                  let db2 = update_order (po_ID order) (paid_order externalPaymentID paidAt) db1
                                  in case find_order orderNo db2 of
                                       None \<Rightarrow> Inl ErrNotFound
                                     | Some order' \<Rightarrow> Inr (order', True, db2))))"

definition ordered_subscription :: "payment_order \<Rightarrow> gotime \<Rightarrow> subscription" where
  "ordered_subscription order paidAt =
     \<lparr>su_ID = 0, su_UserID = po_UserID order, su_PlanID = po_PlanID order, su_PriceID = po_PriceID order,
      su_Status = ''active'', su_StartAt = paidAt, su_CurrentPeriodStartAt = paidAt,
      su_CurrentPeriodEndAt = resolve_period_end paidAt (po_BillingInterval order) (po_Cycles order),
      su_CancelAtPeriodEnd = False, su_CanceledAt = None, su_AutoRenew = po_BillingInterval order \<noteq> ''lifetime''\<rparr>"

definition complete_payment_order ::
  "gotime \<Rightarrow> string \<Rightarrow> string \<Rightarrow> gotime \<Rightarrow> billing_db \<Rightarrow> (payment_order \<times> bool \<times> billing_db) tx" where
  "complete_payment_order clock orderNo externalPaymentID paidAt0 db =
     (case get_payment_order_by_order_no orderNo db of
        Inl e \<Rightarrow> Inl e
      | Inr order \<Rightarrow>
          if po_Status order = ''paid'' then Inr (order, False, db)
          else
            let paidAt = (if is_zero paidAt0 then clock else paidAt0)
            in if po_OrderType order = ''topup''
               then mark_payment_order_paid_and_credit_balance clock orderNo externalPaymentID paidAt db
               else mark_payment_order_paid_and_grant_subscription clock orderNo externalPaymentID paidAt
                      (ordered_subscription order paidAt) db)"

end
