(* ===== verification/Redemptions.thy ===== *)
theory Redemptions
  imports Orders
begin

text \<open>
  Redemption codes (\<open>domain/billing/redemption.go\<close>, the code and redemption operations of
  \<open>infra/persistence/postgres/billing/repository.go\<close>): a code is worth a balance or a subscription,
  may be used a limited number of times in all and by one user, and every use leaves a row. The
  document stored with a redemption is made by \<open>encoding/json\<close> and is a parameter. The hash of a
  code is unique among the rows, deleted ones included.
\<close>

definition mode_available_in_billing_mode :: "string \<Rightarrow> string \<Rightarrow> bool" where
  "mode_available_in_billing_mode codeMode billingMode \<longleftrightarrow>
     (let mode = trim_space billingMode
      in if mode = ''usage'' then trim_space codeMode = ''usage''
         else if mode = ''period'' then trim_space codeMode \<in> set [''usage'', ''period'']
         else if mode = ''weekly'' then trim_space codeMode = ''weekly''
         else False)"

definition modes_available_in_billing_mode :: "string \<Rightarrow> string list" where
  "modes_available_in_billing_mode billingMode =
     (let mode = trim_space billingMode
      in if mode = ''usage'' then [''usage'']
         else if mode = ''period'' then [''usage'', ''period'']
         else if mode = ''weekly'' then [''weekly'']
         else [])"

definition normalize_redemption_mode :: "string \<Rightarrow> string" where
  "normalize_redemption_mode v = (if trim_space v \<in> set [''period'', ''weekly''] then trim_space v else ''usage'')"

definition normalize_redemption_reward_type :: "string \<Rightarrow> string" where
  "normalize_redemption_reward_type v = (if trim_space v = ''subscription'' then ''subscription'' else ''balance'')"

definition normalize_redemption_status :: "string \<Rightarrow> string" where
  "normalize_redemption_status v = (if trim_space v \<in> set [''inactive'', ''deleted''] then trim_space v else ''active'')"

subsection \<open>Managing codes\<close>

definition code_row :: "nat \<Rightarrow> redemption_code \<Rightarrow> redemption_code" where
  "code_row rowID item =
     \<lparr>rc_ID = rowID, rc_CodeHash = trim_space (rc_CodeHash item), rc_CodeEncrypted = trim_space (rc_CodeEncrypted item),
      rc_CodeHint = trim_space (rc_CodeHint item), rc_Mode = normalize_redemption_mode (rc_Mode item),
      rc_RewardType = normalize_redemption_reward_type (rc_RewardType item),
      rc_CreditNanousd = clamp_non_negative (rc_CreditNanousd item), rc_PlanID = rc_PlanID item,
      rc_DurationUnit = trim_space (rc_DurationUnit item), rc_DurationCount = rc_DurationCount item,
      rc_DurationDays = rc_DurationDays item, rc_MaxRedemptions = rc_MaxRedemptions item,
      rc_PerUserLimit = (if rc_PerUserLimit item \<le> 0 then 1 else rc_PerUserLimit item),
      rc_RedeemedCount = 0, rc_Status = normalize_redemption_status (rc_Status item),
      rc_ExpiresAt = rc_ExpiresAt item, rc_Description = trim_space (rc_Description item),
      rc_CreatedByUserID = rc_CreatedByUserID item\<rparr>"

definition find_code :: "string \<Rightarrow> billing_db \<Rightarrow> redemption_code option" where
  "find_code codeHash db = List.find (\<lambda>c. rc_CodeHash c = codeHash) (bd_codes db)"

definition create_redemption_code :: "redemption_code \<Rightarrow> billing_db \<Rightarrow> (redemption_code \<times> billing_db) tx" where
  "create_redemption_code item db =
     (if trim_space (rc_CodeHash item) = [] then Inl ErrInvalidInput
      else if find_code (trim_space (rc_CodeHash item)) db \<noteq> None then Inl ErrDuplicate
      else
        let row = code_row (bd_nextID db) item
        in Inr (row, db\<lparr>bd_codes := bd_codes db @ [row], bd_nextID := bd_nextID db + 1\<rparr>))"

record code_patch =
  cp_Status :: "string option"
  cp_MaxRedemptionsSet :: bool
  cp_MaxRedemptions :: "int option"
  cp_PerUserLimit :: "int option"
  cp_ExpiresAtSet :: bool
  cp_ExpiresAt :: "gotime option"
  cp_Description :: "string option"

definition update_code :: "nat \<Rightarrow> (redemption_code \<Rightarrow> redemption_code) \<Rightarrow> billing_db \<Rightarrow> billing_db" where
  "update_code codeID f db =
     db\<lparr>bd_codes := map (\<lambda>c. if rc_ID c = codeID then f c else c) (bd_codes db)\<rparr>"

definition find_live_code :: "nat \<Rightarrow> billing_db \<Rightarrow> redemption_code option" where
  "find_live_code codeID db = List.find (\<lambda>c. rc_ID c = codeID \<and> rc_Status c \<noteq> ''deleted'') (bd_codes db)"

definition patched_code :: "code_patch \<Rightarrow> redemption_code \<Rightarrow> redemption_code" where
  "patched_code patch c =
     c\<lparr>rc_Status := (case cp_Status patch of None \<Rightarrow> rc_Status c | Some s \<Rightarrow> normalize_redemption_status s),
       rc_MaxRedemptions := (if cp_MaxRedemptionsSet patch then cp_MaxRedemptions patch else rc_MaxRedemptions c),
       rc_PerUserLimit := (case cp_PerUserLimit patch of None \<Rightarrow> rc_PerUserLimit c | Some l \<Rightarrow> l),
       rc_ExpiresAt := (if cp_ExpiresAtSet patch then cp_ExpiresAt patch else rc_ExpiresAt c),
       rc_Description := (case cp_Description patch of None \<Rightarrow> rc_Description c | Some d \<Rightarrow> trim_space d)\<rparr>"

definition patch_ok :: "code_patch \<Rightarrow> redemption_code \<Rightarrow> bool" where
  "patch_ok patch c \<longleftrightarrow>
     \<not> (cp_MaxRedemptionsSet patch
         \<and> (case cp_MaxRedemptions patch of None \<Rightarrow> False | Some m \<Rightarrow> m \<le> 0 \<or> m < rc_RedeemedCount c))
     \<and> \<not> (case cp_PerUserLimit patch of None \<Rightarrow> False | Some l \<Rightarrow> l \<le> 0)
     \<and> (case rc_MaxRedemptions (patched_code patch c) of
          None \<Rightarrow> True
        | Some m \<Rightarrow> \<not> m < rc_PerUserLimit (patched_code patch c))"

definition patch_redemption_code :: "nat \<Rightarrow> code_patch \<Rightarrow> billing_db \<Rightarrow> (redemption_code \<times> billing_db) tx" where
  "patch_redemption_code codeID patch db =
     (if codeID = 0 then Inl ErrInvalidInput
      else case find_live_code codeID db of
        None \<Rightarrow> Inl ErrNotFound
      | Some c \<Rightarrow>
          if \<not> patch_ok patch c then Inl ErrInvalidInput
          else
            let db' = update_code codeID (patched_code patch) db
            in case List.find (\<lambda>c. rc_ID c = codeID) (bd_codes db') of
                 None \<Rightarrow> Inl ErrNotFound
               | Some c' \<Rightarrow> Inr (c', db'))"

definition delete_redemption_code :: "nat \<Rightarrow> billing_db \<Rightarrow> billing_db tx" where
  "delete_redemption_code codeID db =
     (if codeID = 0 then Inl ErrInvalidInput
      else if find_live_code codeID db = None then Inl ErrNotFound
      else Inr (db\<lparr>bd_codes :=
             map (\<lambda>c. if rc_ID c = codeID \<and> rc_Status c \<noteq> ''deleted'' then c\<lparr>rc_Status := ''deleted''\<rparr> else c)
               (bd_codes db)\<rparr>))"

subsection \<open>Redeeming\<close>

definition redemptions_of :: "nat \<Rightarrow> nat \<Rightarrow> billing_db \<Rightarrow> redemption list" where
  "redemptions_of codeID userID db =
     filter (\<lambda>r. rd_CodeID r = codeID \<and> rd_UserID r = userID) (bd_redemptions db)"

definition per_user_limit :: "redemption_code \<Rightarrow> int" where
  "per_user_limit code = (if rc_PerUserLimit code \<le> 0 then 1 else rc_PerUserLimit code)"

definition validate_reward :: "redemption_code \<Rightarrow> gotime \<Rightarrow> unit tx" where
  "validate_reward code now =
     (if rc_Mode code = ''usage'' then
        (if rc_RewardType code \<noteq> ''balance'' \<or> rc_CreditNanousd code \<le> 0 then Inl ErrInvalidInput else Inr ())
      else if rc_Mode code = ''period'' then
        (if rc_RewardType code \<noteq> ''subscription'' \<or> rc_PlanID code = 0 then Inl ErrInvalidInput
         else if resolve_redemption_end now (rc_DurationUnit code) (rc_DurationCount code) (rc_DurationDays code) = None
         then Inl ErrInvalidInput else Inr ())
      else if rc_Mode code = ''weekly'' then
        (if rc_RewardType code \<noteq> ''subscription'' \<or> rc_PlanID code = 0 \<or> trim_space (rc_DurationUnit code) \<noteq> ''month''
            \<or> rc_DurationCount code \<notin> set [1, 3, 12] \<or> rc_DurationDays code \<noteq> 0
         then Inl ErrInvalidInput else Inr ())
      else Inl ErrRedemptionUnavailable)"

definition validate_redeemable_code ::
  "redemption_code \<Rightarrow> nat \<Rightarrow> string \<Rightarrow> gotime \<Rightarrow> billing_db \<Rightarrow> unit tx" where
  "validate_redeemable_code code userID currentMode now db =
     (if rc_Status code \<noteq> ''active'' \<or> \<not> mode_available_in_billing_mode (rc_Mode code) currentMode
         \<or> (case rc_ExpiresAt code of None \<Rightarrow> False | Some e \<Rightarrow> \<not> after e now)
      then Inl ErrRedemptionUnavailable
      else if (case rc_MaxRedemptions code of None \<Rightarrow> False | Some m \<Rightarrow> m \<le> rc_RedeemedCount code)
      then Inl ErrRedemptionExhausted
      else if per_user_limit code \<le> int (length (redemptions_of (rc_ID code) userID db))
      then Inl ErrRedemptionUserLimitExceeded
      else validate_reward code now)"

definition active_default_price_for_plan :: "nat \<Rightarrow> billing_db \<Rightarrow> price tx" where
  "active_default_price_for_plan planID db =
     (case List.find (\<lambda>p. pr_PlanID p = planID \<and> pr_IsActive p \<and> pr_IsDefault p) (sort_key pr_ID (bd_prices db)) of
        Some p \<Rightarrow> Inr p
      | None \<Rightarrow>
          (case List.find (\<lambda>p. pr_PlanID p = planID \<and> pr_IsActive p)
                  (sort_key pr_AmountCents (sort_key pr_ID (bd_prices db))) of
             Some p \<Rightarrow> Inr p
           | None \<Rightarrow> Inl ErrNotFound))"

definition start_segment :: "gotime \<Rightarrow> plan \<Rightarrow> subscription \<Rightarrow> gotime \<Rightarrow> timeline_segment" where
  "start_segment now p item e =
     \<lparr>sg_SubscriptionID = 0, sg_PlanID = su_PlanID item, sg_PriceID = su_PriceID item,
      sg_Rank = subscription_plan_rank p, sg_StartAt = from_now now item, sg_EndAt = e,
      sg_CancelAtPeriodEnd = False, sg_AutoRenew = False, sg_NewGrant = False\<rparr>"

fun start_segments :: "gotime \<Rightarrow> plan_map \<Rightarrow> subscription list \<Rightarrow> repo_err + timeline_segment list" where
  "start_segments now plans [] = Inr []"
| "start_segments now plans (item # items) =
     (case su_CurrentPeriodEndAt item of
        None \<Rightarrow> start_segments now plans items
      | Some e \<Rightarrow>
          if \<not> after e now then start_segments now plans items
          else case plans (su_PlanID item) of
                 None \<Rightarrow> Inl ErrInvalidInput
               | Some p \<Rightarrow>
                   (case start_segments now plans items of
                      Inl err \<Rightarrow> Inl err
                    | Inr segs \<Rightarrow> Inr (start_segment now p item e # segs)))"

function start_loop :: "timeline_segment list \<Rightarrow> int \<Rightarrow> gotime \<Rightarrow> gotime" where
  "start_loop segments rank cursor =
     (case next_timeline_blocker segments rank cursor of
        None \<Rightarrow> cursor
      | Some b \<Rightarrow> if after (sg_StartAt b) cursor then cursor else start_loop segments rank (sg_EndAt b))"
  by pat_completeness auto
termination
  by (relation "measure (\<lambda>(segments, rank, cursor). length (blockers_ahead rank cursor segments))")
    (auto dest: blocker_is_passed)

declare start_loop.simps [simp del]

definition redemption_subscription_grant_start :: "nat \<Rightarrow> plan \<Rightarrow> gotime \<Rightarrow> billing_db \<Rightarrow> gotime tx" where
  "redemption_subscription_grant_start userID p now db =
     (let existing = active_rows_from (tb_rows (bd_subscriptions db)) userID now
      in case billing_plans_for_timeline (bd_plans db) (append_subscription_plan_id existing (pl_ID p)) of
           Inl e \<Rightarrow> Inl e
         | Inr plans \<Rightarrow>
             (case start_segments now plans existing of
                Inl e \<Rightarrow> Inl e
              | Inr segments \<Rightarrow> Inr (start_loop segments (subscription_plan_rank p) now)))"

definition apply_redemption_subscription ::
  "gotime \<Rightarrow> nat \<Rightarrow> redemption_code \<Rightarrow> gotime \<Rightarrow> billing_db \<Rightarrow> (subscription \<times> billing_db) tx" where
  "apply_redemption_subscription clock userID code now db =
     (case find_active_plan (rc_PlanID code) db of
        None \<Rightarrow> Inl ErrNotFound
      | Some p \<Rightarrow>
          (case active_default_price_for_plan (pl_ID p) db of
             Inl e \<Rightarrow> Inl e
           | Inr pr \<Rightarrow>
               (case redemption_subscription_grant_start userID p now db of
                  Inl e \<Rightarrow> Inl e
                | Inr grantStart \<Rightarrow>
                    (case resolve_redemption_end grantStart (rc_DurationUnit code) (rc_DurationCount code) (rc_DurationDays code) of
                       None \<Rightarrow> Inl ErrInvalidInput
                     | Some endAt \<Rightarrow>
                         grant_on_db clock
                           \<lparr>tg_UserID = userID, tg_Plan = p, tg_PriceID = pr_ID pr, tg_StartAt = grantStart,
                            tg_Duration = time_sub endAt grantStart, tg_CancelAtPeriodEnd = False,
                            tg_AutoRenew = False, tg_NewGrant = True\<rparr> db))))"

record redemption_input =
  ri_CodeHash :: string
  ri_UserID :: nat
  ri_CurrentMode :: string
  ri_RefNo :: string
  ri_SubscriptionAt :: gotime

definition redemption_row ::
  "(redemption_code \<Rightarrow> string) \<Rightarrow> redemption_code \<Rightarrow> redemption_input \<Rightarrow> nat \<Rightarrow> nat \<Rightarrow> nat \<Rightarrow> redemption" where
  "redemption_row snapshot_of code input rowID subscriptionID transactionID =
     \<lparr>rd_ID = rowID, rd_CodeID = rc_ID code, rd_UserID = ri_UserID input, rd_Mode = rc_Mode code,
      rd_RewardType = rc_RewardType code, rd_CreditNanousd = rc_CreditNanousd code, rd_PlanID = rc_PlanID code,
      rd_SubscriptionID = subscriptionID, rd_BalanceTransactionID = transactionID,
      rd_RefNo = trim_space (ri_RefNo input), rd_SnapshotJSON = snapshot_of code\<rparr>"

definition apply_reward ::
  "gotime \<Rightarrow> redemption_code \<Rightarrow> redemption_input \<Rightarrow> gotime \<Rightarrow> billing_db
   \<Rightarrow> (account option \<times> subscription option \<times> nat \<times> nat \<times> billing_db) tx" where
  \<comment> \<open>the ids of the subscription and of the transaction, \<open>0\<close> when there is none\<close>
  "apply_reward clock code input now db =
     (if rc_RewardType code = ''balance'' then
        (case apply_redemption_balance (ri_UserID input) code (trim_space (ri_RefNo input)) db of
           Inl e \<Rightarrow> Inl e
         | Inr (a, transactionID, db') \<Rightarrow> Inr (Some a, None, 0, transactionID, db'))
      else if rc_RewardType code = ''subscription'' then
        (case apply_redemption_subscription clock (ri_UserID input) code now db of
           Inl e \<Rightarrow> Inl e
         | Inr (s, db') \<Rightarrow> Inr (None, Some s, su_ID s, 0, db'))
      else Inl ErrInvalidInput)"

definition count_redemption :: "redemption_code \<Rightarrow> redemption_code" where
  "count_redemption c = c\<lparr>rc_RedeemedCount := rc_RedeemedCount c + 1\<rparr>"

definition redeem_code ::
  "(redemption_code \<Rightarrow> string) \<Rightarrow> gotime \<Rightarrow> redemption_input \<Rightarrow> billing_db
   \<Rightarrow> (redemption_code \<times> redemption \<times> account option \<times> subscription option \<times> billing_db) tx" where
  "redeem_code snapshot_of clock input db =
     (let codeHash = trim_space (ri_CodeHash input);
          now = (if is_zero (ri_SubscriptionAt input) then clock else ri_SubscriptionAt input)
      in if codeHash = [] \<or> ri_UserID input = 0 then Inl ErrInvalidInput
         else case find_code codeHash db of
           None \<Rightarrow> Inl ErrRedemptionUnavailable
         | Some code \<Rightarrow>
             (case validate_redeemable_code code (ri_UserID input) (trim_space (ri_CurrentMode input)) now db of
                Inl e \<Rightarrow> Inl e
              | Inr _ \<Rightarrow>
                  (case apply_reward clock code input now db of
                     Inl e \<Rightarrow> Inl e
                   | Inr (a, s, subscriptionID, transactionID, db1) \<Rightarrow>
                       let row = redemption_row snapshot_of code input (bd_nextID db1) subscriptionID transactionID;
                           db2 = db1\<lparr>bd_redemptions := bd_redemptions db1 @ [row], bd_nextID := bd_nextID db1 + 1\<rparr>
                       in if in_i64 (rc_RedeemedCount code + 1)
                          then Inr (count_redemption code, row, a, s, update_code (rc_ID code) count_redemption db2)
                          else Inl ErrOutOfRange)))"

end
