(* ===== verification/Upkeep.thy ===== *)
theory Upkeep
  imports Reservations
begin

text \<open>
  What other parts of the program do to the tables of billing: the administrator's cleanup of
  logs (\<open>application/logcleanup/service.go\<close>, \<open>infra/persistence/postgres/logcleanup/repository.go\<close>) deletes usage
  ledgers and payment orders for good, the hard deletion of an account
  (\<open>infra/persistence/postgres/user/repository.go\<close>, \<open>DeleteAccountHard\<close>) deletes the user's balance account and
  subscriptions, and the import of users (\<open>ImportUsersWithCredentialsAndBalances\<close>) opens balance accounts. Rows carry
  no time of creation here, so the cleanup is given one for every row id.
\<close>

subsection \<open>Cleaning up logs\<close>

datatype cleanup_err = ErrInvalidType | ErrInvalidBefore | ErrFutureBefore | UnsupportedLogType string

text \<open>The other log tables, each row the time the cleanup compares.\<close>

record log_tables =
  lt_auditLogs :: "gotime list"
  lt_authEvents :: "gotime list"
  lt_runEvents :: "gotime list"
  lt_systemEvents :: "gotime list"

definition kept_logs :: "('a \<Rightarrow> gotime) \<Rightarrow> gotime \<Rightarrow> 'a list \<Rightarrow> 'a list" where
  "kept_logs at before' rows = filter (\<lambda>x. \<not> before (at x) before') rows"

definition gone_logs :: "('a \<Rightarrow> gotime) \<Rightarrow> gotime \<Rightarrow> 'a list \<Rightarrow> nat" where
  "gone_logs at before' rows = length (filter (\<lambda>x. before (at x) before') rows)"

definition delete_before ::
  "(nat \<Rightarrow> gotime) \<Rightarrow> (nat \<Rightarrow> gotime) \<Rightarrow> string \<Rightarrow> gotime \<Rightarrow> log_tables \<times> billing_db
   \<Rightarrow> cleanup_err + (nat \<times> log_tables \<times> billing_db)" where
  "delete_before ledgerAt orderAt logType t st =
     (case st of (logs, db) \<Rightarrow>
        if logType = ''audit'' then
          Inr (gone_logs id t (lt_auditLogs logs), logs\<lparr>lt_auditLogs := kept_logs id t (lt_auditLogs logs)\<rparr>, db)
        else if logType = ''auth'' then
          Inr (gone_logs id t (lt_authEvents logs), logs\<lparr>lt_authEvents := kept_logs id t (lt_authEvents logs)\<rparr>, db)
        else if logType = ''usage'' then
          Inr (gone_logs (ledgerAt \<circ> ul_ID) t (bd_ledgers db), logs,
               db\<lparr>bd_ledgers := kept_logs (ledgerAt \<circ> ul_ID) t (bd_ledgers db)\<rparr>)
        else if logType = ''orders'' then
          Inr (gone_logs (orderAt \<circ> po_ID) t (bd_orders db), logs,
               db\<lparr>bd_orders := kept_logs (orderAt \<circ> po_ID) t (bd_orders db)\<rparr>)
        else if logType = ''conversation'' then
          Inr (gone_logs id t (lt_runEvents logs), logs\<lparr>lt_runEvents := kept_logs id t (lt_runEvents logs)\<rparr>, db)
        else if logType = ''system'' then
          Inr (gone_logs id t (lt_systemEvents logs), logs\<lparr>lt_systemEvents := kept_logs id t (lt_systemEvents logs)\<rparr>, db)
        else Inl (UnsupportedLogType logType))"

definition valid_type :: "string \<Rightarrow> bool" where
  "valid_type value \<longleftrightarrow>
     value \<in> set [''audit'', ''auth'', ''usage'', ''orders'', ''conversation'', ''system'']"

text \<open>\<open>Cleanup\<close> without the audit entry it writes afterwards.\<close>

definition cleanup_logs ::
  "(nat \<Rightarrow> gotime) \<Rightarrow> (nat \<Rightarrow> gotime) \<Rightarrow> gotime \<Rightarrow> string \<Rightarrow> gotime \<Rightarrow> log_tables \<times> billing_db
   \<Rightarrow> cleanup_err + (nat \<times> log_tables \<times> billing_db)" where
  "cleanup_logs ledgerAt orderAt now inputType t st =
     (let logType = to_lower (trim_space inputType)
      in if \<not> valid_type logType then Inl ErrInvalidType
         else if is_zero t then Inl ErrInvalidBefore
         else if after t now then Inl ErrFutureBefore
         else delete_before ledgerAt orderAt logType t st)"

subsection \<open>Deleting and importing accounts\<close>

datatype delete_err = ErrBuiltinFileOwnerDeleteBlocked

text \<open>
  The steps of \<open>DeleteAccountHard\<close> on billing; ledgers, journal, orders and reservations stay.
  \<open>builtinFileReferences\<close> counts the user's files that built-in knowledge bases use.
\<close>

definition delete_account_hard :: "nat \<Rightarrow> nat \<Rightarrow> billing_db \<Rightarrow> delete_err + billing_db" where
  "delete_account_hard builtinFileReferences userID db =
     (if 0 < builtinFileReferences then Inl ErrBuiltinFileOwnerDeleteBlocked
      else Inr (db\<lparr>bd_subscriptions := (bd_subscriptions db)
                     \<lparr>tb_rows := filter (\<lambda>s. su_UserID s \<noteq> userID) (tb_rows (bd_subscriptions db))\<rparr>,
                   bd_accounts := filter (\<lambda>a. ac_UserID a \<noteq> userID) (bd_accounts db)\<rparr>))"

text \<open>An imported user, with the id the table of users gave him.\<close>

record user_import_record =
  ui_UserID :: nat
  ui_BillingBalanceNanousd :: int
  ui_BillingBalanceRefNo :: string
  ui_BillingBalanceDescription :: string

definition import_account :: "user_import_record \<Rightarrow> billing_db \<Rightarrow> billing_db tx" where
  "import_account r db =
     (if find_account (ui_UserID r) db \<noteq> None then Inl ErrDuplicate
      else
        let balanceNanousd = (if ui_BillingBalanceNanousd r < 0 then 0 else ui_BillingBalanceNanousd r);
            a = (new_account (bd_nextID db) (ui_UserID r))\<lparr>ac_BalanceNanousd := balanceNanousd\<rparr>;
            db1 = db\<lparr>bd_accounts := bd_accounts db @ [a], bd_nextID := bd_nextID db + 1\<rparr>;
            description = trim_space (ui_BillingBalanceDescription r)
        in if 0 < balanceNanousd then
             Inr (post_transaction a (ui_UserID r) ''admin_set'' balanceNanousd balanceNanousd ''admin_import'' 0
                    (trim_space (ui_BillingBalanceRefNo r))
                    (if description = [] then ''OpenWebUI import'' else description) db1)
           else Inr db1)"

fun import_accounts :: "user_import_record list \<Rightarrow> billing_db \<Rightarrow> billing_db tx" where
  "import_accounts [] db = Inr db"
| "import_accounts (r # rs) db =
     (case import_account r db of Inl e \<Rightarrow> Inl e | Inr db' \<Rightarrow> import_accounts rs db')"

subsection \<open>What they leave alone\<close>

lemma cleanup_logs_tables:
  assumes "cleanup_logs ledgerAt orderAt now inputType t (logs, db) = Inr (n, logs', db')"
  shows "\<exists>P Q. db' = db\<lparr>bd_ledgers := filter P (bd_ledgers db), bd_orders := filter Q (bd_orders db)\<rparr>"
proof -
  have all: "filter (\<lambda>_. True) xs = xs" for xs :: "'x list" by simp
  consider "db' = db" | "db' = db\<lparr>bd_ledgers := kept_logs (ledgerAt \<circ> ul_ID) t (bd_ledgers db)\<rparr>"
    | "db' = db\<lparr>bd_orders := kept_logs (orderAt \<circ> po_ID) t (bd_orders db)\<rparr>"
    using assms by (auto simp: cleanup_logs_def delete_before_def Let_def split: if_splits)
  then show ?thesis
  proof cases
    case 1
    show ?thesis by (rule exI [of _ "\<lambda>_. True"], rule exI [of _ "\<lambda>_. True"]) (simp add: 1)
  next
    case 2
    show ?thesis by (rule exI, rule exI [of _ "\<lambda>_. True"]) (simp add: 2 kept_logs_def)
  next
    case 3
    show ?thesis by (rule exI [of _ "\<lambda>_. True"], rule exI) (simp add: 3 kept_logs_def)
  qed
qed

text \<open>
  The used part of a period credit is the sum of the ledger rows of the period, so a cleanup of
  usage logs up to now gives every user his period credit back.
\<close>

lemma cleanup_restores_period_credit:
  assumes "\<forall>u\<in>set (bd_ledgers db). ledgerAt (ul_ID u) < now" and "now \<noteq> 0"
  shows "\<exists>db'. cleanup_logs ledgerAt orderAt now ''usage'' now (logs, db) = Inr (length (bd_ledgers db), logs, db')
    \<and> sum_billable_nanousd userID startAt endAt db' = 0"
proof -
  have kept: "kept_logs (ledgerAt \<circ> ul_ID) now (bd_ledgers db) = []"
    using assms(1) by (simp add: kept_logs_def filter_empty_conv)
  have "filter (\<lambda>u. ledgerAt (ul_ID u) < now) (bd_ledgers db) = bd_ledgers db"
    using assms(1) by (simp add: filter_id_conv)
  then have gone: "gone_logs (ledgerAt \<circ> ul_ID) now (bd_ledgers db) = length (bd_ledgers db)"
    by (simp add: gone_logs_def)
  have name: "trim_space ''usage'' = ''usage''" "to_lower ''usage'' = ''usage''" by code_simp+
  show ?thesis
    using assms(2)
    by (simp add: cleanup_logs_def delete_before_def Let_def name valid_type_def kept gone sum_billable_nanousd_def
        del: to_lower.simps)
qed

end
