(* ===== verification/Statements.thy ===== *)
theory Statements
  imports Budgets Redemptions Upkeep
begin

text \<open>
  The statements billing transactions are made of. Whatever an operation of billing does to the
  database, it does by a sequence of the writes below, each with the guard the code has
  established when it runs; the invariants of the database are proved once per kind of write.
\<close>

definition final :: "reservation \<Rightarrow> bool" where
  "final r \<longleftrightarrow> rs_Status r \<in> {Settled, Released}"

text \<open>What later writes may make of a reservation: its key and its budget stay, and so does all of it once it is final.\<close>

definition forward :: "reservation \<Rightarrow> reservation \<Rightarrow> bool" where
  "forward r r' \<longleftrightarrow>
     rs_ID r' = rs_ID r \<and> rs_UserID r' = rs_UserID r \<and> rs_RefNo r' = rs_RefNo r \<and> rs_Mode r' = rs_Mode r
     \<and> rs_BalanceNanousd r' = rs_BalanceNanousd r \<and> rs_PeriodCreditNanousd r' = rs_PeriodCreditNanousd r
     \<and> rs_PeriodLimitNanousd r' = rs_PeriodLimitNanousd r \<and> rs_PeriodStartAt r' = rs_PeriodStartAt r
     \<and> rs_PeriodEndAt r' = rs_PeriodEndAt r \<and> rs_WeeklyCycleID r' = rs_WeeklyCycleID r
     \<and> rs_WeeklyCreditNanousd r' = rs_WeeklyCreditNanousd r \<and> rs_WeeklyLimitNanousd r' = rs_WeeklyLimitNanousd r
     \<and> (final r \<longrightarrow> r' = r)"

definition code_kept :: "redemption_code \<Rightarrow> redemption_code \<Rightarrow> bool" where
  "code_kept c c' \<longleftrightarrow> rc_ID c' = rc_ID c \<and> rc_CodeHash c' = rc_CodeHash c"

definition settled_charge :: "usage_ledger \<Rightarrow> int" where
  "settled_charge u = (if ul_IsFreeModel u then 0 else clamp_non_negative (ul_BilledNanousd u))"

definition has_ledger :: "nat \<Rightarrow> usage_ledger \<Rightarrow> billing_db \<Rightarrow> bool" where
  "has_ledger userID u db \<longleftrightarrow>
     u \<in> set (bd_ledgers db) \<and> ul_UserID u = userID \<and> 0 < ul_ID u
     \<and> (\<forall>x\<in>set (bd_reservations db). rs_UsageLedgerID x \<noteq> ul_ID u)"

inductive db_stmt :: "gotime \<Rightarrow> billing_db \<Rightarrow> billing_db \<Rightarrow> bool" for now where
  account_opened: "u \<noteq> 0 \<Longrightarrow> find_account u db = None
    \<Longrightarrow> db_stmt now db (db\<lparr>bd_accounts := bd_accounts db @ [new_account (bd_nextID db) u], bd_nextID := bd_nextID db + 1\<rparr>)"
| account_touched: "a \<in> set (bd_accounts db)
    \<Longrightarrow> db_stmt now db (update_account (ac_ID a) (set_balance (ac_BalanceNanousd a)) db)"
| balance_moved: "a \<in> set (bd_accounts db) \<Longrightarrow> b = wrap64 (ac_BalanceNanousd a + amount) \<Longrightarrow> kind \<noteq> ''topup''
    \<Longrightarrow> db_stmt now db (post_transaction a (ac_UserID a) kind amount b refType refID refNo description
          (update_account (ac_ID a) (set_balance b) db))"
| order_credited: "a \<in> set (bd_accounts db) \<Longrightarrow> b = wrap64 (ac_BalanceNanousd a + po_CreditNanousd order)
    \<Longrightarrow> order \<in> set (bd_orders db) \<Longrightarrow> po_Status order = ''pending'' \<Longrightarrow> po_OrderType order = ''topup''
    \<Longrightarrow> po_UserID order = ac_UserID a
    \<Longrightarrow> db_stmt now db (update_order (po_ID order) (paid_order externalPaymentID paidAt)
          (post_transaction a (po_UserID order) ''topup'' (po_CreditNanousd order) b refType (po_ID order) refNo description
            (update_account (ac_ID a) (set_balance b) db)))"
| order_paid: "order \<in> set (bd_orders db) \<Longrightarrow> po_Status order = ''pending'' \<Longrightarrow> po_OrderType order \<noteq> ''topup''
    \<Longrightarrow> db_stmt now db (update_order (po_ID order) (paid_order externalPaymentID paidAt) db)"
| order_created: "find_order (po_OrderNo row) db = None \<Longrightarrow> po_ID row = bd_nextID db \<Longrightarrow> po_Status row = ''pending''
    \<Longrightarrow> db_stmt now db (db\<lparr>bd_orders := bd_orders db @ [row], bd_nextID := bd_nextID db + 1\<rparr>)"
| orders_attached: "\<forall>r\<in>set (bd_orders db). \<exists>checkout url. f r = r\<lparr>po_ExternalCheckoutID := checkout, po_CheckoutURL := url\<rparr>
    \<Longrightarrow> db_stmt now db (db\<lparr>bd_orders := map f (bd_orders db)\<rparr>)"
| ledger_written: "db_stmt now db (snd (create_ledger u db))"
| reservation_made: "find_reservation (rs_UserID row) (rs_RefNo row) db = None \<Longrightarrow> rs_ID row = bd_nextID db
    \<Longrightarrow> rs_Status row = Active \<Longrightarrow> rs_UsageLedgerID row = 0
    \<Longrightarrow> db_stmt now db (db\<lparr>bd_reservations := bd_reservations db @ [row], bd_nextID := bd_nextID db + 1\<rparr>)"
| reservations_moved: "\<forall>r\<in>set (bd_reservations db). forward r (f r) \<and> rs_UsageLedgerID (f r) = rs_UsageLedgerID r
        \<and> (rs_Status (f r) = Settled \<longrightarrow> f r = r)
    \<Longrightarrow> db_stmt now db (db\<lparr>bd_reservations := map f (bd_reservations db)\<rparr>)"
| reservation_settled: "r \<in> set (bd_reservations db) \<Longrightarrow> \<not> final r \<Longrightarrow> rs_Mode r \<noteq> ''weekly'' \<Longrightarrow> has_ledger (rs_UserID r) u db
    \<Longrightarrow> db_stmt now db (update_reservation (rs_ID r) (settled_row (ul_ID u) at) db)"
| weekly_settled: "r \<in> set (bd_reservations db) \<Longrightarrow> \<not> final r \<Longrightarrow> rs_Mode r = ''weekly'' \<Longrightarrow> has_ledger (rs_UserID r) u db
    \<Longrightarrow> q \<in> set (bd_quotaAccounts db) \<Longrightarrow> qa_UserID q = rs_UserID r \<Longrightarrow> charge = settled_charge u
    \<Longrightarrow> db_stmt now db (update_reservation (rs_ID r) (weekly_settled_row (ul_ID u) charge (qa_CycleID q) at)
          (update_quota_account (qa_ID q) (qa_UsedNanousd_update (\<lambda>_. add_non_negative_int64 (qa_UsedNanousd q) charge)) db))"
| quota_opened: "List.find (\<lambda>q. qa_CycleID q = cycleID \<and> qa_UserID q = u) (bd_quotaAccounts db) = None
    \<Longrightarrow> q = \<lparr>qa_ID = bd_nextID db, qa_CycleID = cycleID, qa_UserID = u, qa_UsedNanousd = 0, qa_ReservedNanousd = 0\<rparr>
    \<Longrightarrow> db_stmt now db (db\<lparr>bd_quotaAccounts := bd_quotaAccounts db @ [q], bd_nextID := bd_nextID db + 1\<rparr>)"
| quota_reserved: "db_stmt now db (update_quota_account i (qa_ReservedNanousd_update (\<lambda>_. x)) db)"
| cycles_moved: "only_cycles db db' \<Longrightarrow> quota_ok db' \<Longrightarrow> started now db'
    \<Longrightarrow> db_stmt now db db'"
| code_created: "find_code (rc_CodeHash row) db = None \<Longrightarrow> rc_ID row = bd_nextID db \<Longrightarrow> rc_RedeemedCount row = 0
    \<Longrightarrow> (\<forall>m. rc_MaxRedemptions row = Some m \<longrightarrow> 0 < m)
    \<Longrightarrow> db_stmt now db (db\<lparr>bd_codes := bd_codes db @ [row], bd_nextID := bd_nextID db + 1\<rparr>)"
| codes_changed: "\<forall>c\<in>set (bd_codes db). code_kept c (f c) \<and> rc_RedeemedCount (f c) = rc_RedeemedCount c
        \<and> (rc_MaxRedemptions (f c) = rc_MaxRedemptions c
           \<or> (\<forall>m. rc_MaxRedemptions (f c) = Some m \<longrightarrow> rc_RedeemedCount c \<le> m))
    \<Longrightarrow> db_stmt now db (db\<lparr>bd_codes := map f (bd_codes db)\<rparr>)"
| redeemed: "c \<in> set (bd_codes db) \<Longrightarrow> (\<forall>m. rc_MaxRedemptions c = Some m \<longrightarrow> rc_RedeemedCount c < m) \<Longrightarrow> rd_CodeID row = rc_ID c
    \<Longrightarrow> db_stmt now db (update_code (rc_ID c) count_redemption
          (db\<lparr>bd_redemptions := bd_redemptions db @ [row], bd_nextID := bd_nextID db + 1\<rparr>))"
| rows_deleted: "db_stmt now db (db\<lparr>bd_ledgers := filter P (bd_ledgers db), bd_orders := filter Q (bd_orders db),
      bd_accounts := filter R (bd_accounts db)\<rparr>)"
| entitlements_changed: "db_stmt now db (db\<lparr>bd_subscriptions := tab, bd_plans := plans, bd_prices := prices\<rparr>)"

subsection \<open>Keys and ranges\<close>

definition vals_below :: "('a \<Rightarrow> nat) \<Rightarrow> nat \<Rightarrow> 'a list \<Rightarrow> bool" where
  "vals_below f n xs \<longleftrightarrow> (\<forall>x\<in>set xs. f x < n)"

definition distinct_by :: "('a \<Rightarrow> 'b) \<Rightarrow> 'a list \<Rightarrow> bool" where
  "distinct_by key xs \<longleftrightarrow> distinct (map key xs)"

definition topup_ref :: "balance_transaction \<Rightarrow> nat" where
  "topup_ref t = (if bt_Type t = ''topup'' then bt_RefID t else 0)"

definition quota_key :: "quota_account \<Rightarrow> nat \<times> nat" where
  "quota_key q = (qa_CycleID q, qa_UserID q)"

definition tables_ok :: "billing_db \<Rightarrow> bool" where
  "tables_ok db \<longleftrightarrow> 0 < bd_nextID db
     \<and> ids_below ac_ID (bd_nextID db) (bd_accounts db) \<and> distinct_by ac_UserID (bd_accounts db)
     \<and> ids_below rs_ID (bd_nextID db) (bd_reservations db)
     \<and> vals_below rs_UsageLedgerID (bd_nextID db) (bd_reservations db)
     \<and> ids_below ul_ID (bd_nextID db) (bd_ledgers db)
     \<and> ids_below po_ID (bd_nextID db) (bd_orders db)
     \<and> ids_below rc_ID (bd_nextID db) (bd_codes db)
     \<and> ids_below qa_ID (bd_nextID db) (bd_quotaAccounts db)
     \<and> distinct_by quota_key (bd_quotaAccounts db)
     \<and> vals_below bt_AccountID (bd_nextID db) (bd_transactions db)
     \<and> vals_below topup_ref (bd_nextID db) (bd_transactions db)
     \<and> vals_below rd_CodeID (bd_nextID db) (bd_redemptions db)
     \<and> (\<forall>a\<in>set (bd_accounts db). in_i64 (ac_BalanceNanousd a))"

lemma find_None_key: "List.find (\<lambda>x. key x = k) xs = None \<Longrightarrow> k \<notin> key ` set xs"
  by (auto simp: find_None_iff)

lemma ids_below_grow [simp]: "ids_below key n xs \<Longrightarrow> ids_below key (Suc n) xs"
  by (erule ids_below_mono) simp

lemma vals_below_simps [simp]:
  "vals_below f n []" "vals_below f n xs \<Longrightarrow> vals_below f (Suc n) xs"
  "vals_below f n (xs @ [x]) \<longleftrightarrow> vals_below f n xs \<and> f x < n"
  by (auto simp: vals_below_def)

lemma vals_below_mono: "vals_below f n xs \<Longrightarrow> n \<le> m \<Longrightarrow> vals_below f m xs"
  by (auto simp: vals_below_def)

lemma distinct_by_simps [simp]:
  "distinct_by key []" "distinct_by key (xs @ [x]) \<longleftrightarrow> distinct_by key xs \<and> key x \<notin> key ` set xs"
  by (auto simp: distinct_by_def)

text \<open>An update that keeps the key of the rows it changes.\<close>

lemma distinct_by_map:
  assumes "\<And>x. x \<in> set xs \<Longrightarrow> key (f x) = key x"
  shows "distinct_by key (map f xs) = distinct_by key xs"
proof -
  have "map key (map f xs) = map key xs" using assms by simp
  then show ?thesis by (simp add: distinct_by_def del: map_map)
qed

lemma keyed_filter:
  "ids_below key n xs \<Longrightarrow> ids_below key n (filter P xs)" "distinct_by val xs \<Longrightarrow> distinct_by val (filter P xs)"
  by (auto simp: ids_below_def distinct_by_def distinct_map_filter)

lemma keyed_map:
  assumes "\<And>x. x \<in> set xs \<Longrightarrow> key (f x) = key x"
  shows "ids_below key n (map f xs) = ids_below key n xs" "vals_below key n (map f xs) = vals_below key n xs"
  using distinct_by_map [of xs key f] assms by (simp_all add: ids_below_def vals_below_def distinct_by_def)

lemmas row_ops = update_account_def update_order_def update_reservation_def update_quota_account_def update_code_def
  post_transaction_def create_ledger_def Let_def

text \<open>The fields rows are looked up by survive every update.\<close>

lemma set_balance_simps [simp]:
  "ac_ID (set_balance b a) = ac_ID a" "ac_UserID (set_balance b a) = ac_UserID a"
  "ac_BalanceNanousd (set_balance b a) = b"
  by (simp_all add: set_balance_def)

lemma paid_order_simps [simp]:
  "po_ID (paid_order e t r) = po_ID r" "po_OrderNo (paid_order e t r) = po_OrderNo r"
  "po_Status (paid_order e t r) = ''paid''" "po_OrderType (paid_order e t r) = po_OrderType r"
  "po_UserID (paid_order e t r) = po_UserID r" "po_CreditNanousd (paid_order e t r) = po_CreditNanousd r"
  by (simp_all add: paid_order_def)

lemma count_redemption_simps [simp]:
  "rc_ID (count_redemption c) = rc_ID c" "rc_CodeHash (count_redemption c) = rc_CodeHash c"
  "rc_RedeemedCount (count_redemption c) = rc_RedeemedCount c + 1" "rc_MaxRedemptions (count_redemption c) = rc_MaxRedemptions c"
  by (simp_all add: count_redemption_def)

lemma settled_row_simps [simp]:
  "rs_ID (settled_row l t r) = rs_ID r" "rs_UsageLedgerID (settled_row l t r) = l" "rs_Status (settled_row l t r) = Settled"
  "rs_ID (weekly_settled_row l x c t r) = rs_ID r" "rs_UsageLedgerID (weekly_settled_row l x c t r) = l"
  "rs_Status (weekly_settled_row l x c t r) = Settled"
  by (simp_all add: settled_row_def weekly_settled_row_def)

lemma quota_key_simps [simp]:
  "quota_key \<lparr>qa_ID = i, qa_CycleID = c, qa_UserID = u, qa_UsedNanousd = x, qa_ReservedNanousd = y\<rparr> = (c, u)"
  "quota_key (q\<lparr>qa_UsedNanousd := x\<rparr>) = quota_key q" "quota_key (q\<lparr>qa_ReservedNanousd := x\<rparr>) = quota_key q"
  by (simp_all add: quota_key_def)

lemma in_i64_0 [simp]: "in_i64 0"
  by (simp add: in_i64_def)

lemma find_account_None: "find_account u db = None \<Longrightarrow> u \<notin> ac_UserID ` set (bd_accounts db)"
  unfolding find_account_def by (rule find_None_key)

lemma find_quota_None:
  "List.find (\<lambda>q. qa_CycleID q = c \<and> qa_UserID q = u) qs = None \<Longrightarrow> (c, u) \<notin> quota_key ` set qs"
  by (auto simp: find_None_iff quota_key_def)

lemma stmt_grows: "db_stmt now db db' \<Longrightarrow> bd_nextID db \<le> bd_nextID db'"
  by (induction rule: db_stmt.cases) (auto simp: row_ops dest: only_cyclesD)

lemma row_below:
  assumes "tables_ok db"
  shows "a \<in> set (bd_accounts db) \<Longrightarrow> ac_ID a < Suc (bd_nextID db)"
    "order \<in> set (bd_orders db) \<Longrightarrow> po_ID order < Suc (bd_nextID db)"
    "c \<in> set (bd_codes db) \<Longrightarrow> rc_ID c < Suc (bd_nextID db)"
    "u \<in> set (bd_ledgers db) \<Longrightarrow> ul_ID u < bd_nextID db"
  using assms by (auto simp: tables_ok_def less_Suc_eq dest: ids_below_less)

theorem stmt_keeps_tables: "db_stmt now db db' \<Longrightarrow> tables_ok db \<Longrightarrow> tables_ok db'"
proof (induction rule: db_stmt.induct)
  case (account_opened u db)
  then show ?case using find_account_None [of u db]
    by (simp add: tables_ok_def new_account_def ids_below_snoc)
next
  case (account_touched a db)
  then show ?case by (simp add: tables_ok_def row_ops keyed_map distinct_by_map) auto
next
  case (balance_moved a db b amount kind refType refID refNo description)
  then show ?case by (simp add: tables_ok_def row_ops keyed_map distinct_by_map row_below [OF balance_moved(4)] topup_ref_def) auto
next
  case (order_credited a db b order externalPaymentID paidAt refType refNo description)
  then show ?case
    by (simp add: tables_ok_def row_ops keyed_map distinct_by_map row_below [OF order_credited(7)] topup_ref_def) auto
next
  case (order_paid order db externalPaymentID paidAt)
  then show ?case by (simp add: tables_ok_def row_ops keyed_map distinct_by_map)
next
  case (order_created row db)
  then show ?case by (simp add: tables_ok_def ids_below_snoc)
next
  case (orders_attached db f)
  then have "\<And>r. r \<in> set (bd_orders db) \<Longrightarrow> po_ID (f r) = po_ID r" by fastforce
  with orders_attached show ?case by (simp add: tables_ok_def keyed_map)
next
  case (ledger_written db u)
  then show ?case by (simp add: tables_ok_def row_ops ids_below_snoc)
next
  case (reservation_made row db)
  then show ?case by (simp add: tables_ok_def ids_below_snoc)
next
  case (reservations_moved db f)
  then have "\<And>r. r \<in> set (bd_reservations db) \<Longrightarrow> rs_ID (f r) = rs_ID r" by (simp add: forward_def)
  with reservations_moved show ?case by (simp add: tables_ok_def keyed_map)
next
  case (reservation_settled r db u at)
  then have "ul_ID u < bd_nextID db" by (auto simp: has_ledger_def dest: row_below(4))
  with reservation_settled show ?case by (auto simp: tables_ok_def row_ops keyed_map distinct_by_map vals_below_def)
next
  case (weekly_settled r db u q charge at)
  then have "ul_ID u < bd_nextID db" by (auto simp: has_ledger_def dest: row_below(4))
  with weekly_settled show ?case by (auto simp: tables_ok_def row_ops keyed_map distinct_by_map vals_below_def)
next
  case (quota_opened cycleID u db q)
  then show ?case using find_quota_None [OF quota_opened(1)]
    by (simp add: tables_ok_def ids_below_snoc)
next
  case (quota_reserved db i x)
  then show ?case by (simp add: tables_ok_def row_ops keyed_map distinct_by_map)
next
  case (cycles_moved db db')
  then have "only_cycles db db'" by simp
  from only_cyclesD [OF this] cycles_moved show ?case
    by (auto simp: tables_ok_def elim: ids_below_mono vals_below_mono)
next
  case (code_created row db)
  then show ?case by (simp add: tables_ok_def ids_below_snoc)
next
  case (codes_changed db f)
  then have "\<And>c. c \<in> set (bd_codes db) \<Longrightarrow> rc_ID (f c) = rc_ID c" by (simp add: code_kept_def)
  with codes_changed show ?case by (simp add: tables_ok_def keyed_map)
next
  case (redeemed c db row)
  then show ?case by (simp add: tables_ok_def row_ops keyed_map distinct_by_map row_below [OF redeemed(4)])
next
  case (rows_deleted db P Q R)
  then show ?case by (simp add: tables_ok_def keyed_filter)
next
  case (entitlements_changed db tab plans prices)
  then show ?case by (simp add: tables_ok_def)
qed

text \<open>The state billing runs in: the tables are in order and the current week has begun.\<close>

definition books :: "gotime \<Rightarrow> billing_db \<Rightarrow> bool" where
  "books now db \<longleftrightarrow> tables_ok db \<and> quota_ok db \<and> started now db"

lemma stmt_keeps_weeks:
  "db_stmt now db db' \<Longrightarrow> quota_ok db \<and> started now db \<Longrightarrow> quota_ok db' \<and> started now db'"
proof (induction rule: db_stmt.induct)
  case (cycles_moved db db')
  then show ?case by simp
qed (auto simp: row_ops quota_ok_def cycle_ids_ok_def current_cycle_id_def started_def)

theorem stmt_keeps_books: "db_stmt now db db' \<Longrightarrow> books now db \<Longrightarrow> books now db'"
  using stmt_keeps_tables stmt_keeps_weeks by (simp add: books_def)

end
