(* ===== verification/Transactions.thy ===== *)
theory Transactions
  imports Statements
begin

text \<open>
  Every operation of billing is a sequence of the writes of \<open>Statements\<close>: accounts and their
  journal, orders, codes, reservations and their settlement, weekly cycles.
\<close>

abbreviation stmts :: "gotime \<Rightarrow> billing_db \<Rightarrow> billing_db \<Rightarrow> bool" where
  "stmts now \<equiv> (db_stmt now)\<^sup>*\<^sup>*"

lemma stmts_keep_tables: "stmts now db db' \<Longrightarrow> tables_ok db \<Longrightarrow> tables_ok db'"
  by (induction rule: rtranclp_induct) (auto intro: stmt_keeps_tables)

lemma stmts_keep_books: "stmts now db db' \<Longrightarrow> books now db \<Longrightarrow> books now db'"
  by (induction rule: rtranclp_induct) (auto intro: stmt_keeps_books)

lemma booksD: "books now db \<Longrightarrow> tables_ok db" "books now db \<Longrightarrow> quota_ok db" "books now db \<Longrightarrow> started now db"
  by (simp_all add: books_def)

lemma stmts_then: "stmts now db db1 \<Longrightarrow> db_stmt now db1 db2 \<Longrightarrow> stmts now db db2"
  by (rule rtranclp.rtrancl_into_rtrancl)

subsection \<open>Accounts\<close>

lemma wrap64_diff: "in_i64 b \<Longrightarrow> wrap64 (x + wrap64 (b - x)) = b"
proof -
  assume b: "in_i64 b"
  have "(x + wrap64 (b - x) + 2 ^ 63) mod 2 ^ 64 = (b + 2 ^ 63) mod 2 ^ 64"
    unfolding wrap64_def by (simp add: mod_simps algebra_simps)
  then show ?thesis using wrap64_id [OF b] by (simp add: wrap64_def)
qed

lemma account_got:
  assumes "get_or_create_billing_account u db = Inr (a, db1)"
  shows "stmts now db db1" "a \<in> set (bd_accounts db1)" "ac_UserID a = u" "u \<noteq> 0"
    "find_account u db1 = Some a"
    "\<exists>as n. db1 = db\<lparr>bd_accounts := as, bd_nextID := n\<rparr>"
proof -
  have "stmts now db db1 \<and> a \<in> set (bd_accounts db1) \<and> ac_UserID a = u \<and> u \<noteq> 0
      \<and> (\<exists>as n. db1 = db\<lparr>bd_accounts := as, bd_nextID := n\<rparr>)"
  proof (cases "find_account u db")
    case None
    then have "u \<noteq> 0" "a = new_account (bd_nextID db) u"
      "db1 = db\<lparr>bd_accounts := bd_accounts db @ [new_account (bd_nextID db) u], bd_nextID := bd_nextID db + 1\<rparr>"
      using assms by (auto simp: get_or_create_billing_account_def Let_def split: if_splits)
    then show ?thesis using account_opened [OF _ None, of now] by (auto simp: new_account_def intro: exI)
  next
    case (Some x)
    then have "db1 = db" "a = x" "u \<noteq> 0" using assms by (auto simp: get_or_create_billing_account_def split: if_splits)
    moreover have "\<exists>as n. db = db\<lparr>bd_accounts := as, bd_nextID := n\<rparr>"
      by (intro exI [of _ "bd_accounts db"] exI [of _ "bd_nextID db"]) simp
    ultimately show ?thesis using Some find_key [of ac_UserID u "bd_accounts db" x] by (simp add: find_account_def)
  qed
  then show "stmts now db db1" "a \<in> set (bd_accounts db1)" "ac_UserID a = u" "u \<noteq> 0"
    "\<exists>as n. db1 = db\<lparr>bd_accounts := as, bd_nextID := n\<rparr>" by blast+
  show "find_account u db1 = Some a" by (rule get_account_spec(1) [OF assms])
qed

lemma update_account_cong:
  assumes "tables_ok db" and "a \<in> set (bd_accounts db)" and "f a = g a"
  shows "update_account (ac_ID a) f db = update_account (ac_ID a) g db"
proof -
  have "x = a" if "x \<in> set (bd_accounts db)" "ac_ID x = ac_ID a" for x
    using ids_below_inj [of ac_ID "bd_nextID db" "bd_accounts db" x a] that assms by (simp add: tables_ok_def)
  then have "map (\<lambda>x. if ac_ID x = ac_ID a then f x else x) (bd_accounts db)
      = map (\<lambda>x. if ac_ID x = ac_ID a then g x else x) (bd_accounts db)"
    using assms(3) by (intro map_cong refl) auto
  then show ?thesis by (simp only: update_account_def)
qed

text \<open>An update by an expression together with its journal row is one move of the balance.\<close>

lemma add_and_post:
  assumes "add_to_balance a delta db = Inr db1" and ok: "tables_ok db" and a: "a \<in> set (bd_accounts db)"
    and kind: "kind \<noteq> ''topup''" and "b = ac_BalanceNanousd a + delta"
  shows "db_stmt now db (post_transaction a (ac_UserID a) kind delta b refType refID refNo description db1)"
proof -
  have "in_i64 (ac_BalanceNanousd a + delta)"
    and "db1 = update_account (ac_ID a) (\<lambda>r. set_balance (ac_BalanceNanousd r + delta) r) db"
    using assms(1) by (auto simp: add_to_balance_def split: if_splits)
  moreover have "update_account (ac_ID a) (\<lambda>r. set_balance (ac_BalanceNanousd r + delta) r) db
      = update_account (ac_ID a) (set_balance b) db"
    unfolding assms(5) by (rule update_account_cong [OF ok a refl])
  ultimately have db1: "db1 = update_account (ac_ID a) (set_balance b) db" and b: "b = wrap64 (ac_BalanceNanousd a + delta)"
    using assms(5) wrap64_id by simp_all
  show ?thesis unfolding db1 by (rule balance_moved [OF a b kind])
qed

lemma post_transaction_same_id: "ac_ID a' = ac_ID a \<Longrightarrow> post_transaction a' = post_transaction a"
  by (simp add: post_transaction_def fun_eq_iff)

lemma set_billing_account_balance_stmts:
  assumes run: "set_billing_account_balance u b refNo descr db = Inr (a', db')" and "tables_ok db" and b: "in_i64 b"
  shows "stmts now db db'"
proof -
  obtain a db1 where acc: "get_or_create_billing_account u db = Inr (a, db1)"
    using run by (auto simp: set_billing_account_balance_def split: if_splits sum.splits)
  note got = account_got [OF acc]
  have ok: "tables_ok db1" by (rule stmts_keep_tables [OF got(1) assms(2)])
  define m where "m = wrap64 (b - ac_BalanceNanousd a)"
  have b': "b = wrap64 (ac_BalanceNanousd a + m)" by (simp add: m_def wrap64_diff [OF b])
  have db': "db' = (let db2 = update_account (ac_ID a) (set_balance b) db1
      in if m \<noteq> 0 then post_transaction a u ''admin_set'' m b ''admin'' 0 (trim_space refNo)
                        (first_non_empty [trim_space descr, admin_set_description]) db2 else db2)"
    using run acc by (auto simp: set_billing_account_balance_def m_def Let_def split: if_splits)
  have "db_stmt now db1 db'"
  proof (cases "m = 0")
    case True
    have "in_i64 (ac_BalanceNanousd a)" using ok got(2) by (simp add: tables_ok_def)
    then have "b = ac_BalanceNanousd a" using b' True by (simp add: wrap64_id)
    then show ?thesis using account_touched [OF got(2), of now] db' True by simp
  next
    case False
    then show ?thesis using balance_moved [OF got(2) b', of "''admin_set''" now "''admin''" 0] got(3) db' by simp
  qed
  then show ?thesis by (rule stmts_then [OF got(1)])
qed

lemma apply_redemption_balance_stmts:
  assumes run: "apply_redemption_balance u code refNo db = Inr (a', i, db')" and "tables_ok db"
  shows "stmts now db db'"
proof -
  obtain a db1 db2 where acc: "get_or_create_billing_account u db = Inr (a, db1)"
    and add: "add_to_balance a (rc_CreditNanousd code) db1 = Inr db2"
    using run by (auto simp: apply_redemption_balance_def split: sum.splits)
  note got = account_got [OF acc]
  have ok: "tables_ok db1" by (rule stmts_keep_tables [OF got(1) assms(2)])
  note post = add_and_post [OF add ok got(2) _ refl, of "''redemption''" now "''redemption_code''" "rc_ID code" "trim_space refNo"
      "first_non_empty [trim_space (rc_Description code), redemption_description]"]
  have "db_stmt now db1 db'"
    using run acc add post got(3)
    by (simp add: apply_redemption_balance_def Let_def post_transaction_same_id [of "set_balance _ a" a])
  then show ?thesis by (rule stmts_then [OF got(1)])
qed

subsection \<open>Orders\<close>

lemma find_order_in: "find_order no db = Some r \<Longrightarrow> r \<in> set (bd_orders db) \<and> po_OrderNo r = no"
  unfolding find_order_def by (rule find_key)

lemma mark_paid_and_credit_stmts:
  assumes run: "mark_payment_order_paid_and_credit_balance clock orderNo ext paidAt db = Inr (o', activated, db')"
  shows "stmts now db db'"
proof (cases activated)
  case False
  then have "db' = db"
    using run by (auto simp: mark_payment_order_paid_and_credit_balance_def Let_def split: if_splits option.splits sum.splits)
  then show ?thesis by simp
next
  case True
  define at where "at = (if is_zero paidAt then clock else paidAt)"
  obtain order a db1 where find: "find_order (trim_space orderNo) db = Some order"
    and pending: "po_Status order = ''pending''" "po_OrderType order = ''topup''"
    and acc: "get_or_create_billing_account (po_UserID order) db = Inr (a, db1)"
    using run True
    by (auto simp: mark_payment_order_paid_and_credit_balance_def Let_def split: if_splits option.splits sum.splits)
  note got = account_got [OF acc]
  have db': "db' = update_order (po_ID order) (paid_order ext at)
      (post_transaction a (po_UserID order) ''topup'' (po_CreditNanousd order) (wrap64 (ac_BalanceNanousd a + po_CreditNanousd order))
        ''payment_order'' (po_ID order) (po_OrderNo order) topup_description
        (update_account (ac_ID a) (set_balance (wrap64 (ac_BalanceNanousd a + po_CreditNanousd order))) db1))"
    using run True find pending acc
    by (auto simp: mark_payment_order_paid_and_credit_balance_def Let_def at_def split: if_splits option.splits)
  have "order \<in> set (bd_orders db1)" using find_order_in [OF find] got(6) by auto
  from order_credited [OF got(2) refl this pending got(3) [symmetric]] show ?thesis
    unfolding db' by (rule stmts_then [OF got(1)])
qed

lemma grant_on_db_frame:
  assumes "grant_on_db clock input db = Inr (s, db')"
  shows "\<exists>tab. db' = db\<lparr>bd_subscriptions := tab\<rparr>" "db_stmt now db db'"
proof -
  obtain tab where db': "db' = db\<lparr>bd_subscriptions := tab\<rparr>"
    using assms by (auto simp: grant_on_db_def split: sum.splits)
  then have "db' = db\<lparr>bd_subscriptions := tab, bd_plans := bd_plans db, bd_prices := bd_prices db\<rparr>" by simp
  then show "\<exists>tab. db' = db\<lparr>bd_subscriptions := tab\<rparr>" "db_stmt now db db'"
    using db' entitlements_changed [where now = now and db = db and tab = tab and plans = "bd_plans db" and prices = "bd_prices db"] by auto
qed

lemma mark_paid_and_grant_stmts:
  assumes run: "mark_payment_order_paid_and_grant_subscription clock orderNo ext paidAt sub db = Inr (o', activated, db')"
  shows "stmts now db db'"
proof (cases activated)
  case False
  then have "db' = db"
    using run by (auto simp: mark_payment_order_paid_and_grant_subscription_def Let_def split: if_splits option.splits sum.splits)
  then show ?thesis by simp
next
  case True
  define at where "at = (if is_zero paidAt then clock else paidAt)"
  obtain order g s db1 where find: "find_order (trim_space orderNo) db = Some order"
    and pending: "po_Status order = ''pending''" "po_OrderType order \<noteq> ''topup''"
    and grant: "grant_on_db clock g db = Inr (s, db1)" and db': "db' = update_order (po_ID order) (paid_order ext at) db1"
    using run True
    by (auto simp: mark_payment_order_paid_and_grant_subscription_def Let_def at_def split: if_splits option.splits sum.splits)
  have "bd_orders db1 = bd_orders db" using grant_on_db_frame(1) [OF grant] by auto
  then have "order \<in> set (bd_orders db1)" using find_order_in [OF find] by simp
  then have "db_stmt now db1 db'" unfolding db' by (rule order_paid [OF _ pending])
  with grant_on_db_frame(2) [OF grant] show ?thesis by (metis r_into_rtranclp stmts_then)
qed

lemma create_payment_order_stmts:
  assumes "create_payment_order item db = Inr (row, db')" and "trim_space (po_Status item) \<in> {[], ''pending''}"
  shows "stmts now db db'"
proof -
  have find: "find_order (trim_space (po_OrderNo item)) db = None" and row: "row = order_row (bd_nextID db) item"
    and db': "db' = db\<lparr>bd_orders := bd_orders db @ [row], bd_nextID := bd_nextID db + 1\<rparr>"
    using assms(1) by (auto simp: create_payment_order_def Let_def split: if_splits)
  have "po_Status row = ''pending''" using assms(2) by (auto simp: row order_row_def)
  then have "db_stmt now db db'" unfolding db' by (intro order_created) (simp_all add: find row order_row_def)
  then show ?thesis by blast
qed

lemma update_checkout_stmts:
  assumes "update_payment_order_checkout orderNo checkout url db = Inr db'"
  shows "stmts now db db'"
proof -
  let ?f = "\<lambda>r. if po_OrderNo r = trim_space orderNo
    then r\<lparr>po_ExternalCheckoutID := trim_space checkout, po_CheckoutURL := trim_space url\<rparr> else r"
  have f: "\<exists>c l. ?f r = r\<lparr>po_ExternalCheckoutID := c, po_CheckoutURL := l\<rparr>" for r
  proof (cases "po_OrderNo r = trim_space orderNo")
    case False
    then have "?f r = r\<lparr>po_ExternalCheckoutID := po_ExternalCheckoutID r, po_CheckoutURL := po_CheckoutURL r\<rparr>" by simp
    then show ?thesis by blast
  qed auto
  have "db' = db\<lparr>bd_orders := map ?f (bd_orders db)\<rparr>"
    using assms by (simp add: update_payment_order_checkout_def Let_def split: if_splits)
  then show ?thesis using orders_attached [of db ?f now] f by blast
qed

subsection \<open>Redemption codes\<close>

lemma create_redemption_code_stmts:
  assumes "create_redemption_code item db = Inr (row, db')" and limit: "\<forall>m. rc_MaxRedemptions item = Some m \<longrightarrow> 0 < m"
  shows "stmts now db db'"
proof -
  have find: "find_code (trim_space (rc_CodeHash item)) db = None" and row: "row = code_row (bd_nextID db) item"
    and db': "db' = db\<lparr>bd_codes := bd_codes db @ [row], bd_nextID := bd_nextID db + 1\<rparr>"
    using assms(1) by (auto simp: create_redemption_code_def Let_def split: if_splits)
  have "db_stmt now db db'" unfolding db' by (rule code_created) (use limit in \<open>simp_all add: find row code_row_def\<close>)
  then show ?thesis by blast
qed

lemma patched_code_keeps: "patch_ok patch c \<Longrightarrow> code_kept c (patched_code patch c)
    \<and> rc_RedeemedCount (patched_code patch c) = rc_RedeemedCount c
    \<and> (rc_MaxRedemptions (patched_code patch c) = rc_MaxRedemptions c
        \<or> (\<forall>m. rc_MaxRedemptions (patched_code patch c) = Some m \<longrightarrow> rc_RedeemedCount c \<le> m))"
  by (auto simp: patched_code_def patch_ok_def code_kept_def split: option.splits)

lemma patch_redemption_code_stmts:
  assumes run: "patch_redemption_code i patch db = Inr (c', db')" and ok: "tables_ok db"
  shows "stmts now db db'"
proof -
  obtain c where find: "find_live_code i db = Some c" and patch: "patch_ok patch c"
    and db': "db' = update_code i (patched_code patch) db"
    using run by (auto simp: patch_redemption_code_def Let_def split: if_splits option.splits)
  have c: "c \<in> set (bd_codes db)" "rc_ID c = i" using find by (auto simp: find_live_code_def find_Some_iff)
  have "x = c" if "x \<in> set (bd_codes db)" "rc_ID x = i" for x
    using ids_below_inj [of rc_ID "bd_nextID db" "bd_codes db" x c] that c ok by (simp add: tables_ok_def)
  then have "db_stmt now db db'"
    using patched_code_keeps [OF patch] unfolding db' update_code_def
    by (intro codes_changed ballI) (auto simp: code_kept_def)
  then show ?thesis by blast
qed

lemma delete_redemption_code_stmts:
  assumes "delete_redemption_code i db = Inr db'"
  shows "stmts now db db'"
proof -
  have db': "db' = db\<lparr>bd_codes := map (\<lambda>c. if rc_ID c = i \<and> rc_Status c \<noteq> ''deleted'' then c\<lparr>rc_Status := ''deleted''\<rparr> else c) (bd_codes db)\<rparr>"
    using assms by (auto simp: delete_redemption_code_def split: if_splits)
  have "db_stmt now db db'" unfolding db' by (intro codes_changed ballI) (simp add: code_kept_def)
  then show ?thesis by blast
qed

definition same_codes :: "billing_db \<Rightarrow> billing_db \<Rightarrow> bool" where
  "same_codes db db' \<longleftrightarrow> bd_codes db' = bd_codes db \<and> bd_redemptions db' = bd_redemptions db"

lemma apply_reward_stmts:
  assumes run: "apply_reward clock code input at db = Inr (a, s, i, j, db')" and ok: "tables_ok db"
  shows "stmts now db db'" "same_codes db db'"
proof -
  consider (balance) a' where "apply_redemption_balance (ri_UserID input) code (trim_space (ri_RefNo input)) db = Inr (a', j, db')"
    | (subscription) g where "grant_on_db clock g db = Inr (the s, db')"
    using run by (auto simp: apply_reward_def apply_redemption_subscription_def split: if_splits sum.splits option.splits)
  then have "stmts now db db' \<and> same_codes db db'"
  proof cases
    case balance
    then obtain b db1 db2 where "get_or_create_billing_account (ri_UserID input) db = Inr (b, db1)"
      and "add_to_balance b (rc_CreditNanousd code) db1 = Inr db2"
      and "bd_codes db' = bd_codes db2 \<and> bd_redemptions db' = bd_redemptions db2"
      by (auto simp: apply_redemption_balance_def Let_def post_transaction_def split: sum.splits)
    then have "same_codes db db'"
      using account_got(6) by (fastforce simp: same_codes_def add_to_balance_def update_account_def split: if_splits)
    then show ?thesis using apply_redemption_balance_stmts [OF balance ok] by blast
  next
    case subscription
    from grant_on_db_frame [OF this] show ?thesis by (auto simp: same_codes_def)
  qed
  then show "stmts now db db'" "same_codes db db'" by blast+
qed

lemma redeem_code_stmts:
  assumes run: "redeem_code snapshot_of clock input db = Inr (c', row, a, s, db')" and ok: "tables_ok db"
  shows "stmts now db db'"
proof -
  define at where "at = (if is_zero (ri_SubscriptionAt input) then clock else ri_SubscriptionAt input)"
  obtain c i j db1 where find: "find_code (trim_space (ri_CodeHash input)) db = Some c"
    and valid: "validate_redeemable_code c (ri_UserID input) (trim_space (ri_CurrentMode input)) at db = Inr ()"
    and reward: "apply_reward clock c input at db = Inr (a, s, i, j, db1)"
    and row: "row = redemption_row snapshot_of c input (bd_nextID db1) i j"
    and db': "db' = update_code (rc_ID c) count_redemption (db1\<lparr>bd_redemptions := bd_redemptions db1 @ [row], bd_nextID := bd_nextID db1 + 1\<rparr>)"
    using run by (auto simp: redeem_code_def at_def Let_def split: if_splits option.splits sum.splits)
  have "c \<in> set (bd_codes db1)"
    using find_key [OF find [unfolded find_code_def]] apply_reward_stmts(2) [OF reward ok] by (simp add: same_codes_def)
  moreover have "\<forall>m. rc_MaxRedemptions c = Some m \<longrightarrow> rc_RedeemedCount c < m"
    using valid by (auto simp: validate_redeemable_code_def split: if_splits)
  moreover have "rd_CodeID row = rc_ID c" by (simp add: row redemption_row_def)
  ultimately have "db_stmt now db1 db'" unfolding db' by (rule redeemed)
  then show ?thesis by (rule stmts_then [OF apply_reward_stmts(1) [OF reward ok]])
qed

subsection \<open>Reservations\<close>

lemma moved_reservations:
  assumes "\<And>r. r \<in> set (bd_reservations db) \<Longrightarrow>
      f r = r \<or> (\<not> final r \<and> forward r (f r) \<and> rs_UsageLedgerID (f r) = rs_UsageLedgerID r \<and> rs_Status (f r) \<noteq> Settled)"
  shows "db_stmt now db (db\<lparr>bd_reservations := map f (bd_reservations db)\<rparr>)"
  using assms by (intro reservations_moved ballI) (fastforce simp: forward_def)

lemma renew_stmts:
  assumes "renew_usage_balance_reservation u ref clock db = Inr db'"
  shows "stmts now db db'"
proof -
  let ?hit = "\<lambda>r. rs_UserID r = u \<and> rs_RefNo r = trim_space ref \<and> rs_Status r = Active \<and> clock < rs_ExpiresAt r"
  have db': "db' = db\<lparr>bd_reservations :=
      map (\<lambda>r. if ?hit r then r\<lparr>rs_ExpiresAt := clock + usage_reservation_ttl\<rparr> else r) (bd_reservations db)\<rparr>"
    using assms by (auto simp: renew_usage_balance_reservation_def Let_def split: if_splits)
  have "db_stmt now db db'" unfolding db' by (rule moved_reservations) (simp add: final_def forward_def)
  then show ?thesis by blast
qed

lemma mark_stmts:
  assumes "mark_usage_reservation_reconciliation_required u ref failure clock db = Inr db'"
  shows "stmts now db db'"
proof -
  let ?hit = "\<lambda>r. rs_UserID r = u \<and> rs_RefNo r = trim_space ref \<and> rs_Status r \<in> set [Active, Reconciliation]"
  obtain code where db': "db' = db\<lparr>bd_reservations := map (\<lambda>r. if ?hit r
      then r\<lparr>rs_Status := Reconciliation, rs_FailureCode := code, rs_ReconciliationAt := Some clock\<rparr> else r) (bd_reservations db)\<rparr>"
    using assms by (auto simp: mark_usage_reservation_reconciliation_required_def Let_def split: if_splits)
  have "db_stmt now db db'" unfolding db' by (rule moved_reservations) (auto simp: final_def forward_def)
  then show ?thesis by blast
qed

subsection \<open>Weekly cycles and counters\<close>

lemma quota_account_got:
  assumes "get_or_create_weekly_quota_account c u db = Inr (q, db1)"
  shows "stmts now db db1" "q \<in> set (bd_quotaAccounts db1)" "qa_CycleID q = c" "qa_UserID q = u"
    "\<exists>qs n. db1 = db\<lparr>bd_quotaAccounts := qs, bd_nextID := n\<rparr>" "set (bd_quotaAccounts db) \<subseteq> set (bd_quotaAccounts db1)"
proof -
  have "stmts now db db1 \<and> q \<in> set (bd_quotaAccounts db1) \<and> qa_CycleID q = c \<and> qa_UserID q = u
      \<and> (\<exists>qs n. db1 = db\<lparr>bd_quotaAccounts := qs, bd_nextID := n\<rparr>) \<and> set (bd_quotaAccounts db) \<subseteq> set (bd_quotaAccounts db1)"
  proof (cases "List.find (\<lambda>a. qa_CycleID a = c \<and> qa_UserID a = u) (bd_quotaAccounts db)")
    case None
    then have "q = \<lparr>qa_ID = bd_nextID db, qa_CycleID = c, qa_UserID = u, qa_UsedNanousd = 0, qa_ReservedNanousd = 0\<rparr>"
      "db1 = db\<lparr>bd_quotaAccounts := bd_quotaAccounts db @ [q], bd_nextID := bd_nextID db + 1\<rparr>"
      using assms by (auto simp: get_or_create_weekly_quota_account_def Let_def split: if_splits)
    then show ?thesis using quota_opened [OF None, of q now] by (auto intro: exI)
  next
    case (Some x)
    then have "db1 = db" "q = x" using assms by (auto simp: get_or_create_weekly_quota_account_def split: if_splits)
    moreover have "\<exists>qs n. db = db\<lparr>bd_quotaAccounts := qs, bd_nextID := n\<rparr>"
      by (intro exI [of _ "bd_quotaAccounts db"] exI [of _ "bd_nextID db"]) simp
    ultimately show ?thesis using Some by (auto simp: find_Some_iff)
  qed
  then show "stmts now db db1" "q \<in> set (bd_quotaAccounts db1)" "qa_CycleID q = c" "qa_UserID q = u"
    "\<exists>qs n. db1 = db\<lparr>bd_quotaAccounts := qs, bd_nextID := n\<rparr>" "set (bd_quotaAccounts db) \<subseteq> set (bd_quotaAccounts db1)"
    by blast+
qed

lemma sync_stmts:
  assumes "sync_weekly_quota_reserved c u clock db = Inr db'"
  shows "stmts now db db'"
proof -
  obtain q db1 x where acc: "get_or_create_weekly_quota_account c u db = Inr (q, db1)"
    and db': "db' = update_quota_account (qa_ID q) (qa_ReservedNanousd_update (\<lambda>_. x)) db1"
    using assms by (auto simp: sync_weekly_quota_reserved_def split: sum.splits)
  show ?thesis unfolding db' by (rule stmts_then [OF quota_account_got(1) [OF acc] quota_reserved])
qed

lemma cycle_found_stmt:
  assumes "cycle_found t c db db'" and "books now db" and "t \<le> now"
  shows "db_stmt now db db'" "only_cycles db db'" "books now db'"
proof -
  note found = cycle_foundD [OF assms(1)]
  show "db_stmt now db db'" using found(4,1) found(5) [OF booksD(3) [OF assms(2)] assms(3)] by (rule cycles_moved)
  then show "books now db'" using assms(2) by (rule stmt_keeps_books)
  show "only_cycles db db'" by (rule found(4))
qed

lemma ensure_stmts:
  assumes "ensure_weekly_quota_cycle t r db = Inr (c, ini, db')" and "books now db" and "t \<le> now"
  shows "db_stmt now db db'" "only_cycles db db'" "books now db'"
  using cycle_found_stmt [OF ensure_weekly_quota_cycle_found(1) [OF assms(1) booksD(2) [OF assms(2)]] assms(2,3)] by blast+

lemma ensure_tx_stmts:
  assumes "ensure_weekly_quota_cycle_tx now r db = Inr (c, db')" and "books now db"
  shows "stmts now db db'"
  using assms ensure_stmts(1) [OF _ assms(2) order_refl] by (auto simp: ensure_weekly_quota_cycle_tx_def split: if_splits sum.splits)

lemma set_next_reset_stmts:
  assumes "set_weekly_quota_next_reset now r db = Inr (c, db')" and "books now db"
  shows "stmts now db db'"
  using set_next_reset_keeps(3,1,2) [OF assms(1) booksD(2,3) [OF assms(2)]] cycles_moved by blast

lemma reset_stmts:
  assumes "reset_weekly_quota_cycle now actor db = Inr (c, db')" and "books now db"
  shows "stmts now db db'"
  using reset_keeps [OF assms(1) booksD(2,3) [OF assms(2)]] cycles_moved by blast

subsection \<open>Letting calls in and out\<close>

lemma reserve_balance_stmts:
  assumes run: "reserve_balance_tx input clock db = Inr (row, db')"
  shows "stmts now db db'"
proof -
  obtain a db1 where acc: "get_or_create_billing_account (rq_UserID input) db = Inr (a, db1)"
    using run by (auto simp: reserve_balance_tx_def split: sum.splits)
  have find: "find_reservation (rq_UserID input) (rq_RefNo input) db1 = None"
    and "\<exists>x y. row = new_reservation (bd_nextID db1) input x y (clock + usage_reservation_ttl)
      \<and> db' = db1\<lparr>bd_reservations := bd_reservations db1 @ [row], bd_nextID := bd_nextID db1 + 1\<rparr>"
    using run [unfolded reserve_balance_tx_def acc sum.case prod.case Let_def]
    unfolding guarded_result sum.inject prod.inject by blast+
  then obtain x y where row: "row = new_reservation (bd_nextID db1) input x y (clock + usage_reservation_ttl)"
    and db': "db' = db1\<lparr>bd_reservations := bd_reservations db1 @ [row], bd_nextID := bd_nextID db1 + 1\<rparr>" by blast
  have "db_stmt now db1 db'"
    unfolding db' by (rule reservation_made) (simp_all add: row new_reservation_def find)
  then show ?thesis by (rule stmts_then [OF account_got(1) [OF acc]])
qed

lemma reserve_in_cycle_stmts:
  assumes run: "reserve_in_cycle input clock c active db = Inr (row, db')"
    and free: "find_reservation (rq_UserID input) (rq_RefNo input) db = None"
  shows "stmts now db db'"
proof -
  obtain q db1 where acc: "get_or_create_weekly_quota_account c (rq_UserID input) db = Inr (q, db1)"
    using run by (auto simp: reserve_in_cycle_def split: sum.splits)
  note got = quota_account_got [OF acc]
  obtain x where sum: "sum_weekly_quota_reserved c (rq_UserID input) clock db1 = Inr x"
    using run acc by (auto simp: reserve_in_cycle_def split: sum.splits)
  define db2 where "db2 = update_quota_account (qa_ID q) (qa_ReservedNanousd_update (\<lambda>_. x)) db1"
  obtain m where row: "row = weekly_reservation (bd_nextID db2) input c m (clock + usage_reservation_ttl)"
    and db': "db' = update_quota_account (qa_ID q) (qa_ReservedNanousd_update (\<lambda>_. add_non_negative_int64 x m))
        (db2\<lparr>bd_reservations := bd_reservations db2 @ [row], bd_nextID := bd_nextID db2 + 1\<rparr>)"
    using run [unfolded reserve_in_cycle_def acc sum sum.case prod.case Let_def, folded db2_def]
    unfolding guarded_result sum.inject prod.inject by blast
  have "bd_reservations db2 = bd_reservations db" using got(5) by (auto simp: db2_def update_quota_account_def)
  then have "find_reservation (rs_UserID row) (rs_RefNo row) db2 = None"
    using free by (simp add: find_reservation_def row weekly_reservation_def)
  from reservation_made [OF this, of now]
  have made: "db_stmt now db2 (db2\<lparr>bd_reservations := bd_reservations db2 @ [row], bd_nextID := bd_nextID db2 + 1\<rparr>)"
    by (simp add: row weekly_reservation_def)
  have "stmts now db db2" unfolding db2_def by (rule stmts_then [OF got(1) quota_reserved])
  then show ?thesis unfolding db' by (rule stmts_then [OF stmts_then [OF _ made] quota_reserved])
qed

lemma reserve_weekly_stmts:
  assumes run: "reserve_weekly_usage clock input db = Inr (row, db')" and ok: "books now db"
    and time: "clock \<le> now" "rq_AuthorizedAt input \<le> now"
  shows "stmts now db db'"
proof -
  define t where "t = (if is_zero (rq_AuthorizedAt input) then clock else rq_AuthorizedAt input)"
  obtain c ini db1 active where e: "ensure_weekly_quota_cycle t 0 db = Inr (c, ini, db1)"
    and free: "find_reservation (rq_UserID input) (rq_RefNo input) db1 = None"
    and fin: "reserve_in_cycle input t (qc_ID c) active db1 = Inr (row, db')"
    using run unfolding reserve_weekly_usage_def t_def [symmetric] Let_def
    by (auto split: if_splits sum.splits)
  have "t \<le> now" using time by (simp add: t_def)
  from ensure_stmts(1) [OF e ok this] reserve_in_cycle_stmts [OF fin free, where now = now] show ?thesis
    by (rule converse_rtranclp_into_rtranclp)
qed

lemma reserve_stmts:
  assumes "reserve_usage_balance now req db = Inr (row, db')" and "books now db" and "rq_AuthorizedAt req \<le> now"
  shows "stmts now db db'"
  using assms reserve_balance_stmts reserve_weekly_stmts [where now = now and clock = now]
  by (fastforce simp: reserve_usage_balance_def Let_def split: if_splits)

lemma release_stmts:
  assumes run: "release_usage_balance_reservation u ref clock db = Inr db'" and ok: "tables_ok db"
  shows "stmts now db db'"
proof (cases "db' = db")
  case False
  then obtain r where find: "find_reservation u (trim_space ref) db = Some r" and active: "rs_Status r = Active"
    and fin: "(if rs_Mode r = ''weekly'' then sync_weekly_quota_reserved (rs_WeeklyCycleID r) (rs_UserID r) clock
        (update_reservation (rs_ID r) (\<lambda>x. x\<lparr>rs_Status := Released, rs_ReleasedAt := Some clock\<rparr>) db)
      else Inr (update_reservation (rs_ID r) (\<lambda>x. x\<lparr>rs_Status := Released, rs_ReleasedAt := Some clock\<rparr>) db)) = Inr db'"
    using run by (auto simp: release_usage_balance_reservation_def Let_def split: if_splits option.splits)
  define db1 where "db1 = update_reservation (rs_ID r) (\<lambda>x. x\<lparr>rs_Status := Released, rs_ReleasedAt := Some clock\<rparr>) db"
  have "r \<in> set (bd_reservations db)" using find by (auto simp: find_reservation_def find_Some_iff)
  then have same: "x = r" if "x \<in> set (bd_reservations db)" "rs_ID x = rs_ID r" for x
    using ids_below_inj [of rs_ID "bd_nextID db" "bd_reservations db" x r] that ok by (simp add: tables_ok_def)
  have "db_stmt now db db1"
    unfolding db1_def update_reservation_def
  proof (rule moved_reservations)
    fix x assume x: "x \<in> set (bd_reservations db)"
    let ?f = "\<lambda>x. if rs_ID x = rs_ID r then x\<lparr>rs_Status := Released, rs_ReleasedAt := Some clock\<rparr> else x"
    show "?f x = x \<or> \<not> final x \<and> forward x (?f x) \<and> rs_UsageLedgerID (?f x) = rs_UsageLedgerID x \<and> rs_Status (?f x) \<noteq> Settled"
    proof (cases "rs_ID x = rs_ID r")
      case True
      then have "x = r" by (rule same [OF x])
      then show ?thesis using active by (simp add: final_def forward_def)
    qed simp
  qed
  moreover have "stmts now db1 db'" using fin sync_stmts unfolding db1_def by (auto split: if_splits)
  ultimately show ?thesis by (rule converse_rtranclp_into_rtranclp)
qed simp

subsection \<open>Settlements\<close>

lemma ledger_made:
  assumes "create_ledger u db = (l, db1)"
  shows "db_stmt now db db1" "l = u\<lparr>ul_ID := bd_nextID db\<rparr>"
    "db1 = db\<lparr>bd_ledgers := bd_ledgers db @ [l], bd_nextID := bd_nextID db + 1\<rparr>"
    "tables_ok db \<Longrightarrow> has_ledger (ul_UserID u) l db1"
proof -
  show "db_stmt now db db1" using assms ledger_written [of now db u] by simp
  show l: "l = u\<lparr>ul_ID := bd_nextID db\<rparr>" and
    db1: "db1 = db\<lparr>bd_ledgers := bd_ledgers db @ [l], bd_nextID := bd_nextID db + 1\<rparr>"
    using assms by (auto simp: create_ledger_def Let_def)
  assume ok: "tables_ok db"
  then have "rs_UsageLedgerID x \<noteq> bd_nextID db" if "x \<in> set (bd_reservations db)" for x
    using that by (fastforce simp: tables_ok_def vals_below_def)
  then show "has_ledger (ul_UserID u) l db1" using ok unfolding db1 by (simp add: has_ledger_def l tables_ok_def)
qed

lemma reservation_to_settle:
  assumes "usage_reservation_for_settlement u res db = Inr (Some r, over)"
  shows "r \<in> set (bd_reservations db)" "rs_UserID r = u" "over \<longleftrightarrow> final r"
  using assms
  by (auto simp: usage_reservation_for_settlement_def find_Some_iff final_def split: option.splits if_splits reservation_status.splits)

lemma debit_stmts:
  assumes run: "debit_account a u amount nextBalance l ref descr db = Inr db'" and ok: "tables_ok db"
    and a: "a \<in> set (bd_accounts db)" "ac_UserID a = u" and b: "nextBalance = wrap64 (ac_BalanceNanousd a - amount)"
  shows "stmts now db db'" "\<exists>as ts n. db' = db\<lparr>bd_accounts := as, bd_transactions := ts, bd_nextID := n\<rparr>"
proof -
  have "stmts now db db' \<and> (\<exists>as ts n. db' = db\<lparr>bd_accounts := as, bd_transactions := ts, bd_nextID := n\<rparr>)"
  proof (cases "0 < amount")
    case False
    then have "db' = db" using run by (simp add: debit_account_def)
    moreover have "\<exists>as ts n. db = db\<lparr>bd_accounts := as, bd_transactions := ts, bd_nextID := n\<rparr>"
      by (intro exI [of _ "bd_accounts db"] exI [of _ "bd_transactions db"] exI [of _ "bd_nextID db"]) simp
    ultimately show ?thesis by simp
  next
    case True
    then obtain db1 where add: "add_to_balance a (- amount) db = Inr db1"
      and db': "db' = post_transaction a u ''usage_debit'' (- amount) nextBalance ''usage_ledger'' l ref descr db1"
      using run by (auto simp: debit_account_def split: sum.splits)
    have "in_i64 (ac_BalanceNanousd a - amount)" using add by (simp add: add_to_balance_def split: if_splits)
    then have "nextBalance = ac_BalanceNanousd a + - amount" using b by (simp add: wrap64_id)
    from add_and_post [OF add ok a(1) _ this, of "''usage_debit''"] show ?thesis
      using add unfolding db' a(2) [symmetric]
      by (auto simp: add_to_balance_def update_account_def post_transaction_def split: if_splits)
  qed
  then show "stmts now db db'" "\<exists>as ts n. db' = db\<lparr>bd_accounts := as, bd_transactions := ts, bd_nextID := n\<rparr>" by blast+
qed

text \<open>The tail the two settlements against the balance share: write the ledger, debit, settle the row.\<close>

lemma debit_and_settle_stmts:
  assumes ledger: "create_ledger u db = (l, db1)"
    and debit: "debit_account a (ul_UserID u) amount nextBalance (ul_ID l) ref descr db1 = Inr db2"
    and ok: "tables_ok db" and a: "a \<in> set (bd_accounts db)" "ac_UserID a = ul_UserID u"
    and b: "nextBalance = wrap64 (ac_BalanceNanousd a - amount)"
    and row: "\<And>r. row = Some r \<Longrightarrow> r \<in> set (bd_reservations db) \<and> rs_UserID r = ul_UserID u \<and> \<not> final r \<and> rs_Mode r \<noteq> ''weekly''"
  shows "stmts now db (settle_usage_reservation row (ul_ID l) at db2)"
proof -
  note made = ledger_made [OF ledger]
  have ok1: "tables_ok db1" by (rule stmt_keeps_tables [OF made(1) ok])
  have a1: "a \<in> set (bd_accounts db1)" using a(1) made(3) by simp
  note debited = debit_stmts [OF debit ok1 a1 a(2) b]
  have to: "stmts now db db2" using made(1) debited(1) by (rule converse_rtranclp_into_rtranclp)
  show ?thesis
  proof (cases row)
    case None
    then show ?thesis using to by (simp add: settle_usage_reservation_def)
  next
    case (Some r)
    have same: "bd_reservations db2 = bd_reservations db" "bd_ledgers db2 = bd_ledgers db1" "bd_reservations db1 = bd_reservations db"
      using debited(2) made(3) by auto
    then have "has_ledger (rs_UserID r) l db2" "r \<in> set (bd_reservations db2)"
      using made(4) [OF ok] row [OF Some] by (simp_all add: has_ledger_def)
    with row [OF Some] have "db_stmt now db2 (update_reservation (rs_ID r) (settled_row (ul_ID l) at) db2)"
      by (intro reservation_settled) auto
    then show ?thesis using to by (auto simp: settle_usage_reservation_def Some intro: stmts_then)
  qed
qed

lemma settle_balance_stmts:
  assumes run: "add_usage_and_settle_balance usage res clock db = Inr (u', db')" and ok: "tables_ok db"
  shows "stmts now db db'"
proof -
  obtain a db1 row over where acc: "get_or_create_billing_account (ul_UserID usage) db = Inr (a, db1)"
    and res: "usage_reservation_for_settlement (ul_UserID usage) res db1 = Inr (row, over)"
    using run by (auto simp: add_usage_and_settle_balance_def split: sum.splits)
  note got = account_got [OF acc]
  show ?thesis
  proof (cases over)
    case True
    then have "db' = db1"
      using run acc res by (auto simp: add_usage_and_settle_balance_def split: if_splits sum.splits option.splits)
    then show ?thesis using got(1) by simp
  next
    case False
    define charge where "charge = charge_of usage"
    define b where "b = wrap64 (ac_BalanceNanousd a - charge)"
    obtain l db2 where ledger: "create_ledger (usage\<lparr>ul_BalanceAfterNanousd := Some b\<rparr>) db1 = (l, db2)" by fastforce
    have mode: "\<not> (case row of None \<Rightarrow> False | Some r \<Rightarrow> rs_Mode r \<noteq> ''usage'')"
      and "\<exists>db3. debit_account a (ul_UserID usage) charge b (ul_ID l) (reservation_ref_no res) usage_debit_description db2 = Inr db3
        \<and> db' = settle_usage_reservation row (ul_ID l) clock db3"
      using run False
      unfolding add_usage_and_settle_balance_def acc res sum.case prod.case Let_def charge_def [symmetric] b_def [symmetric] ledger
      by (auto split: if_splits sum.splits)
    then obtain db3 where debit: "debit_account a (ul_UserID usage) charge b (ul_ID l) (reservation_ref_no res) usage_debit_description db2 = Inr db3"
      and db': "db' = settle_usage_reservation row (ul_ID l) clock db3" by blast
    have ok1: "tables_ok db1" by (rule stmts_keep_tables [OF got(1) ok])
    have "stmts now db1 db'"
      unfolding db'
    proof (rule debit_and_settle_stmts [OF ledger _ ok1 got(2) _ b_def])
      fix r assume "row = Some r"
      with mode res False reservation_to_settle [of "ul_UserID usage" res db1 r over]
      show "r \<in> set (bd_reservations db1) \<and> rs_UserID r = ul_UserID (usage\<lparr>ul_BalanceAfterNanousd := Some b\<rparr>)
          \<and> \<not> final r \<and> rs_Mode r \<noteq> ''weekly''" by auto
    qed (use debit got(3) in simp_all)
    with got(1) show ?thesis by (rule rtranclp_trans)
  qed
qed

lemma settle_period_stmts:
  assumes run: "add_period_usage_and_settle_overage with_snapshot usage ps pe limit res clock db = Inr (u', db')"
    and ok: "tables_ok db"
  shows "stmts now db db'"
proof -
  have valid: "\<not> (ul_UserID usage = 0 \<or> is_zero ps \<or> \<not> after pe ps \<or> limit < 0)"
    using run by (auto simp: add_period_usage_and_settle_overage_def split: if_splits)
  obtain a db1 row over where acc: "get_or_create_billing_account (ul_UserID usage) db = Inr (a, db1)"
    and res: "usage_reservation_for_settlement (ul_UserID usage) res db1 = Inr (row, over)"
    using run by (auto simp: add_period_usage_and_settle_overage_def split: if_splits sum.splits)
  note got = account_got [OF acc]
  have mode: "\<not> (case row of None \<Rightarrow> False | Some r \<Rightarrow> \<not> matches_period_reservation r ps pe limit)"
    using run [unfolded add_period_usage_and_settle_overage_def if_not_P [OF valid] acc res sum.case prod.case]
    unfolding guarded_result by blast
  show ?thesis
  proof (cases over)
    case True
    then have "db' = db1"
      using run [unfolded add_period_usage_and_settle_overage_def if_not_P [OF valid] acc res sum.case prod.case if_not_P [OF mode]]
      by (auto split: sum.splits)
    then show ?thesis using got(1) by simp
  next
    case False
    obtain overage b snapshot l db2 db3 where b: "b = wrap64 (ac_BalanceNanousd a - overage)"
      and ledger: "create_ledger (usage\<lparr>ul_BalanceAfterNanousd := Some b, ul_PricingSnapshotJSON := snapshot\<rparr>) db1 = (l, db2)"
      and debit: "debit_account a (ul_UserID usage) overage b (ul_ID l) (reservation_ref_no res) period_overage_description db2 = Inr db3"
      and db': "db' = settle_usage_reservation row (ul_ID l) clock db3"
      using run [unfolded add_period_usage_and_settle_overage_def if_not_P [OF valid] acc res sum.case prod.case
          if_not_P [OF mode] if_not_P [OF False] Let_def]
      by (auto split: sum.splits prod.splits)
    have ok1: "tables_ok db1" by (rule stmts_keep_tables [OF got(1) ok])
    have "stmts now db1 db'"
      unfolding db'
    proof (rule debit_and_settle_stmts [OF ledger _ ok1 got(2) _ b])
      fix r assume "row = Some r"
      with mode res False reservation_to_settle [of "ul_UserID usage" res db1 r over]
      show "r \<in> set (bd_reservations db1)
          \<and> rs_UserID r = ul_UserID (usage\<lparr>ul_BalanceAfterNanousd := Some b, ul_PricingSnapshotJSON := snapshot\<rparr>)
          \<and> \<not> final r \<and> rs_Mode r \<noteq> ''weekly''" by (auto simp: matches_period_reservation_def)
    qed (use debit got(3) in simp_all)
    with got(1) show ?thesis by (rule rtranclp_trans)
  qed
qed

lemma lock_accounts_got:
  assumes "lock_weekly_settlement_accounts c d u db = Inr (q, q', db')"
  shows "stmts now db db'" "q' \<in> set (bd_quotaAccounts db')" "qa_CycleID q' = d" "qa_UserID q' = u"
    "\<exists>qs n. db' = db\<lparr>bd_quotaAccounts := qs, bd_nextID := n\<rparr>"
proof -
  have "stmts now db db' \<and> q' \<in> set (bd_quotaAccounts db') \<and> qa_CycleID q' = d \<and> qa_UserID q' = u
      \<and> (\<exists>qs n. db' = db\<lparr>bd_quotaAccounts := qs, bd_nextID := n\<rparr>)"
  proof (cases "c = d")
    case True
    then have "get_or_create_weekly_quota_account c u db = Inr (q', db')"
      using assms by (auto simp: lock_weekly_settlement_accounts_def split: if_splits sum.splits)
    from quota_account_got [OF this] show ?thesis using True by auto
  next
    case False
    then obtain x y db1 where x: "get_or_create_weekly_quota_account (min c d) u db = Inr (x, db1)"
      and y: "get_or_create_weekly_quota_account (max c d) u db1 = Inr (y, db')"
      and q': "q' = (if c = min c d then y else x)"
      using assms by (auto simp: lock_weekly_settlement_accounts_def Let_def split: if_splits sum.splits)
    note gx = quota_account_got [OF x] and gy = quota_account_got [OF y]
    have "q' \<in> set (bd_quotaAccounts db') \<and> qa_CycleID q' = d \<and> qa_UserID q' = u"
      using gx gy q' False by (auto simp: min_def max_def split: if_splits)
    moreover have "stmts now db db'" using gx(1) gy(1) by (rule rtranclp_trans)
    moreover obtain qs n qs' n' where "db1 = db\<lparr>bd_quotaAccounts := qs, bd_nextID := n\<rparr>"
        "db' = db1\<lparr>bd_quotaAccounts := qs', bd_nextID := n'\<rparr>"
      using gx(5) gy(5) by blast
    then have "db' = db\<lparr>bd_quotaAccounts := qs', bd_nextID := n'\<rparr>" by simp
    ultimately show ?thesis by blast
  qed
  then show "stmts now db db'" "q' \<in> set (bd_quotaAccounts db')" "qa_CycleID q' = d" "qa_UserID q' = u"
    "\<exists>qs n. db' = db\<lparr>bd_quotaAccounts := qs, bd_nextID := n\<rparr>" by blast+
qed

lemma settle_weekly_tx_stmts:
  assumes run: "settle_weekly_tx with_snapshot usage charge r clock db = Inr (snapshot, db')" and ok: "books now db"
    and r: "r \<in> set (bd_reservations db)" "rs_UserID r = ul_UserID usage" "\<not> final r" "rs_Mode r = ''weekly''"
    and charge: "charge = settled_charge usage" and time: "ul_BillingAt usage \<le> now"
  shows "stmts now db db'"
proof -
  obtain c db1 where cycle: "weekly_quota_cycle_for_timestamp (ul_BillingAt usage) db = Inr (c, db1)"
    using run by (auto simp: settle_weekly_tx_def split: if_splits sum.splits)
  obtain q q' db2 where lock: "lock_weekly_settlement_accounts (rs_WeeklyCycleID r) (qc_ID c) (ul_UserID usage) db1 = Inr (q, q', db2)"
    using run cycle by (auto simp: settle_weekly_tx_def split: if_splits sum.splits)
  obtain c' where "cycle_found (ul_BillingAt usage) c' db db1"
    using cycle_for_timestamp_found(1) [OF cycle booksD(2) [OF ok]] by blast
  note week = cycle_found_stmt [OF this ok time]
  note got = lock_accounts_got [OF lock]
  have ok2: "tables_ok db2" by (rule stmts_keep_tables [OF got(1) booksD(1) [OF week(3)]])
  define used where "used = add_non_negative_int64 (qa_UsedNanousd q') charge"
  obtain l db3 where ledger: "create_ledger (usage\<lparr>ul_BalanceAfterNanousd := None, ul_PricingSnapshotJSON := snapshot\<rparr>) db2 = (l, db3)"
    and "\<exists>db5. settle_weekly_usage_reservation r (ul_ID l) charge (qc_ID c) clock
        (update_quota_account (qa_ID q') (qa_UsedNanousd_update (\<lambda>_. used)) db3) = Inr db5
      \<and> sync_weekly_quota_reserved (qa_CycleID q) (ul_UserID usage) clock db5 = Inr db'"
    using run [unfolded settle_weekly_tx_def cycle lock sum.case prod.case Let_def, folded used_def]
    by (auto split: if_splits sum.splits prod.splits)
  then obtain db5 where settle: "settle_weekly_usage_reservation r (ul_ID l) charge (qc_ID c) clock
        (update_quota_account (qa_ID q') (qa_UsedNanousd_update (\<lambda>_. used)) db3) = Inr db5"
    and sync: "sync_weekly_quota_reserved (qa_CycleID q) (ul_UserID usage) clock db5 = Inr db'" by blast
  note made = ledger_made [OF ledger]
  have same: "bd_reservations db3 = bd_reservations db" "bd_quotaAccounts db3 = bd_quotaAccounts db2"
    using made(3) got(5) only_cyclesD(3) [OF week(2)] by auto
  have l: "has_ledger (rs_UserID r) l db3" "settled_charge l = charge"
    using made(4) [OF ok2] r(2) charge by (simp_all add: made(2) settled_charge_def)
  have db5: "db5 = update_reservation (rs_ID r) (weekly_settled_row (ul_ID l) charge (qa_CycleID q') clock)
      (update_quota_account (qa_ID q') (qa_UsedNanousd_update (\<lambda>_. used)) db3)"
    using settle got(3) by (simp add: settle_weekly_usage_reservation_def split: if_splits)
  have rows: "r \<in> set (bd_reservations db3)" "q' \<in> set (bd_quotaAccounts db3)" "qa_UserID q' = rs_UserID r"
    using r(1,2) got(2,4) by (simp_all only: same)
  have "db_stmt now db3 db5"
    unfolding db5 used_def by (rule weekly_settled [OF rows(1) r(3,4) l(1) rows(2,3) l(2) [symmetric]])
  have "stmts now db db2" using week(1) got(1) by (rule converse_rtranclp_into_rtranclp)
  from stmts_then [OF stmts_then [OF this made(1)] \<open>db_stmt now db3 db5\<close>] have "stmts now db db5" .
  from this sync_stmts [OF sync] show ?thesis by (rule rtranclp_trans)
qed

lemma weekly_usage_simps [simp]:
  "ul_UserID (weekly_usage u) = ul_UserID u" "ul_IsFreeModel (weekly_usage u) = ul_IsFreeModel u"
  "ul_BillingAt (weekly_usage u) = ul_BillingAt u"
  by (simp_all add: weekly_usage_def)

lemma settle_weekly_stmts:
  assumes run: "add_weekly_usage_and_settle_quota with_snapshot usage res clock db = Inr (u', db')" and ok: "books now db"
    and time: "ul_BillingAt usage \<le> now"
  shows "stmts now db db'"
proof -
  obtain row over where res: "usage_reservation_for_settlement (ul_UserID usage) res db = Inr (row, over)"
    using run by (auto simp: add_weekly_usage_and_settle_quota_def Let_def split: if_splits sum.splits)
  show ?thesis
  proof (cases row)
    case None
    then have "db' = add_usage (weekly_usage usage) db"
      using run res by (auto simp: add_weekly_usage_and_settle_quota_def Let_def split: if_splits)
    then show ?thesis using ledger_written [of now db] by (auto simp: add_usage_def)
  next
    case (Some r)
    note r = reservation_to_settle [OF res [unfolded Some]]
    show ?thesis
    proof (cases over)
      case True
      then have "db' = db"
        using run res Some by (auto simp: add_weekly_usage_and_settle_quota_def Let_def split: if_splits sum.splits)
      then show ?thesis by simp
    next
      case False
      then obtain snapshot where mode: "rs_Mode r = ''weekly''"
        and fin: "settle_weekly_tx with_snapshot (weekly_usage usage)
          (if ul_IsFreeModel usage then 0 else clamp_non_negative (ul_BilledNanousd usage)) r clock db = Inr (snapshot, db')"
        using run res Some by (auto simp: add_weekly_usage_and_settle_quota_def Let_def split: if_splits sum.splits)
      show ?thesis
        by (rule settle_weekly_tx_stmts [OF fin ok r(1)])
          (use r False mode time in \<open>auto simp: weekly_usage_def settled_charge_def\<close>)
    qed
  qed
qed

subsection \<open>Upkeep\<close>

lemma cleanup_stmts:
  assumes "cleanup_logs ledgerAt orderAt clock inputType t (logs, db) = Inr (n, logs', db')"
  shows "stmts now db db'"
proof -
  obtain P Q where db': "db' = db\<lparr>bd_ledgers := filter P (bd_ledgers db), bd_orders := filter Q (bd_orders db)\<rparr>"
    using cleanup_logs_tables [OF assms] by blast
  have "filter (\<lambda>_. True) (bd_accounts db) = bd_accounts db" by simp
  then have "db' = db\<lparr>bd_ledgers := filter P (bd_ledgers db), bd_orders := filter Q (bd_orders db),
      bd_accounts := filter (\<lambda>_. True) (bd_accounts db)\<rparr>"
    unfolding db' by simp
  then have "db_stmt now db db'" by (simp only: rows_deleted)
  then show ?thesis by blast
qed

lemma delete_account_stmts:
  assumes "delete_account_hard refs u db = Inr db'"
  shows "stmts now db db'"
proof -
  let ?tab = "(bd_subscriptions db)\<lparr>tb_rows := filter (\<lambda>s. su_UserID s \<noteq> u) (tb_rows (bd_subscriptions db))\<rparr>"
  let ?db1 = "db\<lparr>bd_subscriptions := ?tab, bd_plans := bd_plans db, bd_prices := bd_prices db\<rparr>"
  let ?db2 = "?db1\<lparr>bd_ledgers := filter (\<lambda>_. True) (bd_ledgers ?db1), bd_orders := filter (\<lambda>_. True) (bd_orders ?db1),
      bd_accounts := filter (\<lambda>a. ac_UserID a \<noteq> u) (bd_accounts ?db1)\<rparr>"
  have "db_stmt now db ?db1" by (rule entitlements_changed)
  moreover have "db_stmt now ?db1 ?db2" by (rule rows_deleted)
  moreover have "?db2 = db'"
    using assms by (auto simp: delete_account_hard_def split: if_splits intro!: billing_db.equality)
  ultimately show ?thesis by (metis r_into_rtranclp stmts_then)
qed

text \<open>An imported account is an account opened and, when it has a balance, a balance moved.\<close>

lemma import_account_stmts:
  assumes run: "import_account r db = Inr db'" and ok: "tables_ok db" and r: "ui_UserID r \<noteq> 0" "in_i64 (ui_BillingBalanceNanousd r)"
  shows "stmts now db db'"
proof -
  define a where "a = new_account (bd_nextID db) (ui_UserID r)"
  define b where "b = (if ui_BillingBalanceNanousd r < 0 then 0 else ui_BillingBalanceNanousd r)"
  define db1 where "db1 = db\<lparr>bd_accounts := bd_accounts db @ [a], bd_nextID := bd_nextID db + 1\<rparr>"
  have free: "find_account (ui_UserID r) db = None" using run by (simp add: import_account_def split: if_splits)
  have opened: "db_stmt now db db1" unfolding db1_def a_def by (rule account_opened [OF r(1) free])
  have a: "a \<in> set (bd_accounts db1)" "ac_UserID a = ui_UserID r" "ac_BalanceNanousd a = 0" "ac_ID a = bd_nextID db"
    by (simp_all add: db1_def a_def new_account_def)
  have zero: "a\<lparr>ac_BalanceNanousd := b\<rparr> = a" if "b = 0" using that by (simp add: a_def new_account_def)
  note import = run [unfolded import_account_def Let_def, folded a_def b_def]
  show ?thesis
  proof (cases "0 < b")
    case False
    then have "b = 0" by (simp add: b_def split: if_splits)
    then have "db' = db1" using import free zero by (simp add: db1_def)
    then show ?thesis using opened by blast
  next
    case True
    have "b = wrap64 (ac_BalanceNanousd a + b)" using r(2) a(3) by (simp add: b_def wrap64_id)
    note moved = balance_moved [OF a(1) this, of "''admin_set''" now "''admin_import''" 0]
    have "map (\<lambda>x. if ac_ID x = ac_ID a then set_balance b x else x) (bd_accounts db) = bd_accounts db"
      using ok a(4) by (intro map_idI) (auto simp: tables_ok_def dest: ids_below_less)
    moreover have "set_balance b a = a\<lparr>ac_BalanceNanousd := b\<rparr>" by (simp add: set_balance_def a_def new_account_def)
    ultimately have "update_account (ac_ID a) (set_balance b) db1
        = db\<lparr>bd_accounts := bd_accounts db @ [a\<lparr>ac_BalanceNanousd := b\<rparr>], bd_nextID := bd_nextID db + 1\<rparr>"
      by (simp add: update_account_def db1_def)
    moreover have "post_transaction (a\<lparr>ac_BalanceNanousd := b\<rparr>) = post_transaction a"
      by (rule post_transaction_same_id) simp
    ultimately have "\<exists>ref text. db' = post_transaction a (ac_UserID a) ''admin_set'' b b ''admin_import'' 0 ref text
        (update_account (ac_ID a) (set_balance b) db1)"
      using import free True unfolding a(2) by (auto split: if_splits)
    then have "db_stmt now db1 db'" using moved by blast
    then show ?thesis using opened by (metis r_into_rtranclp stmts_then)
  qed
qed

lemma import_accounts_stmts:
  assumes "import_accounts rs db = Inr db'" and "tables_ok db" and "\<forall>r\<in>set rs. ui_UserID r \<noteq> 0 \<and> in_i64 (ui_BillingBalanceNanousd r)"
  shows "stmts now db db'"
  using assms
proof (induction rs db rule: import_accounts.induct)
  case (2 r rs db)
  then obtain db1 where "import_account r db = Inr db1" "import_accounts rs db1 = Inr db'" by (auto split: sum.splits)
  moreover from this have "stmts now db db1" using import_account_stmts 2 by simp
  ultimately show ?case using 2 stmts_keep_tables by (metis list.set_intros(2) rtranclp_trans)
qed simp

end
