(* ===== verification/BillingHistory.thy ===== *)
theory BillingHistory
  imports Transactions
begin

text \<open>
  Billing over time: the operations of the repository as the steps of one database, the histories
  they make under a clock that does not run backwards, and the invariants every history keeps.
  Among the steps are those other parts of the program make: the cleanup of logs, which deletes
  usage ledgers and payment orders for good, at any times of creation; the hard deletion of
  accounts; and the import of users. Administrators write plans, prices and subscriptions through other operations as well, making a
  user among them; such a write may change those tables at will.
\<close>

inductive billing_step ::
  "(redemption_code \<Rightarrow> string) \<Rightarrow> (string \<Rightarrow> (string \<times> int) list \<Rightarrow> string) \<Rightarrow> gotime \<Rightarrow> billing_db \<Rightarrow> billing_db \<Rightarrow> bool"
  for snapshot_of with_snapshot now where
  balance_set: "set_billing_account_balance u b refNo descr db = Inr (a, db') \<Longrightarrow> in_i64 b
    \<Longrightarrow> billing_step snapshot_of with_snapshot now db db'"
| account_asked: "get_or_create_billing_account u db = Inr (a, db')
    \<Longrightarrow> billing_step snapshot_of with_snapshot now db db'"
| order_placed: "create_payment_order item db = Inr (row, db') \<Longrightarrow> po_Status item = ''pending''
    \<Longrightarrow> billing_step snapshot_of with_snapshot now db db'"
| checkout_attached: "update_payment_order_checkout orderNo checkout url db = Inr db'
    \<Longrightarrow> billing_step snapshot_of with_snapshot now db db'"
| topup_completed: "mark_payment_order_paid_and_credit_balance now orderNo ext paidAt db = Inr (order, activated, db')
    \<Longrightarrow> billing_step snapshot_of with_snapshot now db db'"
| subscription_completed: "mark_payment_order_paid_and_grant_subscription now orderNo ext paidAt sub db = Inr (order, activated, db')
    \<Longrightarrow> billing_step snapshot_of with_snapshot now db db'"
| code_added: "create_redemption_code item db = Inr (code, db') \<Longrightarrow> (\<forall>m. rc_MaxRedemptions item = Some m \<longrightarrow> 0 < m)
    \<Longrightarrow> billing_step snapshot_of with_snapshot now db db'"
| code_patched: "patch_redemption_code i patch db = Inr (code, db')
    \<Longrightarrow> billing_step snapshot_of with_snapshot now db db'"
| code_deleted: "delete_redemption_code i db = Inr db'
    \<Longrightarrow> billing_step snapshot_of with_snapshot now db db'"
| code_redeemed: "redeem_code snapshot_of now input db = Inr (code, row, account, sub, db')
    \<Longrightarrow> billing_step snapshot_of with_snapshot now db db'"
| call_let_in: "reserve_usage_balance now req db = Inr (row, db') \<Longrightarrow> rq_AuthorizedAt req \<le> now
    \<Longrightarrow> billing_step snapshot_of with_snapshot now db db'"
| call_released: "release_usage_balance_reservation u refNo now db = Inr db'
    \<Longrightarrow> billing_step snapshot_of with_snapshot now db db'"
| call_renewed: "renew_usage_balance_reservation u refNo now db = Inr db'
    \<Longrightarrow> billing_step snapshot_of with_snapshot now db db'"
| call_marked: "mark_usage_reservation_reconciliation_required u refNo failure now db = Inr db'
    \<Longrightarrow> billing_step snapshot_of with_snapshot now db db'"
| usage_added: "db' = add_usage usage db
    \<Longrightarrow> billing_step snapshot_of with_snapshot now db db'"
| balance_settled: "add_usage_and_settle_balance usage res now db = Inr (usage', db')
    \<Longrightarrow> billing_step snapshot_of with_snapshot now db db'"
| period_settled: "add_period_usage_and_settle_overage with_snapshot usage startAt endAt credit res now db = Inr (usage', db')
    \<Longrightarrow> billing_step snapshot_of with_snapshot now db db'"
| week_settled: "add_weekly_usage_and_settle_quota with_snapshot usage res now db = Inr (usage', db') \<Longrightarrow> ul_BillingAt usage \<le> now
    \<Longrightarrow> billing_step snapshot_of with_snapshot now db db'"
| cycle_asked: "ensure_weekly_quota_cycle_tx now r db = Inr (c, db')
    \<Longrightarrow> billing_step snapshot_of with_snapshot now db db'"
| cycle_scheduled: "set_weekly_quota_next_reset now r db = Inr (c, db')
    \<Longrightarrow> billing_step snapshot_of with_snapshot now db db'"
| cycle_reset: "reset_weekly_quota_cycle now actor db = Inr (c, db')
    \<Longrightarrow> billing_step snapshot_of with_snapshot now db db'"
| quota_asked: "get_or_create_weekly_quota_account i u db = Inr (q, db')
    \<Longrightarrow> billing_step snapshot_of with_snapshot now db db'"
| logs_cleaned: "cleanup_logs ledgerAt orderAt now logType before' (logs, db) = Inr (n, logs', db')
    \<Longrightarrow> billing_step snapshot_of with_snapshot now db db'"
| account_deleted: "delete_account_hard refs u db = Inr db'
    \<Longrightarrow> billing_step snapshot_of with_snapshot now db db'"
| users_imported: "import_accounts users db = Inr db' \<Longrightarrow> (\<forall>r\<in>set users. ui_UserID r \<noteq> 0 \<and> in_i64 (ui_BillingBalanceNanousd r))
    \<Longrightarrow> billing_step snapshot_of with_snapshot now db db'"
| entitlements_written: "billing_step snapshot_of with_snapshot now db
    (db\<lparr>bd_subscriptions := tab, bd_plans := plans, bd_prices := prices\<rparr>)"

theorem step_is_stmts:
  assumes "billing_step snapshot_of with_snapshot now db db'" and "books now db"
  shows "stmts now db db'"
  using assms
proof (induction rule: billing_step.induct)
  case (balance_set u b refNo descr db a db')
  then show ?case using set_billing_account_balance_stmts booksD(1) by blast
next
  case (account_asked u db a db')
  then show ?case by (simp add: account_got(1))
next
  case (order_placed item db row db')
  then show ?case by (intro create_payment_order_stmts) (auto simp: trim_space_plain)
next
  case (checkout_attached orderNo checkout url db db')
  then show ?case using update_checkout_stmts by blast
next
  case (topup_completed orderNo ext paidAt db order activated db')
  then show ?case using mark_paid_and_credit_stmts by blast
next
  case (subscription_completed orderNo ext paidAt sub db order activated db')
  then show ?case using mark_paid_and_grant_stmts by blast
next
  case (code_added item db code db')
  then show ?case using create_redemption_code_stmts by blast
next
  case (code_patched i patch db code db')
  then show ?case using patch_redemption_code_stmts booksD(1) by blast
next
  case (code_deleted i db db')
  then show ?case using delete_redemption_code_stmts by blast
next
  case (code_redeemed input db code row account sub db')
  then show ?case using redeem_code_stmts booksD(1) by blast
next
  case (call_let_in req db row db')
  then show ?case using reserve_stmts by blast
next
  case (call_released u refNo db db')
  then show ?case using release_stmts booksD(1) by blast
next
  case (call_renewed u refNo db db')
  then show ?case using renew_stmts by blast
next
  case (call_marked u refNo failure db db')
  then show ?case using mark_stmts by blast
next
  case (usage_added db' usage db)
  then show ?case using ledger_written [of now db usage] by (auto simp: add_usage_def)
next
  case (balance_settled usage res db usage' db')
  then show ?case using settle_balance_stmts booksD(1) by blast
next
  case (period_settled usage startAt endAt credit res db usage' db')
  then show ?case using settle_period_stmts booksD(1) by blast
next
  case (week_settled usage res db usage' db')
  then show ?case using settle_weekly_stmts by blast
next
  case (cycle_asked r db c db')
  then show ?case using ensure_tx_stmts by blast
next
  case (cycle_scheduled r db c db')
  then show ?case using set_next_reset_stmts by blast
next
  case (cycle_reset actor db c db')
  then show ?case using reset_stmts by blast
next
  case (quota_asked i u db q db')
  then show ?case using quota_account_got(1) by blast
next
  case (logs_cleaned ledgerAt orderAt logType before' logs db n logs' db')
  then show ?case using cleanup_stmts by blast
next
  case (account_deleted refs u db db')
  then show ?case using delete_account_stmts by blast
next
  case (users_imported users db db')
  then show ?case using import_accounts_stmts booksD(1) by blast
next
  case (entitlements_written db tab plans prices)
  then show ?case using entitlements_changed by blast
qed

inductive billing_history ::
  "(redemption_code \<Rightarrow> string) \<Rightarrow> (string \<Rightarrow> (string \<times> int) list \<Rightarrow> string) \<Rightarrow> gotime \<Rightarrow> billing_db \<Rightarrow> gotime \<Rightarrow> billing_db \<Rightarrow> bool"
  for snapshot_of with_snapshot t0 db0 where
  history_start: "billing_history snapshot_of with_snapshot t0 db0 t0 db0"
| history_next: "billing_history snapshot_of with_snapshot t0 db0 t db \<Longrightarrow> t \<le> t'
    \<Longrightarrow> billing_step snapshot_of with_snapshot t' db db' \<Longrightarrow> billing_history snapshot_of with_snapshot t0 db0 t' db'"

lemma books_later: "books t db \<Longrightarrow> t \<le> t' \<Longrightarrow> books t' db"
  by (auto simp: books_def intro: started_later)

lemma books_empty: "books t empty_db"
  by (simp add: books_def tables_ok_def empty_db_def quota_ok_def cycle_ids_ok_def current_cycle_id_def started_def)

lemma history_books: "billing_history snapshot_of with_snapshot t0 db0 t db \<Longrightarrow> books t0 db0 \<Longrightarrow> books t db"
proof (induction rule: billing_history.induct)
  case (history_next t db t' db')
  then have "books t' db" using books_later by blast
  then show ?case using step_is_stmts [OF history_next(3)] stmts_keep_books by blast
qed

text \<open>What every single write keeps, every history keeps.\<close>

lemma history_invariant:
  assumes "billing_history snapshot_of with_snapshot t0 db0 t db" and "books t0 db0" and "I db0"
    and keep: "\<And>now db db'. db_stmt now db db' \<Longrightarrow> books now db \<Longrightarrow> I db \<Longrightarrow> I db'"
  shows "I db"
  using assms(1-3)
proof (induction rule: billing_history.induct)
  case (history_next t db t' db')
  then have b: "books t' db" using history_books books_later by blast
  have "books t' db2 \<and> I db2" if "stmts t' db db2" for db2
    using that by (induction rule: rtranclp_induct) (use history_next b keep stmt_keeps_books in blast)+
  then show ?case using step_is_stmts [OF history_next(3) b] by blast
qed

definition reachable ::
  "(redemption_code \<Rightarrow> string) \<Rightarrow> (string \<Rightarrow> (string \<times> int) list \<Rightarrow> string) \<Rightarrow> gotime \<Rightarrow> billing_db \<Rightarrow> bool" where
  "reachable snapshot_of with_snapshot t db \<longleftrightarrow> (\<exists>t0. billing_history snapshot_of with_snapshot t0 empty_db t db)"

lemma reachable_books: "reachable snapshot_of with_snapshot t db \<Longrightarrow> books t db"
  using history_books books_empty by (auto simp: reachable_def)

lemma reachable_invariant:
  assumes "reachable snapshot_of with_snapshot t db" and "I empty_db"
    and "\<And>now db db'. db_stmt now db db' \<Longrightarrow> books now db \<Longrightarrow> I db \<Longrightarrow> I db'"
  shows "I db"
  using history_invariant [where I = I, OF _ books_empty assms(2,3)] assms(1) by (auto simp: reachable_def)

end
