(* ===== verification/BillingInvariants.thy ===== *)
theory BillingInvariants
  imports BillingHistory
begin

text \<open>
  What holds of the billing database after any history: the journal explains every balance, a
  paid top-up is credited once, a code is redeemed as often as its counter says, and the counter
  of a week is what was settled in it.
\<close>

subsection \<open>The journal\<close>

fun adds_up :: "int \<Rightarrow> balance_transaction list \<Rightarrow> int \<Rightarrow> bool" where
  "adds_up b [] c \<longleftrightarrow> b = c"
| "adds_up b (t # ts) c \<longleftrightarrow>
     bt_BalanceAfterNanousd t = wrap64 (b + bt_AmountNanousd t) \<and> adds_up (bt_BalanceAfterNanousd t) ts c"

definition entries :: "account \<Rightarrow> billing_db \<Rightarrow> balance_transaction list" where
  "entries a db = filter (\<lambda>t. bt_AccountID t = ac_ID a) (bd_transactions db)"

definition journal_ok :: "billing_db \<Rightarrow> bool" where
  "journal_ok db \<longleftrightarrow> (\<forall>a\<in>set (bd_accounts db). adds_up 0 (entries a db) (ac_BalanceNanousd a)
     \<and> (\<forall>t\<in>set (entries a db). bt_UserID t = ac_UserID a))"

lemma adds_up_snoc:
  "adds_up b (ts @ [t]) c \<longleftrightarrow> (\<exists>d. adds_up b ts d \<and> c = wrap64 (d + bt_AmountNanousd t) \<and> bt_BalanceAfterNanousd t = c)"
  by (induction ts arbitrary: b) auto

lemma adds_up_sum: "adds_up b ts c \<Longrightarrow> in_i64 b \<Longrightarrow> c = wrap64 (b + sum_list (map bt_AmountNanousd ts))"
proof (induction ts arbitrary: b)
  case (Cons t ts)
  then show ?case using Cons.IH [of "wrap64 (b + bt_AmountNanousd t)"] by (auto simp: wrap64_add add.assoc)
qed (simp add: wrap64_id)

lemma entries_same: "bd_transactions db' = bd_transactions db \<Longrightarrow> entries a db' = entries a db"
  by (simp add: entries_def)

text \<open>The one case that moves a balance: the journal row carries the new balance.\<close>

lemma journal_moved:
  assumes "journal_ok db" and a: "a \<in> set (bd_accounts db)" and ok: "tables_ok db"
    and b: "b = wrap64 (ac_BalanceNanousd a + bt_AmountNanousd t)"
    and t: "bt_AccountID t = ac_ID a" "bt_UserID t = ac_UserID a" "bt_BalanceAfterNanousd t = b"
    and db': "bd_accounts db' = map (\<lambda>x. if ac_ID x = ac_ID a then set_balance b x else x) (bd_accounts db)"
      "bd_transactions db' = bd_transactions db @ [t]"
  shows "journal_ok db'"
  unfolding journal_ok_def db'(1) set_map
proof (rule ballI, elim imageE)
  fix x y assume y: "y \<in> set (bd_accounts db)" and x: "x = (if ac_ID y = ac_ID a then set_balance b y else y)"
  have old: "adds_up 0 (entries y db) (ac_BalanceNanousd y)" "\<forall>t\<in>set (entries y db). bt_UserID t = ac_UserID y"
    using assms(1) y by (auto simp: journal_ok_def)
  show "adds_up 0 (entries x db') (ac_BalanceNanousd x) \<and> (\<forall>t\<in>set (entries x db'). bt_UserID t = ac_UserID x)"
  proof (cases "ac_ID y = ac_ID a")
    case True
    then have "y = a" using ids_below_inj [of ac_ID "bd_nextID db" "bd_accounts db" y a] y a ok by (simp add: tables_ok_def)
    then show ?thesis using old t b x by (auto simp: entries_def db'(2) adds_up_snoc)
  next
    case False
    then show ?thesis using old x t by (simp add: entries_def db'(2))
  qed
qed

lemma stmt_keeps_journal: "db_stmt now db db' \<Longrightarrow> books now db \<Longrightarrow> journal_ok db \<Longrightarrow> journal_ok db'"
proof (induction rule: db_stmt.induct)
  case (account_opened u db)
  have "entries (new_account (bd_nextID db) u) db = []"
    using booksD(1) [OF account_opened(3)] by (auto simp: entries_def new_account_def tables_ok_def vals_below_def filter_empty_conv)
  with account_opened show ?case by (auto simp: journal_ok_def entries_def new_account_def filter_empty_conv)
next
  case (account_touched a db)
  then have same: "x = a" if "x \<in> set (bd_accounts db)" "ac_ID x = ac_ID a" for x
    using ids_below_inj [of ac_ID "bd_nextID db" "bd_accounts db" x a] that by (simp add: books_def tables_ok_def)
  show ?case
    using account_touched(1,3) same by (auto simp: journal_ok_def update_account_def entries_def)
next
  case (balance_moved a db b amount kind refType refID refNo description)
  then show ?case
    by (intro journal_moved [OF balance_moved(5,1) booksD(1) [OF balance_moved(4)], where b = b and t = "\<lparr>bt_ID = bd_nextID db, bt_AccountID = ac_ID a, bt_UserID = ac_UserID a, bt_Type = kind, bt_AmountNanousd = amount,
        bt_BalanceAfterNanousd = b, bt_RefType = refType, bt_RefID = refID, bt_RefNo = refNo, bt_Description = description\<rparr>"])
      (simp_all add: row_ops)
next
  case (order_credited a db b order externalPaymentID paidAt refType refNo description)
  then show ?case
    by (intro journal_moved [OF order_credited(8,1) booksD(1) [OF order_credited(7)], where b = b and t = "\<lparr>bt_ID = bd_nextID db, bt_AccountID = ac_ID a, bt_UserID = po_UserID order, bt_Type = ''topup'', bt_AmountNanousd = po_CreditNanousd order,
        bt_BalanceAfterNanousd = b, bt_RefType = refType, bt_RefID = po_ID order, bt_RefNo = refNo, bt_Description = description\<rparr>"])
      (simp_all add: row_ops)
next
  case (cycles_moved db db')
  then show ?case using only_cyclesD(1,2) [OF cycles_moved(1)] by (simp add: journal_ok_def entries_def)
qed (simp_all add: journal_ok_def row_ops entries_def)

text \<open>
  C1: The journal explains every balance. After any history of billing operations, errors and
  retries included, the balance of an account is the sum of the amounts of its journal rows in the
  arithmetic of \<open>int64\<close>; every row belongs to the account's user and carries the balance after it,
  so each is the one before plus the amount and the last is the present balance; and no user has
  two accounts.
\<close>

theorem journal_explains_balances:
  assumes "reachable snapshot_of with_snapshot t db" and "a \<in> set (bd_accounts db)"
  shows "ac_BalanceNanousd a = wrap64 (sum_list (map bt_AmountNanousd (entries a db)))
    \<and> adds_up 0 (entries a db) (ac_BalanceNanousd a)
    \<and> (\<forall>t\<in>set (entries a db). bt_UserID t = ac_UserID a)
    \<and> (\<forall>a'\<in>set (bd_accounts db). ac_UserID a' = ac_UserID a \<longrightarrow> a' = a)"
proof -
  have "journal_ok db"
  proof (rule reachable_invariant [OF assms(1)])
    show "journal_ok empty_db" by (simp add: journal_ok_def empty_db_def)
  qed (rule stmt_keeps_journal)
  then have j: "adds_up 0 (entries a db) (ac_BalanceNanousd a)" "\<forall>t\<in>set (entries a db). bt_UserID t = ac_UserID a"
    using assms(2) by (auto simp: journal_ok_def)
  have "distinct (map ac_UserID (bd_accounts db))"
    using booksD(1) [OF reachable_books [OF assms(1)]] by (simp add: tables_ok_def distinct_by_def)
  then show ?thesis using j adds_up_sum [OF j(1)] assms(2) by (auto simp: distinct_map dest: inj_onD)
qed

text \<open>Updating the row with a given key changes that row and no other.\<close>

lemma set_updated:
  assumes "ids_below key n xs" and "a \<in> set xs"
  shows "set (map (\<lambda>x. if key x = key a then f x else x) xs) = insert (f a) {x \<in> set xs. key x \<noteq> key a}"
proof -
  have "x = a" if "x \<in> set xs" "key x = key a" for x using ids_below_inj [OF assms(1) that(1) assms(2) that(2)] .
  then show ?thesis using assms(2) by (auto simp: image_iff)
qed

subsection \<open>Top-ups\<close>

definition topups :: "payment_order \<Rightarrow> billing_db \<Rightarrow> balance_transaction list" where
  "topups order db = filter (\<lambda>t. bt_Type t = ''topup'' \<and> bt_RefID t = po_ID order) (bd_transactions db)"

definition topups_ok :: "billing_db \<Rightarrow> bool" where
  "topups_ok db \<longleftrightarrow> (\<forall>order\<in>set (bd_orders db).
     map (\<lambda>t. (bt_UserID t, bt_AmountNanousd t)) (topups order db)
       = (if po_OrderType order = ''topup'' \<and> po_Status order = ''paid'' then [(po_UserID order, po_CreditNanousd order)] else []))"

lemma orders_updated:
  assumes "books now db" and "order \<in> set (bd_orders db)"
  shows "set (bd_orders (update_order (po_ID order) f db)) = insert (f order) {x \<in> set (bd_orders db). po_ID x \<noteq> po_ID order}"
  using set_updated [of po_ID "bd_nextID db" "bd_orders db" order f] assms by (simp add: books_def tables_ok_def update_order_def)

lemma stmt_keeps_topups: "db_stmt now db db' \<Longrightarrow> books now db \<Longrightarrow> topups_ok db \<Longrightarrow> topups_ok db'"
proof (induction rule: db_stmt.induct)
  case (order_credited a db b order externalPaymentID paidAt refType refNo description)
  have "map (\<lambda>t. (bt_UserID t, bt_AmountNanousd t)) (topups order db) = []"
    using order_credited(3-5,8) unfolding topups_ok_def by fastforce
  then have no: "filter (\<lambda>t. bt_Type t = ''topup'' \<and> bt_RefID t = po_ID order) (bd_transactions db) = []"
    by (simp add: topups_def)
  define db1 where "db1 = post_transaction a (po_UserID order) ''topup'' (po_CreditNanousd order) b refType (po_ID order) refNo description
    (update_account (ac_ID a) (set_balance b) db)"
  have same: "bd_orders db1 = bd_orders db" "bd_nextID db1 = Suc (bd_nextID db)" by (simp_all add: db1_def row_ops)
  have "set (bd_orders (update_order (po_ID order) (paid_order externalPaymentID paidAt) db1))
      = insert (paid_order externalPaymentID paidAt order) {x \<in> set (bd_orders db). po_ID x \<noteq> po_ID order}"
    using orders_updated [OF order_credited(7,3), of "paid_order externalPaymentID paidAt"] by (simp add: update_order_def same)
  then show ?case
    using order_credited(5,8) no unfolding topups_ok_def db1_def [symmetric]
    by (simp add: topups_def db1_def row_ops)
next
  case (order_paid order db externalPaymentID paidAt)
  have "topups x (update_order (po_ID order) (paid_order externalPaymentID paidAt) db) = topups x db" for x
    by (simp add: topups_def update_order_def)
  moreover have "topups (paid_order externalPaymentID paidAt order) db = topups order db" by (simp add: topups_def)
  moreover have "topups order db = []" using order_paid(1,3,5) unfolding topups_ok_def by fastforce
  ultimately show ?case
    using order_paid(3,5) unfolding topups_ok_def orders_updated [OF order_paid(4,1)] by simp
next
  case (order_created row db)
  have "topups row db = []"
    using booksD(1) [OF order_created(4)] order_created(2)
    by (auto simp: topups_def filter_empty_conv tables_ok_def vals_below_def topup_ref_def split: if_splits)
  with order_created show ?case by (simp add: topups_ok_def topups_def)
next
  case (orders_attached db f)
  then have "po_ID (f r) = po_ID r \<and> po_OrderType (f r) = po_OrderType r \<and> po_Status (f r) = po_Status r
      \<and> po_UserID (f r) = po_UserID r \<and> po_CreditNanousd (f r) = po_CreditNanousd r" if "r \<in> set (bd_orders db)" for r
    using that by fastforce
  with orders_attached(3) show ?case by (simp add: topups_ok_def topups_def)
next
  case (cycles_moved db db')
  then show ?case using only_cyclesD(2,5) [OF cycles_moved(1)] by (simp add: topups_ok_def topups_def)
qed (simp_all add: topups_ok_def row_ops topups_def)

text \<open>
  C6: A payment is credited once. After any history, however often providers call back and however
  calls interleave, a paid top-up order has exactly one top-up row in the journal, for its user and
  its amount, and an order that is not paid, or is for a subscription, has none.
\<close>

theorem topups_are_credited_once:
  assumes "reachable snapshot_of with_snapshot t db" and "order \<in> set (bd_orders db)"
  shows "map (\<lambda>t. (bt_UserID t, bt_AmountNanousd t)) (topups order db)
    = (if po_OrderType order = ''topup'' \<and> po_Status order = ''paid'' then [(po_UserID order, po_CreditNanousd order)] else [])"
proof -
  have "topups_ok db"
  proof (rule reachable_invariant [OF assms(1)])
    show "topups_ok empty_db" by (simp add: topups_ok_def empty_db_def)
  qed (rule stmt_keeps_topups)
  with assms(2) show ?thesis by (simp add: topups_ok_def)
qed

subsection \<open>Redemptions\<close>

definition counted :: "redemption list \<Rightarrow> redemption_code \<Rightarrow> bool" where
  "counted rows c \<longleftrightarrow> rc_RedeemedCount c = int (length (filter (\<lambda>x. rd_CodeID x = rc_ID c) rows))
     \<and> (\<forall>m. rc_MaxRedemptions c = Some m \<longrightarrow> rc_RedeemedCount c \<le> m)"

definition redemptions_ok :: "billing_db \<Rightarrow> bool" where
  "redemptions_ok db \<longleftrightarrow> (\<forall>c\<in>set (bd_codes db). counted (bd_redemptions db) c)"

lemma stmt_keeps_redemptions: "db_stmt now db db' \<Longrightarrow> books now db \<Longrightarrow> redemptions_ok db \<Longrightarrow> redemptions_ok db'"
proof (induction rule: db_stmt.induct)
  case (code_created row db)
  have "filter (\<lambda>x. rd_CodeID x = bd_nextID db) (bd_redemptions db) = []"
    using booksD(1) [OF code_created(5)] by (auto simp: filter_empty_conv tables_ok_def vals_below_def)
  with code_created show ?case by (auto simp: redemptions_ok_def counted_def less_imp_le)
next
  case (codes_changed db f)
  have "rc_RedeemedCount (f c) = rc_RedeemedCount c \<and> rc_ID (f c) = rc_ID c
      \<and> (\<forall>m. rc_MaxRedemptions (f c) = Some m \<longrightarrow> rc_RedeemedCount c \<le> m)" if "c \<in> set (bd_codes db)" for c
    using codes_changed that by (fastforce simp: code_kept_def redemptions_ok_def counted_def)
  with codes_changed(3) show ?case by (simp add: redemptions_ok_def counted_def)
next
  case (redeemed c db row)
  let ?db = "db\<lparr>bd_redemptions := bd_redemptions db @ [row], bd_nextID := bd_nextID db + 1\<rparr>"
  have "set (bd_codes (update_code (rc_ID c) count_redemption ?db))
      = insert (count_redemption c) {x \<in> set (bd_codes db). rc_ID x \<noteq> rc_ID c}"
    using set_updated [of rc_ID "bd_nextID db" "bd_codes db" c count_redemption] redeemed(1,4)
    by (simp add: books_def tables_ok_def update_code_def)
  moreover have "bd_redemptions (update_code (rc_ID c) count_redemption ?db) = bd_redemptions db @ [row]" by (simp add: update_code_def)
  moreover have "rc_RedeemedCount c = int (length (filter (\<lambda>x. rd_CodeID x = rc_ID c) (bd_redemptions db)))"
    using redeemed(1,5) by (simp add: redemptions_ok_def counted_def)
  ultimately show ?case
    using redeemed(2,3,5) unfolding redemptions_ok_def counted_def by auto
next
  case (cycles_moved db db')
  then show ?case using only_cyclesD(6,7) [OF cycles_moved(1)] by (simp add: redemptions_ok_def)
qed (simp_all add: redemptions_ok_def row_ops)

text \<open>
  C11: A redemption code is not used more often than it may be. After any history of codes made,
  changed, deleted and redeemed, the counter of a code is the number of its redemption rows and
  does not exceed its limit.
\<close>

theorem codes_are_not_overdrawn:
  assumes "reachable snapshot_of with_snapshot t db" and "c \<in> set (bd_codes db)"
  shows "rc_RedeemedCount c = int (length (filter (\<lambda>x. rd_CodeID x = rc_ID c) (bd_redemptions db)))
    \<and> (\<forall>m. rc_MaxRedemptions c = Some m \<longrightarrow> rc_RedeemedCount c \<le> m)"
proof -
  have "redemptions_ok db"
  proof (rule reachable_invariant [OF assms(1)])
    show "redemptions_ok empty_db" by (simp add: redemptions_ok_def empty_db_def)
  qed (rule stmt_keeps_redemptions)
  with assms(2) show ?thesis unfolding redemptions_ok_def counted_def by blast
qed

subsection \<open>The weeks\<close>

text \<open>What was settled in a week for a user: the weekly reservations settled in it.\<close>

definition settled_in :: "nat \<Rightarrow> nat \<Rightarrow> billing_db \<Rightarrow> reservation list" where
  "settled_in cycleID userID db =
     filter (\<lambda>r. rs_Status r = Settled \<and> rs_Mode r = ''weekly'' \<and> rs_SettledWeeklyCycleID r = cycleID \<and> rs_UserID r = userID)
       (bd_reservations db)"

text \<open>
  A settled reservation keeps what was settled; the ledger row it points to says the same for as
  long as no cleanup of the usage logs has deleted it.
\<close>

definition settlement_ok :: "billing_db \<Rightarrow> reservation \<Rightarrow> bool" where
  "settlement_ok db r \<longleftrightarrow> rs_Status r = Settled \<longrightarrow>
     0 < rs_UsageLedgerID r
     \<and> (\<forall>u\<in>set (bd_ledgers db). ul_ID u = rs_UsageLedgerID r \<longrightarrow>
          ul_UserID u = rs_UserID r \<and> (rs_Mode r = ''weekly'' \<longrightarrow> rs_SettledNanousd r = settled_charge u))
     \<and> (rs_Mode r = ''weekly'' \<longrightarrow> 0 \<le> rs_SettledNanousd r
          \<and> (rs_SettledWeeklyCycleID r, rs_UserID r) \<in> quota_key ` set (bd_quotaAccounts db))"

definition weeks_ok :: "billing_db \<Rightarrow> bool" where
  "weeks_ok db \<longleftrightarrow> (\<forall>r\<in>set (bd_reservations db). settlement_ok db r)
     \<and> (\<forall>q\<in>set (bd_quotaAccounts db). qa_UsedNanousd q =
          min (2 ^ 63 - 1) (sum_list (map rs_SettledNanousd (settled_in (qa_CycleID q) (qa_UserID q) db))))"

lemma settled_charge_nonneg: "0 \<le> settled_charge u"
  by (simp add: settled_charge_def clamp_non_negative_def)

lemma saturating_sum: "0 \<le> s \<Longrightarrow> 0 \<le> c \<Longrightarrow> add_non_negative_int64 (min (2 ^ 63 - 1) s) c = min (2 ^ 63 - 1) (s + c)"
  by (simp add: add_non_negative)

lemma update_split:
  assumes "ids_below key n xs" and "a \<in> set xs"
  shows "\<exists>ys zs. xs = ys @ a # zs \<and> map (\<lambda>x. if key x = key a then f x else x) xs = ys @ f a # zs"
proof -
  obtain ys zs where xs: "xs = ys @ a # zs" using assms(2) by (meson split_list)
  have "key x \<noteq> key a" if "x \<in> set ys \<union> set zs" for x
    using assms(1) that unfolding xs by (auto simp: ids_below_def image_iff)
  then have "map (\<lambda>x. if key x = key a then f x else x) ys = ys" "map (\<lambda>x. if key x = key a then f x else x) zs = zs"
    by (auto intro: map_idI)
  then show ?thesis using xs by auto
qed

lemma filter_fixed:
  "(\<And>x. x \<in> set xs \<Longrightarrow> P x \<or> P (f x) \<Longrightarrow> f x = x) \<Longrightarrow> filter P (map f xs) = filter P xs"
  by (induction xs) (auto simp del: filter_map, metis+)

lemma image_keep: "(\<And>x. key (f x) = key x) \<Longrightarrow> key ` set (map f xs) = key ` set xs"
  by (simp add: image_image)

lemma weeks_frame:
  assumes "weeks_ok db" and "bd_reservations db' = bd_reservations db" and "bd_quotaAccounts db' = bd_quotaAccounts db"
    and "bd_ledgers db' = bd_ledgers db"
  shows "weeks_ok db'"
  using assms by (simp add: weeks_ok_def settlement_ok_def settled_in_def)

lemma ledger_unique:
  assumes "books now db" and "has_ledger v u db" and "x \<in> set (bd_ledgers db)" and "ul_ID x = ul_ID u"
  shows "x = u"
  using ids_below_inj [of ul_ID "bd_nextID db" "bd_ledgers db" x u] assms
  by (simp add: books_def tables_ok_def has_ledger_def)

text \<open>Settling one row: the rest of the table stays, the row was not among the settled ones.\<close>

lemma settle_splits:
  assumes "books now db" and "r \<in> set (bd_reservations db)"
  obtains ys zs where "bd_reservations db = ys @ r # zs"
    "bd_reservations (update_reservation (rs_ID r) f db) = ys @ f r # zs"
  using update_split [of rs_ID "bd_nextID db" "bd_reservations db" r f] assms
  by (auto simp: books_def tables_ok_def update_reservation_def)

text \<open>Settling a weekly row adds its charge to the sum of the one week and user it names.\<close>

lemma settled_sum_nonneg:
  assumes "weeks_ok db"
  shows "0 \<le> sum_list (map rs_SettledNanousd (settled_in c v db))"
proof (rule sum_list_nonneg, clarsimp)
  fix x assume "x \<in> set (settled_in c v db)"
  then have "settlement_ok db x" "rs_Status x = Settled" "rs_Mode x = ''weekly''"
    using assms by (auto simp: settled_in_def weeks_ok_def)
  then show "0 \<le> rs_SettledNanousd x"
    by (simp add: settlement_ok_def)
qed

lemma weekly_settlement_rows:
  assumes ok: "books now db" "weeks_ok db" and r: "r \<in> set (bd_reservations db)" "rs_Mode r = ''weekly''" "has_ledger (rs_UserID r) u db"
    and q: "q \<in> set (bd_quotaAccounts db)" "qa_UserID q = rs_UserID r"
    and rows: "set (bd_reservations db') \<subseteq> insert (weekly_settled_row (ul_ID u) (settled_charge u) (qa_CycleID q) at r) (set (bd_reservations db))"
    and same: "bd_ledgers db' = bd_ledgers db" "quota_key ` set (bd_quotaAccounts db') = quota_key ` set (bd_quotaAccounts db)"
    and x: "x \<in> set (bd_reservations db')"
  shows "settlement_ok db' x"
proof (cases "x = weekly_settled_row (ul_ID u) (settled_charge u) (qa_CycleID q) at r")
  case True
  have "v = u" if "v \<in> set (bd_ledgers db)" "ul_ID v = ul_ID u" for v by (rule ledger_unique [OF ok(1) r(3) that])
  moreover  have "(qa_CycleID q, qa_UserID q) \<in> quota_key ` set (bd_quotaAccounts db)" using q(1) by (force simp: quota_key_def)
  ultimately show ?thesis
    using r(2,3) q(2) settled_charge_nonneg [of u]
    by (auto simp: True settlement_ok_def weekly_settled_row_def same has_ledger_def)
next
  case False
  then have "settlement_ok db x" using rows x ok(2) by (auto simp: weeks_ok_def)
  then show ?thesis by (simp add: settlement_ok_def same)
qed

lemma weekly_settlement_keeps:
  fixes at
  assumes r: "r \<in> set (bd_reservations db)" "\<not> final r" "rs_Mode r = ''weekly''" "has_ledger (rs_UserID r) u db"
    and q: "q \<in> set (bd_quotaAccounts db)" "qa_UserID q = rs_UserID r" and charge: "charge = settled_charge u"
    and ok: "books now db" "weeks_ok db"
  defines "used \<equiv> add_non_negative_int64 (qa_UsedNanousd q) charge"
  defines "db' \<equiv> update_reservation (rs_ID r) (weekly_settled_row (ul_ID u) charge (qa_CycleID q) at)
      (update_quota_account (qa_ID q) (qa_UsedNanousd_update (\<lambda>_. used)) db)"
  shows "weeks_ok db'"
proof -
  let ?f = "weekly_settled_row (ul_ID u) charge (qa_CycleID q) at"
  have tables: "tables_ok db" by (rule booksD(1) [OF ok(1)])
  obtain ys zs where rows: "bd_reservations db = ys @ r # zs" "bd_reservations db' = ys @ ?f r # zs"
    using settle_splits [OF ok(1) r(1), of ?f] by (auto simp: db'_def update_reservation_def update_quota_account_def)
  have quota: "set (bd_quotaAccounts db') = insert (q\<lparr>qa_UsedNanousd := used\<rparr>) {x \<in> set (bd_quotaAccounts db). qa_ID x \<noteq> qa_ID q}"
    using set_updated [of qa_ID "bd_nextID db" "bd_quotaAccounts db" q] tables q(1)
    by (simp add: db'_def tables_ok_def update_reservation_def update_quota_account_def)
  have keys: "quota_key ` set (bd_quotaAccounts db') = quota_key ` set (bd_quotaAccounts db)"
    unfolding quota using q(1) ids_below_inj [of qa_ID "bd_nextID db" "bd_quotaAccounts db" _ q] tables
    by (auto simp: tables_ok_def image_iff)
  have sum: "sum_list (map rs_SettledNanousd (settled_in c v db')) = sum_list (map rs_SettledNanousd (settled_in c v db))
      + (if (c, v) = quota_key q then charge else 0)" for c v
    using r(2,3) q(2) by (auto simp: settled_in_def rows quota_key_def weekly_settled_row_def final_def)
  have used: "qa_UsedNanousd x = min (2 ^ 63 - 1) (sum_list (map rs_SettledNanousd (settled_in (qa_CycleID x) (qa_UserID x) db')))"
    if "x \<in> set (bd_quotaAccounts db')" for x
  proof (cases "x = q\<lparr>qa_UsedNanousd := used\<rparr>")
    case True
    have "qa_UsedNanousd q = min (2 ^ 63 - 1) (sum_list (map rs_SettledNanousd (settled_in (qa_CycleID q) (qa_UserID q) db)))"
      using q(1) ok(2) by (simp add: weeks_ok_def)
    then have "used = min (2 ^ 63 - 1) (sum_list (map rs_SettledNanousd (settled_in (qa_CycleID q) (qa_UserID q) db)) + charge)"
      unfolding used_def charge using saturating_sum [OF settled_sum_nonneg [OF ok(2)] settled_charge_nonneg] by simp
    then show ?thesis unfolding True by (simp add: sum quota_key_def)
  next
    case False
    then have x: "x \<in> set (bd_quotaAccounts db)" "qa_ID x \<noteq> qa_ID q" using that quota by auto
    then have "quota_key x \<noteq> quota_key q"
      using tables q(1) by (auto simp: tables_ok_def distinct_by_def distinct_map dest: inj_onD)
    then have "(qa_CycleID x, qa_UserID x) \<noteq> quota_key q" by (simp add: quota_key_def [of x])
    then show ?thesis using ok(2) x(1) by (simp add: weeks_ok_def sum)
  qed
  have ledgers: "bd_ledgers db' = bd_ledgers db" by (simp add: db'_def update_reservation_def update_quota_account_def)
  have new_rows: "set (bd_reservations db') \<subseteq> insert (weekly_settled_row (ul_ID u) (settled_charge u) (qa_CycleID q) at r) (set (bd_reservations db))"
    unfolding rows charge by auto
  have "settlement_ok db' x" if "x \<in> set (bd_reservations db')" for x
    by (rule weekly_settlement_rows [OF ok r(1,3,4) q new_rows ledgers keys that])
  with used show ?thesis by (simp add: weeks_ok_def)
qed

lemma stmt_keeps_weeks_ok: "db_stmt now db db' \<Longrightarrow> books now db \<Longrightarrow> weeks_ok db \<Longrightarrow> weeks_ok db'"
proof (induction rule: db_stmt.induct)
  case (ledger_written db u)
  have "settlement_ok (snd (create_ledger u db)) r" if "r \<in> set (bd_reservations db)" for r
  proof -
    have "rs_UsageLedgerID r < bd_nextID db"
      using that booksD(1) [OF ledger_written(1)] by (auto simp: tables_ok_def vals_below_def)
    then show ?thesis using ledger_written(2) that by (auto simp: weeks_ok_def settlement_ok_def create_ledger_def Let_def)
  qed
  with ledger_written(2) show ?case by (simp add: weeks_ok_def settled_in_def create_ledger_def Let_def)
next
  case (reservation_made row db)
  then show ?case by (auto simp: weeks_ok_def settlement_ok_def settled_in_def)
next
  case (reservations_moved db f)
  then have fixed: "f r = r" if "r \<in> set (bd_reservations db)" "rs_Status r = Settled \<or> rs_Status (f r) = Settled" for r
    using that by (auto simp: forward_def final_def)
  have "settled_in c u (db\<lparr>bd_reservations := map f (bd_reservations db)\<rparr>) = settled_in c u db" for c u
    using fixed by (auto simp: settled_in_def simp del: filter_map intro!: filter_fixed)
  moreover have "settlement_ok (db\<lparr>bd_reservations := map f (bd_reservations db)\<rparr>) (f r)" if "r \<in> set (bd_reservations db)" for r
    using reservations_moved(3) that fixed [OF that] by (fastforce simp: weeks_ok_def settlement_ok_def)
  ultimately show ?case using reservations_moved(3) by (simp add: weeks_ok_def)
next
  case (reservation_settled r db u at)
  let ?f = "settled_row (ul_ID u) at" and ?db = "update_reservation (rs_ID r) (settled_row (ul_ID u) at) db"
  obtain ys zs where rows: "bd_reservations db = ys @ r # zs" "bd_reservations ?db = ys @ ?f r # zs"
    using settle_splits [OF reservation_settled(5,1)] by metis
  have same: "bd_quotaAccounts ?db = bd_quotaAccounts db" "bd_ledgers ?db = bd_ledgers db" by (simp_all add: update_reservation_def)
  have "settled_in c v ?db = settled_in c v db" for c v
    using reservation_settled(3) by (simp add: settled_in_def rows settled_row_def)
  moreover have "settlement_ok ?db (?f r)"
    using ledger_unique [OF reservation_settled(5,4)] reservation_settled(3,4)
    by (auto simp: settlement_ok_def has_ledger_def update_reservation_def settled_row_def)
  ultimately show ?case using reservation_settled(6) by (simp add: weeks_ok_def rows same settlement_ok_def)
next
  case (weekly_settled r db u q charge at)
  then show ?case using weekly_settlement_keeps by blast
next
  case (quota_opened c u db q)
  have new: "(c, u) \<notin> quota_key ` set (bd_quotaAccounts db)" by (rule find_quota_None [OF quota_opened(1)])
  have "settled_in c u db = []"
    using quota_opened(4) new by (auto simp: settled_in_def filter_empty_conv weeks_ok_def settlement_ok_def)
  with quota_opened(2,4) show ?case by (auto simp: weeks_ok_def settlement_ok_def settled_in_def)
next
  case (quota_reserved db i x)
  have "quota_key ` set (bd_quotaAccounts (update_quota_account i (qa_ReservedNanousd_update (\<lambda>_. x)) db)) = quota_key ` set (bd_quotaAccounts db)"
    by (simp add: update_quota_account_def image_keep del: set_map)
  with quota_reserved(2) show ?case
    by (auto simp: weeks_ok_def settlement_ok_def settled_in_def update_quota_account_def)
next
  case (cycles_moved db db')
  then show ?case using only_cyclesD(3,4,11) [OF cycles_moved(1)] weeks_frame by blast
next
  case (rows_deleted db P Q R)
  then show ?case by (auto simp: weeks_ok_def settlement_ok_def settled_in_def)
qed (erule weeks_frame; simp add: row_ops)+

text \<open>No two settled reservations point to the same ledger row.\<close>

definition settled_rows :: "billing_db \<Rightarrow> reservation list" where
  "settled_rows db = filter (\<lambda>r. rs_Status r = Settled) (bd_reservations db)"

definition own_ledgers :: "billing_db \<Rightarrow> bool" where
  "own_ledgers db \<longleftrightarrow> distinct (map rs_UsageLedgerID (settled_rows db))"

lemma own_ledgers_settled:
  assumes "own_ledgers db" and "bd_reservations db = ys @ r # zs" and "bd_reservations db' = ys @ r' # zs"
    and "rs_Status r \<noteq> Settled" and "\<forall>x\<in>set (bd_reservations db). rs_UsageLedgerID x \<noteq> rs_UsageLedgerID r'"
  shows "own_ledgers db'"
  using assms by (auto simp: own_ledgers_def settled_rows_def)

lemma stmt_keeps_own_ledgers: "db_stmt now db db' \<Longrightarrow> books now db \<Longrightarrow> own_ledgers db \<Longrightarrow> own_ledgers db'"
proof (induction rule: db_stmt.induct)
  case (reservation_made row db)
  then show ?case by (simp add: own_ledgers_def settled_rows_def)
next
  case (reservations_moved db f)
  then have fixed: "f r = r" if "r \<in> set (bd_reservations db)" "rs_Status r = Settled \<or> rs_Status (f r) = Settled" for r
    using that by (auto simp: forward_def final_def)
  have "settled_rows (db\<lparr>bd_reservations := map f (bd_reservations db)\<rparr>) = settled_rows db"
    using fixed by (auto simp: settled_rows_def simp del: filter_map intro!: filter_fixed)
  with reservations_moved(3) show ?case by (simp add: own_ledgers_def)
next
  case (reservation_settled r db u at)
  obtain ys zs where "bd_reservations db = ys @ r # zs"
    "bd_reservations (update_reservation (rs_ID r) (settled_row (ul_ID u) at) db) = ys @ settled_row (ul_ID u) at r # zs"
    using settle_splits [OF reservation_settled(5,1)] by metis
  from own_ledgers_settled [OF reservation_settled(6) this] reservation_settled(2,4) show ?case
    by (auto simp: final_def has_ledger_def)
next
  case (weekly_settled r db u q charge at)
  let ?f = "weekly_settled_row (ul_ID u) charge (qa_CycleID q) at"
  obtain ys zs where "bd_reservations db = ys @ r # zs" "bd_reservations (update_reservation (rs_ID r) ?f db) = ys @ ?f r # zs"
    using settle_splits [OF weekly_settled(8,1)] by metis
  then have "bd_reservations db = ys @ r # zs" "bd_reservations (update_reservation (rs_ID r) ?f (update_quota_account (qa_ID q)
      (qa_UsedNanousd_update (\<lambda>_. add_non_negative_int64 (qa_UsedNanousd q) charge)) db)) = ys @ ?f r # zs"
    by (simp_all add: update_reservation_def update_quota_account_def)
  from own_ledgers_settled [OF weekly_settled(9) this] weekly_settled(2,4) show ?case
    by (auto simp: final_def has_ledger_def)
next
  case (cycles_moved db db')
  then show ?case using only_cyclesD(3) [OF cycles_moved(1)] by (simp add: own_ledgers_def settled_rows_def)
qed (simp_all add: own_ledgers_def settled_rows_def row_ops)

text \<open>
  C10: The counter of a week is what was settled in it. After any history the amount counted for a
  user in a weekly cycle is the sum, capped at the largest \<open>int64\<close>, of what the reservations settled
  in that cycle say was settled. Each of them had a ledger row of its own, and as long as the
  cleanup of usage logs has left that row it is the user's and was billed that very amount; so no
  call is counted twice, in two weeks or not at all, and deleting logs does not change the count.
\<close>

theorem weekly_counter_is_what_was_settled:
  assumes "reachable snapshot_of with_snapshot t db" and "q \<in> set (bd_quotaAccounts db)"
  shows "qa_UsedNanousd q = min (2 ^ 63 - 1) (sum_list (map rs_SettledNanousd (settled_in (qa_CycleID q) (qa_UserID q) db)))
    \<and> distinct (map rs_UsageLedgerID (settled_in (qa_CycleID q) (qa_UserID q) db))
    \<and> (\<forall>r\<in>set (settled_in (qa_CycleID q) (qa_UserID q) db). 0 < rs_UsageLedgerID r \<and> 0 \<le> rs_SettledNanousd r
        \<and> (\<forall>u\<in>set (bd_ledgers db). ul_ID u = rs_UsageLedgerID r
              \<longrightarrow> ul_UserID u = qa_UserID q \<and> rs_SettledNanousd r = settled_charge u))"
proof -
  have weeks: "weeks_ok db"
  proof (rule reachable_invariant [OF assms(1)])
    show "weeks_ok empty_db" by (simp add: weeks_ok_def empty_db_def)
  qed (rule stmt_keeps_weeks_ok)
  have own: "own_ledgers db"
  proof (rule reachable_invariant [OF assms(1)])
    show "own_ledgers empty_db" by (simp add: own_ledgers_def settled_rows_def empty_db_def)
  qed (rule stmt_keeps_own_ledgers)
  let ?rows = "settled_in (qa_CycleID q) (qa_UserID q) db"
  have rows: "0 < rs_UsageLedgerID r \<and> 0 \<le> rs_SettledNanousd r
      \<and> (\<forall>u\<in>set (bd_ledgers db). ul_ID u = rs_UsageLedgerID r
            \<longrightarrow> ul_UserID u = qa_UserID q \<and> rs_SettledNanousd r = settled_charge u)" if "r \<in> set ?rows" for r
  proof -
    have "settlement_ok db r" "rs_Status r = Settled" "rs_Mode r = ''weekly''" "rs_UserID r = qa_UserID q"
      using weeks that by (auto simp: weeks_ok_def settled_in_def)
    then show ?thesis by (auto simp: settlement_ok_def)
  qed
  have used: "qa_UsedNanousd q = min (2 ^ 63 - 1) (sum_list (map rs_SettledNanousd ?rows))"
    using weeks assms(2) by (simp add: weeks_ok_def)
  have eq: "?rows = filter (\<lambda>r. rs_Mode r = ''weekly'' \<and> rs_SettledWeeklyCycleID r = qa_CycleID q \<and> rs_UserID r = qa_UserID q) (settled_rows db)"
    by (simp add: settled_in_def settled_rows_def conj_ac)
  have "distinct (map rs_UsageLedgerID ?rows)"
    unfolding eq by (rule distinct_map_filter [OF own [unfolded own_ledgers_def]])
  then show ?thesis using rows used by blast
qed

end
