(* ===== verification/Settlements.thy ===== *)
theory Settlements
  imports Authorization BillingInvariants
begin

text \<open>
  What is done once stays done. Reservations are never deleted and a settled one is never touched
  again; ledger rows never change and a paid order stays paid, until a cleanup of logs deletes
  them; row ids are never given twice. So a settlement that is retried, by the same caller after
  an error or by another instance, finds the first one and settles nothing. The contract is the
  locale \<open>settles_once\<close>; the three settlements of usage and the completion of an order are
  instances of it.
\<close>

subsection \<open>Later databases\<close>

text \<open>Rows are changed in place, deleted, and appended with ids that were not given out before.\<close>

definition evolved :: "('a \<Rightarrow> nat) \<Rightarrow> nat \<Rightarrow> ('a \<Rightarrow> 'a \<Rightarrow> bool) \<Rightarrow> 'a list \<Rightarrow> 'a list \<Rightarrow> bool" where
  "evolved key n R xs ys \<longleftrightarrow>
     (\<exists>f keep new. ys = map f (filter keep xs) @ new \<and> (\<forall>x\<in>set xs. R x (f x)) \<and> (\<forall>x\<in>set new. n \<le> key x))"

lemma evolvedI: "ys = map f (filter keep xs) @ new \<Longrightarrow> (\<And>x. x \<in> set xs \<Longrightarrow> R x (f x))
    \<Longrightarrow> (\<And>x. x \<in> set new \<Longrightarrow> n \<le> key x) \<Longrightarrow> evolved key n R xs ys"
  unfolding evolved_def by blast

lemma evolved_append: "(\<And>x. R x x) \<Longrightarrow> n \<le> key x \<Longrightarrow> evolved key n R xs (xs @ [x])"
  by (rule evolvedI [where f = id and keep = "\<lambda>_. True" and new = "[x]"]) simp_all

lemma evolved_refl: "(\<And>x. R x x) \<Longrightarrow> evolved key n R xs xs"
  by (rule evolvedI [where f = id and keep = "\<lambda>_. True" and new = "[]"]) simp_all

lemma evolved_map: "(\<And>x. x \<in> set xs \<Longrightarrow> R x (f x)) \<Longrightarrow> evolved key n R xs (map f xs)"
  by (rule evolvedI [where f = f and keep = "\<lambda>_. True" and new = "[]"]) simp_all

lemma evolved_filter: "(\<And>x. R x x) \<Longrightarrow> evolved key n R xs (filter P xs)"
  by (rule evolvedI [where f = id and keep = P and new = "[]"]) simp_all

lemma evolved_trans:
  assumes "\<And>x y z. R x y \<Longrightarrow> R y z \<Longrightarrow> R x z" and key: "\<And>x y. R x y \<Longrightarrow> key y = key x"
    and "evolved key n R xs ys" and "evolved key m R ys zs" and "n \<le> m"
  shows "evolved key n R xs zs"
proof -
  obtain f p new where f: "ys = map f (filter p xs) @ new" "\<forall>x\<in>set xs. R x (f x)" "\<forall>x\<in>set new. n \<le> key x"
    using assms(3) unfolding evolved_def by blast
  obtain g q new' where g: "zs = map g (filter q ys) @ new'" "\<forall>y\<in>set ys. R y (g y)" "\<forall>x\<in>set new'. m \<le> key x"
    using assms(4) unfolding evolved_def by blast
  let ?f = "\<lambda>x. if p x then g (f x) else f x"
  have "zs = map ?f (filter (\<lambda>x. p x \<and> q (f x)) xs) @ (map g (filter q new) @ new')"
    using f(1) g(1) by (simp add: filter_map comp_def conj_commute cong: filter_cong)
  moreover have "R x (?f x)" if "x \<in> set xs" for x using f g(2) that assms(1) by auto
  moreover have "n \<le> key y" if y: "y \<in> set (map g (filter q new) @ new')" for y
  proof -
    consider x where "x \<in> set new" "y = g x" | "y \<in> set new'" using y by auto
    then show ?thesis
    proof cases
      case 1
      then have "key y = key x" using g(2) f(1) key [of x y] by simp
      then show ?thesis using f(3) 1(1) by simp
    qed (use g(3) assms(5) in auto)
  qed
  ultimately show ?thesis by (rule evolvedI)
qed

text \<open>A table nothing is deleted from: a row that is found is found again.\<close>

definition grown :: "('a \<Rightarrow> 'a \<Rightarrow> bool) \<Rightarrow> 'a list \<Rightarrow> 'a list \<Rightarrow> bool" where
  "grown R xs ys \<longleftrightarrow> (\<exists>f new. ys = map f xs @ new \<and> (\<forall>x\<in>set xs. R x (f x)))"

lemma grown_append: "(\<And>x. R x x) \<Longrightarrow> grown R xs (xs @ new)"
  unfolding grown_def by (intro exI [of _ id] exI [of _ new]) simp

lemma grown_refl: "(\<And>x. R x x) \<Longrightarrow> grown R xs xs"
  using grown_append [of R xs "[]"] by simp

lemma grown_map: "(\<And>x. x \<in> set xs \<Longrightarrow> R x (f x)) \<Longrightarrow> grown R xs (map f xs)"
  unfolding grown_def by (intro exI [of _ f] exI [of _ "[]"]) simp

lemma grown_trans:
  assumes "\<And>x y z. R x y \<Longrightarrow> R y z \<Longrightarrow> R x z" and "grown R xs ys" and "grown R ys zs"
  shows "grown R xs zs"
proof -
  obtain f new where f: "ys = map f xs @ new" "\<forall>x\<in>set xs. R x (f x)" using assms(2) unfolding grown_def by blast
  obtain g new' where g: "zs = map g ys @ new'" "\<forall>y\<in>set ys. R y (g y)" using assms(3) unfolding grown_def by blast
  have "R x ((g \<circ> f) x)" if "x \<in> set xs" for x using f g(2) that assms(1) by auto
  moreover have "zs = map (g \<circ> f) xs @ (map g new @ new')" using f(1) g(1) by simp
  ultimately show ?thesis unfolding grown_def by blast
qed

lemma find_mapped:
  assumes "List.find P xs = Some x" and "keep x" and "\<And>y. y \<in> set xs \<Longrightarrow> P (f y) = P y"
  shows "List.find P (map f (filter keep xs) @ new) = Some (f x)"
  using assms by (induction xs) (auto split: if_splits)

lemma grown_find:
  assumes "grown R xs ys" and "List.find P xs = Some x" and "\<And>x y. R x y \<Longrightarrow> P y = P x"
  shows "\<exists>y. List.find P ys = Some y \<and> R x y"
proof -
  obtain f new where ys: "ys = map f xs @ new" and R: "\<forall>x\<in>set xs. R x (f x)" using assms(1) by (auto simp: grown_def)
  have "List.find P (map f (filter (\<lambda>_. True) xs) @ new) = Some (f x)"
    by (rule find_mapped [OF assms(2)]) (use R assms(3) in auto)
  moreover have "x \<in> set xs" using assms(2) by (auto simp: find_Some_iff)
  ultimately show ?thesis using ys R by auto
qed

definition stays_paid :: "payment_order \<Rightarrow> payment_order \<Rightarrow> bool" where
  "stays_paid r r' \<longleftrightarrow> po_ID r' = po_ID r \<and> po_OrderNo r' = po_OrderNo r \<and> (po_Status r = ''paid'' \<longrightarrow> po_Status r' = ''paid'')"

definition follows :: "billing_db \<Rightarrow> billing_db \<Rightarrow> bool" where
  "follows db db' \<longleftrightarrow> bd_nextID db \<le> bd_nextID db'
     \<and> evolved ul_ID (bd_nextID db) (=) (bd_ledgers db) (bd_ledgers db')
     \<and> grown forward (bd_reservations db) (bd_reservations db')
     \<and> evolved po_ID (bd_nextID db) stays_paid (bd_orders db) (bd_orders db')"

lemma row_refl [simp]: "forward r r" "stays_paid o' o'"
  by (simp_all add: forward_def stays_paid_def)

lemma row_trans:
  "forward r s \<Longrightarrow> forward s t \<Longrightarrow> forward r t"
  "stays_paid x y \<Longrightarrow> stays_paid y z \<Longrightarrow> stays_paid x z"
  by (auto simp: forward_def final_def stays_paid_def)

lemma table_simps [simp]:
  "(\<And>x. R x x) \<Longrightarrow> grown R xs xs" "(\<And>x. R x x) \<Longrightarrow> grown R xs (xs @ new)"
  "(\<And>x. R x x) \<Longrightarrow> evolved key n R xs xs" "(\<And>x. R x x) \<Longrightarrow> n \<le> key x \<Longrightarrow> evolved key n R xs (xs @ [x])"
  "(\<And>x. R x x) \<Longrightarrow> evolved key n R xs (filter P xs)"
  by (simp_all add: grown_refl grown_append evolved_refl evolved_append evolved_filter)

lemma follows_refl [simp]: "follows db db"
  by (simp add: follows_def)

lemma follows_trans:
  assumes "follows db1 db2" and "follows db2 db3"
  shows "follows db1 db3"
proof -
  have "evolved ul_ID (bd_nextID db1) (=) (bd_ledgers db1) (bd_ledgers db3)"
    by (rule evolved_trans [where ys = "bd_ledgers db2" and m = "bd_nextID db2"]) (use assms in \<open>auto simp: follows_def\<close>)
  moreover have "grown forward (bd_reservations db1) (bd_reservations db3)"
    by (rule grown_trans [where ys = "bd_reservations db2"]) (use assms row_trans in \<open>auto simp: follows_def\<close>)
  moreover have "evolved po_ID (bd_nextID db1) stays_paid (bd_orders db1) (bd_orders db3)"
    by (rule evolved_trans [where ys = "bd_orders db2" and m = "bd_nextID db2"])
      (use assms row_trans in \<open>auto simp: follows_def stays_paid_def\<close>)
  ultimately show ?thesis using assms by (auto simp: follows_def)
qed

lemma stmt_follows: "db_stmt now db db' \<Longrightarrow> books now db \<Longrightarrow> follows db db'"
proof (induction rule: db_stmt.induct)
  case (order_credited a db b order externalPaymentID paidAt refType refNo description)
  then show ?case by (auto simp: follows_def row_ops stays_paid_def intro!: evolved_map)
next
  case (order_paid order db externalPaymentID paidAt)
  then show ?case by (auto simp: follows_def row_ops stays_paid_def intro!: evolved_map)
next
  case (orders_attached db f)
  then have "\<And>r. r \<in> set (bd_orders db) \<Longrightarrow> stays_paid r (f r)" by (fastforce simp: stays_paid_def)
  then show ?case by (simp add: follows_def evolved_map)
next
  case (reservations_moved db f)
  then show ?case by (simp add: follows_def grown_map)
next
  case (reservation_settled r db u at)
  then have "\<not> final x" if "x \<in> set (bd_reservations db)" "rs_ID x = rs_ID r" for x
    using ids_below_inj [of rs_ID "bd_nextID db" "bd_reservations db" x r] that by (auto simp: books_def tables_ok_def)
  then show ?case
    by (auto simp: follows_def row_ops forward_def settled_row_def intro!: grown_map)
next
  case (weekly_settled r db u q charge at)
  then have "\<not> final x" if "x \<in> set (bd_reservations db)" "rs_ID x = rs_ID r" for x
    using ids_below_inj [of rs_ID "bd_nextID db" "bd_reservations db" x r] that by (auto simp: books_def tables_ok_def)
  then show ?case
    by (auto simp: follows_def row_ops forward_def weekly_settled_row_def intro!: grown_map)
next
  case (cycles_moved db db')
  then show ?case using stmt_grows [OF db_stmt.cycles_moved [OF cycles_moved(1-3)]] by (simp add: follows_def only_cyclesD)
qed (simp_all add: follows_def row_ops)

lemma stmts_follow: "stmts now db db' \<Longrightarrow> books now db \<Longrightarrow> follows db db'"
proof (induction rule: rtranclp_induct)
  case (step db1 db2)
  then show ?case using stmt_follows stmts_keep_books follows_trans by blast
qed simp

lemma history_follows: "billing_history snapshot_of with_snapshot t0 db0 t db \<Longrightarrow> books t0 db0 \<Longrightarrow> follows db0 db"
proof (induction rule: billing_history.induct)
  case (history_next t db t' db')
  then have "books t' db" using history_books books_later by blast
  then show ?case using history_next step_is_stmts stmts_follow follows_trans by blast
qed simp

subsection \<open>The contract\<close>

text \<open>
  An attempt leaves an outcome under its key, the one its result speaks of; the outcome stays; an
  attempt that finds an outcome under its key answers by the outcome and the state alone.
\<close>

locale settles_once =
  fixes later :: "'s \<Rightarrow> 's \<Rightarrow> bool"
    and ready :: "'i \<Rightarrow> 's \<Rightarrow> bool"
    and attempt :: "'i \<Rightarrow> 's \<Rightarrow> 'e + 'r \<times> 's"
    and key :: "'i \<Rightarrow> 'k"
    and settled :: "'k \<Rightarrow> 'o \<Rightarrow> 's \<Rightarrow> bool"
    and speaks_of :: "'r \<Rightarrow> 'o \<Rightarrow> bool"
    and answers :: "'i \<Rightarrow> 'o \<Rightarrow> 's \<Rightarrow> 'e + 'r \<times> 's \<Rightarrow> bool"
  assumes first: "ready i s \<Longrightarrow> attempt i s = Inr (r, s') \<Longrightarrow> \<exists>out. speaks_of r out \<and> settled (key i) out s'"
    and keep: "settled k out s \<Longrightarrow> later s s' \<Longrightarrow> settled k out s'"
    and again: "settled (key i) out s \<Longrightarrow> ready i s \<Longrightarrow> answers i out s (attempt i s)"
begin

lemma retried:
  assumes "ready i s" and "attempt i s = Inr (r, s')" and "later s' s''" and "ready j s''" and "key j = key i"
  shows "\<exists>out. speaks_of r out \<and> settled (key i) out s' \<and> answers j out s'' (attempt j s'')"
proof -
  obtain out where out: "speaks_of r out" "settled (key i) out s'" using first [OF assms(1,2)] by blast
  have "settled (key j) out s''" using keep [OF out(2) assms(3)] assms(5) by simp
  from again [OF this assms(4)] out show ?thesis by blast
qed

end

subsection \<open>Settlements of usage\<close>

definition find_row :: "nat \<Rightarrow> reservation \<Rightarrow> billing_db \<Rightarrow> reservation option" where
  "find_row u r db = List.find (\<lambda>x. rs_UserID x = u \<and> rs_RefNo x = trim_space (rs_RefNo r)
     \<and> (0 < rs_ID r \<longrightarrow> rs_ID x = rs_ID r)) (bd_reservations db)"

definition own_reservation :: "nat \<Rightarrow> reservation \<Rightarrow> bool" where
  "own_reservation u r \<longleftrightarrow> u \<noteq> 0 \<and> \<not> (rs_UserID r \<noteq> 0 \<and> rs_UserID r \<noteq> u) \<and> trim_space (rs_RefNo r) \<noteq> []"

lemma for_settlement_iff:
  "usage_reservation_for_settlement u (Some r) db = Inr (row, over) \<longleftrightarrow>
     own_reservation u r \<and> (\<exists>item. row = Some item \<and> find_row u r db = Some item \<and> rs_Status item \<noteq> Released
       \<and> (over \<longleftrightarrow> rs_Status item = Settled) \<and> (over \<longrightarrow> rs_UsageLedgerID item \<noteq> 0))"
  by (auto simp: usage_reservation_for_settlement_def own_reservation_def find_row_def
      split: option.splits reservation_status.splits if_splits)

lemma find_row_follows:
  assumes "find_row u r db = Some item" and "follows db db'"
  shows "\<exists>item'. find_row u r db' = Some item' \<and> forward item item'"
proof -
  have "grown forward (bd_reservations db) (bd_reservations db')" using assms(2) by (simp add: follows_def)
  then show ?thesis
    using assms(1) unfolding find_row_def by (rule grown_find) (auto simp: forward_def)
qed

text \<open>The ledger rows later databases have under an old id are the old ones.\<close>

lemma old_ledger:
  assumes "follows db db'" and "l \<in> set (bd_ledgers db')" and "ul_ID l < bd_nextID db"
  shows "l \<in> set (bd_ledgers db)"
proof -
  obtain f keep new where "bd_ledgers db' = map f (filter keep (bd_ledgers db)) @ new"
    "\<forall>x\<in>set (bd_ledgers db). x = f x" "\<forall>x\<in>set new. bd_nextID db \<le> ul_ID x"
    using assms(1) unfolding follows_def evolved_def by blast
  then show ?thesis using assms(2,3) by auto
qed

text \<open>What a settlement leaves: the settled reservation, whose ledger row is the user's while it is there.\<close>

definition settled_as :: "(reservation \<Rightarrow> bool) \<Rightarrow> nat \<times> reservation \<Rightarrow> reservation \<Rightarrow> billing_db \<Rightarrow> bool" where
  "settled_as P k item db \<longleftrightarrow>
     (case k of (u, r) \<Rightarrow> own_reservation u r \<and> find_row u r db = Some item \<and> P item \<and> rs_Status item = Settled
        \<and> 0 < rs_UsageLedgerID item \<and> rs_UsageLedgerID item < bd_nextID db
        \<and> (\<forall>l\<in>set (bd_ledgers db). ul_ID l = rs_UsageLedgerID item \<longrightarrow> ul_UserID l = u))"

lemma settled_as_keep:
  assumes "settled_as P k item db" and "follows db db'"
  shows "settled_as P k item db'"
proof -
  obtain u r where k: "k = (u, r)" and item: "find_row u r db = Some item" "rs_Status item = Settled"
    and old: "rs_UsageLedgerID item < bd_nextID db"
    using assms(1) by (cases k) (auto simp: settled_as_def)
  have "find_row u r db' = Some item"
    using find_row_follows [OF item(1) assms(2)] item(2) by (auto simp: forward_def final_def)
  moreover have "rs_UsageLedgerID item < bd_nextID db'" using old assms(2) by (simp add: follows_def)
  moreover have "l \<in> set (bd_ledgers db)" if "l \<in> set (bd_ledgers db')" "ul_ID l = rs_UsageLedgerID item" for l
    using old_ledger [OF assms(2) that(1)] that(2) old by simp
  ultimately show ?thesis using assms(1) k by (auto simp: settled_as_def)
qed

definition sound :: "gotime \<Rightarrow> billing_db \<Rightarrow> bool" where
  "sound now db \<longleftrightarrow> books now db \<and> weeks_ok db"

lemma settled_as_now:
  assumes "sound now db" and "own_reservation u r" and "find_row u r db = Some item" and "P item" and "rs_Status item = Settled"
  shows "settled_as P (u, r) item db"
proof -
  have "item \<in> set (bd_reservations db)" "rs_UserID item = u"
    using assms(3) by (auto simp: find_row_def find_Some_iff)
  then show ?thesis using assms
    by (auto simp: sound_def books_def tables_ok_def vals_below_def weeks_ok_def settlement_ok_def settled_as_def)
qed

lemma stmts_keep_sound: "stmts now db db' \<Longrightarrow> sound now db \<Longrightarrow> sound now db'"
proof (induction rule: rtranclp_induct)
  case (step db1 db2)
  then show ?case using stmt_keeps_books stmt_keeps_weeks_ok by (auto simp: sound_def)
qed simp

lemma reachable_sound:
  assumes "reachable snapshot_of with_snapshot t db"
  shows "sound t db"
proof -
  have "weeks_ok db"
  proof (rule reachable_invariant [OF assms])
    show "weeks_ok empty_db" by (simp add: weeks_ok_def empty_db_def)
  qed (rule stmt_keeps_weeks_ok)
  then show ?thesis using reachable_books [OF assms] by (simp add: sound_def)
qed

text \<open>What a first settlement leaves: the row it settled is found again, and it is final.\<close>

lemma settled_as_first:
  assumes "stmts now db db'" and "sound now db" and "own_reservation u r" and "find_row u r db = Some item" and "P item"
    and final: "\<And>x. x \<in> set (bd_reservations db') \<Longrightarrow> rs_ID x = rs_ID item \<Longrightarrow> rs_Status x = Settled"
    and P: "\<And>x. forward item x \<Longrightarrow> P x"
  shows "\<exists>item. settled_as P (u, r) item db'"
proof -
  have ok: "sound now db'" by (rule stmts_keep_sound [OF assms(1,2)])
  have "follows db db'" using assms(1,2) stmts_follow by (simp add: sound_def)
  then obtain x where x: "find_row u r db' = Some x" "forward item x" using find_row_follows assms(4) by blast
  have "x \<in> set (bd_reservations db')" using x(1) by (auto simp: find_row_def find_Some_iff)
  then have "rs_Status x = Settled" using x(2) by (intro final) (simp_all add: forward_def)
  then show ?thesis using settled_as_now [where P = P, OF ok assms(3) x(1) P [OF x(2)]] by blast
qed

lemma settled_rows_final:
  "x \<in> set (bd_reservations (settle_usage_reservation (Some item) l t db)) \<Longrightarrow> rs_ID x = rs_ID item \<Longrightarrow> rs_Status x = Settled"
  by (auto simp: settle_usage_reservation_def update_reservation_def split: if_splits)

text \<open>
  A retry against the balance opens the user's account again when the account was deleted
  meanwhile, hands out the ledger row, and does not find it when it was cleaned up.
\<close>

definition with_account :: "nat \<Rightarrow> billing_db \<Rightarrow> billing_db" where
  "with_account u db =
     (if find_account u db = None
      then db\<lparr>bd_accounts := bd_accounts db @ [new_account (bd_nextID db) u], bd_nextID := bd_nextID db + 1\<rparr> else db)"

definition replayed :: "nat \<Rightarrow> reservation \<Rightarrow> billing_db \<Rightarrow> (usage_ledger \<times> billing_db) tx" where
  "replayed u item db =
     (case List.find (\<lambda>x. ul_ID x = rs_UsageLedgerID item) (bd_ledgers db) of
        None \<Rightarrow> Inl ErrNotFound | Some l \<Rightarrow> Inr (l, with_account u db))"

lemma settled_as_found:
  assumes "settled_as P (u, r) item db"
  obtains a where "get_or_create_billing_account u db = Inr (a, with_account u db)"
    and "usage_reservation_for_settlement u (Some r) (with_account u db) = Inr (Some item, True)" and "P item"
    and "restore_settled_usage_ledger (rs_UsageLedgerID item) (with_account u db)
      = (case List.find (\<lambda>x. ul_ID x = rs_UsageLedgerID item) (bd_ledgers db) of None \<Rightarrow> Inl ErrNotFound | Some l \<Rightarrow> Inr l)"
proof -
  have item: "own_reservation u r" "find_row u r db = Some item" "P item" "rs_Status item = Settled" "0 < rs_UsageLedgerID item"
    using assms by (simp_all add: settled_as_def)
  have "u \<noteq> 0" using item(1) by (simp add: own_reservation_def)
  then obtain a where "get_or_create_billing_account u db = Inr (a, with_account u db)"
    by (cases "find_account u db") (simp_all add: get_or_create_billing_account_def with_account_def Let_def)
  moreover have "usage_reservation_for_settlement u (Some r) (with_account u db) = Inr (Some item, True)"
    unfolding for_settlement_iff using item by (simp add: find_row_def with_account_def)
  ultimately show ?thesis using item
    by (intro that [of a]) (simp_all add: restore_settled_usage_ledger_def with_account_def split: option.split)
qed

lemma account_got_again:
  assumes "get_or_create_billing_account u db = Inr (a, db1)"
  shows "get_or_create_billing_account u db1 = Inr (a, db1)"
  using account_got(4) [OF assms] account_got(5) [OF assms] by (simp add: get_or_create_billing_account_def)

text \<open>Both settlements against the balance: the row is found, then it is settled, now or before.\<close>

lemma settled_row_first:
  assumes "stmts now db db'" and "sound now db"
    and "usage_reservation_for_settlement u (Some r) db = Inr (Some item, over)" and "P item"
    and P: "\<And>x. forward item x \<Longrightarrow> P x"
    and "\<not> over \<Longrightarrow> \<exists>l t db3. db' = settle_usage_reservation (Some item) l t db3" and "over \<Longrightarrow> db' = db"
  shows "\<exists>item. settled_as P (u, r) item db'"
proof -
  have item: "own_reservation u r" "find_row u r db = Some item" "over \<longleftrightarrow> rs_Status item = Settled"
    using assms(3) by (auto simp: for_settlement_iff)
  show ?thesis
  proof (cases over)
    case True
    then show ?thesis using settled_as_now [of now db u r item P] item assms(2,4,7) by blast
  next
    case False
    obtain l t db3 where db': "db' = settle_usage_reservation (Some item) l t db3" using assms(6) [OF False] by blast
    show ?thesis
      by (rule settled_as_first [where item = item and P = P, OF assms(1,2) item(1,2) assms(4)])
        (simp_all only: db' settled_rows_final P)
  qed
qed

abbreviation "usage_row \<equiv> (\<lambda>x. rs_Mode x = ''usage'')"

lemma balance_settled:
  assumes run: "add_usage_and_settle_balance usage (Some r) now db = Inr (u', db')" and ok: "sound now db"
  shows "\<exists>item. settled_as usage_row (ul_UserID usage, r) item db'"
proof -
  obtain a db1 where acc: "get_or_create_billing_account (ul_UserID usage) db = Inr (a, db1)"
    using run by (auto simp: add_usage_and_settle_balance_def split: sum.splits)
  note acc1 = account_got_again [OF acc]
  have ok1: "sound now db1" by (rule stmts_keep_sound [OF account_got(1) [OF acc] ok])
  have run1: "add_usage_and_settle_balance usage (Some r) now db1 = Inr (u', db')"
    using run unfolding add_usage_and_settle_balance_def acc acc1 by simp
  obtain row over where res: "usage_reservation_for_settlement (ul_UserID usage) (Some r) db1 = Inr (row, over)"
    using run1 acc1 by (auto simp: add_usage_and_settle_balance_def split: sum.splits)
  obtain item where item: "row = Some item" using res unfolding for_settlement_iff by blast
  note run2 = run1 [unfolded add_usage_and_settle_balance_def acc1 res item sum.case prod.case option.case]
  have mode: "rs_Mode item = ''usage''" using run2 unfolding guarded_result by simp
  show ?thesis
  proof (rule settled_row_first [OF _ ok1 res [unfolded item], where P = usage_row])
    show "stmts now db1 db'" using settle_balance_stmts [OF run1] ok1 by (simp add: sound_def books_def)
    show "\<exists>l t db3. db' = settle_usage_reservation (Some item) l t db3" if "\<not> over"
      using run2 mode that by (auto simp: Let_def split: prod.splits sum.splits)
    show "db' = db1" if "over" using run2 mode that by (auto split: sum.splits)
  qed (simp_all add: mode forward_def)
qed

lemma balance_settled_again:
  assumes "settled_as usage_row (ul_UserID usage, r) item db"
  shows "add_usage_and_settle_balance usage (Some r) now db = replayed (ul_UserID usage) item db"
  using assms by (rule settled_as_found) (simp add: add_usage_and_settle_balance_def replayed_def split: option.split)

abbreviation "period_row s e c \<equiv> (\<lambda>x. matches_period_reservation x s e c)"

definition period_args :: "usage_ledger \<Rightarrow> gotime \<Rightarrow> gotime \<Rightarrow> int \<Rightarrow> bool" where
  "period_args usage s e c \<longleftrightarrow> \<not> (ul_UserID usage = 0 \<or> is_zero s \<or> \<not> after e s \<or> c < 0)"

lemma period_settled_once:
  assumes run: "add_period_usage_and_settle_overage with_snapshot usage s e c (Some r) now db = Inr (u', db')" and ok: "sound now db"
  shows "\<exists>item. settled_as (period_row s e c) (ul_UserID usage, r) item db'"
proof -
  have valid: "\<not> (ul_UserID usage = 0 \<or> is_zero s \<or> \<not> after e s \<or> c < 0)"
    using run by (auto simp: add_period_usage_and_settle_overage_def split: if_splits)
  obtain a db1 where acc: "get_or_create_billing_account (ul_UserID usage) db = Inr (a, db1)"
    using run by (auto simp: add_period_usage_and_settle_overage_def split: if_splits sum.splits)
  note acc1 = account_got_again [OF acc]
  have ok1: "sound now db1" by (rule stmts_keep_sound [OF account_got(1) [OF acc] ok])
  have run1: "add_period_usage_and_settle_overage with_snapshot usage s e c (Some r) now db1 = Inr (u', db')"
    using run unfolding add_period_usage_and_settle_overage_def acc acc1 by simp
  note run0 = run1 [unfolded add_period_usage_and_settle_overage_def if_not_P [OF valid] acc1 sum.case prod.case]
  obtain row over where res: "usage_reservation_for_settlement (ul_UserID usage) (Some r) db1 = Inr (row, over)"
    using run0 by (cases "usage_reservation_for_settlement (ul_UserID usage) (Some r) db1") auto
  obtain item where item: "row = Some item" using res unfolding for_settlement_iff by blast
  note run2 = run0 [unfolded res item sum.case prod.case option.case]
  have mode: "\<not> \<not> matches_period_reservation item s e c" using run2 unfolding guarded_result by blast
  note run3 = run2 [unfolded if_not_P [OF mode]]
  show ?thesis
  proof (rule settled_row_first [OF _ ok1 res [unfolded item], where P = "period_row s e c"])
    show "stmts now db1 db'" using settle_period_stmts [OF run1] ok1 by (simp add: sound_def books_def)
    show "\<exists>l t db3. db' = settle_usage_reservation (Some item) l t db3" if "\<not> over"
      using run3 that by (auto simp: Let_def split: prod.splits sum.splits)
    show "db' = db1" if "over" using run3 that by (auto split: sum.splits)
    show "matches_period_reservation item s e c" using mode by simp
    then show "\<And>x. forward item x \<Longrightarrow> matches_period_reservation x s e c"
      by (simp add: forward_def matches_period_reservation_def)
  qed
qed

lemma period_settled_again:
  assumes "settled_as (period_row s e c) (ul_UserID usage, r) item db" and "period_args usage s e c"
  shows "add_period_usage_and_settle_overage with_snapshot usage s e c (Some r) now db = replayed (ul_UserID usage) item db"
  using assms(1)
  by (rule settled_as_found)
    (use assms(2) in \<open>simp add: add_period_usage_and_settle_overage_def period_args_def replayed_def split: option.split\<close>)

abbreviation "weekly_row \<equiv> (\<lambda>x. rs_Mode x = ''weekly'')"

definition weekly_args :: "usage_ledger \<Rightarrow> gotime \<Rightarrow> bool" where
  "weekly_args usage now \<longleftrightarrow> \<not> (ul_UserID usage = 0 \<or> is_zero (ul_BillingAt usage) \<or> is_zero (ul_UsageDate usage))
     \<and> ul_BillingAt usage \<le> now"

lemma sync_rows:
  assumes "sync_weekly_quota_reserved c u t db = Inr db'"
  shows "bd_reservations db' = bd_reservations db"
proof -
  obtain q db1 x where acc: "get_or_create_weekly_quota_account c u db = Inr (q, db1)"
    and db': "db' = update_quota_account (qa_ID q) (qa_ReservedNanousd_update (\<lambda>_. x)) db1"
    using assms by (auto simp: sync_weekly_quota_reserved_def split: sum.splits)
  show ?thesis using quota_account_got(5) [OF acc] by (auto simp: db' update_quota_account_def)
qed

lemma weekly_tx_rows:
  assumes run: "settle_weekly_tx with_snapshot usage charge r now db = Inr (snapshot, db')"
    and x: "x \<in> set (bd_reservations db')" "rs_ID x = rs_ID r"
  shows "rs_Status x = Settled"
proof -
  obtain db4 db5 l c u where settle: "settle_weekly_usage_reservation r l charge c now db4 = Inr db5"
    and sync: "sync_weekly_quota_reserved u (ul_UserID usage) now db5 = Inr db'"
    using run by (auto simp: settle_weekly_tx_def Let_def split: if_splits sum.splits prod.splits)
  have "bd_reservations db' = bd_reservations (update_reservation (rs_ID r) (weekly_settled_row l charge c now) db4)"
    using sync_rows [OF sync] settle by (simp add: settle_weekly_usage_reservation_def split: if_splits)
  then show ?thesis using x by (auto simp: update_reservation_def split: if_splits)
qed

lemma weekly_settled_once:
  assumes run: "add_weekly_usage_and_settle_quota with_snapshot usage (Some r) now db = Inr (u', db')" and ok: "sound now db"
    and args: "weekly_args usage now"
  shows "\<exists>item. settled_as weekly_row (ul_UserID usage, r) item db'"
proof -
  have valid: "\<not> (ul_UserID usage = 0 \<or> is_zero (ul_BillingAt usage) \<or> is_zero (ul_UsageDate usage))"
    using args by (simp add: weekly_args_def)
  note run0 = run [unfolded add_weekly_usage_and_settle_quota_def if_not_P [OF valid] Let_def weekly_usage_simps]
  obtain row over where res: "usage_reservation_for_settlement (ul_UserID usage) (Some r) db = Inr (row, over)"
    using run0 by (cases "usage_reservation_for_settlement (ul_UserID usage) (Some r) db") auto
  obtain item where item: "row = Some item" "own_reservation (ul_UserID usage) r" "find_row (ul_UserID usage) r db = Some item"
      "over \<longleftrightarrow> rs_Status item = Settled"
    using res unfolding for_settlement_iff by blast
  note run1 = run0 [unfolded res item(1) sum.case prod.case option.case]
  have mode: "\<not> rs_Mode item \<noteq> ''weekly''" using run1 unfolding guarded_result by blast
  note run2 = run1 [unfolded if_not_P [OF mode]]
  show ?thesis
  proof (cases over)
    case True
    then have "db' = db" using run2 by (auto split: sum.splits if_splits)
    then show ?thesis using settled_as_now [of now db _ r item weekly_row] item mode True ok by blast
  next
    case False
    then obtain charge snapshot where
      tx: "settle_weekly_tx with_snapshot (weekly_usage usage) charge item now db = Inr (snapshot, db')"
      using run2 by (auto split: sum.splits)
    have "stmts now db db'" using settle_weekly_stmts [OF run] ok args by (simp add: sound_def weekly_args_def)
    from settled_as_first [where item = item and P = weekly_row, OF this ok item(2,3)] mode weekly_tx_rows [OF tx]
    show ?thesis by (simp add: forward_def)
  qed
qed

text \<open>A retry on the weekly quota answers with what was settled even when the ledger row was cleaned up.\<close>

definition weekly_replayed :: "usage_ledger \<Rightarrow> reservation \<Rightarrow> billing_db \<Rightarrow> (usage_ledger \<times> billing_db) tx" where
  "weekly_replayed usage item db =
     (case List.find (\<lambda>x. ul_ID x = rs_UsageLedgerID item) (bd_ledgers db) of
        Some l \<Rightarrow> Inr (l, db)
      | None \<Rightarrow> Inr ((weekly_usage usage)\<lparr>ul_BilledNanousd := rs_SettledNanousd item, ul_BalanceAfterNanousd := None\<rparr>, db))"

lemma weekly_settled_again:
  assumes "settled_as weekly_row (ul_UserID usage, r) item db" and "weekly_args usage now"
  shows "add_weekly_usage_and_settle_quota with_snapshot usage (Some r) now db = weekly_replayed usage item db"
proof -
  have item: "own_reservation (ul_UserID usage) r" "find_row (ul_UserID usage) r db = Some item" "rs_Mode item = ''weekly''"
      "rs_Status item = Settled" "0 < rs_UsageLedgerID item"
    using assms(1) by (simp_all add: settled_as_def)
  then have "usage_reservation_for_settlement (ul_UserID usage) (Some r) db = Inr (Some item, True)"
    unfolding for_settlement_iff by simp
  then show ?thesis
    using assms(2) item
    by (simp add: add_weekly_usage_and_settle_quota_def weekly_args_def Let_def restore_settled_usage_ledger_def weekly_replayed_def
        split: option.split)
qed

subsection \<open>The instances\<close>

interpretation balance_once: settles_once follows "\<lambda>(now, usage, r) db. sound now db"
  "\<lambda>(now, usage, r). add_usage_and_settle_balance usage (Some r) now" "\<lambda>(now, usage, r). (ul_UserID usage, r)"
  "settled_as usage_row" "\<lambda>_ _. True" "\<lambda>(now, usage, r) item db result. result = replayed (ul_UserID usage) item db"
proof unfold_locales
  fix k out s s' assume "settled_as usage_row k out s" "follows s s'"
  then show "settled_as usage_row k out s'" by (rule settled_as_keep)
qed (auto intro: balance_settled simp: balance_settled_again)

interpretation period_once: settles_once follows "\<lambda>(now, usage, r, s, e, c) db. sound now db \<and> period_args usage s e c"
  "\<lambda>(now, usage, r, s, e, c). add_period_usage_and_settle_overage with_snapshot usage s e c (Some r) now"
  "\<lambda>(now, usage, r, s, e, c). ((ul_UserID usage, r), s, e, c)" "\<lambda>(k, s, e, c). settled_as (period_row s e c) k" "\<lambda>_ _. True"
  "\<lambda>(now, usage, r, s, e, c) item db result. result = replayed (ul_UserID usage) item db"
  for with_snapshot
proof unfold_locales
  fix k out s s' assume "(case k of (k, s, e, c) \<Rightarrow> settled_as (period_row s e c) k) out s" "follows s s'"
  then show "(case k of (k, s, e, c) \<Rightarrow> settled_as (period_row s e c) k) out s'"
    by (auto split: prod.splits intro: settled_as_keep)
qed (auto intro: period_settled_once simp: period_settled_again)

interpretation week_once: settles_once follows "\<lambda>(now, usage, r) db. sound now db \<and> weekly_args usage now"
  "\<lambda>(now, usage, r). add_weekly_usage_and_settle_quota with_snapshot usage (Some r) now" "\<lambda>(now, usage, r). (ul_UserID usage, r)"
  "settled_as weekly_row" "\<lambda>_ _. True" "\<lambda>(now, usage, r) item db result. result = weekly_replayed usage item db"
  for with_snapshot
proof unfold_locales
  fix k out s s' assume "settled_as weekly_row k out s" "follows s s'"
  then show "settled_as weekly_row k out s'" by (rule settled_as_keep)
qed (auto intro: weekly_settled_once simp: weekly_settled_again)

subsection \<open>Completion of orders\<close>

lemma find_map_key: "(\<And>x. P (f x) = P x) \<Longrightarrow> List.find P (map f xs) = map_option f (List.find P xs)"
  by (induction xs) auto

lemma find_order_updated:
  "find_order no (update_order i (paid_order e t) db)
    = map_option (\<lambda>r. if po_ID r = i then paid_order e t r else r) (find_order no db)"
  unfolding find_order_def update_order_def by (simp add: find_map_key)

text \<open>The order is paid for as long as its row is there, and it is the row its number finds.\<close>

definition order_done :: "string \<Rightarrow> nat \<Rightarrow> billing_db \<Rightarrow> bool" where
  "order_done no i db \<longleftrightarrow> i < bd_nextID db
     \<and> (\<forall>r\<in>set (bd_orders db). po_ID r = i \<longrightarrow> po_Status r = ''paid'' \<and> find_order no db = Some r)"

lemma order_done_keep:
  assumes "order_done no i db" and "follows db db'"
  shows "order_done no i db'"
proof -
  obtain f keep new where rows: "bd_orders db' = map f (filter keep (bd_orders db)) @ new"
      "\<forall>x\<in>set (bd_orders db). stays_paid x (f x)" "\<forall>x\<in>set new. bd_nextID db \<le> po_ID x"
    using assms(2) unfolding follows_def evolved_def by blast
  have "po_Status r = ''paid'' \<and> find_order no db' = Some r" if r: "r \<in> set (bd_orders db')" "po_ID r = i" for r
  proof -
    have "r \<notin> set new" using rows(3) r(2) assms(1) by (fastforce simp: order_done_def)
    then obtain x where x: "x \<in> set (bd_orders db)" "keep x" "r = f x" using r(1) rows(1) by auto
    have "stays_paid x (f x)" using rows(2) x(1) by blast
    moreover from this have "po_Status x = ''paid''" "find_order no db = Some x"
      using assms(1) x r(2) by (auto simp: order_done_def stays_paid_def)
    moreover from this have "find_order no db' = Some (f x)"
      unfolding find_order_def rows(1) by (intro find_mapped) (use x rows(2) in \<open>auto simp: stays_paid_def\<close>)
    ultimately show ?thesis using x(3) by (simp add: stays_paid_def)
  qed
  then show ?thesis using assms by (auto simp: order_done_def follows_def)
qed

text \<open>A completion that succeeds hands out the order's row, found under its number and paid.\<close>

definition completed :: "string \<Rightarrow> payment_order \<Rightarrow> billing_db \<Rightarrow> billing_db \<Rightarrow> bool" where
  "completed no r db db' \<longleftrightarrow> find_order no db' = Some r \<and> po_Status r = ''paid'' \<and> po_ID r \<in> po_ID ` set (bd_orders db)"

lemma completed_before: "find_order no db = Some r \<Longrightarrow> po_Status r = ''paid'' \<Longrightarrow> completed no r db db"
  by (auto simp: completed_def find_order_def find_Some_iff)

lemma completed_now:
  assumes "find_order no db = Some order" and "find_order no db3 = Some order"
    and "find_order no (update_order (po_ID order) (paid_order e t) db3) = Some r"
  shows "completed no r db (update_order (po_ID order) (paid_order e t) db3)"
  using assms by (auto simp: completed_def find_order_updated dest!: find_order_in)

lemma credited_is_paid:
  assumes run: "mark_payment_order_paid_and_credit_balance clock orderNo ext paidAt db = Inr (r, activated, db')"
  shows "completed (trim_space orderNo) r db db'"
proof -
  define no where "no = trim_space orderNo"
  obtain order where find: "find_order no db = Some order"
    using run by (auto simp: no_def mark_payment_order_paid_and_credit_balance_def Let_def split: if_splits option.splits)
  note run1 = run [unfolded mark_payment_order_paid_and_credit_balance_def Let_def, folded no_def, unfolded find option.case]
  show ?thesis
  proof (cases "po_Status order = ''paid''")
    case True
    then have "db' = db" "r = order" using run1 by (auto split: if_splits)
    then show ?thesis using completed_before find True by (simp add: no_def)
  next
    case False
    then obtain a db1 db3 e t where acc: "get_or_create_billing_account (po_UserID order) db = Inr (a, db1)"
      and db': "db' = update_order (po_ID order) (paid_order e t) db3" and same: "bd_orders db3 = bd_orders db1"
      and r: "find_order no db' = Some r"
      using run1 by (auto simp: update_account_def post_transaction_def Let_def split: if_splits sum.splits option.splits)
    have "find_order no db3 = Some order" using find account_got(6) [OF acc] same by (auto simp: find_order_def)
    then show ?thesis using completed_now find r by (simp add: db' no_def)
  qed
qed

lemma granted_is_paid:
  assumes run: "mark_payment_order_paid_and_grant_subscription clock orderNo ext paidAt sub db = Inr (r, activated, db')"
  shows "completed (trim_space orderNo) r db db'"
proof -
  define no where "no = trim_space orderNo"
  obtain order where find: "find_order no db = Some order"
    using run by (auto simp: no_def mark_payment_order_paid_and_grant_subscription_def Let_def split: if_splits option.splits)
  note run1 = run [unfolded mark_payment_order_paid_and_grant_subscription_def Let_def, folded no_def, unfolded find option.case]
  show ?thesis
  proof (cases "po_Status order = ''paid''")
    case True
    then have "db' = db" "r = order" using run1 by (auto split: if_splits)
    then show ?thesis using completed_before find True by (simp add: no_def)
  next
    case False
    then obtain g s db1 e t where grant: "grant_on_db clock g db = Inr (s, db1)"
      and db': "db' = update_order (po_ID order) (paid_order e t) db1" and r: "find_order no db' = Some r"
      using run1 by (auto split: if_splits sum.splits option.splits)
    have "find_order no db1 = Some order" using find grant_on_db_frame(1) [OF grant] by (auto simp: find_order_def)
    then show ?thesis using completed_now find r by (simp add: db' no_def)
  qed
qed

lemma completed_is_paid:
  assumes "complete_payment_order clock orderNo ext paidAt db = Inr (r, activated, db')"
  shows "completed (trim_space orderNo) r db db'"
  using assms credited_is_paid granted_is_paid
  by (auto simp: complete_payment_order_def get_payment_order_by_order_no_def Let_def
      split: option.splits sum.splits if_splits intro: completed_before)

lemma completed_done:
  assumes "completed no r db db'" and "tables_ok db'"
  shows "order_done no (po_ID r) db'"
proof -
  have ids: "ids_below po_ID (bd_nextID db') (bd_orders db')" using assms(2) by (simp add: tables_ok_def)
  have r: "r \<in> set (bd_orders db')" "find_order no db' = Some r" "po_Status r = ''paid''"
    using assms(1) find_order_in by (auto simp: completed_def)
  show ?thesis using ids_below_inj [OF ids _ r(1)] ids_below_less [OF ids r(1)] r by (auto simp: order_done_def)
qed

lemma completed_stmts:
  assumes "complete_payment_order clock orderNo ext paidAt db = Inr (r, activated, db')"
  shows "stmts now db db'"
  using assms mark_paid_and_credit_stmts mark_paid_and_grant_stmts
  by (auto simp: complete_payment_order_def Let_def split: sum.splits if_splits)

definition completion :: "gotime \<times> string \<times> string \<times> gotime \<Rightarrow> billing_db \<Rightarrow> repo_err + (payment_order \<times> bool) \<times> billing_db" where
  "completion i db =
     (case i of (clock, orderNo, ext, paidAt) \<Rightarrow>
        (case complete_payment_order clock orderNo ext paidAt db of Inl e \<Rightarrow> Inl e | Inr (r, activated, db') \<Rightarrow> Inr ((r, activated), db')))"

text \<open>
  What a completion of an order that was completed answers: the row, not activated, while the row
  is there; when it was cleaned up, at most the row of another order.
\<close>

definition completes_again :: "nat \<Rightarrow> billing_db \<Rightarrow> repo_err + (payment_order \<times> bool) \<times> billing_db \<Rightarrow> bool" where
  "completes_again i db result \<longleftrightarrow>
     (\<forall>r\<in>set (bd_orders db). po_ID r = i \<longrightarrow> result = Inr ((r, False), db) \<and> po_Status r = ''paid'')
     \<and> (i \<notin> po_ID ` set (bd_orders db) \<longrightarrow> (case result of Inl e \<Rightarrow> True | Inr ((r, activated), db') \<Rightarrow> po_ID r \<noteq> i))"

lemma completed_again:
  assumes "order_done (trim_space orderNo) i db"
  shows "completes_again i db (completion (clock, orderNo, ext, paidAt) db)"
proof -
  let ?run = "complete_payment_order clock orderNo ext paidAt db"
  have "completion (clock, orderNo, ext, paidAt) db = Inr ((r, False), db) \<and> po_Status r = ''paid''"
    if "r \<in> set (bd_orders db)" "po_ID r = i" for r
  proof -
    have "po_Status r = ''paid''" "find_order (trim_space orderNo) db = Some r"
      using assms that by (simp_all add: order_done_def)
    then show ?thesis by (simp add: completion_def complete_payment_order_def get_payment_order_by_order_no_def)
  qed
  moreover have "case completion (clock, orderNo, ext, paidAt) db of Inl e \<Rightarrow> True | Inr ((r, activated), db') \<Rightarrow> po_ID r \<noteq> i"
    if gone: "i \<notin> po_ID ` set (bd_orders db)"
  proof (cases ?run)
    case (Inr x)
    obtain r activated db' where x: "x = (r, activated, db')" by (cases x)
    have "po_ID r \<in> po_ID ` set (bd_orders db)" using completed_is_paid [OF Inr [unfolded x]] by (simp add: completed_def)
    then have "po_ID r \<noteq> i" using gone by metis
    then show ?thesis by (simp add: completion_def Inr x)
  qed (simp add: completion_def)
  ultimately show ?thesis unfolding completes_again_def by blast
qed

interpretation order_once: settles_once follows "\<lambda>i. tables_ok" completion
  "\<lambda>(clock :: gotime, orderNo, ext :: string, paidAt :: gotime). trim_space orderNo"
  order_done "\<lambda>(r, activated) i. po_ID r = i" "\<lambda>i. completes_again"
proof unfold_locales
  fix i s r s' assume ok: "tables_ok s" and run: "completion i s = Inr (r, s')"
  obtain clock orderNo ext paidAt where i: "i = (clock, orderNo, ext, paidAt)" by (cases i)
  obtain row activated where r: "r = (row, activated)" by (cases r)
  have run': "complete_payment_order clock orderNo ext paidAt s = Inr (row, activated, s')"
    using run by (auto simp: completion_def i r split: sum.splits)
  have "tables_ok s'" by (rule stmts_keep_tables [OF completed_stmts [OF run', where now = clock] ok])
  from completed_done [OF completed_is_paid [OF run'] this]
  show "\<exists>out. (case r of (r, activated) \<Rightarrow> \<lambda>i. po_ID r = i) out
      \<and> order_done (case i of (clock, orderNo, ext, paidAt) \<Rightarrow> trim_space orderNo) out s'"
    by (simp add: i r)
next
  fix no out s s' assume "order_done no out s" "follows s s'" then show "order_done no out s'" by (rule order_done_keep)
next
  fix i :: "gotime \<times> string \<times> string \<times> gotime" and out s
  assume "order_done (case i of (clock, orderNo, ext, paidAt) \<Rightarrow> trim_space orderNo) out s"
  then show "completes_again out s (completion i s)" by (cases i) (simp add: completed_again)
qed

subsection \<open>A bill is settled once\<close>

lemma history_sound:
  assumes "billing_history snapshot_of with_snapshot t db t' db'" and "sound t db"
  shows "sound t' db'"
proof -
  have "weeks_ok db'"
    by (rule history_invariant [OF assms(1)]) (use assms(2) stmt_keeps_weeks_ok in \<open>auto simp: sound_def\<close>)
  then show ?thesis using history_books [OF assms(1)] assms(2) by (simp add: sound_def)
qed

lemma usage_mode_of: "rs_Mode r \<in> {''usage'', ''weekly'', ''period''}
    \<Longrightarrow> usage_mode settings (Some \<lparr>ua_Mode = rs_Mode r, ua_Reservation = Some r\<rparr>) = rs_Mode r"
  by (auto simp: usage_mode_def trim_space_plain Let_def)

text \<open>Which settlement a bill goes to, by the mode of its reservation.\<close>

lemma recorded_as:
  fixes r defines "authorization \<equiv> Some \<lparr>ua_Mode = rs_Mode r, ua_Reservation = Some r\<rparr>"
  shows "rs_Mode r = ''usage'' \<Longrightarrow> record_usage_with_authorization with_snapshot now settings usage authorization db
      = map_error settle_error (add_usage_and_settle_balance usage (Some r) now db)"
    and "rs_Mode r = ''weekly'' \<Longrightarrow> record_usage_with_authorization with_snapshot now settings usage authorization db
      = map_error weekly_settle_error (add_weekly_usage_and_settle_quota with_snapshot usage (Some r) now db)"
    and "rs_Mode r = ''period'' \<Longrightarrow> weekly_args usage now
      \<Longrightarrow> record_usage_with_authorization with_snapshot now settings usage authorization db
      = (case settlement_period now usage (Some r) db of Inl e \<Rightarrow> Inl e
         | Inr (s, e, c) \<Rightarrow> map_error settle_error (add_period_usage_and_settle_overage with_snapshot usage s e c (Some r) now db))"
  using usage_mode_of [of r settings]
  by (simp_all add: authorization_def record_usage_with_authorization_def weekly_args_def Let_def)

lemma settlement_period_of:
  "rs_Mode r = ''period'' \<Longrightarrow> settlement_period now usage (Some r) db = Inr (s, e, c) \<longleftrightarrow>
     rs_PeriodStartAt r = Some s \<and> rs_PeriodEndAt r = Some e \<and> c = rs_PeriodLimitNanousd r \<and> after e s \<and> 0 \<le> c"
  by (auto simp: settlement_period_def split: option.splits)

lemma map_error_Inr [simp]: "map_error f x = Inr y \<longleftrightarrow> x = Inr y"
  by (cases x) (simp_all add: map_error_def)

text \<open>
  C2: A call is billed once. Suppose the bill of a call was settled under the authorization it was
  admitted with, in the mode of its reservation. Then whatever billing, the cleanup of logs and
  the deletion of accounts do to the database afterwards, settling a bill of that user under the
  same authorization again, with any amounts and under any settings, settles nothing: no second
  ledger row, no second debit, no second count against the week. The reservation stays settled.
  As long as its ledger row is there, it is the row written before the retry and the retry hands
  it out; once the usage logs were cleaned up, a retry on the weekly quota answers with the amount
  that was settled and the other two modes report the row as not found. The one thing a retry
  against the balance may write is an empty account, when the user's was deleted meanwhile.
\<close>

theorem call_is_billed_once:
  assumes "reachable snapshot_of with_snapshot t db" and "authorization = \<lparr>ua_Mode = rs_Mode r, ua_Reservation = Some r\<rparr>"
    and "rs_Mode r \<in> {''usage'', ''weekly'', ''period''}" and "weekly_args usage t"
    and "record_usage_with_authorization with_snapshot t settings usage (Some authorization) db = Inr (billed, db1)"
    and "billing_history snapshot_of with_snapshot t db1 t' db2"
    and "weekly_args usage' t'" and "ul_UserID usage' = ul_UserID usage"
  shows "\<exists>item\<in>set (bd_reservations db1). rs_UserID item = ul_UserID usage \<and> rs_RefNo item = trim_space (rs_RefNo r)
    \<and> rs_Status item = Settled
    \<and> record_usage_with_authorization with_snapshot t' settings' usage' (Some authorization) db2
      = (case List.find (\<lambda>l. ul_ID l = rs_UsageLedgerID item) (bd_ledgers db2) of
           Some l \<Rightarrow> Inr (l, if rs_Mode r = ''weekly'' then db2 else with_account (ul_UserID usage) db2)
         | None \<Rightarrow>
             if rs_Mode r = ''weekly''
             then Inr ((weekly_usage usage')\<lparr>ul_BilledNanousd := rs_SettledNanousd item, ul_BalanceAfterNanousd := None\<rparr>, db2)
             else Inl (RepoErr ErrNotFound))
    \<and> (\<forall>l\<in>set (bd_ledgers db2). ul_ID l = rs_UsageLedgerID item \<longrightarrow> l \<in> set (bd_ledgers db1) \<and> ul_UserID l = ul_UserID usage)"
proof -
  have ok: "sound t db" by (rule reachable_sound [OF assms(1)])
  have later: "stmts t db db1 \<Longrightarrow> follows db1 db2 \<and> sound t' db2"
    using stmts_keep_sound [OF _ ok] history_sound [OF assms(6)] history_follows [OF assms(6)] by (auto simp: sound_def)
  have kept: "item \<in> set (bd_reservations db1) \<and> rs_UserID item = ul_UserID usage \<and> rs_RefNo item = trim_space (rs_RefNo r)
      \<and> rs_Status item = Settled
      \<and> (\<forall>l\<in>set (bd_ledgers db2). ul_ID l = rs_UsageLedgerID item \<longrightarrow> l \<in> set (bd_ledgers db1) \<and> ul_UserID l = ul_UserID usage)"
    if "settled_as P (ul_UserID usage, r) item db1" "follows db1 db2" for P item
    using that old_ledger [OF that(2)] by (auto simp: settled_as_def find_row_def find_Some_iff)
  note as = recorded_as [where r = r, folded assms(2)]
  have errors: "map_error settle_error (replayed u item db2)
      = (case List.find (\<lambda>l. ul_ID l = rs_UsageLedgerID item) (bd_ledgers db2) of
           Some l \<Rightarrow> Inr (l, with_account u db2) | None \<Rightarrow> Inl (RepoErr ErrNotFound))" for u item
    by (simp add: replayed_def map_error_def settle_error_def split: option.split)
  consider "rs_Mode r = ''usage''" | "rs_Mode r = ''weekly''" | "rs_Mode r = ''period''" using assms(3) by blast
  then show ?thesis
  proof cases
    case 1
    then have run: "add_usage_and_settle_balance usage (Some r) t db = Inr (billed, db1)" using assms(5) unfolding as(1) [OF 1] by simp
    have "stmts t db db1" using settle_balance_stmts [OF run] ok by (simp add: sound_def books_def)
    from balance_once.retried [of "(t, usage, r)" db billed db1 db2 "(t', usage', r)"] run ok later [OF this] assms(8)
    obtain item where "settled_as usage_row (ul_UserID usage, r) item db1" "follows db1 db2"
      "add_usage_and_settle_balance usage' (Some r) t' db2 = replayed (ul_UserID usage) item db2"
      by auto
    with kept errors show ?thesis unfolding as(1) [OF 1] 1 by (intro bexI [of _ item]) auto
  next
    case 2
    then have run: "add_weekly_usage_and_settle_quota with_snapshot usage (Some r) t db = Inr (billed, db1)" using assms(5) unfolding as(2) [OF 2] by simp
    have "stmts t db db1" using settle_weekly_stmts [OF run] ok assms(4) by (simp add: sound_def weekly_args_def)
    from week_once.retried [of "(t, usage, r)" db with_snapshot billed db1 db2 "(t', usage', r)"] run ok later [OF this] assms(4,7,8)
    obtain item where "settled_as weekly_row (ul_UserID usage, r) item db1" "follows db1 db2"
      "add_weekly_usage_and_settle_quota with_snapshot usage' (Some r) t' db2 = weekly_replayed usage' item db2" by auto
    with kept show ?thesis unfolding as(2) [OF 2] 2
      by (intro bexI [of _ item]) (auto simp: weekly_replayed_def map_error_def split: option.split)
  next
    case 3
    obtain s e c where period: "settlement_period t usage (Some r) db = Inr (s, e, c)"
      and run: "add_period_usage_and_settle_overage with_snapshot usage s e c (Some r) t db = Inr (billed, db1)"
      using assms(5) unfolding as(3) [OF 3 assms(4)] by (auto split: sum.splits)
    have args: "period_args usage s e c"
      using run by (auto simp: add_period_usage_and_settle_overage_def period_args_def split: if_splits)
    have "stmts t db db1" using settle_period_stmts [OF run] ok by (simp add: sound_def books_def)
    from period_once.retried [of "(t, usage, r, s, e, c)" db with_snapshot billed db1 db2 "(t', usage', r, s, e, c)"]
      run ok later [OF this] args assms(8)
    obtain item where "settled_as (period_row s e c) (ul_UserID usage, r) item db1" "follows db1 db2"
      "add_period_usage_and_settle_overage with_snapshot usage' s e c (Some r) t' db2 = replayed (ul_UserID usage) item db2"
      by (auto simp: period_args_def)
    moreover have "settlement_period t' usage' (Some r) db2 = Inr (s, e, c)"
      using period unfolding settlement_period_of [OF 3] .
    ultimately show ?thesis unfolding as(3) [OF 3 assms(7)] 3 using kept errors by (intro bexI [of _ item]) auto
  qed
qed

text \<open>
  C7: An order is activated once. Suppose a completion of an order succeeded. Then whatever billing,
  the cleanup of logs and the deletion of accounts do to the database afterwards, a later
  completion under any spelling of its number that trims to the same, at whatever time and with
  whatever reference of the payment provider, does not activate it again: while the order's row
  is there it is paid, and the completion hands it out as already paid and changes nothing; once
  the row was cleaned up, the completion does not find the number, or finds another order placed
  under it since.
\<close>

theorem order_is_activated_once:
  assumes "reachable snapshot_of with_snapshot t db"
    and "complete_payment_order t orderNo ext paidAt db = Inr (order, activated, db1)"
    and "billing_history snapshot_of with_snapshot t db1 t' db2" and "trim_space orderNo' = trim_space orderNo"
  shows "(\<forall>r\<in>set (bd_orders db2). po_ID r = po_ID order \<longrightarrow>
        po_Status r = ''paid'' \<and> complete_payment_order t' orderNo' ext' paidAt' db2 = Inr (r, False, db2))
    \<and> (po_ID order \<notin> po_ID ` set (bd_orders db2) \<longrightarrow>
        (case complete_payment_order t' orderNo' ext' paidAt' db2 of
           Inl e \<Rightarrow> True | Inr (order', activated', db3) \<Rightarrow> po_ID order' \<noteq> po_ID order))
    \<and> (find_order (trim_space orderNo) db2 = None \<longrightarrow> complete_payment_order t' orderNo' ext' paidAt' db2 = Inl ErrNotFound)"
proof -
  have ok: "sound t db" by (rule reachable_sound [OF assms(1)])
  have ok1: "sound t db1" by (rule stmts_keep_sound [OF completed_stmts [OF assms(2)] ok])
  then have "follows db1 db2" "tables_ok db2"
    using history_follows [OF assms(3)] history_books [OF assms(3)] by (simp_all add: sound_def books_def)
  from order_once.retried [of db "(t, orderNo, ext, paidAt)" "(order, activated)" db1 db2 "(t', orderNo', ext', paidAt')"] this assms(2,4) ok
  have "completes_again (po_ID order) db2 (completion (t', orderNo', ext', paidAt') db2)"
    by (auto simp: completion_def sound_def books_def)
  moreover have "complete_payment_order t' orderNo' ext' paidAt' db2 = Inl ErrNotFound" if "find_order (trim_space orderNo) db2 = None"
    using that assms(4) by (simp add: complete_payment_order_def get_payment_order_by_order_no_def)
  ultimately show ?thesis
    by (cases "complete_payment_order t' orderNo' ext' paidAt' db2") (auto simp: completes_again_def completion_def split: prod.splits)
qed

end
