(* ===== verification/BillingSamples.thy ===== *)
theory BillingSamples
  imports Settlements
begin

text \<open>
  A concrete history, computed: a top-up order is placed and paid twice over, a code is made and
  redeemed, a call is let in on the weekly quota and settled. It shows that the histories the
  properties speak of exist.
\<close>

definition sample_order :: payment_order where
  "sample_order = \<lparr>po_ID = 0, po_OrderNo = ''A1'', po_OrderType = ''topup'', po_UserID = 7, po_PlanID = 0, po_PriceID = 0,
     po_Provider = ''stripe'', po_Status = ''pending'', po_BaseCurrency = ''USD'', po_BaseAmountCents = 5, po_PayCurrency = ''USD'',
     po_PayAmountCents = 5, po_FXRate = ''1'', po_CreditNanousd = 500, po_BillingInterval = ''lifetime'', po_Cycles = 1,
     po_ExternalPaymentID = [], po_ExternalCheckoutID = [], po_CheckoutURL = [], po_PaidAt = None, po_ExpiredAt = None,
     po_SnapshotJSON = ''{}''\<rparr>"

definition sample_code :: redemption_code where
  "sample_code = \<lparr>rc_ID = 0, rc_CodeHash = ''h1'', rc_CodeEncrypted = ''e'', rc_CodeHint = ''x'', rc_Mode = ''usage'',
     rc_RewardType = ''balance'', rc_CreditNanousd = 30, rc_PlanID = 0, rc_DurationUnit = [], rc_DurationCount = 0,
     rc_DurationDays = 0, rc_MaxRedemptions = Some 1, rc_PerUserLimit = 1, rc_RedeemedCount = 0, rc_Status = ''active'',
     rc_ExpiresAt = None, rc_Description = [], rc_CreatedByUserID = 1\<rparr>"

definition sample_redemption :: redemption_input where
  "sample_redemption = \<lparr>ri_CodeHash = ''h1'', ri_UserID = 7, ri_CurrentMode = ''usage'', ri_RefNo = ''r1'', ri_SubscriptionAt = 0\<rparr>"

definition sample_request :: reservation_request where
  "sample_request = \<lparr>rq_UserID = 7, rq_RefNo = ''run'', rq_Mode = ''weekly'', rq_RequestedNanousd = 40, rq_AuthorizedAt = 10,
     rq_PeriodStartAt = None, rq_PeriodEndAt = None, rq_PeriodCreditNanousd = 0, rq_WeeklyCreditNanousd = 1000\<rparr>"

definition sample_usage :: usage_ledger where
  "sample_usage = \<lparr>ul_ID = 0, ul_UserID = 7, ul_ConversationID = 1, ul_ProviderProtocol = [], ul_UpstreamName = [],
     ul_PlatformModelName = [], ul_RoutedBindingCode = [], ul_UpstreamModelName = [], ul_IsFreeModel = False, ul_BillingAt = 10,
     ul_UsageDate = 10, ul_InputTokens = 0, ul_CacheReadTokens = 0, ul_CacheWriteTokens = 0, ul_CacheWrite5mTokens = 0,
     ul_CacheWrite1hTokens = 0, ul_OutputTokens = 0, ul_ReasoningTokens = 0, ul_CallCount = 1, ul_DurationSeconds = 0,
     ul_LatencyMS = 0, ul_UsageSpeed = [], ul_ServiceTier = [], ul_BilledCurrency = ''USD'', ul_BilledNanousd = 60,
     ul_BalanceAfterNanousd = None, ul_PricingSnapshotJSON = ''{}''\<rparr>"

abbreviation "no_json \<equiv> (\<lambda>c::redemption_code. ''{}'')"
abbreviation "same_json \<equiv> (\<lambda>s (values::(string \<times> int) list). s)"

definition sample_bought :: "repo_err + billing_db" where
  "sample_bought =
     and_then (create_payment_order sample_order empty_db) (\<lambda>(row, db1).
     and_then (mark_payment_order_paid_and_credit_balance 10 ''A1'' ''pay'' 10 db1) (\<lambda>(order, activated, db2).
     and_then (mark_payment_order_paid_and_credit_balance 10 ''A1'' ''pay'' 10 db2) (\<lambda>(order', activated', db3).
     and_then (create_redemption_code sample_code db3) (\<lambda>(code, db4).
     and_then (redeem_code no_json 10 sample_redemption db4) (\<lambda>(code', row', account, sub, db5). Inr db5)))))"

definition sample_used :: "billing_db \<Rightarrow> repo_err + billing_db" where
  "sample_used db =
     and_then (reserve_usage_balance 10 sample_request db) (\<lambda>(row, db1).
     and_then (add_weekly_usage_and_settle_quota same_json sample_usage (Some row) 10 db1) (\<lambda>(usage, db2). Inr db2))"

lemma sample_bought_reachable:
  assumes "sample_bought = Inr db"
  shows "reachable no_json same_json 10 db"
proof -
  obtain row db1 order activated db2 order' activated' db3 code db4 code' row' account sub where
    steps: "create_payment_order sample_order empty_db = Inr (row, db1)"
      "mark_payment_order_paid_and_credit_balance 10 ''A1'' ''pay'' 10 db1 = Inr (order, activated, db2)"
      "mark_payment_order_paid_and_credit_balance 10 ''A1'' ''pay'' 10 db2 = Inr (order', activated', db3)"
      "create_redemption_code sample_code db3 = Inr (code, db4)"
      "redeem_code no_json 10 sample_redemption db4 = Inr (code', row', account, sub, db)"
    using assms by (auto simp: sample_bought_def and_then_Inr)
  have "billing_history no_json same_json 10 empty_db 10 db"
    by (rule history_next [OF history_next [OF history_next [OF history_next [OF history_next [OF history_start
          order_refl order_placed [OF steps(1)]]
          order_refl topup_completed [OF steps(2)]]
          order_refl topup_completed [OF steps(3)]]
          order_refl code_added [OF steps(4)]]
          order_refl code_redeemed [OF steps(5)]])
      (simp_all add: sample_order_def sample_code_def)
  then show ?thesis by (auto simp: reachable_def)
qed

lemma sample_used_reachable:
  assumes "and_then sample_bought sample_used = Inr db"
  shows "reachable no_json same_json 10 db"
proof -
  obtain db0 where db0: "sample_bought = Inr db0" "sample_used db0 = Inr db"
    using assms by (auto simp: and_then_Inr)
  obtain row db1 usage where
    steps: "reserve_usage_balance 10 sample_request db0 = Inr (row, db1)"
      "add_weekly_usage_and_settle_quota same_json sample_usage (Some row) 10 db1 = Inr (usage, db)"
    using db0(2) by (auto simp: sample_used_def and_then_Inr)
  obtain t0 where "billing_history no_json same_json t0 empty_db 10 db0"
    using sample_bought_reachable [OF db0(1)] by (auto simp: reachable_def)
  then have "billing_history no_json same_json t0 empty_db 10 db"
    by (rule history_next [OF history_next [OF _ order_refl call_let_in [OF steps(1)]] order_refl week_settled [OF steps(2)]])
      (simp_all add: sample_request_def sample_usage_def)
  then show ?thesis by (auto simp: reachable_def)
qed

text \<open>The rows the samples speak of.\<close>

lemma sample_bought_rows:
  "\<exists>db a order c. sample_bought = Inr db \<and> a \<in> set (bd_accounts db) \<and> ac_BalanceNanousd a = 530
    \<and> order \<in> set (bd_orders db) \<and> (po_OrderType order, po_Status order, po_CreditNanousd order) = (''topup'', ''paid'', 500)
    \<and> c \<in> set (bd_codes db) \<and> rc_RedeemedCount c = 1"
proof -
  have "case sample_bought of Inr db \<Rightarrow>
      map ac_BalanceNanousd (bd_accounts db) = [530] \<and> map (\<lambda>p. (po_OrderType p, po_Status p, po_CreditNanousd p)) (bd_orders db) = [(''topup'', ''paid'', 500)]
        \<and> map rc_RedeemedCount (bd_codes db) = [1] | Inl e \<Rightarrow> False"
    by code_simp
  then show ?thesis by (auto split: sum.splits simp: map_eq_Cons_conv)
qed

lemma sample_used_rows:
  "\<exists>db q. and_then sample_bought sample_used = Inr db \<and> q \<in> set (bd_quotaAccounts db) \<and> qa_UsedNanousd q = 60"
proof -
  have "case and_then sample_bought sample_used of Inr db \<Rightarrow> map qa_UsedNanousd (bd_quotaAccounts db) = [60] | Inl e \<Rightarrow> False"
    by code_simp
  then show ?thesis by (auto split: sum.splits simp: map_eq_Cons_conv)
qed

theorem journal_explains_balances_witness:
  "\<exists>db. reachable no_json same_json 10 db
    \<and> (\<exists>a\<in>set (bd_accounts db). wrap64 (sum_list (map bt_AmountNanousd (entries a db))) = 530)"
proof -
  obtain db a where s: "sample_bought = Inr db" "a \<in> set (bd_accounts db)" "ac_BalanceNanousd a = 530"
    using sample_bought_rows by blast
  from journal_explains_balances [OF sample_bought_reachable [OF s(1)] s(2)]
  have "wrap64 (sum_list (map bt_AmountNanousd (entries a db))) = 530" using s(3) by simp
  with s(2) sample_bought_reachable [OF s(1)] show ?thesis by blast
qed

theorem topups_are_credited_once_witness:
  "\<exists>db order. reachable no_json same_json 10 db \<and> order \<in> set (bd_orders db)
    \<and> map bt_AmountNanousd (topups order db) = [500]"
proof -
  obtain db order where s: "sample_bought = Inr db" "order \<in> set (bd_orders db)"
      "(po_OrderType order, po_Status order, po_CreditNanousd order) = (''topup'', ''paid'', 500)"
    using sample_bought_rows by blast
  from arg_cong [OF topups_are_credited_once [OF sample_bought_reachable [OF s(1)] s(2)], of "map snd"] s(3)
  have "map bt_AmountNanousd (topups order db) = [500]" by (simp add: comp_def)
  then show ?thesis using sample_bought_reachable [OF s(1)] s(2) by (intro exI conjI)
qed

theorem codes_are_not_overdrawn_witness:
  "\<exists>db c. reachable no_json same_json 10 db \<and> c \<in> set (bd_codes db)
    \<and> length (filter (\<lambda>x. rd_CodeID x = rc_ID c) (bd_redemptions db)) = 1"
proof -
  obtain db c where s: "sample_bought = Inr db" "c \<in> set (bd_codes db)" "rc_RedeemedCount c = 1"
    using sample_bought_rows by blast
  with codes_are_not_overdrawn [OF sample_bought_reachable [OF s(1)] s(2)] have
    "length (filter (\<lambda>x. rd_CodeID x = rc_ID c) (bd_redemptions db)) = 1" by simp
  then show ?thesis using sample_bought_reachable [OF s(1)] s(2) by (intro exI conjI)
qed

theorem weekly_counter_is_what_was_settled_witness:
  "\<exists>db q. reachable no_json same_json 10 db \<and> q \<in> set (bd_quotaAccounts db)
    \<and> sum_list (map rs_SettledNanousd (settled_in (qa_CycleID q) (qa_UserID q) db)) = 60"
proof -
  obtain db q where s: "and_then sample_bought sample_used = Inr db" "q \<in> set (bd_quotaAccounts db)" "qa_UsedNanousd q = 60"
    using sample_used_rows by blast
  with weekly_counter_is_what_was_settled [OF sample_used_reachable [OF s(1)] s(2)] have
    "sum_list (map rs_SettledNanousd (settled_in (qa_CycleID q) (qa_UserID q) db)) = 60" by (simp add: min_def split: if_splits)
  then show ?thesis using sample_used_reachable [OF s(1)] s(2) by (intro exI conjI)
qed

text \<open>The call of the sample is admitted on the weekly quota; its bill is settled through the service.\<close>

lemma sample_row_mode:
  assumes "sample_bought = Inr db" and "reserve_usage_balance 10 sample_request db = Inr (row, db1)"
  shows "rs_Mode row = ''weekly''"
proof -
  have "case sample_bought of Inr db \<Rightarrow> (case reserve_usage_balance 10 sample_request db of Inr (row, db1) \<Rightarrow> rs_Mode row = ''weekly'' | Inl e \<Rightarrow> False)
      | Inl e \<Rightarrow> False"
    by code_simp
  from this [unfolded assms sum.case prod.case] show ?thesis .
qed

text \<open>A cleanup of one kind of log that takes every row.\<close>

definition no_logs :: log_tables where
  "no_logs = \<lparr>lt_auditLogs = [], lt_authEvents = [], lt_runEvents = [], lt_systemEvents = []\<rparr>"

lemma all_cleaned:
  "cleanup_logs (\<lambda>_. 5) (\<lambda>_. 5) 11 ''usage'' 10 (no_logs, db) = Inr (length (bd_ledgers db), no_logs, db\<lparr>bd_ledgers := []\<rparr>)"
  "cleanup_logs (\<lambda>_. 5) (\<lambda>_. 5) 11 ''orders'' 10 (no_logs, db) = Inr (length (bd_orders db), no_logs, db\<lparr>bd_orders := []\<rparr>)"
proof -
  have "trim_space ''usage'' = ''usage''" "to_lower ''usage'' = ''usage''"
    "trim_space ''orders'' = ''orders''" "to_lower ''orders'' = ''orders''"
    by code_simp+
  then show "cleanup_logs (\<lambda>_. 5) (\<lambda>_. 5) 11 ''usage'' 10 (no_logs, db) = Inr (length (bd_ledgers db), no_logs, db\<lparr>bd_ledgers := []\<rparr>)"
    "cleanup_logs (\<lambda>_. 5) (\<lambda>_. 5) 11 ''orders'' 10 (no_logs, db) = Inr (length (bd_orders db), no_logs, db\<lparr>bd_orders := []\<rparr>)"
    by (simp_all add: cleanup_logs_def delete_before_def Let_def valid_type_def kept_logs_def gone_logs_def comp_def del: to_lower.simps)
qed

lemma cleaned_history:
  "billing_history no_json same_json 10 db 11 (db\<lparr>bd_ledgers := []\<rparr>)"
  "billing_history no_json same_json 10 db 11 (db\<lparr>bd_orders := []\<rparr>)"
  by (rule history_next [OF history_start _ logs_cleaned [OF all_cleaned(1)]], simp)
    (rule history_next [OF history_start _ logs_cleaned [OF all_cleaned(2)]], simp)

text \<open>The bill is retried after the usage logs were cleaned up: the amount settled is reported, nothing is written.\<close>

theorem call_is_billed_once_witness:
  "\<exists>row db db1 db2 billed l. rs_Mode row = ''weekly''
    \<and> record_usage_with_authorization same_json 10 [] sample_usage (Some \<lparr>ua_Mode = rs_Mode row, ua_Reservation = Some row\<rparr>) db = Inr (billed, db1)
    \<and> billing_history no_json same_json 10 db1 11 db2 \<and> bd_ledgers db2 = []
    \<and> record_usage_with_authorization same_json 11 [] (sample_usage\<lparr>ul_BilledNanousd := 999\<rparr>)
          (Some \<lparr>ua_Mode = rs_Mode row, ua_Reservation = Some row\<rparr>) db2 = Inr (l, db2)"
proof -
  obtain db2 where "and_then sample_bought sample_used = Inr db2" using sample_used_rows by blast
  then obtain db0 row db1 usage where db0: "sample_bought = Inr db0"
    and let_in: "reserve_usage_balance 10 sample_request db0 = Inr (row, db1)"
    and settled: "add_weekly_usage_and_settle_quota same_json sample_usage (Some row) 10 db1 = Inr (usage, db2)"
    by (auto simp: and_then_Inr sample_used_def)
  have mode: "rs_Mode row = ''weekly''" by (rule sample_row_mode [OF db0 let_in])
  obtain t0 where "billing_history no_json same_json t0 empty_db 10 db0"
    using sample_bought_reachable [OF db0] by (auto simp: reachable_def)
  then have "billing_history no_json same_json t0 empty_db 10 db1"
    by (rule history_next [OF _ order_refl call_let_in [OF let_in]]) (simp add: sample_request_def)
  then have reached: "reachable no_json same_json 10 db1" by (auto simp: reachable_def)
  have run: "record_usage_with_authorization same_json 10 [] sample_usage (Some \<lparr>ua_Mode = rs_Mode row, ua_Reservation = Some row\<rparr>) db1
      = Inr (usage, db2)"
    unfolding recorded_as(2) [OF mode] using settled by simp
  have args: "weekly_args sample_usage 10" "weekly_args (sample_usage\<lparr>ul_BilledNanousd := 999\<rparr>) 11"
    "ul_UserID (sample_usage\<lparr>ul_BilledNanousd := 999\<rparr>) = ul_UserID sample_usage" "rs_Mode row \<in> {''usage'', ''weekly'', ''period''}"
    by (simp_all add: weekly_args_def sample_usage_def mode)
  have "\<exists>l. record_usage_with_authorization same_json 11 [] (sample_usage\<lparr>ul_BilledNanousd := 999\<rparr>)
      (Some \<lparr>ua_Mode = rs_Mode row, ua_Reservation = Some row\<rparr>) (db2\<lparr>bd_ledgers := []\<rparr>) = Inr (l, db2\<lparr>bd_ledgers := []\<rparr>)"
    using call_is_billed_once [OF reached refl args(4,1) run cleaned_history(1) args(2,3), of "[]"] mode by auto
  with mode run cleaned_history(1) show ?thesis
    by (intro exI [of _ row] exI [of _ db1] exI [of _ db2] exI [of _ "db2\<lparr>bd_ledgers := []\<rparr>"]) auto
qed

theorem order_is_activated_once_witness:
  "\<exists>db db1 db2 order order'. complete_payment_order 10 ''A1'' ''pay'' 10 db = Inr (order, True, db1)
    \<and> complete_payment_order 10 '' A1'' ''other'' 11 db1 = Inr (order', False, db1)
    \<and> billing_history no_json same_json 10 db1 11 db2 \<and> complete_payment_order 11 '' A1'' ''other'' 11 db2 = Inl ErrNotFound"
proof -
  have "case create_payment_order sample_order empty_db of
      Inr (row, db) \<Rightarrow> (case complete_payment_order 10 ''A1'' ''pay'' 10 db of
          Inr (order, activated, db1) \<Rightarrow> activated \<and> po_ID order \<in> set (map po_ID (bd_orders db1)) | Inl e \<Rightarrow> False)
    | Inl e \<Rightarrow> False"
    by code_simp
  then obtain row db where placed: "create_payment_order sample_order empty_db = Inr (row, db)"
    and "case complete_payment_order 10 ''A1'' ''pay'' 10 db of
          Inr (order, activated, db1) \<Rightarrow> activated \<and> po_ID order \<in> set (map po_ID (bd_orders db1)) | Inl e \<Rightarrow> False"
    by (cases "create_payment_order sample_order empty_db") auto
  then obtain order db1 where paid: "complete_payment_order 10 ''A1'' ''pay'' 10 db = Inr (order, True, db1)"
    and "po_ID order \<in> set (map po_ID (bd_orders db1))"
    by (cases "complete_payment_order 10 ''A1'' ''pay'' 10 db") auto
  then obtain r where r: "r \<in> set (bd_orders db1)" "po_ID r = po_ID order" by auto
  have "billing_history no_json same_json 10 empty_db 10 db"
    by (rule history_next [OF history_start order_refl order_placed [OF placed]]) (simp add: sample_order_def)
  then have reached: "reachable no_json same_json 10 db" by (auto simp: reachable_def)
  have trim: "trim_space '' A1'' = trim_space ''A1''" by code_simp
  have "find_order (trim_space ''A1'') (db1\<lparr>bd_orders := []\<rparr>) = None" by (simp add: find_order_def)
  then have "complete_payment_order 11 '' A1'' ''other'' 11 (db1\<lparr>bd_orders := []\<rparr>) = Inl ErrNotFound"
    using order_is_activated_once [OF reached paid cleaned_history(2) trim, of "''other''" 11] by simp
  moreover have "complete_payment_order 10 '' A1'' ''other'' 11 db1 = Inr (r, False, db1)"
    using order_is_activated_once [OF reached paid history_start trim, of "''other''" 11] r by simp
  ultimately show ?thesis using paid cleaned_history(2) [of db1] by blast
qed

end
