(* ===== verification/NativeTools.thy ===== *)
theory NativeTools
  imports GoText "HOL-Library.AList"
begin

text \<open>
  The catalogue of provider-native tools (\<open>shared/nativetool/catalog.go\<close>): the built-in
  definitions, the payload a user's option becomes, the definitions administrators add, and the
  prices of tool calls with their overrides. A Go map is an association list in the order Go
  happens to iterate over it; a nil map is \<open>None\<close>. Copies of maps are the values themselves. The JSON decoder and encoder are
  parameters. A panic is the result \<open>None\<close> of \<open>build_payload\<close>.
\<close>

subsection \<open>Data\<close>

datatype json =
    JNull
  | JBool bool
  | JNumber string
  | JString string
  | JStrings "string list"
  | JArray "json list"
  | JObject "(string \<times> json) list"

type_synonym json_map = "(string \<times> json) list"

record tool_definition =
  nt_Protocol :: string
  nt_Provider :: string
  nt_Type :: string
  nt_Key :: string
  nt_Label :: string
  nt_Description :: string
  nt_Payload :: "json_map option"
  nt_DefaultEnabled :: bool
  nt_Billable :: bool
  nt_BillingUnit :: string
  nt_PriceNanousd :: int
  nt_PriceLabel :: string
  nt_RiskLevel :: string
  nt_UsageAliases :: "string list"
  nt_rawTypeFieldKeys :: "string list"

record pricing_definition =
  pd_Provider :: string
  pd_ToolKey :: string
  pd_Label :: string
  pd_Description :: string
  pd_Type :: string
  pd_PriceNanousd :: int
  pd_Unit :: string
  pd_PriceLabel :: string
  pd_Billable :: bool

record pricing_override =
  ov_PriceNanousd :: int
  ov_Unit :: string
  ov_PriceLabel :: string
  ov_Billable :: bool

type_synonym overrides = "(string \<times> pricing_override) list"

record usage_price =
  up_Provider :: string
  up_ServiceName :: string
  up_NanousdPerCall :: int

definition price_usd_001 :: int where "price_usd_001 = 10000000"
definition price_usd_0025 :: int where "price_usd_0025 = 25000000"
definition price_usd_0005 :: int where "price_usd_0005 = 5000000"
definition price_usd_00025 :: int where "price_usd_00025 = 2500000"

definition tool ::
  "string \<Rightarrow> string \<Rightarrow> string \<Rightarrow> string \<Rightarrow> string \<Rightarrow> string \<Rightarrow> json_map \<Rightarrow> bool \<Rightarrow> bool \<Rightarrow> string \<Rightarrow> int \<Rightarrow> string
   \<Rightarrow> string \<Rightarrow> string list \<Rightarrow> string list \<Rightarrow> tool_definition" where
  "tool protocol provider type key label descr payload enabled billable unit price priceLabel risk aliases rawKeys =
     \<lparr>nt_Protocol = protocol, nt_Provider = provider, nt_Type = type, nt_Key = key, nt_Label = label, nt_Description = descr,
      nt_Payload = Some payload, nt_DefaultEnabled = enabled, nt_Billable = billable, nt_BillingUnit = unit,
      nt_PriceNanousd = price, nt_PriceLabel = priceLabel, nt_RiskLevel = risk, nt_UsageAliases = aliases,
      nt_rawTypeFieldKeys = rawKeys\<rparr>"

definition builtin_tools :: "tool_definition list" where
  "builtin_tools =
     [tool ''openai_chat_completions'' ''OpenAI'' ''web_search''
       ''openai.web_search'' ''Web Search'' ''OpenAI hosted web search.''
       [(''type'', JString ''web_search'')] True True ''call'' price_usd_0025 '''' '''' [''web_search''] [],
      tool ''openai_chat_completions'' ''OpenAI'' ''web_search_preview''
       ''openai.web_search_preview'' ''Web Search Preview'' ''OpenAI hosted web search preview tool.''
       [(''type'', JString ''web_search_preview'')] True True ''call'' price_usd_0025 '''' '''' [''web_search_preview''] [],
      tool ''openai_responses'' ''OpenAI'' ''web_search''
       ''openai.web_search'' ''Web Search'' ''OpenAI hosted web search.''
       [(''type'', JString ''web_search'')] True True ''call'' price_usd_0025 '''' '''' [''web_search''] [],
      tool ''openai_responses'' ''OpenAI'' ''web_search_preview''
       ''openai.web_search_preview'' ''Web Search Preview'' ''OpenAI hosted web search preview tool.''
       [(''type'', JString ''web_search_preview'')] True True ''call'' price_usd_0025 '''' '''' [''web_search_preview''] [],
      tool ''openai_responses'' ''OpenAI'' ''shell''
       ''openai.shell'' ''Shell'' ''OpenAI hosted shell tool with an automatic container.''
       [(''type'', JString ''shell''), (''environment'', JObject [(''type'', JString ''container_auto'')])] True False '''' 0 ''notMetered'' ''high'' [''shell''] [],
      tool ''openai_responses'' ''OpenAI'' ''image_generation''
       ''openai.image_generation'' ''Image Generation'' ''OpenAI hosted image generation tool.''
       [(''type'', JString ''image_generation'')] True False '''' 0 ''notMetered'' '''' [''image_generation''] [],
      tool ''openai_responses'' ''OpenAI'' ''code_interpreter''
       ''openai.code_interpreter'' ''Code Interpreter'' ''OpenAI hosted code interpreter with an automatic container.''
       [(''type'', JString ''code_interpreter''), (''container'', JObject [(''type'', JString ''auto'')])] True False '''' 0 ''notMetered'' ''high'' [''code_interpreter''] [],
      tool ''anthropic_messages'' ''Anthropic'' ''web_search_20250305''
       ''anthropic.web_search_20250305'' ''Web Search'' ''Anthropic hosted web search tool.''
       [(''type'', JString ''web_search_20250305''), (''name'', JString ''web_search'')] True True ''search'' price_usd_001 '''' '''' [''web_search''] [],
      tool ''anthropic_messages'' ''Anthropic'' ''web_search_20260209''
       ''anthropic.web_search_20260209'' ''Web Search'' ''Anthropic hosted web search tool.''
       [(''type'', JString ''web_search_20260209''), (''name'', JString ''web_search''), (''allowed_callers'', JStrings [''direct''])] True True ''search'' price_usd_001 '''' '''' [''web_search''] [],
      tool ''anthropic_messages'' ''Anthropic'' ''web_fetch_20250910''
       ''anthropic.web_fetch_20250910'' ''Web Fetch'' ''Anthropic hosted web fetch tool.''
       [(''type'', JString ''web_fetch_20250910''), (''name'', JString ''web_fetch'')] True False '''' 0 ''included'' '''' [''web_fetch''] [],
      tool ''anthropic_messages'' ''Anthropic'' ''web_fetch_20260209''
       ''anthropic.web_fetch_20260209'' ''Web Fetch'' ''Anthropic hosted web fetch tool.''
       [(''type'', JString ''web_fetch_20260209''), (''name'', JString ''web_fetch''), (''allowed_callers'', JStrings [''direct''])] True False '''' 0 ''included'' '''' [''web_fetch''] [],
      tool ''anthropic_messages'' ''Anthropic'' ''code_execution_20250825''
       ''anthropic.code_execution_20250825'' ''Code Execution'' ''Anthropic hosted code execution tool.''
       [(''type'', JString ''code_execution_20250825''), (''name'', JString ''code_execution'')] True False '''' 0 ''notMetered'' ''high'' [''code_execution''] [],
      tool ''anthropic_messages'' ''Anthropic'' ''code_execution_20260120''
       ''anthropic.code_execution_20260120'' ''Code Execution'' ''Anthropic hosted code execution tool.''
       [(''type'', JString ''code_execution_20260120''), (''name'', JString ''code_execution'')] True False '''' 0 ''notMetered'' ''high'' [''code_execution''] [],
      tool ''anthropic_messages'' ''Anthropic'' ''advisor_20260301''
       ''anthropic.advisor_20260301'' ''Advisor'' ''Anthropic hosted advisor tool.''
       [(''type'', JString ''advisor_20260301''), (''name'', JString ''advisor'')] True False '''' 0 ''notMetered'' '''' [''advisor''] [],
      tool ''anthropic_messages'' ''Anthropic'' ''tool_search_tool_regex_20251119''
       ''anthropic.tool_search_tool_regex_20251119'' ''Tool Search Regex'' ''Anthropic hosted regex tool search.''
       [(''type'', JString ''tool_search_tool_regex_20251119''), (''name'', JString ''tool_search_tool_regex'')] True False '''' 0 ''included'' '''' [''tool_search_tool_regex''] [],
      tool ''anthropic_messages'' ''Anthropic'' ''tool_search_tool_bm25_20251119''
       ''anthropic.tool_search_tool_bm25_20251119'' ''Tool Search BM25'' ''Anthropic hosted BM25 tool search.''
       [(''type'', JString ''tool_search_tool_bm25_20251119''), (''name'', JString ''tool_search_tool_bm25'')] True False '''' 0 ''included'' '''' [''tool_search_tool_bm25''] [],
      tool ''xai_responses'' ''xAI'' ''web_search''
       ''xai.web_search'' ''Web Search'' ''xAI hosted web search.''
       [(''type'', JString ''web_search'')] True True ''call'' price_usd_0005 '''' '''' [''web_search''] [],
      tool ''xai_responses'' ''xAI'' ''x_search''
       ''xai.x_search'' ''X Search'' ''xAI hosted X search.''
       [(''type'', JString ''x_search'')] True True ''call'' price_usd_0005 '''' '''' [''x_search''] [],
      tool ''xai_responses'' ''xAI'' ''code_interpreter''
       ''xai.code_interpreter'' ''Code Interpreter'' ''xAI hosted code interpreter.''
       [(''type'', JString ''code_interpreter'')] True True ''call'' price_usd_0005 '''' ''high'' [''code_interpreter'', ''code_execution''] [],
      tool ''gemini_generate_content'' ''Google'' ''google_search''
       ''google.google_search'' ''Google Search'' ''Google hosted search grounding tool.''
       [(''google_search'', JObject [])] True False '''' 0 ''notMetered'' '''' [''google_search''] [''google_search'', ''googleSearch''],
      tool ''google_image_generation'' ''Google'' ''google_search''
       ''google.google_search'' ''Google Search'' ''Google hosted search grounding tool.''
       [(''google_search'', JObject [])] True False '''' 0 ''notMetered'' '''' [''google_search''] [''google_search'', ''googleSearch''],
      tool ''gemini_generate_content'' ''Google'' ''code_execution''
       ''google.code_execution'' ''Code Execution'' ''Google hosted code execution tool.''
       [(''code_execution'', JObject [])] True False '''' 0 ''notMetered'' ''high'' [''code_execution''] [''code_execution'', ''codeExecution''],
      tool ''gemini_generate_content'' ''Google'' ''url_context''
       ''google.url_context'' ''URL Context'' ''Google hosted URL context tool.''
       [(''url_context'', JObject [])] True False '''' 0 ''notMetered'' '''' [''url_context''] [''url_context'', ''urlContext''],
      tool ''gemini_interactions'' ''Google'' ''google_search''
       ''google.google_search'' ''Google Search'' ''Google hosted search grounding tool.''
       [(''type'', JString ''google_search'')] True False '''' 0 ''notMetered'' '''' [''google_search''] [],
      tool ''gemini_interactions'' ''Google'' ''code_execution''
       ''google.code_execution'' ''Code Execution'' ''Google hosted code execution tool.''
       [(''type'', JString ''code_execution'')] True False '''' 0 ''notMetered'' ''high'' [''code_execution''] [],
      tool ''gemini_interactions'' ''Google'' ''url_context''
       ''google.url_context'' ''URL Context'' ''Google hosted URL context tool.''
       [(''type'', JString ''url_context'')] True False '''' 0 ''notMetered'' '''' [''url_context''] []]"

definition usage_prices_by_key :: "(string \<times> usage_price) list" where
  "usage_prices_by_key =
     [(''openai.web_search'', \<lparr>up_Provider = ''openai'', up_ServiceName = ''OpenAI Web search'', up_NanousdPerCall = price_usd_0025\<rparr>),
      (''openai.web_search_preview'', \<lparr>up_Provider = ''openai'', up_ServiceName = ''OpenAI Web search preview'', up_NanousdPerCall = price_usd_0025\<rparr>),
      (''openai.shell'', \<lparr>up_Provider = ''openai'', up_ServiceName = ''OpenAI Shell'', up_NanousdPerCall = 0\<rparr>),
      (''openai.image_generation'', \<lparr>up_Provider = ''openai'', up_ServiceName = ''OpenAI Image Generation'', up_NanousdPerCall = 0\<rparr>),
      (''openai.code_interpreter'', \<lparr>up_Provider = ''openai'', up_ServiceName = ''OpenAI Code Interpreter'', up_NanousdPerCall = 0\<rparr>),
      (''anthropic.web_search_20250305'', \<lparr>up_Provider = ''anthropic'', up_ServiceName = ''Anthropic Web search'', up_NanousdPerCall = price_usd_001\<rparr>),
      (''anthropic.web_search_20260209'', \<lparr>up_Provider = ''anthropic'', up_ServiceName = ''Anthropic Web search'', up_NanousdPerCall = price_usd_001\<rparr>),
      (''anthropic.web_fetch_20250910'', \<lparr>up_Provider = ''anthropic'', up_ServiceName = ''Anthropic Web Fetch'', up_NanousdPerCall = 0\<rparr>),
      (''anthropic.web_fetch_20260209'', \<lparr>up_Provider = ''anthropic'', up_ServiceName = ''Anthropic Web Fetch'', up_NanousdPerCall = 0\<rparr>),
      (''anthropic.code_execution_20250825'', \<lparr>up_Provider = ''anthropic'', up_ServiceName = ''Anthropic Code Execution'', up_NanousdPerCall = 0\<rparr>),
      (''anthropic.code_execution_20260120'', \<lparr>up_Provider = ''anthropic'', up_ServiceName = ''Anthropic Code Execution'', up_NanousdPerCall = 0\<rparr>),
      (''anthropic.advisor_20260301'', \<lparr>up_Provider = ''anthropic'', up_ServiceName = ''Anthropic Advisor'', up_NanousdPerCall = 0\<rparr>),
      (''anthropic.tool_search_tool_regex_20251119'', \<lparr>up_Provider = ''anthropic'', up_ServiceName = ''Anthropic Tool Search'', up_NanousdPerCall = 0\<rparr>),
      (''anthropic.tool_search_tool_bm25_20251119'', \<lparr>up_Provider = ''anthropic'', up_ServiceName = ''Anthropic Tool Search'', up_NanousdPerCall = 0\<rparr>),
      (''xai.web_search'', \<lparr>up_Provider = ''xai'', up_ServiceName = ''xAI Web Search'', up_NanousdPerCall = price_usd_0005\<rparr>),
      (''xai.x_search'', \<lparr>up_Provider = ''xai'', up_ServiceName = ''xAI X Search'', up_NanousdPerCall = price_usd_0005\<rparr>),
      (''xai.code_interpreter'', \<lparr>up_Provider = ''xai'', up_ServiceName = ''xAI Code Execution'', up_NanousdPerCall = price_usd_0005\<rparr>),
      (''xai.attachment_search'', \<lparr>up_Provider = ''xai'', up_ServiceName = ''xAI File Attachments Search'', up_NanousdPerCall = price_usd_001\<rparr>),
      (''xai.collections_search'', \<lparr>up_Provider = ''xai'', up_ServiceName = ''xAI Collections Search / RAG'', up_NanousdPerCall = price_usd_00025\<rparr>),
      (''google.google_search'', \<lparr>up_Provider = ''google'', up_ServiceName = ''Google Search grounding'', up_NanousdPerCall = 0\<rparr>),
      (''google.code_execution'', \<lparr>up_Provider = ''google'', up_ServiceName = ''Google Code Execution'', up_NanousdPerCall = 0\<rparr>),
      (''google.url_context'', \<lparr>up_Provider = ''google'', up_ServiceName = ''Google URL Context'', up_NanousdPerCall = 0\<rparr>)]"

subsection \<open>Payloads\<close>

definition string_value :: "json option \<Rightarrow> string" where
  "string_value v = (case v of Some (JString s) \<Rightarrow> s | _ \<Rightarrow> [])"

definition go_get :: "(string \<times> 'v) list option \<Rightarrow> string \<Rightarrow> 'v option" where
  "go_get m k = (case m of None \<Rightarrow> None | Some xs \<Rightarrow> map_of xs k)"

definition find_tool :: "string \<Rightarrow> string \<Rightarrow> tool_definition option" where
  "find_tool protocol toolType =
     List.find (\<lambda>d. nt_Protocol d = trim_space protocol \<and> nt_Type d = trim_space toolType) builtin_tools"

definition infer_tool_type :: "string \<Rightarrow> json_map option \<Rightarrow> string" where
  "infer_tool_type protocol raw =
     (case List.find (\<lambda>d. nt_Protocol d = protocol \<and> list_ex (\<lambda>k. go_get raw k \<noteq> None) (nt_rawTypeFieldKeys d)) builtin_tools of
        None \<Rightarrow> []
      | Some d \<Rightarrow> nt_Type d)"

definition denied_payload_keys :: "string list" where
  "denied_payload_keys =
     [''model'', ''messages'', ''input'', ''instructions'', ''prompt'', ''system'', ''systemInstruction'', ''headers'',
      ''api_key'', ''apiKey'', ''base_url'', ''baseURL'', ''stream'', ''previous_response_id'']"

function merge_payload :: "json_map \<Rightarrow> json_map \<Rightarrow> json_map"
  and merge_value :: "json option \<Rightarrow> json \<Rightarrow> json" where
  "merge_payload dst [] = dst"
| "merge_payload dst ((k, v) # src) = merge_payload (AList.update k (merge_value (map_of dst k) v) dst) src"
| "merge_value old v =
     (case (old, v) of (Some (JObject d), JObject s) \<Rightarrow> JObject (merge_payload d s) | _ \<Rightarrow> v)"
  by pat_completeness auto
termination
  by (relation "measure (case_sum (\<lambda>(dst, src). 2 * size (JObject src)) (\<lambda>(old, v). 2 * size v + 1))") auto

definition kept_key :: "tool_definition \<Rightarrow> string \<Rightarrow> bool" where
  "kept_key d k \<longleftrightarrow> k \<notin> set denied_payload_keys
     \<and> (k = ''type'' \<longrightarrow> go_get (nt_Payload d) ''type'' \<noteq> None)
     \<and> (k \<in> set (nt_rawTypeFieldKeys d) \<longrightarrow> go_get (nt_Payload d) k \<noteq> None)"

definition build_payload :: "tool_definition \<Rightarrow> json_map option \<Rightarrow> json_map option option" where
  \<comment> \<open>writing to a nil map panics\<close>
  "build_payload d raw =
     (let src = (case nt_Payload d of None \<Rightarrow> [] | Some p \<Rightarrow> p)
      in case raw of
           Some m \<Rightarrow> Some (Some (merge_payload (filter (\<lambda>(k, v). kept_key d k) m) src))
         | None \<Rightarrow> if src = [] then Some None else None)"

definition payload_from_option :: "string \<Rightarrow> json_map option \<Rightarrow> (tool_definition \<times> json_map option option) option" where
  "payload_from_option protocol raw =
     (let named = trim_space (string_value (go_get raw ''type''));
          toolType = (if named = [] then infer_tool_type protocol raw else named)
      in if toolType = [] then None
         else case find_tool protocol toolType of
                None \<Rightarrow> None
              | Some d \<Rightarrow> Some (d, build_payload d raw))"

fun payload_from_tools :: "tool_definition list \<Rightarrow> string \<Rightarrow> json_map option \<Rightarrow> (tool_definition \<times> json_map option option) option" where
  "payload_from_tools [] key raw = None"
| "payload_from_tools (d # ds) key raw =
     (if nt_Key d \<noteq> key then payload_from_tools ds key raw
      else case payload_from_option (nt_Protocol d) raw of
             None \<Rightarrow> payload_from_tools ds key raw
           | Some found \<Rightarrow> Some found)"

definition payload_from_key :: "string \<Rightarrow> json_map option \<Rightarrow> (tool_definition \<times> json_map option option) option" where
  "payload_from_key key raw = payload_from_tools builtin_tools (trim_space key) raw"

subsection \<open>Definitions of administrators\<close>

fun distinct_trimmed :: "string list \<Rightarrow> string list \<Rightarrow> string list" where
  \<comment> \<open>the loop of \<open>normalizeStringList\<close> with the set of values seen\<close>
  "distinct_trimmed seen [] = []"
| "distinct_trimmed seen (v # vs) =
     (if trim_space v = [] \<or> trim_space v \<in> set seen then distinct_trimmed seen vs
      else trim_space v # distinct_trimmed (trim_space v # seen) vs)"

definition normalize_string_list :: "string list \<Rightarrow> string list" where
  "normalize_string_list values = distinct_trimmed [] values"

definition native_tool_protocols :: "string list \<Rightarrow> string \<Rightarrow> string list" where
  "native_tool_protocols values single = distinct_trimmed [] (values @ [single])"

definition definition_identity :: "tool_definition \<Rightarrow> string" where
  "definition_identity d = trim_space (nt_Protocol d) @ [CHR 0x00] @ trim_space (nt_Key d) @ [CHR 0x00] @ trim_space (nt_Type d)"

definition or_else :: "string \<Rightarrow> string \<Rightarrow> string" where
  "or_else v w = (if v = [] then w else v)"

definition normalize_definition :: "tool_definition \<Rightarrow> tool_definition option" where
  "normalize_definition d =
     (let type = or_else (trim_space (nt_Type d)) (trim_space (string_value (go_get (nt_Payload d) ''type'')))
      in if trim_space (nt_Key d) = [] \<or> trim_space (nt_Protocol d) = [] \<or> type = [] then None
         else Some (d\<lparr>nt_Protocol := trim_space (nt_Protocol d), nt_Provider := or_else (trim_space (nt_Provider d)) ''Custom'',
           nt_Type := type, nt_Key := trim_space (nt_Key d), nt_Label := or_else (trim_space (nt_Label d)) type,
           nt_Description := or_else (trim_space (nt_Description d)) type,
           nt_Payload := (case nt_Payload d of None \<Rightarrow> Some [(''type'', JString type)] | Some p \<Rightarrow> Some p),
           nt_BillingUnit := or_else (trim_space (nt_BillingUnit d)) ''call'', nt_PriceLabel := trim_space (nt_PriceLabel d),
           nt_RiskLevel := trim_space (nt_RiskLevel d), nt_UsageAliases := normalize_string_list (nt_UsageAliases d)\<rparr>))"

fun merge_loop :: "string list \<Rightarrow> tool_definition list \<Rightarrow> tool_definition list" where
  "merge_loop seen [] = []"
| "merge_loop seen (d # ds) =
     (case normalize_definition d of
        None \<Rightarrow> merge_loop seen ds
      | Some n \<Rightarrow>
          if definition_identity n \<in> set seen then merge_loop seen ds
          else n # merge_loop (definition_identity n # seen) ds)"

definition merge_definitions :: "tool_definition list \<Rightarrow> tool_definition list" where
  "merge_definitions extra = builtin_tools @ merge_loop (map definition_identity builtin_tools) extra"

text \<open>What the JSON decoder makes of the capabilities of a model: one record per declared tool.\<close>

record declared_tool =
  dt_Key :: string
  dt_ToolKey :: string
  dt_Protocol :: string
  dt_Protocols :: "string list"
  dt_Definition :: tool_definition \<comment> \<open>the other fields; its protocol and key are not used\<close>
  dt_Enabled :: "bool option"

definition declared_definitions :: "declared_tool \<Rightarrow> tool_definition list" where
  "declared_definitions item =
     (if dt_Enabled item = Some False then []
      else let key = or_else (trim_space (dt_Key item)) (trim_space (dt_ToolKey item))
           in List.map_filter (\<lambda>protocol. normalize_definition ((dt_Definition item)\<lparr>nt_Protocol := protocol, nt_Key := key\<rparr>))
                (native_tool_protocols (dt_Protocols item) (dt_Protocol item)))"

definition definitions_from_capabilities :: "(string \<Rightarrow> declared_tool list option) \<Rightarrow> string \<Rightarrow> tool_definition list" where
  "definitions_from_capabilities decode raw =
     (if trim_space raw = [] then []
      else case decode (trim_space raw) of None \<Rightarrow> [] | Some items \<Rightarrow> concat (map declared_definitions items))"

subsection \<open>Prices and overrides\<close>

definition pricing_definition_of :: "tool_definition \<Rightarrow> pricing_definition" where
  "pricing_definition_of d =
     \<lparr>pd_Provider = trim_space (nt_Provider d), pd_ToolKey = trim_space (nt_Key d), pd_Label = trim_space (nt_Label d),
      pd_Description = trim_space (nt_Description d), pd_Type = trim_space (nt_Type d), pd_PriceNanousd = nt_PriceNanousd d,
      pd_Unit = or_else (trim_space (nt_BillingUnit d)) ''call'', pd_PriceLabel = trim_space (nt_PriceLabel d),
      pd_Billable = (nt_Billable d \<or> 0 < nt_PriceNanousd d)\<rparr>"

fun pricing_loop :: "string list \<Rightarrow> tool_definition list \<Rightarrow> pricing_definition list" where
  "pricing_loop seen [] = []"
| "pricing_loop seen (d # ds) =
     (if trim_space (nt_Key d) = [] \<or> trim_space (nt_Key d) \<in> set seen then pricing_loop seen ds
      else pricing_definition_of d # pricing_loop (trim_space (nt_Key d) # seen) ds)"

definition pricing_definitions :: "tool_definition list \<Rightarrow> pricing_definition list" where
  "pricing_definitions items = pricing_loop [] items"

definition default_override :: "pricing_definition \<Rightarrow> pricing_override" where
  "default_override item =
     \<lparr>ov_PriceNanousd = pd_PriceNanousd item, ov_Unit = trim_space (pd_Unit item), ov_PriceLabel = [],
      ov_Billable = (0 < pd_PriceNanousd item)\<rparr>"

definition pricing_overrides_from :: "pricing_definition list \<Rightarrow> overrides" where
  "pricing_overrides_from items =
     foldl (\<lambda>m item. if trim_space (pd_ToolKey item) = [] then m
                     else AList.update (trim_space (pd_ToolKey item)) (default_override item) m) [] items"

datatype override_err = NotAnObject | UnsupportedToolKey string | NegativePrice string | UnitTooLong string

definition normalized_override :: "pricing_override \<Rightarrow> pricing_override \<Rightarrow> pricing_override" where
  "normalized_override std override =
     override\<lparr>ov_Unit := or_else (trim_space (ov_Unit std)) ''call'', ov_PriceLabel := [],
       ov_Billable := (0 < ov_PriceNanousd override)\<rparr>"

fun normalize_loop :: "overrides \<Rightarrow> overrides \<Rightarrow> overrides \<Rightarrow> override_err + overrides" where
  "normalize_loop defaults result [] = Inr result"
| "normalize_loop defaults result ((k, override) # rest) =
     (case map_of defaults (trim_space k) of
        None \<Rightarrow> Inl (UnsupportedToolKey (trim_space k))
      | Some std \<Rightarrow>
          if ov_PriceNanousd override < 0 then Inl (NegativePrice (trim_space k))
          else let ov = normalized_override std override
               in if 32 < length (runes_of (ov_Unit ov)) then Inl (UnitTooLong (trim_space k))
                  else normalize_loop defaults (AList.update (trim_space k) ov result) rest)"

definition normalize_pricing_overrides :: "overrides \<Rightarrow> tool_definition list \<Rightarrow> override_err + overrides" where
  "normalize_pricing_overrides given definitions =
     normalize_loop (pricing_overrides_from (pricing_definitions definitions)) [] given"

definition parse_pricing_overrides ::
  "(string \<Rightarrow> overrides option) \<Rightarrow> string \<Rightarrow> tool_definition list \<Rightarrow> override_err + overrides" where
  "parse_pricing_overrides decode raw definitions =
     (if trim_space raw = [] then Inr []
      else case decode (trim_space raw) of
             None \<Rightarrow> Inl NotAnObject
           | Some parsed \<Rightarrow> normalize_pricing_overrides parsed definitions)"

definition pricing_override_equal :: "pricing_override \<Rightarrow> pricing_override \<Rightarrow> bool" where
  "pricing_override_equal a b \<longleftrightarrow> ov_PriceNanousd a = ov_PriceNanousd b \<and> trim_space (ov_Unit a) = trim_space (ov_Unit b)
     \<and> trim_space (ov_PriceLabel a) = trim_space (ov_PriceLabel b) \<and> ov_Billable a = ov_Billable b"

definition overrides_use_defaults :: "(string \<Rightarrow> overrides option) \<Rightarrow> string \<Rightarrow> tool_definition list \<Rightarrow> bool" where
  "overrides_use_defaults decode raw definitions =
     (if trim_space raw = [] then True
      else case parse_pricing_overrides decode (trim_space raw) definitions of
             Inl e \<Rightarrow> True
           | Inr given \<Rightarrow>
               list_all (\<lambda>(k, ov). case map_of (pricing_overrides_from (pricing_definitions definitions)) k of
                   None \<Rightarrow> False | Some std \<Rightarrow> pricing_override_equal ov std) given)"

definition overridden :: "overrides \<Rightarrow> pricing_definition \<Rightarrow> pricing_definition" where
  "overridden given item =
     (case map_of given (pd_ToolKey item) of
        None \<Rightarrow> item
      | Some ov \<Rightarrow> item\<lparr>pd_PriceNanousd := ov_PriceNanousd ov, pd_Unit := ov_Unit ov, pd_PriceLabel := ov_PriceLabel ov,
          pd_Billable := ov_Billable ov\<rparr>)"

definition pricing_definitions_with_overrides ::
  "(string \<Rightarrow> overrides option) \<Rightarrow> string \<Rightarrow> tool_definition list \<Rightarrow> pricing_definition list" where
  "pricing_definitions_with_overrides decode raw definitions =
     (case parse_pricing_overrides decode raw definitions of
        Inl e \<Rightarrow> pricing_definitions definitions
      | Inr given \<Rightarrow> map (overridden given) (pricing_definitions definitions))"

subsection \<open>The price of a call\<close>

definition anthropic_keys :: "(string \<times> string) list" where
  "anthropic_keys =
     [(''web_search'', ''anthropic.web_search_20260209''), (''web_fetch'', ''anthropic.web_fetch_20260209''),
      (''code_execution'', ''anthropic.code_execution_20260120''), (''advisor'', ''anthropic.advisor_20260301''),
      (''tool_search_tool_regex'', ''anthropic.tool_search_tool_regex_20251119''),
      (''tool_search_tool_bm25'', ''anthropic.tool_search_tool_bm25_20251119'')]"

definition openai_keys :: "(string \<times> string) list" where
  "openai_keys =
     [(''web_search'', ''openai.web_search''), (''web_search_preview'', ''openai.web_search_preview''),
      (''shell'', ''openai.shell''), (''image_generation'', ''openai.image_generation''),
      (''code_interpreter'', ''openai.code_interpreter'')]"

definition xai_keys :: "(string \<times> string) list" where
  "xai_keys =
     [(''web_search'', ''xai.web_search''), (''x_search'', ''xai.x_search''),
      (''code_interpreter'', ''xai.code_interpreter''), (''code_execution'', ''xai.code_interpreter''),
      (''attachment_search'', ''xai.attachment_search''), (''file_attachment_search'', ''xai.attachment_search''),
      (''file_search'', ''xai.collections_search''), (''collection_search'', ''xai.collections_search''),
      (''collections_search'', ''xai.collections_search'')]"

definition google_keys :: "(string \<times> string) list" where
  "google_keys =
     [(''google_search'', ''google.google_search''), (''code_execution'', ''google.code_execution''),
      (''url_context'', ''google.url_context'')]"

definition usage_pricing_key :: "string \<Rightarrow> string \<Rightarrow> string option" where
  "usage_pricing_key protocol toolName =
     (let p = trim_space protocol; t = trim_space toolName
      in if p = ''anthropic_messages'' then map_of anthropic_keys t
         else if p \<in> set [''openai_responses'', ''openai_chat_completions''] then map_of openai_keys t
         else if p = ''xai_responses'' then map_of xai_keys t
         else if p \<in> set [''gemini_generate_content'', ''gemini_interactions'', ''google_image_generation''] then map_of google_keys t
         else None)"

definition usage_price_by_key :: "string \<Rightarrow> overrides \<Rightarrow> usage_price option" where
  "usage_price_by_key key given =
     (case map_of usage_prices_by_key (trim_space key) of
        None \<Rightarrow> None
      | Some price \<Rightarrow>
          (case map_of given (trim_space key) of
             None \<Rightarrow> Some price
           | Some ov \<Rightarrow> if ov_PriceNanousd ov \<le> 0 then None else Some (price\<lparr>up_NanousdPerCall := ov_PriceNanousd ov\<rparr>)))"

definition usage_name_matches :: "tool_definition \<Rightarrow> string \<Rightarrow> bool" where
  "usage_name_matches d toolName \<longleftrightarrow>
     trim_space (nt_Type d) = toolName \<or> trim_space (string_value (go_get (nt_Payload d) ''type'')) = toolName
     \<or> list_ex (\<lambda>a. trim_space a = toolName) (nt_UsageAliases d)"

fun find_usage_loop :: "string \<Rightarrow> string \<Rightarrow> tool_definition list \<Rightarrow> tool_definition option" where
  "find_usage_loop protocol toolName [] = None"
| "find_usage_loop protocol toolName (d # ds) =
     (if trim_space (nt_Protocol d) = protocol \<and> usage_name_matches d toolName then
        (case normalize_definition d of None \<Rightarrow> find_usage_loop protocol toolName ds | Some n \<Rightarrow> Some n)
      else find_usage_loop protocol toolName ds)"

definition find_usage_definition :: "string \<Rightarrow> string \<Rightarrow> tool_definition list \<Rightarrow> tool_definition option" where
  "find_usage_definition protocol toolName definitions =
     (if trim_space protocol = [] \<or> trim_space toolName = [] then None
      else find_usage_loop (trim_space protocol) (trim_space toolName) definitions)"

definition native_tool_service_name :: "tool_definition \<Rightarrow> string" where
  "native_tool_service_name d =
     (let provider = trim_space (nt_Provider d); label = or_else (trim_space (nt_Label d)) (trim_space (nt_Type d))
      in if provider = [] then label else if label = [] then provider else provider @ '' '' @ label)"

definition usage_price_from_definition :: "tool_definition \<Rightarrow> overrides \<Rightarrow> usage_price option" where
  "usage_price_from_definition d given =
     (let key = trim_space (nt_Key d);
          price = \<lparr>up_Provider = or_else (to_lower (trim_space (nt_Provider d))) ''custom'',
            up_ServiceName = native_tool_service_name d, up_NanousdPerCall = nt_PriceNanousd d\<rparr>
      in if key = [] then None
         else case map_of given key of
                None \<Rightarrow> if up_NanousdPerCall price \<le> 0 then None else Some price
              | Some ov \<Rightarrow> if ov_PriceNanousd ov \<le> 0 then None else Some (price\<lparr>up_NanousdPerCall := ov_PriceNanousd ov\<rparr>))"

definition usage_price_for_tool :: "string \<Rightarrow> string \<Rightarrow> tool_definition list \<Rightarrow> overrides \<Rightarrow> usage_price option" where
  "usage_price_for_tool protocol toolName definitions given =
     (case usage_pricing_key protocol toolName of
        Some key \<Rightarrow> usage_price_by_key key given
      | None \<Rightarrow>
          (case find_usage_definition protocol toolName definitions of
             None \<Rightarrow> None
           | Some d \<Rightarrow> usage_price_from_definition d given))"

end
