(* ===== verification/ToolRules.thy ===== *)
theory ToolRules
  imports NativeTools
begin

text \<open>
  What the catalogue of native tools promises: payloads a user cannot bend, a merged catalogue
  without duplicates, prices that follow the catalogue and its overrides, and a stored form of the overrides that
  is read back as it was written.
\<close>

subsection \<open>Payloads\<close>

declare merge_value.simps [simp del]



lemma merge_value_string [simp]: "merge_value old (JString s) = JString s"
  by (cases old) (auto simp: merge_value.simps split: json.splits)

text \<open>The built-in definitions: payloads are there, with distinct keys, none of them denied.\<close>

definition sane_tool :: "tool_definition \<Rightarrow> bool" where
  "sane_tool d \<longleftrightarrow> (case nt_Payload d of None \<Rightarrow> False
     | Some p \<Rightarrow> p \<noteq> [] \<and> distinct (map fst p) \<and> list_all (\<lambda>(k, v). k \<notin> set denied_payload_keys) p)"

lemma builtin_tools_sane: "list_all sane_tool builtin_tools"
  by code_simp










text \<open>Without a map to write to, a built-in tool has no payload: the code panics.\<close>

lemma builtin_payload_needs_a_map: "d \<in> set builtin_tools \<Longrightarrow> build_payload d None = None"
  using builtin_tools_sane by (auto simp: list_all_iff sane_tool_def build_payload_def split: option.splits)



subsection \<open>The merged catalogue\<close>

definition usable_tool :: "tool_definition \<Rightarrow> bool" where
  "usable_tool d \<longleftrightarrow> nt_Protocol d \<noteq> [] \<and> nt_Key d \<noteq> [] \<and> nt_Type d \<noteq> [] \<and> nt_Provider d \<noteq> [] \<and> nt_Label d \<noteq> []
     \<and> nt_Payload d \<noteq> None \<and> distinct (nt_UsageAliases d)
     \<and> list_all trimmed ([nt_Protocol d, nt_Key d, nt_Type d, nt_Provider d, nt_Label d] @ nt_UsageAliases d)"

lemma distinct_trimmed_new: "v \<in> set (distinct_trimmed seen vs) \<Longrightarrow> trimmed v \<and> v \<noteq> [] \<and> v \<notin> set seen"
proof (induction vs arbitrary: seen)
  case (Cons x vs)
  show ?case
  proof (cases "trim_space x = [] \<or> trim_space x \<in> set seen")
    case True
    then show ?thesis using Cons by simp
  next
    case False
    then consider "v = trim_space x" | "v \<in> set (distinct_trimmed (trim_space x # seen) vs)" using Cons.prems by auto
    then show ?thesis using Cons.IH [of "trim_space x # seen"] False trimmed_trim_space by cases auto
  qed
qed simp

lemma distinct_trimmed_distinct: "distinct (distinct_trimmed seen vs)"
proof (induction vs arbitrary: seen)
  case (Cons x vs)
  have "trim_space x \<notin> set (distinct_trimmed (trim_space x # seen) vs)"
    using distinct_trimmed_new by (meson list.set_intros(1))
  with Cons.IH show ?case by simp
qed simp

lemma builtin_tools_usable: "list_all usable_tool builtin_tools" "distinct (map definition_identity builtin_tools)"
  by code_simp+

lemma merge_loop_distinct:
  "distinct (map definition_identity (merge_loop seen ds)) \<and> definition_identity ` set (merge_loop seen ds) \<inter> set seen = {}"
proof (induction seen ds rule: merge_loop.induct)
  case (2 seen d ds)
  show ?case
  proof (cases "normalize_definition d")
    case None
    then show ?thesis using 2(1) by simp
  next
    case (Some n)
    show ?thesis
    proof (cases "definition_identity n \<in> set seen")
      case True
      then show ?thesis using 2(2) [OF Some True] Some by simp
    next
      case False
      then show ?thesis using 2(3) [OF Some False] Some by auto
    qed
  qed
qed simp

lemma merge_loop_members: "n \<in> set (merge_loop seen ds) \<Longrightarrow> \<exists>d\<in>set ds. normalize_definition d = Some n"
  by (induction seen ds rule: merge_loop.induct) (auto split: option.splits if_splits)

lemma merge_loop_complete:
  "d \<in> set ds \<Longrightarrow> normalize_definition d = Some n
    \<Longrightarrow> definition_identity n \<in> set seen \<union> definition_identity ` set (merge_loop seen ds)"
proof (induction seen ds rule: merge_loop.induct)
  case (2 seen x ds)
  show ?case
  proof (cases "normalize_definition x")
    case None
    then show ?thesis using 2 by auto
  next
    case (Some m)
    then show ?thesis
      using 2 by (cases "definition_identity m \<in> set seen") auto
  qed
qed simp

lemma or_else_nonempty: "w \<noteq> [] \<Longrightarrow> or_else v w \<noteq> []"
  by (simp add: or_else_def)

lemma trimmed_or_else: "trimmed v \<Longrightarrow> trimmed w \<Longrightarrow> trimmed (or_else v w)"
  by (simp add: or_else_def)

lemma trimmed_words: "trimmed ''Custom''" "trimmed ''call''"
  by code_simp+

lemma normalized_usable:
  assumes "normalize_definition d = Some n"
  shows "usable_tool n"
proof -
  define type where "type = or_else (trim_space (nt_Type d)) (trim_space (string_value (go_get (nt_Payload d) ''type'')))"
  have type: "trimmed type" "type \<noteq> []"
    using assms by (auto simp: type_def normalize_definition_def Let_def intro!: trimmed_or_else trimmed_trim_space split: if_splits)
  have fields: "nt_Protocol n = trim_space (nt_Protocol d)" "nt_Key n = trim_space (nt_Key d)" "nt_Type n = type"
      "nt_Provider n = or_else (trim_space (nt_Provider d)) ''Custom''" "nt_Label n = or_else (trim_space (nt_Label d)) type"
      "nt_UsageAliases n = normalize_string_list (nt_UsageAliases d)" "nt_Payload n \<noteq> None"
      "trim_space (nt_Key d) \<noteq> []" "trim_space (nt_Protocol d) \<noteq> []"
    using assms by (auto simp: normalize_definition_def Let_def type_def split: if_splits option.splits)
  show ?thesis
    using type fields(7-9) trimmed_words
    unfolding usable_tool_def fields(1-6) list.pred_inject list_all_append
    by (auto simp: trimmed_trim_space trimmed_or_else or_else_nonempty normalize_string_list_def distinct_trimmed_distinct
        list_all_iff dest: distinct_trimmed_new)
qed

text \<open>
  The merged catalogue is a catalogue. Whatever administrators declare, the built-in
  definitions come first and unchanged, no two definitions have the same protocol, key and
  type, every definition can be used as it stands (its names are trimmed and there, its payload exists, its aliases are
  distinct), and a declaration is left out only when it names no tool or a definition with its identity is there.
\<close>

theorem merged_catalogue_is_sound:
  "take (length builtin_tools) (merge_definitions extra) = builtin_tools
    \<and> distinct (map definition_identity (merge_definitions extra))
    \<and> list_all usable_tool (merge_definitions extra)
    \<and> definition_identity ` {n. \<exists>d\<in>set extra. normalize_definition d = Some n} \<subseteq> definition_identity ` set (merge_definitions extra)"
proof (intro conjI)
  let ?new = "merge_loop (map definition_identity builtin_tools) extra"
  show "take (length builtin_tools) (merge_definitions extra) = builtin_tools" by (simp add: merge_definitions_def)
  show "distinct (map definition_identity (merge_definitions extra))"
    using builtin_tools_usable(2) merge_loop_distinct [of "map definition_identity builtin_tools" extra]
    by (auto simp: merge_definitions_def)
  have "list_all usable_tool ?new" unfolding list_all_iff using merge_loop_members normalized_usable by blast
  then show "list_all usable_tool (merge_definitions extra)"
    using builtin_tools_usable(1) by (simp add: merge_definitions_def)
  show "definition_identity ` {n. \<exists>d\<in>set extra. normalize_definition d = Some n} \<subseteq> definition_identity ` set (merge_definitions extra)"
  proof (rule image_subsetI, elim CollectE bexE)
    fix n d assume "d \<in> set extra" "normalize_definition d = Some n"
    from merge_loop_complete [OF this, of "map definition_identity builtin_tools"]
    show "definition_identity n \<in> definition_identity ` set (merge_definitions extra)" by (auto simp: merge_definitions_def)
  qed
qed

subsection \<open>Overrides\<close>

text \<open>An override in the form it is stored in: the unit and the flag are derived, the label is dropped.\<close>

definition stored_form :: "overrides \<Rightarrow> string \<Rightarrow> pricing_override \<Rightarrow> bool" where
  "stored_form defaults k ov \<longleftrightarrow> trim_space k = k \<and> 0 \<le> ov_PriceNanousd ov \<and> length (runes_of (ov_Unit ov)) \<le> 32
     \<and> (\<exists>std. map_of defaults k = Some std \<and> ov = normalized_override std ov)"

definition all_stored :: "overrides \<Rightarrow> overrides \<Rightarrow> bool" where
  "all_stored defaults m \<longleftrightarrow> distinct (map fst m) \<and> (\<forall>k ov. map_of m k = Some ov \<longrightarrow> stored_form defaults k ov)"

declare map_of_eq_Some_iff [simp del]

lemma normalized_override_idem [simp]: "normalized_override std (normalized_override std ov) = normalized_override std ov"
  by (simp add: normalized_override_def)

lemma all_stored_update: "all_stored defaults m \<Longrightarrow> stored_form defaults k ov \<Longrightarrow> all_stored defaults (AList.update k ov m)"
  by (simp add: all_stored_def distinct_update update_conv')

lemma normalize_loop_stored:
  "normalize_loop defaults acc given = Inr m \<Longrightarrow> all_stored defaults acc \<Longrightarrow> all_stored defaults m"
proof (induction given arbitrary: acc)
  case (Cons p given)
  obtain k ov where p: "p = (k, ov)" by (cases p)
  obtain std where std: "map_of defaults (trim_space k) = Some std" and price: "0 \<le> ov_PriceNanousd ov"
    and unit: "length (runes_of (ov_Unit (normalized_override std ov))) \<le> 32"
    and run: "normalize_loop defaults (AList.update (trim_space k) (normalized_override std ov) acc) given = Inr m"
    using Cons.prems(1) by (auto simp: p Let_def split: option.splits if_splits)
  have "stored_form defaults (trim_space k) (normalized_override std ov)"
    using std price unit by (simp add: stored_form_def) (simp add: normalized_override_def)
  from Cons.IH [OF run all_stored_update [OF Cons.prems(2) this]] show ?case .
qed simp

lemma normalize_loop_again:
  "distinct (map fst given) \<Longrightarrow> \<forall>(k, ov)\<in>set given. stored_form defaults k ov
    \<Longrightarrow> \<exists>m. normalize_loop defaults acc given = Inr m
          \<and> (\<forall>k. map_of m k = (case map_of given k of None \<Rightarrow> map_of acc k | Some ov \<Rightarrow> Some ov))"
proof (induction given arbitrary: acc)
  case (Cons p given)
  obtain k ov where p: "p = (k, ov)" by (cases p)
  have ok: "stored_form defaults k ov" using Cons.prems(2) p by simp
  then obtain std where std: "map_of defaults k = Some std" "ov = normalized_override std ov" by (auto simp: stored_form_def)
  have "normalize_loop defaults acc ((k, ov) # given) = normalize_loop defaults (AList.update k ov acc) given"
    using ok std by (simp add: stored_form_def Let_def)
  moreover obtain m where "normalize_loop defaults (AList.update k ov acc) given = Inr m"
      "\<forall>x. map_of m x = (case map_of given x of None \<Rightarrow> map_of (AList.update k ov acc) x | Some ov \<Rightarrow> Some ov)"
    using Cons.IH [of "AList.update k ov acc"] Cons.prems by auto
  moreover have "map_of given k = None" using Cons.prems(1) p by (simp add: map_of_eq_None_iff)
  ultimately show ?case by (auto simp: p update_conv' split: option.splits)
qed simp

text \<open>
  What the JSON library is relied on for: a map written as an object is read back with the same
  members, in any order.
\<close>

definition json_reads_back :: "(overrides \<Rightarrow> string) \<Rightarrow> (string \<Rightarrow> overrides option) \<Rightarrow> overrides \<Rightarrow> bool" where
  "json_reads_back encode decode m \<longleftrightarrow> trim_space (encode m) \<noteq> []
     \<and> (\<exists>m'. decode (trim_space (encode m)) = Some m' \<and> distinct (map fst m') \<and> map_of m' = map_of m)"

text \<open>
  C33: Saved prices are read back as they were saved. Overrides of tool prices that were accepted
  and written to the settings are accepted when they are read, in whatever order the decoder yields them, and mean the same: the same keys
  with the same prices, units and flags.
\<close>

theorem saved_overrides_are_read_back:
  assumes "normalize_pricing_overrides given definitions = Inr m" and "json_reads_back encode decode m"
  shows "\<exists>m'. parse_pricing_overrides decode (encode m) definitions = Inr m' \<and> map_of m' = map_of m"
proof -
  define defaults where "defaults = pricing_overrides_from (pricing_definitions definitions)"
  have m: "all_stored defaults m"
    using normalize_loop_stored [of defaults "[]" given m] assms(1)
    by (simp add: normalize_pricing_overrides_def defaults_def all_stored_def)
  obtain read where read: "trim_space (encode m) \<noteq> []" "decode (trim_space (encode m)) = Some read"
      "distinct (map fst read)" "map_of read = map_of m"
    using assms(2) by (auto simp: json_reads_back_def)
  have "\<forall>(k, ov)\<in>set read. stored_form defaults k ov"
    using m read(4) map_of_is_SomeI [OF read(3)] by (auto simp: all_stored_def)
  from normalize_loop_again [OF read(3) this, of "[]"] obtain m' where
    loop: "normalize_loop defaults [] read = Inr m'" and eq: "\<forall>k. map_of m' k = (case map_of read k of None \<Rightarrow> map_of [] k | Some ov \<Rightarrow> Some ov)"
    by blast
  have "map_of m' = map_of m" using eq unfolding read(4) [symmetric] by (intro ext) (simp split: option.splits)
  with loop show ?thesis
    using read by (auto simp: parse_pricing_overrides_def normalize_pricing_overrides_def defaults_def)
qed

definition sample_override :: pricing_override where
  "sample_override = \<lparr>ov_PriceNanousd = 7, ov_Unit = ''x'', ov_PriceLabel = ''old'', ov_Billable = False\<rparr>"

theorem saved_overrides_are_read_back_witness:
  "\<exists>m m'. map_option ov_PriceNanousd (map_of m ''xai.x_search'') = Some 7
    \<and> parse_pricing_overrides (\<lambda>s. Some m) ''{}'' builtin_tools = Inr m' \<and> map_of m' = map_of m"
proof -
  let ?given = "[('' xai.x_search'', sample_override), (''openai.shell'', sample_override)]"
  have "case normalize_pricing_overrides ?given builtin_tools of
      Inr m \<Rightarrow> map_option ov_PriceNanousd (map_of m ''xai.x_search'') = Some 7 \<and> distinct (map fst m) | Inl e \<Rightarrow> False"
    by code_simp
  then obtain m where m: "normalize_pricing_overrides ?given builtin_tools = Inr m"
    and price: "map_option ov_PriceNanousd (map_of m ''xai.x_search'') = Some 7" and d: "distinct (map fst m)"
    by (cases "normalize_pricing_overrides ?given builtin_tools") auto
  have "trim_space ''{}'' = ''{}''" by code_simp
  then have "json_reads_back (\<lambda>m. ''{}'') (\<lambda>s. Some m) m"
    using d by (simp add: json_reads_back_def)
  from saved_overrides_are_read_back [OF m this] price show ?thesis by blast
qed

subsection \<open>Prices\<close>

text \<open>Three definitions of earlier versions share the name calls are counted under with a later one.\<close>

definition earlier_versions :: "string list" where
  "earlier_versions = [''anthropic.web_search_20250305'', ''anthropic.web_fetch_20250910'', ''anthropic.code_execution_20250825'']"

definition priced_as_listed :: "tool_definition \<Rightarrow> string \<Rightarrow> bool" where
  "priced_as_listed d a \<longleftrightarrow>
     (case usage_pricing_key (nt_Protocol d) a of
        None \<Rightarrow> False
      | Some k \<Rightarrow> trim_space k = k \<and> (k = nt_Key d \<longleftrightarrow> nt_Key d \<notin> set earlier_versions)
          \<and> map_option up_NanousdPerCall (map_of usage_prices_by_key k) = Some (nt_PriceNanousd d))"

lemma builtin_priced_as_listed: "list_all (\<lambda>d. list_all (priced_as_listed d) (nt_UsageAliases d)) builtin_tools"
  by code_simp

text \<open>
  A counted call of a built-in tool costs what the catalogue lists. Under every name the
  upstream counts its calls by, the price of the tool is the listed one as long as its key is not
  overridden; an override with a positive price replaces it and one with price zero makes the calls free. The key is the one of the
  definition, except for the three earlier versions of Anthropic's tools: their calls are priced under the key of the later version,
  so overriding the key of an earlier version changes nothing.
\<close>

theorem calls_cost_what_the_catalogue_lists:
  assumes "d \<in> set builtin_tools" and "a \<in> set (nt_UsageAliases d)"
  shows "\<exists>k. usage_pricing_key (nt_Protocol d) a = Some k \<and> (k = nt_Key d \<longleftrightarrow> nt_Key d \<notin> set earlier_versions)
    \<and> map_option up_NanousdPerCall (usage_price_for_tool (nt_Protocol d) a definitions given)
      = (case map_of given k of
           None \<Rightarrow> Some (nt_PriceNanousd d)
         | Some ov \<Rightarrow> if ov_PriceNanousd ov \<le> 0 then None else Some (ov_PriceNanousd ov))"
proof -
  have "priced_as_listed d a" using builtin_priced_as_listed assms by (simp add: list_all_iff)
  then obtain k price where k: "usage_pricing_key (nt_Protocol d) a = Some k" "trim_space k = k"
      "k = nt_Key d \<longleftrightarrow> nt_Key d \<notin> set earlier_versions"
      "map_of usage_prices_by_key k = Some price" "up_NanousdPerCall price = nt_PriceNanousd d"
    by (auto simp: priced_as_listed_def split: option.splits)
  have "map_option up_NanousdPerCall (usage_price_for_tool (nt_Protocol d) a definitions given)
      = (case map_of given k of None \<Rightarrow> Some (nt_PriceNanousd d)
         | Some ov \<Rightarrow> if ov_PriceNanousd ov \<le> 0 then None else Some (ov_PriceNanousd ov))"
    using k by (simp add: usage_price_for_tool_def usage_price_by_key_def split: option.splits)
  with k show ?thesis by blast
qed

theorem calls_cost_what_the_catalogue_lists_witness:
  "\<exists>d :: tool_definition. nt_Key d = ''anthropic.web_search_20250305''
    \<and> map_option up_NanousdPerCall (usage_price_for_tool (nt_Protocol d) ''web_search'' [] [(''anthropic.web_search_20250305'', sample_override)])
      = Some 10000000"
proof -
  have "case List.find (\<lambda>d. nt_Key d = ''anthropic.web_search_20250305'') builtin_tools of None \<Rightarrow> False
      | Some d \<Rightarrow> ''web_search'' \<in> set (nt_UsageAliases d) \<and> nt_PriceNanousd d = 10000000"
    by code_simp
  then obtain d where "List.find (\<lambda>d. nt_Key d = ''anthropic.web_search_20250305'') builtin_tools = Some d"
    and named: "''web_search'' \<in> set (nt_UsageAliases d)" and price: "nt_PriceNanousd d = 10000000" by (auto split: option.splits)
  then have d: "d \<in> set builtin_tools" "nt_Key d = ''anthropic.web_search_20250305''" by (auto simp: find_Some_iff)
  from calls_cost_what_the_catalogue_lists [OF d(1) named, of "[]" "[(''anthropic.web_search_20250305'', sample_override)]"]
  obtain k where "k \<noteq> ''anthropic.web_search_20250305''"
    "map_option up_NanousdPerCall (usage_price_for_tool (nt_Protocol d) ''web_search'' [] [(''anthropic.web_search_20250305'', sample_override)])
      = (case map_of [(''anthropic.web_search_20250305'', sample_override)] k of None \<Rightarrow> Some (nt_PriceNanousd d)
         | Some ov \<Rightarrow> if ov_PriceNanousd ov \<le> 0 then None else Some (ov_PriceNanousd ov))"
    using d(2) by (auto simp: earlier_versions_def)
  then have "map_option up_NanousdPerCall (usage_price_for_tool (nt_Protocol d) ''web_search'' [] [(''anthropic.web_search_20250305'', sample_override)])
      = Some 10000000"
    using price by simp
  with d(2) show ?thesis by blast
qed

end
