(* ===== verification/Ledger.thy ===== *)
theory Ledger
  imports Authorization NativeTools
begin

text \<open>
  The bill of a call (\<open>application/billing/service.go\<close>): \<open>BuildUsageLedger\<close> turns the usage of a call
  and the price of its model into a row of the ledger, with the snapshot of everything the bill
  was computed from; \<open>buildUsageServiceItems\<close> and its neighbours price the services, provider-native
  tools and MCP tools the call used. \<open>float64\<close> multipliers, JSON and the order in which Go visits
  a map are fields of the record \<open>ledger_ports\<close>.
\<close>

subsection \<open>Data\<close>

record mcp_usage =
  mu_ServerID :: nat
  mu_ServerName :: string
  mu_ToolName :: string
  mu_CallCount :: int
  mu_PriceNanousd :: int

record service_input =
  si_ServiceCode :: string
  si_ServiceName :: string
  si_PlatformModelName :: string
  si_UpstreamModelName :: string
  si_ProviderProtocol :: string
  si_CacheTimeout :: string
  si_RequestSpeed :: string
  si_UsageSpeed :: string
  si_RequestServiceTier :: string
  si_UsageServiceTier :: string
  si_InputTokens :: int
  si_CacheReadTokens :: int
  si_CacheWriteTokens :: int
  si_CacheWrite5mTokens :: int
  si_CacheWrite1hTokens :: int
  si_OutputTokens :: int
  si_ReasoningTokens :: int
  si_CallCount :: int

record usage_input =
  ui_Authorization :: "usage_authorization option"
  ui_UserID :: nat
  ui_ConversationID :: nat
  ui_PlatformModelName :: string
  ui_RoutedBindingCode :: string
  ui_ProviderProtocol :: string
  ui_UpstreamName :: string
  ui_UpstreamModelName :: string
  ui_CacheTimeout :: string
  ui_RequestSpeed :: string
  ui_UsageSpeed :: string
  ui_RequestServiceTier :: string
  ui_UsageServiceTier :: string
  ui_UsageSource :: string
  ui_ServiceOnly :: bool
  ui_InputTokens :: int
  ui_CacheReadTokens :: int
  ui_CacheWriteTokens :: int
  ui_CacheWrite5mTokens :: int
  ui_CacheWrite1hTokens :: int
  ui_OutputTokens :: int
  ui_ReasoningTokens :: int
  ui_CallCount :: int
  ui_DurationBillable :: bool
  ui_DurationSeconds :: int
  ui_MediaType :: string
  ui_InputImageCount :: int
  ui_LatencyMS :: int
  ui_ServerSideToolUsage :: "(string \<times> int) list"
  ui_MCPToolUsage :: "mcp_usage list"
  ui_ServiceItems :: "service_input list"
  ui_RawUsageJSON :: string
  ui_BillingAt :: gotime

record 'f service_item =
  it_ServiceCode :: string
  it_ServiceName :: string
  it_PlatformModelName :: string
  it_ProviderProtocol :: string
  it_CacheTimeout :: string
  it_RequestSpeed :: string
  it_UsageSpeed :: string
  it_BillingSpeed :: string
  it_RequestServiceTier :: string
  it_UsageServiceTier :: string
  it_BillingServiceTier :: string
  it_FastMode :: bool
  it_RateMultiplier :: 'f
  it_PricingMode :: string
  it_InputTokens :: int
  it_CacheReadTokens :: int
  it_CacheWriteTokens :: int
  it_CacheWrite5mTokens :: int
  it_CacheWrite1hTokens :: int
  it_OutputTokens :: int
  it_ReasoningTokens :: int
  it_CallCount :: int
  it_DurationSeconds :: int
  it_InputNanousdPerMTokens :: int
  it_CacheReadNanousdPerMTokens :: int
  it_CacheWriteNanousdPerMTokens :: int
  it_CacheWrite5mNanousdPerMTokens :: int
  it_CacheWrite1hNanousdPerMTokens :: int
  it_OutputNanousdPerMTokens :: int
  it_CallNanousdPerCall :: int
  it_DurationNanousdPerSecond :: int
  it_InputBilledNanousd :: int
  it_CacheReadBilledNanousd :: int
  it_CacheWriteBilledNanousd :: int
  it_CacheWrite5mBilledNanousd :: int
  it_CacheWrite1hBilledNanousd :: int
  it_OutputBilledNanousd :: int
  it_CallBilledNanousd :: int
  it_DurationBilledNanousd :: int
  it_BilledNanousd :: int
  it_TieredFromTokens :: int
  it_TieredUpToTokens :: "int option"

datatype ledger_err = BillErr billing_err | TierErr tier_err

text \<open>
  \<open>lp_catalog\<close> is the catalogue of native tools (\<open>None\<close> when there is none), \<open>lp_tiers\<close> and
  \<open>lp_nanousd\<close> decode stored tiers, \<open>lp_one\<close>, \<open>lp_quotient\<close> and \<open>lp_number\<close> are the \<open>float64\<close>
  one, the quotient of two integers as a \<open>float64\<close> and its JSON text, \<open>lp_decode\<close>, \<open>lp_overrides\<close> and \<open>lp_marshal\<close> the
  JSON package, \<open>lp_visit\<close> the order in which Go visits the entries of a map of counts.
\<close>

record 'f ledger_ports =
  lp_service :: service_ports
  lp_catalog :: "(billing_err + tool_definition list) option"
  lp_tiers :: "string \<Rightarrow> 'f stored_tier list option"
  lp_nanousd :: "'f \<Rightarrow> int"
  lp_one :: 'f
  lp_quotient :: "int \<Rightarrow> int \<Rightarrow> 'f"
  lp_number :: "'f \<Rightarrow> string"
  lp_decode :: "string \<Rightarrow> json option"
  lp_overrides :: "string \<Rightarrow> overrides option"
  lp_marshal :: "json_map \<Rightarrow> string option"
  lp_visit :: "(string \<times> int) list \<Rightarrow> (string \<times> int) list"

subsection \<open>Helpers\<close>

definition parse_bool :: "string \<Rightarrow> bool option" where
  "parse_bool s =
     (if s \<in> set [''1'', ''t'', ''T'', ''TRUE'', ''true'', ''True''] then Some True
      else if s \<in> set [''0'', ''f'', ''F'', ''FALSE'', ''false'', ''False''] then Some False
      else None)"

definition get_native_tool_billing_enabled :: "setting list \<Rightarrow> bool tx" where
  "get_native_tool_billing_enabled settings =
     (case billing_setting ''native_tool_billing_enabled'' settings of
        None \<Rightarrow> Inr True
      | Some item \<Rightarrow> (case parse_bool (trim_space (st_Value item)) of None \<Rightarrow> Inl ErrInvalidInput | Some b \<Rightarrow> Inr b))"

definition get_native_tool_pricing_json :: "setting list \<Rightarrow> string" where
  "get_native_tool_pricing_json settings =
     (case billing_setting ''native_tool_pricing_json'' settings of None \<Rightarrow> [] | Some item \<Rightarrow> trim_space (st_Value item))"

definition native_tool_definitions :: "'f ledger_ports \<Rightarrow> billing_err + tool_definition list" where
  "native_tool_definitions ports = (case lp_catalog ports of None \<Rightarrow> Inr builtin_tools | Some answer \<Rightarrow> answer)"

definition resolve_group_rate_percent :: "service_ports \<Rightarrow> nat \<Rightarrow> nat \<Rightarrow> nat option \<Rightarrow> billing_err + int" where
  "resolve_group_rate_percent ports userID platformModelID subscriptionGroupID =
     (case sp_group_rate ports of
        None \<Rightarrow> Inr 100
      | Some resolve \<Rightarrow>
          if userID = 0 then Inr 100
          else resolve userID platformModelID (case subscriptionGroupID of None \<Rightarrow> [] | Some g \<Rightarrow> [g]))"

definition billing_rate_multiplier_value :: "'f ledger_ports \<Rightarrow> billing_rate_multiplier \<Rightarrow> 'f" where
  "billing_rate_multiplier_value ports multiplier =
     (let m = normalize_billing_rate_multiplier multiplier in lp_quotient ports (bm_Numerator m) (bm_Denominator m))"

definition upstream_usage_snapshot :: "'f ledger_ports \<Rightarrow> usage_input \<Rightarrow> json" where
  "upstream_usage_snapshot ports input =
     (let raw = trim_space (ui_RawUsageJSON input)
      in if raw = [] then JObject []
         else case lp_decode ports raw of
                Some (JObject m) \<Rightarrow> JObject m
              | Some (JArray xs) \<Rightarrow> JArray xs
              | _ \<Rightarrow> JObject [])"

definition add_count :: "string \<times> int \<Rightarrow> (string \<times> int) list \<Rightarrow> (string \<times> int) list" where
  "add_count entry counts =
     (case entry of (key, v) \<Rightarrow>
        let k = trim_space key
        in if k = [] \<or> v \<le> 0 then counts
           else AList.update k (wrap64 ((case map_of counts k of None \<Rightarrow> 0 | Some n \<Rightarrow> n) + v)) counts)"

definition normalize_usage_count_map :: "(string \<times> int) list \<Rightarrow> (string \<times> int) list" where
  "normalize_usage_count_map items = fold add_count items []"

definition or_unknown :: "string \<Rightarrow> string" where
  "or_unknown s = (if trim_space s = [] then ''unknown'' else trim_space s)"

definition native_tool_service_code :: "string \<Rightarrow> string \<Rightarrow> string" where
  "native_tool_service_code provider toolName = ''native_tool.'' @ or_unknown provider @ ''.'' @ or_unknown toolName"

definition mcp_tool_service_code :: "string \<Rightarrow> string \<Rightarrow> string" where
  "mcp_tool_service_code serverName toolName = ''mcp_tool.'' @ or_unknown serverName @ ''.'' @ or_unknown toolName"

definition mcp_tool_service_name :: "string \<Rightarrow> string \<Rightarrow> string" where
  "mcp_tool_service_name serverName toolName =
     (let server = trim_space serverName; tool = trim_space toolName
      in if server = [] then tool else if tool = [] then server else server @ '' / '' @ tool)"

definition native_tool_pricing_source :: "'f ledger_ports \<Rightarrow> string \<Rightarrow> tool_definition list \<Rightarrow> string" where
  "native_tool_pricing_source ports raw definitions =
     (if overrides_use_defaults (lp_overrides ports) raw definitions then ''provider_official_defaults''
      else ''admin_configured'')"

subsection \<open>Rates and tokens\<close>

record token_rates =
  tr_input :: int
  tr_cacheRead :: int
  tr_cacheWrite :: int
  tr_cacheWrite5m :: int
  tr_cacheWrite1h :: int
  tr_output :: int

record token_counts =
  tk_input :: int
  tk_cacheRead :: int
  tk_cacheWrite :: int
  tk_cacheWrite5m :: int
  tk_cacheWrite1h :: int
  tk_output :: int
  tk_reasoning :: int

record token_amounts =
  ta_input :: int
  ta_cacheRead :: int
  ta_cacheWrite :: int
  ta_output :: int

definition no_rates :: token_rates where
  "no_rates = \<lparr>tr_input = 0, tr_cacheRead = 0, tr_cacheWrite = 0, tr_cacheWrite5m = 0, tr_cacheWrite1h = 0, tr_output = 0\<rparr>"

definition no_amounts :: token_amounts where
  "no_amounts = \<lparr>ta_input = 0, ta_cacheRead = 0, ta_cacheWrite = 0, ta_output = 0\<rparr>"

definition base_rates :: "string \<Rightarrow> string \<Rightarrow> int \<Rightarrow> int \<Rightarrow> int \<Rightarrow> int \<Rightarrow> token_rates" where
  "base_rates providerProtocol cacheTimeout input cacheRead cacheWrite output =
     \<lparr>tr_input = input, tr_cacheRead = cacheRead,
      tr_cacheWrite = resolve_cache_write_rate cacheWrite providerProtocol cacheTimeout,
      tr_cacheWrite5m = resolve_cache_write_rate cacheWrite providerProtocol ''5m'',
      tr_cacheWrite1h = resolve_cache_write_rate cacheWrite providerProtocol ''1h'', tr_output = output\<rparr>"

definition model_rates :: "string \<Rightarrow> string \<Rightarrow> model_pricing \<Rightarrow> token_rates" where
  "model_rates providerProtocol cacheTimeout pricing =
     base_rates providerProtocol cacheTimeout (mp_InputNanousdPerMTokens pricing) (mp_CacheReadNanousdPerMTokens pricing)
       (mp_CacheWriteNanousdPerMTokens pricing) (mp_OutputNanousdPerMTokens pricing)"

definition tier_rates :: "string \<Rightarrow> string \<Rightarrow> pricing_tier \<Rightarrow> token_rates" where
  "tier_rates providerProtocol cacheTimeout tier =
     base_rates providerProtocol cacheTimeout (pt_input tier) (pt_cacheRead tier) (pt_cacheWrite tier) (pt_output tier)"

definition multiplied :: "billing_rate_multiplier \<Rightarrow> token_rates \<Rightarrow> token_rates" where
  "multiplied m r =
     \<lparr>tr_input = apply_rate_multiplier (tr_input r) m, tr_cacheRead = apply_rate_multiplier (tr_cacheRead r) m,
      tr_cacheWrite = apply_rate_multiplier (tr_cacheWrite r) m, tr_cacheWrite5m = apply_rate_multiplier (tr_cacheWrite5m r) m,
      tr_cacheWrite1h = apply_rate_multiplier (tr_cacheWrite1h r) m, tr_output = apply_rate_multiplier (tr_output r) m\<rparr>"

definition token_bill :: "token_counts \<Rightarrow> token_rates \<Rightarrow> token_amounts" where
  "token_bill n r =
     \<lparr>ta_input = calc_nanousd_by_token (tk_input n) (tr_input r),
      ta_cacheRead = calc_nanousd_by_token (tk_cacheRead n) (tr_cacheRead r),
      ta_cacheWrite = calc_cache_write_billed_nanousd (tk_cacheWrite n) (tk_cacheWrite5m n) (tk_cacheWrite1h n)
        (tr_cacheWrite r) (tr_cacheWrite5m r) (tr_cacheWrite1h r),
      ta_output = calc_nanousd_by_token (wrap64 (tk_output n + tk_reasoning n)) (tr_output r)\<rparr>"

subsection \<open>The bill of the model\<close>

record model_bill =
  mb_base :: token_rates
  mb_rates :: token_rates
  mb_baseCall :: int
  mb_call :: int
  mb_baseDuration :: int
  mb_duration :: int
  mb_tokens :: token_amounts
  mb_callBilled :: int
  mb_durationBilled :: int
  mb_fromTokens :: int
  mb_upToTokens :: "int option"

definition no_bill :: model_bill where
  "no_bill = \<lparr>mb_base = no_rates, mb_rates = no_rates, mb_baseCall = 0, mb_call = 0, mb_baseDuration = 0, mb_duration = 0,
     mb_tokens = no_amounts, mb_callBilled = 0, mb_durationBilled = 0, mb_fromTokens = 0, mb_upToTokens = None\<rparr>"

definition priced_rates ::
  "'f ledger_ports \<Rightarrow> string \<Rightarrow> string \<Rightarrow> billing_rate_multiplier \<Rightarrow> model_pricing \<Rightarrow> ledger_err + model_bill \<times> pricing_tier list" where
  \<comment> \<open>the rates of a charged call; tiers are resolved later\<close>
  "priced_rates ports providerProtocol cacheTimeout m pricing =
     (let mode = normalize_pricing_mode (mp_PricingMode pricing); base = model_rates providerProtocol cacheTimeout pricing
      in if mode = ''call'' then
           Inr (no_bill\<lparr>mb_baseCall := mp_CallNanousdPerCall pricing,
             mb_call := apply_rate_multiplier (mp_CallNanousdPerCall pricing) m\<rparr>, [])
         else if mode = ''duration'' then
           Inr (no_bill\<lparr>mb_baseDuration := mp_DurationNanousdPerSecond pricing,
             mb_duration := apply_rate_multiplier (mp_DurationNanousdPerSecond pricing) m\<rparr>, [])
         else if mode = ''tiered'' then
           (case parse_tiered_pricing_tiers (lp_tiers ports) (lp_nanousd ports) (trim_space (mp_TieredPricingJSON pricing)) of
              Inl e \<Rightarrow> Inl (TierErr e)
            | Inr tiers \<Rightarrow> Inr (no_bill, tiers))
         else Inr (no_bill\<lparr>mb_base := base, mb_rates := multiplied m base\<rparr>, []))"

definition metered ::
  "string \<Rightarrow> string \<Rightarrow> string \<Rightarrow> billing_rate_multiplier \<Rightarrow> token_counts \<Rightarrow> int \<Rightarrow> int \<Rightarrow> pricing_tier list \<Rightarrow> model_bill
   \<Rightarrow> model_bill" where
  \<comment> \<open>the usage at the rates, by the pricing mode\<close>
  "metered pricingMode providerProtocol cacheTimeout m counts callCount durationSeconds tiers bill =
     (if pricingMode = ''call'' then bill\<lparr>mb_callBilled := wrap64 (callCount * mb_call bill)\<rparr>
      else if pricingMode = ''duration'' then bill\<lparr>mb_durationBilled := wrap64 (durationSeconds * mb_duration bill)\<rparr>
      else if pricingMode = ''tiered'' then
        (let resolved = resolve_tiered_pricing_tier
               (tiered_pricing_input_tokens (tk_input counts) (tk_cacheRead counts) (tk_cacheWrite counts)) tiers;
             base = tier_rates providerProtocol cacheTimeout (re_tier resolved)
         in bill\<lparr>mb_base := base, mb_rates := multiplied m base, mb_tokens := token_bill counts (multiplied m base),
              mb_fromTokens := re_fromTokens resolved, mb_upToTokens := re_upToTokens resolved\<rparr>)
      else bill\<lparr>mb_tokens := token_bill counts (mb_rates bill)\<rparr>)"

subsection \<open>Services, native tools and MCP tools\<close>

definition empty_item :: "'f \<Rightarrow> 'f service_item" where
  "empty_item multiplier =
     \<lparr>it_ServiceCode = [], it_ServiceName = [], it_PlatformModelName = [], it_ProviderProtocol = [], it_CacheTimeout = [],
      it_RequestSpeed = [], it_UsageSpeed = [], it_BillingSpeed = [], it_RequestServiceTier = [], it_UsageServiceTier = [],
      it_BillingServiceTier = [], it_FastMode = False, it_RateMultiplier = multiplier, it_PricingMode = [],
      it_InputTokens = 0, it_CacheReadTokens = 0, it_CacheWriteTokens = 0, it_CacheWrite5mTokens = 0, it_CacheWrite1hTokens = 0,
      it_OutputTokens = 0, it_ReasoningTokens = 0, it_CallCount = 0, it_DurationSeconds = 0,
      it_InputNanousdPerMTokens = 0, it_CacheReadNanousdPerMTokens = 0, it_CacheWriteNanousdPerMTokens = 0,
      it_CacheWrite5mNanousdPerMTokens = 0, it_CacheWrite1hNanousdPerMTokens = 0, it_OutputNanousdPerMTokens = 0,
      it_CallNanousdPerCall = 0, it_DurationNanousdPerSecond = 0, it_InputBilledNanousd = 0, it_CacheReadBilledNanousd = 0,
      it_CacheWriteBilledNanousd = 0, it_CacheWrite5mBilledNanousd = 0, it_CacheWrite1hBilledNanousd = 0,
      it_OutputBilledNanousd = 0, it_CallBilledNanousd = 0, it_DurationBilledNanousd = 0, it_BilledNanousd = 0,
      it_TieredFromTokens = 0, it_TieredUpToTokens = None\<rparr>"

definition service_multiplier :: "service_input \<Rightarrow> billing_rate_multiplier" where
  "service_multiplier input =
     resolve_usage_rate_multiplier (si_ProviderProtocol input) (si_PlatformModelName input) (si_UpstreamModelName input)
       (is_anthropic_fast_mode (si_ProviderProtocol input) (normalize_usage_speed (si_UsageSpeed input))
         (normalize_usage_speed (si_RequestSpeed input)))
       (resolve_billing_service_tier (si_ProviderProtocol input) (normalize_openai_service_tier (si_UsageServiceTier input)))"

definition service_item_of :: "'f ledger_ports \<Rightarrow> service_input \<Rightarrow> 'f service_item" where
  \<comment> \<open>the item before it is priced\<close>
  "service_item_of ports input =
     (let protocol = si_ProviderProtocol input;
          usageSpeed = normalize_usage_speed (si_UsageSpeed input);
          requestSpeed = normalize_usage_speed (si_RequestSpeed input);
          usageServiceTier = normalize_openai_service_tier (si_UsageServiceTier input);
          code = trim_space (si_ServiceCode input);
          (cacheWrite, cacheWrite5m, cacheWrite1h) = normalize_cache_write_token_breakdown (si_CacheWriteTokens input)
            (si_CacheWrite5mTokens input) (si_CacheWrite1hTokens input) protocol (si_CacheTimeout input)
      in (empty_item (billing_rate_multiplier_value ports (service_multiplier input)))
           \<lparr>it_ServiceCode := code,
            it_ServiceName := or_else (trim_space (si_ServiceName input)) code,
            it_PlatformModelName := trim_space (si_PlatformModelName input),
            it_ProviderProtocol := trim_space protocol,
            it_CacheTimeout := billing_cache_timeout_snapshot protocol (si_CacheTimeout input),
            it_RequestSpeed := requestSpeed, it_UsageSpeed := usageSpeed,
            it_BillingSpeed := resolve_billing_speed protocol usageSpeed requestSpeed,
            it_RequestServiceTier := normalize_openai_service_tier (si_RequestServiceTier input),
            it_UsageServiceTier := usageServiceTier,
            it_BillingServiceTier := resolve_billing_service_tier protocol usageServiceTier,
            it_FastMode := is_anthropic_fast_mode protocol usageSpeed requestSpeed,
            it_PricingMode := ''token'',
            it_InputTokens := clamp_non_negative (si_InputTokens input),
            it_CacheReadTokens := clamp_non_negative (si_CacheReadTokens input),
            it_CacheWriteTokens := cacheWrite, it_CacheWrite5mTokens := cacheWrite5m, it_CacheWrite1hTokens := cacheWrite1h,
            it_OutputTokens := clamp_non_negative (si_OutputTokens input),
            it_ReasoningTokens := clamp_non_negative (si_ReasoningTokens input),
            it_CallCount := (if si_CallCount input \<le> 0 then 1 else si_CallCount input)\<rparr>)"

definition item_counts :: "'f service_item \<Rightarrow> token_counts" where
  "item_counts item =
     \<lparr>tk_input = it_InputTokens item, tk_cacheRead = it_CacheReadTokens item, tk_cacheWrite = it_CacheWriteTokens item,
      tk_cacheWrite5m = it_CacheWrite5mTokens item, tk_cacheWrite1h = it_CacheWrite1hTokens item,
      tk_output = it_OutputTokens item, tk_reasoning = it_ReasoningTokens item\<rparr>"

definition item_at_rates :: "token_rates \<Rightarrow> 'f service_item \<Rightarrow> 'f service_item" where
  "item_at_rates r item =
     (let bill = token_bill (item_counts item) r
      in item\<lparr>it_InputNanousdPerMTokens := tr_input r, it_CacheReadNanousdPerMTokens := tr_cacheRead r,
           it_CacheWrite5mNanousdPerMTokens := tr_cacheWrite5m r, it_CacheWrite1hNanousdPerMTokens := tr_cacheWrite1h r,
           it_OutputNanousdPerMTokens := tr_output r,
           it_InputBilledNanousd := ta_input bill, it_CacheReadBilledNanousd := ta_cacheRead bill,
           it_CacheWriteBilledNanousd := ta_cacheWrite bill,
           it_CacheWrite5mBilledNanousd := calc_nanousd_by_token (it_CacheWrite5mTokens item) (tr_cacheWrite5m r),
           it_CacheWrite1hBilledNanousd := calc_nanousd_by_token (it_CacheWrite1hTokens item) (tr_cacheWrite1h r),
           it_CacheWriteNanousdPerMTokens :=
             resolve_snapshot_rate_from_billed (it_CacheWriteTokens item) (ta_cacheWrite bill) (tr_cacheWrite r),
           it_OutputBilledNanousd := ta_output bill\<rparr>)"

definition item_total :: "'f service_item \<Rightarrow> int" where
  "item_total item =
     wrap64 (it_InputBilledNanousd item + it_CacheReadBilledNanousd item + it_CacheWriteBilledNanousd item
       + it_OutputBilledNanousd item + it_CallBilledNanousd item + it_DurationBilledNanousd item)"

definition priced_item ::
  "'f ledger_ports \<Rightarrow> service_input \<Rightarrow> billing_rate_multiplier \<Rightarrow> model_pricing \<Rightarrow> 'f service_item \<Rightarrow> ledger_err + 'f service_item" where
  "priced_item ports input m pricing item0 =
     (let mode = normalize_pricing_mode (mp_PricingMode pricing);
          protocol = si_ProviderProtocol input; timeout = si_CacheTimeout input;
          item = item0\<lparr>it_PricingMode := mode\<rparr>;
          total = (\<lambda>i. i\<lparr>it_BilledNanousd := item_total i\<rparr>)
      in if mode = ''call'' then
           (let rate = apply_rate_multiplier (mp_CallNanousdPerCall pricing) m
            in Inr (total (item\<lparr>it_CallNanousdPerCall := rate, it_CallBilledNanousd := wrap64 (it_CallCount item * rate)\<rparr>)))
         else if mode = ''duration'' then
           (let rate = apply_rate_multiplier (mp_DurationNanousdPerSecond pricing) m
            in Inr (total (item\<lparr>it_DurationNanousdPerSecond := rate,
                 it_DurationBilledNanousd := wrap64 (it_DurationSeconds item * rate)\<rparr>)))
         else if mode = ''tiered'' then
           (case parse_tiered_pricing_tiers (lp_tiers ports) (lp_nanousd ports) (mp_TieredPricingJSON pricing) of
              Inl e \<Rightarrow> Inl (TierErr e)
            | Inr tiers \<Rightarrow>
                let resolved = resolve_tiered_pricing_tier
                      (tiered_pricing_input_tokens (it_InputTokens item) (it_CacheReadTokens item) (it_CacheWriteTokens item)) tiers
                in Inr (total (item_at_rates (multiplied m (tier_rates protocol timeout (re_tier resolved)))
                     (item\<lparr>it_TieredFromTokens := re_fromTokens resolved, it_TieredUpToTokens := re_upToTokens resolved\<rparr>))))
         else Inr (total (item_at_rates (multiplied m (model_rates protocol timeout pricing)) item)))"

definition zero_identity :: model_identity where
  "zero_identity = \<lparr>mi_PlatformModelID = 0, mi_PlatformModelName = [], mi_ModelVendor = [], mi_ModelIcon = []\<rparr>"

definition found_identity :: "service_ports \<Rightarrow> string \<Rightarrow> ledger_err + model_identity" where
  \<comment> \<open>an unknown model has the zero identity\<close>
  "found_identity ports name =
     (case resolve_platform_model_identity ports name of
        Inl e \<Rightarrow> if e = ErrNotFound then Inr zero_identity else Inl (BillErr (RepoErr e))
      | Inr identity \<Rightarrow> Inr identity)"

definition found_pricing :: "model_pricing list \<Rightarrow> string \<Rightarrow> ledger_err + model_pricing option" where
  "found_pricing prices name =
     (case get_model_pricing prices name of
        Inl e \<Rightarrow> if e = ErrNotFound then Inr None else Inl (BillErr (RepoErr e))
      | Inr p \<Rightarrow> Inr (Some p))"

definition group_multiplier ::
  "service_ports \<Rightarrow> string \<Rightarrow> nat \<Rightarrow> nat \<Rightarrow> nat option \<Rightarrow> billing_rate_multiplier \<Rightarrow> ledger_err + billing_rate_multiplier" where
  "group_multiplier ports mode userID platformModelID subscriptionGroupID m =
     (if mode = ''self'' then Inr m
      else case resolve_group_rate_percent ports userID platformModelID subscriptionGroupID of
             Inl e \<Rightarrow> Inl (BillErr e)
           | Inr percent \<Rightarrow> Inr (compose_group_rate_percent m percent))"

definition build_usage_service_item ::
  "'f ledger_ports \<Rightarrow> model_pricing list \<Rightarrow> string \<Rightarrow> nat \<Rightarrow> nat option \<Rightarrow> service_input \<Rightarrow> ledger_err + 'f service_item" where
  "build_usage_service_item ports prices mode userID subscriptionGroupID input =
     (let item = service_item_of ports input
      in and_then (found_identity (lp_service ports) (it_PlatformModelName item)) (\<lambda>identity.
         and_then (group_multiplier (lp_service ports) mode userID (mi_PlatformModelID identity) subscriptionGroupID
             (service_multiplier input)) (\<lambda>m.
         let item = item\<lparr>it_RateMultiplier := billing_rate_multiplier_value ports m\<rparr>;
             name = or_else (trim_space (mi_PlatformModelName identity)) (it_PlatformModelName item)
         in and_then (if name = [] then Inr None else found_pricing prices name) (\<lambda>pricing.
            if mode = ''self'' then Inr item
            else case pricing of
                   None \<Rightarrow> Inl (BillErr ErrModelPricingRequired)
                 | Some p \<Rightarrow> if mp_IsFree p then Inr item else priced_item ports input m p item))))"

definition items_total :: "'f service_item list \<Rightarrow> int" where
  "items_total items = fold (\<lambda>item total. wrap64 (total + it_BilledNanousd item)) items 0"

fun service_items ::
  "'f ledger_ports \<Rightarrow> model_pricing list \<Rightarrow> string \<Rightarrow> nat \<Rightarrow> nat option \<Rightarrow> service_input list \<Rightarrow> ledger_err + 'f service_item list" where
  "service_items ports prices mode userID subscriptionGroupID [] = Inr []"
| "service_items ports prices mode userID subscriptionGroupID (input # inputs) =
     and_then (build_usage_service_item ports prices mode userID subscriptionGroupID input) (\<lambda>item.
     and_then (service_items ports prices mode userID subscriptionGroupID inputs) (\<lambda>items. Inr (item # items)))"

definition build_usage_service_items ::
  "'f ledger_ports \<Rightarrow> model_pricing list \<Rightarrow> string \<Rightarrow> nat \<Rightarrow> nat option \<Rightarrow> service_input list
   \<Rightarrow> ledger_err + 'f service_item list \<times> int" where
  "build_usage_service_items ports prices mode userID subscriptionGroupID inputs =
     and_then (service_items ports prices mode userID subscriptionGroupID inputs) (\<lambda>items. Inr (items, items_total items))"

definition per_call_item :: "'f ledger_ports \<Rightarrow> usage_input \<Rightarrow> string \<Rightarrow> string \<Rightarrow> int \<Rightarrow> int \<Rightarrow> 'f service_item" where
  "per_call_item ports input code name callCount nanousdPerCall =
     (empty_item (lp_one ports))
       \<lparr>it_ServiceCode := code, it_ServiceName := name, it_PlatformModelName := trim_space (ui_PlatformModelName input),
        it_ProviderProtocol := trim_space (ui_ProviderProtocol input), it_PricingMode := ''call'',
        it_CallCount := callCount, it_CallNanousdPerCall := nanousdPerCall,
        it_CallBilledNanousd := wrap64 (callCount * nanousdPerCall), it_BilledNanousd := wrap64 (callCount * nanousdPerCall)\<rparr>"

definition native_tool_item ::
  "'f ledger_ports \<Rightarrow> usage_input \<Rightarrow> overrides \<Rightarrow> tool_definition list \<Rightarrow> string \<times> int \<Rightarrow> 'f service_item option" where
  "native_tool_item ports input pricingOverrides definitions entry =
     (case entry of (toolName, count) \<Rightarrow>
        (case usage_price_for_tool (ui_ProviderProtocol input) toolName definitions pricingOverrides of
           None \<Rightarrow> None
         | Some price \<Rightarrow>
             if up_NanousdPerCall price \<le> 0 \<or> count \<le> 0 then None
             else Some (per_call_item ports input (native_tool_service_code (up_Provider price) toolName)
                    (up_ServiceName price) count (up_NanousdPerCall price))))"

definition build_native_tool_service_items ::
  "'f ledger_ports \<Rightarrow> usage_input \<Rightarrow> string \<Rightarrow> bool \<Rightarrow> bool \<Rightarrow> overrides \<Rightarrow> tool_definition list \<Rightarrow> 'f service_item list \<times> int" where
  "build_native_tool_service_items ports input mode isFreeModel enabled pricingOverrides definitions =
     (if mode = ''self'' \<or> isFreeModel \<or> \<not> enabled \<or> ui_ServerSideToolUsage input = [] then ([], 0)
      else let counts = lp_visit ports (normalize_usage_count_map (ui_ServerSideToolUsage input));
               items = List.map_filter (native_tool_item ports input pricingOverrides definitions) counts
           in (items, items_total items))"

definition mcp_tool_item :: "'f ledger_ports \<Rightarrow> usage_input \<Rightarrow> mcp_usage \<Rightarrow> 'f service_item option" where
  "mcp_tool_item ports input u =
     (if mu_CallCount u \<le> 0 \<or> mu_PriceNanousd u \<le> 0 then None
      else Some (per_call_item ports input (mcp_tool_service_code (mu_ServerName u) (mu_ToolName u))
             (mcp_tool_service_name (mu_ServerName u) (mu_ToolName u)) (mu_CallCount u) (mu_PriceNanousd u)))"

definition build_mcp_tool_service_items :: "'f ledger_ports \<Rightarrow> usage_input \<Rightarrow> string \<Rightarrow> 'f service_item list \<times> int" where
  "build_mcp_tool_service_items ports input mode =
     (if mode = ''self'' then ([], 0)
      else let items = List.map_filter (mcp_tool_item ports input) (ui_MCPToolUsage input) in (items, items_total items))"

subsection \<open>Snapshots\<close>

definition number :: "int \<Rightarrow> json" where
  "number n = JNumber (itoa n)"

definition mcp_tool_usage_snapshots :: "mcp_usage list \<Rightarrow> json" where
  "mcp_tool_usage_snapshots items =
     JArray (map (\<lambda>u. JObject
         [(''server_id'', number (int (mu_ServerID u))), (''server_name'', JString (trim_space (mu_ServerName u))),
          (''tool_name'', JString (trim_space (mu_ToolName u))), (''call_count'', number (mu_CallCount u)),
          (''price_nanousd'', number (mu_PriceNanousd u))])
       (filter (\<lambda>u. 0 < mu_CallCount u) items))"

definition usage_service_item_snapshot :: "'f ledger_ports \<Rightarrow> 'f service_item \<Rightarrow> json" where
  "usage_service_item_snapshot ports item =
     JObject
       [(''service_code'', JString (it_ServiceCode item)),
        (''service_name'', JString (it_ServiceName item)),
        (''platform_model_name'', JString (it_PlatformModelName item)),
        (''provider_protocol'', JString (it_ProviderProtocol item)),
        (''cache_timeout'', JString (it_CacheTimeout item)),
        (''request_speed'', JString (it_RequestSpeed item)),
        (''usage_speed'', JString (it_UsageSpeed item)),
        (''billing_speed'', JString (it_BillingSpeed item)),
        (''request_service_tier'', JString (it_RequestServiceTier item)),
        (''usage_service_tier'', JString (it_UsageServiceTier item)),
        (''billing_service_tier'', JString (it_BillingServiceTier item)),
        (''fast_mode'', JBool (it_FastMode item)),
        (''rate_multiplier'', JNumber (lp_number ports (it_RateMultiplier item))),
        (''pricing_mode'', JString (it_PricingMode item)),
        (''input_tokens'', number (it_InputTokens item)),
        (''cache_read_tokens'', number (it_CacheReadTokens item)),
        (''cache_write_tokens'', number (it_CacheWriteTokens item)),
        (''cache_write_5m_tokens'', number (it_CacheWrite5mTokens item)),
        (''cache_write_1h_tokens'', number (it_CacheWrite1hTokens item)),
        (''output_tokens'', number (it_OutputTokens item)),
        (''reasoning_tokens'', number (it_ReasoningTokens item)),
        (''call_count'', number (it_CallCount item)),
        (''duration_seconds'', number (it_DurationSeconds item)),
        (''input_nanousd_per_m_tokens'', number (it_InputNanousdPerMTokens item)),
        (''cache_read_nanousd_per_m_tokens'', number (it_CacheReadNanousdPerMTokens item)),
        (''cache_write_nanousd_per_m_tokens'', number (it_CacheWriteNanousdPerMTokens item)),
        (''cache_write_5m_nanousd_per_m_tokens'', number (it_CacheWrite5mNanousdPerMTokens item)),
        (''cache_write_1h_nanousd_per_m_tokens'', number (it_CacheWrite1hNanousdPerMTokens item)),
        (''output_nanousd_per_m_tokens'', number (it_OutputNanousdPerMTokens item)),
        (''call_nanousd_per_call'', number (it_CallNanousdPerCall item)),
        (''duration_nanousd_per_second'', number (it_DurationNanousdPerSecond item)),
        (''tiered_from_tokens'', number (it_TieredFromTokens item)),
        (''tiered_up_to_tokens'', (case it_TieredUpToTokens item of None \<Rightarrow> JNull | Some n \<Rightarrow> number n)),
        (''input_billed_nanousd'', number (it_InputBilledNanousd item)),
        (''cache_read_billed_nanousd'', number (it_CacheReadBilledNanousd item)),
        (''cache_write_billed_nanousd'', number (it_CacheWriteBilledNanousd item)),
        (''cache_write_5m_billed_nanousd'', number (it_CacheWrite5mBilledNanousd item)),
        (''cache_write_1h_billed_nanousd'', number (it_CacheWrite1hBilledNanousd item)),
        (''output_billed_nanousd'', number (it_OutputBilledNanousd item)),
        (''call_billed_nanousd'', number (it_CallBilledNanousd item)),
        (''duration_billed_nanousd'', number (it_DurationBilledNanousd item)),
        (''billed_nanousd'', number (it_BilledNanousd item))]"

subsection \<open>The ledger\<close>

text \<open>What \<open>BuildUsageLedger\<close> has computed when it comes to write the snapshot and the row.\<close>

record 'f usage_charges =
  uc_mode :: string
  uc_identity :: model_identity
  uc_pricing :: "model_pricing option"
  uc_multiplier :: billing_rate_multiplier
  uc_counts :: token_counts
  uc_bill :: model_bill
  uc_items :: "'f service_item list"
  uc_nativeEnabled :: bool
  uc_nativeJSON :: string
  uc_definitions :: "tool_definition list"
  uc_native :: int
  uc_mcp :: int
  uc_service :: int

definition usage_multiplier :: "usage_input \<Rightarrow> billing_rate_multiplier" where
  "usage_multiplier input =
     (let protocol = trim_space (ui_ProviderProtocol input)
      in resolve_usage_rate_multiplier protocol (trim_space (ui_PlatformModelName input)) (ui_UpstreamModelName input)
           (is_anthropic_fast_mode protocol (normalize_usage_speed (ui_UsageSpeed input)) (normalize_usage_speed (ui_RequestSpeed input)))
           (resolve_billing_service_tier protocol (normalize_openai_service_tier (ui_UsageServiceTier input))))"

definition usage_counts :: "usage_input \<Rightarrow> token_counts" where
  "usage_counts input =
     (case normalize_cache_write_token_breakdown (ui_CacheWriteTokens input) (ui_CacheWrite5mTokens input)
         (ui_CacheWrite1hTokens input) (trim_space (ui_ProviderProtocol input)) (ui_CacheTimeout input) of
        (cacheWrite, cacheWrite5m, cacheWrite1h) \<Rightarrow>
          \<lparr>tk_input = ui_InputTokens input, tk_cacheRead = ui_CacheReadTokens input, tk_cacheWrite = cacheWrite,
           tk_cacheWrite5m = cacheWrite5m, tk_cacheWrite1h = cacheWrite1h, tk_output = ui_OutputTokens input,
           tk_reasoning = ui_ReasoningTokens input\<rparr>)"

definition subscription_group :: "billing_db \<Rightarrow> string \<Rightarrow> nat \<Rightarrow> gotime \<Rightarrow> nat option" where
  "subscription_group db mode userID now =
     (if mode = ''self'' then None
      else case get_current_subscription_snapshot (tb_rows (bd_subscriptions db)) (bd_plans db) userID now of
             None \<Rightarrow> None
           | Some snap \<Rightarrow> ss_PermissionGroupID snap)"

definition charged :: "string \<Rightarrow> usage_input \<Rightarrow> bool" where
  \<comment> \<open>the call itself is to be paid, not only the services it used\<close>
  "charged mode input \<longleftrightarrow> mode \<noteq> ''self'' \<and> \<not> ui_ServiceOnly input"

definition price_required :: "string \<Rightarrow> usage_input \<Rightarrow> model_pricing option \<Rightarrow> ledger_err + unit" where
  "price_required mode input pricing =
     (if \<not> charged mode input then Inr ()
      else case pricing of
             None \<Rightarrow> Inl (BillErr ErrModelPricingRequired)
           | Some p \<Rightarrow>
               if \<not> mp_IsFree p \<and> normalize_pricing_mode (mp_PricingMode p) = ''duration''
                  \<and> (\<not> ui_DurationBillable input \<or> ui_DurationSeconds input \<le> 0)
               then Inl (BillErr ErrModelPricingRequired) else Inr ())"

definition used_pricing_mode :: "model_pricing option \<Rightarrow> string" where
  "used_pricing_mode pricing = (case pricing of None \<Rightarrow> ''token'' | Some p \<Rightarrow> normalize_pricing_mode (mp_PricingMode p))"

definition is_free_model :: "model_pricing option \<Rightarrow> bool" where
  "is_free_model pricing = (case pricing of None \<Rightarrow> False | Some p \<Rightarrow> mp_IsFree p)"

definition call_count :: "usage_input \<Rightarrow> int" where
  "call_count input = (if ui_CallCount input \<le> 0 then 1 else ui_CallCount input)"

definition duration_seconds :: "usage_input \<Rightarrow> int" where
  "duration_seconds input = (if ui_DurationBillable input then clamp_non_negative (ui_DurationSeconds input) else 0)"

definition model_bill_of ::
  "'f ledger_ports \<Rightarrow> string \<Rightarrow> usage_input \<Rightarrow> model_pricing option \<Rightarrow> billing_rate_multiplier \<Rightarrow> ledger_err + model_bill" where
  "model_bill_of ports mode input pricing m =
     (let protocol = trim_space (ui_ProviderProtocol input); timeout = ui_CacheTimeout input
      in and_then (if \<not> charged mode input then Inr (no_bill, [])
            else case pricing of
                   None \<Rightarrow> Inr (no_bill, [])
                 | Some p \<Rightarrow> if mp_IsFree p then Inr (no_bill, []) else priced_rates ports protocol timeout m p)
           (\<lambda>(bill, tiers). Inr (if ui_ServiceOnly input then bill
              else metered (used_pricing_mode pricing) protocol timeout m (usage_counts input) (call_count input)
                     (duration_seconds input) tiers bill)))"

definition usage_charges_of ::
  "'f ledger_ports \<Rightarrow> gotime \<Rightarrow> setting list \<Rightarrow> model_pricing list \<Rightarrow> billing_db \<Rightarrow> usage_input \<Rightarrow> ledger_err + 'f usage_charges" where
  "usage_charges_of ports now settings prices db input =
     (let name = trim_space (ui_PlatformModelName input);
          mode = usage_mode settings (ui_Authorization input);
          groupID = subscription_group db mode (ui_UserID input) now
      in and_then (found_identity (lp_service ports) name) (\<lambda>identity.
         and_then (group_multiplier (lp_service ports) mode (ui_UserID input) (mi_PlatformModelID identity) groupID
             (usage_multiplier input)) (\<lambda>m.
         and_then (found_pricing prices name) (\<lambda>pricing.
         and_then (price_required mode input pricing) (\<lambda>_.
         and_then (model_bill_of ports mode input pricing m) (\<lambda>bill.
         and_then (build_usage_service_items ports prices mode (ui_UserID input) groupID (ui_ServiceItems input)) (\<lambda>(items, service).
         and_then (map_error (BillErr \<circ> RepoErr) (get_native_tool_billing_enabled settings)) (\<lambda>enabled.
         and_then (map_error BillErr (native_tool_definitions ports)) (\<lambda>definitions.
         let raw = get_native_tool_pricing_json settings;
             given = (case parse_pricing_overrides (lp_overrides ports) raw definitions of Inl e \<Rightarrow> [] | Inr o' \<Rightarrow> o');
             (nativeItems, native) =
               build_native_tool_service_items ports input mode (is_free_model pricing) enabled given definitions;
             (mcpItems, mcp) = build_mcp_tool_service_items ports input mode
         in Inr \<lparr>uc_mode = mode, uc_identity = identity, uc_pricing = pricing, uc_multiplier = m, uc_counts = usage_counts input,
              uc_bill = bill, uc_items = items @ nativeItems @ mcpItems, uc_nativeEnabled = enabled, uc_nativeJSON = raw,
              uc_definitions = definitions, uc_native = native, uc_mcp = mcp,
              uc_service = wrap64 (wrap64 (service + native) + mcp)\<rparr>)))))))))"

definition billed_nanousd :: "'f usage_charges \<Rightarrow> int" where
  "billed_nanousd c =
     (let b = uc_bill c
      in wrap64 (ta_input (mb_tokens b) + ta_cacheRead (mb_tokens b) + ta_cacheWrite (mb_tokens b) + ta_output (mb_tokens b)
           + mb_callBilled b + mb_durationBilled b + uc_service c))"

definition marked_free :: "'f usage_charges \<Rightarrow> bool" where
  "marked_free c \<longleftrightarrow> is_free_model (uc_pricing c) \<and> billed_nanousd c \<le> 0"

definition used_currency :: "model_pricing option \<Rightarrow> string" where
  "used_currency pricing = (case pricing of None \<Rightarrow> ''USD'' | Some p \<Rightarrow> mp_Currency p)"

definition usage_snapshot :: "'f ledger_ports \<Rightarrow> usage_input \<Rightarrow> 'f usage_charges \<Rightarrow> json_map" where
  "usage_snapshot ports input c =
     (let b = uc_bill c; n = uc_counts c;
          protocol = trim_space (ui_ProviderProtocol input);
          usageSpeed = normalize_usage_speed (ui_UsageSpeed input);
          requestSpeed = normalize_usage_speed (ui_RequestSpeed input);
          usageServiceTier = normalize_openai_service_tier (ui_UsageServiceTier input);
          usageSource = trim_space (ui_UsageSource input)
      in [(''platform_model_name'', JString (trim_space (ui_PlatformModelName input))),
          (''routed_binding_code'', JString (trim_space (ui_RoutedBindingCode input))),
          (''model_vendor'', JString (trim_space (mi_ModelVendor (uc_identity c)))),
          (''model_icon'', JString (trim_space (mi_ModelIcon (uc_identity c)))),
          (''provider_protocol'', JString protocol),
          (''upstream_name'', JString (trim_space (ui_UpstreamName input))),
          (''upstream_model_name'', JString (trim_space (ui_UpstreamModelName input))),
          (''cache_timeout'', JString (billing_cache_timeout_snapshot protocol (ui_CacheTimeout input))),
          (''request_speed'', JString requestSpeed),
          (''usage_speed'', JString usageSpeed),
          (''billing_speed'', JString (resolve_billing_speed protocol usageSpeed requestSpeed)),
          (''request_service_tier'', JString (normalize_openai_service_tier (ui_RequestServiceTier input))),
          (''usage_service_tier'', JString usageServiceTier),
          (''billing_service_tier'', JString (resolve_billing_service_tier protocol usageServiceTier)),
          (''fast_mode'', JBool (is_anthropic_fast_mode protocol usageSpeed requestSpeed)),
          (''rate_multiplier'', JNumber (lp_number ports (billing_rate_multiplier_value ports (uc_multiplier c)))),
          (''billing_mode'', JString (uc_mode c)),
          (''pricing_mode'', JString (used_pricing_mode (uc_pricing c))),
          (''duration_billable'', JBool (ui_DurationBillable input)),
          (''is_free_model'', JBool (marked_free c)),
          (''currency'', JString (used_currency (uc_pricing c))),
          (''input_nanousd_per_m_tokens'', number (tr_input (mb_rates b))),
          (''cache_read_nanousd_per_m_tokens'', number (tr_cacheRead (mb_rates b))),
          (''cache_write_nanousd_per_m_tokens'', number (resolve_snapshot_rate_from_billed (tk_cacheWrite n) (ta_cacheWrite (mb_tokens b)) (tr_cacheWrite (mb_rates b)))),
          (''output_nanousd_per_m_tokens'', number (tr_output (mb_rates b))),
          (''call_nanousd_per_call'', number (mb_call b)),
          (''duration_nanousd_per_second'', number (mb_duration b)),
          (''base_input_nanousd_per_m_tokens'', number (tr_input (mb_base b))),
          (''base_cache_read_nanousd_per_m_tokens'', number (tr_cacheRead (mb_base b))),
          (''base_cache_write_nanousd_per_m_tokens'', number (tr_cacheWrite (mb_base b))),
          (''base_cache_write_5m_nanousd_per_m_tokens'', number (tr_cacheWrite5m (mb_base b))),
          (''base_cache_write_1h_nanousd_per_m_tokens'', number (tr_cacheWrite1h (mb_base b))),
          (''cache_write_5m_nanousd_per_m_tokens'', number (tr_cacheWrite5m (mb_rates b))),
          (''cache_write_1h_nanousd_per_m_tokens'', number (tr_cacheWrite1h (mb_rates b))),
          (''cache_write_5m_tokens'', number (tk_cacheWrite5m n)),
          (''cache_write_1h_tokens'', number (tk_cacheWrite1h n)),
          (''base_output_nanousd_per_m_tokens'', number (tr_output (mb_base b))),
          (''base_call_nanousd_per_call'', number (mb_baseCall b)),
          (''base_duration_nanousd_per_second'', number (mb_baseDuration b)),
          (''tiered_pricing_json'', JString (case uc_pricing c of None \<Rightarrow> [] | Some p \<Rightarrow> trim_space (mp_TieredPricingJSON p))),
          (''tiered_from_tokens'', number (mb_fromTokens b)),
          (''tiered_up_to_tokens'', (case mb_upToTokens b of None \<Rightarrow> JNull | Some u \<Rightarrow> number u)),
          (''input_billed_nanousd'', number (ta_input (mb_tokens b))),
          (''cache_read_billed_nanousd'', number (ta_cacheRead (mb_tokens b))),
          (''cache_write_billed_nanousd'', number (ta_cacheWrite (mb_tokens b))),
          (''cache_write_5m_billed_nanousd'', number (calc_nanousd_by_token (tk_cacheWrite5m n) (tr_cacheWrite5m (mb_rates b)))),
          (''cache_write_1h_billed_nanousd'', number (calc_nanousd_by_token (tk_cacheWrite1h n) (tr_cacheWrite1h (mb_rates b)))),
          (''output_billed_nanousd'', number (ta_output (mb_tokens b))),
          (''call_billed_nanousd'', number (mb_callBilled b)),
          (''duration_billed_nanousd'', number (mb_durationBilled b)),
          (''upstream_usage'', upstream_usage_snapshot ports input),
          (''server_side_tool_usage'', JObject (map (map_prod id number) (normalize_usage_count_map (ui_ServerSideToolUsage input)))),
          (''native_tool_billing_enabled'', JBool (uc_nativeEnabled c)),
          (''native_tool_pricing_source'', JString (native_tool_pricing_source ports (uc_nativeJSON c) (uc_definitions c))),
          (''native_tool_billed_nanousd'', number (uc_native c)),
          (''mcp_tool_usage'', mcp_tool_usage_snapshots (ui_MCPToolUsage input)),
          (''mcp_tool_billed_nanousd'', number (uc_mcp c)),
          (''base_service_billed_nanousd'', number (uc_service c)),
          (''service_items'', JArray (map (usage_service_item_snapshot ports) (uc_items c)))]
         @ (if equal_fold (trim_space (ui_MediaType input)) ''video''
            then [(''media_type'', JString ''video''), (''input_image_count'', number (clamp_non_negative (ui_InputImageCount input)))]
            else [])
         @ (if usageSource \<noteq> [] then [(''usage_source'', JString usageSource)] else []))"

definition ledger_of :: "'f ledger_ports \<Rightarrow> gotime \<Rightarrow> usage_input \<Rightarrow> 'f usage_charges \<Rightarrow> usage_ledger" where
  "ledger_of ports now input c =
     (let protocol = trim_space (ui_ProviderProtocol input);
          billingAt = (if is_zero (ui_BillingAt input) then now else ui_BillingAt input)
      in case date_of billingAt of
           (y, m, d) \<Rightarrow>
             \<lparr>ul_ID = 0, ul_UserID = ui_UserID input, ul_ConversationID = ui_ConversationID input, ul_ProviderProtocol = protocol,
              ul_UpstreamName = trim_space (ui_UpstreamName input), ul_PlatformModelName = trim_space (ui_PlatformModelName input),
              ul_RoutedBindingCode = trim_space (ui_RoutedBindingCode input),
              ul_UpstreamModelName = trim_space (ui_UpstreamModelName input), ul_IsFreeModel = marked_free c,
              ul_BillingAt = billingAt, ul_UsageDate = time_date y m d 0, ul_InputTokens = ui_InputTokens input,
              ul_CacheReadTokens = ui_CacheReadTokens input, ul_CacheWriteTokens = tk_cacheWrite (uc_counts c),
              ul_CacheWrite5mTokens = tk_cacheWrite5m (uc_counts c), ul_CacheWrite1hTokens = tk_cacheWrite1h (uc_counts c),
              ul_OutputTokens = ui_OutputTokens input, ul_ReasoningTokens = ui_ReasoningTokens input,
              ul_CallCount = call_count input, ul_DurationSeconds = duration_seconds input, ul_LatencyMS = ui_LatencyMS input,
              ul_UsageSpeed = resolve_billing_speed protocol (normalize_usage_speed (ui_UsageSpeed input))
                (normalize_usage_speed (ui_RequestSpeed input)),
              ul_ServiceTier = resolve_billing_service_tier protocol (normalize_openai_service_tier (ui_UsageServiceTier input)),
              ul_BilledCurrency = used_currency (uc_pricing c), ul_BilledNanousd = billed_nanousd c,
              ul_BalanceAfterNanousd = None,
              ul_PricingSnapshotJSON =
                (case lp_marshal ports (usage_snapshot ports input c) of None \<Rightarrow> ''{}'' | Some s \<Rightarrow> s)\<rparr>)"

definition build_usage_ledger ::
  "'f ledger_ports \<Rightarrow> gotime \<Rightarrow> setting list \<Rightarrow> model_pricing list \<Rightarrow> billing_db \<Rightarrow> usage_input \<Rightarrow> ledger_err + usage_ledger" where
  "build_usage_ledger ports now settings prices db input =
     and_then (usage_charges_of ports now settings prices db input) (\<lambda>c. Inr (ledger_of ports now input c))"

definition weekly_usage_cutoff_reached ::
  "'f ledger_ports \<Rightarrow> gotime \<Rightarrow> setting list \<Rightarrow> model_pricing list \<Rightarrow> billing_db \<Rightarrow> usage_authorization option \<Rightarrow> usage_input
   \<Rightarrow> ledger_err + bool" where
  "weekly_usage_cutoff_reached ports now settings prices db authorization input =
     (case authorization of
        None \<Rightarrow> Inr False
      | Some a \<Rightarrow>
          (case ua_Reservation a of
             None \<Rightarrow> Inr False
           | Some r \<Rightarrow>
               if trim_space (ua_Mode a) \<noteq> ''weekly'' then Inr False
               else if rs_WeeklyCreditNanousd r \<le> 0 then Inr True
               else and_then (build_usage_ledger ports now settings prices db (input\<lparr>ui_Authorization := authorization\<rparr>))
                      (\<lambda>l. Inr (rs_WeeklyCreditNanousd r \<le> ul_BilledNanousd l))))"

end
