(* ===== verification/LedgerRules.thy ===== *)
theory LedgerRules
  imports Ledger "HOL-Library.Multiset"
begin

text \<open>
  What a bill costs and to whom: nothing in self mode, only services for a free model, the same
  whatever order Go visits its maps in, never silently nothing for want of a price, and for a
  call priced by tokens its list price.
\<close>

subsection \<open>What costs nothing\<close>

definition model_amount :: "model_bill \<Rightarrow> int" where
  "model_amount b =
     ta_input (mb_tokens b) + ta_cacheRead (mb_tokens b) + ta_cacheWrite (mb_tokens b) + ta_output (mb_tokens b)
       + mb_callBilled b + mb_durationBilled b"

lemma billed_by_parts: "billed_nanousd c = wrap64 (model_amount (uc_bill c) + uc_service c)"
  by (simp add: billed_nanousd_def model_amount_def Let_def)

lemma unpriced [simp]:
  "calc_nanousd_by_token n 0 = 0" "apply_rate_multiplier 0 m = 0" "resolve_cache_write_rate 0 protocol timeout = 0"
  "calc_cache_write_billed_nanousd t n n' 0 0 0 = 0" "wrap64 0 = 0"
  by (simp_all add: calc_nanousd_by_token_def apply_rate_multiplier_def resolve_cache_write_rate_def
      calc_cache_write_billed_nanousd_def wrap64_def)

lemma metered_at_no_rates: "model_amount (metered mode protocol timeout m n calls seconds [] no_bill) = 0"
  by (simp add: metered_def model_amount_def no_bill_def no_rates_def no_amounts_def token_bill_def
      multiplied_def tier_rates_def base_rates_def resolve_tiered_pricing_tier_def zero_tier_def Let_def)

lemma no_bill_amount: "model_amount no_bill = 0"
  by (simp add: model_amount_def no_bill_def no_amounts_def)

lemma exempt_model:
  assumes "model_bill_of ports mode input pricing m = Inr b" and "\<not> charged mode input \<or> is_free_model pricing"
  shows "model_amount b = 0"
proof -
  have "b = (if ui_ServiceOnly input then no_bill
      else metered (used_pricing_mode pricing) (trim_space (ui_ProviderProtocol input)) (ui_CacheTimeout input) m (usage_counts input)
        (call_count input) (duration_seconds input) [] no_bill)"
    using assms by (auto simp: model_bill_of_def is_free_model_def Let_def split: if_splits option.splits)
  then show ?thesis by (simp add: metered_at_no_rates no_bill_amount)
qed

lemma items_total_sum: "items_total items = wrap64 (sum_list (map it_BilledNanousd items))"
proof -
  have "wrap64 a = a \<Longrightarrow> fold (\<lambda>item paid. wrap64 (paid + it_BilledNanousd item)) items a
      = wrap64 (a + sum_list (map it_BilledNanousd items))" for a
    by (induction items arbitrary: a) (simp_all add: wrap64_add add.assoc wrap64_id)
  from this [of 0] show ?thesis by (simp add: items_total_def)
qed

lemma unbilled_item: "it_BilledNanousd (service_item_of ports input) = 0"
  by (simp add: service_item_of_def empty_item_def Let_def split: prod.split)

lemma self_items:
  "service_items ports prices ''self'' userID groupID inputs = Inr items \<Longrightarrow> item \<in> set items \<Longrightarrow> it_BilledNanousd item = 0"
proof (induction inputs arbitrary: items)
  case (Cons input inputs)
  have "it_BilledNanousd i = 0" if "build_usage_service_item ports prices ''self'' userID groupID input = Inr i" for i
    using that by (auto simp: build_usage_service_item_def unbilled_item Let_def)
  then show ?case using Cons by auto
qed simp

lemma self_services:
  assumes "build_usage_service_items ports prices ''self'' userID groupID inputs = Inr (items, paid)"
  shows "paid = 0"
proof -
  have "\<forall>item\<in>set items. it_BilledNanousd item = 0"
    using assms self_items by (auto simp: build_usage_service_items_def)
  then have "sum_list (map it_BilledNanousd items) = 0" by (induction items) simp_all
  then show ?thesis using assms by (auto simp: build_usage_service_items_def items_total_sum)
qed

text \<open>The charges of a bill, one equation per part.\<close>

lemma charges_parts:
  assumes "usage_charges_of ports now settings prices db input = Inr c"
  shows "uc_mode c = usage_mode settings (ui_Authorization input)"
    and "found_pricing prices (trim_space (ui_PlatformModelName input)) = Inr (uc_pricing c)"
    and "price_required (uc_mode c) input (uc_pricing c) = Inr ()"
    and "model_bill_of ports (uc_mode c) input (uc_pricing c) (uc_multiplier c) = Inr (uc_bill c)"
    and "\<exists>items paid. build_usage_service_items ports prices (uc_mode c) (ui_UserID input)
        (subscription_group db (uc_mode c) (ui_UserID input) now) (ui_ServiceItems input) = Inr (items, paid)
      \<and> uc_service c = wrap64 (wrap64 (paid + uc_native c) + uc_mcp c)"
    and "uc_native c = snd (build_native_tool_service_items ports input (uc_mode c) (is_free_model (uc_pricing c)) (uc_nativeEnabled c)
      (case parse_pricing_overrides (lp_overrides ports) (uc_nativeJSON c) (uc_definitions c) of Inl e \<Rightarrow> [] | Inr o' \<Rightarrow> o')
      (uc_definitions c))"
    and "uc_mcp c = snd (build_mcp_tool_service_items ports input (uc_mode c))"
  using assms unfolding usage_charges_of_def Let_def by (auto simp: case_prod_unfold)

lemma built_charges:
  assumes "build_usage_ledger ports now settings prices db input = Inr l"
  obtains c where "usage_charges_of ports now settings prices db input = Inr c" "l = ledger_of ports now input c"
  using assms by (auto simp: build_usage_ledger_def)

lemma ledger_of_bill [simp]:
  "ul_BilledNanousd (ledger_of ports now input c) = billed_nanousd c"
  "ul_IsFreeModel (ledger_of ports now input c) = marked_free c"
  by (simp_all add: ledger_of_def Let_def split: prod.splits)

text \<open>
  In self mode nobody pays. Whatever the price of the model, the way it is metered, the
  services and the tools a call used, a bill built in self mode amounts to zero.
\<close>

theorem self_mode_bills_nothing:
  assumes "usage_mode settings (ui_Authorization input) = ''self''"
    and "build_usage_ledger ports now settings prices db input = Inr l"
  shows "ul_BilledNanousd l = 0"
proof -
  obtain c where c: "usage_charges_of ports now settings prices db input = Inr c" and l: "l = ledger_of ports now input c"
    using built_charges [OF assms(2)] .
  note parts = charges_parts [OF c, unfolded charges_parts(1) [OF c] assms(1)]
  have "model_amount (uc_bill c) = 0" by (rule exempt_model [OF parts(4)]) (simp add: charged_def)
  moreover have "uc_service c = 0"
    using parts(5-7) self_services by (fastforce simp: build_native_tool_service_items_def build_mcp_tool_service_items_def)
  ultimately show ?thesis by (simp add: l billed_by_parts)
qed

text \<open>
  C9: A free model pays only for services. When the price of a model says it is free, a bill in
  a paid mode charges the user exactly the services and MCP tools of the call: the model, however it is
  metered, and its native tools cost nothing, and marking the row as free, which makes the
  settlement charge nothing, never forgives a service.
\<close>

theorem free_model_pays_only_services:
  assumes "get_model_pricing prices (trim_space (ui_PlatformModelName input)) = Inr p" and "mp_IsFree p"
    and "mode = usage_mode settings (ui_Authorization input)"
    and "build_usage_ledger ports now settings prices db input = Inr l"
  shows "\<exists>items paid. build_usage_service_items ports prices mode (ui_UserID input)
      (subscription_group db mode (ui_UserID input) now) (ui_ServiceItems input) = Inr (items, paid)
    \<and> charge_of l = clamp_non_negative (wrap64 (paid + snd (build_mcp_tool_service_items ports input mode)))"
proof -
  obtain c where c: "usage_charges_of ports now settings prices db input = Inr c" and l: "l = ledger_of ports now input c"
    using built_charges [OF assms(4)] .
  note parts = charges_parts [OF c, unfolded charges_parts(1) [OF c, folded assms(3)]]
  have free: "uc_pricing c = Some p" using parts(2) assms(1) by (simp add: found_pricing_def)
  have "model_amount (uc_bill c) = 0" by (rule exempt_model [OF parts(4)]) (simp add: is_free_model_def free assms(2))
  moreover have "uc_native c = 0"
    using parts(6) assms(2) by (simp add: build_native_tool_service_items_def is_free_model_def free)
  moreover obtain items paid where "build_usage_service_items ports prices mode (ui_UserID input)
      (subscription_group db mode (ui_UserID input) now) (ui_ServiceItems input) = Inr (items, paid)"
      "uc_service c = wrap64 (wrap64 (paid + uc_native c) + uc_mcp c)"
    using parts(5) by blast
  ultimately show ?thesis
    using parts(7) by (auto simp: l billed_by_parts charge_of_def marked_free_def clamp_non_negative_def wrap64_add wrap64_id)
qed

subsection \<open>The order of Go's maps\<close>

fun counted :: "string \<Rightarrow> (string \<times> int) list \<Rightarrow> int list" where
  "counted k [] = []"
| "counted k ((key, v) # rest) = (if trim_space key = k \<and> k \<noteq> [] \<and> 0 < v then v # counted k rest else counted k rest)"

lemma counted_filter: "counted k xs = map snd (filter (\<lambda>(key, v). trim_space key = k \<and> k \<noteq> [] \<and> 0 < v) xs)"
  by (induction xs rule: counted.induct [of _ k]) auto

definition old_count :: "(string \<times> int) list \<Rightarrow> string \<Rightarrow> int" where
  "old_count m k = (case map_of m k of None \<Rightarrow> 0 | Some n \<Rightarrow> n)"

lemma add_count_old: "add_count (key, v) m = (if trim_space key = [] \<or> v \<le> 0 then m
    else AList.update (trim_space key) (wrap64 (old_count m (trim_space key) + v)) m)"
  by (simp add: add_count_def old_count_def Let_def)

lemma folded_counts:
  "distinct (map fst m) \<Longrightarrow> distinct (map fst (fold add_count xs m))
    \<and> map_of (fold add_count xs m) k
        = (if counted k xs = [] then map_of m k else Some (wrap64 (old_count m k + sum_list (counted k xs))))"
proof (induction xs arbitrary: m)
  case (Cons x xs)
  obtain key v where x: "x = (key, v)" by (cases x)
  have step: "old_count (add_count x m) k = (if trim_space key = k \<and> k \<noteq> [] \<and> 0 < v then wrap64 (old_count m k + v) else old_count m k)"
    "map_of (add_count x m) k = (if trim_space key = k \<and> k \<noteq> [] \<and> 0 < v then Some (wrap64 (old_count m k + v)) else map_of m k)"
    by (auto simp: x add_count_old old_count_def update_conv')
  have "distinct (map fst (add_count x m))" using Cons.prems by (simp add: x add_count_old distinct_update)
  from Cons.IH [OF this] show ?case by (simp add: x step [unfolded x] wrap64_add add.assoc)
qed simp

lemma counts_of_usage:
  "distinct (map fst (normalize_usage_count_map xs))"
  "map_of (normalize_usage_count_map xs) k = (if counted k xs = [] then None else Some (wrap64 (sum_list (counted k xs))))"
  using folded_counts [of "[]" xs k] by (simp_all add: normalize_usage_count_map_def old_count_def)

lemma counts_ignore_order:
  assumes "mset xs = mset ys"
  shows "mset (normalize_usage_count_map xs) = mset (normalize_usage_count_map ys)"
proof -
  have same: "mset (counted k xs) = mset (counted k ys)" for k
    using assms by (simp add: counted_filter)
  have "sum_list (counted k xs) = sum_list (counted k ys)" for k by (metis same sum_mset_sum_list)
  moreover have "counted k xs = [] \<longleftrightarrow> counted k ys = []" for k using same [of k] by auto
  ultimately have "map_of (normalize_usage_count_map xs) = map_of (normalize_usage_count_map ys)"
    by (intro ext) (simp add: counts_of_usage(2))
  then have "set (normalize_usage_count_map xs) = set (normalize_usage_count_map ys)"
    using map_of_inject_set counts_of_usage(1) by blast
  moreover have "distinct (normalize_usage_count_map zs)" for zs using counts_of_usage(1) [of zs] by (simp add: distinct_map)
  ultimately show ?thesis by (simp add: set_eq_iff_mset_eq_distinct)
qed

lemma map_filter_mset: "mset xs = mset ys \<Longrightarrow> mset (List.map_filter f xs) = mset (List.map_filter f ys)"
  by (simp add: map_filter_def)

lemma total_ignores_order: "mset items = mset items' \<Longrightarrow> items_total items = items_total items'"
  by (simp add: items_total_sum) (metis mset_map sum_mset_sum_list)

lemma native_total_ignores_order:
  assumes "mset usage' = mset (ui_ServerSideToolUsage input)"
    and "\<And>m. mset (lp_visit ports m) = mset m" and "\<And>m. mset (visit' m) = mset m"
  shows "snd (build_native_tool_service_items (ports\<lparr>lp_visit := visit'\<rparr>) (input\<lparr>ui_ServerSideToolUsage := usage'\<rparr>) mode free enabled ov defs)
    = snd (build_native_tool_service_items ports input mode free enabled ov defs)"
proof -
  have same: "native_tool_item (ports\<lparr>lp_visit := visit'\<rparr>) (input\<lparr>ui_ServerSideToolUsage := usage'\<rparr>) ov defs
      = native_tool_item ports input ov defs"
    by (rule ext) (simp add: native_tool_item_def per_call_item_def split: prod.splits option.splits)
  have "usage' = [] \<longleftrightarrow> ui_ServerSideToolUsage input = []" using assms(1) by auto
  moreover
  have "mset (visit' (normalize_usage_count_map usage'))
      = mset (lp_visit ports (normalize_usage_count_map (ui_ServerSideToolUsage input)))"
    using counts_ignore_order [OF assms(1)] assms(2,3) by simp
  then have "items_total (List.map_filter (native_tool_item ports input ov defs) (visit' (normalize_usage_count_map usage')))
      = items_total (List.map_filter (native_tool_item ports input ov defs)
          (lp_visit ports (normalize_usage_count_map (ui_ServerSideToolUsage input))))"
    by (intro total_ignores_order map_filter_mset)
  ultimately show ?thesis by (simp add: build_native_tool_service_items_def Let_def same)
qed

lemma lp_service_visit: "lp_service (ports\<lparr>lp_visit := visit'\<rparr>) = lp_service ports"
  by simp

lemma services_ignore_visit:
  "build_usage_service_items (ports\<lparr>lp_visit := visit'\<rparr>) prices mode u g inputs = build_usage_service_items ports prices mode u g inputs"
proof -
  have "billing_rate_multiplier_value (ports\<lparr>lp_visit := visit'\<rparr>) = billing_rate_multiplier_value ports"
    by (rule ext) (simp add: billing_rate_multiplier_value_def Let_def)
  moreover have "priced_item (ports\<lparr>lp_visit := visit'\<rparr>) = priced_item ports"
    by (intro ext) (simp add: priced_item_def Let_def split: sum.split)
  ultimately have "build_usage_service_item (ports\<lparr>lp_visit := visit'\<rparr>) prices mode u g input
      = build_usage_service_item ports prices mode u g input" for input
    by (simp only: build_usage_service_item_def service_item_of_def ledger_ports.select_convs ledger_ports.update_convs
        lp_service_visit)
  then have "service_items (ports\<lparr>lp_visit := visit'\<rparr>) prices mode u g inputs = service_items ports prices mode u g inputs"
    by (induction inputs) simp_all
  then show ?thesis by (simp add: build_usage_service_items_def)
qed

lemma mcp_ignores_visit:
  "snd (build_mcp_tool_service_items (ports\<lparr>lp_visit := visit'\<rparr>) (input\<lparr>ui_ServerSideToolUsage := usage'\<rparr>) mode)
    = snd (build_mcp_tool_service_items ports input mode)"
proof -
  have "mcp_tool_item (ports\<lparr>lp_visit := visit'\<rparr>) (input\<lparr>ui_ServerSideToolUsage := usage'\<rparr>) = mcp_tool_item ports input"
    by (rule ext) (simp add: mcp_tool_item_def per_call_item_def)
  then show ?thesis by (simp add: build_mcp_tool_service_items_def)
qed

lemma usage_fields:
  fixes input usage' defines "input' \<equiv> input\<lparr>ui_ServerSideToolUsage := usage'\<rparr>"
  shows "charged mode input' = charged mode input" "usage_counts input' = usage_counts input" "call_count input' = call_count input"
    "duration_seconds input' = duration_seconds input" "usage_multiplier input' = usage_multiplier input"
    "price_required mode input' p = price_required mode input p"
    "ui_ProviderProtocol input' = ui_ProviderProtocol input" "ui_CacheTimeout input' = ui_CacheTimeout input"
  by (simp_all add: input'_def charged_def usage_counts_def call_count_def duration_seconds_def usage_multiplier_def price_required_def
      split: option.split)

lemma bill_ignores_visit:
  "model_bill_of (ports\<lparr>lp_visit := visit'\<rparr>) mode (input\<lparr>ui_ServerSideToolUsage := usage'\<rparr>) pricing m = model_bill_of ports mode input pricing m"
proof -
  have "priced_rates (ports\<lparr>lp_visit := visit'\<rparr>) protocol timeout m p = priced_rates ports protocol timeout m p" for protocol timeout p
    by (simp add: priced_rates_def Let_def split: sum.split)
  then show ?thesis unfolding model_bill_of_def usage_fields Let_def by (simp split: option.split)
qed

lemma charges_ignore_order:
  assumes usage: "mset usage' = mset (ui_ServerSideToolUsage input)"
    and visit: "\<And>m. mset (lp_visit ports m) = mset m" "\<And>m. mset (visit' m) = mset m"
    and c: "usage_charges_of ports now settings prices db input = Inr c"
  shows "\<exists>items. usage_charges_of (ports\<lparr>lp_visit := visit'\<rparr>) now settings prices db (input\<lparr>ui_ServerSideToolUsage := usage'\<rparr>)
    = Inr (c\<lparr>uc_items := items\<rparr>)"
  using c
  unfolding usage_charges_of_def Let_def case_prod_unfold services_ignore_visit mcp_ignores_visit bill_ignores_visit
    native_total_ignores_order [OF usage visit] usage_fields
  by (auto simp: native_tool_definitions_def)

text \<open>
  C13: A bill does not depend on the order of Go's maps. However Go visits the map of native tool calls it was given, and
  however it visits the map of counts it makes of it, the bill is the same and so is its mark as free: calls counted
  under several spellings of a name are added up, whatever comes first.
\<close>

theorem bill_ignores_map_order:
  assumes "mset usage' = mset (ui_ServerSideToolUsage input)"
    and "\<And>m. mset (lp_visit ports m) = mset m" and "\<And>m. mset (visit' m) = mset m"
    and "build_usage_ledger ports now settings prices db input = Inr l"
  shows "\<exists>l'. build_usage_ledger (ports\<lparr>lp_visit := visit'\<rparr>) now settings prices db (input\<lparr>ui_ServerSideToolUsage := usage'\<rparr>) = Inr l'
    \<and> ul_BilledNanousd l' = ul_BilledNanousd l \<and> ul_IsFreeModel l' = ul_IsFreeModel l"
proof -
  obtain c where c: "usage_charges_of ports now settings prices db input = Inr c" and l: "l = ledger_of ports now input c"
    using built_charges [OF assms(4)] .
  from charges_ignore_order [OF assms(1-3) c] obtain items where
    "usage_charges_of (ports\<lparr>lp_visit := visit'\<rparr>) now settings prices db (input\<lparr>ui_ServerSideToolUsage := usage'\<rparr>)
      = Inr (c\<lparr>uc_items := items\<rparr>)" by blast
  then show ?thesis by (simp add: build_usage_ledger_def l billed_nanousd_def marked_free_def)
qed

subsection \<open>Prices and budgets\<close>

text \<open>
  C34: A call is never free for want of a price. In a paid mode a bill for a call that is not only for services
  exists only when the model has a price at that moment, and, if the price is per second, only when the call has a
  length to multiply it with; otherwise the bill is refused, to be looked into, rather than made out for nothing.
\<close>

theorem no_price_no_bill:
  assumes "usage_mode settings (ui_Authorization input) \<noteq> ''self''" and "\<not> ui_ServiceOnly input"
    and "build_usage_ledger ports now settings prices db input = Inr l"
  shows "\<exists>p. get_model_pricing prices (trim_space (ui_PlatformModelName input)) = Inr p
    \<and> (mp_IsFree p \<or> normalize_pricing_mode (mp_PricingMode p) \<noteq> ''duration'' \<or> 0 < ul_DurationSeconds l)"
proof -
  obtain c where c: "usage_charges_of ports now settings prices db input = Inr c" and l: "l = ledger_of ports now input c"
    using built_charges [OF assms(3)] .
  note parts = charges_parts [OF c]
  have "ul_DurationSeconds l = duration_seconds input" by (simp add: l ledger_of_def Let_def split: prod.splits)
  then show ?thesis
    using parts(2,3) assms(1,2) unfolding parts(1)
    by (auto simp: price_required_def charged_def found_pricing_def duration_seconds_def clamp_non_negative_def
        split: option.splits sum.splits if_splits)
qed

text \<open>
  A service priced per second costs nothing: its item is never given a duration.
\<close>

lemma priced_item_mode:
  "priced_item ports input m p item0 = Inr item \<Longrightarrow> it_PricingMode item = normalize_pricing_mode (mp_PricingMode p)"
  by (auto simp: priced_item_def item_at_rates_def Let_def split: sum.splits if_splits)

lemma priced_by_the_second:
  "normalize_pricing_mode (mp_PricingMode p) = ''duration'' \<Longrightarrow> it_DurationSeconds item0 = 0 \<Longrightarrow> item_total item0 = 0
    \<Longrightarrow> it_DurationBilledNanousd item0 = 0 \<Longrightarrow> priced_item ports input m p item0 = Inr item \<Longrightarrow> it_BilledNanousd item = 0"
  by (auto simp: priced_item_def item_total_def Let_def)

lemma service_by_the_second_is_free:
  assumes "build_usage_service_item ports prices mode userID groupID input = Inr item" and "it_PricingMode item = ''duration''"
  shows "it_BilledNanousd item = 0"
proof -
  define item0 where "item0 = service_item_of ports input"
  have item0: "it_DurationSeconds item0 = 0" "it_PricingMode item0 = ''token''" "item_total item0 = 0" "it_DurationBilledNanousd item0 = 0"
    by (simp_all add: item0_def service_item_of_def empty_item_def item_total_def Let_def split: prod.splits)
  obtain m p x where run: "priced_item ports input m p (item0\<lparr>it_RateMultiplier := x\<rparr>) = Inr item"
    using assms item0(2) unfolding build_usage_service_item_def item0_def [symmetric] Let_def
    by (auto split: option.splits if_splits)
  then show ?thesis
    using priced_by_the_second [OF _ _ _ _ run] priced_item_mode [OF run] assms(2) item0
    by (simp add: item_total_def)
qed

subsection \<open>What a metered call costs\<close>

text \<open>
  The reference: the price times the multiplier, rounded, times the tokens, rounded, in unbounded
  integers. Cache writes over Anthropic are billed at 5/4 of the price when they live five minutes and
  at twice the price when they live an hour; what the upstream does not attribute counts as the
  kind the request asked for.
\<close>

definition effective_price :: "billing_rate_multiplier \<Rightarrow> int \<Rightarrow> int" where
  "effective_price m rate = round_half_up (rate * bm_Numerator m) (bm_Denominator m)"

definition token_cost :: "billing_rate_multiplier \<Rightarrow> int \<Rightarrow> int \<Rightarrow> int" where
  "token_cost m tokens rate = round_half_up (tokens * effective_price m rate) 1000000"

definition cache_write_kinds :: "usage_input \<Rightarrow> model_pricing \<Rightarrow> (int \<times> int) list" where
  "cache_write_kinds input p =
     (if is_anthropic (trim_space (ui_ProviderProtocol input)) then
        let five = ui_CacheWrite5mTokens input; one = ui_CacheWrite1hTokens input;
            rest = max 0 (ui_CacheWriteTokens input - (five + one));
            long = (normalize_anthropic_cache_timeout (ui_CacheTimeout input) = ''1h'')
        in [(if long then five else five + rest, mp_CacheWriteNanousdPerMTokens p * 5 div 4),
            (if long then one + rest else one, mp_CacheWriteNanousdPerMTokens p * 2)]
      else [(ui_CacheWriteTokens input, mp_CacheWriteNanousdPerMTokens p)])"

definition token_kinds :: "usage_input \<Rightarrow> model_pricing \<Rightarrow> (int \<times> int) list" where
  "token_kinds input p =
     [(ui_InputTokens input, mp_InputNanousdPerMTokens p), (ui_CacheReadTokens input, mp_CacheReadNanousdPerMTokens p)]
     @ cache_write_kinds input p
     @ [(ui_OutputTokens input + ui_ReasoningTokens input, mp_OutputNanousdPerMTokens p)]"

definition call_cost :: "billing_rate_multiplier \<Rightarrow> usage_input \<Rightarrow> model_pricing \<Rightarrow> int" where
  "call_cost m input p = sum_list (map (\<lambda>(tokens, rate). token_cost m tokens rate) (token_kinds input p))"

text \<open>The multiplier of the request's speed and tier times the percentage of the user's group.\<close>

definition list_multiplier :: "usage_input \<Rightarrow> int \<Rightarrow> billing_rate_multiplier" where
  "list_multiplier input percent =
     (let m = usage_multiplier input
      in if percent \<le> 0 \<or> percent = 100 then m else ratio (bm_Numerator m * percent) (bm_Denominator m * 100))"

definition ordinary_tokens :: "usage_input \<Rightarrow> bool" where
  "ordinary_tokens input \<longleftrightarrow>
     (\<forall>t\<in>set [ui_InputTokens input, ui_CacheReadTokens input, ui_CacheWriteTokens input, ui_CacheWrite5mTokens input,
          ui_CacheWrite1hTokens input, ui_OutputTokens input, ui_ReasoningTokens input]. 0 \<le> t \<and> t \<le> 2 ^ 22)"

definition ordinary_prices :: "billing_rate_multiplier \<Rightarrow> usage_input \<Rightarrow> model_pricing \<Rightarrow> bool" where
  "ordinary_prices m input p \<longleftrightarrow>
     (\<forall>(tokens, rate)\<in>set (token_kinds input p). 0 \<le> rate \<and> rate \<le> 2 ^ 41 \<and> effective_price m rate \<le> 2 ^ 39)"

lemma usage_multiplier_cases:
  "usage_multiplier input \<in> {ratio 6 1, ratio 1 1, ratio 1 2, ratio 5 2, ratio 2 1}"
  by (simp add: usage_multiplier_def resolve_usage_rate_multiplier_def Let_def)

text \<open>The multipliers that occur: group percentages go up to 10000.\<close>

definition small_multiplier :: "billing_rate_multiplier \<Rightarrow> bool" where
  "small_multiplier m \<longleftrightarrow> 0 < bm_Numerator m \<and> bm_Numerator m \<le> 60000 \<and> 0 < bm_Denominator m \<and> bm_Denominator m \<le> 200"

lemma list_multiplier_small:
  assumes "percent \<le> 10000"
  shows "small_multiplier (list_multiplier input percent)"
    and "compose_group_rate_percent (usage_multiplier input) percent = list_multiplier input percent"
proof -
  show "small_multiplier (list_multiplier input percent)"
    using usage_multiplier_cases [of input] assms
    by (auto simp: list_multiplier_def small_multiplier_def ratio_def Let_def)
  have "wrap64 (n * percent) = n * percent" if "0 < percent" "0 < n" "n \<le> 6" for n
  proof -
    have "n * percent \<le> 6 * 10000" using that assms by (intro mult_mono) simp_all
    then show ?thesis using that by (intro wrap64_nonneg_small) simp_all
  qed
  note w = this this [of 1]
  have "wrap64 100 = 100" "wrap64 200 = 200" by (simp_all add: wrap64_def)
  with w show "compose_group_rate_percent (usage_multiplier input) percent = list_multiplier input percent"
    using usage_multiplier_cases [of input]
    by (auto simp: compose_group_rate_percent_def list_multiplier_def normalize_billing_rate_multiplier_def ratio_def Let_def)
qed

lemma token_cost_exact:
  fixes tokens rate :: int
  assumes "0 \<le> tokens" "tokens \<le> 2 ^ 23" "0 \<le> rate" "rate \<le> 2 ^ 41" "effective_price m rate \<le> 2 ^ 39" "small_multiplier m"
  shows "calc_nanousd_by_token tokens (apply_rate_multiplier rate m) = token_cost m tokens rate"
    and "0 \<le> token_cost m tokens rate" and "token_cost m tokens rate \<le> 2 ^ 43"
proof -
  obtain n d where m: "m = ratio n d" "0 < n" "n \<le> 60000" "0 < d" "d \<le> 200"
    using assms(6) by (cases m) (auto simp: small_multiplier_def ratio_def)
  define price where "price = effective_price m rate"
  have eff: "price = round_half_up (rate * n) d" by (simp add: price_def effective_price_def m(1) ratio_def)
  have top: "rate * n \<le> 2 ^ 41 * 60000" using assms(3,4) m(2,3) by (intro mult_mono) simp_all
  have low: "0 \<le> rate * n" using assms(3) m(2) by simp
  have applied: "apply_rate_multiplier rate m = price"
    using apply_rate_exact [of n d rate] m assms(3) top by (simp add: eff)
  have price: "0 \<le> price" "price \<le> 2 ^ 39"
    using low m(4) round_half_up_nonneg assms(5) by (simp_all add: eff) (simp add: eff [symmetric] price_def)
  then have prod: "tokens * price \<le> 2 ^ 23 * 2 ^ 39" "0 \<le> tokens * price" using assms(1,2) by (intro mult_mono mult_nonneg_nonneg; simp)+
  moreover from this have "calc_nanousd_by_token tokens price = round_half_up (tokens * price) 1000000"
    using calc_nanousd_exact [of tokens price] assms(1) price(1) by simp
  moreover have cost: "token_cost m tokens rate = round_half_up (tokens * price) 1000000"
    by (simp add: token_cost_def price_def)
  ultimately show "calc_nanousd_by_token tokens (apply_rate_multiplier rate m) = token_cost m tokens rate"
    and "0 \<le> token_cost m tokens rate" and "token_cost m tokens rate \<le> 2 ^ 43"
    unfolding cost applied by (simp_all add: round_half_up_nonneg) (simp add: round_half_up_def)
qed

lemma token_cost_zero: "token_cost m 0 rate = 0"
  by (simp add: token_cost_def round_half_up_def)

text \<open>The cache writes of a bill are those of the reference.\<close>

lemma breakdown_of:
  assumes "ordinary_tokens input" and "is_anthropic protocol"
  defines "rest \<equiv> max 0 (ui_CacheWriteTokens input - (ui_CacheWrite5mTokens input + ui_CacheWrite1hTokens input))"
  shows "normalize_cache_write_token_breakdown (ui_CacheWriteTokens input) (ui_CacheWrite5mTokens input) (ui_CacheWrite1hTokens input)
      protocol (ui_CacheTimeout input)
    = (ui_CacheWrite5mTokens input + ui_CacheWrite1hTokens input + rest,
       if normalize_anthropic_cache_timeout (ui_CacheTimeout input) = ''1h'' then ui_CacheWrite5mTokens input else ui_CacheWrite5mTokens input + rest,
       if normalize_anthropic_cache_timeout (ui_CacheTimeout input) = ''1h'' then ui_CacheWrite1hTokens input + rest else ui_CacheWrite1hTokens input)"
proof -
  let ?f = "ui_CacheWrite5mTokens input" and ?h = "ui_CacheWrite1hTokens input" and ?t = "ui_CacheWriteTokens input"
  have small: "0 \<le> ?f" "?f \<le> 2 ^ 22" "0 \<le> ?h" "?h \<le> 2 ^ 22" "0 \<le> ?t" "?t \<le> 2 ^ 22"
    using assms(1) by (simp_all add: ordinary_tokens_def)
  then have "0 \<le> rest" "rest \<le> 2 ^ 22" by (simp_all add: rest_def)
  with small have w: "wrap64 (?f + ?h) = ?f + ?h" "wrap64 (?t - (?f + ?h)) = ?t - (?f + ?h)"
      "wrap64 (?h + rest) = ?h + rest" "wrap64 (?f + rest) = ?f + rest" "wrap64 0 = 0"
    by (simp_all add: wrap64_id in_i64_def)
  show ?thesis
  proof (cases "?t \<le> ?f + ?h")
    case True
    then show ?thesis using small assms(2) w by (auto simp: normalize_cache_write_token_breakdown_def clamp_non_negative_def rest_def Let_def)
  next
    case False
    then have "rest = ?t - (?f + ?h)" by (simp add: rest_def)
    then show ?thesis using False small assms(2) w
      by (auto simp: normalize_cache_write_token_breakdown_def clamp_non_negative_def Let_def)
  qed
qed

lemma anthropic_rates:
  assumes "is_anthropic protocol" and "0 \<le> rate" and "rate \<le> 2 ^ 40"
  shows "resolve_cache_write_rate rate protocol ''5m'' = rate * 5 div 4" "resolve_cache_write_rate rate protocol ''1h'' = rate * 2"
proof -
  have "normalize_anthropic_cache_timeout ''5m'' = ''5m''" "normalize_anthropic_cache_timeout ''1h'' = ''1h''" by code_simp+
  moreover have "wrap64 (rate * 5) = rate * 5" "wrap64 (rate * 2) = rate * 2"
    using assms(2,3) by (intro wrap64_nonneg_small; simp)+
  ultimately show "resolve_cache_write_rate rate protocol ''5m'' = rate * 5 div 4" "resolve_cache_write_rate rate protocol ''1h'' = rate * 2"
    using assms by (auto simp: resolve_cache_write_rate_def go_div_nonneg)
qed

lemma kinds_cost:
  assumes "(tokens, rate) \<in> set (token_kinds input p)" and "ordinary_tokens input" and "ordinary_prices m input p" and "small_multiplier m"
  shows "calc_nanousd_by_token tokens (apply_rate_multiplier rate m) = token_cost m tokens rate"
    and "0 \<le> token_cost m tokens rate \<and> token_cost m tokens rate \<le> 2 ^ 43"
proof -
  have "0 \<le> tokens" "tokens \<le> 2 ^ 23"
    using assms(1,2) by (auto simp: token_kinds_def cache_write_kinds_def ordinary_tokens_def Let_def split: if_splits)
  moreover have "0 \<le> rate" "rate \<le> 2 ^ 41" "effective_price m rate \<le> 2 ^ 39"
    using assms(1,3) by (auto simp: ordinary_prices_def)
  ultimately show "calc_nanousd_by_token tokens (apply_rate_multiplier rate m) = token_cost m tokens rate"
    "0 \<le> token_cost m tokens rate \<and> token_cost m tokens rate \<le> 2 ^ 43"
    using token_cost_exact assms(4) by blast+
qed

lemma cache_write_cost:
  assumes "ordinary_tokens input" and "ordinary_prices m input p" and "small_multiplier m"
  defines "protocol \<equiv> trim_space (ui_ProviderProtocol input)"
  shows "ta_cacheWrite (token_bill (usage_counts input) (multiplied m (model_rates protocol (ui_CacheTimeout input) p)))
    = sum_list (map (\<lambda>(tokens, rate). token_cost m tokens rate) (cache_write_kinds input p))"
proof (cases "is_anthropic protocol")
  case False
  have "(ui_CacheWriteTokens input, mp_CacheWriteNanousdPerMTokens p) \<in> set (token_kinds input p)"
    using False by (simp add: token_kinds_def cache_write_kinds_def protocol_def)
  note cost = kinds_cost [OF this assms(1-3)]
  have "normalize_cache_write_token_breakdown (ui_CacheWriteTokens input) (ui_CacheWrite5mTokens input) (ui_CacheWrite1hTokens input)
      protocol (ui_CacheTimeout input) = (ui_CacheWriteTokens input, 0, 0)"
    using False assms(1)
    by (simp add: normalize_cache_write_token_breakdown_def clamp_non_negative_def ordinary_tokens_def Let_def)
  then show ?thesis
    using False cost
    by (auto simp: token_bill_def multiplied_def model_rates_def base_rates_def usage_counts_def cache_write_kinds_def
        calc_cache_write_billed_nanousd_def resolve_cache_write_rate_def calc_nanousd_by_token_def protocol_def split: if_splits)
next
  case True
  define rest where "rest = max 0 (ui_CacheWriteTokens input - (ui_CacheWrite5mTokens input + ui_CacheWrite1hTokens input))"
  define long where "long \<longleftrightarrow> normalize_anthropic_cache_timeout (ui_CacheTimeout input) = ''1h''"
  define f where "f = (if long then ui_CacheWrite5mTokens input else ui_CacheWrite5mTokens input + rest)"
  define h where "h = (if long then ui_CacheWrite1hTokens input + rest else ui_CacheWrite1hTokens input)"
  let ?rate = "mp_CacheWriteNanousdPerMTokens p"
  have kinds: "cache_write_kinds input p = [(f, ?rate * 5 div 4), (h, ?rate * 2)]"
    using True by (simp add: cache_write_kinds_def protocol_def f_def h_def rest_def long_def Let_def)
  then have "(f, ?rate * 5 div 4) \<in> set (token_kinds input p)" "(h, ?rate * 2) \<in> set (token_kinds input p)"
    by (simp_all add: token_kinds_def)
  note costs = kinds_cost [OF this(1) assms(1-3)] kinds_cost [OF this(2) assms(1-3)]
  have rate: "0 \<le> ?rate" "?rate \<le> 2 ^ 40" using assms(2) by (auto simp: ordinary_prices_def token_kinds_def kinds)
  have parts: "0 \<le> f" "0 \<le> h" using assms(1) by (auto simp: f_def h_def rest_def ordinary_tokens_def)
  have sum: "ui_CacheWrite5mTokens input + ui_CacheWrite1hTokens input + rest = f + h" by (simp add: f_def h_def)
  have "normalize_cache_write_token_breakdown (ui_CacheWriteTokens input) (ui_CacheWrite5mTokens input) (ui_CacheWrite1hTokens input)
      protocol (ui_CacheTimeout input) = (f + h, f, h)"
    using breakdown_of [OF assms(1) True] unfolding rest_def [symmetric] long_def [symmetric] sum by (simp add: f_def h_def)
  moreover have "calc_cache_write_billed_nanousd (f + h) f h agg (apply_rate_multiplier (?rate * 5 div 4) m) (apply_rate_multiplier (?rate * 2) m)
      = token_cost m f (?rate * 5 div 4) + token_cost m h (?rate * 2)" for agg
  proof (cases "f + h \<le> 0")
    case True
    then have "f = 0" "h = 0" using parts by simp_all
    then show ?thesis by (simp add: calc_cache_write_billed_nanousd_def token_cost_zero)
  next
    case False
    then show ?thesis using parts costs by (simp add: calc_cache_write_billed_nanousd_def wrap64_nonneg_small)
  qed
  ultimately show ?thesis
    by (simp add: token_bill_def multiplied_def model_rates_def base_rates_def usage_counts_def anthropic_rates [OF True rate] kinds
        protocol_def [symmetric])
qed

lemma token_model_bill:
  assumes "normalize_pricing_mode (mp_PricingMode p) = ''token''" and "\<not> mp_IsFree p" and "charged mode input"
    and ok: "ordinary_tokens input" "ordinary_prices m input p" "small_multiplier m"
    and "model_bill_of ports mode input (Some p) m = Inr b"
  shows "model_amount b = call_cost m input p"
proof -
  let ?r = "multiplied m (model_rates (trim_space (ui_ProviderProtocol input)) (ui_CacheTimeout input) p)"
  have "\<not> ui_ServiceOnly input" using assms(3) by (simp add: charged_def)
  then have "mb_tokens b = token_bill (usage_counts input) ?r" "mb_callBilled b = 0" "mb_durationBilled b = 0"
    using assms(1-3,7) by (auto simp: model_bill_of_def used_pricing_mode_def priced_rates_def metered_def no_bill_def Let_def)
  moreover have "wrap64 (ui_OutputTokens input + ui_ReasoningTokens input) = ui_OutputTokens input + ui_ReasoningTokens input"
    using ok(1) by (intro wrap64_nonneg_small) (simp_all add: ordinary_tokens_def)
  moreover have "(ui_InputTokens input, mp_InputNanousdPerMTokens p) \<in> set (token_kinds input p)"
    "(ui_CacheReadTokens input, mp_CacheReadNanousdPerMTokens p) \<in> set (token_kinds input p)"
    "(ui_OutputTokens input + ui_ReasoningTokens input, mp_OutputNanousdPerMTokens p) \<in> set (token_kinds input p)"
    by (simp_all add: token_kinds_def)
  note costs = this [THEN kinds_cost(1), OF ok]
  have "ta_input (token_bill (usage_counts input) ?r) = token_cost m (ui_InputTokens input) (mp_InputNanousdPerMTokens p)"
    "ta_cacheRead (token_bill (usage_counts input) ?r) = token_cost m (ui_CacheReadTokens input) (mp_CacheReadNanousdPerMTokens p)"
    "ta_output (token_bill (usage_counts input) ?r)
      = calc_nanousd_by_token (wrap64 (ui_OutputTokens input + ui_ReasoningTokens input)) (apply_rate_multiplier (mp_OutputNanousdPerMTokens p) m)"
    using costs by (simp_all add: token_bill_def multiplied_def model_rates_def base_rates_def usage_counts_def split: prod.splits)
  ultimately show ?thesis
    using cache_write_cost [OF ok] costs(3) by (simp add: model_amount_def call_cost_def token_kinds_def)
qed

lemma call_cost_small:
  assumes "ordinary_tokens input" and "ordinary_prices m input p" and "small_multiplier m"
  shows "0 \<le> call_cost m input p \<and> call_cost m input p \<le> 5 * 2 ^ 43"
proof -
  have bound: "0 \<le> sum_list (map (\<lambda>(t, r). token_cost m t r) ks)
      \<and> sum_list (map (\<lambda>(t, r). token_cost m t r) ks) \<le> int (length ks) * 2 ^ 43" if "set ks \<subseteq> set (token_kinds input p)" for ks
    using that
  proof (induction ks)
    case (Cons k ks)
    then show ?case using kinds_cost(2) [OF _ assms, of "fst k" "snd k"] by (cases k) (auto simp: algebra_simps)
  qed simp
  have "int (length (token_kinds input p)) \<le> 5" by (simp add: token_kinds_def cache_write_kinds_def Let_def)
  then have "int (length (token_kinds input p)) * 2 ^ 43 \<le> 5 * 2 ^ 43" by simp
  with bound [OF order_refl] show ?thesis unfolding call_cost_def by linarith
qed

text \<open>
  C8: A call costs its list price. In a paid mode, whatever group rate the resolver gives the user, a
  call of a model priced by tokens, over any protocol, is charged the sum over its kinds of tokens of
  tokens times price times multiplier per million, each price and each product rounded to the nearest
  nano dollar, plus what its services and tools cost, clamped at zero, and exactly that sum when it used no
  services and no tools. The multiplier is that of the request's speed and service tier times the
  percentage of the group (1 to 10000, as the administrator may set it); cache writes over Anthropic
  count by how long they live. Covered are up to four million tokens of a kind at effective prices up to some 549 dollars
  per million: there nothing overflows.
\<close>

theorem token_call_costs_its_list_price:
  assumes "get_model_pricing prices (trim_space (ui_PlatformModelName input)) = Inr p" and "\<not> mp_IsFree p"
    and "normalize_pricing_mode (mp_PricingMode p) = ''token''"
    and "mode = usage_mode settings (ui_Authorization input)" and "mode \<noteq> ''self''" and "\<not> ui_ServiceOnly input"
    and "found_identity (lp_service ports) (trim_space (ui_PlatformModelName input)) = Inr identity"
    and "resolve_group_rate_percent (lp_service ports) (ui_UserID input) (mi_PlatformModelID identity)
           (subscription_group db mode (ui_UserID input) now) = Inr percent" and "percent \<le> 10000"
    and "m = list_multiplier input percent" and "ordinary_tokens input" and "ordinary_prices m input p"
    and "build_usage_ledger ports now settings prices db input = Inr l"
  shows "\<exists>c. usage_charges_of ports now settings prices db input = Inr c
    \<and> charge_of l = clamp_non_negative (wrap64 (call_cost m input p + uc_service c))
    \<and> (ui_ServiceItems input = [] \<and> ui_ServerSideToolUsage input = [] \<and> ui_MCPToolUsage input = [] \<longrightarrow> charge_of l = call_cost m input p)"
proof -
  obtain c where c: "usage_charges_of ports now settings prices db input = Inr c" and l: "l = ledger_of ports now input c"
    using built_charges [OF assms(13)] .
  note parts = charges_parts [OF c]
  have price: "uc_pricing c = Some p" using parts(2) assms(1) by (simp add: found_pricing_def)
  note small = list_multiplier_small [OF assms(9), of input, folded assms(10)]
  have "uc_multiplier c = m"
    using c assms(4,5,7,8) small(2) unfolding usage_charges_of_def Let_def
    by (auto simp: case_prod_unfold group_multiplier_def)
  then have amount: "model_amount (uc_bill c) = call_cost m input p"
    using token_model_bill [OF assms(3,2) _ assms(11,12) small(1)] parts(4) assms(4-6) by (simp add: price parts(1) charged_def)
  have charge: "charge_of l = clamp_non_negative (wrap64 (call_cost m input p + uc_service c))"
    using assms(2) by (simp add: l charge_of_def marked_free_def is_free_model_def price billed_by_parts amount clamp_non_negative_def)
  have "uc_service c = 0" if "ui_ServiceItems input = []" "ui_ServerSideToolUsage input = []" "ui_MCPToolUsage input = []"
    using parts(5-7) that
    by (auto simp: build_usage_service_items_def build_native_tool_service_items_def build_mcp_tool_service_items_def
        items_total_def map_filter_def Let_def split: if_splits)
  then show ?thesis
    using c charge call_cost_small [OF assms(11,12) small(1)] by (auto simp: wrap64_nonneg_small clamp_non_negative_def)
qed

end
