(* ===== verification/LedgerSamples.thy ===== *)
theory LedgerSamples
  imports LedgerRules
begin

text \<open>Bills computed on concrete calls, where the rules of \<open>LedgerRules\<close> apply.\<close>

definition sample_ports :: "int ledger_ports" where
  "sample_ports =
     \<lparr>lp_service = \<lparr>sp_identity = None, sp_video = None, sp_group_rate = None\<rparr>, lp_catalog = None, lp_tiers = (\<lambda>_. None),
      lp_nanousd = id, lp_one = 1, lp_quotient = (\<lambda>n d. n div d), lp_number = itoa, lp_decode = (\<lambda>_. None),
      lp_overrides = (\<lambda>_. None), lp_marshal = (\<lambda>_. None), lp_visit = id\<rparr>"

definition sample_price :: model_pricing where
  "sample_price =
     \<lparr>mp_ID = 1, mp_PlatformModelName = ''m'', mp_Currency = ''USD'', mp_IsFree = False, mp_PricingMode = ''token'',
      mp_InputNanousdPerMTokens = 3000000, mp_CacheReadNanousdPerMTokens = 1000000, mp_CacheWriteNanousdPerMTokens = 0,
      mp_OutputNanousdPerMTokens = 9000000, mp_CallNanousdPerCall = 0, mp_DurationNanousdPerSecond = 7,
      mp_TieredPricingJSON = ''{}''\<rparr>"

definition sample_call :: usage_input where
  "sample_call =
     \<lparr>ui_Authorization = None, ui_UserID = 1, ui_ConversationID = 2, ui_PlatformModelName = ''m'', ui_RoutedBindingCode = [],
      ui_ProviderProtocol = ''openai_responses'', ui_UpstreamName = [], ui_UpstreamModelName = [], ui_CacheTimeout = [],
      ui_RequestSpeed = [], ui_UsageSpeed = [], ui_RequestServiceTier = [], ui_UsageServiceTier = ''flex'', ui_UsageSource = [],
      ui_ServiceOnly = False, ui_InputTokens = 1000, ui_CacheReadTokens = 500, ui_CacheWriteTokens = 0, ui_CacheWrite5mTokens = 0,
      ui_CacheWrite1hTokens = 0, ui_OutputTokens = 200, ui_ReasoningTokens = 50, ui_CallCount = 0, ui_DurationBillable = True,
      ui_DurationSeconds = 4, ui_MediaType = [], ui_InputImageCount = 0, ui_LatencyMS = 20, ui_ServerSideToolUsage = [],
      ui_MCPToolUsage = [], ui_ServiceItems = [], ui_RawUsageJSON = [], ui_BillingAt = 10\<rparr>"

definition in_mode :: "string \<Rightarrow> usage_authorization option" where
  "in_mode mode = Some \<lparr>ua_Mode = mode, ua_Reservation = None\<rparr>"

definition seen :: "ledger_err + usage_ledger \<Rightarrow> (int \<times> int \<times> bool) option" where
  "seen bill = (case bill of Inl e \<Rightarrow> None | Inr l \<Rightarrow> Some (ul_BilledNanousd l, ul_DurationSeconds l, ul_IsFreeModel l))"

lemma seen_Some: "seen bill = Some (b, d, f) \<longleftrightarrow>
    (\<exists>l. bill = Inr l \<and> ul_BilledNanousd l = b \<and> ul_DurationSeconds l = d \<and> ul_IsFreeModel l = f)"
  by (auto simp: seen_def split: sum.splits)

definition tool_calls :: "(string \<times> int) list" where
  "tool_calls = [(''web_search'', 1), (''shell'', 2), (''web_search '', 2)]"

definition mcp_call :: mcp_usage where
  "mcp_call = \<lparr>mu_ServerID = 3, mu_ServerName = ''s'', mu_ToolName = ''t'', mu_CallCount = 2, mu_PriceNanousd = 40\<rparr>"

definition bill_of :: "model_pricing \<Rightarrow> usage_input \<Rightarrow> ledger_err + usage_ledger" where
  "bill_of price input = build_usage_ledger sample_ports 10 [] [price] empty_db input"

lemma sample_bills:
  "seen (bill_of sample_price (sample_call\<lparr>ui_Authorization := in_mode ''usage''\<rparr>)) = Some (2875, 4, False)"
  "seen (bill_of sample_price sample_call) = Some (0, 4, False)"
  "seen (bill_of (sample_price\<lparr>mp_PricingMode := ''duration''\<rparr>) (sample_call\<lparr>ui_Authorization := in_mode ''usage''\<rparr>)) = Some (16, 4, False)"
  "seen (bill_of (sample_price\<lparr>mp_IsFree := True\<rparr>)
     (sample_call\<lparr>ui_Authorization := in_mode ''usage'', ui_ServerSideToolUsage := tool_calls, ui_MCPToolUsage := [mcp_call]\<rparr>)) = Some (80, 4, False)"
  "seen (bill_of sample_price (sample_call\<lparr>ui_Authorization := in_mode ''usage'', ui_ServerSideToolUsage := tool_calls\<rparr>)) = Some (75002875, 4, False)"
  by code_simp+

lemma sample_modes:
  "usage_mode [] None = ''self''" "usage_mode [] (in_mode ''usage'') = ''usage''"
  by code_simp+

lemma sample_prices: "get_model_pricing [p] ''m'' = (if mp_PlatformModelName p = ''m'' then Inr p else Inl ErrNotFound)"
proof -
  have "trim_space ''m'' = ''m''" by code_simp
  then show ?thesis by (simp add: get_model_pricing_def)
qed

lemma sample_modes_of_price: "normalize_pricing_mode ''token'' = ''token''" "normalize_pricing_mode ''duration'' = ''duration''"
  "\<not> is_anthropic ''openai_responses''"
  by code_simp+

theorem self_mode_bills_nothing_witness: "\<exists>l. bill_of sample_price sample_call = Inr l \<and> ul_BilledNanousd l = 0"
proof -
  obtain l where l: "bill_of sample_price sample_call = Inr l" using sample_bills(2) unfolding seen_Some by blast
  have "ul_BilledNanousd l = 0"
    by (rule self_mode_bills_nothing [OF _ l [unfolded bill_of_def]]) (simp add: sample_call_def sample_modes)
  then show ?thesis using l by blast
qed

theorem free_model_pays_only_services_witness:
  "\<exists>l. bill_of (sample_price\<lparr>mp_IsFree := True\<rparr>)
     (sample_call\<lparr>ui_Authorization := in_mode ''usage'', ui_ServerSideToolUsage := tool_calls, ui_MCPToolUsage := [mcp_call]\<rparr>) = Inr l
   \<and> charge_of l = 80"
proof -
  define input where "input = sample_call\<lparr>ui_Authorization := in_mode ''usage'', ui_ServerSideToolUsage := tool_calls,
      ui_MCPToolUsage := [mcp_call]\<rparr>"
  obtain l where l: "bill_of (sample_price\<lparr>mp_IsFree := True\<rparr>) input = Inr l"
    using sample_bills(4) unfolding seen_Some input_def by blast
  have "get_model_pricing [sample_price\<lparr>mp_IsFree := True\<rparr>] (trim_space (ui_PlatformModelName input)) = Inr (sample_price\<lparr>mp_IsFree := True\<rparr>)"
    "usage_mode [] (ui_Authorization input) = ''usage''" "ui_ServiceItems input = []"
    by (simp_all add: input_def sample_call_def sample_prices sample_price_def sample_modes)
  moreover from free_model_pays_only_services [OF this(1) _ this(2) [symmetric] l [unfolded bill_of_def]] this(3)
  have "charge_of l = clamp_non_negative (wrap64 (snd (build_mcp_tool_service_items sample_ports input ''usage'')))"
    by (auto simp: build_usage_service_items_def items_total_def)
  moreover have "snd (build_mcp_tool_service_items sample_ports input ''usage'') = 80" unfolding input_def by code_simp
  ultimately show ?thesis using l unfolding input_def by (simp add: clamp_non_negative_def wrap64_def)
qed

theorem bill_ignores_map_order_witness:
  "\<exists>l l'. build_usage_ledger sample_ports 10 [] [sample_price] empty_db
        (sample_call\<lparr>ui_Authorization := in_mode ''usage'', ui_ServerSideToolUsage := tool_calls\<rparr>) = Inr l
    \<and> build_usage_ledger (sample_ports\<lparr>lp_visit := rev\<rparr>) 10 [] [sample_price] empty_db
        (sample_call\<lparr>ui_Authorization := in_mode ''usage'', ui_ServerSideToolUsage := rev tool_calls\<rparr>) = Inr l'
    \<and> ul_BilledNanousd l' = ul_BilledNanousd l \<and> ul_BilledNanousd l = 75002875"
proof -
  define input where "input = sample_call\<lparr>ui_Authorization := in_mode ''usage'', ui_ServerSideToolUsage := tool_calls\<rparr>"
  obtain l where l: "build_usage_ledger sample_ports 10 [] [sample_price] empty_db input = Inr l" "ul_BilledNanousd l = 75002875"
    using sample_bills(5) unfolding seen_Some bill_of_def input_def by blast
  have "mset (rev tool_calls) = mset (ui_ServerSideToolUsage input)" "\<And>m. mset (lp_visit sample_ports m) = mset m"
    by (simp_all add: input_def sample_ports_def)
  from bill_ignores_map_order [OF this _ l(1), where visit' = rev] l show ?thesis by (auto simp: input_def)
qed

theorem no_price_no_bill_witness:
  "\<exists>l. bill_of (sample_price\<lparr>mp_PricingMode := ''duration''\<rparr>) (sample_call\<lparr>ui_Authorization := in_mode ''usage''\<rparr>) = Inr l
     \<and> 0 < ul_DurationSeconds l"
proof -
  define input where "input = sample_call\<lparr>ui_Authorization := in_mode ''usage''\<rparr>"
  obtain l where l: "bill_of (sample_price\<lparr>mp_PricingMode := ''duration''\<rparr>) input = Inr l"
    using sample_bills(3) unfolding seen_Some input_def by blast
  have "usage_mode [] (ui_Authorization input) \<noteq> ''self''" "\<not> ui_ServiceOnly input" "ui_PlatformModelName input = ''m''"
    by (simp_all add: input_def sample_call_def sample_modes)
  from no_price_no_bill [OF this(1,2) l [unfolded bill_of_def]] this(3) l show ?thesis
    by (auto simp: input_def sample_prices sample_price_def sample_modes_of_price)
qed

text \<open>
  A call over Anthropic by a user whose group pays one and a half times the list price: 80 tokens are
  written to the cache for five minutes and 20 for an hour.
\<close>

definition group_ports :: "int ledger_ports" where
  "group_ports = sample_ports\<lparr>lp_service := (lp_service sample_ports)\<lparr>sp_group_rate := Some (\<lambda>u m gs. Inr 150)\<rparr>\<rparr>"

definition anthropic_price :: model_pricing where
  "anthropic_price = sample_price\<lparr>mp_CacheWriteNanousdPerMTokens := 4000000\<rparr>"

definition anthropic_call :: usage_input where
  "anthropic_call = sample_call\<lparr>ui_Authorization := in_mode ''usage'', ui_ProviderProtocol := ''anthropic_messages'',
     ui_CacheWriteTokens := 100, ui_CacheWrite5mTokens := 30, ui_CacheWrite1hTokens := 20\<rparr>"

theorem token_call_costs_its_list_price_witness:
  "\<exists>l. build_usage_ledger group_ports 10 [] [anthropic_price] empty_db anthropic_call = Inr l \<and> charge_of l = 9465"
proof -
  have "seen (build_usage_ledger group_ports 10 [] [anthropic_price] empty_db anthropic_call) = Some (9465, 4, False)" by code_simp
  then obtain l where l: "build_usage_ledger group_ports 10 [] [anthropic_price] empty_db anthropic_call = Inr l"
    unfolding seen_Some by blast
  have m: "list_multiplier anthropic_call 150 = ratio 150 100" by code_simp
  have ok: "ordinary_tokens anthropic_call" "ordinary_prices (ratio 150 100) anthropic_call anthropic_price"
      "call_cost (ratio 150 100) anthropic_call anthropic_price = 9465"
    by code_simp+
  have call: "get_model_pricing [anthropic_price] (trim_space (ui_PlatformModelName anthropic_call)) = Inr anthropic_price"
      "\<not> mp_IsFree anthropic_price" "normalize_pricing_mode (mp_PricingMode anthropic_price) = ''token''"
      "''usage'' = usage_mode [] (ui_Authorization anthropic_call)" "\<not> ui_ServiceOnly anthropic_call" "ui_UserID anthropic_call = 1"
      "ui_ServiceItems anthropic_call = []" "ui_ServerSideToolUsage anthropic_call = []" "ui_MCPToolUsage anthropic_call = []"
    by (simp_all add: anthropic_call_def sample_call_def anthropic_price_def sample_price_def sample_prices sample_modes
        sample_modes_of_price)
  have "\<exists>identity. found_identity (lp_service group_ports) (trim_space (ui_PlatformModelName anthropic_call)) = Inr identity"
    by (simp add: group_ports_def sample_ports_def found_identity_def resolve_platform_model_identity_def Let_def)
  then obtain identity where identity: "found_identity (lp_service group_ports) (trim_space (ui_PlatformModelName anthropic_call)) = Inr identity"
    by blast
  have rate: "resolve_group_rate_percent (lp_service group_ports) (ui_UserID anthropic_call) i g = Inr 150" for i g
    by (simp add: resolve_group_rate_percent_def group_ports_def call(6))
  have "charge_of l = call_cost (ratio 150 100) anthropic_call anthropic_price"
    using token_call_costs_its_list_price [OF call(1-4) _ call(5) identity rate _ m [symmetric] ok(1,2) l] call(7-9) by auto
  then show ?thesis using l ok(3) by auto
qed

end
