(* ===== verification/ModelCaps.thy ===== *)
theory ModelCaps
  imports NativeTools
begin

text \<open>
  The context window of a model (\<open>domain/channel/model_caps.go\<close>): a built-in catalogue of model
  families, the limits an administrator may set in the capabilities of a model, the budget
  left for the input of a request and the threshold at which a conversation is compacted. Then the
  estimates of tokens (\<open>application/conversation/service_message_context.go\<close>, of which
  \<open>application/compact/service.go\<close> has the same copies). The JSON decoder, with \<open>UseNumber\<close>, is a parameter;
  a number is its text.
\<close>

subsection \<open>The catalogue\<close>

record model_caps =
  mc_ContextWindow :: int
  mc_MaxOutputTokens :: int

datatype caps_source = Caps_override | Builtin_catalog | Fallback

record resolved_caps =
  rv_Caps :: model_caps
  rv_Source :: caps_source

definition caps :: "int \<Rightarrow> int \<Rightarrow> model_caps" where
  "caps window output = \<lparr>mc_ContextWindow = window, mc_MaxOutputTokens = output\<rparr>"

definition model_caps_catalog :: "(string list \<times> model_caps) list" where
  "model_caps_catalog =
     [([''claude-sonnet-3.7'', ''claude-3.7''], caps 200000 16000),
      ([''claude-sonnet-3.5'', ''claude-haiku-3.5'', ''claude-3.5''], caps 200000 8192),
      ([''gpt-4.1''], caps 1047576 32768),
      ([''gpt-4.5''], caps 128000 16384),
      ([''gpt-4o''], caps 128000 16384),
      ([''o1'', ''o3'', ''o4''], caps 200000 100000),
      ([''gpt-3.5''], caps 16385 4096),
      ([''gemini-2.0'', ''gemini-2.5''], caps 1000000 8192),
      ([''gemini-1.5''], caps 1000000 8192),
      ([''grok-3''], caps 131072 16384)]"

definition normalize_fallback_context_window :: "int \<Rightarrow> int" where
  "normalize_fallback_context_window v = (if v < 4096 \<or> 16000000 < v then 128000 else v)"

subsection \<open>Matching a model name\<close>

definition flush :: "string \<Rightarrow> string list \<Rightarrow> string list" where
  "flush buffer result = (if buffer = [] then result else result @ [buffer])"

fun signature_loop :: "string list \<Rightarrow> string \<Rightarrow> string \<Rightarrow> string \<Rightarrow> string list" where
  \<comment> \<open>the parts so far, the letters and the digits collected\<close>
  "signature_loop result letters digits [] = flush digits (flush letters result)"
| "signature_loop result letters digits (c # cs) =
     (if byte_in 0x61 0x7A c then signature_loop (flush digits result) (letters @ [c]) [] cs
      else if byte_in 0x30 0x39 c then signature_loop (flush letters result) [] (digits @ [c]) cs
      else signature_loop (flush digits result) letters [] cs)"

definition model_identifier_signature :: "string \<Rightarrow> string list" where
  "model_identifier_signature v = signature_loop [] [] [] (to_lower (trim_space v))"

fun segments :: "string \<Rightarrow> string \<Rightarrow> string list" where
  \<comment> \<open>\<open>strings.FieldsFunc\<close> at slashes and colons; the segment collected so far\<close>
  "segments part [] = flush part []"
| "segments part (c # cs) =
     (if c = CHR ''/'' \<or> c = CHR '':'' then flush part [] @ segments [] cs else segments (part @ [c]) cs)"

definition contains_model_pattern :: "string \<Rightarrow> string \<Rightarrow> bool" where
  "contains_model_pattern code pat =
     (let want = model_identifier_signature pat
      in code \<noteq> [] \<and> pat \<noteq> [] \<and> want \<noteq> []
         \<and> list_ex (\<lambda>segment. take (length want) (model_identifier_signature segment) = want) (segments [] (to_lower code)))"

definition resolve_model_caps :: "string \<Rightarrow> int \<Rightarrow> resolved_caps" where
  "resolve_model_caps modelName fallbackContextWindow =
     (let code = to_lower (trim_space modelName)
      in case List.find (\<lambda>(patterns, c). list_ex (contains_model_pattern code) patterns) model_caps_catalog of
           Some (patterns, c) \<Rightarrow> \<lparr>rv_Caps = c, rv_Source = Builtin_catalog\<rparr>
         | None \<Rightarrow> \<lparr>rv_Caps = caps (normalize_fallback_context_window fallbackContextWindow) 8192, rv_Source = Fallback\<rparr>)"

subsection \<open>Limits set by an administrator\<close>

type_synonym decoder = "string \<Rightarrow> json_map option"

definition parse_capabilities :: "decoder \<Rightarrow> string \<Rightarrow> json_map option" where
  "parse_capabilities decode raw = (if trim_space raw = [] then None else decode (trim_space raw))"

definition positive :: "int option \<Rightarrow> int option" where
  "positive n = (case n of None \<Rightarrow> None | Some v \<Rightarrow> if 0 < v then Some v else None)"

definition positive_int :: "json option \<Rightarrow> int option" where
  "positive_int v =
     (case v of
        Some (JNumber s) \<Rightarrow> positive (atoi s)
      | Some (JString s) \<Rightarrow> positive (atoi (trim_space s))
      | _ \<Rightarrow> None)"

fun first_positive_int :: "json_map \<Rightarrow> string list \<Rightarrow> int option" where
  "first_positive_int payload [] = None"
| "first_positive_int payload (k # ks) =
     (case positive_int (map_of payload k) of Some n \<Rightarrow> Some n | None \<Rightarrow> first_positive_int payload ks)"

fun first_present_int :: "json_map \<Rightarrow> string list \<Rightarrow> int option" where
  \<comment> \<open>\<open>Some 0\<close> for a field that is there and is no positive number\<close>
  "first_present_int payload [] = None"
| "first_present_int payload (k # ks) =
     (case map_of payload k of
        None \<Rightarrow> first_present_int payload ks
      | Some v \<Rightarrow> (case positive_int (Some v) of None \<Rightarrow> Some 0 | Some n \<Rightarrow> Some n))"

definition window_keys :: "string list" where
  "window_keys = [''contextWindow'', ''context_window'', ''contextWindowTokens'', ''context_window_tokens'']"

definition output_keys :: "string list" where
  "output_keys = [''maxOutputTokens'', ''max_output_tokens'']"

definition resolve_model_caps_from_capabilities :: "decoder \<Rightarrow> string \<Rightarrow> string \<Rightarrow> int \<Rightarrow> resolved_caps" where
  "resolve_model_caps_from_capabilities decode modelName capabilitiesJSON fallbackContextWindow =
     (let resolved = resolve_model_caps modelName fallbackContextWindow
      in case parse_capabilities decode capabilitiesJSON of
           None \<Rightarrow> resolved
         | Some payload \<Rightarrow>
             let window = first_positive_int payload window_keys;
                 output = first_positive_int payload output_keys;
                 c = rv_Caps resolved
             in \<lparr>rv_Caps = caps (case window of None \<Rightarrow> mc_ContextWindow c | Some n \<Rightarrow> n)
                    (case output of None \<Rightarrow> mc_MaxOutputTokens c | Some n \<Rightarrow> n),
                  rv_Source = (if window \<noteq> None \<or> output \<noteq> None then Caps_override else rv_Source resolved)\<rparr>)"

definition validate_model_caps_overrides :: "decoder \<Rightarrow> string \<Rightarrow> bool" where
  \<comment> \<open>whether there is no error\<close>
  "validate_model_caps_overrides decode capabilitiesJSON =
     (case parse_capabilities decode capabilitiesJSON of
        None \<Rightarrow> True
      | Some payload \<Rightarrow>
          (let window = first_present_int payload window_keys; output = first_present_int payload output_keys
           in (case window of None \<Rightarrow> True | Some w \<Rightarrow> 4096 \<le> w \<and> w \<le> 16000000)
              \<and> (case output of None \<Rightarrow> True | Some o' \<Rightarrow> 1 \<le> o' \<and> o' \<le> 1000000)
              \<and> (case (window, output) of (Some w, Some o') \<Rightarrow> o' < w | _ \<Rightarrow> True)))"

subsection \<open>Budgets\<close>

definition effective_context_budget :: "model_caps \<Rightarrow> int" where
  "effective_context_budget c =
     (let reserve = (if 20000 < mc_MaxOutputTokens c then 20000 else mc_MaxOutputTokens c);
          budget = wrap64 (mc_ContextWindow c - reserve - 13000)
      in if budget < 4000 then 4000 else budget)"

definition context_budget :: "decoder \<Rightarrow> string \<Rightarrow> string \<Rightarrow> int \<Rightarrow> int" where
  "context_budget decode modelName capabilitiesJSON fallbackContextWindow =
     effective_context_budget (rv_Caps (resolve_model_caps_from_capabilities decode modelName capabilitiesJSON fallbackContextWindow))"

definition compaction_threshold :: "decoder \<Rightarrow> string \<Rightarrow> string \<Rightarrow> int \<Rightarrow> int \<Rightarrow> int" where
  "compaction_threshold decode modelName capabilitiesJSON fallbackContextWindow triggerPercent =
     (if triggerPercent \<le> 0 then 0
      else let percent = (if 100 < triggerPercent then 100 else triggerPercent);
               threshold = go_div (wrap64 (context_budget decode modelName capabilitiesJSON fallbackContextWindow * percent)) 100
           in if threshold < 4000 then 4000 else threshold)"

subsection \<open>Estimates of tokens\<close>

fun rune_code :: "string \<Rightarrow> nat" where
  "rune_code [a] = of_char a"
| "rune_code [a, b] = (of_char a - 0xC0) * 64 + (of_char b - 0x80)"
| "rune_code [a, b, c] = (of_char a - 0xE0) * 4096 + (of_char b - 0x80) * 64 + (of_char c - 0x80)"
| "rune_code [a, b, c, d] =
     (of_char a - 0xF0) * 262144 + (of_char b - 0x80) * 4096 + (of_char c - 0x80) * 64 + (of_char d - 0x80)"
| "rune_code s = 0xFFFD"

definition is_cjk_rune :: "string \<Rightarrow> bool" where
  "is_cjk_rune r \<longleftrightarrow>
     (let n = rune_code r
      in (0x2E80 \<le> n \<and> n \<le> 0x9FFF) \<or> (0xAC00 \<le> n \<and> n \<le> 0xD7AF) \<or> (0xF900 \<le> n \<and> n \<le> 0xFAFF) \<or> (0x20000 \<le> n \<and> n \<le> 0x2A6DF))"

definition estimate_tokens :: "string \<Rightarrow> int" where
  "estimate_tokens content =
     (if content = [] then 0
      else let cjk = int (length (filter is_cjk_rune (runes_of content)));
               other = int (length (filter (Not \<circ> is_cjk_rune) (runes_of content)));
               tokens = (cjk * 2 + 2) div 3 + (other + 3) div 4
           in if tokens = 0 then 1 else tokens)"

subsection \<open>Snippets\<close>

function fields :: "string \<Rightarrow> string \<Rightarrow> string list" where
  \<comment> \<open>\<open>strings.Fields\<close>; the field collected so far\<close>
  "fields part s =
     (case strip_any space_codes s of
        Some t \<Rightarrow> if length t < length s then flush part [] @ fields [] t else []
      | None \<Rightarrow> (case s of [] \<Rightarrow> flush part [] | c # cs \<Rightarrow> fields (part @ [c]) cs))"
  by pat_completeness auto
termination
  by (relation "measure (\<lambda>(part, s). length s)") auto

declare fields.simps [simp del]

fun join :: "string \<Rightarrow> string list \<Rightarrow> string" where
  "join sep [] = []"
| "join sep [s] = s"
| "join sep (s # t # ts) = s @ sep @ join sep (t # ts)"

definition compact_snippet :: "string \<Rightarrow> int \<Rightarrow> string" where
  "compact_snippet content maxLen =
     (let text = join '' '' (fields [] (trim_space content));
          limit = (if maxLen \<le> 0 then 120 else maxLen)
      in if text = [] then []
         else if int (length (runes_of text)) \<le> limit then text
         else string_of_runes (take (nat limit) (runes_of text)) @ ''...'')"

subsection \<open>Budgets are usable\<close>

lemma positive_bound: "positive_int v = Some n \<Longrightarrow> 0 < n \<and> n < 2 ^ 63"
  by (auto simp: positive_int_def positive_def atoi_def in_i64_def Let_def split: option.splits json.splits if_splits)

lemma first_positive_bound: "first_positive_int payload ks = Some n \<Longrightarrow> 0 < n \<and> n < 2 ^ 63"
  by (induction ks) (auto split: option.splits dest: positive_bound)

lemma first_present_is_positive:
  "first_present_int payload ks = Some n \<Longrightarrow> 0 < n \<Longrightarrow> first_positive_int payload ks = Some n"
proof (induction ks)
  case (Cons k ks)
  then show ?case by (cases "map_of payload k") (auto simp: positive_int_def split: option.splits)
qed simp

lemma first_present_none: "first_present_int payload ks = None \<Longrightarrow> first_positive_int payload ks = None"
  by (induction ks) (auto simp: positive_int_def split: option.splits)

lemma catalog_bounds:
  "list_all (\<lambda>(patterns, c). 4096 \<le> mc_ContextWindow c \<and> mc_ContextWindow c \<le> 16000000 \<and> 1 \<le> mc_MaxOutputTokens c \<and> mc_MaxOutputTokens c \<le> 1000000)
     model_caps_catalog"
  by (simp add: model_caps_catalog_def caps_def)

lemma resolve_caps_bounds:
  fixes name :: string and fallback :: int
  defines "c \<equiv> rv_Caps (resolve_model_caps name fallback)"
  shows "4096 \<le> mc_ContextWindow c \<and> mc_ContextWindow c \<le> 16000000 \<and> 1 \<le> mc_MaxOutputTokens c \<and> mc_MaxOutputTokens c \<le> 1000000"
proof (cases "List.find (\<lambda>(patterns, c). list_ex (contains_model_pattern (to_lower (trim_space name))) patterns) model_caps_catalog")
  case None
  then show ?thesis
    unfolding c_def resolve_model_caps_def Let_def by (simp add: caps_def normalize_fallback_context_window_def)
next
  case (Some r)
  then have "r \<in> set model_caps_catalog" by (force simp: find_Some_iff in_set_conv_nth)
  moreover have "c = snd r" unfolding c_def resolve_model_caps_def Let_def using Some by (simp split: prod.split)
  ultimately show ?thesis using catalog_bounds by (auto simp: list_all_iff case_prod_unfold)
qed

lemma present_or_absent:
  assumes "first_present_int payload ks = None \<or> first_present_int payload ks = Some n \<and> lo \<le> n \<and> n \<le> hi" "0 < lo" "lo \<le> d" "d \<le> hi"
  shows "lo \<le> (case first_positive_int payload ks of None \<Rightarrow> d | Some n \<Rightarrow> n) \<and> (case first_positive_int payload ks of None \<Rightarrow> d | Some n \<Rightarrow> n) \<le> hi"
  using assms first_present_is_positive [of payload ks n] first_present_none [of payload ks] by auto

lemma validated_caps_bounds:
  assumes "validate_model_caps_overrides decode capabilitiesJSON"
  defines "c \<equiv> \<lambda>name fallback. rv_Caps (resolve_model_caps_from_capabilities decode name capabilitiesJSON fallback)"
  shows "4096 \<le> mc_ContextWindow (c name fallback) \<and> mc_ContextWindow (c name fallback) \<le> 16000000
    \<and> 1 \<le> mc_MaxOutputTokens (c name fallback) \<and> mc_MaxOutputTokens (c name fallback) \<le> 1000000"
proof (cases "parse_capabilities decode capabilitiesJSON")
  case None
  then show ?thesis using resolve_caps_bounds [of name fallback] by (simp add: c_def resolve_model_caps_from_capabilities_def)
next
  case (Some payload)
  note bounds = resolve_caps_bounds [of name fallback]
  have window: "first_present_int payload window_keys = None
      \<or> (\<exists>n. first_present_int payload window_keys = Some n \<and> 4096 \<le> n \<and> n \<le> 16000000)"
    and out: "first_present_int payload output_keys = None
      \<or> (\<exists>n. first_present_int payload output_keys = Some n \<and> 1 \<le> n \<and> n \<le> 1000000)"
    using assms(1) Some by (auto simp: validate_model_caps_overrides_def Let_def split: option.splits)
  show ?thesis
    using window out bounds present_or_absent [of payload window_keys _ 4096 16000000] present_or_absent [of payload output_keys _ 1 1000000]
    unfolding c_def resolve_model_caps_from_capabilities_def Some Let_def by (fastforce simp: caps_def)
qed

text \<open>
  C35: limits an administrator can save leave every request a usable budget: the input budget of a model is at least 4000 tokens and
  smaller than its context window, and a conversation is compacted at a threshold of at least 4000 tokens that is never above
  that budget, whatever the name of the model, the percentage and the fallback.
\<close>

theorem saved_limits_leave_a_budget:
  assumes "validate_model_caps_overrides decode capabilitiesJSON" "0 < percent"
  shows "4000 \<le> compaction_threshold decode name capabilitiesJSON fallback percent
    \<and> compaction_threshold decode name capabilitiesJSON fallback percent \<le> context_budget decode name capabilitiesJSON fallback
    \<and> context_budget decode name capabilitiesJSON fallback
        < mc_ContextWindow (rv_Caps (resolve_model_caps_from_capabilities decode name capabilitiesJSON fallback))"
proof -
  let ?c = "rv_Caps (resolve_model_caps_from_capabilities decode name capabilitiesJSON fallback)"
  let ?b = "context_budget decode name capabilitiesJSON fallback"
  note bounds = validated_caps_bounds [OF assms(1), of name fallback]
  have "wrap64 (mc_ContextWindow ?c - min 20000 (mc_MaxOutputTokens ?c) - 13000)
      = mc_ContextWindow ?c - min 20000 (mc_MaxOutputTokens ?c) - 13000"
    using bounds by (intro wrap64_id) (auto simp: in_i64_def)
  then have budget: "4000 \<le> ?b" "?b < mc_ContextWindow ?c" "?b < 16000000"
    using bounds by (auto simp: context_budget_def effective_context_budget_def Let_def min_def split: if_splits)
  have threshold: "4000 \<le> (if go_div (wrap64 (?b * p)) 100 < 4000 then 4000 else go_div (wrap64 (?b * p)) 100)
      \<and> (if go_div (wrap64 (?b * p)) 100 < 4000 then 4000 else go_div (wrap64 (?b * p)) 100) \<le> ?b" if "0 < p" "p \<le> 100" for p
  proof -
    have "?b * p \<le> ?b * 100" "0 \<le> ?b * p" using that budget(1) by simp_all
    then have "go_div (wrap64 (?b * p)) 100 = ?b * p div 100" using budget(3) by (simp add: wrap64_nonneg_small go_div_nonneg)
    moreover have "?b * p div 100 \<le> ?b" using \<open>?b * p \<le> ?b * 100\<close> by linarith
    ultimately show ?thesis using budget(1) by simp
  qed
  show ?thesis
    using budget(2) threshold [of "if 100 < percent then 100 else percent"] assms(2) by (simp add: compaction_threshold_def Let_def)
qed

theorem saved_limits_leave_a_budget_witness:
  "let decode = (\<lambda>s. if s = ''{c}'' then Some [(''contextWindow'', JNumber ''4096''), (''maxOutputTokens'', JNumber ''4000'')] else None)
   in context_budget decode ''m'' ''{c}'' 0 < mc_ContextWindow (rv_Caps (resolve_model_caps_from_capabilities decode ''m'' ''{c}'' 0))"
proof -
  let ?decode = "\<lambda>s. if s = ''{c}'' then Some [(''contextWindow'', JNumber ''4096''), (''maxOutputTokens'', JNumber ''4000'')] else None"
  have "validate_model_caps_overrides ?decode ''{c}''" by code_simp
  from saved_limits_leave_a_budget [OF this, of 80 "''m''" 0] show ?thesis by (simp add: Let_def)
qed

end
