(* ===== verification/ChatSnapshots.thy ===== *)
theory ChatSnapshots
  imports ModelCaps
begin

text \<open>
  Messages of a conversation and the snapshots that summarise a prefix of a branch
  (\<open>domain/conversation/types.go\<close>, \<open>application/compact/snapshot_scope.go\<close>). Of a message the model has the
  columns; the structures loaded beside it for display are left out. The hash is a parameter: \<open>sha\<close> is the hexadecimal SHA-256
  of a string.
\<close>

subsection \<open>Messages and snapshots\<close>

record message =
  ms_ID :: nat
  ms_ConversationID :: nat
  ms_UserID :: nat
  ms_PublicID :: string
  ms_ParentMessageID :: "nat option"
  ms_RunID :: string
  ms_Role :: string
  ms_ContentType :: string
  ms_Content :: string
  ms_ReasoningContent :: string
  ms_BranchReason :: string
  ms_SourceMessageID :: "nat option"
  ms_TokenUsage :: int
  ms_Status :: string
  ms_ErrorCode :: string
  ms_ErrorMessage :: string
  ms_Attachments :: string

definition zero_message :: message where
  "zero_message =
     \<lparr>ms_ID = 0, ms_ConversationID = 0, ms_UserID = 0, ms_PublicID = [], ms_ParentMessageID = None, ms_RunID = [], ms_Role = [],
      ms_ContentType = [], ms_Content = [], ms_ReasoningContent = [], ms_BranchReason = [], ms_SourceMessageID = None,
      ms_TokenUsage = 0, ms_Status = [], ms_ErrorCode = [], ms_ErrorMessage = [], ms_Attachments = []\<rparr>"

record context_snapshot =
  cs_ID :: nat
  cs_ConversationID :: nat
  cs_MessageID :: nat
  cs_UserID :: nat
  cs_RunID :: string
  cs_FromTurn :: int
  cs_ToTurn :: int
  cs_CoveredUntilMessageID :: nat
  cs_CoveredUntilPublicID :: string
  cs_CoveragePathHash :: string
  cs_CoveredMessageCount :: int
  cs_SourceTokens :: int
  cs_SummaryTokens :: int
  cs_SummaryText :: string
  cs_Strategy :: string

subsection \<open>Coverage\<close>

type_synonym hash = "string \<Rightarrow> string"

definition hash_step :: "hash \<Rightarrow> string \<Rightarrow> message \<Rightarrow> string" where
  "hash_step sha state m =
     sha (state @ [CHR 0x00] @ itoa (int (ms_ID m)) @ '':'' @ trim_space (ms_PublicID m) @ '':''
       @ itoa (int (case ms_ParentMessageID m of None \<Rightarrow> 0 | Some p \<Rightarrow> p)) @ '':'' @ trim_space (ms_Role m) @ [CHR 0x0A])"

definition extend_coverage_path_hash :: "hash \<Rightarrow> string \<Rightarrow> message list \<Rightarrow> string" where
  "extend_coverage_path_hash sha previousHash messages = foldl (hash_step sha) (trim_space previousHash) messages"

definition coverage_path_hash :: "hash \<Rightarrow> message list \<Rightarrow> string" where
  "coverage_path_hash sha messages = extend_coverage_path_hash sha [] messages"

definition snapshot_has_coverage :: "context_snapshot option \<Rightarrow> bool" where
  "snapshot_has_coverage snapshot \<longleftrightarrow>
     (case snapshot of
        None \<Rightarrow> False
      | Some s \<Rightarrow> trim_space (cs_SummaryText s) \<noteq> [] \<and> 0 < cs_CoveredUntilMessageID s \<and> trim_space (cs_CoveredUntilPublicID s) \<noteq> []
          \<and> trim_space (cs_CoveragePathHash s) \<noteq> [] \<and> 0 < cs_CoveredMessageCount s)"

definition at_boundary :: "context_snapshot \<Rightarrow> message \<Rightarrow> bool" where
  "at_boundary s m \<longleftrightarrow> ms_ID m = cs_CoveredUntilMessageID s"

definition same_public_id :: "context_snapshot \<Rightarrow> message \<Rightarrow> bool" where
  "same_public_id s m \<longleftrightarrow> trim_space (ms_PublicID m) = trim_space (cs_CoveredUntilPublicID s)"

fun find_index :: "('a \<Rightarrow> bool) \<Rightarrow> 'a list \<Rightarrow> nat option" where
  "find_index P [] = None"
| "find_index P (x # xs) = (if P x then Some 0 else map_option Suc (find_index P xs))"

definition snapshot_boundary_index :: "hash \<Rightarrow> message list \<Rightarrow> context_snapshot option \<Rightarrow> nat option" where
  "snapshot_boundary_index sha messages snapshot =
     (case snapshot of
        None \<Rightarrow> None
      | Some s \<Rightarrow>
          if \<not> snapshot_has_coverage snapshot then None
          else case find_index (at_boundary s) messages of
                 None \<Rightarrow> None
               | Some i \<Rightarrow>
                   if \<not> same_public_id s (messages ! i) then None
                   else if int (i + 1) \<noteq> cs_CoveredMessageCount s then None
                   else if coverage_path_hash sha (take (i + 1) messages) \<noteq> trim_space (cs_CoveragePathHash s) then None
                   else Some i)"

definition snapshot_boundary_ancestor_index :: "message list \<Rightarrow> context_snapshot option \<Rightarrow> nat option" where
  "snapshot_boundary_ancestor_index messages snapshot =
     (case snapshot of
        None \<Rightarrow> None
      | Some s \<Rightarrow>
          if \<not> snapshot_has_coverage snapshot then None
          else case find_index (at_boundary s) messages of
                 None \<Rightarrow> None
               | Some i \<Rightarrow> if same_public_id s (messages ! i) then Some i else None)"

definition boundary_index :: "hash \<Rightarrow> message list \<Rightarrow> context_snapshot option \<Rightarrow> nat option" where
  \<comment> \<open>the two searches in the order every caller makes them\<close>
  "boundary_index sha messages snapshot =
     (case snapshot_boundary_index sha messages snapshot of
        Some i \<Rightarrow> Some i
      | None \<Rightarrow> snapshot_boundary_ancestor_index messages snapshot)"

subsection \<open>Turns\<close>

definition is_user :: "message \<Rightarrow> bool" where
  "is_user m \<longleftrightarrow> ms_Role m = ''user''"

definition count_user_turns :: "message list \<Rightarrow> int" where
  "count_user_turns messages = int (length (filter is_user messages))"

fun preserved_from :: "message list \<Rightarrow> int \<Rightarrow> int \<Rightarrow> int \<times> nat option" where
  \<comment> \<open>over the reversed messages: the turns counted, and how many messages up to the first preserved one are left\<close>
  "preserved_from [] preserveTurns userTurns = (userTurns, None)"
| "preserved_from (m # rest) preserveTurns userTurns =
     (if \<not> is_user m then preserved_from rest preserveTurns userTurns
      else if userTurns + 1 \<le> preserveTurns then
        (case preserved_from rest preserveTurns (userTurns + 1) of
           (turns, None) \<Rightarrow> (turns, Some (length rest))
         | (turns, Some i) \<Rightarrow> (turns, Some i))
      else (userTurns + 1, None))"

definition split_messages_by_preserved_turns :: "message list \<Rightarrow> int \<Rightarrow> message list \<times> message list" where
  "split_messages_by_preserved_turns messages preserveTurns =
     (let keep = (if preserveTurns \<le> 0 then 8 else preserveTurns)
      in case preserved_from (rev messages) keep 0 of
           (turns, None) \<Rightarrow> ([], messages)
         | (turns, Some i) \<Rightarrow> if turns \<le> keep \<or> i = 0 then ([], messages) else (take i messages, drop i messages))"

definition estimate_message_token_total :: "message list \<Rightarrow> int" where
  "estimate_message_token_total messages =
     foldl (\<lambda>total m. wrap64 (total + (if 0 < ms_TokenUsage m then ms_TokenUsage m else estimate_tokens (ms_Content m) + 5))) 0 messages"

subsection \<open>Boundaries\<close>

lemma find_index_Some: "find_index P xs = Some i \<Longrightarrow> i < length xs \<and> P (xs ! i) \<and> (\<forall>j<i. \<not> P (xs ! j))"
proof (induction xs arbitrary: i)
  case (Cons x xs)
  show ?case
  proof (cases "P x")
    case False
    then obtain k where "i = Suc k" "find_index P xs = Some k" using Cons.prems by auto
    then show ?thesis using Cons.IH [of k] False by (auto simp: less_Suc_eq_0_disj)
  qed (use Cons.prems in simp)
qed simp

lemma boundary_indexD:
  assumes "boundary_index sha messages snapshot = Some i"
  obtains s where "snapshot = Some s" "snapshot_has_coverage snapshot" "i < length messages"
    "ms_ID (messages ! i) = cs_CoveredUntilMessageID s" "same_public_id s (messages ! i)"
  using assms find_index_Some
  by (fastforce simp: boundary_index_def snapshot_boundary_index_def snapshot_boundary_ancestor_index_def at_boundary_def
      split: option.splits if_splits)

lemma boundary_index_iff:
  assumes "snapshot_has_coverage (Some s)"
  shows "boundary_index sha messages (Some s)
    = (case find_index (at_boundary s) messages of None \<Rightarrow> None | Some i \<Rightarrow> if same_public_id s (messages ! i) then Some i else None)"
  using assms by (auto simp: boundary_index_def snapshot_boundary_index_def snapshot_boundary_ancestor_index_def split: option.splits)

lemma extend_hash_append:
  "trim_space h = h \<Longrightarrow> extend_coverage_path_hash sha h (xs @ ys) = foldl (hash_step sha) (extend_coverage_path_hash sha h xs) ys"
  by (simp add: extend_coverage_path_hash_def)

end
