(* ===== verification/Branches.thy ===== *)
theory Branches
  imports ChatSnapshots
begin

text \<open>
  The tree of messages of a conversation and the branch a request continues
  (\<open>application/conversation/service_branch.go\<close> with the queries of \<open>postgres/conversation/repository.go\<close> it
  makes, \<open>prompt_scope.go\<close>). The table is the list of the rows that are not deleted; a recursive query
  is a recursion with its depth. Errors of the database are left out. Decoding the attachments of a message is a parameter.
\<close>

subsection \<open>Queries\<close>

definition find_message :: "message list \<Rightarrow> nat \<Rightarrow> nat \<Rightarrow> message option" where
  "find_message rows conversationID messageID =
     List.find (\<lambda>m. ms_ID m = messageID \<and> ms_ConversationID m = conversationID) rows"

definition get_message_by_public_id :: "message list \<Rightarrow> nat \<Rightarrow> nat \<Rightarrow> string \<Rightarrow> message option" where
  \<comment> \<open>\<open>First\<close> orders by the primary key\<close>
  "get_message_by_public_id rows conversationID userID publicID =
     List.find (\<lambda>m. ms_ConversationID m = conversationID \<and> ms_UserID m = userID \<and> ms_PublicID m = publicID) (sort_key ms_ID rows)"

fun ancestor_chain :: "message list \<Rightarrow> nat \<Rightarrow> nat \<Rightarrow> nat \<Rightarrow> message list" where
  \<comment> \<open>the recursive query: from a message towards the root, to a depth\<close>
  "ancestor_chain rows conversationID leaf 0 = []"
| "ancestor_chain rows conversationID leaf (Suc depth) =
     (case find_message rows conversationID leaf of
        None \<Rightarrow> []
      | Some m \<Rightarrow> m # (case ms_ParentMessageID m of None \<Rightarrow> [] | Some p \<Rightarrow> ancestor_chain rows conversationID p depth))"

definition max_ancestor_query_depth :: nat where "max_ancestor_query_depth = 2000"

definition max_message_query_limit :: nat where "max_message_query_limit = 1000"

definition list_message_ancestors :: "message list \<Rightarrow> nat \<Rightarrow> nat \<Rightarrow> nat \<Rightarrow> message list" where
  "list_message_ancestors rows conversationID leafMessageID maxDepth =
     (let depth = (if maxDepth = 0 then 40 else min maxDepth max_ancestor_query_depth)
      in rev (ancestor_chain rows conversationID leafMessageID depth))"

definition preview_of :: "message \<Rightarrow> message" where
  "preview_of m =
     zero_message\<lparr>ms_ID := ms_ID m, ms_ConversationID := ms_ConversationID m, ms_PublicID := ms_PublicID m, ms_Role := ms_Role m,
       ms_Content := ms_Content m, ms_Status := ms_Status m, ms_ErrorMessage := ms_ErrorMessage m\<rparr>"

definition latest_message_id :: "message list \<Rightarrow> nat \<Rightarrow> nat option" where
  "latest_message_id rows conversationID =
     (case sort_key ms_ID (filter (\<lambda>m. ms_ConversationID m = conversationID) rows) of [] \<Rightarrow> None | ms \<Rightarrow> Some (ms_ID (last ms)))"

definition list_latest_branch_preview_messages :: "message list \<Rightarrow> nat \<Rightarrow> nat \<Rightarrow> nat \<Rightarrow> message list" where
  "list_latest_branch_preview_messages rows conversationID maxDepth limit =
     (let depth = (if maxDepth = 0 then 100 else min maxDepth max_ancestor_query_depth);
          n = (if limit = 0 then 10 else min limit max_message_query_limit)
      in case latest_message_id rows conversationID of
           None \<Rightarrow> []
         | Some leaf \<Rightarrow>
             rev (map preview_of (take n (filter (\<lambda>m. ms_Role m \<in> set [''user'', ''assistant''])
               (ancestor_chain rows conversationID leaf depth)))))"

subsection \<open>Usable messages\<close>

definition has_status :: "string \<Rightarrow> message \<Rightarrow> bool" where
  "has_status s m \<longleftrightarrow> equal_fold (trim_space (ms_Status m)) s"

definition is_context_message :: "message \<Rightarrow> bool" where
  "is_context_message m \<longleftrightarrow> has_status ''success'' m \<or> (ms_Role m = ''assistant'' \<and> has_status ''interrupted'' m)"

definition is_recovered_assistant_retry_user :: "message \<Rightarrow> message \<Rightarrow> bool" where
  "is_recovered_assistant_retry_user userMessage retryAssistant \<longleftrightarrow>
     ms_Role userMessage = ''user'' \<and> has_status ''error'' userMessage
     \<and> ms_Role retryAssistant = ''assistant'' \<and> equal_fold (trim_space (ms_BranchReason retryAssistant)) ''retry''
     \<and> ms_SourceMessageID retryAssistant \<noteq> None \<and> is_context_message retryAssistant
     \<and> ms_ParentMessageID retryAssistant = Some (ms_ID userMessage)"

definition recovered :: "message \<Rightarrow> message" where
  "recovered m = m\<lparr>ms_Status := ''success'', ms_ErrorCode := [], ms_ErrorMessage := []\<rparr>"

fun recover_assistant_retry_user_states :: "message list \<Rightarrow> message list" where
  "recover_assistant_retry_user_states [] = []"
| "recover_assistant_retry_user_states [m] = [m]"
| "recover_assistant_retry_user_states (a # b # rest) =
     (if is_recovered_assistant_retry_user a b then recovered a else a) # recover_assistant_retry_user_states (b # rest)"

definition normalize_default_branch_context :: "message list \<Rightarrow> message option \<Rightarrow> message list \<times> message option" where
  "normalize_default_branch_context ancestors parent =
     (if ancestors = [] then
        (case parent of None \<Rightarrow> ([], None) | Some p \<Rightarrow> if is_context_message p then ([], Some p) else ([], None))
      else
        let ended = dropWhile (Not \<circ> is_context_message) (rev (recover_assistant_retry_user_states ancestors));
            normalized = rev (takeWhile is_context_message ended)
        in if normalized = [] then ([], None) else (normalized, Some (last normalized)))"

definition select_latest_default_parent_candidate :: "message list \<Rightarrow> message option" where
  "select_latest_default_parent_candidate messages =
     (case List.find (\<lambda>m. ms_Role m = ''assistant'' \<and> is_context_message m) (rev messages) of
        Some m \<Rightarrow> Some m
      | None \<Rightarrow> List.find (\<lambda>m. (ms_Role m = ''user'' \<or> ms_Role m = ''system'') \<and> is_context_message m) (rev messages))"

definition filter_blocked_messages :: "message list \<Rightarrow> message list" where
  "filter_blocked_messages messages = filter (\<lambda>m. \<not> has_status ''blocked'' m) messages"

subsection \<open>The branch of a request\<close>

record message_branch_state =
  bs_ExistingMessages :: "message list"
  bs_ParentMessageID :: "nat option"
  bs_ParentPublicID :: string
  bs_SourceMessageID :: "nat option"
  bs_SourcePublicID :: string
  bs_ReuseUserMessage :: "message option"

datatype branch_err = ErrInvalidMessageBranch | ErrContextAncestorSafetyLimit

definition resolve_by_public_id :: "message list \<Rightarrow> nat \<Rightarrow> nat \<Rightarrow> string \<Rightarrow> branch_err + message option" where
  "resolve_by_public_id rows conversationID userID publicID =
     (if trim_space publicID = [] then Inr None
      else case get_message_by_public_id rows conversationID userID (trim_space publicID) of
             None \<Rightarrow> Inl ErrInvalidMessageBranch
           | Some m \<Rightarrow> Inr (Some m))"

definition parent_of_source ::
  "message list \<Rightarrow> nat \<Rightarrow> string \<Rightarrow> message \<Rightarrow> message option \<Rightarrow> branch_err + message option" where
  \<comment> \<open>the parent a retry or an edit of a message must have\<close>
  "parent_of_source rows conversationID branchReason source parent =
     (if branchReason \<noteq> ''retry'' \<and> branchReason \<noteq> ''edit'' then Inl ErrInvalidMessageBranch
      else and_then
        (case (ms_ParentMessageID source, parent) of
           (None, Some p) \<Rightarrow> Inl ErrInvalidMessageBranch
         | (None, None) \<Rightarrow> Inr None
         | (Some expected, None) \<Rightarrow>
             (case find_message rows conversationID expected of None \<Rightarrow> Inl ErrInvalidMessageBranch | Some p \<Rightarrow> Inr (Some p))
         | (Some expected, Some p) \<Rightarrow> if ms_ID p \<noteq> expected then Inl ErrInvalidMessageBranch else Inr (Some p))
        (\<lambda>parent.
          if ms_Role source = ''user'' then Inr parent
          else if ms_Role source = ''assistant'' then
            (case parent of
               None \<Rightarrow> Inl ErrInvalidMessageBranch
             | Some p \<Rightarrow> if branchReason \<noteq> ''retry'' \<or> ms_Role p \<noteq> ''user'' then Inl ErrInvalidMessageBranch else Inr parent)
          else Inl ErrInvalidMessageBranch))"

definition branch_state_of :: "message option \<Rightarrow> message option \<Rightarrow> message_branch_state" where
  "branch_state_of parent source =
     \<lparr>bs_ExistingMessages = [],
      bs_ParentMessageID = map_option ms_ID parent,
      bs_ParentPublicID = (case parent of None \<Rightarrow> [] | Some p \<Rightarrow> ms_PublicID p),
      bs_SourceMessageID = map_option ms_ID source,
      bs_SourcePublicID = (case source of None \<Rightarrow> [] | Some s \<Rightarrow> ms_PublicID s),
      bs_ReuseUserMessage = (case source of None \<Rightarrow> None | Some s \<Rightarrow> if ms_Role s = ''assistant'' then parent else None)\<rparr>"

definition resolve_message_branch ::
  "message list \<Rightarrow> nat \<Rightarrow> nat \<Rightarrow> string \<Rightarrow> string \<Rightarrow> string \<Rightarrow> branch_err + message_branch_state" where
  "resolve_message_branch rows conversationID userID parentPublicID sourcePublicID branchReason =
     and_then (resolve_by_public_id rows conversationID userID parentPublicID) (\<lambda>parent.
     and_then (resolve_by_public_id rows conversationID userID sourcePublicID) (\<lambda>source.
     case source of
       Some s \<Rightarrow>
         and_then (parent_of_source rows conversationID branchReason s parent) (\<lambda>parent. Inr (branch_state_of parent source))
     | None \<Rightarrow>
         if branchReason \<noteq> ''default'' then Inl ErrInvalidMessageBranch
         else Inr (branch_state_of
           (case parent of
              Some p \<Rightarrow> Some p
            | None \<Rightarrow> select_latest_default_parent_candidate
                (list_latest_branch_preview_messages rows conversationID 2000 32)) None)))"

subsection \<open>Loading the branch\<close>

definition context_ancestor_page_size :: nat where "context_ancestor_page_size = 256"

definition context_ancestor_max_count :: nat where "context_ancestor_max_count = 10000"

definition context_ancestor_max_bytes :: nat where "context_ancestor_max_bytes = 67108864"

definition context_messages_payload_bytes :: "message list \<Rightarrow> nat" where
  "context_messages_payload_bytes messages =
     sum_list (map (\<lambda>m. length (ms_Content m) + length (ms_ReasoningContent m) + length (ms_Attachments m)
       + length (ms_ErrorMessage m)) messages)"

definition page_boundary :: "context_snapshot option \<Rightarrow> message list \<Rightarrow> nat option" where
  "page_boundary snapshot page =
     (case snapshot of
        None \<Rightarrow> None
      | Some s \<Rightarrow> if \<not> snapshot_has_coverage snapshot then None else find_index (\<lambda>m. at_boundary s m \<and> same_public_id s m) page)"

definition page_start :: "context_snapshot option \<Rightarrow> message list \<Rightarrow> nat" where
  "page_start snapshot page = (case page_boundary snapshot page of None \<Rightarrow> 0 | Some i \<Rightarrow> i)"

function load_path ::
  "message list \<Rightarrow> nat \<Rightarrow> context_snapshot option \<Rightarrow> nat \<Rightarrow> message list \<Rightarrow> nat \<Rightarrow> nat \<Rightarrow> branch_err + message list" where
  "load_path rows conversationID snapshot leafID path loadedCount loadedBytes =
     (if leafID = 0 then Inr path
      else
        let page = list_message_ancestors rows conversationID leafID context_ancestor_page_size;
            segment = drop (page_start snapshot page) page;
            count = loadedCount + length segment;
            bytes = loadedBytes + context_messages_payload_bytes segment
        in if page = [] then Inr path
           else if context_ancestor_max_count < count \<or> context_ancestor_max_bytes < bytes then Inl ErrContextAncestorSafetyLimit
           else if page_boundary snapshot page \<noteq> None \<or> length page < context_ancestor_page_size then Inr (segment @ path)
           else case ms_ParentMessageID (hd page) of
                  None \<Rightarrow> Inr (segment @ path)
                | Some p \<Rightarrow> load_path rows conversationID snapshot p (segment @ path) count bytes)"
  by pat_completeness auto
termination
proof (relation "measure (\<lambda>(rows, conversationID, snapshot, leafID, path, loadedCount, loadedBytes).
      Suc context_ancestor_max_count - loadedCount)", goal_cases)
  case (2 rows conversationID snapshot leafID path loadedCount loadedBytes page segment count bytes p)
  then have "0 < length segment" "\<not> context_ancestor_max_count < loadedCount + length segment" by (simp_all add: page_start_def)
  then show ?case using 2(4) by (simp add: context_ancestor_max_count_def del: length_greater_0_conv)
qed simp

declare load_path.simps [simp del]

definition load_message_branch_context ::
  "message list \<Rightarrow> nat \<Rightarrow> message_branch_state \<Rightarrow> context_snapshot option \<Rightarrow> string \<Rightarrow> branch_err + message_branch_state" where
  "load_message_branch_context rows conversationID branch snapshot branchReason =
     (case bs_ParentMessageID branch of
        None \<Rightarrow> Inr branch
      | Some leafID \<Rightarrow>
          if leafID = 0 then Inr branch
          else and_then (load_path rows conversationID snapshot leafID [] 0 0) (\<lambda>path.
            let path = recover_assistant_retry_user_states path
            in Inr (branch\<lparr>bs_ExistingMessages :=
                 if branchReason = ''default'' then fst (normalize_default_branch_context path None) else path\<rparr>)))"

subsection \<open>The path of a message\<close>

definition messages_by_id :: "message list \<Rightarrow> nat \<Rightarrow> message option" where
  "messages_by_id messages = map_of (rev (map (\<lambda>m. (ms_ID m, m)) messages))"

function path_loop :: "message list \<Rightarrow> message list \<Rightarrow> nat \<Rightarrow> message list" where
  \<comment> \<open>the path found so far, leaf first; a message of it is not visited again\<close>
  "path_loop messages path currentID =
     (if currentID = 0 then path
      else case messages_by_id messages currentID of
             None \<Rightarrow> path
           | Some item \<Rightarrow>
               if currentID \<in> ms_ID ` set path then path
               else case ms_ParentMessageID item of
                      None \<Rightarrow> path @ [item]
                    | Some p \<Rightarrow> path_loop messages (path @ [item]) p)"
  by pat_completeness auto
termination
proof (relation "measure (\<lambda>(messages, path, currentID). length (filter (\<lambda>m. ms_ID m \<notin> ms_ID ` set path) messages))",
    goal_cases)
  case (2 messages path currentID item p)
  have item: "item \<in> set messages" "ms_ID item = currentID"
    using 2(2) by (auto simp: messages_by_id_def dest!: map_of_SomeD)
  have "length (filter (\<lambda>m. ms_ID m \<notin> ms_ID ` set (path @ [item])) messages)
      < length (filter (\<lambda>m. ms_ID m \<notin> ms_ID ` set path) messages)"
    using item 2(3)
  proof (induction messages)
    case (Cons m ms)
    have le: "length (filter (\<lambda>m. ms_ID m \<notin> ms_ID ` set (path @ [item])) ms) \<le> length (filter (\<lambda>m. ms_ID m \<notin> ms_ID ` set path) ms)"
      by (induction ms) auto
    show ?case
    proof (cases "m = item")
      case True
      then show ?thesis using le Cons.prems by simp
    qed (use Cons le in auto)
  qed simp
  then show ?case by simp
qed simp

declare path_loop.simps [simp del]

definition build_message_path :: "message list \<Rightarrow> nat \<Rightarrow> message list" where
  "build_message_path messages leafID = (if leafID = 0 \<or> messages = [] then [] else rev (path_loop messages [] leafID))"

definition build_branch_message_path :: "message_branch_state \<Rightarrow> message \<Rightarrow> message list" where
  "build_branch_message_path branch userMessage =
     (case bs_ReuseUserMessage branch of
        Some reused \<Rightarrow> build_message_path (bs_ExistingMessages branch) (ms_ID reused)
      | None \<Rightarrow> build_message_path (bs_ExistingMessages branch @ [userMessage]) (ms_ID userMessage))"

definition context_messages_of :: "message_branch_state \<Rightarrow> message \<Rightarrow> message list" where
  \<comment> \<open>what a send hands on to the planning of its prompt\<close>
  "context_messages_of branch userMessage =
     recover_assistant_retry_user_states (filter_blocked_messages (build_branch_message_path branch userMessage))"

subsection \<open>The scope of a prompt\<close>

record attachment_ref =
  ar_FileID :: string
  ar_Kind :: string
  ar_MimeType :: string
  ar_DetectedMIME :: string

type_synonym refs_decoder = "string \<Rightarrow> attachment_ref list option"

definition parse_attachment_snapshot_refs :: "refs_decoder \<Rightarrow> string \<Rightarrow> attachment_ref list" where
  "parse_attachment_snapshot_refs decode raw =
     (let payload = trim_space raw
      in if payload = [] \<or> payload = ''[]'' then [] else case decode payload of None \<Rightarrow> [] | Some items \<Rightarrow> items)"

definition infer_attachment_kind :: "string \<Rightarrow> string" where
  "infer_attachment_kind mimeType = (if has_prefix (to_lower (trim_space mimeType)) ''image/'' then ''image'' else ''file'')"

definition normalize_attachment_kind :: "string \<Rightarrow> string \<Rightarrow> string" where
  "normalize_attachment_kind kind mimeType =
     (if trim_space kind \<noteq> [] then trim_space kind else infer_attachment_kind mimeType)"

definition is_image_ref :: "attachment_ref \<Rightarrow> bool" where
  "is_image_ref r \<longleftrightarrow>
     normalize_attachment_kind (ar_Kind r)
       (if trim_space (ar_DetectedMIME r) \<noteq> [] then trim_space (ar_DetectedMIME r) else trim_space (ar_MimeType r)) = ''image''"

fun image_reserve :: "refs_decoder \<Rightarrow> nat \<Rightarrow> message list \<Rightarrow> int list" where
  \<comment> \<open>over the reversed messages, with the images that may still be counted\<close>
  "image_reserve decode remaining [] = []"
| "image_reserve decode remaining (m # rest) =
     (if \<not> equal_fold (trim_space (ms_Role m)) ''user'' then 0 # image_reserve decode remaining rest
      else let n = min remaining (length (filter is_image_ref (parse_attachment_snapshot_refs decode (ms_Attachments m))))
           in int n * 1024 # image_reserve decode (remaining - n) rest)"

definition conversation_image_token_reserve :: "refs_decoder \<Rightarrow> message list \<Rightarrow> int list" where
  "conversation_image_token_reserve decode messages = rev (image_reserve decode 10 (rev messages))"

definition estimate_domain_message_tokens :: "message \<Rightarrow> bool \<Rightarrow> int" where
  "estimate_domain_message_tokens m includeReasoningContent =
     (if includeReasoningContent \<and> ms_Role m = ''assistant''
      then estimate_tokens (ms_Content m) + estimate_tokens (ms_ReasoningContent m) else estimate_tokens (ms_Content m))"

record prompt_scope =
  ps_FullBranchMessages :: "message list"
  ps_CoveredMessages :: "message list"
  ps_RetainedMessages :: "message list"
  ps_Snapshot :: "context_snapshot option"
  ps_CoveredUntilID :: nat

definition build_prompt_scope :: "hash \<Rightarrow> message list \<Rightarrow> context_snapshot option \<Rightarrow> bool \<Rightarrow> prompt_scope" where
  "build_prompt_scope sha messages snapshot enabled =
     (let scope = \<lparr>ps_FullBranchMessages = messages, ps_CoveredMessages = [], ps_RetainedMessages = messages, ps_Snapshot = None,
            ps_CoveredUntilID = 0\<rparr>
      in if \<not> enabled then scope
         else case (boundary_index sha messages snapshot, snapshot) of
                (Some i, Some s) \<Rightarrow>
                  if length messages \<le> i + 1 then scope
                  else scope\<lparr>ps_Snapshot := snapshot, ps_CoveredMessages := take (i + 1) messages,
                         ps_RetainedMessages := drop (i + 1) messages, ps_CoveredUntilID := cs_CoveredUntilMessageID s\<rparr>
              | _ \<Rightarrow> scope)"

definition active_messages :: "prompt_scope \<Rightarrow> message list" where
  "active_messages s = (if ps_RetainedMessages s \<noteq> [] then ps_RetainedMessages s else ps_FullBranchMessages s)"

definition estimate_prompt_scope_tokens ::
  "hash \<Rightarrow> refs_decoder \<Rightarrow> message list \<Rightarrow> context_snapshot option \<Rightarrow> bool \<Rightarrow> bool \<Rightarrow> int" where
  "estimate_prompt_scope_tokens sha decode messages snapshot enabled includeReasoningContent =
     (let scope = build_prompt_scope sha messages snapshot enabled;
          active = active_messages scope
      in sum_list (map (\<lambda>m. estimate_domain_message_tokens m includeReasoningContent) active)
         + sum_list (conversation_image_token_reserve decode active)
         + (case ps_Snapshot scope of None \<Rightarrow> 0 | Some s \<Rightarrow> estimate_tokens (cs_SummaryText s)))"

definition build_rag_query :: "message list \<Rightarrow> string \<Rightarrow> int \<Rightarrow> string" where
  "build_rag_query contextMessages currentContent historyTurns =
     (let current = trim_space currentContent;
          snippets = filter (\<lambda>s. s \<noteq> []) (map (\<lambda>m. compact_snippet (ms_Content m) 240)
            (filter is_user (rev (butlast contextMessages))));
          recent = rev (take (nat historyTurns) snippets)
      in if historyTurns \<le> 0 \<or> recent = [] then current
         else trim_space (current @ [CHR 0x0A, CHR 0x0A] @ ''Recent user context:'' @ [CHR 0x0A]
           @ concat (map (\<lambda>s. ''- '' @ s @ [CHR 0x0A]) recent)))"

end
