(* ===== verification/BranchRules.thy ===== *)
theory BranchRules
  imports Branches
begin

text \<open>
  What reaches the model of a conversation's tree: loading a branch in pages is reading its lineage, the path of a
  prompt follows the links to the new message, and a default turn under a failed parent is sent alone.
\<close>

subsection \<open>Lineages\<close>

definition rows_ok :: "message list \<Rightarrow> bool" where
  \<comment> \<open>identifiers count up and a message is written after its parent\<close>
  "rows_ok rows \<longleftrightarrow> list_all (\<lambda>m. 0 < ms_ID m \<and> (case ms_ParentMessageID m of None \<Rightarrow> True | Some p \<Rightarrow> p < ms_ID m)) rows"

definition lineage :: "message list \<Rightarrow> nat \<Rightarrow> nat \<Rightarrow> message list" where
  \<comment> \<open>all of a message's ancestors and itself, from the root\<close>
  "lineage rows conversationID leaf = rev (ancestor_chain rows conversationID leaf (Suc leaf))"

definition within_context_limits :: "message list \<Rightarrow> bool" where
  "within_context_limits messages \<longleftrightarrow>
     length messages \<le> context_ancestor_max_count \<and> context_messages_payload_bytes messages \<le> context_ancestor_max_bytes"

definition linked :: "message \<Rightarrow> message \<Rightarrow> bool" where
  "linked a b \<longleftrightarrow> ms_ParentMessageID b = Some (ms_ID a)"

lemma find_message_SomeD:
  assumes "find_message rows c i = Some m"
  shows "m \<in> set rows" "ms_ID m = i" "ms_ConversationID m = c"
  using assms by (auto simp: find_message_def find_Some_iff)

lemma rows_okD:
  assumes "rows_ok rows" "find_message rows c i = Some m"
  shows "0 < i" "ms_ParentMessageID m = Some p \<Longrightarrow> p < i"
  using assms find_message_SomeD [OF assms(2)] by (auto simp: rows_ok_def list_all_iff split: option.splits)

lemma chain_rows: "set (ancestor_chain rows c leaf d) \<subseteq> set rows"
  by (induction d arbitrary: leaf) (auto split: option.splits dest: find_message_SomeD(1) [OF sym])

lemma chain_ids:
  assumes "rows_ok rows" "m \<in> set (ancestor_chain rows c leaf d)"
  shows "ms_ID m \<le> leaf"
  using assms(2)
proof (induction d arbitrary: leaf)
  case (Suc d)
  then obtain x where x: "find_message rows c leaf = Some x" by (cases "find_message rows c leaf") simp_all
  show ?case
  proof (cases "m = x")
    case False
    then obtain p where p: "ms_ParentMessageID x = Some p" "m \<in> set (ancestor_chain rows c p d)"
      using Suc.prems x by (cases "ms_ParentMessageID x") simp_all
    then show ?thesis using Suc.IH rows_okD(2) [OF assms(1) x] by force
  qed (use find_message_SomeD(2) [OF x] in simp)
qed simp

lemma chain_decreasing:
  assumes "rows_ok rows"
  shows "sorted_wrt (\<lambda>a b. ms_ID b < ms_ID a) (ancestor_chain rows c leaf d)"
proof (induction d arbitrary: leaf)
  case (Suc d)
  have "ms_ID b < ms_ID m"
    if m: "find_message rows c leaf = Some m" "ms_ParentMessageID m = Some p" and b: "b \<in> set (ancestor_chain rows c p d)" for m p b
  proof -
    have "ms_ID b \<le> p" by (rule chain_ids [OF assms b])
    then show ?thesis using rows_okD(2) [OF assms m] find_message_SomeD(2) [OF m(1)] by simp
  qed
  then show ?case using Suc by (simp split: option.splits)
qed simp

lemma chain_distinct:
  assumes "rows_ok rows"
  shows "distinct (map ms_ID (ancestor_chain rows c leaf d))"
proof -
  have "distinct (map ms_ID xs)" if "sorted_wrt (\<lambda>a b. ms_ID b < ms_ID a) xs" for xs
    using that by (induction xs) fastforce+
  then show ?thesis using chain_decreasing [OF assms] by blast
qed

lemma chain_linked: "successively (\<lambda>b a. linked a b) (ancestor_chain rows c leaf d)"
proof (induction d arbitrary: leaf)
  case (Suc d)
  have "ancestor_chain rows c p d = [] \<or> ms_ID (hd (ancestor_chain rows c p d)) = p" for p
    by (cases d) (auto split: option.splits dest: find_message_SomeD)
  then show ?case using Suc by (fastforce simp: successively_Cons linked_def split: option.splits)
qed simp

lemma chain_length: "length (ancestor_chain rows c leaf d) \<le> d"
  by (induction d arbitrary: leaf) (auto split: option.splits)

lemma chain_depth:
  assumes "rows_ok rows" "leaf < d" "leaf < e"
  shows "ancestor_chain rows c leaf d = ancestor_chain rows c leaf e"
  using assms(2,3)
proof (induction leaf arbitrary: d e rule: less_induct)
  case (less leaf)
  obtain d' e' where "d = Suc d'" "e = Suc e'" using less.prems by (meson less_imp_Suc_add)
  moreover have "ancestor_chain rows c p d' = ancestor_chain rows c p e'"
    if "find_message rows c leaf = Some m" "ms_ParentMessageID m = Some p" for m p
  proof -
    have "p < leaf" by (rule rows_okD(2) [OF assms(1) that])
    moreover have "leaf < Suc d'" "leaf < Suc e'" using less.prems \<open>d = Suc d'\<close> \<open>e = Suc e'\<close> by simp_all
    ultimately show ?thesis by (intro less.IH) simp_all
  qed
  ultimately show ?case by (simp split: option.splits)
qed

lemma chain_prefix:
  assumes "length (ancestor_chain rows c leaf d) < d"
  shows "ancestor_chain rows c leaf (d + e) = ancestor_chain rows c leaf d"
  using assms by (induction d arbitrary: leaf) (auto split: option.splits)

lemma chain_split:
  assumes "length (ancestor_chain rows c leaf d) = d" "0 < d"
  shows "ancestor_chain rows c leaf (d + e)
    = ancestor_chain rows c leaf d
      @ (case ms_ParentMessageID (last (ancestor_chain rows c leaf d)) of None \<Rightarrow> [] | Some p \<Rightarrow> ancestor_chain rows c p e)"
  using assms
proof (induction d arbitrary: leaf)
  case (Suc d)
  show ?case
  proof (cases "d = 0")
    case True
    with Suc.prems show ?thesis by (auto split: option.splits)
  next
    case False
    with Suc show ?thesis by (fastforce split: option.splits)
  qed
qed simp

lemma chain_parent_less:
  assumes "rows_ok rows" "m \<in> set (ancestor_chain rows c leaf d)" "ms_ParentMessageID m = Some p"
  shows "p < leaf"
proof -
  have "m \<in> set rows" using assms(2) chain_rows by blast
  then have "p < ms_ID m" using assms(1,3) by (force simp: rows_ok_def list_all_iff)
  also have "\<dots> \<le> leaf" by (rule chain_ids [OF assms(1,2)])
  finally show ?thesis .
qed

text \<open>One page of the lineage and the page before it.\<close>

lemma lineage_page:
  assumes "rows_ok rows"
    and page: "page = list_message_ancestors rows c leaf context_ancestor_page_size"
  shows "lineage rows c leaf
    = (if length page < context_ancestor_page_size then page
       else case ms_ParentMessageID (hd page) of None \<Rightarrow> page | Some p \<Rightarrow> lineage rows c p @ page)"
proof -
  let ?n = context_ancestor_page_size
  have n: "0 < ?n" by (simp add: context_ancestor_page_size_def)
  have page': "page = rev (ancestor_chain rows c leaf ?n)"
    by (simp add: page list_message_ancestors_def context_ancestor_page_size_def max_ancestor_query_depth_def)
  have all: "lineage rows c leaf = rev (ancestor_chain rows c leaf (?n + Suc leaf))"
    using chain_depth [OF assms(1), of leaf "Suc leaf" "?n + Suc leaf"] by (simp add: lineage_def)
  show ?thesis
  proof (cases "length page < ?n")
    case True
    then show ?thesis using all chain_prefix [of rows c leaf ?n "Suc leaf"] by (simp add: page')
  next
    case False
    then have len: "length (ancestor_chain rows c leaf ?n) = ?n"
      using chain_length [of rows c leaf ?n] by (simp add: page')
    then have ne: "ancestor_chain rows c leaf ?n \<noteq> []" using n by (metis list.size(3) less_irrefl)
    have hd: "hd page = last (ancestor_chain rows c leaf ?n)" by (simp add: page' hd_rev)
    have split: "lineage rows c leaf
        = (case ms_ParentMessageID (hd page) of None \<Rightarrow> page | Some p \<Rightarrow> rev (ancestor_chain rows c p (Suc leaf)) @ page)"
      unfolding all chain_split [OF len n] hd by (simp add: page' del: ancestor_chain.simps split: option.split)
    show ?thesis
    proof (cases "ms_ParentMessageID (hd page)")
      case None
      then show ?thesis using False split by simp
    next
      case (Some p)
      have in_chain: "hd page \<in> set (ancestor_chain rows c leaf ?n)" using ne by (simp add: hd)
      then have "p < Suc leaf" using chain_parent_less [OF assms(1) in_chain Some] by simp
      then have "ancestor_chain rows c p (Suc leaf) = ancestor_chain rows c p (Suc p)" by (intro chain_depth [OF assms(1)]) simp_all
      then show ?thesis using False Some split by (simp add: lineage_def del: ancestor_chain.simps)
    qed
  qed
qed


subsection \<open>Loading a branch\<close>

definition context_suffix :: "context_snapshot option \<Rightarrow> message list \<Rightarrow> message list" where
  \<comment> \<open>from the message a snapshot covers last, or everything\<close>
  "context_suffix snapshot messages = drop (page_start snapshot messages) messages"

lemma find_index_append:
  "find_index P (xs @ ys)
    = (case find_index P xs of Some i \<Rightarrow> Some i | None \<Rightarrow> map_option ((+) (length xs)) (find_index P ys))"
proof (induction xs)
  case Nil
  show ?case by (cases "find_index P ys") simp_all
next
  case (Cons x xs)
  then show ?case by (cases "find_index P xs"; cases "find_index P ys") simp_all
qed

lemma find_index_None: "find_index P xs = None \<longleftrightarrow> (\<forall>x \<in> set xs. \<not> P x)"
  by (induction xs) auto

lemma context_suffix_append:
  assumes "distinct (map ms_ID (xs @ ys))"
  shows "context_suffix s (xs @ ys) = (if page_boundary s ys = None then context_suffix s xs @ ys else context_suffix s ys)"
proof (cases "page_boundary s ys")
  case None
  have "page_start s (xs @ ys) = page_start s xs"
    using None by (auto simp: page_start_def page_boundary_def find_index_append split: option.splits if_splits)
  moreover have "page_start s xs \<le> length xs"
    using find_index_Some by (fastforce simp: page_start_def page_boundary_def split: option.splits if_splits)
  ultimately show ?thesis using None by (simp add: context_suffix_def)
next
  case (Some i)
  then obtain t where t: "s = Some t" "snapshot_has_coverage s" "find_index (\<lambda>m. at_boundary t m \<and> same_public_id t m) ys = Some i"
    by (auto simp: page_boundary_def split: option.splits if_splits)
  have "at_boundary t (ys ! i)" "i < length ys" using find_index_Some [OF t(3)] by blast+
  then have id: "cs_CoveredUntilMessageID t = ms_ID (ys ! i)" "ys ! i \<in> set ys" by (simp_all add: at_boundary_def)
  have "ms_ID x \<noteq> ms_ID y" if "x \<in> set xs" "y \<in> set ys" for x y
    using assms that by (simp add: disjoint_iff image_iff) metis
  then have "\<forall>x \<in> set xs. \<not> at_boundary t x" using id by (simp add: at_boundary_def)
  then have "find_index (\<lambda>m. at_boundary t m \<and> same_public_id t m) xs = None" by (simp add: find_index_None)
  then have "page_start s (xs @ ys) = length xs + i" using t by (simp add: page_start_def page_boundary_def find_index_append)
  moreover have "page_start s ys = i" using Some by (simp add: page_start_def)
  ultimately show ?thesis using Some by (simp add: context_suffix_def)
qed

lemma payload_append [simp]:
  "context_messages_payload_bytes (xs @ ys) = context_messages_payload_bytes xs + context_messages_payload_bytes ys"
  by (simp add: context_messages_payload_bytes_def)

lemma lineage_root: "rows_ok rows \<Longrightarrow> lineage rows c 0 = []"
  by (cases "find_message rows c 0") (auto simp: lineage_def dest: rows_okD(1))

lemma lineage_distinct: "rows_ok rows \<Longrightarrow> distinct (map ms_ID (lineage rows c leaf))"
  using chain_distinct [of rows c leaf "Suc leaf"] by (simp add: lineage_def rev_map [symmetric] del: ancestor_chain.simps)

lemma load_path_lineage:
  assumes "rows_ok rows" "n \<le> context_ancestor_max_count" "b \<le> context_ancestor_max_bytes"
  shows "load_path rows c s leaf path n b
    = (let seg = context_suffix s (lineage rows c leaf)
       in if n + length seg \<le> context_ancestor_max_count \<and> b + context_messages_payload_bytes seg \<le> context_ancestor_max_bytes
          then Inr (seg @ path) else Inl ErrContextAncestorSafetyLimit)"
  using assms(2,3)
proof (induction leaf arbitrary: path n b rule: less_induct)
  case (less leaf)
  let ?page = "list_message_ancestors rows c leaf context_ancestor_page_size"
  let ?seg = "context_suffix s ?page"
  let ?over = "context_ancestor_max_count < n + length ?seg \<or> context_ancestor_max_bytes < b + context_messages_payload_bytes ?seg"
  let ?stop = "page_boundary s ?page \<noteq> None \<or> length ?page < context_ancestor_page_size"
  note page = lineage_page [OF assms(1) refl, of c leaf]
  have unroll: "load_path rows c s leaf path n b
      = (if leaf = 0 then Inr path
         else if ?page = [] then Inr path
         else if ?over then Inl ErrContextAncestorSafetyLimit
         else if ?stop then Inr (?seg @ path)
         else case ms_ParentMessageID (hd ?page) of
                None \<Rightarrow> Inr (?seg @ path)
              | Some p \<Rightarrow> load_path rows c s p (?seg @ path) (n + length ?seg) (b + context_messages_payload_bytes ?seg))"
    by (subst load_path.simps) (simp only: Let_def context_suffix_def)
  have empty: "context_suffix s [] = []" by (simp add: context_suffix_def)
  consider (none) "leaf = 0 \<or> ?page = []" | (last) "0 < leaf" "?page \<noteq> []" "lineage rows c leaf = ?page"
      "?over \<or> ?stop \<or> ms_ParentMessageID (hd ?page) = None"
    | (more) p where "0 < leaf" "?page \<noteq> []" "\<not> length ?page < context_ancestor_page_size" "ms_ParentMessageID (hd ?page) = Some p"
    using page by (cases "ms_ParentMessageID (hd ?page)") (auto split: if_splits)
  then show ?case
  proof cases
    case none
    then have "lineage rows c leaf = []"
      using page lineage_root [OF assms(1), of c] by (auto simp: context_ancestor_page_size_def)
    moreover have "load_path rows c s leaf path n b = Inr path" unfolding unroll using none by (elim disjE) simp_all
    ultimately show ?thesis using less.prems by (simp add: empty context_messages_payload_bytes_def)
  next
    case last
    then show ?thesis unfolding unroll by (auto simp: Let_def split: option.split)
  next
    case more
    let ?n = "n + length ?seg" and ?b = "b + context_messages_payload_bytes ?seg"
    have L: "lineage rows c leaf = lineage rows c p @ ?page" using page more by simp
    have suffix: "context_suffix s (lineage rows c leaf)
        = (if page_boundary s ?page = None then context_suffix s (lineage rows c p) @ ?page else ?seg)"
      using lineage_distinct [OF assms(1), of c leaf] context_suffix_append by (simp add: L)
    have whole: "page_boundary s ?page = None \<Longrightarrow> ?seg = ?page" by (simp add: context_suffix_def page_start_def)
    have "?page = rev (ancestor_chain rows c leaf context_ancestor_page_size)"
      by (simp add: list_message_ancestors_def context_ancestor_page_size_def max_ancestor_query_depth_def)
    then have "hd ?page \<in> set (ancestor_chain rows c leaf context_ancestor_page_size)" using more(2) by (metis hd_in_set set_rev)
    then have "p < leaf" by (rule chain_parent_less [OF assms(1) _ more(4)])
    then have IH: "\<not> ?over \<Longrightarrow> load_path rows c s p (?seg @ path) ?n ?b
        = (let seg = context_suffix s (lineage rows c p)
           in if ?n + length seg \<le> context_ancestor_max_count \<and> ?b + context_messages_payload_bytes seg \<le> context_ancestor_max_bytes
              then Inr (seg @ ?seg @ path) else Inl ErrContextAncestorSafetyLimit)"
      using less.IH [of p ?n ?b "?seg @ path"] by simp
    show ?thesis
    proof (cases "?over \<or> page_boundary s ?page \<noteq> None")
      case True
      then show ?thesis using more whole unfolding unroll suffix by (auto simp: Let_def)
    next
      case False
      then show ?thesis using more IH whole unfolding unroll suffix by (simp add: Let_def add.commute add.left_commute)
    qed
  qed
qed

subsection \<open>The path of a prompt\<close>

definition branch_path :: "message list \<Rightarrow> bool" where
  "branch_path xs \<longleftrightarrow> rows_ok xs \<and> sorted_wrt (\<lambda>a b. ms_ID a < ms_ID b) xs \<and> successively linked xs"

lemma branch_path_append: "branch_path (xs @ ys) \<Longrightarrow> branch_path xs \<and> branch_path ys"
  by (auto simp: branch_path_def rows_ok_def sorted_wrt_append successively_append_iff)

lemma branch_path_drop: "branch_path xs \<Longrightarrow> branch_path (drop n xs)"
  using branch_path_append [of "take n xs" "drop n xs"] by simp

lemma branch_path_distinct: "branch_path xs \<Longrightarrow> distinct (map ms_ID xs)"
proof -
  have "distinct (map ms_ID xs)" if "sorted_wrt (\<lambda>a b. ms_ID a < ms_ID b) xs"
    using that by (induction xs) fastforce+
  then show "branch_path xs \<Longrightarrow> distinct (map ms_ID xs)" by (simp add: branch_path_def)
qed

lemma branch_path_lineage: "rows_ok rows \<Longrightarrow> branch_path (lineage rows c leaf)"
  using chain_decreasing [of rows c leaf "Suc leaf"] chain_linked [of rows c leaf "Suc leaf"] chain_rows [of rows c leaf "Suc leaf"]
  by (auto simp: branch_path_def lineage_def sorted_wrt_rev rows_ok_def list_all_iff simp del: ancestor_chain.simps)

lemma lineage_last:
  "find_message rows c leaf = Some m \<Longrightarrow> lineage rows c leaf \<noteq> [] \<and> last (lineage rows c leaf) = m"
  by (simp add: lineage_def)

lemma messages_by_id_Some:
  assumes "distinct (map ms_ID xs)" "m \<in> set xs"
  shows "messages_by_id xs (ms_ID m) = Some m"
proof -
  have "map_of (rev (map (\<lambda>m. (ms_ID m, m)) xs)) (ms_ID m) = Some m"
    using assms by (intro map_of_is_SomeI) (simp_all add: rev_map [symmetric] comp_def)
  then show ?thesis by (simp add: messages_by_id_def)
qed

lemma messages_by_id_None: "messages_by_id xs i = None \<longleftrightarrow> i \<notin> ms_ID ` set xs"
  by (force simp: messages_by_id_def map_of_eq_None_iff)

lemma path_loop_root:
  assumes "i = 0 \<or> i \<notin> ms_ID ` set xs"
  shows "path_loop xs path i = path"
  using assms messages_by_id_None [of xs i] by (subst path_loop.simps) auto

lemma path_loop_whole:
  assumes "branch_path xs" "xs = pre @ m # rev path"
  shows "path_loop xs path (ms_ID m) = path @ m # rev pre"
  using assms(2)
proof (induction pre arbitrary: m path rule: rev_induct)
  case (snoc a pre)
  have link: "ms_ParentMessageID m = Some (ms_ID a)"
    using assms(1) snoc.prems by (auto simp: branch_path_def successively_append_iff linked_def)
  have "path_loop xs path (ms_ID m) = path_loop xs (path @ [m]) (ms_ID a)"
    using assms(1) snoc.prems link branch_path_distinct [OF assms(1)] messages_by_id_Some [of xs m]
    by (subst path_loop.simps) (auto simp: branch_path_def rows_ok_def)
  then show ?case using snoc.IH [of a "path @ [m]"] snoc.prems by simp
next
  case Nil
  have m: "messages_by_id xs (ms_ID m) = Some m" "0 < ms_ID m" "ms_ID m \<notin> ms_ID ` set path"
    using Nil assms(1) branch_path_distinct [OF assms(1)] by (auto intro!: messages_by_id_Some simp: branch_path_def rows_ok_def)
  show ?case
  proof (cases "ms_ParentMessageID m")
    case (Some p)
    have "p \<notin> ms_ID ` set xs" using assms(1) Nil Some by (auto simp: branch_path_def rows_ok_def)
    then show ?thesis using m Some path_loop_root [of p xs "path @ [m]"] by (subst path_loop.simps) simp
  qed (use m in \<open>subst path_loop.simps, simp\<close>)
qed

lemma build_path_whole:
  assumes "branch_path (xs @ [m])"
  shows "build_message_path (xs @ [m]) (ms_ID m) = xs @ [m]"
  using assms path_loop_whole [OF assms, of xs m "[]"] by (simp add: build_message_path_def branch_path_def rows_ok_def)

lemma recover_fields:
  "map ms_ID (recover_assistant_retry_user_states xs) = map ms_ID xs
   \<and> map ms_ParentMessageID (recover_assistant_retry_user_states xs) = map ms_ParentMessageID xs"
  by (induction xs rule: recover_assistant_retry_user_states.induct) (auto simp: recovered_def)

lemma recover_last [simp]: "xs \<noteq> [] \<Longrightarrow> last (recover_assistant_retry_user_states xs) = last xs"
proof (induction xs rule: recover_assistant_retry_user_states.induct)
  case (3 a b rest)
  moreover have "recover_assistant_retry_user_states (b # rest) \<noteq> []" by (cases rest) simp_all
  ultimately show ?case by simp
qed simp_all

lemma branch_path_same_links:
  assumes "branch_path xs" "map ms_ID ys = map ms_ID xs" "map ms_ParentMessageID ys = map ms_ParentMessageID xs"
  shows "branch_path ys"
proof -
  have len: "length ys = length xs" using assms(2) map_eq_imp_length_eq by blast
  have nth: "ms_ID (ys ! i) = ms_ID (xs ! i)" "ms_ParentMessageID (ys ! i) = ms_ParentMessageID (xs ! i)" if "i < length xs" for i
    using assms(2,3) len that by (metis nth_map)+
  show ?thesis using assms(1) len nth
    by (auto simp: branch_path_def rows_ok_def list_all_length sorted_wrt_iff_nth_less successively_conv_nth linked_def split: option.splits)
qed

lemma branch_path_recover [simp]:
  "branch_path xs \<Longrightarrow> branch_path (recover_assistant_retry_user_states xs)"
  using branch_path_same_links recover_fields by blast

lemma context_suffix_last:
  assumes "xs \<noteq> []"
  shows "context_suffix s xs \<noteq> []" "last (context_suffix s xs) = last xs"
proof -
  have "page_start s xs < length xs"
    using assms find_index_Some by (fastforce simp: page_start_def page_boundary_def split: option.splits if_splits)
  then show "context_suffix s xs \<noteq> []" "last (context_suffix s xs) = last xs" by (simp_all add: context_suffix_def)
qed

lemma normalized_context:
  "fst (normalize_default_branch_context xs None)
    = rev (takeWhile is_context_message (dropWhile (Not \<circ> is_context_message) (rev (recover_assistant_retry_user_states xs))))"
  by (auto simp: normalize_default_branch_context_def Let_def)

text \<open>The branch a message is sent under, once it is loaded.\<close>

definition sent_under :: "message list \<Rightarrow> nat \<Rightarrow> message \<Rightarrow> bool" where
  "sent_under rows leaf m \<longleftrightarrow> ms_ParentMessageID m = Some leaf \<and> list_all (\<lambda>x. ms_ID x < ms_ID m) rows"

lemma loaded_branch_context:
  assumes "rows_ok rows" "bs_ParentMessageID branch = Some leaf" "0 < leaf"
  shows "load_message_branch_context rows c branch s reason
    = (let path = context_suffix s (lineage rows c leaf)
       in if \<not> within_context_limits path then Inl ErrContextAncestorSafetyLimit
          else Inr (branch\<lparr>bs_ExistingMessages :=
            if reason = ''default'' then fst (normalize_default_branch_context (recover_assistant_retry_user_states path) None)
            else recover_assistant_retry_user_states path\<rparr>))"
  using assms(2,3)
  by (simp add: load_message_branch_context_def load_path_lineage [OF assms(1)] within_context_limits_def Let_def)

lemma under_branch_path:
  assumes "branch_path xs" "xs \<noteq> []" "ms_ID (last xs) = leaf" "sent_under rows leaf m" "ms_ID ` set xs \<subseteq> ms_ID ` set rows"
  shows "branch_path (xs @ [m])"
proof -
  have less: "\<forall>x \<in> set xs. ms_ID x < ms_ID m"
  proof
    fix x assume "x \<in> set xs"
    then obtain y where "y \<in> set rows" "ms_ID x = ms_ID y" using assms(5) by blast
    then show "ms_ID x < ms_ID m" using assms(4) by (auto simp: sent_under_def list_all_iff)
  qed
  then have "leaf < ms_ID m" using assms(2,3) last_in_set by metis
  then show ?thesis using assms(1-4) less
    by (auto simp: branch_path_def rows_ok_def sorted_wrt_append successively_append_iff linked_def sent_under_def)
qed

lemma loaded_path:
  fixes s :: "context_snapshot option"
  assumes "rows_ok rows" "find_message rows c leaf = Some m"
  defines "path \<equiv> recover_assistant_retry_user_states (context_suffix s (lineage rows c leaf))"
  shows "branch_path path" "path \<noteq> []" "last path = m" "ms_ID ` set path \<subseteq> ms_ID ` set rows"
proof -
  let ?suffix = "context_suffix s (lineage rows c leaf)"
  have ne: "?suffix \<noteq> []" "last ?suffix = m"
    using context_suffix_last [of "lineage rows c leaf" s] lineage_last [OF assms(2)] by simp_all
  show "branch_path path"
    using branch_path_drop [OF branch_path_lineage [OF assms(1)]] by (simp add: path_def context_suffix_def)
  have "length path = length ?suffix" using recover_fields map_eq_imp_length_eq unfolding path_def by blast
  then show "path \<noteq> []" using ne(1) by auto
  show "last path = m" using ne by (simp add: path_def)
  have "ms_ID ` set path = ms_ID ` set ?suffix"
    using recover_fields [of ?suffix] unfolding path_def by (metis image_set)
  also have "\<dots> \<subseteq> ms_ID ` set rows"
    using chain_rows [of rows c leaf "Suc leaf"] set_drop_subset by (fastforce simp: context_suffix_def lineage_def simp del: ancestor_chain.simps)
  finally show "ms_ID ` set path \<subseteq> ms_ID ` set rows" .
qed

definition ends_path :: "message list \<Rightarrow> message list \<Rightarrow> nat \<Rightarrow> bool" where
  \<comment> \<open>no further message of the table can follow\<close>
  "ends_path messages path i \<longleftrightarrow> i = 0 \<or> i \<notin> ms_ID ` set messages \<or> i \<in> ms_ID ` set path"

definition prompt_path :: "message list \<Rightarrow> nat \<Rightarrow> message list \<Rightarrow> bool" where
  \<comment> \<open>no message twice, each under the one before it, as far up as the table goes\<close>
  "prompt_path messages leaf path \<longleftrightarrow>
     distinct (map ms_ID path) \<and> successively linked path \<and> set path \<subseteq> set messages
     \<and> (if path = [] then ends_path messages [] leaf
        else ms_ID (last path) = leaf \<and> (case ms_ParentMessageID (hd path) of None \<Rightarrow> True | Some p \<Rightarrow> ends_path messages path p))"

lemma path_loop_invariant:
  assumes "path = [] \<Longrightarrow> i = leaf" "path \<noteq> [] \<Longrightarrow> ms_ID (hd path) = leaf \<and> ms_ParentMessageID (last path) = Some i"
    and "distinct (map ms_ID path)" "successively (\<lambda>b a. linked a b) path" "set path \<subseteq> set messages"
  shows "prompt_path messages leaf (rev (path_loop messages path i))"
  using assms
proof (induction messages path i rule: path_loop.induct)
  case (1 messages path i)
  show ?case
  proof (cases "ends_path messages path i")
    case True
    then have "i = 0 \<or> messages_by_id messages i = None \<or> i \<in> ms_ID ` set path"
      by (auto simp: ends_path_def messages_by_id_None)
    then have "path_loop messages path i = path" by (subst path_loop.simps) (auto split: option.split)
    then show ?thesis
      using "1.prems" True by (auto simp: prompt_path_def ends_path_def rev_map [symmetric] successively_rev last_rev hd_rev)
  next
    case False
    then obtain m where m: "messages_by_id messages i = Some m" "i \<noteq> 0" "i \<notin> ms_ID ` set path"
      using messages_by_id_None [of messages i] by (auto simp: ends_path_def)
    then have item: "ms_ID m = i" "m \<in> set messages" by (auto simp: messages_by_id_def dest!: map_of_SomeD)
    have longer: "distinct (map ms_ID (path @ [m]))" "successively (\<lambda>b a. linked a b) (path @ [m])"
        "ms_ID (hd (path @ [m])) = leaf" "set (path @ [m]) \<subseteq> set messages"
      using "1.prems" m item by (auto simp: successively_append_iff linked_def hd_append)
    show ?thesis
    proof (cases "ms_ParentMessageID m")
      case None
      then have "path_loop messages path i = path @ [m]" using m by (subst path_loop.simps) simp
      then show ?thesis
        using longer None successively_rev [of linked "path @ [m]"]
        by (cases "path = []") (simp_all add: prompt_path_def rev_map [symmetric] last_rev)
    next
      case (Some p)
      then have "path_loop messages path i = path_loop messages (path @ [m]) p" using m by (subst path_loop.simps) simp
      then show ?thesis using "1.IH" [OF m(2) m(1) _ Some] m(3) longer Some by simp
    qed
  qed
qed

subsection \<open>Claims\<close>

text \<open>
  C5: the branch a message continues is loaded page by page, and what is loaded is the branch: every message
  from the root of the tree, or from the last message the summary covers when it lies on the branch, down to the parent, in order and once
  each, wherever the pages of 256 fall; the load fails exactly when these are more than the limits allow.
\<close>

theorem paged_loading_reads_the_lineage:
  assumes "rows_ok rows" "bs_ParentMessageID branch = Some leaf" "0 < leaf"
  shows "load_message_branch_context rows conversationID branch snapshot reason
    = (let path = context_suffix snapshot (lineage rows conversationID leaf)
       in if \<not> within_context_limits path then Inl ErrContextAncestorSafetyLimit
          else Inr (branch\<lparr>bs_ExistingMessages :=
            if reason = ''default'' then fst (normalize_default_branch_context (recover_assistant_retry_user_states path) None)
            else recover_assistant_retry_user_states path\<rparr>))"
  by (rule loaded_branch_context [OF assms])

text \<open>
  C36: whatever rows it is given, cyclic ones included, the path of a message ends and is a path: it has no
  message twice, every message is the reply to the one before it, the last is the message asked for and above the first there is none left.
\<close>

theorem prompt_path_is_linked: "prompt_path messages leaf (build_message_path messages leaf)"
  using path_loop_invariant [of "[]" leaf leaf messages]
  by (auto simp: build_message_path_def prompt_path_def ends_path_def)

text \<open>
  C37: a turn that retries or edits a message carries its whole branch: after loading, the path of the prompt is the lineage of the
  parent from the root, or from the last message the summary covers, and then the new message; a retried answer reuses its question, the last of
  the lineage.
\<close>

theorem turn_carries_its_lineage:
  assumes "rows_ok rows" "find_message rows conversationID leaf = Some parent" "bs_ParentMessageID branch = Some leaf"
    and "reason \<noteq> ''default''" "sent_under rows leaf user" "bs_ReuseUserMessage branch \<in> set [None, Some parent]"
    and "load_message_branch_context rows conversationID branch snapshot reason = Inr loaded"
  shows "build_branch_message_path loaded user
    = recover_assistant_retry_user_states (context_suffix snapshot (lineage rows conversationID leaf))
      @ (if bs_ReuseUserMessage branch = None then [user] else [])"
proof -
  let ?path = "recover_assistant_retry_user_states (context_suffix snapshot (lineage rows conversationID leaf))"
  note path = loaded_path [OF assms(1,2), of snapshot]
  have id: "ms_ID parent = leaf" "0 < leaf" using find_message_SomeD(2) [OF assms(2)] rows_okD(1) [OF assms(1,2)] by simp_all
  have loaded: "loaded = branch\<lparr>bs_ExistingMessages := ?path\<rparr>"
    using assms(4,7) by (simp add: loaded_branch_context [OF assms(1,3) id(2)] Let_def split: if_splits)
  show ?thesis
  proof (cases "bs_ReuseUserMessage branch")
    case None
    have "branch_path (?path @ [user])" using under_branch_path [OF path(1,2) _ assms(5) path(4)] path(3) id by simp
    then show ?thesis using None build_path_whole by (simp add: loaded build_branch_message_path_def)
  next
    case (Some r)
    have "build_message_path (butlast ?path @ [parent]) (ms_ID parent) = butlast ?path @ [parent]"
      using path(1,2,3) append_butlast_last_id [OF path(2)] build_path_whole [of "butlast ?path" parent] by simp
    then show ?thesis
      using Some assms(6) path(2,3) append_butlast_last_id [OF path(2)] by (simp add: loaded build_branch_message_path_def)
  qed
qed

text \<open>
  a message sent in the ordinary way below an answer that failed reaches the model alone. Loading the branch leaves the
  failed end of it out but the new message still names the failed answer as its parent, so the search for its path stops at
  once and every earlier message of the conversation is missing from the prompt.
\<close>

theorem failed_parent_drops_the_history:
  assumes "rows_ok rows" "find_message rows conversationID leaf = Some parent" "bs_ParentMessageID branch = Some leaf"
    and "\<not> is_context_message parent" "sent_under rows leaf user" "bs_ReuseUserMessage branch = None"
    and "load_message_branch_context rows conversationID branch snapshot ''default'' = Inr loaded"
  shows "build_branch_message_path loaded user = [user]"
proof -
  let ?path = "recover_assistant_retry_user_states (context_suffix snapshot (lineage rows conversationID leaf))"
  let ?again = "recover_assistant_retry_user_states ?path"
  let ?kept = "fst (normalize_default_branch_context ?path None)"
  note path = loaded_path [OF assms(1,2), of snapshot]
  have id: "ms_ID parent = leaf" "0 < leaf" using find_message_SomeD(2) [OF assms(2)] rows_okD(1) [OF assms(1,2)] by simp_all
  have loaded: "loaded = branch\<lparr>bs_ExistingMessages := ?kept\<rparr>"
    using assms(7) by (simp add: loaded_branch_context [OF assms(1,3) id(2)] Let_def split: if_splits)
  have again: "?again = butlast ?again @ [parent]"
    using path(2,3) recover_last [OF path(2)] recover_fields [of ?path] append_butlast_last_id [of ?again] by (metis map_is_Nil_conv)
  have rev: "rev ?again = parent # rev (butlast ?again)" by (subst again) simp
  have "set ?kept \<subseteq> set (butlast ?again)"
    unfolding normalized_context rev using assms(4) by (auto dest!: set_takeWhileD set_dropWhileD)
  moreover have "distinct (map ms_ID (butlast ?again @ [parent]))"
    using branch_path_distinct [OF branch_path_recover [OF path(1)]] again by simp
  ultimately have "leaf \<notin> ms_ID ` set ?kept" using id by auto
  moreover have "leaf < ms_ID user"
    using assms(5) find_message_SomeD(1) [OF assms(2)] id by (auto simp: sent_under_def list_all_iff)
  ultimately have "path_loop (?kept @ [user]) [user] leaf = [user]" by (intro path_loop_root) auto
  moreover have "messages_by_id (?kept @ [user]) (ms_ID user) = Some user" by (simp add: messages_by_id_def)
  ultimately have "path_loop (?kept @ [user]) [] (ms_ID user) = [user]"
    using assms(5) \<open>leaf < ms_ID user\<close> by (subst path_loop.simps) (simp add: sent_under_def)
  then show ?thesis
    using assms(6) \<open>leaf < ms_ID user\<close> by (simp add: loaded build_branch_message_path_def build_message_path_def)
qed

end
