(* ===== verification/CompactionRules.thy ===== *)
theory CompactionRules
  imports Compaction BranchRules
begin

text \<open>
  Rolling summaries stay true to the branch: what a snapshot says it covers is a prefix of the branch, each compaction
  covers more, cuts before a question and keeps the recent turns, and the next prompt is the summary and exactly the
  messages the summary does not cover.
\<close>

subsection \<open>Splitting at a turn\<close>

lemma preserved_from_none: "preserved_from ms keep u = (t, None) \<Longrightarrow> u \<le> keep \<Longrightarrow> keep < t \<Longrightarrow> u = keep"
  by (induction ms keep u rule: preserved_from.induct) (auto split: if_splits prod.splits option.splits)

lemma preserved_from_some:
  "preserved_from ms keep u = (t, Some i) \<Longrightarrow> u \<le> keep \<Longrightarrow>
    i < length ms \<and> is_user (ms ! (length ms - i - 1))
    \<and> (keep < t \<longrightarrow> count_user_turns (take (length ms - i) ms) = keep - u)"
proof (induction ms keep u arbitrary: t i rule: preserved_from.induct)
  case (2 m rest keep u)
  show ?case
  proof (cases "is_user m")
    case False
    then have "i < length rest \<and> is_user (rest ! (length rest - i - 1))
        \<and> (keep < t \<longrightarrow> count_user_turns (take (length rest - i) rest) = keep - u)"
      using 2 by simp
    then show ?thesis using False by (auto simp: count_user_turns_def Suc_diff_le nth_Cons')
  next
    case True
    then have le: "u + 1 \<le> keep" using "2.prems" by (simp split: if_splits)
    show ?thesis
    proof (cases "preserved_from rest keep (u + 1)")
      case (Pair t' r)
      show ?thesis
      proof (cases r)
        case None
        then have "t = t'" "i = length rest" using "2.prems" True le Pair by simp_all
        then show ?thesis using True preserved_from_none [of rest keep "u + 1" t] Pair None le by (auto simp: count_user_turns_def)
      next
        case (Some k)
        then have "t = t'" "i = k" using "2.prems" True le Pair by simp_all
        then have "i < length rest \<and> is_user (rest ! (length rest - i - 1))
            \<and> (keep < t \<longrightarrow> count_user_turns (take (length rest - i) rest) = keep - (u + 1))"
          using "2.IH"(2) True le Pair Some by simp
        then show ?thesis using True by (auto simp: count_user_turns_def Suc_diff_le nth_Cons')
      qed
    qed
  qed
qed simp

lemma split_at_turn:
  assumes "split_messages_by_preserved_turns messages keep = (covered, retained)" "0 < keep" "covered \<noteq> []"
  obtains c where "0 < c" "c < length messages" "covered = take c messages" "retained = drop c messages" "is_user (messages ! c)"
    "count_user_turns retained = keep"
proof -
  obtain t i where r: "preserved_from (rev messages) keep 0 = (t, Some i)" "keep < t" "0 < i"
      "covered = take i messages" "retained = drop i messages"
    using assms by (auto simp: split_messages_by_preserved_turns_def Let_def split: prod.splits option.splits if_splits)
  note split = preserved_from_some [OF r(1)]
  have i: "i < length messages" "is_user (messages ! i)"
    using split assms(2) by (auto simp: rev_nth Suc_diff_Suc)
  moreover have "count_user_turns (drop i messages) = keep"
    using split i(1) r(2) assms(2) by (simp add: count_user_turns_def take_rev rev_filter [symmetric])
  ultimately show ?thesis using r that by simp
qed

subsection \<open>What a snapshot covers\<close>

definition describes :: "hash \<Rightarrow> message list \<Rightarrow> nat \<Rightarrow> context_snapshot \<Rightarrow> bool" where
  \<comment> \<open>the snapshot covers exactly the first messages of the branch\<close>
  "describes sha branch k s \<longleftrightarrow>
     0 < k \<and> k \<le> length branch
     \<and> cs_FromTurn s = 1 \<and> cs_ToTurn s = count_user_turns (take k branch) \<and> 1 \<le> cs_ToTurn s
     \<and> cs_CoveredUntilMessageID s = ms_ID (branch ! (k - 1)) \<and> cs_CoveredUntilPublicID s = ms_PublicID (branch ! (k - 1))
     \<and> cs_CoveragePathHash s = coverage_path_hash sha (take k branch)
     \<and> cs_CoveredMessageCount s = int k \<and> cs_SourceTokens s = estimate_message_token_total (take k branch)
     \<and> trim_space (cs_SummaryText s) \<noteq> []"

definition hash_ok :: "hash \<Rightarrow> bool" where
  \<comment> \<open>a digest in hexadecimal is not empty and has no space at its ends\<close>
  "hash_ok sha \<longleftrightarrow> (\<forall>x. sha x \<noteq> [] \<and> trim_space (sha x) = sha x)"

definition branch_ok :: "message list \<Rightarrow> bool" where
  "branch_ok branch \<longleftrightarrow>
     distinct (map ms_ID branch) \<and> list_all (\<lambda>m. 0 < ms_ID m \<and> trim_space (ms_PublicID m) \<noteq> []) branch \<and> length branch < 2 ^ 62"

lemma hash_trimmed:
  assumes "hash_ok sha" "messages \<noteq> []"
  shows "coverage_path_hash sha messages \<noteq> []"
    "trim_space (coverage_path_hash sha messages) = coverage_path_hash sha messages"
proof -
  obtain xs x where "messages = xs @ [x]" using assms(2) by (metis append_butlast_last_id)
  then show "coverage_path_hash sha messages \<noteq> []" "trim_space (coverage_path_hash sha messages) = coverage_path_hash sha messages"
    using assms(1) by (simp_all add: coverage_path_hash_def extend_coverage_path_hash_def hash_ok_def hash_step_def)
qed

lemma hash_extends:
  assumes "hash_ok sha" "xs \<noteq> []"
  shows "extend_coverage_path_hash sha (coverage_path_hash sha xs) ys = coverage_path_hash sha (xs @ ys)"
  using hash_trimmed(2) [OF assms] by (simp add: extend_coverage_path_hash_def coverage_path_hash_def)

lemma total_append:
  "estimate_message_token_total (xs @ ys) = wrap64 (estimate_message_token_total xs + estimate_message_token_total ys)"
proof -
  let ?f = "\<lambda>total m. wrap64 (total + (if 0 < ms_TokenUsage m then ms_TokenUsage m else estimate_tokens (ms_Content m) + 5))"
  have in_range: "in_i64 a \<Longrightarrow> in_i64 (foldl ?f a xs)" for a xs by (induction xs arbitrary: a) simp_all
  have shift: "wrap64 (foldl ?f (wrap64 (a + b)) ys) = wrap64 (a + foldl ?f (wrap64 b) ys)" for a b
  proof (induction ys arbitrary: b)
    case Nil
    show ?case using wrap64_add [of "a + b" 0] wrap64_add [of b a] by (simp add: add.commute)
  next
    case (Cons y ys)
    let ?c = "if 0 < ms_TokenUsage y then ms_TokenUsage y else estimate_tokens (ms_Content y) + 5"
    have "wrap64 (wrap64 (a + b) + ?c) = wrap64 (a + (b + ?c))" by (simp add: wrap64_add add.assoc)
    then show ?case using Cons.IH [of "b + ?c"] by (simp add: wrap64_add)
  qed
  have zero: "in_i64 (0 :: int)" "wrap64 0 = 0" by (simp_all add: in_i64_def wrap64_id)
  have "foldl ?f 0 (xs @ ys) = foldl ?f (foldl ?f 0 xs) ys" by simp
  also have "\<dots> = wrap64 (foldl ?f (wrap64 (foldl ?f 0 xs + 0)) ys)"
    using in_range [OF zero(1), of xs] in_range [OF in_range [OF zero(1), of xs], of ys] by (simp add: wrap64_id)
  also have "\<dots> = wrap64 (foldl ?f 0 xs + foldl ?f 0 ys)" using shift [of "foldl ?f 0 xs" 0] by (simp add: zero)
  finally show ?thesis by (simp add: estimate_message_token_total_def)
qed

lemma turns_append: "count_user_turns (xs @ ys) = count_user_turns xs + count_user_turns ys"
  by (simp add: count_user_turns_def)

lemma turns_bound: "0 \<le> count_user_turns xs \<and> count_user_turns xs \<le> int (length xs)"
  by (simp add: count_user_turns_def)

text \<open>The stored summary is found in every part of the branch that has its last message.\<close>

lemma describes_has_coverage:
  assumes "describes sha branch k s" "hash_ok sha" "branch_ok branch"
  shows "snapshot_has_coverage (Some s)"
proof -
  have k: "0 < k" "k \<le> length branch" using assms(1) by (simp_all add: describes_def)
  then have "0 < ms_ID (branch ! (k - 1)) \<and> trim_space (ms_PublicID (branch ! (k - 1))) \<noteq> []"
    using assms(3) by (simp add: branch_ok_def list_all_length)
  moreover have "take k branch \<noteq> []" using k by auto
  ultimately show ?thesis
    using assms(1,2) hash_trimmed [OF assms(2), of "take k branch"] by (simp add: describes_def snapshot_has_coverage_def)
qed

lemma find_index_unique:
  "i < length xs \<Longrightarrow> P (xs ! i) \<Longrightarrow> \<forall>j < length xs. P (xs ! j) \<longrightarrow> j = i \<Longrightarrow> find_index P xs = Some i"
  by (metis find_index_None find_index_Some not_None_eq nth_mem)

lemma described_boundary:
  assumes "describes sha branch k s" "hash_ok sha" "branch_ok branch" "j < k"
  shows "boundary_index sha (drop j branch) (Some s) = Some (k - 1 - j)"
proof -
  have k: "0 < k" "k \<le> length branch" using assms(1) by (simp_all add: describes_def)
  have at: "branch ! (j + (k - 1 - j)) = branch ! (k - 1)" using assms(4) by simp
  have "find_index (at_boundary s) (drop j branch) = Some (k - 1 - j)"
  proof (rule find_index_unique)
    show "k - 1 - j < length (drop j branch)" using k assms(4) by simp
    show "at_boundary s (drop j branch ! (k - 1 - j))" using k assms(1,4) at by (simp add: at_boundary_def describes_def)
    show "\<forall>l < length (drop j branch). at_boundary s (drop j branch ! l) \<longrightarrow> l = k - 1 - j"
    proof (intro allI impI)
      fix l assume l: "l < length (drop j branch)" "at_boundary s (drop j branch ! l)"
      then have "map ms_ID branch ! (j + l) = map ms_ID branch ! (k - 1)"
        using k assms(1) by (simp add: at_boundary_def describes_def)
      then have "j + l = k - 1" using assms(3) l(1) k by (subst (asm) nth_eq_iff_index_eq) (simp_all add: branch_ok_def)
      then show "l = k - 1 - j" by simp
    qed
  qed
  moreover have "same_public_id s (drop j branch ! (k - 1 - j))" using k assms(1,4) at by (simp add: same_public_id_def describes_def)
  ultimately show ?thesis by (simp add: boundary_index_iff [OF describes_has_coverage [OF assms(1-3)]])
qed

subsection \<open>One compaction\<close>

lemma join_has_first: "set x \<subseteq> set (join sep (x # xs))"
  by (cases xs) auto

lemma template_not_blank: "trim_space (build_template_compact_summary messages previous strategy a b c cfg) \<noteq> []"
proof (rule trim_space_not_blank [of "CHR ''C''"])
  show "CHR ''C'' \<in> set (build_template_compact_summary messages previous strategy a b c cfg)"
    unfolding build_template_compact_summary_def Let_def append_Cons
    by (rule set_mp [OF join_has_first]) simp
qed simp

lemma llm_summary_usable: "llm_summary cfg ask messages previous a b model = Some text \<Longrightarrow> trim_space text \<noteq> []"
  unfolding llm_summary_def Let_def by (auto simp: usable_summary_def split: if_splits option.splits)

lemma summary_not_blank:
  assumes "messages \<noteq> []"
  shows "trim_space (fst (build_compaction_summary cfg nanos messages previous strategy a b c model st)) \<noteq> []"
  unfolding build_compaction_summary_def Let_def
  using assms template_not_blank llm_summary_usable by (auto split: option.splits prod.splits)

lemma summary_keeps_snapshots:
  "st_Snapshots (snd (build_compaction_summary cfg nanos messages previous strategy a b c model st)) = st_Snapshots st
   \<and> st_NextID (snd (build_compaction_summary cfg nanos messages previous strategy a b c model st)) = st_NextID st"
  unfolding build_compaction_summary_def Let_def llm_circuit_closed_def by (simp split: option.split)

definition snapshots_ok :: "compact_state \<Rightarrow> bool" where
  "snapshots_ok st \<longleftrightarrow> list_all (\<lambda>s. cs_ID s < st_NextID st) (st_Snapshots st)"

lemma insort_before_last: "f x < f y \<Longrightarrow> insort_key f x (zs @ [y]) = insort_key f x zs @ [y]"
  for f :: "'a \<Rightarrow> nat" by (induction zs) auto

lemma sort_key_snoc_max: "\<forall>x \<in> set xs. f x < f y \<Longrightarrow> sort_key f (xs @ [y]) = sort_key f xs @ [y]"
  for f :: "'a \<Rightarrow> nat" by (induction xs) (simp_all add: insort_before_last)

lemma created_is_latest:
  assumes "snapshots_ok st" "create_context_snapshot s st = (row, st')"
  shows "get_latest_context_snapshot st' (cs_ConversationID s) = Some row \<and> snapshots_ok st' \<and> row = s\<lparr>cs_ID := st_NextID st\<rparr>"
proof -
  have row: "row = s\<lparr>cs_ID := st_NextID st\<rparr>" "st_Snapshots st' = st_Snapshots st @ [row]" "st_NextID st' = Suc (st_NextID st)"
    using assms(2) by (auto simp: create_context_snapshot_def Let_def)
  have "sort_key cs_ID (filter (\<lambda>x. cs_ConversationID x = cs_ConversationID s) (st_Snapshots st'))
      = sort_key cs_ID (filter (\<lambda>x. cs_ConversationID x = cs_ConversationID s) (st_Snapshots st)) @ [row]"
    using assms(1) row by (simp add: sort_key_snoc_max snapshots_ok_def list_all_iff)
  moreover have "(case xs @ [row] of [] \<Rightarrow> None | x # ss \<Rightarrow> Some (last (x # ss))) = Some row" for xs by (cases xs) auto
  ultimately have "get_latest_context_snapshot st' (cs_ConversationID s) = Some row" by (simp add: get_latest_context_snapshot_def)
  then show ?thesis using assms(1) row by (auto simp: snapshots_ok_def list_all_iff)
qed

definition covered_so_far :: "hash \<Rightarrow> message list \<Rightarrow> nat \<Rightarrow> context_snapshot option \<Rightarrow> nat \<Rightarrow> bool" where
  \<comment> \<open>how much of the branch the stored summary covers, of which all but the first messages are at hand\<close>
  "covered_so_far sha branch j existing k \<longleftrightarrow>
     (case existing of
        None \<Rightarrow> k = 0 \<and> j = 0
      | Some s \<Rightarrow> j < k \<and> describes sha branch k s \<or> k = 0 \<and> j = 0 \<and> boundary_index sha branch existing = None)"

lemma decision_parts:
  assumes "resolve_compaction_decision sha decode cfg input = Some d"
  obtains c where "cd_messages d = ci_Messages input" "0 < c" "c < length (ci_Messages input)"
    "cd_coveredMessages d = take c (ci_Messages input)" "is_user (ci_Messages input ! c)"
    "0 < count_user_turns (drop c (ci_Messages input))"
    "count_user_turns (drop c (ci_Messages input)) \<le> (if cf_ContextCompactPreserve cfg \<le> 0 then 8 else cf_ContextCompactPreserve cfg)"
proof -
  let ?turns = "count_user_turns (fst (messages_after_snapshot sha (ci_Messages input) (ci_ExistingSnapshot input)))"
  let ?keep = "preserved_turns cfg ?turns"
  obtain covered retained where split: "split_messages_by_preserved_turns (ci_Messages input) ?keep = (covered, retained)"
      "0 < ?keep" "covered \<noteq> []" "cd_messages d = ci_Messages input" "cd_coveredMessages d = covered"
    using assms unfolding resolve_compaction_decision_def Let_def by (auto split: if_splits option.splits prod.splits)
  have "?keep \<le> (if cf_ContextCompactPreserve cfg \<le> 0 then 8 else cf_ContextCompactPreserve cfg)"
    by (simp add: preserved_turns_def Let_def)
  then show ?thesis using split_at_turn [OF split(1-3)] split that by metis
qed

lemma coverage_describes:
  assumes "hash_ok sha" "branch_ok branch" "covered_so_far sha branch j existing k0"
    and "0 < c" "j + c \<le> length branch"
    and "coverage_of sha (drop j branch) (take c (drop j branch)) existing = Some cv"
  shows "k0 < j + c" "cv_source cv \<noteq> []" "cv_toTurn cv = count_user_turns (take (j + c) branch)"
    "cv_count cv = int (j + c)" "cv_tokens cv = estimate_message_token_total (take (j + c) branch)"
    "cv_hash cv = coverage_path_hash sha (take (j + c) branch)"
proof -
  let ?k = "j + c"
  have "k0 < ?k \<and> cv_source cv \<noteq> [] \<and> cv_toTurn cv = count_user_turns (take ?k branch)
    \<and> cv_count cv = int ?k \<and> cv_tokens cv = estimate_message_token_total (take ?k branch)
    \<and> cv_hash cv = coverage_path_hash sha (take ?k branch)"
  proof (cases "existing = None \<or> j = 0 \<and> boundary_index sha branch existing = None")
    case True
    then have "cv = full_coverage sha (take c (drop j branch))" "j = 0" "k0 = 0 \<or> (\<exists>s. j < k0 \<and> describes sha branch k0 s \<and> existing = Some s)"
      using assms(3,6) by (auto simp: coverage_of_def covered_so_far_def split: option.splits)
    moreover have "\<not> (\<exists>s. j < k0 \<and> describes sha branch k0 s \<and> existing = Some s)"
      using True described_boundary [OF _ assms(1,2), of k0 _ 0] by auto
    ultimately show ?thesis using assms(4,5) by (auto simp: full_coverage_def)
  next
    case False
    then obtain s where s: "existing = Some s" "j < k0" "describes sha branch k0 s"
      using assms(3) by (auto simp: covered_so_far_def split: option.splits)
    then have at: "boundary_index sha (drop j branch) existing = Some (k0 - 1 - j)"
      using described_boundary [OF s(3) assms(1,2) s(2)] by simp
    have c: "length (take c (drop j branch)) = c" using assms(5) by simp
    let ?new = "drop (k0 - j) (take c (drop j branch))"
    have cv: "cv = rolling_coverage sha s (take c (drop j branch)) ?new" "k0 < ?k"
      using assms(4,6) s(1,2) at c by (auto simp: coverage_of_def Suc_diff_Suc split: if_splits)
    have new: "take ?k branch = take k0 branch @ ?new"
    proof -
      have "?new = drop k0 (take ?k branch)" using s(2) by (simp add: drop_take add.commute)
      then show ?thesis using cv(2) by (metis append_take_drop_id less_imp_le_nat min.absorb1 take_take)
    qed
    have len: "length ?new = ?k - k0" using assms(5) s(2) by simp
    have small: "int (length branch) < 2 ^ 62" using assms(2) by (simp add: branch_ok_def)
    have turns: "wrap64 (count_user_turns (take ?k branch)) = count_user_turns (take ?k branch)"
      using turns_bound [of "take ?k branch"] small assms(5) by (intro wrap64_nonneg_small) auto
    have count: "wrap64 (int ?k) = int ?k" using small assms(5) by (intro wrap64_nonneg_small) auto
    have s': "cs_ToTurn s = count_user_turns (take k0 branch)" "0 < cs_ToTurn s" "cs_CoveredMessageCount s = int k0"
        "cs_SourceTokens s = estimate_message_token_total (take k0 branch)" "cs_CoveragePathHash s = coverage_path_hash sha (take k0 branch)"
        "take k0 branch \<noteq> []"
      using s(3) by (auto simp: describes_def)
    show ?thesis
      using cv(2) len s' turns count
      by (auto simp: cv(1) rolling_coverage_def new turns_append total_append hash_extends [OF assms(1) s'(6)] add.commute [of "int c" "int j"])
  qed
  then show "k0 < ?k" "cv_source cv \<noteq> []" "cv_toTurn cv = count_user_turns (take ?k branch)" "cv_count cv = int ?k"
    "cv_tokens cv = estimate_message_token_total (take ?k branch)" "cv_hash cv = coverage_path_hash sha (take ?k branch)" by blast+
qed

lemma compaction_keeps_truth:
  assumes "hash_ok sha" "branch_ok branch" "snapshots_ok st" "ci_Messages input = drop j branch"
    and "covered_so_far sha branch j (get_latest_context_snapshot st (ci_ConversationID input)) k0"
    and "maybe_compact_conversation sha decode cfg nanos input st = (Some new, st')"
  obtains k where "describes sha branch k new" "k0 < k" "k < length branch" "is_user (branch ! k)" "0 < count_user_turns (drop k branch)"
    "count_user_turns (drop k branch) \<le> (if cf_ContextCompactPreserve cfg \<le> 0 then 8 else cf_ContextCompactPreserve cfg)"
    "get_latest_context_snapshot st' (ci_ConversationID input) = Some new" "snapshots_ok st'"
proof -
  let ?existing = "get_latest_context_snapshot st (ci_ConversationID input)"
  obtain d cv summary st1 st2 where parts:
      "resolve_compaction_decision sha decode cfg (input\<lparr>ci_ExistingSnapshot := ?existing\<rparr>) = Some d"
      "coverage_of sha (cd_messages d) (cd_coveredMessages d) ?existing = Some cv" "1 \<le> cv_toTurn cv"
      "build_compaction_summary cfg nanos (cv_source cv) (cv_previous cv) (cd_strategy d) 1 (cv_toTurn cv) (cd_preserveTurns d)
         (ci_PlatformModelName input) st = (summary, st1)"
      "create_context_snapshot (snapshot_of input d cv summary) st1 = (new, st2)"
      "st' = update_conversation_compacted_at (ci_ConversationID input) nanos st2"
    using assms(6) unfolding maybe_compact_conversation_def Let_def by (auto split: if_splits option.splits prod.splits)
  obtain c where c: "cd_messages d = drop j branch" "0 < c" "c < length (drop j branch)" "cd_coveredMessages d = take c (drop j branch)"
      "is_user (drop j branch ! c)" "0 < count_user_turns (drop c (drop j branch))"
      "count_user_turns (drop c (drop j branch)) \<le> (if cf_ContextCompactPreserve cfg \<le> 0 then 8 else cf_ContextCompactPreserve cfg)"
    using decision_parts [OF parts(1)] assms(4) by (metis compact_input.select_convs(4) compact_input.surjective compact_input.update_convs(5))
  have k: "j + c < length branch" using c(3) by simp
  note cv = coverage_describes [OF assms(1,2,5) c(2) less_imp_le [OF k] parts(2) [unfolded c(1,4)]]
  have last: "last (take c (drop j branch)) = branch ! (j + c - 1)"
  proof -
    have "take c (drop j branch) \<noteq> []" using c(2,3) by auto
    then show ?thesis using c(2,3) by (simp add: last_conv_nth)
  qed
  have "trim_space summary \<noteq> []"
    using summary_not_blank [OF cv(2), of cfg nanos "cv_previous cv" "cd_strategy d" 1 "cv_toTurn cv" "cd_preserveTurns d"
        "ci_PlatformModelName input" st] parts(4) by simp
  have st1: "snapshots_ok st1"
    using summary_keeps_snapshots [of cfg nanos "cv_source cv" "cv_previous cv" "cd_strategy d" 1 "cv_toTurn cv" "cd_preserveTurns d"
        "ci_PlatformModelName input" st] parts(4) assms(3) by (simp add: snapshots_ok_def)
  note created = created_is_latest [OF st1 parts(5)]
  have fields: "cs_ConversationID (snapshot_of input d cv summary) = ci_ConversationID input"
      "new = (snapshot_of input d cv summary)\<lparr>cs_ID := st_NextID st1\<rparr>"
    using created by (simp_all add: snapshot_of_def Let_def)
  have "describes sha branch (j + c) new"
    using k c(2) cv parts(3) last \<open>trim_space summary \<noteq> []\<close>
    by (simp add: describes_def fields(2) snapshot_of_def Let_def c(4))
  moreover have "get_latest_context_snapshot st' (ci_ConversationID input) = Some new" "snapshots_ok st'"
    using created fields(1) by (simp_all add: parts(6) update_conversation_compacted_at_def get_latest_context_snapshot_def snapshots_ok_def)
  ultimately show ?thesis using that [of "j + c"] cv(1) k c(5-7) by (simp add: add.commute)
qed

subsection \<open>The prompt of the next turn\<close>





















subsection \<open>Claims\<close>

text \<open>
  C3: summaries stay true. When the stored summary of a conversation covers the first messages of the branch, or is
  none of this branch, the summary a compaction stores covers more of it and says so exactly: the identifiers of the last
  message it covers, the hash of the whole prefix, its number of messages, turns and tokens, as if it had been made of the whole
  branch at once; it stops before a question, keeps at least one and at most the configured number of recent turns out, has a
  text even if the language model fails, and is the one read by the next turn.
\<close>

theorem rolling_compaction_stays_truthful:
  assumes "hash_ok sha" "branch_ok branch" "snapshots_ok st" "ci_Messages input = drop j branch"
    and "covered_so_far sha branch j (get_latest_context_snapshot st (ci_ConversationID input)) k0"
    and "maybe_compact_conversation sha decode cfg nanos input st = (Some new, st')"
  shows "\<exists>k. describes sha branch k new \<and> k0 < k \<and> k < length branch \<and> is_user (branch ! k)
    \<and> 0 < count_user_turns (drop k branch)
    \<and> count_user_turns (drop k branch) \<le> (if cf_ContextCompactPreserve cfg \<le> 0 then 8 else cf_ContextCompactPreserve cfg)
    \<and> get_latest_context_snapshot st' (ci_ConversationID input) = Some new"
  using compaction_keeps_truth [OF assms] by metis


end
