(* ===== verification/BranchSamples.thy ===== *)
theory BranchSamples
  imports BranchRules
begin

text \<open>A conversation of two turns, the second answer failed, on which the rules of \<open>BranchRules\<close> apply.\<close>

definition sample_message :: "nat \<Rightarrow> nat option \<Rightarrow> string \<Rightarrow> string \<Rightarrow> message" where
  "sample_message i parent role status =
     zero_message\<lparr>ms_ID := i, ms_ConversationID := 9, ms_UserID := 4, ms_PublicID := ''m'' @ itoa (int i), ms_ParentMessageID := parent,
       ms_Role := role, ms_Content := ''text'', ms_Status := status\<rparr>"

definition turns :: "message list" where
  "turns =
     [sample_message 1 None ''user'' ''success'', sample_message 2 (Some 1) ''assistant'' ''success'',
      sample_message 5 (Some 2) ''user'' ''success'', sample_message 6 (Some 5) ''assistant'' ''error'']"

definition next_message :: "nat \<Rightarrow> message" where
  "next_message parent = sample_message 9 (Some parent) ''user'' ''pending''"

definition continuing :: "nat \<Rightarrow> message_branch_state" where
  "continuing leaf =
     \<lparr>bs_ExistingMessages = [], bs_ParentMessageID = Some leaf, bs_ParentPublicID = [], bs_SourceMessageID = None,
      bs_SourcePublicID = [], bs_ReuseUserMessage = None\<rparr>"

lemma turn_rows: "rows_ok turns" "find_message turns 9 6 = Some (sample_message 6 (Some 5) ''assistant'' ''error'')"
    "find_message turns 9 2 = Some (sample_message 2 (Some 1) ''assistant'' ''success'')"
    "sent_under turns 6 (next_message 6)" "sent_under turns 2 (next_message 2)"
    "\<not> is_context_message (sample_message 6 (Some 5) ''assistant'' ''error'')"
  by code_simp+

lemma sample_lineages:
  "lineage turns 9 6 = turns" "lineage turns 9 2 = take 2 turns" "length turns = 4"
  "context_messages_payload_bytes turns = 16" "context_messages_payload_bytes (take 2 turns) = 8"
  "map ms_ID (fst (normalize_default_branch_context (recover_assistant_retry_user_states turns) None)) = [1, 2, 5]"
  by code_simp+

lemma sample_limits: "context_suffix None xs = xs" "within_context_limits turns" "within_context_limits (take 2 turns)"
  using sample_lineages(3-5)
  by (simp_all add: context_suffix_def page_start_def page_boundary_def within_context_limits_def context_ancestor_max_count_def
      context_ancestor_max_bytes_def)

lemma sample_loads:
  "\<exists>loaded. load_message_branch_context turns 9 (continuing 6) None ''default'' = Inr loaded
     \<and> map ms_ID (bs_ExistingMessages loaded) = [1, 2, 5]"
  "\<exists>loaded. load_message_branch_context turns 9 (continuing 2) None ''edit'' = Inr loaded"
  using loaded_branch_context [OF turn_rows(1), of "continuing 6" 6 9 None "''default''"]
    loaded_branch_context [OF turn_rows(1), of "continuing 2" 2 9 None "''edit''"] sample_lineages
  by (simp_all add: sample_limits continuing_def Let_def)

theorem paged_loading_reads_the_lineage_witness:
  "load_message_branch_context turns 9 (continuing 2) None ''edit''
    = (let path = context_suffix None (lineage turns 9 2)
       in if \<not> within_context_limits path then Inl ErrContextAncestorSafetyLimit
          else Inr ((continuing 2)\<lparr>bs_ExistingMessages := recover_assistant_retry_user_states path\<rparr>))"
  using paged_loading_reads_the_lineage [OF turn_rows(1), of "continuing 2" 2 9 None "''edit''"] by (simp add: continuing_def Let_def)

theorem turn_carries_its_lineage_witness:
  "\<exists>loaded. load_message_branch_context turns 9 (continuing 2) None ''edit'' = Inr loaded
    \<and> build_branch_message_path loaded (next_message 2)
      = recover_assistant_retry_user_states (context_suffix None (lineage turns 9 2)) @ [next_message 2]"
proof -
  obtain loaded where loaded: "load_message_branch_context turns 9 (continuing 2) None ''edit'' = Inr loaded"
    using sample_loads(2) by blast
  have parts: "bs_ParentMessageID (continuing 2) = Some 2" "''edit'' \<noteq> ''default''"
      "bs_ReuseUserMessage (continuing 2) \<in> set [None, Some (sample_message 2 (Some 1) ''assistant'' ''success'')]"
      "bs_ReuseUserMessage (continuing 2) = None"
    by (simp_all add: continuing_def)
  have "build_branch_message_path loaded (next_message 2)
      = recover_assistant_retry_user_states (context_suffix None (lineage turns 9 2))
        @ (if bs_ReuseUserMessage (continuing 2) = None then [next_message 2] else [])"
    by (rule turn_carries_its_lineage [OF turn_rows(1,3) parts(1,2) turn_rows(5) parts(3) loaded])
  also have "\<dots> = recover_assistant_retry_user_states (context_suffix None (lineage turns 9 2)) @ [next_message 2]"
    by (simp only: parts(4) if_True refl)
  finally show ?thesis using loaded by (intro exI conjI)
qed

theorem failed_parent_drops_the_history_witness:
  "\<exists>loaded. load_message_branch_context turns 9 (continuing 6) None ''default'' = Inr loaded
    \<and> map ms_ID (bs_ExistingMessages loaded) = [1, 2, 5]
    \<and> build_branch_message_path loaded (next_message 6) = [next_message 6]"
proof -
  obtain loaded where loaded: "load_message_branch_context turns 9 (continuing 6) None ''default'' = Inr loaded"
      "map ms_ID (bs_ExistingMessages loaded) = [1, 2, 5]"
    using sample_loads(1) by (elim exE conjE)
  have parts: "bs_ParentMessageID (continuing 6) = Some 6" "bs_ReuseUserMessage (continuing 6) = None"
    by (simp_all add: continuing_def)
  have "build_branch_message_path loaded (next_message 6) = [next_message 6]"
    by (rule failed_parent_drops_the_history [OF turn_rows(1,2) parts(1) turn_rows(6,4) parts(2) loaded(1)])
  then show ?thesis using loaded by (intro exI conjI)
qed

end
