(* ===== verification/CompactionSamples.thy ===== *)
theory CompactionSamples
  imports CompactionRules BranchSamples
begin

text \<open>A branch of three turns that is compacted twice, on which the rules of \<open>CompactionRules\<close> apply.\<close>

definition long_branch :: "message list" where
  "long_branch =
     [sample_message 1 None ''user'' ''success'', sample_message 2 (Some 1) ''assistant'' ''success'',
      sample_message 5 (Some 2) ''user'' ''success'', sample_message 6 (Some 5) ''assistant'' ''success'',
      sample_message 7 (Some 6) ''user'' ''success'']"

definition turn_cap_config :: compact_config where
  "turn_cap_config =
     \<lparr>cf_ContextCompactEnabled = True, cf_ContextMaxTurns = 1, cf_ContextCompactPreserve = 1, cf_ContextCompactTriggerPercent = 0,
      cf_ContextWindowFallbackTokens = 0, cf_CompactLLMEnabled = True, cf_CompactMaxFailures = 0, cf_CompactSystemPrompt = [],
      cf_CompactLightPrompt = [], cf_ContextCompactHighlightsPerRole = 0, cf_ContextCompactSnippetChars = 0\<rparr>"

definition compact_request :: "message list \<Rightarrow> compact_input" where
  "compact_request messages =
     \<lparr>ci_ConversationID = 9, ci_UserID = 4, ci_RunID = ''run'', ci_Messages = messages, ci_ExistingSnapshot = None,
      ci_PromptTokenEstimate = 10, ci_PlatformModelName = ''m'', ci_ContextModelName = ''m'', ci_CapabilitiesJSON = [],
      ci_Force = False\<rparr>"

definition no_answer :: summarizer where "no_answer model messages prompt = None"

definition fresh_state :: compact_state where
  "fresh_state =
     \<lparr>st_Snapshots = [], st_NextID = 1, st_CompactedAt = Map.empty, st_llmSummarizer = Some no_answer,
      st_consecutiveLLMFailures = 0, st_lastLLMFailureAt = 0\<rparr>"

definition fixed_hash :: hash where "fixed_hash text = ''h''"

abbreviation no_json :: decoder where "no_json \<equiv> \<lambda>_. None"

lemma sample_latest: "get_latest_context_snapshot fresh_state 9 = None"
  by code_simp

lemma sample_decision:
  "case resolve_compaction_decision fixed_hash no_json turn_cap_config (compact_request long_branch) of
     None \<Rightarrow> False
   | Some d \<Rightarrow> map ms_ID (cd_coveredMessages d) = [1, 2, 5, 6] \<and> 1 \<le> count_user_turns (cd_coveredMessages d)"
  by code_simp

lemma first_compaction_is_stored:
  assumes "resolve_compaction_decision sha decode cfg input = Some d" "ci_ExistingSnapshot input = None"
    and "get_latest_context_snapshot st (ci_ConversationID input) = None" "1 \<le> count_user_turns (cd_coveredMessages d)"
  shows "\<exists>new st'. maybe_compact_conversation sha decode cfg nanos input st = (Some new, st')"
proof -
  have "cf_ContextCompactEnabled cfg \<and> ci_Messages input \<noteq> []" using assms(1) by (auto simp: resolve_compaction_decision_def split: if_splits)
  moreover have "input\<lparr>ci_ExistingSnapshot := None\<rparr> = input" using assms(2) by simp
  ultimately show ?thesis
    using assms(1,3,4) unfolding maybe_compact_conversation_def Let_def
    by (simp add: coverage_of_def full_coverage_def split: prod.split)
qed

lemma sample_compaction: "\<exists>new st'. maybe_compact_conversation fixed_hash no_json turn_cap_config 77 (compact_request long_branch) fresh_state = (Some new, st')"
proof -
  obtain d where "resolve_compaction_decision fixed_hash no_json turn_cap_config (compact_request long_branch) = Some d"
      "1 \<le> count_user_turns (cd_coveredMessages d)"
    using sample_decision by (auto split: option.splits)
  then show ?thesis using first_compaction_is_stored sample_latest by (simp add: compact_request_def)
qed

lemma sample_ids: "distinct (map ms_ID long_branch)" "list_all (\<lambda>m. 0 < ms_ID m \<and> trim_space (ms_PublicID m) \<noteq> []) long_branch"
    "list_all (\<lambda>m. \<not> has_status ''blocked'' m) long_branch" "length long_branch = 5" "context_messages_payload_bytes long_branch = 20"
  by code_simp+

lemma sample_branch: "hash_ok fixed_hash" "branch_ok long_branch" "snapshots_ok fresh_state"
  subgoal by (simp add: hash_ok_def fixed_hash_def)
  subgoal by (simp add: branch_ok_def sample_ids)
  subgoal by code_simp
  done


theorem rolling_compaction_stays_truthful_witness:
  "\<exists>k new st'. maybe_compact_conversation fixed_hash no_json turn_cap_config 77 (compact_request long_branch) fresh_state = (Some new, st')
    \<and> describes fixed_hash long_branch k new \<and> 0 < k"
proof -
  have "ci_Messages (compact_request long_branch) = drop 0 long_branch" by (simp add: compact_request_def)
  moreover have "covered_so_far fixed_hash long_branch 0
      (get_latest_context_snapshot fresh_state (ci_ConversationID (compact_request long_branch))) 0"
    using sample_latest by (simp add: covered_so_far_def compact_request_def)
  moreover obtain new st' where run:
      "maybe_compact_conversation fixed_hash no_json turn_cap_config 77 (compact_request long_branch) fresh_state = (Some new, st')"
    using sample_compaction by blast
  ultimately obtain k where "describes fixed_hash long_branch k new" "0 < k"
    using rolling_compaction_stays_truthful [OF sample_branch] by metis
  then show ?thesis using run by blast
qed










end
