(* ===== verification/Spec2Isabelle.thy ===== *)
theory Spec2Isabelle
  imports CacheStores CacheLimits FileQueue GenStream RouteFailure BillingSamples ToolRules LedgerSamples CompactionSamples
begin

text \<open>
  A model of the Go backend of DEEIX Chat (\<open>src/backend\<close>): the single-process runtime state, the
  routing of model requests to upstreams, and the billing of users. The program is a service
  with layers: \<open>transport/http\<close> decodes requests, \<open>application/*\<close> decides, \<open>infra/*\<close> keeps state
  (a cache, a SQL database) and talks to upstreams. The model takes the parts that keep state
  or decide about money and routes, and leaves aside what moves bytes.

  \<^bold>\<open>Shared ground.\<close> \<open>Prelude\<close> has Go's \<open>int64\<close> as \<open>int\<close> with \<open>wrap64\<close> written at every operation that
  can overflow, truncating division, instants and durations in nanoseconds (the difference of
  two instants saturates, as \<open>time.Time.Sub\<close> does) and Go maps as partial functions. \<open>GoText\<close>
  has the functions of \<open>strings\<close> and \<open>strconv\<close> on byte strings.

  \<^bold>\<open>The cache\<close> (\<open>infra/cache/memory\<close>, used when no Redis is configured). One record \<open>cache\<close> holds what
  the Go struct holds under its mutex; every method is a function of that record and of the
  instant it reads the clock, so a sequence of calls is an interleaving of critical sections.
  \<open>CacheState\<close> (\<open>cache.go\<close>, \<open>maintenance.go\<close>: the record and the sweep), \<open>CacheStores\<close> (\<open>settings.go\<close>,
  \<open>user_settings.go\<close>, \<open>rag.go\<close>, \<open>provider_auth_bridge.go\<close>), \<open>CacheLimits\<close> (\<open>rate_limiter.go\<close>), \<open>Circuit\<close>
  (\<open>channel.go\<close>), \<open>FileQueue\<close> (\<open>file_queue.go\<close>), \<open>GenStream\<close> (\<open>generation_stream.go\<close>). The lemmas show that
  one-time records are handed out once; that the limiters decide as one that logs every
  accepted request; that a breaker opens exactly when the log of failures says so and, until its probe is
  released or fails, lets no second one through in its interval; that the queue refines a table of leases, loses no message and
  wakes every waiting reader; that a stream is the log of its last events.

  \<^bold>\<open>Routing\<close> (\<open>application/channel\<close>). \<open>Adapters\<close> (\<open>ports/llm/adapter.go\<close>, \<open>model_catalog.go\<close>: protocols
  and the kinds they serve), \<open>Breaker\<close> (\<open>breaker_defaults.go\<close>: validation, the stored JSON, the short
  cache), \<open>Routing\<close> and \<open>RouteChoice\<close> (\<open>ResolveRoute\<close> in \<open>service_routing.go\<close>, over an abstract cache that
  keeps the locale \<open>breaker_cache\<close>, of which the cache above is an instance), \<open>RouteFailure\<close>
  (\<open>MarkRouteSuccess\<close>, \<open>MarkRouteFailure\<close>, classification and failover). The lemmas show that a resolved
  route may serve the request, that a healthy one is found, that no probe of a breaker leaks,
  and what a report of success or failure does to the circuits.

  \<^bold>\<open>Billing\<close> (\<open>application/billing/service.go\<close>, \<open>infra/persistence/postgres/billing\<close>). \<open>BillingData\<close> has
  the rows and the record \<open>billing_db\<close> of the tables; a transaction is a function from it to an
  error (rolled back) or a result with the new tables. \<open>Pricing\<close> (integer arithmetic of bills),
  \<open>Timeline\<close>, \<open>Subscriptions\<close>, \<open>Grants\<close> (paid time of plans and the current subscription), \<open>Calendar\<close>
  (anchored months), \<open>Accounts\<close> (balance and journal), \<open>Reservations\<close>, \<open>WeeklyQuota\<close>, \<open>QuotaCycles\<close>, \<open>Budgets\<close>
  (\<open>repository_reservation.go\<close>, \<open>repository_quota.go\<close>, \<open>repository_weekly.go\<close>: budgets held by running
  calls and their settlement), \<open>Orders\<close> and \<open>Redemptions\<close> (payment orders, redemption codes).
  \<open>Upkeep\<close> has what other parts of the program do to the tables: the cleanup of logs (\<open>application/logcleanup\<close>), which
  deletes ledger rows and orders for good, the hard deletion and the import of accounts (\<open>postgres/user/repository.go\<close>).
  \<open>Statements\<close> names the kinds of writes the transactions are made of, as a relation \<open>db_stmt\<close>;
  \<open>Transactions\<close> shows that every operation is a sequence of them; \<open>BillingHistory\<close> lets the operations, those of
  \<open>Upkeep\<close> included, run in any order under a clock that does not run backwards; \<open>BillingInvariants\<close> shows what holds
  after every history: the journal explains each balance, a paid top-up is credited once, a
  code is not overdrawn, a weekly counter is what was settled. \<open>BillingSamples\<close> computes a history.

  A paid call goes through three operations. \<open>Authorization\<close> has the first, \<open>AuthorizeUsage\<close> (the mode is
  fixed, a budget reserved), and the last, \<open>RecordUsageWithAuthorization\<close> (the bill is settled in that
  mode); \<open>Ledger\<close> has the one between, \<open>BuildUsageLedger\<close>, which prices tokens, calls, seconds, services,
  provider-native tools and MCP tools and writes the row with its snapshot. \<open>Settlements\<close> shows, by the
  locale \<open>settles_once\<close> and its four instances, that a bill and an order are settled once however often
  they are retried, also after the rows they left were cleaned up. \<open>LedgerRules\<close> shows what a bill amounts to: the list price at the rate of the user's group, to the rounding and in a
  named range, nothing in self mode, only services for a free model, the same in every order of Go's
  maps. \<open>LedgerSamples\<close> computes bills.

  \<^bold>\<open>Native tools\<close> (\<open>shared/nativetool/catalog.go\<close>). \<open>NativeTools\<close> has the built-in catalogue, the payload made
  of a user's option, the definitions administrators add and the prices of calls with their overrides;
  \<open>ToolRules\<close> shows that a payload keeps what the tool fixes at every depth, nothing denied and the user's values elsewhere, that the merged catalogue is
  sound, that saved overrides are read back and that calls cost what the catalogue lists.

  \<^bold>\<open>Conversations\<close> (\<open>application/conversation\<close>, \<open>application/compact\<close>). A conversation is a tree of messages and a
  request continues one branch of it. \<open>ModelCaps\<close> (\<open>domain/channel/model_caps.go\<close>) has the context window of a model, the
  budget of its input and the estimates of tokens; \<open>ChatSnapshots\<close> (\<open>snapshot_scope.go\<close>) the messages, the summaries that
  cover a prefix of a branch and the search of their boundary; \<open>Branches\<close> (\<open>service_branch.go\<close>, \<open>prompt_scope.go\<close>, the recursive
  queries of \<open>postgres/conversation/repository.go\<close>) the choice of the branch, its loading and the path of the prompt;
  \<open>Compaction\<close> (\<open>compact/service.go\<close>) the decision to compact, the summary and the breaker of its language model.
  \<open>BranchRules\<close> shows that paging reads exactly the lineage, that a path is a path whatever the rows, and that a message
  below a failed answer is sent alone; \<open>CompactionRules\<close> that summaries stay true to the branch, and when a summary and what is
  sent beside it make the branch and when both give way to its usable end. \<open>BranchSamples\<close> and \<open>CompactionSamples\<close> compute both on small conversations.

  \<^bold>\<open>Termination and bounds.\<close> Loops are structural recursion or a \<open>function\<close> with a measure (the building
  of a timeline, the advance of weekly cycles, the search of an anchored month, the pages of a branch, a path among rows that
  may be cyclic); no fuel is used.
  \<open>int64\<close> amounts are kept in range by hypotheses that name the range, or by the saturating
  helpers of the code, whose saturation is modelled.

  \<^bold>\<open>Parameters.\<close> JSON encoders and decoders, parsers of floats, random draws, the iteration order of Go
  maps and the clock are arguments of the definitions that use them.

  \<^bold>\<open>Not modelled.\<close> The HTTP layer, authentication, the sending and streaming of messages with
  their traces and attachments, the LLM wire adapters, extraction and OCR, retrieval, the Redis twin of the cache, administration and
  configuration are outside the model: they are transport, text processing or storage around the
  parts above. Failures of the database itself are modelled only where the code tells them
  apart (a number out of range); log lines and nil receivers are left out.
\<close>

end
